(* ===== verification/JsPrelude.thy ===== *)
theory JsPrelude
  imports Main "HOL-Library.Multiset" "HOL-Library.Sublist"
begin

text \<open>
  The part of JavaScript that the modelled modules of \<open>desktop/\<close> share: scalar values and their
  conversion by \<open>String(\<dots>)\<close> and \<open>Number(\<dots>)\<close>, thrown errors as values of a sum type, the
  insertion-ordered \<open>Map\<close>, the plain object with its integer-first key order, the stable
  \<open>Array.prototype.sort\<close>, \<open>String.prototype.trim\<close>, and three interfaces that several components
  implement: a keyed store, a machine with an invariant, and a gate of request tokens.

  Conventions. A product identifier crosses the wire as a number or a string, and the code compares
  identifiers after \<open>String(\<dots>)\<close>; such a value is a \<open>jsval\<close>. Numbers are mathematical integers:
  every number the modelled code computes with is an integer far below \<open>2^53\<close>, and where the code
  tests for that (\<open>Number.isSafeInteger\<close>) the input has type \<open>jsnum\<close>, whose second constructor
  stands for every value the test rejects for not being an integer. Strings are lists of
  characters; a module that works on UTF-16 code units says so and uses words.
\<close>

named_theorems js_simps \<open>unfolding rules of the JavaScript layer\<close>

section \<open>Thrown errors\<close>

datatype js_error = TypeError string | Error string

type_synonym 'a result = "js_error + 'a"

definition bind_r :: "'e + 'a \<Rightarrow> ('a \<Rightarrow> 'e + 'b) \<Rightarrow> 'e + 'b" where
  "bind_r m f = (case m of Inl e \<Rightarrow> Inl e | Inr a \<Rightarrow> f a)"

lemma bind_r_simps [simp]:
  "bind_r (Inl e) f = Inl e"
  "bind_r (Inr a) f = f a"
  by (simp_all add: bind_r_def)

lemma bind_r_Inr_iff: "bind_r m f = Inr b \<longleftrightarrow> (\<exists>a. m = Inr a \<and> f a = Inr b)"
  by (cases m) auto

lemma bind_r_InrE:
  assumes "bind_r m f = Inr b"
  obtains a where "m = Inr a" "f a = Inr b"
  using assms by (auto simp: bind_r_Inr_iff)

definition guard_r :: "bool \<Rightarrow> 'e \<Rightarrow> 'e + unit" where
  "guard_r b e = (if b then Inr () else Inl e)"

lemma guard_r_simps [simp]:
  "guard_r b e = Inr u \<longleftrightarrow> b"
  "guard_r True e = Inr ()"
  "guard_r False e = Inl e"
  by (simp_all add: guard_r_def)

text \<open>\<open>Array.prototype.map\<close> with a callback that may throw: the first throw ends it.\<close>

fun map_r :: "('a \<Rightarrow> 'e + 'b) \<Rightarrow> 'a list \<Rightarrow> 'e + 'b list" where
  "map_r f [] = Inr []"
| "map_r f (x # xs) = bind_r (f x) (\<lambda>y. bind_r (map_r f xs) (\<lambda>ys. Inr (y # ys)))"

lemma map_r_Inr_iff: "map_r f xs = Inr ys \<longleftrightarrow> list_all2 (\<lambda>x y. f x = Inr y) xs ys"
  by (induction xs arbitrary: ys) (auto simp: bind_r_Inr_iff list_all2_Cons1)

lemma map_r_Inr_length: "map_r f xs = Inr ys \<Longrightarrow> length ys = length xs"
  by (simp add: map_r_Inr_iff list_all2_lengthD)

lemma map_r_total: "(\<And>x. x \<in> set xs \<Longrightarrow> f x = Inr (g x)) \<Longrightarrow> map_r f xs = Inr (map g xs)"
  by (induction xs) auto

section \<open>Scalars\<close>

datatype jsval = JUndef | JNull | JNum int | JStr string

definition is_nullish :: "jsval \<Rightarrow> bool" where
  "is_nullish v \<longleftrightarrow> v = JUndef \<or> v = JNull"

lemma is_nullish_simps [simp]:
  "is_nullish JUndef" "is_nullish JNull" "\<not> is_nullish (JNum n)" "\<not> is_nullish (JStr s)"
  by (simp_all add: is_nullish_def)

text \<open>The nullish coalescing operator \<open>a ?? b\<close>.\<close>

definition nullish_or :: "jsval \<Rightarrow> jsval \<Rightarrow> jsval" where
  "nullish_or a b = (if is_nullish a then b else a)"

definition digit_char :: "nat \<Rightarrow> char" where
  "digit_char d = char_of (48 + d)"

fun show_nat :: "nat \<Rightarrow> string" where
  "show_nat n = (if n < 10 then [digit_char n] else show_nat (n div 10) @ [digit_char (n mod 10)])"

declare show_nat.simps [simp del]

definition show_int :: "int \<Rightarrow> string" where
  "show_int n = (if n < 0 then CHR ''-'' # show_nat (nat (- n)) else show_nat (nat n))"

fun js_String :: "jsval \<Rightarrow> string" where
  "js_String JUndef = ''undefined''"
| "js_String JNull = ''null''"
| "js_String (JNum n) = show_int n"
| "js_String (JStr s) = s"

text \<open>\<open>left != null && right != null && String(left) === String(right)\<close>, the helper \<open>sameId\<close> that
  every renderer module repeats.\<close>

definition sameId :: "jsval \<Rightarrow> jsval \<Rightarrow> bool" where
  "sameId l r \<longleftrightarrow> \<not> is_nullish l \<and> \<not> is_nullish r \<and> js_String l = js_String r"

text \<open>The comparison \<open>String(left) === String(right)\<close> without the null guard.\<close>

definition eqId :: "jsval \<Rightarrow> jsval \<Rightarrow> bool" where
  "eqId l r \<longleftrightarrow> js_String l = js_String r"

lemma eqId_refl [simp]: "eqId v v"
  by (simp add: eqId_def)

lemma eqId_sym: "eqId a b \<Longrightarrow> eqId b a"
  by (simp add: eqId_def)

lemma eqId_trans: "eqId a b \<Longrightarrow> eqId b c \<Longrightarrow> eqId a c"
  by (simp add: eqId_def)

lemma sameId_sym: "sameId a b \<Longrightarrow> sameId b a"
  by (auto simp: sameId_def)

lemma sameId_trans: "sameId a b \<Longrightarrow> sameId b c \<Longrightarrow> sameId a c"
  by (auto simp: sameId_def)

lemma sameId_refl [simp]: "sameId v v \<longleftrightarrow> \<not> is_nullish v"
  by (auto simp: sameId_def)

lemma sameId_nullish [simp]: "\<not> sameId JNull v" "\<not> sameId v JNull" "\<not> sameId JUndef v" "\<not> sameId v JUndef"
  by (simp_all add: sameId_def)

lemma sameId_eqId: "sameId a b \<Longrightarrow> eqId a b"
  by (simp add: sameId_def eqId_def)

lemma sameId_JStr [simp]: "sameId (JStr a) (JStr b) \<longleftrightarrow> a = b"
  by (simp add: sameId_def)


section \<open>Numbers and decimal numerals\<close>

text \<open>A value given to \<open>Number.isSafeInteger\<close>: an integral number, or anything else (a fraction, \<open>NaN\<close>,
  an infinity, or no number at all).\<close>

datatype jsnum = NInt int | NOther

definition max_safe :: int where
  "max_safe = 9007199254740991"

definition is_safe_integer :: "jsnum \<Rightarrow> bool" where
  "is_safe_integer v = (case v of NInt n \<Rightarrow> - max_safe \<le> n \<and> n \<le> max_safe | NOther \<Rightarrow> False)"

definition num_val :: "jsnum \<Rightarrow> int" where
  "num_val v = (case v of NInt n \<Rightarrow> n | NOther \<Rightarrow> 0)"

definition is_digit :: "char \<Rightarrow> bool" where
  "is_digit c \<longleftrightarrow> 48 \<le> (of_char c :: nat) \<and> (of_char c :: nat) \<le> 57"

definition digit_val :: "char \<Rightarrow> nat" where
  "digit_val c = of_char c - 48"

definition read_digits :: "string \<Rightarrow> nat" where
  "read_digits s = foldl (\<lambda>a c. 10 * a + digit_val c) 0 s"

text \<open>The white space that \<open>trim\<close> removes, as far as single-byte characters go: tab, line feed,
  vertical tab, form feed, carriage return, space and the no-break space.\<close>

definition is_space :: "char \<Rightarrow> bool" where
  "is_space c \<longleftrightarrow> (of_char c :: nat) \<in> {9, 10, 11, 12, 13, 32, 160}"

definition js_trim :: "string \<Rightarrow> string" where
  "js_trim s = rev (dropWhile is_space (rev (dropWhile is_space s)))"

text \<open>\<open>Number(s)\<close> on a string: the decimal integer literals, with white space around them and a sign
  before them. \<open>None\<close> is \<open>NaN\<close>. (The other numeric literals, \<open>1e3\<close>, \<open>0x10\<close> or \<open>1.5\<close>, are never
  identifiers or sequence numbers of the product.)\<close>

fun read_signed :: "string \<Rightarrow> int option" where
  "read_signed s =
     (case s of
        [] \<Rightarrow> Some 0
      | c # cs \<Rightarrow>
          if c = CHR ''-'' then (if cs \<noteq> [] \<and> list_all is_digit cs then Some (- int (read_digits cs)) else None)
          else if c = CHR ''+'' then (if cs \<noteq> [] \<and> list_all is_digit cs then Some (int (read_digits cs)) else None)
          else if list_all is_digit s then Some (int (read_digits s)) else None)"

fun js_Number :: "jsval \<Rightarrow> int option" where
  "js_Number JUndef = None"
| "js_Number JNull = Some 0"
| "js_Number (JNum n) = Some n"
| "js_Number (JStr s) = read_signed (js_trim s)"

text \<open>\<open>Number(a) - Number(b)\<close> as a comparator's result: \<open>NaN\<close> counts as equal.\<close>

definition number_diff :: "jsval \<Rightarrow> jsval \<Rightarrow> int" where
  "number_diff a b = (case (js_Number a, js_Number b) of (Some x, Some y) \<Rightarrow> x - y | _ \<Rightarrow> 0)"

lemma of_char_digit: "d < 10 \<Longrightarrow> (of_char (digit_char d) :: nat) = 48 + d"
  by (simp add: digit_char_def)

lemma is_digit_digit_char [simp]: "d < 10 \<Longrightarrow> is_digit (digit_char d)"
  by (simp add: is_digit_def of_char_digit)

lemma digit_val_digit_char [simp]: "d < 10 \<Longrightarrow> digit_val (digit_char d) = d"
  by (simp add: digit_val_def of_char_digit)

lemma read_digits_snoc: "read_digits (s @ [c]) = 10 * read_digits s + digit_val c"
  by (simp add: read_digits_def)

lemma show_nat_nonempty [simp]: "show_nat n \<noteq> []"
  by (subst show_nat.simps) simp

lemma show_nat_digits: "list_all is_digit (show_nat n)"
proof (induction n rule: show_nat.induct)
  case (1 n)
  then show ?case by (subst show_nat.simps) auto
qed

lemma read_show_nat [simp]: "read_digits (show_nat n) = n"
proof (induction n rule: show_nat.induct)
  case (1 n)
  show ?case
  proof (cases "n < 10")
    case True
    then show ?thesis by (subst show_nat.simps) (simp add: read_digits_def)
  next
    case False
    with 1 have "read_digits (show_nat (n div 10)) = n div 10" by simp
    with False show ?thesis by (subst show_nat.simps) (simp add: read_digits_snoc)
  qed
qed

lemma show_nat_inject [simp]: "show_nat m = show_nat n \<longleftrightarrow> m = n"
  by (metis read_show_nat)

lemma show_nat_hd_digit: "is_digit (hd (show_nat n))"
  using show_nat_digits [of n] by (cases "show_nat n") auto

lemma show_nat_not_minus: "show_nat m \<noteq> CHR ''-'' # s"
proof
  assume "show_nat m = CHR ''-'' # s"
  then show False using show_nat_hd_digit [of m] by (simp add: is_digit_def)
qed

lemma show_int_inject [simp]: "show_int m = show_int n \<longleftrightarrow> m = n"
  by (auto simp: show_int_def show_nat_not_minus show_nat_not_minus [symmetric])

lemma eqId_JNum [simp]: "eqId (JNum m) (JNum n) \<longleftrightarrow> m = n"
  by (simp add: eqId_def)

lemma eqId_JStr [simp]: "eqId (JStr a) (JStr b) \<longleftrightarrow> a = b"
  by (simp add: eqId_def)

lemma sameId_JNum [simp]: "sameId (JNum m) (JNum n) \<longleftrightarrow> m = n"
  by (simp add: sameId_def)

lemma sameId_number_string: "sameId (JNum n) (JStr (show_int n))"
  by (simp add: sameId_def)

section \<open>Array.prototype.find\<close>

lemma find_SomeD: "find P xs = Some x \<Longrightarrow> x \<in> set xs \<and> P x"
  by (auto simp: find_Some_iff)

section \<open>Array.prototype.sort\<close>

text \<open>\<open>sort\<close> with a comparator is a stable sort; insertion sort is the specification-level reading.\<close>

fun sort_insert :: "('a \<Rightarrow> 'a \<Rightarrow> int) \<Rightarrow> 'a \<Rightarrow> 'a list \<Rightarrow> 'a list" where
  "sort_insert cmp x [] = [x]"
| "sort_insert cmp x (y # ys) = (if cmp x y \<le> 0 then x # y # ys else y # sort_insert cmp x ys)"

definition js_sort :: "('a \<Rightarrow> 'a \<Rightarrow> int) \<Rightarrow> 'a list \<Rightarrow> 'a list" where
  "js_sort cmp xs = foldr (sort_insert cmp) xs []"

lemma js_sort_simps [simp]:
  "js_sort cmp [] = []"
  "js_sort cmp (x # xs) = sort_insert cmp x (js_sort cmp xs)"
  by (simp_all add: js_sort_def)

lemma mset_sort_insert [simp]: "mset (sort_insert cmp x ys) = add_mset x (mset ys)"
  by (induction ys) auto

lemma mset_js_sort [simp]: "mset (js_sort cmp xs) = mset xs"
  by (induction xs) auto

lemma set_js_sort [simp]: "set (js_sort cmp xs) = set xs"
  by (metis mset_js_sort set_mset_mset)

lemma length_js_sort [simp]: "length (js_sort cmp xs) = length xs"
  by (metis mset_js_sort size_mset)

lemma js_sort_eq_Nil [simp]: "js_sort cmp xs = [] \<longleftrightarrow> xs = []"
  by (metis length_js_sort length_0_conv)

lemma set_sort_insert: "set (sort_insert cmp x ys) = insert x (set ys)"
  by (metis mset_sort_insert set_mset_add_mset_insert set_mset_mset)

lemma distinct_js_sort [simp]: "distinct (js_sort cmp xs) = distinct xs"
  by (metis mset_js_sort mset_eq_imp_distinct_iff)

lemma distinct_map_js_sort [simp]: "distinct (map f (js_sort cmp xs)) = distinct (map f xs)"
  by (rule mset_eq_imp_distinct_iff) simp

definition total_cmp :: "('a \<Rightarrow> 'a \<Rightarrow> int) \<Rightarrow> bool" where
  "total_cmp cmp \<longleftrightarrow> (\<forall>x y. cmp x y \<le> 0 \<or> cmp y x \<le> 0)
     \<and> (\<forall>x y z. cmp x y \<le> 0 \<longrightarrow> cmp y z \<le> 0 \<longrightarrow> cmp x z \<le> 0)"

lemma sorted_sort_insert:
  assumes "total_cmp cmp" "sorted_wrt (\<lambda>a b. cmp a b \<le> 0) ys"
  shows "sorted_wrt (\<lambda>a b. cmp a b \<le> 0) (sort_insert cmp x ys)"
  using assms(2)
proof (induction ys)
  case Nil
  then show ?case by simp
next
  case (Cons y ys)
  have tot: "cmp a b \<le> 0 \<or> cmp b a \<le> 0" and tr: "cmp a b \<le> 0 \<Longrightarrow> cmp b c \<le> 0 \<Longrightarrow> cmp a c \<le> 0" for a b c
    using assms(1) by (auto simp: total_cmp_def)
  show ?case
  proof (cases "cmp x y \<le> 0")
    case True
    with Cons.prems tr show ?thesis by auto
  next
    case False
    with tot have "cmp y x \<le> 0" by blast
    with False Cons show ?thesis by (auto simp: set_sort_insert)
  qed
qed

lemma sorted_js_sort: "total_cmp cmp \<Longrightarrow> sorted_wrt (\<lambda>a b. cmp a b \<le> 0) (js_sort cmp xs)"
  by (induction xs) (auto intro: sorted_sort_insert)

text \<open>Stability: the elements of a class the comparator cannot tell apart keep their order.\<close>

lemma filter_sort_insert:
  assumes "\<And>y. P y \<Longrightarrow> y \<in> set ys \<Longrightarrow> P x \<Longrightarrow> cmp x y \<le> 0"
  shows "filter P (sort_insert cmp x ys) = (if P x then x # filter P ys else filter P ys)"
  using assms by (induction ys) auto

lemma filter_js_sort:
  assumes "\<And>x y. P x \<Longrightarrow> P y \<Longrightarrow> cmp x y \<le> 0"
  shows "filter P (js_sort cmp xs) = filter P xs"
  using assms by (induction xs) (auto simp: filter_sort_insert)

lemma js_sort_sorted_id: "sorted_wrt (\<lambda>a b. cmp a b \<le> 0) xs \<Longrightarrow> js_sort cmp xs = xs"
proof (induction xs)
  case Nil
  then show ?case by simp
next
  case (Cons x xs)
  then show ?case by (cases xs) auto
qed

text \<open>A comparator that is a difference of integer keys on the elements at hand sorts by the key.\<close>

lemma sort_insert_cong:
  "(\<And>y. y \<in> set ys \<Longrightarrow> cmp x y = cmp' x y) \<Longrightarrow> sort_insert cmp x ys = sort_insert cmp' x ys"
  by (induction ys) auto

lemma js_sort_cong:
  "(\<And>x y. x \<in> set xs \<Longrightarrow> y \<in> set xs \<Longrightarrow> cmp x y = cmp' x y) \<Longrightarrow> js_sort cmp xs = js_sort cmp' xs"
proof (induction xs)
  case (Cons x xs)
  then have "js_sort cmp xs = js_sort cmp' xs" by simp
  with Cons.prems show ?case by (auto intro!: sort_insert_cong)
qed simp

lemma total_cmp_key: "total_cmp (\<lambda>x y. f x - f y)"
  by (auto simp: total_cmp_def)

lemma sorted_js_sort_key:
  assumes "\<And>x y. x \<in> set xs \<Longrightarrow> y \<in> set xs \<Longrightarrow> cmp x y = f x - f y"
  shows "sorted (map f (js_sort cmp xs))"
proof -
  have "js_sort cmp xs = js_sort (\<lambda>x y. f x - f y) xs" by (rule js_sort_cong) (rule assms)
  moreover have "sorted_wrt (\<lambda>a b. f a - f b \<le> 0) (js_sort (\<lambda>x y. f x - f y) xs)"
    by (rule sorted_js_sort) (rule total_cmp_key)
  ultimately show ?thesis by (simp add: sorted_wrt_map)
qed

text \<open>\<open>Number(a) > Number(b)\<close>, false when one of them is \<open>NaN\<close>.\<close>

definition number_gt :: "jsval \<Rightarrow> jsval \<Rightarrow> bool" where
  "number_gt a b = (case (js_Number a, js_Number b) of (Some x, Some y) \<Rightarrow> x > y | _ \<Rightarrow> False)"

text \<open>Truthiness of a string that may be missing, and \<open>s || d\<close> for it.\<close>

definition truthy_str :: "string option \<Rightarrow> bool" where
  "truthy_str s \<longleftrightarrow> s \<noteq> None \<and> s \<noteq> Some []"

definition str_or :: "string option \<Rightarrow> string \<Rightarrow> string" where
  "str_or s d = (case s of None \<Rightarrow> d | Some t \<Rightarrow> if t = [] then d else t)"

text \<open>\<open>a || b\<close> on numbers, the way comparators are chained: the second decides when the first is zero.\<close>

definition or_else :: "int \<Rightarrow> int \<Rightarrow> int" where
  "or_else a b = (if a \<noteq> 0 then a else b)"

text \<open>\<open>[...new Set(xs)]\<close>: the first occurrences, in order.\<close>

definition first_unique :: "'a list \<Rightarrow> 'a list" where
  "first_unique xs = rev (remdups (rev xs))"

lemma set_first_unique [simp]: "set (first_unique xs) = set xs"
  by (simp add: first_unique_def)

lemma distinct_first_unique [simp]: "distinct (first_unique xs)"
  by (simp add: first_unique_def)

section \<open>The order of strings\<close>

text \<open>\<open>a < b ? -1 : a > b ? 1 : 0\<close> on strings, the order of \<open>sort()\<close>: by code units, a prefix first.\<close>

fun str_cmp :: "string \<Rightarrow> string \<Rightarrow> int" where
  "str_cmp [] [] = 0"
| "str_cmp [] (_ # _) = -1"
| "str_cmp (_ # _) [] = 1"
| "str_cmp (a # as) (b # bs) =
     (if (of_char a :: nat) < of_char b then -1 else if (of_char b :: nat) < of_char a then 1 else str_cmp as bs)"

lemma str_cmp_refl [simp]: "str_cmp a a = 0"
  by (induction a) simp_all

lemma str_cmp_eq [simp]: "str_cmp a b = 0 \<longleftrightarrow> a = b"
  by (induction a b rule: str_cmp.induct) (auto simp: linorder_neq_iff dest: of_char_eq_iff [THEN iffD1])

lemma str_cmp_sym: "str_cmp b a = - str_cmp a b"
  by (induction a b rule: str_cmp.induct) auto

lemma str_cmp_trans: "str_cmp a b \<le> 0 \<Longrightarrow> str_cmp b c \<le> 0 \<Longrightarrow> str_cmp a c \<le> 0"
proof (induction a arbitrary: b c)
  case Nil
  then show ?case by (cases c) simp_all
next
  case (Cons x a)
  from Cons.prems obtain y b' where b: "b = y # b'" by (cases b) auto
  with Cons.prems obtain z c' where "c = z # c'" by (cases c) auto
  with Cons b show ?case by (auto split: if_splits)
qed

lemma total_cmp_str: "total_cmp (\<lambda>x y. str_cmp (f x) (f y))"
proof -
  have "str_cmp a b \<le> 0 \<or> str_cmp b a \<le> 0" for a b using str_cmp_sym [of a b] by linarith
  then show ?thesis using str_cmp_trans unfolding total_cmp_def by blast
qed

section \<open>Sorting into one order\<close>

text \<open>Two lists of the same elements that are sorted by an antisymmetric relation are equal.\<close>

lemma sorted_wrt_unique:
  "sorted_wrt R xs \<Longrightarrow> sorted_wrt R ys \<Longrightarrow> mset xs = mset ys
     \<Longrightarrow> \<forall>x \<in> set xs. \<forall>y \<in> set xs. R x y \<longrightarrow> R y x \<longrightarrow> x = y \<Longrightarrow> xs = ys"
proof (induction xs arbitrary: ys)
  case (Cons x xs)
  obtain y zs where ys: "ys = y # zs" using Cons.prems(3) by (cases ys) auto
  have set: "set (x # xs) = set (y # zs)" using Cons.prems(3) ys by (metis set_mset_mset)
  have "x = y"
  proof (rule ccontr)
    assume ne: "x \<noteq> y"
    with set have "y \<in> set xs" "x \<in> set zs" by auto
    with Cons.prems(1,2) ys have "R x y" "R y x" by auto
    with Cons.prems(4) \<open>y \<in> set xs\<close> ne show False by auto
  qed
  with Cons ys show ?case by simp
qed simp

lemma js_sort_perm:
  assumes "total_cmp cmp" "mset xs = mset ys" "\<And>x y. x \<in> set xs \<Longrightarrow> y \<in> set xs \<Longrightarrow> cmp x y \<le> 0 \<Longrightarrow> cmp y x \<le> 0 \<Longrightarrow> x = y"
  shows "js_sort cmp xs = js_sort cmp ys"
  by (rule sorted_wrt_unique [OF sorted_js_sort [OF assms(1)] sorted_js_sort [OF assms(1)]]) (use assms in auto)

lemma js_sort_str_perm:
  assumes "mset xs = mset ys" "inj_on f (set xs)"
  shows "js_sort (\<lambda>a b. str_cmp (f a) (f b)) xs = js_sort (\<lambda>a b. str_cmp (f a) (f b)) ys"
proof (rule js_sort_perm [OF total_cmp_str assms(1)])
  fix x y assume "x \<in> set xs" "y \<in> set xs" "str_cmp (f x) (f y) \<le> 0" "str_cmp (f y) (f x) \<le> 0"
  then have "str_cmp (f x) (f y) = 0" using str_cmp_sym [of "f x" "f y"] by linarith
  with assms(2) \<open>x \<in> set xs\<close> \<open>y \<in> set xs\<close> show "x = y" by (simp add: inj_on_def)
qed

lemma sorted_split:
  fixes f :: "'a \<Rightarrow> int"
  assumes "sorted (map f xs)"
  shows "xs = filter (\<lambda>x. f x < b) xs @ filter (\<lambda>x. b \<le> f x) xs"
  using assms
proof (induction xs)
  case (Cons x xs)
  show ?case
  proof (cases "f x < b")
    case False
    with Cons.prems have "filter (\<lambda>x. f x < b) (x # xs) = []" by (auto simp: filter_empty_conv)
    moreover have "filter (\<lambda>x. b \<le> f x) (x # xs) = x # xs" using False Cons.prems by (fastforce simp: filter_id_conv)
    ultimately show ?thesis by simp
  qed (use Cons in simp)
qed simp

end
