(* ===== verification/JsCollections.thy ===== *)
theory JsCollections
  imports JsPrelude
begin

text \<open>
  The collections of JavaScript the modules keep their state in, and the interfaces over them.
  A \<open>Map\<close> is an association list in insertion order; \<open>set\<close> on a present key keeps its place. A plain
  object used as a dictionary is the same list, but its keys come out with the array indices first, in
  numeric order, and only then the other keys in insertion order.

  \<^item> \<open>keyed_store\<close>: what a lookup returns after an insert or a delete, and the invariant both keep;
    \<open>ordered_store\<close> adds the order of the keys. A \<open>Map\<close> implements both. A plain object implements the
    first only, and \<open>obj_order_not_insertion\<close> shows why.
  \<^item> \<open>machine\<close>: a step function with an invariant; every run keeps it.
  \<^item> \<open>token_gate\<close>: tokens that a later request or a revocation makes stale, for ever.
\<close>

section \<open>Map\<close>

type_synonym ('k, 'v) jsmap = "('k \<times> 'v) list"

definition map_get :: "('k, 'v) jsmap \<Rightarrow> 'k \<Rightarrow> 'v option" where
  "map_get m k = map_of m k"

definition map_has :: "('k, 'v) jsmap \<Rightarrow> 'k \<Rightarrow> bool" where
  "map_has m k \<longleftrightarrow> k \<in> set (map fst m)"

fun map_set :: "('k, 'v) jsmap \<Rightarrow> 'k \<Rightarrow> 'v \<Rightarrow> ('k, 'v) jsmap" where
  "map_set [] k v = [(k, v)]"
| "map_set ((k', v') # m) k v = (if k' = k then (k, v) # m else (k', v') # map_set m k v)"

definition map_delete :: "('k, 'v) jsmap \<Rightarrow> 'k \<Rightarrow> ('k, 'v) jsmap" where
  "map_delete m k = filter (\<lambda>(k', _). k' \<noteq> k) m"

definition map_keys :: "('k, 'v) jsmap \<Rightarrow> 'k list" where
  "map_keys m = map fst m"

definition map_values :: "('k, 'v) jsmap \<Rightarrow> 'v list" where
  "map_values m = map snd m"

definition map_ok :: "('k, 'v) jsmap \<Rightarrow> bool" where
  "map_ok m \<longleftrightarrow> distinct (map fst m)"

text \<open>\<open>new Map(entries)\<close>.\<close>

definition map_from :: "('k \<times> 'v) list \<Rightarrow> ('k, 'v) jsmap" where
  "map_from es = foldl (\<lambda>m (k, v). map_set m k v) [] es"

lemma map_get_Nil [simp]: "map_get [] k = None"
  by (simp add: map_get_def)

lemma map_get_set [simp]: "map_get (map_set m k v) k' = (if k' = k then Some v else map_get m k')"
  by (induction m) (auto simp: map_get_def)

lemma map_has_Cons [simp]: "map_has ((k', v) # m) k \<longleftrightarrow> k' = k \<or> map_has m k"
  by (auto simp: map_has_def)

lemma map_keys_Cons [simp]: "map_keys ((k, v) # m) = k # map_keys m" "map_keys [] = []"
  by (simp_all add: map_keys_def)

lemma map_has_Nil [simp]: "\<not> map_has [] k"
  by (simp add: map_has_def)

lemma map_keys_set: "map_keys (map_set m k v) = (if map_has m k then map_keys m else map_keys m @ [k])"
  by (induction m) auto

lemma map_get_delete [simp]: "map_get (map_delete m k) k' = (if k' = k then None else map_get m k')"
  by (induction m) (auto simp: map_get_def map_delete_def)

lemma map_keys_delete: "map_keys (map_delete m k) = filter (\<lambda>k'. k' \<noteq> k) (map_keys m)"
  by (induction m) (auto simp: map_keys_def map_delete_def)

lemma map_has_iff: "map_has m k \<longleftrightarrow> map_get m k \<noteq> None"
  by (induction m) (auto simp: map_has_def map_get_def)

lemma map_has_keys: "map_has m k \<longleftrightarrow> k \<in> set (map_keys m)"
  by (simp add: map_has_def map_keys_def)

lemma map_has_set [simp]: "map_has (map_set m k v) k' \<longleftrightarrow> k' = k \<or> map_has m k'"
  by (auto simp: map_has_iff)

lemma map_has_delete [simp]: "map_has (map_delete m k) k' \<longleftrightarrow> k' \<noteq> k \<and> map_has m k'"
  by (auto simp: map_has_iff)

lemma map_ok_Nil [simp]: "map_ok []"
  by (simp add: map_ok_def)

lemma map_ok_keys: "map_ok m \<longleftrightarrow> distinct (map_keys m)"
  by (simp add: map_ok_def map_keys_def)

lemma map_ok_set [simp]: "map_ok m \<Longrightarrow> map_ok (map_set m k v)"
  by (auto simp: map_ok_keys map_keys_set map_has_keys)

lemma map_ok_delete [simp]: "map_ok m \<Longrightarrow> map_ok (map_delete m k)"
  by (simp add: map_ok_keys map_keys_delete)

lemma map_ok_filter: "map_ok m \<Longrightarrow> map_ok (filter P m)"
  by (simp add: map_ok_def distinct_map_filter)

lemma map_delete_absent: "\<not> map_has m k \<Longrightarrow> map_delete m k = m"
  by (induction m) (auto simp: map_has_def map_delete_def)

lemma map_set_absent: "\<not> map_has m k \<Longrightarrow> map_set m k v = m @ [(k, v)]"
  by (induction m) (auto simp: map_has_def)

lemma map_touch: "map_set (map_delete m k) k v = map_delete m k @ [(k, v)]"
  by (simp add: map_set_absent)

lemma length_map_delete: "map_ok m \<Longrightarrow> length (map_delete m k) = (if map_has m k then length m - 1 else length m)"
proof (induction m)
  case Nil
  then show ?case by (simp add: map_delete_def)
next
  case (Cons e m)
  obtain k' v where e: "e = (k', v)" by (cases e)
  show ?case
  proof (cases "k' = k")
    case True
    with Cons.prems e have "\<not> map_has m k" by (simp add: map_ok_def map_has_def)
    then have "map_delete m k = m" by (rule map_delete_absent)
    with True e show ?thesis by (simp add: map_delete_def map_has_def)
  next
    case False
    with Cons e have "length (map_delete m k) = (if map_has m k then length m - 1 else length m)"
      by (simp add: map_ok_def)
    moreover have "map_has m k \<Longrightarrow> m \<noteq> []" by auto
    ultimately show ?thesis
      using False e by (auto simp: map_delete_def map_has_def)
  qed
qed

lemma length_delete_less: "map_has m k \<Longrightarrow> length (map_delete m k) < length m"
  unfolding map_delete_def map_has_def by (auto intro: length_filter_less)

lemma length_map_delete_le: "length (map_delete m k) \<le> length m"
  by (simp add: map_delete_def)

lemma length_map_set: "length (map_set m k v) = (if map_has m k then length m else Suc (length m))"
  by (induction m) auto

lemma map_ok_from [simp]: "map_ok (map_from es)"
proof -
  have "map_ok m \<Longrightarrow> map_ok (foldl (\<lambda>m (k, v). map_set m k v) m es)" for m :: "('a, 'b) jsmap"
    by (induction es arbitrary: m) auto
  then show ?thesis by (simp add: map_from_def)
qed

lemma map_from_snoc: "map_from (es @ [(k, v)]) = map_set (map_from es) k v"
  by (simp add: map_from_def)

lemma map_has_from: "map_has (map_from es) k \<longleftrightarrow> k \<in> fst ` set es"
proof (induction es rule: rev_induct)
  case Nil
  then show ?case by (simp add: map_from_def)
next
  case (snoc e es)
  then show ?case by (cases e) (auto simp: map_from_snoc)
qed

lemma map_get_from_in: "map_get (map_from es) k = Some v \<Longrightarrow> (k, v) \<in> set es"
proof (induction es rule: rev_induct)
  case Nil
  then show ?case by (simp add: map_from_def)
next
  case (snoc e es)
  then show ?case by (cases e) (auto simp: map_from_snoc split: if_splits)
qed

lemma map_get_in: "map_get m k = Some v \<Longrightarrow> (k, v) \<in> set m"
  by (simp add: map_get_def map_of_SomeD)

lemma map_get_iff_in: "map_ok m \<Longrightarrow> map_get m k = Some v \<longleftrightarrow> (k, v) \<in> set m"
  by (simp add: map_get_def map_ok_def)

lemmas map_simps = map_get_set map_get_delete map_has_set map_has_delete map_ok_set map_ok_delete

section \<open>The plain object as a dictionary\<close>

definition is_index :: "string \<Rightarrow> bool" where
  "is_index s \<longleftrightarrow> s \<noteq> [] \<and> list_all is_digit s \<and> (hd s \<noteq> CHR ''0'' \<or> length s = 1)
     \<and> read_digits s < 4294967295"

text \<open>\<open>Object.keys(o)\<close>, for an object whose properties were created in the order of the list.\<close>

definition obj_keys :: "(string, 'v) jsmap \<Rightarrow> string list" where
  "obj_keys o' = sort_key read_digits (filter is_index (map_keys o'))
     @ filter (\<lambda>k. \<not> is_index k) (map_keys o')"

lemma set_obj_keys [simp]: "set (obj_keys o') = set (map_keys o')"
  by (auto simp: obj_keys_def)

lemma distinct_obj_keys: "map_ok o' \<Longrightarrow> distinct (obj_keys o')"
  by (auto simp: obj_keys_def map_ok_keys)

lemma length_obj_keys: "length (obj_keys o') = length o'"
proof -
  have "length (obj_keys o') = length (filter is_index (map_keys o')) + length (filter (\<lambda>k. \<not> is_index k) (map_keys o'))"
    by (simp add: obj_keys_def)
  also have "\<dots> = length (map_keys o')"
    by (rule sum_length_filter_compl)
  finally show ?thesis by (simp add: map_keys_def)
qed

lemma obj_keys_no_index: "list_all (\<lambda>k. \<not> is_index k) (map_keys o') \<Longrightarrow> obj_keys o' = map_keys o'"
proof -
  assume a: "list_all (\<lambda>k. \<not> is_index k) (map_keys o')"
  then have "filter is_index (map_keys o') = []"
    by (auto simp: filter_empty_conv list_all_iff)
  moreover from a have "filter (\<lambda>k. \<not> is_index k) (map_keys o') = map_keys o'"
    by (auto simp: filter_id_conv list_all_iff)
  ultimately show ?thesis by (simp add: obj_keys_def)
qed

section \<open>Keyed stores\<close>

locale keyed_store =
  fixes empty :: "'m"
    and get :: "'m \<Rightarrow> 'k \<Rightarrow> 'v option"
    and put :: "'m \<Rightarrow> 'k \<Rightarrow> 'v \<Rightarrow> 'm"
    and del :: "'m \<Rightarrow> 'k \<Rightarrow> 'm"
    and invar :: "'m \<Rightarrow> bool"
  assumes get_empty: "get empty k = None"
    and get_put: "invar m \<Longrightarrow> get (put m k v) k' = (if k' = k then Some v else get m k')"
    and get_del: "invar m \<Longrightarrow> get (del m k) k' = (if k' = k then None else get m k')"
    and invar_empty: "invar empty"
    and invar_put: "invar m \<Longrightarrow> invar (put m k v)"
    and invar_del: "invar m \<Longrightarrow> invar (del m k)"
begin

lemma touch_get: "invar m \<Longrightarrow> get (put (del m k) k v) k' = (if k' = k then Some v else get m k')"
  by (simp add: get_put get_del invar_del)

lemma invar_touch: "invar m \<Longrightarrow> invar (put (del m k) k v)"
  by (simp add: invar_put invar_del)

lemma invar_del_all: "invar m \<Longrightarrow> invar (foldl del m ks)"
  by (induction ks arbitrary: m) (simp_all add: invar_del)

lemma get_del_all: "invar m \<Longrightarrow> get (foldl del m ks) k = (if k \<in> set ks then None else get m k)"
  by (induction ks arbitrary: m) (auto simp: get_del invar_del)

end

locale ordered_store = keyed_store empty get put del invar
  for empty :: "'m" and get :: "'m \<Rightarrow> 'k \<Rightarrow> 'v option" and put del invar +
  fixes order :: "'m \<Rightarrow> 'k list"
  assumes order_dom: "invar m \<Longrightarrow> k \<in> set (order m) \<longleftrightarrow> get m k \<noteq> None"
    and order_distinct: "invar m \<Longrightarrow> distinct (order m)"
    and order_put: "invar m \<Longrightarrow> order (put m k v) = (if get m k = None then order m @ [k] else order m)"
    and order_del: "invar m \<Longrightarrow> order (del m k) = filter (\<lambda>k'. k' \<noteq> k) (order m)"
begin

text \<open>Deleting a key and setting it again makes it the youngest and keeps the others in order: the
  recency update of an LRU cache and of every \<open>delete\<close>/\<open>set\<close> pair in the sources.\<close>

lemma order_touch: "invar m \<Longrightarrow> order (put (del m k) k v) = filter (\<lambda>k'. k' \<noteq> k) (order m) @ [k]"
  by (simp add: order_put order_del invar_del get_del)

lemma size_del: "invar m \<Longrightarrow> get m k \<noteq> None \<Longrightarrow> Suc (length (order (del m k))) = length (order m)"
proof -
  assume m: "invar m" and "get m k \<noteq> None"
  then have k: "k \<in> set (order m)" by (simp add: order_dom)
  have "length (filter (\<lambda>k'. k' \<noteq> k) (order m)) = length (remove1 k (order m))"
    using m order_distinct by (simp add: distinct_remove1_removeAll removeAll_filter_not_eq neq_commute)
  moreover have "0 < length (order m)" using k by (rule length_pos_if_in_set)
  ultimately show ?thesis using k m by (simp add: order_del length_remove1)
qed

end

interpretation jsm: keyed_store "[]" map_get map_set map_delete map_ok
  by unfold_locales auto

interpretation jso: ordered_store "[]" map_get map_set map_delete map_ok map_keys
  by unfold_locales (auto simp: map_has_keys [symmetric] map_has_iff map_keys_set map_keys_delete map_ok_keys)

text \<open>A plain object does not enumerate in insertion order once a key is an array index, so it is no
  \<open>ordered_store\<close>: the key written last comes first.\<close>

lemma obj_order_not_insertion:
  "obj_keys (map_set (map_set [] ''7'' a) ''3'' b) = [''3'', ''7'']"
  by (simp add: obj_keys_def map_keys_def is_index_def is_digit_def read_digits_def digit_val_def)

section \<open>Machines with an invariant\<close>

locale machine =
  fixes step :: "'e \<Rightarrow> 's \<Rightarrow> 's" and inv :: "'s \<Rightarrow> bool"
  assumes step_inv: "inv s \<Longrightarrow> inv (step e s)"
begin

lemma run_inv: "inv s \<Longrightarrow> inv (fold step es s)"
  by (induction es arbitrary: s) (simp_all add: step_inv)

end

section \<open>Gates of request tokens\<close>

locale token_gate =
  fixes issue :: "'s \<Rightarrow> 't \<times> 's" and revoke :: "'s \<Rightarrow> 's"
    and current :: "'s \<Rightarrow> 't \<Rightarrow> bool" and issued :: "'s \<Rightarrow> 't \<Rightarrow> bool"
  assumes issue_current: "issue s = (t, s') \<Longrightarrow> current s' t"
    and issue_issued: "issue s = (t, s') \<Longrightarrow> issued s' t"
    and issued_issue: "issued s t \<Longrightarrow> issue s = (t', s') \<Longrightarrow> issued s' t"
    and issued_revoke: "issued s t \<Longrightarrow> issued (revoke s) t"
    and issue_stale: "issued s t \<Longrightarrow> issue s = (t', s') \<Longrightarrow> \<not> current s' t"
    and revoke_stale: "issued s t \<Longrightarrow> \<not> current (revoke s) t"
begin

text \<open>A later request or a revocation (\<open>True\<close> and \<open>False\<close> in the list) makes a token stale, and no
  sequence of further requests and revocations makes it current again.\<close>

definition gate_step :: "bool \<Rightarrow> 's \<Rightarrow> 's" where
  "gate_step b s = (if b then snd (issue s) else revoke s)"

lemma issued_gate_step: "issued s t \<Longrightarrow> issued (gate_step b s) t"
  by (cases "issue s") (auto simp: gate_step_def issued_revoke dest: issued_issue)

lemma issued_run: "issued s t \<Longrightarrow> issued (fold gate_step bs s) t"
  by (induction bs arbitrary: s) (simp_all add: issued_gate_step)

lemma stale_step: "issued s t \<Longrightarrow> \<not> current (gate_step b s) t"
  by (cases "issue s") (auto simp: gate_step_def revoke_stale dest: issue_stale)

lemma stale_for_ever: "issued s t \<Longrightarrow> bs \<noteq> [] \<Longrightarrow> \<not> current (fold gate_step bs s) t"
proof (induction bs rule: rev_induct)
  case Nil
  then show ?case by simp
next
  case (snoc b bs)
  then have "issued (fold gate_step bs s) t" by (simp add: issued_run)
  then show ?case by (simp add: stale_step)
qed

end

end
