(* ===== verification/NavEntry.thy ===== *)
theory NavEntry
  imports JsCollections
begin

text \<open>
  Navigation entries: the first part of \<open>desktop/renderer/src/navigation-history.js\<close>. A raw entry is
  what a caller passes in (fields may be missing, identifiers may be numbers or strings); a
  normalized entry is what the history keeps. Every \<open>throw\<close> is an \<open>Inl\<close> with the source's message,
  in the source's order. The lemmas show what a normalized entry guarantees and that normalizing is
  idempotent.
\<close>

section \<open>Raw entries\<close>

record raw_step =
  rs_layerId :: jsval
  rs_viaActionId :: jsval

record raw_temporal =
  rt_completionId :: jsval
  rt_revision :: jsnum
  rt_mode :: string
  rt_pinnedAtRevision :: "jsnum option"

text \<open>\<open>re_path\<close> is \<open>None\<close> when \<open>navigationPath\<close> is no array; a null step has nullish fields.\<close>

datatype raw_entry = RawEntry
  (re_threadId: jsval) (re_turnId: jsval) (re_path: "raw_step list option")
  (re_selectedNodeId: jsval) (re_temporal: "raw_temporal option") (re_origin: "raw_origin option")
and raw_origin = RawOrigin
  (ro_kind: jsval) (ro_sourceEntry: "raw_entry option") (ro_actionId: jsval) (ro_invocationKey: jsval)
  (ro_sourceNodeId: jsval) (ro_presentingLayerId: jsval) (ro_invocationId: jsval)

section \<open>Normalized entries\<close>

datatype nav_mode = Following | Pinned

datatype origin_kind = Graph | Imported

record nav_step =
  ns_layerId :: string
  ns_viaActionId :: "string option"

record nav_temporal =
  nt_pinnedAtRevision :: "int option"
  nt_completionId :: string
  nt_revision :: int
  nt_mode :: nav_mode

record nav_base =
  ne_threadId :: string
  ne_turnId :: string
  ne_path :: "nav_step list"
  ne_selectedNodeId :: "string option"
  ne_temporal :: "nav_temporal option"

record nav_origin =
  no_sourceEntry :: nav_base
  no_actionId :: string
  no_invocationKey :: string
  no_sourceNodeId :: string
  no_presentingLayerId :: string
  no_kind :: "(origin_kind \<times> string) option"

record nav_entry = nav_base +
  ne_origin :: "nav_origin option"

section \<open>Normalization\<close>

definition requiredId :: "jsval \<Rightarrow> string \<Rightarrow> string result" where
  "requiredId v name =
     (if is_nullish v then Inl (TypeError (name @ '' is required'')) else Inr (js_String v))"

definition optionalId :: "jsval \<Rightarrow> string option" where
  "optionalId v = (if is_nullish v then None else Some (js_String v))"

definition normalizeStep :: "nat \<Rightarrow> raw_step \<Rightarrow> nav_step result" where
  "normalizeStep i st =
     bind_r (requiredId (rs_layerId st) (''navigationPath['' @ show_nat i @ ''].layerId''))
       (\<lambda>l. Inr \<lparr>ns_layerId = l, ns_viaActionId = optionalId (rs_viaActionId st)\<rparr>)"

definition normalizePath :: "raw_step list option \<Rightarrow> nav_step list result" where
  "normalizePath p =
     (case p of
        None \<Rightarrow> Inl (TypeError ''navigationPath must be an array'')
      | Some steps \<Rightarrow> map_r (\<lambda>(i, st). normalizeStep i st) (enumerate 0 steps))"

definition read_mode :: "string \<Rightarrow> nav_mode option" where
  "read_mode m = (if m = ''following'' then Some Following else if m = ''pinned'' then Some Pinned else None)"

definition bad_pin :: "jsnum option \<Rightarrow> int \<Rightarrow> bool" where
  "bad_pin p revision =
     (case p of
        None \<Rightarrow> False
      | Some n \<Rightarrow> \<not> is_safe_integer n \<or> num_val n < 0 \<or> num_val n > revision)"

definition normalizeTemporalCurrent :: "raw_temporal option \<Rightarrow> nav_temporal option result" where
  "normalizeTemporalCurrent v =
     (case v of
        None \<Rightarrow> Inr None
      | Some t \<Rightarrow>
          let revision = num_val (rt_revision t) in
          if \<not> is_safe_integer (rt_revision t) \<or> revision < 0
          then Inl (TypeError ''temporalCurrent.revision must be a non-negative safe integer'')
          else (case read_mode (rt_mode t) of
              None \<Rightarrow> Inl (TypeError ''temporalCurrent.mode must be following or pinned'')
            | Some mode \<Rightarrow>
                if bad_pin (rt_pinnedAtRevision t) revision
                then Inl (TypeError ''temporalCurrent.pinnedAtRevision must be a known prior revision'')
                else bind_r (requiredId (rt_completionId t) ''temporalCurrent.completionId'')
                  (\<lambda>c. Inr (Some \<lparr>nt_pinnedAtRevision = map_option num_val (rt_pinnedAtRevision t),
                      nt_completionId = c, nt_revision = revision, nt_mode = mode\<rparr>))))"

text \<open>The regular expressions \<open>^[1-9]\\d*$\<close> and \<open>^kind:[A-Za-z0-9._-]+$\<close>.\<close>

definition canonical_id :: "string \<Rightarrow> bool" where
  "canonical_id s = (case s of [] \<Rightarrow> False | c # cs \<Rightarrow> is_digit c \<and> c \<noteq> CHR ''0'' \<and> list_all is_digit cs)"

definition portable_char :: "char \<Rightarrow> bool" where
  "portable_char c \<longleftrightarrow> is_digit c
     \<or> (65 \<le> (of_char c :: nat) \<and> (of_char c :: nat) \<le> 90)
     \<or> (97 \<le> (of_char c :: nat) \<and> (of_char c :: nat) \<le> 122)
     \<or> c = CHR ''.'' \<or> c = CHR ''_'' \<or> c = CHR ''-''"

definition portable_id :: "string \<Rightarrow> string \<Rightarrow> bool" where
  "portable_id kind s =
     (let p = kind @ '':''; r = drop (length p) s in
      take (length p) s = p \<and> r \<noteq> [] \<and> list_all portable_char r)"

definition identity :: "jsval \<Rightarrow> string \<Rightarrow> string result" where
  "identity item name =
     bind_r (requiredId item name)
       (\<lambda>i. if canonical_id i then Inr i else Inl (TypeError (name @ '' must be a canonical identity'')))"

definition portableIdentity :: "jsval \<Rightarrow> string \<Rightarrow> string result" where
  "portableIdentity item kind =
     bind_r (requiredId item (''invocationOrigin.'' @ kind))
       (\<lambda>i. if length i > 128 \<or> \<not> portable_id kind i
            then Inl (TypeError ''Frozen imported source requires exact portable identities'') else Inr i)"

text \<open>An entry without an origin: the whole of \<open>normalizeNavigationEntry\<close> for it.\<close>

definition normalizeBase :: "raw_entry \<Rightarrow> nav_base result" where
  "normalizeBase e =
     bind_r (requiredId (re_threadId e) ''threadId'') (\<lambda>th.
     bind_r (requiredId (re_turnId e) ''turnId'') (\<lambda>tu.
     bind_r (normalizePath (re_path e)) (\<lambda>p.
     bind_r (normalizeTemporalCurrent (re_temporal e)) (\<lambda>t.
       Inr \<lparr>ne_threadId = th, ne_turnId = tu, ne_path = p,
            ne_selectedNodeId = optionalId (re_selectedNodeId e), ne_temporal = t\<rparr>))))"

definition frozen_ok :: "nav_base \<Rightarrow> raw_origin \<Rightarrow> string \<Rightarrow> bool" where
  "frozen_ok src v callId \<longleftrightarrow>
     ne_turnId src = ''source:'' @ callId
     \<and> ro_invocationKey v = JStr callId
     \<and> ro_presentingLayerId v = JStr (''source-layer:'' @ callId)
     \<and> length (ne_path src) = 1 \<and> ns_viaActionId (ne_path src ! 0) = None
     \<and> ne_temporal src = None
     \<and> ne_selectedNodeId src = Some (js_String (ro_sourceNodeId v))"

definition check_source :: "bool \<Rightarrow> nav_base \<Rightarrow> raw_origin \<Rightarrow> unit result" where
  "check_source frozen src v =
     (if frozen
      then bind_r (portableIdentity (ro_invocationId v) ''invocation'') (\<lambda>callId.
        guard_r (frozen_ok src v callId)
          (TypeError ''Frozen imported source must retain its exact per-call presentation''))
      else bind_r (identity (JStr (ne_turnId src)) ''invocationOrigin.sourceEntry.turnId'') (\<lambda>_. Inr ()))"

definition read_kind :: "jsval \<Rightarrow> origin_kind option" where
  "read_kind k = (if k = JStr ''graph'' then Some Graph else if k = JStr ''imported'' then Some Imported else None)"

definition origin_kind_part :: "raw_origin \<Rightarrow> (origin_kind \<times> string) option result" where
  "origin_kind_part v =
     (case read_kind (ro_kind v) of
        None \<Rightarrow> Inr None
      | Some k \<Rightarrow> bind_r (requiredId (ro_invocationId v) ''invocationOrigin.invocationId'') (\<lambda>i. Inr (Some (k, i))))"

definition origin_presenting :: "bool \<Rightarrow> raw_origin \<Rightarrow> string result" where
  "origin_presenting frozen v =
     (if frozen then requiredId (ro_presentingLayerId v) ''invocationOrigin.presentingLayerId''
      else identity (ro_presentingLayerId v) ''invocationOrigin.presentingLayerId'')"

definition origin_action :: "bool \<Rightarrow> raw_origin \<Rightarrow> string result" where
  "origin_action frozen v =
     (if frozen then portableIdentity (ro_actionId v) ''action''
      else identity (ro_actionId v) ''invocationOrigin.actionId'')"

definition origin_node :: "bool \<Rightarrow> raw_origin \<Rightarrow> string result" where
  "origin_node frozen v =
     (if frozen then portableIdentity (ro_sourceNodeId v) ''node''
      else identity (ro_sourceNodeId v) ''invocationOrigin.sourceNodeId'')"

text \<open>The last part of \<open>normalizeInvocationOrigin\<close>, from the presenting Layer to the frozen result.\<close>

definition finish_origin :: "bool \<Rightarrow> nav_base \<Rightarrow> raw_origin \<Rightarrow> nav_origin result" where
  "finish_origin frozen src v =
     bind_r (origin_presenting frozen v) (\<lambda>pl.
     if ne_path src = [] \<or> ns_layerId (last (ne_path src)) \<noteq> pl
     then Inl (TypeError ''Invocation origin source path must end at its presenting Layer'')
     else
       bind_r (requiredId (ro_invocationKey v) ''invocationOrigin.invocationKey'') (\<lambda>key.
       if js_trim key = [] \<or> key = ''legacy''
       then Inl (TypeError ''Invocation origin requires an exact durable call key'')
       else
         bind_r (origin_action frozen v) (\<lambda>a.
         bind_r (origin_node frozen v) (\<lambda>n.
         bind_r (origin_kind_part v) (\<lambda>k.
           Inr \<lparr>no_sourceEntry = src, no_actionId = a, no_invocationKey = key,
             no_sourceNodeId = n, no_presentingLayerId = pl, no_kind = k\<rparr>)))))"

definition origin_frozen :: "raw_origin \<Rightarrow> nav_base \<Rightarrow> bool" where
  "origin_frozen v src \<longleftrightarrow> read_kind (ro_kind v) = Some Imported \<and> take 7 (ne_turnId src) = ''source:''"

definition normalizeInvocationOrigin :: "raw_origin option \<Rightarrow> jsval \<Rightarrow> nav_origin option result" where
  "normalizeInvocationOrigin vo threadId =
     (case vo of
        None \<Rightarrow> Inr None
      | Some v \<Rightarrow>
          if \<not> is_nullish (ro_kind v) \<and> read_kind (ro_kind v) = None
          then Inl (TypeError ''Invocation origin kind is unavailable'')
          else (case ro_sourceEntry v of
              None \<Rightarrow> Inl (TypeError ''Invocation origin requires a source entry without another origin'')
            | Some se \<Rightarrow>
                if re_origin se \<noteq> None
                then Inl (TypeError ''Invocation origin requires a source entry without another origin'')
                else bind_r (normalizeBase se) (\<lambda>src.
                  if ne_threadId src \<noteq> js_String threadId
                  then Inl (TypeError ''Invocation origin source must belong to the same thread'')
                  else
                    bind_r (identity (JStr (ne_threadId src)) ''invocationOrigin.sourceEntry.threadId'') (\<lambda>_.
                    bind_r (check_source (origin_frozen v src) src v) (\<lambda>_.
                    bind_r (finish_origin (origin_frozen v src) src v) (\<lambda>og. Inr (Some og)))))))"

definition normalizeNavigationEntry :: "raw_entry option \<Rightarrow> nav_entry result" where
  "normalizeNavigationEntry eo =
     (case eo of
        None \<Rightarrow> Inl (TypeError ''navigation entry must be an object'')
      | Some e \<Rightarrow>
          bind_r (normalizeInvocationOrigin (re_origin e) (re_threadId e)) (\<lambda>ori.
          bind_r (normalizeBase e) (\<lambda>b.
            Inr \<lparr>ne_threadId = ne_threadId b, ne_turnId = ne_turnId b, ne_path = ne_path b,
              ne_selectedNodeId = ne_selectedNodeId b, ne_temporal = ne_temporal b, ne_origin = ori\<rparr>)))"

section \<open>Comparing entries\<close>

text \<open>On normalized entries the comparison of \<open>JSON.stringify\<close> images is the comparison of the values:
  both sides come out of the same constructor, with the same property order.\<close>

fun steps_equal :: "nav_step list \<Rightarrow> nav_step list \<Rightarrow> bool" where
  "steps_equal [] [] = True"
| "steps_equal (a # as) (b # bs) =
     (ns_layerId a = ns_layerId b \<and> ns_viaActionId a = ns_viaActionId b \<and> steps_equal as bs)"
| "steps_equal _ _ = False"

definition navigationEntriesEqual :: "nav_entry option \<Rightarrow> nav_entry option \<Rightarrow> bool" where
  "navigationEntriesEqual lo ro =
     (case (lo, ro) of
        (Some l, Some r) \<Rightarrow>
          ne_threadId l = ne_threadId r \<and> ne_turnId l = ne_turnId r
          \<and> ne_selectedNodeId l = ne_selectedNodeId r
          \<and> ne_temporal l = ne_temporal r \<and> ne_origin l = ne_origin r
          \<and> length (ne_path l) = length (ne_path r)
          \<and> steps_equal (ne_path l) (ne_path r)
      | _ \<Rightarrow> False)"

definition navigationEntriesChangeTurn :: "nav_entry option \<Rightarrow> nav_entry option \<Rightarrow> bool" where
  "navigationEntriesChangeTurn lo ro =
     (case (lo, ro) of
        (Some l, Some r) \<Rightarrow> ne_threadId l \<noteq> ne_threadId r \<or> ne_turnId l \<noteq> ne_turnId r
      | _ \<Rightarrow> False)"

lemma steps_equal_iff [simp]: "steps_equal as bs \<longleftrightarrow> as = bs"
  by (induction as bs rule: steps_equal.induct) auto

lemma navigationEntriesEqual_Some [simp]: "navigationEntriesEqual x (Some r) \<longleftrightarrow> x = Some r"
  by (cases x) (auto simp: navigationEntriesEqual_def intro: nav_entry.equality)

section \<open>What normalization guarantees\<close>

definition temporal_ok :: "nav_temporal \<Rightarrow> bool" where
  "temporal_ok t \<longleftrightarrow> 0 \<le> nt_revision t \<and> nt_revision t \<le> max_safe
     \<and> (case nt_pinnedAtRevision t of None \<Rightarrow> True | Some p \<Rightarrow> 0 \<le> p \<and> p \<le> nt_revision t)"

definition origin_ok :: "string \<Rightarrow> nav_origin \<Rightarrow> bool" where
  "origin_ok th og \<longleftrightarrow>
     (let src = no_sourceEntry og in
      ne_threadId src = th \<and> canonical_id th
      \<and> ne_path src \<noteq> [] \<and> ns_layerId (last (ne_path src)) = no_presentingLayerId og
      \<and> js_trim (no_invocationKey og) \<noteq> [] \<and> no_invocationKey og \<noteq> ''legacy''
      \<and> (case ne_temporal src of None \<Rightarrow> True | Some t \<Rightarrow> temporal_ok t))"

definition entry_ok :: "nav_entry \<Rightarrow> bool" where
  "entry_ok e \<longleftrightarrow>
     (case ne_temporal e of None \<Rightarrow> True | Some t \<Rightarrow> temporal_ok t)
     \<and> (case ne_origin e of None \<Rightarrow> True | Some og \<Rightarrow> origin_ok (ne_threadId e) og)"

lemma requiredId_Inr [simp]: "requiredId v name = Inr s \<longleftrightarrow> \<not> is_nullish v \<and> s = js_String v"
  by (auto simp: requiredId_def)

lemma normalizeTemporal_ok:
  "normalizeTemporalCurrent v = Inr (Some t) \<Longrightarrow> temporal_ok t"
  by (auto simp: normalizeTemporalCurrent_def temporal_ok_def bind_r_Inr_iff Let_def is_safe_integer_def
      num_val_def bad_pin_def split: option.splits if_splits jsnum.splits)

lemma normalizeBase_Inr:
  "normalizeBase e = Inr b \<longleftrightarrow>
     \<not> is_nullish (re_threadId e) \<and> \<not> is_nullish (re_turnId e)
     \<and> ne_threadId b = js_String (re_threadId e) \<and> ne_turnId b = js_String (re_turnId e)
     \<and> normalizePath (re_path e) = Inr (ne_path b)
     \<and> ne_selectedNodeId b = optionalId (re_selectedNodeId e)
     \<and> normalizeTemporalCurrent (re_temporal e) = Inr (ne_temporal b)"
  by (cases b) (auto simp: normalizeBase_def bind_r_Inr_iff)

lemma identity_Inr [simp]:
  "identity v name = Inr s \<longleftrightarrow> \<not> is_nullish v \<and> s = js_String v \<and> canonical_id s"
  by (auto simp: identity_def bind_r_Inr_iff)

lemma portableIdentity_Inr [simp]:
  "portableIdentity v kind = Inr s \<longleftrightarrow>
     \<not> is_nullish v \<and> s = js_String v \<and> length s \<le> 128 \<and> portable_id kind s"
  by (auto simp: portableIdentity_def bind_r_Inr_iff)

text \<open>When an origin is accepted, and what it then is: the conditions of the source in one place.\<close>

definition origin_accepts :: "raw_origin \<Rightarrow> jsval \<Rightarrow> raw_entry \<Rightarrow> nav_origin \<Rightarrow> bool" where
  "origin_accepts v th se og \<longleftrightarrow>
     (let src = no_sourceEntry og; frozen = origin_frozen v src in
      (is_nullish (ro_kind v) \<or> read_kind (ro_kind v) \<noteq> None)
      \<and> ro_sourceEntry v = Some se \<and> re_origin se = None \<and> normalizeBase se = Inr src
      \<and> ne_threadId src = js_String th \<and> canonical_id (ne_threadId src)
      \<and> check_source frozen src v = Inr ()
      \<and> origin_presenting frozen v = Inr (no_presentingLayerId og)
      \<and> ne_path src \<noteq> [] \<and> ns_layerId (last (ne_path src)) = no_presentingLayerId og
      \<and> requiredId (ro_invocationKey v) ''invocationOrigin.invocationKey'' = Inr (no_invocationKey og)
      \<and> js_trim (no_invocationKey og) \<noteq> [] \<and> no_invocationKey og \<noteq> ''legacy''
      \<and> origin_action frozen v = Inr (no_actionId og)
      \<and> origin_node frozen v = Inr (no_sourceNodeId og)
      \<and> origin_kind_part v = Inr (no_kind og))"

lemma finish_origin_Inr:
  "finish_origin frozen src v = Inr og \<longleftrightarrow>
     no_sourceEntry og = src
     \<and> origin_presenting frozen v = Inr (no_presentingLayerId og)
     \<and> ne_path src \<noteq> [] \<and> ns_layerId (last (ne_path src)) = no_presentingLayerId og
     \<and> requiredId (ro_invocationKey v) ''invocationOrigin.invocationKey'' = Inr (no_invocationKey og)
     \<and> js_trim (no_invocationKey og) \<noteq> [] \<and> no_invocationKey og \<noteq> ''legacy''
     \<and> origin_action frozen v = Inr (no_actionId og)
     \<and> origin_node frozen v = Inr (no_sourceNodeId og)
     \<and> origin_kind_part v = Inr (no_kind og)"
  by (cases og) (auto simp: finish_origin_def bind_r_Inr_iff)

lemma origin_source_Inr:
  "bind_r (normalizeBase se) (\<lambda>src.
      if ne_threadId src \<noteq> t then Inl e
      else bind_r (identity (JStr (ne_threadId src)) n) (\<lambda>_.
        bind_r (check_source (origin_frozen v src) src v) (\<lambda>_.
        bind_r (finish_origin (origin_frozen v src) src v) (\<lambda>og. Inr (Some og))))) = Inr (Some og)
   \<longleftrightarrow> (\<exists>src. normalizeBase se = Inr src \<and> ne_threadId src = t \<and> canonical_id t
      \<and> check_source (origin_frozen v src) src v = Inr ()
      \<and> finish_origin (origin_frozen v src) src v = Inr og)"
  by (auto simp: bind_r_Inr_iff)

lemma normalizeInvocationOrigin_Some:
  "normalizeInvocationOrigin (Some v) th = Inr (Some og) \<longleftrightarrow> (\<exists>se. origin_accepts v th se og)"
proof (cases "ro_sourceEntry v")
  case None
  then show ?thesis by (simp add: normalizeInvocationOrigin_def origin_accepts_def Let_def)
next
  case (Some se)
  have "normalizeInvocationOrigin (Some v) th = Inr (Some og) \<longleftrightarrow>
      (is_nullish (ro_kind v) \<or> read_kind (ro_kind v) \<noteq> None) \<and> re_origin se = None
      \<and> (\<exists>src. normalizeBase se = Inr src \<and> ne_threadId src = js_String th \<and> canonical_id (js_String th)
        \<and> check_source (origin_frozen v src) src v = Inr ()
        \<and> finish_origin (origin_frozen v src) src v = Inr og)"
    by (simp add: normalizeInvocationOrigin_def Some origin_source_Inr)
  also have "\<dots> \<longleftrightarrow> (\<exists>se. origin_accepts v th se og)"
    unfolding finish_origin_Inr origin_accepts_def Let_def Some by auto
  finally show ?thesis .
qed

lemma normalizeInvocationOrigin_ok:
  assumes "normalizeInvocationOrigin vo th = Inr (Some og)"
  shows "origin_ok (js_String th) og"
proof -
  from assms obtain v where "vo = Some v" by (cases vo) (auto simp: normalizeInvocationOrigin_def)
  with assms obtain se where a: "origin_accepts v th se og"
    by (auto simp: normalizeInvocationOrigin_Some)
  then have "normalizeTemporalCurrent (re_temporal se) = Inr (ne_temporal (no_sourceEntry og))"
    by (simp add: origin_accepts_def Let_def normalizeBase_Inr)
  then have "case ne_temporal (no_sourceEntry og) of None \<Rightarrow> True | Some t \<Rightarrow> temporal_ok t"
    by (auto split: option.splits dest: normalizeTemporal_ok)
  with a show ?thesis by (auto simp: origin_ok_def origin_accepts_def Let_def)
qed

lemma normalizeNavigationEntry_ok:
  assumes "normalizeNavigationEntry eo = Inr e"
  shows "entry_ok e"
proof -
  from assms obtain r b where r: "eo = Some r" "normalizeBase r = Inr b"
      "normalizeInvocationOrigin (re_origin r) (re_threadId r) = Inr (ne_origin e)"
      "ne_temporal e = ne_temporal b" "ne_threadId e = ne_threadId b"
    by (auto simp: normalizeNavigationEntry_def bind_r_Inr_iff split: option.splits)
  then have "normalizeTemporalCurrent (re_temporal r) = Inr (ne_temporal e)"
      "ne_threadId e = js_String (re_threadId r)"
    by (simp_all add: normalizeBase_Inr)
  moreover have "origin_ok (js_String (re_threadId r)) og" if "ne_origin e = Some og" for og
    using r(3) that by (auto intro: normalizeInvocationOrigin_ok)
  ultimately show ?thesis
    by (auto simp: entry_ok_def split: option.splits dest: normalizeTemporal_ok)
qed

section \<open>Idempotence\<close>

text \<open>A normalized entry passed back in, as the object spread \<open>{ ...entry }\<close> does: absent optional
  identifiers are \<open>null\<close>, present ones strings.\<close>

definition raw_opt :: "string option \<Rightarrow> jsval" where
  "raw_opt v = (case v of None \<Rightarrow> JNull | Some s \<Rightarrow> JStr s)"

definition raw_of_step :: "nav_step \<Rightarrow> raw_step" where
  "raw_of_step st = \<lparr>rs_layerId = JStr (ns_layerId st), rs_viaActionId = raw_opt (ns_viaActionId st)\<rparr>"

definition raw_of_temporal :: "nav_temporal \<Rightarrow> raw_temporal" where
  "raw_of_temporal t = \<lparr>rt_completionId = JStr (nt_completionId t), rt_revision = NInt (nt_revision t),
     rt_mode = (case nt_mode t of Following \<Rightarrow> ''following'' | Pinned \<Rightarrow> ''pinned''),
     rt_pinnedAtRevision = map_option NInt (nt_pinnedAtRevision t)\<rparr>"

definition raw_of_origin :: "nav_origin \<Rightarrow> raw_origin" where
  "raw_of_origin og =
     (let src = no_sourceEntry og in
      RawOrigin
        (case no_kind og of None \<Rightarrow> JUndef | Some (Graph, _) \<Rightarrow> JStr ''graph'' | Some (Imported, _) \<Rightarrow> JStr ''imported'')
        (Some (RawEntry (JStr (ne_threadId src)) (JStr (ne_turnId src)) (Some (map raw_of_step (ne_path src)))
           (raw_opt (ne_selectedNodeId src)) (map_option raw_of_temporal (ne_temporal src)) None))
        (JStr (no_actionId og)) (JStr (no_invocationKey og)) (JStr (no_sourceNodeId og))
        (JStr (no_presentingLayerId og))
        (case no_kind og of None \<Rightarrow> JUndef | Some (_, i) \<Rightarrow> JStr i))"

definition raw_of_entry :: "nav_entry \<Rightarrow> raw_entry" where
  "raw_of_entry e = RawEntry (JStr (ne_threadId e)) (JStr (ne_turnId e)) (Some (map raw_of_step (ne_path e)))
     (raw_opt (ne_selectedNodeId e)) (map_option raw_of_temporal (ne_temporal e))
     (map_option raw_of_origin (ne_origin e))"

lemma optionalId_raw_opt [simp]: "optionalId (raw_opt v) = v"
  by (cases v) (simp_all add: raw_opt_def optionalId_def)

lemma normalizeStep_raw [simp]: "normalizeStep i (raw_of_step st) = Inr st"
  by (simp add: normalizeStep_def raw_of_step_def requiredId_def)

lemma normalizePath_raw [simp]: "normalizePath (Some (map raw_of_step p)) = Inr p"
proof -
  have "map_r (\<lambda>(i, st). normalizeStep i st) (enumerate n (map raw_of_step p)) = Inr p" for n
    by (induction p arbitrary: n) auto
  then show ?thesis by (simp add: normalizePath_def)
qed

lemma normalizeTemporal_raw:
  "temporal_ok t \<Longrightarrow> normalizeTemporalCurrent (Some (raw_of_temporal t)) = Inr (Some t)"
  by (cases t) (auto simp: normalizeTemporalCurrent_def raw_of_temporal_def temporal_ok_def is_safe_integer_def
      max_safe_def num_val_def read_mode_def bad_pin_def requiredId_def option.map_comp comp_def
      split: option.splits nav_mode.splits)

lemma normalizeTemporal_raw_opt:
  "(case t of None \<Rightarrow> True | Some x \<Rightarrow> temporal_ok x)
    \<Longrightarrow> normalizeTemporalCurrent (map_option raw_of_temporal t) = Inr t"
  by (cases t) (auto simp: normalizeTemporal_raw, simp add: normalizeTemporalCurrent_def)

lemma normalizeTemporal_result:
  "normalizeTemporalCurrent v = Inr t \<Longrightarrow> (case t of None \<Rightarrow> True | Some x \<Rightarrow> temporal_ok x)"
  by (auto split: option.splits dest: normalizeTemporal_ok)

definition raw_of_base :: "nav_base \<Rightarrow> raw_entry" where
  "raw_of_base b = RawEntry (JStr (ne_threadId b)) (JStr (ne_turnId b)) (Some (map raw_of_step (ne_path b)))
     (raw_opt (ne_selectedNodeId b)) (map_option raw_of_temporal (ne_temporal b)) None"

lemma raw_of_origin_source: "ro_sourceEntry (raw_of_origin og) = Some (raw_of_base (no_sourceEntry og))"
  by (simp add: raw_of_origin_def raw_of_base_def Let_def)

lemma normalizeBase_raw: "normalizeBase se = Inr b \<Longrightarrow> normalizeBase (raw_of_base b) = Inr b"
  by (auto simp: normalizeBase_Inr raw_of_base_def intro!: normalizeTemporal_raw_opt dest: normalizeTemporal_result)

lemma raw_kind:
  assumes "origin_kind_part v = Inr (no_kind og)"
  shows "read_kind (ro_kind (raw_of_origin og)) = read_kind (ro_kind v)"
    and "origin_kind_part (raw_of_origin og) = Inr (no_kind og)"
    and "is_nullish (ro_kind (raw_of_origin og)) \<or> read_kind (ro_kind (raw_of_origin og)) \<noteq> None"
proof -
  have "no_kind og = None \<and> read_kind (ro_kind v) = None
      \<or> (\<exists>k i. no_kind og = Some (k, i) \<and> read_kind (ro_kind v) = Some k)"
    using assms by (cases "no_kind og") (auto simp: origin_kind_part_def bind_r_Inr_iff split: option.splits)
  then have "read_kind (ro_kind (raw_of_origin og)) = read_kind (ro_kind v)
      \<and> origin_kind_part (raw_of_origin og) = Inr (no_kind og)
      \<and> (is_nullish (ro_kind (raw_of_origin og)) \<or> read_kind (ro_kind (raw_of_origin og)) \<noteq> None)"
    by (auto simp: raw_of_origin_def Let_def origin_kind_part_def read_kind_def requiredId_def
        split: origin_kind.splits if_splits)
  then show "read_kind (ro_kind (raw_of_origin og)) = read_kind (ro_kind v)"
    and "origin_kind_part (raw_of_origin og) = Inr (no_kind og)"
    and "is_nullish (ro_kind (raw_of_origin og)) \<or> read_kind (ro_kind (raw_of_origin og)) \<noteq> None"
    by blast+
qed

lemma raw_fields:
  "ro_actionId (raw_of_origin og) = JStr (no_actionId og)"
  "ro_invocationKey (raw_of_origin og) = JStr (no_invocationKey og)"
  "ro_sourceNodeId (raw_of_origin og) = JStr (no_sourceNodeId og)"
  "ro_presentingLayerId (raw_of_origin og) = JStr (no_presentingLayerId og)"
  by (simp_all add: raw_of_origin_def Let_def)

lemma origin_accepts_raw:
  assumes "origin_accepts v th se og"
  shows "origin_accepts (raw_of_origin og) (JStr (js_String th)) (raw_of_base (no_sourceEntry og)) og"
proof -
  let ?r = "raw_of_origin og" and ?src = "no_sourceEntry og"
  have k: "read_kind (ro_kind ?r) = read_kind (ro_kind v)" "origin_kind_part ?r = Inr (no_kind og)"
      "is_nullish (ro_kind ?r) \<or> read_kind (ro_kind ?r) \<noteq> None"
    using assms raw_kind [of v og] by (simp_all add: origin_accepts_def Let_def)
  then have f: "origin_frozen ?r ?src = origin_frozen v ?src" by (simp add: origin_frozen_def)
  have inv: "ro_invocationId ?r = JStr (js_String (ro_invocationId v))" if "origin_frozen v ?src"
  proof -
    have "origin_kind_part v = Inr (no_kind og)" using assms by (simp add: origin_accepts_def Let_def)
    then have "no_kind og = Some (Imported, js_String (ro_invocationId v))"
      using that by (auto simp: origin_frozen_def origin_kind_part_def bind_r_Inr_iff)
    then show ?thesis by (simp add: raw_of_origin_def Let_def)
  qed
  have c: "check_source (origin_frozen v ?src) ?src ?r = Inr ()"
    using assms inv
    by (auto simp: origin_accepts_def Let_def check_source_def bind_r_Inr_iff frozen_ok_def raw_fields
        origin_presenting_def origin_node_def split: if_splits)
  have b: "normalizeBase (raw_of_base ?src) = Inr ?src"
    using assms by (auto simp: origin_accepts_def Let_def intro: normalizeBase_raw)
  show ?thesis
    using assms k f c b
    by (auto simp: origin_accepts_def Let_def raw_of_origin_source raw_of_base_def raw_fields
        origin_presenting_def origin_action_def origin_node_def split: if_splits)
qed

text \<open>Normalizing a navigation entry is idempotent: an entry that came out of normalization, passed
  back in, comes out unchanged. This is what lets \<open>replaceSelection\<close> re-normalize the current entry.\<close>

theorem normalizeNavigationEntry_idempotent:
  assumes "normalizeNavigationEntry eo = Inr e"
  shows "normalizeNavigationEntry (Some (raw_of_entry e)) = Inr e"
proof -
  from assms obtain r b where r: "eo = Some r" "normalizeBase r = Inr b"
      "normalizeInvocationOrigin (re_origin r) (re_threadId r) = Inr (ne_origin e)"
      and e: "e = nav_base.extend b \<lparr>ne_origin = ne_origin e\<rparr>"
    by (cases e) (auto simp: normalizeNavigationEntry_def bind_r_Inr_iff nav_base.defs split: option.splits)
  have b: "normalizeBase (raw_of_entry e) = Inr b"
    using normalizeBase_raw [OF r(2)] e
    by (cases b, cases e) (simp add: raw_of_entry_def raw_of_base_def normalizeBase_Inr nav_base.defs)
  have th: "ne_threadId e = js_String (re_threadId r)"
    using r(2) e by (cases b, cases e) (simp add: normalizeBase_Inr nav_base.defs)
  have o: "normalizeInvocationOrigin (map_option raw_of_origin (ne_origin e)) (JStr (ne_threadId e)) = Inr (ne_origin e)"
  proof (cases "ne_origin e")
    case None
    then show ?thesis by (simp add: normalizeInvocationOrigin_def)
  next
    case (Some og)
    with r(3) obtain v where "re_origin r = Some v"
      by (cases "re_origin r") (auto simp: normalizeInvocationOrigin_def)
    with Some r(3) obtain se where "origin_accepts v (re_threadId r) se og"
      by (auto simp: normalizeInvocationOrigin_Some)
    then have "origin_accepts (raw_of_origin og) (JStr (ne_threadId e)) (raw_of_base (no_sourceEntry og)) og"
      unfolding th by (rule origin_accepts_raw)
    then have "\<exists>se. origin_accepts (raw_of_origin og) (JStr (ne_threadId e)) se og" ..
    then have "normalizeInvocationOrigin (Some (raw_of_origin og)) (JStr (ne_threadId e)) = Inr (Some og)"
      by (simp only: normalizeInvocationOrigin_Some)
    with Some show ?thesis by simp
  qed
  from b o e show ?thesis
    by (cases b, cases e) (simp add: normalizeNavigationEntry_def raw_of_entry_def nav_base.defs)
qed

definition demo_step :: raw_step where
  "demo_step = \<lparr>rs_layerId = JNum 7, rs_viaActionId = JUndef\<rparr>"

definition demo_raw :: raw_entry where
  "demo_raw = RawEntry (JNum 1) (JStr ''2'') (Some [demo_step]) JNull
     (Some \<lparr>rt_completionId = JNum 5, rt_revision = NInt 3, rt_mode = ''pinned'', rt_pinnedAtRevision = Some (NInt 2)\<rparr>)
     (Some (RawOrigin (JStr ''graph'') (Some (RawEntry (JNum 1) (JNum 9) (Some [demo_step]) (JNum 4) None None))
        (JNum 3) (JStr ''k1'') (JNum 4) (JNum 7) (JNum 12)))"

definition demo_entry :: nav_entry where
  "demo_entry = \<lparr>ne_threadId = ''1'', ne_turnId = ''2'', ne_path = [\<lparr>ns_layerId = ''7'', ns_viaActionId = None\<rparr>],
     ne_selectedNodeId = None,
     ne_temporal = Some \<lparr>nt_pinnedAtRevision = Some 2, nt_completionId = ''5'', nt_revision = 3, nt_mode = Pinned\<rparr>,
     ne_origin = Some \<lparr>no_sourceEntry = \<lparr>ne_threadId = ''1'', ne_turnId = ''9'',
         ne_path = [\<lparr>ns_layerId = ''7'', ns_viaActionId = None\<rparr>], ne_selectedNodeId = Some ''4'', ne_temporal = None\<rparr>,
       no_actionId = ''3'', no_invocationKey = ''k1'', no_sourceNodeId = ''4'', no_presentingLayerId = ''7'',
       no_kind = Some (Graph, ''12'')\<rparr>\<rparr>"

lemma demo_raw_normalizes: "normalizeNavigationEntry (Some demo_raw) = Inr demo_entry"
  by code_simp

theorem normalizeNavigationEntry_idempotent_witness:
  "normalizeNavigationEntry (Some demo_raw) = Inr demo_entry
    \<and> normalizeNavigationEntry (Some (raw_of_entry demo_entry)) = Inr demo_entry"
  using normalizeNavigationEntry_idempotent [OF demo_raw_normalizes] demo_raw_normalizes by blast

end
