(* ===== verification/NavHistory.thy ===== *)
theory NavHistory
  imports NavEntry
begin

text \<open>
  The in-memory navigation history of a workspace window (\<open>createNavigationHistory\<close> in
  \<open>desktop/renderer/src/navigation-history.js\<close>) and the gate of latest requests
  (\<open>createLatestRequestGate\<close>). The closure's variables are a record; each method of the returned
  object is a function on it. \<open>go\<close> only inspects a destination and hands out a transition, \<open>commit\<close>
  applies it if nothing intervened; the \<open>authority\<close> symbol of a history is a number that no two
  histories share. The lemmas: every operation keeps the bounds of the history, a stale transition
  never commits, and a back step undone by a forward step restores the view.
\<close>

section \<open>State\<close>

record nav_history =
  h_limit :: nat
  h_authority :: nat
  h_entries :: "nav_entry list"
  h_index :: int
  h_revision :: nat
  h_generation :: nat

datatype direction = Back | Forward

record dest_info =
  di_delta :: int
  di_direction :: direction
  di_index :: int

record 'm destination = dest_info +
  de_entry :: nav_entry
  de_metadata :: 'm

record 'm transition = "'m destination" +
  tr_sourceIndex :: int
  tr_revision :: nat
  tr_generation :: nat
  tr_authority :: nat

text \<open>\<open>Number.isInteger(value) && value >= 1\<close>, or a \<open>TypeError\<close>.\<close>

definition positiveLimit :: "jsnum \<Rightarrow> string \<Rightarrow> nat result" where
  "positiveLimit v name =
     (case v of
        NInt n \<Rightarrow> if n < 1 then Inl (TypeError (name @ '' must be a positive integer'')) else Inr (nat n)
      | NOther \<Rightarrow> Inl (TypeError (name @ '' must be a positive integer'')))"

definition createNavigationHistory :: "jsnum \<Rightarrow> nat \<Rightarrow> nav_history result" where
  "createNavigationHistory limit authority =
     bind_r (positiveLimit limit ''history limit'') (\<lambda>l.
       Inr \<lparr>h_limit = l, h_authority = authority, h_entries = [], h_index = -1, h_revision = 0, h_generation = 0\<rparr>)"

definition DEFAULT_HISTORY_LIMIT :: int where
  "DEFAULT_HISTORY_LIMIT = 20"

section \<open>Operations\<close>

definition h_current :: "nav_history \<Rightarrow> nav_entry option" where
  "h_current h = (if h_index h < 0 then None else Some (h_entries h ! nat (h_index h)))"

definition canGoBack :: "nav_history \<Rightarrow> bool" where
  "canGoBack h \<longleftrightarrow> h_index h > 0"

definition canGoForward :: "nav_history \<Rightarrow> bool" where
  "canGoForward h \<longleftrightarrow> h_index h \<ge> 0 \<and> h_index h < int (length (h_entries h)) - 1"

definition h_destination ::
  "(nav_entry \<Rightarrow> dest_info \<Rightarrow> 'm) \<Rightarrow> nav_history \<Rightarrow> jsnum \<Rightarrow> 'm destination option" where
  "h_destination meta h dv =
     (case dv of
        NOther \<Rightarrow> None
      | NInt delta \<Rightarrow>
          if delta = 0 \<or> h_index h < 0 then None
          else let target = h_index h + delta in
            if target < 0 \<or> target \<ge> int (length (h_entries h)) then None
            else let e = h_entries h ! nat target;
                     dir = (if delta < 0 then Back else Forward) in
              Some \<lparr>di_delta = delta, di_direction = dir, di_index = target, de_entry = e,
                de_metadata = meta e \<lparr>di_delta = delta, di_direction = dir, di_index = target\<rparr>\<rparr>)"

text \<open>The boolean of each method says whether it changed anything.\<close>

definition replaceCurrent :: "raw_entry option \<Rightarrow> nav_history \<Rightarrow> (bool \<times> nav_history) result" where
  "replaceCurrent raw h =
     (if h_index h < 0 then Inl (Error ''navigation history must be seeded before replacement'')
      else bind_r (normalizeNavigationEntry raw) (\<lambda>n.
        if navigationEntriesEqual (h_current h) (Some n) then Inr (False, h)
        else Inr (True, h\<lparr>h_entries := (h_entries h)[nat (h_index h) := n], h_revision := h_revision h + 1\<rparr>)))"

definition seed :: "raw_entry option \<Rightarrow> nav_history \<Rightarrow> (bool \<times> nav_history) result" where
  "seed raw h =
     (if h_entries h \<noteq> [] then Inr (False, h)
      else bind_r (normalizeNavigationEntry raw) (\<lambda>n.
        Inr (True, h\<lparr>h_entries := [n], h_index := 0, h_revision := h_revision h + 1\<rparr>)))"

text \<open>The entries up to the current one and the new one, less the oldest over the limit.\<close>

definition pushed_entries :: "nat \<Rightarrow> int \<Rightarrow> nav_entry list \<Rightarrow> nav_entry \<Rightarrow> nav_entry list" where
  "pushed_entries limit index entries n =
     (let es = take (nat (index + 1)) entries @ [n] in
      if length es > limit then drop (length es - limit) es else es)"

definition push :: "raw_entry option \<Rightarrow> nav_history \<Rightarrow> (bool \<times> nav_history) result" where
  "push raw h =
     (if h_index h < 0 then Inl (Error ''navigation history must be seeded before push'')
      else bind_r (normalizeNavigationEntry raw) (\<lambda>n.
        if navigationEntriesEqual (h_current h) (Some n) then Inr (False, h)
        else
          let es = pushed_entries (h_limit h) (h_index h) (h_entries h) n in
          Inr (True, h\<lparr>h_entries := es, h_index := int (length es) - 1, h_revision := h_revision h + 1\<rparr>)))"

definition replaceSelection :: "jsval \<Rightarrow> nav_history \<Rightarrow> (bool \<times> nav_history) result" where
  "replaceSelection selectedNodeId h =
     (case h_current h of
        None \<Rightarrow> Inl (Error ''navigation history must be seeded before replacement'')
      | Some e \<Rightarrow>
          (case raw_of_entry e of RawEntry th tu p _ t og \<Rightarrow>
             replaceCurrent (Some (RawEntry th tu p selectedNodeId t og)) h))"

definition go ::
  "(nav_entry \<Rightarrow> dest_info \<Rightarrow> 'm) \<Rightarrow> jsnum \<Rightarrow> nav_history \<Rightarrow> 'm transition option \<times> nav_history" where
  "go meta delta h =
     (case h_destination meta h delta of
        None \<Rightarrow> (None, h)
      | Some d \<Rightarrow>
          let h' = h\<lparr>h_generation := h_generation h + 1\<rparr> in
          (Some \<lparr>di_delta = di_delta d, di_direction = di_direction d, di_index = di_index d,
             de_entry = de_entry d, de_metadata = de_metadata d, tr_sourceIndex = h_index h,
             tr_revision = h_revision h, tr_generation = h_generation h', tr_authority = h_authority h\<rparr>, h'))"

definition cancelPending :: "nav_history \<Rightarrow> nav_history" where
  "cancelPending h = h\<lparr>h_generation := h_generation h + 1\<rparr>"

text \<open>The source compares the stored entry by object identity. Stored entries change only together with
  the revision, which is compared before, so equality of the values says the same.\<close>

definition transitionIsCurrent :: "nav_history \<Rightarrow> 'm transition \<Rightarrow> bool" where
  "transitionIsCurrent h t \<longleftrightarrow>
     tr_authority t = h_authority h \<and> tr_revision t = h_revision h \<and> tr_generation t = h_generation h
     \<and> tr_sourceIndex t = h_index h \<and> di_index t \<ge> 0 \<and> di_index t < int (length (h_entries h))
     \<and> h_entries h ! nat (di_index t) = de_entry t"

definition commit :: "'m transition \<Rightarrow> nav_history \<Rightarrow> bool \<times> nav_history" where
  "commit t h =
     (if \<not> transitionIsCurrent h t then (False, h)
      else (True, h\<lparr>h_index := di_index t, h_revision := h_revision h + 1\<rparr>))"

section \<open>The history as a machine\<close>

text \<open>One call on the history. A call that throws leaves the closure's variables as they were.\<close>

datatype 'm history_call =
    Seed "raw_entry option"
  | Push "raw_entry option"
  | ReplaceCurrent "raw_entry option"
  | ReplaceSelection jsval
  | Go jsnum
  | CancelPending
  | Commit "'m transition"

definition after_throw :: "nav_history \<Rightarrow> (bool \<times> nav_history) result \<Rightarrow> nav_history" where
  "after_throw h r = (case r of Inl _ \<Rightarrow> h | Inr (_, h') \<Rightarrow> h')"

fun history_step :: "(nav_entry \<Rightarrow> dest_info \<Rightarrow> 'm) \<Rightarrow> 'm history_call \<Rightarrow> nav_history \<Rightarrow> nav_history" where
  "history_step meta (Seed e) h = after_throw h (seed e h)"
| "history_step meta (Push e) h = after_throw h (push e h)"
| "history_step meta (ReplaceCurrent e) h = after_throw h (replaceCurrent e h)"
| "history_step meta (ReplaceSelection s) h = after_throw h (replaceSelection s h)"
| "history_step meta (Go d) h = snd (go meta d h)"
| "history_step meta CancelPending h = cancelPending h"
| "history_step meta (Commit t) h = snd (commit t h)"

text \<open>The bounds of a history: never more entries than the limit, the index inside the entries (or \<open>-1\<close>
  before the seed), every entry normalized.\<close>

definition history_ok :: "nav_history \<Rightarrow> bool" where
  "history_ok h \<longleftrightarrow> 1 \<le> h_limit h \<and> length (h_entries h) \<le> h_limit h
     \<and> (if h_entries h = [] then h_index h = -1 else 0 \<le> h_index h \<and> h_index h < int (length (h_entries h)))
     \<and> (\<forall>e \<in> set (h_entries h). \<exists>r. normalizeNavigationEntry r = Inr e)"

lemma create_history_ok: "createNavigationHistory l a = Inr h \<Longrightarrow> history_ok h"
  by (auto simp: createNavigationHistory_def positiveLimit_def history_ok_def split: jsnum.splits if_splits)

lemma seed_ok: "history_ok h \<Longrightarrow> seed e h = Inr (b, h') \<Longrightarrow> history_ok h'"
  by (auto simp: seed_def history_ok_def bind_r_Inr_iff split: if_splits)

lemma replaceCurrent_ok: "history_ok h \<Longrightarrow> replaceCurrent e h = Inr (b, h') \<Longrightarrow> history_ok h'"
  by (auto simp: replaceCurrent_def history_ok_def bind_r_Inr_iff split: if_splits
      dest!: set_update_subset_insert [THEN subsetD])

lemma replaceSelection_ok: "history_ok h \<Longrightarrow> replaceSelection s h = Inr (b, h') \<Longrightarrow> history_ok h'"
  by (auto simp: replaceSelection_def split: option.splits raw_entry.splits intro: replaceCurrent_ok)

lemma pushed_entries_split:
  "\<exists>dropped. dropped @ pushed_entries l i es n = take (nat (i + 1)) es @ [n]
     \<and> (dropped \<noteq> [] \<longrightarrow> length (pushed_entries l i es n) = l)"
proof -
  define xs where "xs = take (nat (i + 1)) es @ [n]"
  have "pushed_entries l i es n = drop (length xs - l) xs"
    by (simp add: pushed_entries_def xs_def [symmetric] Let_def)
  then have "take (length xs - l) xs @ pushed_entries l i es n = xs"
    and "take (length xs - l) xs \<noteq> [] \<longrightarrow> length (pushed_entries l i es n) = l"
    by simp_all
  then show ?thesis unfolding xs_def by blast
qed

lemma pushed_entries_bounds:
  assumes "1 \<le> l"
  shows "pushed_entries l i es n \<noteq> []" "last (pushed_entries l i es n) = n"
    "length (pushed_entries l i es n) \<le> l"
  using assms by (auto simp: pushed_entries_def Let_def)

lemma set_pushed_entries: "set (pushed_entries l i es n) \<subseteq> insert n (set es)"
proof -
  obtain d where "d @ pushed_entries l i es n = take (nat (i + 1)) es @ [n]"
    using pushed_entries_split [of l i es n] by blast
  then have "set (d @ pushed_entries l i es n) = set (take (nat (i + 1)) es @ [n])" by simp
  then show ?thesis by (auto dest: in_set_takeD)
qed

lemma push_Inr:
  assumes "push e h = Inr (True, h')"
  obtains n where "normalizeNavigationEntry e = Inr n" "0 \<le> h_index h" "h_current h \<noteq> Some n"
    "h_entries h' = pushed_entries (h_limit h) (h_index h) (h_entries h) n"
    "h_index h' = int (length (h_entries h')) - 1" "h_limit h' = h_limit h"
  using assms by (auto simp: push_def bind_r_Inr_iff Let_def split: if_splits)

lemma push_ok: "history_ok h \<Longrightarrow> push e h = Inr (b, h') \<Longrightarrow> history_ok h'"
proof -
  assume h: "history_ok h" and p: "push e h = Inr (b, h')"
  show "history_ok h'"
  proof (cases b)
    case False
    with p h show ?thesis by (auto simp: push_def bind_r_Inr_iff Let_def split: if_splits)
  next
    case True
    with p obtain n where n: "normalizeNavigationEntry e = Inr n"
        "h_entries h' = pushed_entries (h_limit h) (h_index h) (h_entries h) n"
        "h_index h' = int (length (h_entries h')) - 1" "h_limit h' = h_limit h"
      by (auto elim: push_Inr)
    with h pushed_entries_bounds [of "h_limit h" "h_index h" "h_entries h" n]
      set_pushed_entries [of "h_limit h" "h_index h" "h_entries h" n]
    show ?thesis by (auto simp: history_ok_def Suc_le_eq)
  qed
qed

lemma go_ok: "history_ok h \<Longrightarrow> history_ok (snd (go meta d h))"
  by (auto simp: go_def history_ok_def Let_def split: option.splits)

lemma commit_ok: "history_ok h \<Longrightarrow> history_ok (snd (commit t h))"
  by (auto simp: commit_def history_ok_def transitionIsCurrent_def)

lemma cancelPending_ok: "history_ok h \<Longrightarrow> history_ok (cancelPending h)"
  by (simp add: cancelPending_def history_ok_def)

lemmas history_ops_ok = seed_ok push_ok replaceCurrent_ok replaceSelection_ok

lemma history_step_ok: "history_ok h \<Longrightarrow> history_ok (history_step meta c h)"
  by (cases c) (auto simp: after_throw_def go_ok commit_ok cancelPending_ok split: sum.splits dest: history_ops_ok)

interpretation nh: machine "history_step meta" history_ok for meta
  by unfold_locales (rule history_step_ok)

section \<open>Every effective call leaves a mark\<close>

text \<open>The revision and the generation only grow, and a call that leaves both alone changes nothing.\<close>

definition stamp :: "nav_history \<Rightarrow> nat" where
  "stamp h = h_revision h + h_generation h"

lemma replaceCurrent_stamp: "replaceCurrent e h = Inr (b, h') \<Longrightarrow> h' = h \<or> stamp h < stamp h'"
  by (auto simp: replaceCurrent_def stamp_def bind_r_Inr_iff split: if_splits)

lemma history_step_stamp: "history_step meta c h = h \<or> stamp h < stamp (history_step meta c h)"
proof (cases c)
  case (ReplaceSelection s)
  show ?thesis
  proof (cases "replaceSelection s h")
    case (Inr r)
    obtain b h' where r: "r = (b, h')" by (cases r)
    with Inr have "\<exists>e. replaceCurrent e h = Inr (b, h')"
      by (auto simp: replaceSelection_def split: option.splits raw_entry.splits)
    then have "h' = h \<or> stamp h < stamp h'" by (auto dest: replaceCurrent_stamp)
    with Inr r show ?thesis by (simp add: ReplaceSelection after_throw_def)
  qed (simp add: ReplaceSelection after_throw_def)
next
  case (ReplaceCurrent e)
  then show ?thesis by (auto simp: after_throw_def split: sum.splits dest: replaceCurrent_stamp)
qed (auto simp: after_throw_def seed_def push_def go_def commit_def cancelPending_def stamp_def bind_r_Inr_iff Let_def
    split: sum.splits option.splits if_splits)

lemma history_run_stamp:
  "fold (history_step meta) cs h = h \<or> stamp h < stamp (fold (history_step meta) cs h)"
proof (induction cs arbitrary: h)
  case Nil
  then show ?case by simp
next
  case (Cons c cs)
  from Cons.IH [of "history_step meta c h"] history_step_stamp [of meta c h] show ?case by auto
qed

lemma go_transition:
  assumes "go meta d h = (Some t, h1)"
  shows "h1 = h\<lparr>h_generation := h_generation h + 1\<rparr>" "transitionIsCurrent h1 t"
    "tr_revision t = h_revision h1" "tr_generation t = h_generation h1"
  using assms
  by (auto simp: go_def h_destination_def transitionIsCurrent_def Let_def split: option.splits jsnum.splits if_splits)

section \<open>Properties\<close>

text \<open>C1. Whatever sequence of calls a window makes, the history never holds more entries than its limit,
  its index points at an entry once it is seeded, and it holds normalized entries only.\<close>

theorem history_bounds:
  assumes "createNavigationHistory limit authority = Inr h0"
  shows "let h = fold (history_step meta) calls h0 in
     length (h_entries h) \<le> h_limit h
     \<and> (if h_entries h = [] then h_index h = -1 else 0 \<le> h_index h \<and> h_index h < int (length (h_entries h)))
     \<and> (\<forall>e \<in> set (h_entries h). entry_ok e)"
proof -
  have "history_ok (fold (history_step meta) calls h0)"
    by (rule nh.run_inv) (rule create_history_ok [OF assms])
  then show ?thesis
    by (auto simp: Let_def history_ok_def normalizeNavigationEntry_ok)
qed

definition demo_history :: nav_history where
  "demo_history = \<lparr>h_limit = 2, h_authority = 0, h_entries = [], h_index = -1, h_revision = 0, h_generation = 0\<rparr>"

definition plain_raw :: "int \<Rightarrow> raw_entry option" where
  "plain_raw n = Some (RawEntry (JNum 1) (JNum n) (Some []) JNull None None)"

definition plain_entry :: "int \<Rightarrow> nav_entry" where
  "plain_entry n = \<lparr>ne_threadId = show_int 1, ne_turnId = show_int n, ne_path = [], ne_selectedNodeId = None,
     ne_temporal = None, ne_origin = None\<rparr>"

lemma plain_raw_normalizes [simp]: "normalizeNavigationEntry (plain_raw n) = Inr (plain_entry n)"
  by (simp add: normalizeNavigationEntry_def plain_raw_def plain_entry_def normalizeInvocationOrigin_def
      normalizeBase_def requiredId_def normalizePath_def normalizeTemporalCurrent_def optionalId_def)

lemma plain_entry_inject [simp]: "plain_entry m = plain_entry n \<longleftrightarrow> m = n"
  by (simp add: plain_entry_def)

lemma demo_history_created: "createNavigationHistory (NInt 2) 0 = Inr demo_history"
  by (simp add: createNavigationHistory_def positiveLimit_def demo_history_def)

theorem history_bounds_witness:
  "createNavigationHistory (NInt 2) 0 = Inr demo_history
   \<and> length (h_entries (fold (history_step (\<lambda>_ _. ())) [Seed (plain_raw 1), Push (plain_raw 2), Push (plain_raw 3)]
       demo_history)) \<le> 2"
proof -
  let ?h = "fold (history_step (\<lambda>_ _. ())) [Seed (plain_raw 1), Push (plain_raw 2), Push (plain_raw 3)] demo_history"
  have "length (h_entries ?h) \<le> h_limit ?h"
    using history_bounds [OF demo_history_created, of "\<lambda>_ _. ()"
      "[Seed (plain_raw 1), Push (plain_raw 2), Push (plain_raw 3)]"] by (simp only: Let_def)
  moreover have "h_limit ?h = 2"
    by (simp add: after_throw_def seed_def push_def demo_history_def h_current_def pushed_entries_def Let_def)
  ultimately show ?thesis using demo_history_created by simp
qed

text \<open>C2. A transition commits only if nothing happened to the history since it was handed out: any push,
  replacement, commit, further \<open>go\<close> or cancellation that took effect makes it stale, and a stale
  transition changes nothing.\<close>

theorem stale_transition_never_commits:
  assumes "go meta d h = (Some t, h1)" and "fold (history_step meta) calls h1 \<noteq> h1"
  shows "commit t (fold (history_step meta) calls h1) = (False, fold (history_step meta) calls h1)"
proof -
  let ?h = "fold (history_step meta) calls h1"
  from assms(2) history_run_stamp [of meta calls h1] have "stamp h1 < stamp ?h" by auto
  then have "\<not> transitionIsCurrent ?h t"
    using go_transition(3,4) [OF assms(1)] by (auto simp: transitionIsCurrent_def stamp_def)
  then show ?thesis by (simp add: commit_def)
qed

definition demo_seeded :: nav_history where
  "demo_seeded = \<lparr>h_limit = 2, h_authority = 0, h_entries = [plain_entry 1, plain_entry 2], h_index = 1,
     h_revision = 2, h_generation = 0\<rparr>"

definition demo_back :: "unit transition" where
  "demo_back = \<lparr>di_delta = -1, di_direction = Back, di_index = 0, de_entry = plain_entry 1, de_metadata = (),
     tr_sourceIndex = 1, tr_revision = 2, tr_generation = 1, tr_authority = 0\<rparr>"

lemma demo_go: "go (\<lambda>_ _. ()) (NInt (-1)) demo_seeded = (Some demo_back, demo_seeded\<lparr>h_generation := 1\<rparr>)"
  by (simp add: go_def h_destination_def demo_seeded_def demo_back_def)

theorem stale_transition_never_commits_witness:
  "fst (commit demo_back (history_step (\<lambda>_ _. ()) (Push (plain_raw 3)) (demo_seeded\<lparr>h_generation := 1\<rparr>))) = False"
proof -
  let ?h1 = "demo_seeded\<lparr>h_generation := 1\<rparr>"
  have "fold (history_step (\<lambda>_ _. ())) [Push (plain_raw 3)] ?h1 \<noteq> ?h1"
    by (simp add: after_throw_def push_def demo_seeded_def h_current_def pushed_entries_def Let_def)
  from stale_transition_never_commits [OF demo_go this] show ?thesis by simp
qed

text \<open>C3. Back and forward are inverse: going back, committing, going forward and committing shows the
  entry the window started from, with the same entries in the history.\<close>

theorem back_then_forward_restores:
  assumes "history_ok h" and "canGoBack h"
  shows "\<exists>t1 h1 h2 t2 h3 h4. go meta (NInt (-1)) h = (Some t1, h1) \<and> commit t1 h1 = (True, h2)
     \<and> canGoForward h2 \<and> go meta (NInt 1) h2 = (Some t2, h3) \<and> commit t2 h3 = (True, h4)
     \<and> h_current h4 = h_current h \<and> h_entries h4 = h_entries h \<and> h_index h4 = h_index h"
proof -
  have i: "0 < h_index h" "h_index h < int (length (h_entries h))"
    using assms by (auto simp: history_ok_def canGoBack_def split: if_splits)
  obtain t1 h1 where g1: "go meta (NInt (-1)) h = (Some t1, h1)" and d1: "di_index t1 = h_index h - 1"
    using i by (auto simp: go_def h_destination_def Let_def)
  define h2 where "h2 = h1\<lparr>h_index := h_index h - 1, h_revision := h_revision h1 + 1\<rparr>"
  have c1: "commit t1 h1 = (True, h2)"
    using go_transition(2) [OF g1] d1 by (simp add: commit_def h2_def)
  have h2: "h_entries h2 = h_entries h" "h_index h2 = h_index h - 1"
    using go_transition(1) [OF g1] by (simp_all add: h2_def)
  obtain t2 h3 where g2: "go meta (NInt 1) h2 = (Some t2, h3)" and d2: "di_index t2 = h_index h"
    using i h2 by (auto simp: go_def h_destination_def Let_def)
  define h4 where "h4 = h3\<lparr>h_index := h_index h, h_revision := h_revision h3 + 1\<rparr>"
  have c2: "commit t2 h3 = (True, h4)"
    using go_transition(2) [OF g2] d2 by (simp add: commit_def h4_def)
  have "canGoForward h2" using i h2 by (simp add: canGoForward_def)
  moreover have "h_entries h4 = h_entries h" "h_index h4 = h_index h"
    using go_transition(1) [OF g2] h2 by (simp_all add: h4_def)
  ultimately show ?thesis using g1 c1 g2 c2 by (fastforce simp: h_current_def)
qed

lemma demo_seeded_ok: "history_ok demo_seeded"
  by (auto simp: history_ok_def demo_seeded_def intro: exI [of _ "plain_raw _"])

theorem back_then_forward_restores_witness:
  "\<exists>t1 h1 h2 t2 h3 h4. go (\<lambda>_ _. ()) (NInt (-1)) demo_seeded = (Some t1, h1) \<and> commit t1 h1 = (True, h2)
     \<and> go (\<lambda>_ _. ()) (NInt 1) h2 = (Some t2, h3) \<and> commit t2 h3 = (True, h4)
     \<and> h_current h4 = Some (plain_entry 2)"
proof -
  have "canGoBack demo_seeded" "h_current demo_seeded = Some (plain_entry 2)"
    by (simp_all add: canGoBack_def demo_seeded_def h_current_def)
  with back_then_forward_restores [OF demo_seeded_ok, of "\<lambda>_ _. ()"] show ?thesis by metis
qed

text \<open>A push that takes effect makes the new entry current, drops the forward entries, and keeps the
  newest entries up to the limit, in order.\<close>

theorem push_effect:
  assumes "history_ok h" and "push raw h = Inr (True, h')"
  shows "\<exists>n. normalizeNavigationEntry raw = Inr n \<and> h_current h' = Some n \<and> \<not> canGoForward h'
     \<and> (\<exists>dropped. dropped @ h_entries h' = take (nat (h_index h + 1)) (h_entries h) @ [n]
        \<and> (dropped \<noteq> [] \<longrightarrow> length (h_entries h') = h_limit h))"
proof -
  from assms(2) obtain n where n: "normalizeNavigationEntry raw = Inr n"
      "h_entries h' = pushed_entries (h_limit h) (h_index h) (h_entries h) n"
      "h_index h' = int (length (h_entries h')) - 1"
    by (auto elim: push_Inr)
  have "1 \<le> h_limit h" using assms(1) by (simp add: history_ok_def)
  then have ne: "h_entries h' \<noteq> []" "last (h_entries h') = n"
    by (simp_all add: n(2) pushed_entries_bounds)
  then have "nat (h_index h') = length (h_entries h') - 1" "\<not> h_index h' < 0"
    using n(3) by (cases "h_entries h'"; simp)+
  with ne have "h_current h' = Some n" by (simp add: h_current_def last_conv_nth)
  moreover have "\<not> canGoForward h'" by (simp add: canGoForward_def n(3))
  ultimately show ?thesis
    using n(1) pushed_entries_split [of "h_limit h" "h_index h" "h_entries h" n] by (simp add: n(2))
qed

theorem push_effect_witness:
  "\<exists>h'. push (plain_raw 3) demo_seeded = Inr (True, h') \<and> h_current h' = Some (plain_entry 3)"
proof -
  have "\<exists>h'. push (plain_raw 3) demo_seeded = Inr (True, h')"
    by (simp add: push_def demo_seeded_def h_current_def Let_def)
  then obtain h' where p: "push (plain_raw 3) demo_seeded = Inr (True, h')" ..
  from push_effect [OF demo_seeded_ok p] p show ?thesis by auto
qed

section \<open>The gate of latest requests\<close>

record request_gate =
  g_authority :: nat
  g_requestId :: nat
  g_generation :: nat

record gate_token =
  tk_authority :: nat
  tk_requestId :: nat
  tk_generation :: nat

definition createLatestRequestGate :: "nat \<Rightarrow> request_gate" where
  "createLatestRequestGate authority = \<lparr>g_authority = authority, g_requestId = 0, g_generation = 0\<rparr>"

definition gate_begin :: "request_gate \<Rightarrow> gate_token \<times> request_gate" where
  "gate_begin g =
     (let g' = g\<lparr>g_requestId := g_requestId g + 1\<rparr> in
      (\<lparr>tk_authority = g_authority g', tk_requestId = g_requestId g', tk_generation = g_generation g'\<rparr>, g'))"

definition gate_invalidate :: "request_gate \<Rightarrow> request_gate" where
  "gate_invalidate g = g\<lparr>g_generation := g_generation g + 1\<rparr>"

definition gate_isCurrent :: "request_gate \<Rightarrow> gate_token \<Rightarrow> bool" where
  "gate_isCurrent g t \<longleftrightarrow>
     tk_authority t = g_authority g \<and> tk_requestId t = g_requestId g \<and> tk_generation t = g_generation g"

text \<open>What every token this gate handed out satisfies.\<close>

definition gate_issued :: "request_gate \<Rightarrow> gate_token \<Rightarrow> bool" where
  "gate_issued g t \<longleftrightarrow> tk_requestId t \<le> g_requestId g \<and> tk_generation t \<le> g_generation g"

interpretation rg: token_gate gate_begin gate_invalidate gate_isCurrent gate_issued
  by unfold_locales (auto simp: gate_begin_def gate_invalidate_def gate_isCurrent_def gate_issued_def Let_def)

text \<open>Only the latest request is current: its token is current when it is handed out, and after any
  further request or invalidation, however many follow, it never is again.\<close>

theorem latest_request_only:
  assumes "gate_begin g = (t, g')" and "ops \<noteq> []"
  shows "gate_isCurrent g' t
    \<and> \<not> gate_isCurrent (fold (\<lambda>again g. if again then snd (gate_begin g) else gate_invalidate g) ops g') t"
proof -
  have "gate_isCurrent g' t" by (rule rg.issue_current [OF assms(1)])
  moreover have "\<not> gate_isCurrent (fold rg.gate_step ops g') t"
    by (rule rg.stale_for_ever [OF rg.issue_issued [OF assms(1)] assms(2)])
  moreover have "rg.gate_step = (\<lambda>again g. if again then snd (gate_begin g) else gate_invalidate g)"
    by (simp add: fun_eq_iff rg.gate_step_def)
  ultimately show ?thesis by simp
qed

theorem latest_request_only_witness:
  "gate_isCurrent (snd (gate_begin (createLatestRequestGate 4))) (fst (gate_begin (createLatestRequestGate 4)))
   \<and> \<not> gate_isCurrent (gate_invalidate (snd (gate_begin (snd (gate_begin (createLatestRequestGate 4))))))
       (fst (gate_begin (createLatestRequestGate 4)))"
proof -
  obtain t g where b: "gate_begin (createLatestRequestGate 4) = (t, g)" by (cases "gate_begin (createLatestRequestGate 4)")
  have "[True, False] \<noteq> []" by simp
  from latest_request_only [OF b this] b show ?thesis by simp
qed

end
