(* ===== verification/NavCache.thy ===== *)
theory NavCache
  imports NavHistory
begin

text \<open>
  The read-through cache of accepted descendant layers (\<open>createAcceptedLayerCache\<close> in
  \<open>desktop/renderer/src/navigation-history.js\<close>). The closure's variables are a record. A cache key is
  the triple of identity strings that the code serializes with \<open>JSON.stringify\<close>, which is injective on
  arrays of strings. A load is a promise: \<open>getOrLoad\<close> hands it out and records the generations it
  started under, \<open>settle\<close> is the continuation that runs when the loader's promise settles, at any later
  moment; the outstanding promises are the field \<open>c_requests\<close>. The lemmas: the eviction loop has a closed
  form (the oldest unprotected layers go), the bound holds in every reachable state, a load that was
  invalidated never stores its value, and no layer has two live loads.
\<close>

section \<open>State\<close>

datatype cache_key = CacheKey string string string

record raw_identity =
  ri_threadId :: jsval
  ri_turnId :: jsval
  ri_layerId :: jsval

record load_request =
  lr_id :: nat
  lr_key :: cache_key
  lr_cacheGeneration :: nat
  lr_keyGeneration :: nat

record 'v layer_cache =
  c_limit :: nat
  c_resolved :: "(cache_key, cache_key \<times> 'v) jsmap"
  c_inFlight :: "(cache_key, nat) jsmap"
  c_keyGenerations :: "(cache_key, nat) jsmap"
  c_protected :: "cache_key list"
  c_cacheGeneration :: nat
  c_requests :: "load_request list"
  c_nextRequest :: nat

definition DEFAULT_LAYER_CACHE_LIMIT :: int where
  "DEFAULT_LAYER_CACHE_LIMIT = 50"

definition normalizeLayerCacheIdentity :: "raw_identity option \<Rightarrow> cache_key result" where
  "normalizeLayerCacheIdentity ident =
     (case ident of
        None \<Rightarrow> Inl (TypeError ''layer cache identity must be an object'')
      | Some i \<Rightarrow>
          bind_r (requiredId (ri_threadId i) ''threadId'') (\<lambda>th.
          bind_r (requiredId (ri_turnId i) ''turnId'') (\<lambda>tu.
          bind_r (requiredId (ri_layerId i) ''layerId'') (\<lambda>la. Inr (CacheKey th tu la)))))"

definition createAcceptedLayerCache :: "jsnum \<Rightarrow> 'v layer_cache result" where
  "createAcceptedLayerCache limit =
     bind_r (positiveLimit limit ''layer cache limit'') (\<lambda>l.
       Inr \<lparr>c_limit = l, c_resolved = [], c_inFlight = [], c_keyGenerations = [], c_protected = [],
         c_cacheGeneration = 0, c_requests = [], c_nextRequest = 0\<rparr>)"

section \<open>Operations\<close>

function enforceLimit :: "nat \<Rightarrow> cache_key list \<Rightarrow> (cache_key, 'w) jsmap \<Rightarrow> (cache_key, 'w) jsmap" where
  "enforceLimit limit prot m =
     (if length m > limit
      then (case find (\<lambda>k. k \<notin> set prot) (map_keys m) of
              None \<Rightarrow> m
            | Some k \<Rightarrow> enforceLimit limit prot (map_delete m k))
      else m)"
  by pat_completeness auto

termination
  by (relation "measure (\<lambda>(_, _, m). length m)")
    (auto simp: find_Some_iff map_has_keys intro: length_delete_less)

declare enforceLimit.simps [simp del]

text \<open>\<open>getRecord\<close>: a hit becomes the youngest entry.\<close>

definition getRecord :: "cache_key \<Rightarrow> 'v layer_cache \<Rightarrow> (cache_key \<times> 'v) option \<times> 'v layer_cache" where
  "getRecord key c =
     (case map_get (c_resolved c) key of
        None \<Rightarrow> (None, c)
      | Some r \<Rightarrow> (Some r, c\<lparr>c_resolved := map_set (map_delete (c_resolved c) key) key r\<rparr>))"

definition store_layer :: "cache_key \<Rightarrow> 'v \<Rightarrow> 'v layer_cache \<Rightarrow> 'v layer_cache" where
  "store_layer key v c =
     c\<lparr>c_resolved := enforceLimit (c_limit c) (c_protected c)
         (map_set (map_delete (c_resolved c) key) key (key, v))\<rparr>"

definition cache_set :: "('v \<Rightarrow> bool) \<Rightarrow> raw_identity option \<Rightarrow> 'v \<Rightarrow> 'v layer_cache \<Rightarrow> (bool \<times> 'v layer_cache) result" where
  "cache_set isCacheable ident v c =
     (if \<not> isCacheable v then Inr (False, c)
      else bind_r (normalizeLayerCacheIdentity ident) (\<lambda>key. Inr (True, store_layer key v c)))"

definition cache_has :: "raw_identity option \<Rightarrow> 'v layer_cache \<Rightarrow> bool result" where
  "cache_has ident c = bind_r (normalizeLayerCacheIdentity ident) (\<lambda>key. Inr (map_has (c_resolved c) key))"

definition cache_get :: "raw_identity option \<Rightarrow> 'v layer_cache \<Rightarrow> ('v option \<times> 'v layer_cache) result" where
  "cache_get ident c =
     bind_r (normalizeLayerCacheIdentity ident) (\<lambda>key.
       case getRecord key c of (r, c') \<Rightarrow> Inr (map_option snd r, c'))"

definition key_generation :: "'v layer_cache \<Rightarrow> cache_key \<Rightarrow> nat" where
  "key_generation c key = (case map_get (c_keyGenerations c) key of None \<Rightarrow> 0 | Some g \<Rightarrow> g)"

definition drop_layer :: "cache_key \<Rightarrow> 'v layer_cache \<Rightarrow> 'v layer_cache" where
  "drop_layer key c =
     c\<lparr>c_keyGenerations := map_set (c_keyGenerations c) key (key_generation c key + 1),
       c_inFlight := map_delete (c_inFlight c) key,
       c_resolved := map_delete (c_resolved c) key\<rparr>"

definition cache_delete :: "raw_identity option \<Rightarrow> 'v layer_cache \<Rightarrow> (bool \<times> 'v layer_cache) result" where
  "cache_delete ident c =
     bind_r (normalizeLayerCacheIdentity ident) (\<lambda>key.
       Inr (map_has (c_resolved c) key, drop_layer key c))"

definition cache_clear :: "'v layer_cache \<Rightarrow> 'v layer_cache" where
  "cache_clear c =
     c\<lparr>c_cacheGeneration := c_cacheGeneration c + 1, c_resolved := [], c_inFlight := [],
       c_keyGenerations := [], c_protected := []\<rparr>"

definition setProtected :: "raw_identity option list option \<Rightarrow> 'v layer_cache \<Rightarrow> 'v layer_cache result" where
  "setProtected identities c =
     (case identities of
        None \<Rightarrow> Inl (TypeError ''protected identities must be an array'')
      | Some ids \<Rightarrow>
          bind_r (map_r normalizeLayerCacheIdentity ids) (\<lambda>keys.
            Inr (c\<lparr>c_protected := keys, c_resolved := enforceLimit (c_limit c) keys (c_resolved c)\<rparr>)))"

definition cache_identities :: "'v layer_cache \<Rightarrow> cache_key list" where
  "cache_identities c = map fst (map_values (c_resolved c))"

text \<open>What \<open>getOrLoad\<close> returns: a promise of the cached value, the promise of a load already in flight, or
  the promise of a load it starts.\<close>

datatype 'v load_answer = Cached 'v | Joined nat | Started nat

definition start_load :: "cache_key \<Rightarrow> 'v layer_cache \<Rightarrow> 'v load_answer \<times> 'v layer_cache" where
  "start_load key c =
     (let r = \<lparr>lr_id = c_nextRequest c, lr_key = key, lr_cacheGeneration = c_cacheGeneration c,
                lr_keyGeneration = key_generation c key\<rparr> in
      (Started (lr_id r),
       c\<lparr>c_inFlight := map_set (c_inFlight c) key (lr_id r), c_requests := c_requests c @ [r],
         c_nextRequest := c_nextRequest c + 1\<rparr>))"

definition getOrLoad :: "raw_identity option \<Rightarrow> 'v layer_cache \<Rightarrow> ('v load_answer \<times> 'v layer_cache) result" where
  "getOrLoad ident c =
     bind_r (normalizeLayerCacheIdentity ident) (\<lambda>key.
       case getRecord key c of
         (Some r, c') \<Rightarrow> Inr (Cached (snd r), c')
       | (None, c') \<Rightarrow>
           (case map_get (c_inFlight c') key of
              Some p \<Rightarrow> Inr (Joined p, c')
            | None \<Rightarrow> Inr (start_load key c')))"

text \<open>The continuation of a load: \<open>None\<close> is a rejected loader, \<open>Some v\<close> a fulfilled one.\<close>

definition settle :: "('v \<Rightarrow> bool) \<Rightarrow> load_request \<Rightarrow> 'v option \<Rightarrow> 'v layer_cache \<Rightarrow> 'v layer_cache" where
  "settle isCacheable r outcome c =
     (let c1 = (if map_get (c_inFlight c) (lr_key r) = Some (lr_id r)
                then c\<lparr>c_inFlight := map_delete (c_inFlight c) (lr_key r)\<rparr> else c);
          c2 = (case outcome of
                  None \<Rightarrow> c1
                | Some v \<Rightarrow>
                    if c_cacheGeneration c1 = lr_cacheGeneration r \<and> key_generation c1 (lr_key r) = lr_keyGeneration r
                      \<and> isCacheable v
                    then store_layer (lr_key r) v c1 else c1)
      in c2\<lparr>c_requests := filter (\<lambda>q. lr_id q \<noteq> lr_id r) (c_requests c2)\<rparr>)"

section \<open>The eviction loop\<close>

definition evicted :: "nat \<Rightarrow> cache_key list \<Rightarrow> cache_key list \<Rightarrow> cache_key list" where
  "evicted limit prot keys = take (length keys - limit) (filter (\<lambda>k. k \<notin> set prot) keys)"

lemma filter_find_Some:
  "find P xs = Some k \<Longrightarrow> distinct xs \<Longrightarrow> filter P xs = k # filter P (filter (\<lambda>k'. k' \<noteq> k) xs)"
proof (induction xs)
  case Nil
  then show ?case by simp
next
  case (Cons x xs)
  show ?case
  proof (cases "P x")
    case True
    with Cons.prems have "x = k" and "k \<notin> set xs" by auto
    then show ?thesis using True by (auto intro: filter_cong)
  next
    case False
    with Cons show ?thesis by auto
  qed
qed

lemma enforceLimit_closed:
  "map_ok m \<Longrightarrow> enforceLimit limit prot m = filter (\<lambda>(k, _). k \<notin> set (evicted limit prot (map_keys m))) m"
proof (induction limit prot m rule: enforceLimit.induct)
  case (1 limit prot m)
  have len: "length (map_keys m) = length m" by (simp add: map_keys_def)
  show ?case
  proof (cases "length m > limit")
    case False
    then show ?thesis by (simp add: enforceLimit.simps [of limit prot m] evicted_def len)
  next
    case True
    show ?thesis
    proof (cases "find (\<lambda>k. k \<notin> set prot) (map_keys m)")
      case None
      then have "filter (\<lambda>k. k \<notin> set prot) (map_keys m) = []"
        by (auto simp: find_None_iff filter_empty_conv)
      with None True show ?thesis by (simp add: enforceLimit.simps [of limit prot m] evicted_def)
    next
      case (Some k)
      then have k: "map_has m k" by (auto simp: find_Some_iff map_has_keys)
      let ?m = "map_delete m k"
      have keys: "map_keys ?m = filter (\<lambda>k'. k' \<noteq> k) (map_keys m)" by (rule map_keys_delete)
      have "length (map_keys ?m) = length m - 1"
        using length_map_delete [OF 1(2), of k] k by (simp add: map_keys_def)
      then have ev: "evicted limit prot (map_keys m) = k # evicted limit prot (map_keys ?m)"
        using True filter_find_Some [OF Some] 1(2)
        by (simp add: evicted_def len keys map_ok_keys Suc_diff_le flip: Suc_diff_le) (simp add: take_Cons')
      have "enforceLimit limit prot m = enforceLimit limit prot ?m"
        using True Some by (simp add: enforceLimit.simps [of limit prot m])
      also have "\<dots> = filter (\<lambda>(k, _). k \<notin> set (evicted limit prot (map_keys ?m))) ?m"
        by (rule 1(1) [OF True Some]) (simp add: 1(2))
      also have "\<dots> = filter (\<lambda>(k, _). k \<notin> set (evicted limit prot (map_keys m))) m"
        unfolding ev by (auto simp: map_delete_def intro: filter_cong)
      finally show ?thesis .
    qed
  qed
qed

lemma enforceLimit_ok: "map_ok m \<Longrightarrow> map_ok (enforceLimit limit prot m)"
  by (simp add: enforceLimit_closed map_ok_filter)

lemma enforceLimit_bound:
  "length (enforceLimit limit prot m) \<le> limit \<or> set (map_keys (enforceLimit limit prot m)) \<subseteq> set prot"
proof (induction limit prot m rule: enforceLimit.induct)
  case (1 limit prot m)
  then show ?case
    by (subst (1 2) enforceLimit.simps) (auto simp: find_None_iff split: option.splits)
qed

lemma enforceLimit_protected:
  "map_ok m \<Longrightarrow> k \<in> set prot \<Longrightarrow> map_get (enforceLimit limit prot m) k = map_get m k"
proof (induction limit prot m rule: enforceLimit.induct)
  case (1 limit prot m)
  then show ?case
    by (subst enforceLimit.simps) (auto simp: find_Some_iff split: option.splits)
qed

section \<open>The cache as a machine\<close>

datatype 'v cache_call =
    CacheGet "raw_identity option"
  | CacheSet "raw_identity option" 'v
  | CacheDelete "raw_identity option"
  | CacheClear
  | SetProtected "raw_identity option list option"
  | GetOrLoad "raw_identity option"
  | Settle nat "'v option"

definition caught :: "'s \<Rightarrow> ('a \<times> 's) result \<Rightarrow> 's" where
  "caught s r = (case r of Inl _ \<Rightarrow> s | Inr (_, s') \<Rightarrow> s')"

text \<open>A loader settles only while its promise is outstanding, so \<open>Settle\<close> of any other number does nothing.\<close>

fun cache_step :: "('v \<Rightarrow> bool) \<Rightarrow> 'v cache_call \<Rightarrow> 'v layer_cache \<Rightarrow> 'v layer_cache" where
  "cache_step ok (CacheGet i) c = caught c (cache_get i c)"
| "cache_step ok (CacheSet i v) c = caught c (cache_set ok i v c)"
| "cache_step ok (CacheDelete i) c = caught c (cache_delete i c)"
| "cache_step ok CacheClear c = cache_clear c"
| "cache_step ok (SetProtected ps) c = (case setProtected ps c of Inl _ \<Rightarrow> c | Inr c' \<Rightarrow> c')"
| "cache_step ok (GetOrLoad i) c = caught c (getOrLoad i c)"
| "cache_step ok (Settle n outcome) c =
     (case find (\<lambda>q. lr_id q = n) (c_requests c) of
        None \<Rightarrow> c
      | Some r \<Rightarrow> settle ok r outcome c)"

text \<open>Every step is one of six changes of the state; the invariants are proved for these.\<close>

datatype 'v cache_change =
    Same | Touch cache_key "cache_key \<times> 'v" | Store cache_key 'v | Drop cache_key | Wipe | Protect "cache_key list" | Load cache_key
  | Done load_request "'v option"

fun change :: "('v \<Rightarrow> bool) \<Rightarrow> 'v cache_change \<Rightarrow> 'v layer_cache \<Rightarrow> 'v layer_cache" where
  "change ok Same c = c"
| "change ok (Touch k r) c = c\<lparr>c_resolved := map_set (map_delete (c_resolved c) k) k r\<rparr>"
| "change ok (Store k v) c = store_layer k v c"
| "change ok (Drop k) c = drop_layer k c"
| "change ok Wipe c = cache_clear c"
| "change ok (Protect ks) c = c\<lparr>c_protected := ks, c_resolved := enforceLimit (c_limit c) ks (c_resolved c)\<rparr>"
| "change ok (Load k) c = snd (start_load k c)"
| "change ok (Done r out) c = settle ok r out c"

fun change_enabled :: "'v cache_change \<Rightarrow> 'v layer_cache \<Rightarrow> bool" where
  "change_enabled (Touch k r) c = (map_get (c_resolved c) k = Some r)"
| "change_enabled (Load k) c = (map_get (c_inFlight c) k = None)"
| "change_enabled (Done r out) c = (r \<in> set (c_requests c))"
| "change_enabled _ c = True"

lemma getRecord_change: "\<exists>ch. snd (getRecord k c) = change ok ch c \<and> change_enabled ch c"
proof (cases "map_get (c_resolved c) k")
  case None
  then show ?thesis by (intro exI [of _ Same]) (simp add: getRecord_def)
next
  case (Some r)
  then show ?thesis by (intro exI [of _ "Touch k r"]) (simp add: getRecord_def)
qed

lemma getOrLoad_change: "getOrLoad i c = Inr (a, c') \<Longrightarrow> \<exists>ch. c' = change ok ch c \<and> change_enabled ch c"
proof (erule bind_r_InrE [OF getOrLoad_def [symmetric, THEN trans]])
  fix k
  assume "(case getRecord k c of (Some r, c') \<Rightarrow> Inr (Cached (snd r), c')
     | (None, c') \<Rightarrow> (case map_get (c_inFlight c') k of Some p \<Rightarrow> Inr (Joined p, c') | None \<Rightarrow> Inr (start_load k c'))) = Inr (a, c')"
  then consider "c' = snd (getRecord k c)" | "c' = change ok (Load k) c" "change_enabled (Load k) c"
    by (auto simp: getRecord_def split: option.splits prod.splits)
  then show ?thesis using getRecord_change [of k c ok] by cases (blast, blast)
qed

lemma cache_step_change: "\<exists>ch. cache_step ok call c = change ok ch c \<and> change_enabled ch c"
proof -
  have same: ?thesis if "cache_step ok call c = c" using that by (intro exI [of _ Same]) simp
  show ?thesis
  proof (cases call)
    case (CacheGet i)
    then show ?thesis
      using same by (auto simp: cache_get_def caught_def bind_r_def getRecord_change split: sum.splits prod.splits)
        (metis getRecord_change snd_conv)
  next
    case (CacheSet i v)
    then show ?thesis using same
      by (auto simp: cache_set_def caught_def bind_r_def split: sum.splits intro: exI [of _ "Store _ v"])
  next
    case (CacheDelete i)
    then show ?thesis using same
      by (auto simp: cache_delete_def caught_def bind_r_def split: sum.splits intro: exI [of _ "Drop _"])
  next
    case CacheClear
    then show ?thesis by (intro exI [of _ Wipe]) simp
  next
    case (SetProtected ps)
    then show ?thesis using same
      by (auto simp: setProtected_def bind_r_def split: sum.splits option.splits intro: exI [of _ "Protect _"])
  next
    case (GetOrLoad i)
    then show ?thesis using same getOrLoad_change [of i c _ _ ok]
      by (auto simp: caught_def split: sum.splits)
  next
    case (Settle n out)
    then show ?thesis using same
      by (auto simp: find_Some_iff split: option.splits intro: exI [of _ "Done _ out"])
  qed
qed

section \<open>Invariants\<close>

text \<open>A load is live while no \<open>delete\<close> of its key and no \<open>clear\<close> came after its start.\<close>

definition live :: "'v layer_cache \<Rightarrow> load_request \<Rightarrow> bool" where
  "live c r \<longleftrightarrow> c_cacheGeneration c = lr_cacheGeneration r \<and> key_generation c (lr_key r) = lr_keyGeneration r"

definition outdated :: "'v layer_cache \<Rightarrow> load_request \<Rightarrow> bool" where
  "outdated c r \<longleftrightarrow> lr_cacheGeneration r < c_cacheGeneration c
     \<or> lr_cacheGeneration r = c_cacheGeneration c \<and> lr_keyGeneration r < key_generation c (lr_key r)"

definition resolved_ok :: "'v layer_cache \<Rightarrow> bool" where
  "resolved_ok c \<longleftrightarrow> map_ok (c_resolved c) \<and> (\<forall>k k' v. map_get (c_resolved c) k = Some (k', v) \<longrightarrow> k' = k)
     \<and> (length (c_resolved c) \<le> c_limit c \<or> set (map_keys (c_resolved c)) \<subseteq> set (c_protected c))"

definition loads_ok :: "'v layer_cache \<Rightarrow> bool" where
  "loads_ok c \<longleftrightarrow> (\<forall>k n. map_get (c_inFlight c) k = Some n \<longrightarrow> n < c_nextRequest c)
     \<and> (\<forall>r \<in> set (c_requests c). lr_id r < c_nextRequest c
          \<and> (outdated c r \<or> live c r \<and> map_get (c_inFlight c) (lr_key r) = Some (lr_id r)))"

lemmas cache_defs = store_layer_def drop_layer_def cache_clear_def start_load_def key_generation_def Let_def

lemma length_touch: "map_ok m \<Longrightarrow> map_has m k \<Longrightarrow> length (map_set (map_delete m k) k v) = length m"
  using length_delete_less [of m k] by (simp add: length_map_set length_map_delete)

lemma set_keys_touch: "set (map_keys (map_set (map_delete m k) k v)) = insert k (set (map_keys m))"
  by (auto simp: map_keys_set map_keys_delete)

lemma enforceLimit_get_in:
  "map_ok m \<Longrightarrow> map_get (enforceLimit l prot m) k = Some v \<Longrightarrow> map_get m k = Some v"
  by (auto simp: map_get_iff_in enforceLimit_ok) (auto simp: enforceLimit_closed)

lemma store_resolved_ok:
  assumes "resolved_ok c" shows "resolved_ok (store_layer k v c)"
proof -
  let ?m = "map_set (map_delete (c_resolved c) k) k (k, v)"
  have m: "map_ok ?m" using assms by (simp add: resolved_ok_def)
  have "k2 = k1" if "map_get (enforceLimit (c_limit c) (c_protected c) ?m) k1 = Some (k2, w)" for k1 k2 w
    using enforceLimit_get_in [OF m that] assms by (auto simp: resolved_ok_def split: if_splits)
  then show ?thesis
    using enforceLimit_ok [OF m] enforceLimit_bound [of "c_limit c" "c_protected c" ?m]
    by (auto simp: resolved_ok_def store_layer_def)
qed

lemma protect_resolved_ok:
  assumes "resolved_ok c"
  shows "resolved_ok (c\<lparr>c_protected := ks, c_resolved := enforceLimit (c_limit c) ks (c_resolved c)\<rparr>)"
proof -
  have m: "map_ok (c_resolved c)" using assms by (simp add: resolved_ok_def)
  show ?thesis
    using enforceLimit_ok [OF m] enforceLimit_bound [of "c_limit c" ks "c_resolved c"] enforceLimit_get_in [OF m] assms
    by (auto simp: resolved_ok_def)
qed

lemma settle_resolved_ok: "resolved_ok c \<Longrightarrow> resolved_ok (settle ok r out c)"
proof -
  have upd: "resolved_ok (d\<lparr>c_requests := qs\<rparr>) = resolved_ok d" "resolved_ok (d\<lparr>c_inFlight := f\<rparr>) = resolved_ok d"
    for d :: "'a layer_cache" and qs f by (simp_all add: resolved_ok_def)
  assume "resolved_ok c"
  then show ?thesis by (auto simp: settle_def Let_def upd store_resolved_ok split: option.splits)
qed

lemma change_resolved_ok:
  assumes "resolved_ok c" "change_enabled ch c" shows "resolved_ok (change ok ch c)"
proof (cases ch)
  case (Touch k r)
  with assms have "map_has (c_resolved c) k" by (simp add: map_has_iff)
  with Touch assms show ?thesis
    by (auto simp: resolved_ok_def length_touch set_keys_touch map_has_keys)
next
  case (Drop k)
  with assms show ?thesis
    using length_map_delete_le [of "c_resolved c" k]
    by (auto simp: resolved_ok_def drop_layer_def map_keys_delete)
next
  case (Protect ks)
  with assms show ?thesis using protect_resolved_ok by simp
qed (use assms in \<open>auto simp: store_resolved_ok settle_resolved_ok\<close>,
    auto simp: resolved_ok_def cache_clear_def start_load_def Let_def)

lemma outdated_stays: "outdated c r \<Longrightarrow> outdated (change ok ch c) r"
  by (cases ch) (auto simp: outdated_def cache_defs settle_def split: option.splits)

lemma change_loads_ok:
  assumes "loads_ok c" "change_enabled ch c" shows "loads_ok (change ok ch c)"
proof (cases ch)
  case (Drop k)
  have "outdated (drop_layer k c) r \<or> live (drop_layer k c) r \<and> map_get (c_inFlight (drop_layer k c)) (lr_key r) = Some (lr_id r)"
    if "r \<in> set (c_requests c)" for r
  proof (cases "lr_key r = k")
    case True
    with assms that show ?thesis
      by (auto simp: loads_ok_def outdated_def live_def drop_layer_def key_generation_def)
  next
    case False
    with assms that show ?thesis
      by (auto simp: loads_ok_def outdated_def live_def drop_layer_def key_generation_def)
  qed
  with Drop assms show ?thesis by (auto simp: loads_ok_def drop_layer_def split: if_splits)
next
  case (Load k)
  with assms show ?thesis
    by (auto simp: loads_ok_def start_load_def Let_def outdated_def live_def key_generation_def less_Suc_eq)
next
  case (Done r out)
  have g: "c_cacheGeneration (settle ok r out c) = c_cacheGeneration c"
    "key_generation (settle ok r out c) = key_generation c"
    "c_nextRequest (settle ok r out c) = c_nextRequest c"
    "c_requests (settle ok r out c) = filter (\<lambda>q. lr_id q \<noteq> lr_id r) (c_requests c)"
    "c_inFlight (settle ok r out c) =
       (if map_get (c_inFlight c) (lr_key r) = Some (lr_id r) then map_delete (c_inFlight c) (lr_key r) else c_inFlight c)"
    by (auto simp: settle_def Let_def store_layer_def key_generation_def fun_eq_iff split: option.splits)
  show ?thesis using assms unfolding Done change.simps loads_ok_def outdated_def live_def g by auto
qed (use assms in \<open>auto simp: loads_ok_def outdated_def live_def cache_defs\<close>)

definition cache_ok :: "'v layer_cache \<Rightarrow> bool" where
  "cache_ok c \<longleftrightarrow> resolved_ok c \<and> loads_ok c"

lemma cache_step_ok: "cache_ok c \<Longrightarrow> cache_ok (cache_step ok call c)"
  using cache_step_change [of ok call c] by (auto simp: cache_ok_def change_resolved_ok change_loads_ok)

interpretation lc: machine "cache_step ok" cache_ok for ok
  by unfold_locales (rule cache_step_ok)

lemma create_cache_ok: "createAcceptedLayerCache l = Inr c \<Longrightarrow> cache_ok c"
  by (auto simp: createAcceptedLayerCache_def bind_r_Inr_iff cache_ok_def resolved_ok_def loads_ok_def)

text \<open>What stays true of an invalidated load: it is outdated, and its layer's in-flight entry is not its own.\<close>

definition disowned :: "'v layer_cache \<Rightarrow> load_request \<Rightarrow> bool" where
  "disowned c r \<longleftrightarrow> outdated c r \<and> lr_id r < c_nextRequest c \<and> map_get (c_inFlight c) (lr_key r) \<noteq> Some (lr_id r)"

lemma disowned_stays: "disowned c r \<Longrightarrow> disowned (change ok ch c) r"
  using outdated_stays [of c r ok ch]
  by (cases ch) (auto simp: disowned_def cache_defs settle_def split: option.splits)

lemma disowned_run: "disowned c r \<Longrightarrow> disowned (fold (cache_step ok) calls c) r"
proof (induction calls arbitrary: c)
  case (Cons call calls)
  obtain ch where "cache_step ok call c = change ok ch c" using cache_step_change by blast
  with Cons show ?case by (simp add: disowned_stays)
qed simp

lemma settle_disowned:
  "disowned c r \<Longrightarrow> settle ok r out c = c\<lparr>c_requests := filter (\<lambda>q. lr_id q \<noteq> lr_id r) (c_requests c)\<rparr>"
  by (auto simp: settle_def Let_def disowned_def outdated_def split: option.splits)

lemma invalidate_disowns:
  assumes "loads_ok c" "r \<in> set (c_requests c)"
  shows "disowned (drop_layer (lr_key r) c) r" "disowned (cache_clear c) r"
  using assms by (auto simp: loads_ok_def disowned_def outdated_def live_def drop_layer_def cache_clear_def key_generation_def)

section \<open>Properties\<close>

text \<open>The eviction loop ends, and what it removes has a closed form: the oldest layers that are not
  protected, as many as the cache is over its limit. What stays keeps its order; a protected layer stays.\<close>

theorem enforceLimit_evicts_oldest_unprotected:
  assumes "map_ok m"
  shows "enforceLimit limit prot m = filter (\<lambda>(k, _). k \<notin> set (evicted limit prot (map_keys m))) m
     \<and> (\<forall>k \<in> set prot. map_get (enforceLimit limit prot m) k = map_get m k)"
  using enforceLimit_closed [OF assms] enforceLimit_protected [OF assms] by blast

definition demo_key :: "nat \<Rightarrow> cache_key" where
  "demo_key n = CacheKey ''1'' ''1'' (show_nat n)"

lemma demo_key_inject [simp]: "demo_key m = demo_key n \<longleftrightarrow> m = n"
  by (simp add: demo_key_def)

theorem enforceLimit_evicts_oldest_unprotected_witness:
  "enforceLimit 2 [demo_key 1] [(demo_key 1, ()), (demo_key 2, ()), (demo_key 3, ()), (demo_key 4, ())]
     = [(demo_key 1, ()), (demo_key 4, ())]"
  using enforceLimit_evicts_oldest_unprotected
    [of "[(demo_key 1, ()), (demo_key 2, ()), (demo_key 3, ()), (demo_key 4, ())]" 2 "[demo_key 1]"]
  by (simp add: map_ok_def evicted_def map_keys_def)

text \<open>In every state a window can bring the cache to, with any interleaving of calls and of loads that
  settle, it holds at most \<open>limit\<close> layers or protected layers only, each under its own identity.\<close>

theorem cache_bounded:
  assumes "createAcceptedLayerCache limit = Inr c0"
  shows "let c = fold (cache_step ok) calls c0 in
     (length (c_resolved c) \<le> c_limit c \<or> set (map_keys (c_resolved c)) \<subseteq> set (c_protected c))
     \<and> cache_identities c = map_keys (c_resolved c) \<and> distinct (cache_identities c)"
proof -
  let ?c = "fold (cache_step ok) calls c0"
  have ok: "resolved_ok ?c"
    using lc.run_inv [OF create_cache_ok [OF assms], of ok calls] by (simp add: cache_ok_def)
  have "fst (snd e) = fst e" if "e \<in> set (c_resolved ?c)" for e
  proof -
    obtain k k' v where e: "e = (k, k', v)" by (cases e)
    with ok that have "map_get (c_resolved ?c) k = Some (k', v)"
      by (simp add: resolved_ok_def map_get_iff_in)
    with ok e show ?thesis by (simp add: resolved_ok_def)
  qed
  then have "cache_identities ?c = map_keys (c_resolved ?c)"
    by (simp add: cache_identities_def map_values_def map_keys_def)
  with ok show ?thesis by (simp add: Let_def resolved_ok_def map_ok_keys)
qed

definition demo_cache :: "nat layer_cache" where
  "demo_cache = \<lparr>c_limit = 1, c_resolved = [], c_inFlight = [], c_keyGenerations = [], c_protected = [],
     c_cacheGeneration = 0, c_requests = [], c_nextRequest = 0\<rparr>"

definition demo_identity :: "int \<Rightarrow> raw_identity option" where
  "demo_identity n = Some \<lparr>ri_threadId = JNum 1, ri_turnId = JNum 1, ri_layerId = JNum n\<rparr>"

lemma demo_identity_normalizes [simp]:
  "normalizeLayerCacheIdentity (demo_identity n) = Inr (CacheKey (show_int 1) (show_int 1) (show_int n))"
  by (simp add: normalizeLayerCacheIdentity_def demo_identity_def requiredId_def)

lemma demo_cache_created: "createAcceptedLayerCache (NInt 1) = Inr demo_cache"
  by (simp add: createAcceptedLayerCache_def positiveLimit_def demo_cache_def)

theorem cache_bounded_witness:
  "length (c_resolved (fold (cache_step (\<lambda>_. True))
      [CacheSet (demo_identity 1) 10, CacheSet (demo_identity 2) 20] demo_cache)) \<le> 1"
proof -
  let ?cs = "[CacheSet (demo_identity 1) (10::nat), CacheSet (demo_identity 2) 20]"
  let ?c = "fold (cache_step (\<lambda>_. True)) ?cs demo_cache"
  have "length (c_resolved ?c) \<le> c_limit ?c \<or> set (map_keys (c_resolved ?c)) \<subseteq> set (c_protected ?c)"
    using cache_bounded [OF demo_cache_created, of "\<lambda>_. True" ?cs] by (simp only: Let_def)
  moreover have "c_limit ?c = 1" "c_protected ?c = []"
    by (simp_all add: caught_def cache_set_def store_layer_def demo_cache_def)
  ultimately show ?thesis by (auto simp: map_keys_def)
qed

text \<open>C4. A load that a \<open>delete\<close> of its layer or a \<open>clear\<close> overtook is without effect: whatever happened
  since, when it settles it neither stores its value nor removes another load from the in-flight map.\<close>

theorem invalidated_load_never_stores:
  assumes "createAcceptedLayerCache limit = Inr c0"
    and "r \<in> set (c_requests (fold (cache_step ok) calls c0))"
    and "c \<in> {drop_layer (lr_key r) (fold (cache_step ok) calls c0), cache_clear (fold (cache_step ok) calls c0)}"
  shows "let c' = fold (cache_step ok) calls' c; c'' = settle ok r outcome c' in
     c_resolved c'' = c_resolved c' \<and> c_inFlight c'' = c_inFlight c'"
proof -
  have "loads_ok (fold (cache_step ok) calls c0)"
    using lc.run_inv [OF create_cache_ok [OF assms(1)]] by (simp add: cache_ok_def)
  then have "disowned c r" using invalidate_disowns [OF _ assms(2)] assms(3) by auto
  then have "disowned (fold (cache_step ok) calls' c) r" by (rule disowned_run)
  then show ?thesis by (simp add: Let_def settle_disowned)
qed

definition demo_load :: load_request where
  "demo_load = \<lparr>lr_id = 0, lr_key = CacheKey (show_int 1) (show_int 1) (show_int 7), lr_cacheGeneration = 0,
     lr_keyGeneration = 0\<rparr>"

lemma demo_load_started: "c_requests (cache_step ok (GetOrLoad (demo_identity 7)) demo_cache) = [demo_load]"
  by (simp add: caught_def getOrLoad_def getRecord_def start_load_def demo_cache_def demo_load_def key_generation_def Let_def)

theorem invalidated_load_never_stores_witness:
  "c_resolved (settle (\<lambda>_. True) demo_load (Some 5)
     (cache_clear (cache_step (\<lambda>_. True) (GetOrLoad (demo_identity 7)) demo_cache))) = []"
  using invalidated_load_never_stores [OF demo_cache_created, of demo_load "\<lambda>_. True" "[GetOrLoad (demo_identity 7)]"
    "cache_clear (cache_step (\<lambda>_. True) (GetOrLoad (demo_identity 7)) demo_cache)" "[]" "Some 5"]
  by (simp add: demo_load_started Let_def cache_clear_def del: cache_step.simps)

text \<open>No layer is loaded twice at a time: in every reachable state two outstanding loads of one layer
  that nothing invalidated are the same load, and asking for the layer again joins it.\<close>

theorem one_live_load_per_layer:
  assumes "createAcceptedLayerCache limit = Inr c0"
    and "{q, r} \<subseteq> set (c_requests (fold (cache_step ok) calls c0))"
    and "live (fold (cache_step ok) calls c0) q" "live (fold (cache_step ok) calls c0) r"
    and "normalizeLayerCacheIdentity ident = Inr (lr_key r)" "lr_key q = lr_key r"
  shows "let c = fold (cache_step ok) calls c0 in lr_id q = lr_id r
     \<and> (map_get (c_resolved c) (lr_key r) = None \<longrightarrow> getOrLoad ident c = Inr (Joined (lr_id r), c))"
proof -
  let ?c = "fold (cache_step ok) calls c0"
  have "loads_ok ?c"
    using lc.run_inv [OF create_cache_ok [OF assms(1)]] by (simp add: cache_ok_def)
  moreover have "\<not> outdated ?c q" "\<not> outdated ?c r" using assms(3,4) by (auto simp: live_def outdated_def)
  ultimately have "map_get (c_inFlight ?c) (lr_key q) = Some (lr_id q)"
    "map_get (c_inFlight ?c) (lr_key r) = Some (lr_id r)"
    using assms(2) by (auto simp: loads_ok_def)
  with assms(5,6) show ?thesis by (simp add: Let_def getOrLoad_def getRecord_def)
qed

theorem one_live_load_per_layer_witness:
  "getOrLoad (demo_identity 7) (cache_step (\<lambda>_. True) (GetOrLoad (demo_identity 7)) demo_cache)
     = Inr (Joined 0, cache_step (\<lambda>_. True) (GetOrLoad (demo_identity 7)) demo_cache)"
proof -
  let ?c = "cache_step (\<lambda>_. True) (GetOrLoad (demo_identity 7)) demo_cache"
  have l: "live ?c demo_load" and n: "map_get (c_resolved ?c) (lr_key demo_load) = None"
    by (simp_all add: caught_def getOrLoad_def getRecord_def start_load_def demo_cache_def demo_load_def
        key_generation_def live_def Let_def)
  have "normalizeLayerCacheIdentity (demo_identity 7) = Inr (lr_key demo_load)" by (simp add: demo_load_def)
  from one_live_load_per_layer [OF demo_cache_created, of demo_load demo_load "\<lambda>_. True" "[GetOrLoad (demo_identity 7)]",
      OF _ _ _ this] l n
  have "getOrLoad (demo_identity 7) ?c = Inr (Joined (lr_id demo_load), ?c)"
    by (simp add: demo_load_started Let_def del: cache_step.simps)
  then show ?thesis by (simp add: demo_load_def del: cache_step.simps)
qed

end
