(* ===== verification/ProductRows.thy ===== *)
theory ProductRows
  imports JsCollections
begin

text \<open>
  The rows of the product API that the renderer's modules read: interactions, their attempts and
  outputs, layers with their nodes and actions, and the action invocations. A field the code only
  tests for truth or compares with \<open>true\<close> is a \<open>bool\<close>; one it also compares with \<open>null\<close> or
  \<open>undefined\<close> is an \<open>option\<close> or a \<open>jsval\<close>. Fields that no modelled function reads are left out.
\<close>

section \<open>Completion statuses\<close>

datatype status =
    NotStarted | Queued | Submitted | Running | WaitingForApproval | Paused | Interrupted
  | Accepted | Failed | Stopped | OtherStatus string | NoStatus

fun status_name :: "status \<Rightarrow> string" where
  "status_name NotStarted = ''not_started''"
| "status_name Queued = ''queued''"
| "status_name Submitted = ''submitted''"
| "status_name Running = ''running''"
| "status_name WaitingForApproval = ''waiting_for_approval''"
| "status_name Paused = ''paused''"
| "status_name Interrupted = ''interrupted''"
| "status_name Accepted = ''accepted''"
| "status_name Failed = ''failed''"
| "status_name Stopped = ''stopped''"
| "status_name (OtherStatus s) = s"
| "status_name NoStatus = ''undefined''"

section \<open>Layers\<close>

datatype action_kind = NavigateAction | InvokeAction | InputAction | OtherAction

record graph_action =
  ga_id :: jsval
  ga_kind :: action_kind
  ga_sourceNodeId :: jsval
  ga_targetLayerId :: jsval
  ga_reusable :: "bool option"
  ga_label :: "string option"
  ga_icon :: "string option"
  ga_state :: "string option"

record graph_node =
  gn_id :: jsval
  gn_state :: "string option"
  gn_title :: "string option"
  gn_icon :: "string option"
  gn_relayerIcon :: "string option"
  gn_responseOwner :: jsval

text \<open>\<open>{ layer: { id, state }, nodes, actions }\<close>; a missing inner \<open>layer\<close> gives an undefined id.\<close>

record graph_layer =
  gl_id :: jsval
  gl_state :: "string option"
  gl_nodes :: "graph_node list"
  gl_actions :: "graph_action list"

record completion_output =
  co_rootLayer :: "graph_layer option"
  co_rootAction :: "graph_action option"

section \<open>Interactions\<close>

record attempt =
  at_id :: jsval
  at_outcome :: "string option"
  at_failureCategory :: "string option"
  at_failureMessage :: "string option"
  at_modelSelection :: jsval
  at_startedAt :: jsval

text \<open>A source of an interaction in the interaction graph.\<close>

record graph_source =
  gs_interactionId :: jsval
  gs_threadId :: jsval
  gs_layers :: "jsval list"
  gs_invocationActionId :: jsval

record graph_projection =
  gp_enabled :: bool
  gp_complete :: "bool option"
  gp_sources :: "graph_source list"

record interaction =
  it_id :: jsval
  it_threadId :: jsval
  it_sequence :: jsval
  it_status :: status
  it_stopRequested :: bool
  it_stopError :: bool
  it_latestAttempt :: "attempt option"
  it_text :: "string option"
  it_prompt :: "string option"
  it_modelSelection :: jsval
  it_queueReason :: "string option"
  it_graphNodeId :: jsval
  it_runNodeId :: jsval
  it_createdAt :: jsval
  it_completionError :: "string option"
  it_output :: "completion_output option"
  it_inertCurrent :: bool
  it_inertSource :: bool
  it_graph :: "graph_projection option"
  it_contextCount :: nat

text \<open>The interaction with no property but its id: the starting point of a spread.\<close>

definition bare_interaction :: "jsval \<Rightarrow> interaction" where
  "bare_interaction i =
     \<lparr>it_id = i, it_threadId = JUndef, it_sequence = JUndef, it_status = NoStatus, it_stopRequested = False,
      it_stopError = False, it_latestAttempt = None, it_text = None, it_prompt = None, it_modelSelection = JUndef,
      it_queueReason = None, it_graphNodeId = JUndef, it_runNodeId = JUndef, it_createdAt = JUndef,
      it_completionError = None, it_output = None, it_inertCurrent = False, it_inertSource = False,
      it_graph = None, it_contextCount = 0\<rparr>"

lemma bare_interaction_simps [simp]:
  "it_id (bare_interaction i) = i" "it_status (bare_interaction i) = NoStatus"
  "it_threadId (bare_interaction i) = JUndef" "it_latestAttempt (bare_interaction i) = None"
  "it_stopRequested (bare_interaction i) = False" "it_queueReason (bare_interaction i) = None"
  by (simp_all add: bare_interaction_def)

section \<open>Action invocations\<close>

record invocation =
  iv_sourceInteractionId :: jsval
  iv_actionId :: jsval
  iv_resultInteractionId :: jsval
  iv_resultStatus :: status
  iv_invocationKey :: "string option"
  iv_durable :: "bool option"
  iv_reusable :: "bool option"
  iv_graphOnly :: bool
  iv_agentInvoked :: bool
  iv_providerRunning :: bool
  iv_preparationRecoverable :: "bool option"
  iv_preparationRejected :: "bool option"

definition bare_invocation :: "jsval \<Rightarrow> jsval \<Rightarrow> jsval \<Rightarrow> invocation" where
  "bare_invocation src act res =
     \<lparr>iv_sourceInteractionId = src, iv_actionId = act, iv_resultInteractionId = res, iv_resultStatus = NoStatus,
      iv_invocationKey = None, iv_durable = None, iv_reusable = None, iv_graphOnly = False,
      iv_agentInvoked = False, iv_providerRunning = False, iv_preparationRecoverable = None,
      iv_preparationRejected = None\<rparr>"

section \<open>Sets of identity strings\<close>

text \<open>\<open>new Set(xs.map((x) => String(x)))\<close> is only ever asked for membership; a list answers that.\<close>

definition id_in :: "jsval \<Rightarrow> string list \<Rightarrow> bool" where
  "id_in v ids \<longleftrightarrow> js_String v \<in> set ids"

lemma id_in_map: "id_in v (map (\<lambda>x. js_String (f x)) xs) \<longleftrightarrow> (\<exists>x \<in> set xs. eqId v (f x))"
  by (auto simp: id_in_def eqId_def)

lemma find_eqId_iff: "find (\<lambda>x. eqId (f x) v) xs = None \<longleftrightarrow> (\<forall>x \<in> set xs. \<not> eqId (f x) v)"
  by (auto simp: find_None_iff)

end
