(* ===== verification/RunState.thy ===== *)
theory RunState
  imports ProductRows
begin

text \<open>
  The run states of threads and nodes (\<open>desktop/renderer/src/product-workspace/run-state.js\<close>) and the
  failure model they rest on (\<open>desktop/renderer/src/interaction-failure-model.js\<close>): which runs are active,
  which a person may stop, what symbol a thread or a node shows, and where a submission goes after a model
  failure. The lemmas relate the views of one run to each other: the thread's symbol to that of its
  turns, the Stop of a node to the Stop of an interaction card, the Stop-all list to both.
\<close>

section \<open>Failures that return to the composer\<close>

definition interactionReturnsToUnsent :: "interaction option \<Rightarrow> bool" where
  "interactionReturnsToUnsent i =
     (case i of
        None \<Rightarrow> False
      | Some it \<Rightarrow> it_status it = NotStarted
          \<and> (case it_latestAttempt it of None \<Rightarrow> False | Some a \<Rightarrow> at_outcome a = Some ''model_failed''))"

record restored_draft =
  rd_text :: string
  rd_modelSelection :: jsval
  rd_failureCategory :: "string option"
  rd_retryAttemptId :: jsval
  rd_message :: string

definition default_failure_message :: string where
  "default_failure_message =
     ''The selected model could not complete this turn. Choose an available model and send again.''"

definition restoredDraftForInteraction :: "interaction option \<Rightarrow> restored_draft option" where
  "restoredDraftForInteraction i =
     (if \<not> interactionReturnsToUnsent i then None
      else (case i of
              None \<Rightarrow> None
            | Some it \<Rightarrow>
                (case it_latestAttempt it of
                   None \<Rightarrow> None
                 | Some a \<Rightarrow> Some
                     \<lparr>rd_text = (case it_text it of Some t \<Rightarrow> t | None \<Rightarrow> (case it_prompt it of Some t \<Rightarrow> t | None \<Rightarrow> '''')),
                      rd_modelSelection = nullish_or (it_modelSelection it) (nullish_or (at_modelSelection a) JNull),
                      rd_failureCategory = at_failureCategory a, rd_retryAttemptId = at_id a,
                      rd_message = (case at_failureMessage a of Some m \<Rightarrow> m | None \<Rightarrow> default_failure_message)\<rparr>)))"

definition confirmationRestorationKey :: "jsval \<Rightarrow> interaction option \<Rightarrow> string option" where
  "confirmationRestorationKey threadId i =
     (case (restoredDraftForInteraction i, i) of
        (Some d, Some it) \<Rightarrow>
          Some (js_String threadId @ '':'' @ js_String (it_id it) @ '':'' @ js_String (rd_retryAttemptId d))
      | _ \<Rightarrow> None)"

text \<open>\<open>encodeURIComponent\<close> on code points below 256: the unreserved characters stay, the others become the
  bytes of their UTF-8 form, each as a percent sign and two upper-case hexadecimal digits.\<close>

definition hex_digit :: "nat \<Rightarrow> char" where
  "hex_digit d = (if d < 10 then char_of (48 + d) else char_of (55 + d))"

definition percent :: "nat \<Rightarrow> string" where
  "percent b = [CHR ''%'', hex_digit (b div 16), hex_digit (b mod 16)]"

definition unreserved :: "char \<Rightarrow> bool" where
  "unreserved c \<longleftrightarrow> is_digit c \<or> (65 \<le> (of_char c :: nat) \<and> (of_char c :: nat) \<le> 90)
     \<or> (97 \<le> (of_char c :: nat) \<and> (of_char c :: nat) \<le> 122)
     \<or> c \<in> set (''-_.!~*()'' @ [CHR 0x27])"

definition encode_char :: "char \<Rightarrow> string" where
  "encode_char c =
     (let n = (of_char c :: nat) in
      if unreserved c then [c]
      else if n < 128 then percent n
      else percent (192 + n div 64) @ percent (128 + n mod 64))"

definition encodeURIComponent :: "string \<Rightarrow> string" where
  "encodeURIComponent s = concat (map encode_char s)"

record submission_body =
  sb_attemptId :: "jsval option"
  sb_text :: string
  sb_inputId :: "jsval option"
  sb_contexts :: "jsval list option"
  sb_contextConfirmationIds :: "jsval list option"
  sb_modelSelection :: jsval
  sb_inputDraftRevision :: "jsval option"

record submission =
  su_path :: string
  su_body :: submission_body

definition interactionSubmissionTarget ::
  "jsval \<Rightarrow> interaction option \<Rightarrow> string \<Rightarrow> jsval \<Rightarrow> jsval \<Rightarrow> jsval list \<Rightarrow> jsval list \<Rightarrow> jsval \<Rightarrow> submission" where
  "interactionSubmissionTarget threadId latest text modelSelection inputId contexts confirmations revision =
     (let base = ''/api/threads/'' @ encodeURIComponent (js_String threadId) @ ''/interactions'';
          rev = (if is_nullish revision then None else Some revision) in
      case (restoredDraftForInteraction latest, latest) of
        (Some d, Some it) \<Rightarrow>
          \<lparr>su_path = base @ ''/'' @ encodeURIComponent (js_String (it_id it)) @ ''/retry'',
           su_body = \<lparr>sb_attemptId = Some (rd_retryAttemptId d), sb_text = text, sb_inputId = Some inputId,
             sb_contexts = Some contexts, sb_contextConfirmationIds = Some confirmations,
             sb_modelSelection = modelSelection, sb_inputDraftRevision = rev\<rparr>\<rparr>
      | _ \<Rightarrow>
          \<lparr>su_path = base,
           su_body = \<lparr>sb_attemptId = None, sb_text = text, sb_inputId = None, sb_contexts = None,
             sb_contextConfirmationIds = None, sb_modelSelection = modelSelection, sb_inputDraftRevision = rev\<rparr>\<rparr>)"

section \<open>Thread activity\<close>

datatype activity = ActRunning | ActStopping | ActNeedsApproval | ActFailed

definition ACTIVE_STATUSES :: "status set" where
  "ACTIVE_STATUSES = {NotStarted, Queued, Running, Submitted, WaitingForApproval}"

definition STOPPABLE_STATUSES :: "status set" where
  "STOPPABLE_STATUSES = {Queued, Submitted, Running, WaitingForApproval}"

lemma stoppable_active: "s \<in> STOPPABLE_STATUSES \<Longrightarrow> s \<in> ACTIVE_STATUSES"
  by (auto simp: STOPPABLE_STATUSES_def ACTIVE_STATUSES_def)

definition interactionActivity :: "interaction option \<Rightarrow> activity option" where
  "interactionActivity i =
     (case i of
        None \<Rightarrow> None
      | Some it \<Rightarrow>
          if it_status it \<in> ACTIVE_STATUSES \<and> it_stopRequested it \<and> \<not> it_stopError it then Some ActStopping
          else if it_status it = WaitingForApproval then Some ActNeedsApproval
          else if it_status it \<in> ACTIVE_STATUSES then Some ActRunning
          else if it_status it = Failed then Some ActFailed
          else None)"

definition runIsActive :: "interaction \<Rightarrow> bool" where
  "runIsActive run \<longleftrightarrow> it_status run \<in> ACTIVE_STATUSES \<and> \<not> interactionReturnsToUnsent (Some run)"

definition turn_stopping :: "interaction \<Rightarrow> bool" where
  "turn_stopping t \<longleftrightarrow> it_stopRequested t \<and> \<not> it_stopError t"

definition turn_needsApproval :: "interaction \<Rightarrow> bool" where
  "turn_needsApproval t \<longleftrightarrow> runIsActive t \<and> it_status t = WaitingForApproval \<and> \<not> turn_stopping t"

definition threadActivity :: "interaction list \<Rightarrow> bool \<Rightarrow> activity option" where
  "threadActivity turns childApprovalPending =
     (let active = filter runIsActive turns in
      if list_ex turn_needsApproval turns \<or> childApprovalPending then Some ActNeedsApproval
      else if list_ex turn_stopping active then Some ActStopping
      else if active \<noteq> [] then Some ActRunning
      else if turns \<noteq> [] \<and> it_status (last turns) = Failed then Some ActFailed
      else None)"

definition withoutPreparationsAwaitingRetry :: "interaction list \<Rightarrow> invocation list \<Rightarrow> interaction list" where
  "withoutPreparationsAwaitingRetry turns invocations =
     (let awaitingRetry = map (\<lambda>i. js_String (iv_resultInteractionId i))
            (filter (\<lambda>i. iv_preparationRecoverable i = Some True) invocations) in
      filter (\<lambda>t. \<not> id_in (it_id t) awaitingRetry \<or> it_status t \<notin> ACTIVE_STATUSES) turns)"

section \<open>Node runs\<close>

datatype node_run_state = MarkDraft | MarkRunning | MarkStopped | MarkFailed

definition nodeInvocations :: "graph_node option \<Rightarrow> graph_action list \<Rightarrow> invocation list \<Rightarrow> invocation list" where
  "nodeInvocations node actions invocations =
     (let nodeId = (case node of None \<Rightarrow> JUndef | Some n \<Rightarrow> gn_id n);
          actionIds = map (\<lambda>a. js_String (ga_id a)) (filter (\<lambda>a. eqId (ga_sourceNodeId a) nodeId) actions) in
      filter (\<lambda>i. id_in (iv_actionId i) actionIds) invocations)"

definition invocationRun :: "invocation \<Rightarrow> interaction list \<Rightarrow> interaction" where
  "invocationRun i interactions =
     (case find (\<lambda>it. eqId (it_id it) (iv_resultInteractionId i)) interactions of
        Some it \<Rightarrow> it
      | None \<Rightarrow> (bare_interaction (iv_resultInteractionId i))\<lparr>it_status := iv_resultStatus i\<rparr>)"

definition nodeActiveRuns ::
  "graph_node option \<Rightarrow> graph_action list \<Rightarrow> invocation list \<Rightarrow> interaction list \<Rightarrow> (invocation \<times> interaction) list" where
  "nodeActiveRuns node actions invocations interactions =
     js_sort (\<lambda>l r. number_diff (it_id (snd l)) (it_id (snd r)))
       (filter (\<lambda>(_, run). runIsActive run \<and> it_status run \<in> STOPPABLE_STATUSES)
         (map (\<lambda>i. (i, invocationRun i interactions))
           (filter (\<lambda>i. \<not> iv_agentInvoked i \<and> iv_preparationRecoverable i \<noteq> Some True)
             (nodeInvocations node actions invocations))))"

text \<open>The \<open>reduce\<close> that finds the run with the largest id, the first of them on a tie.\<close>

definition newer_run :: "interaction option \<Rightarrow> interaction \<Rightarrow> interaction option" where
  "newer_run newest run =
     (case newest of
        None \<Rightarrow> Some run
      | Some n \<Rightarrow> if number_gt (it_id run) (it_id n) then Some run else Some n)"

definition latest_run :: "interaction list \<Rightarrow> interaction option" where
  "latest_run runs = foldl newer_run None runs"

definition nodeRunState ::
  "graph_node option \<Rightarrow> graph_action list \<Rightarrow> invocation list \<Rightarrow> interaction list \<Rightarrow> node_run_state option" where
  "nodeRunState node actions invocations interactions =
     (if (case node of None \<Rightarrow> False | Some n \<Rightarrow> gn_state n = Some ''draft'') then Some MarkDraft
      else
        let runs = map (\<lambda>i. (i, invocationRun i interactions)) (nodeInvocations node actions invocations) in
        if list_ex (\<lambda>(i, run). iv_preparationRecoverable i \<noteq> Some True \<and> runIsActive run) runs then Some MarkRunning
        else
          let latest = latest_run (map snd runs) in
          if map_option it_status latest = Some Stopped then Some MarkStopped
          else if map_option it_status latest = Some Failed \<or> interactionReturnsToUnsent latest then Some MarkFailed
          else None)"

section \<open>Stop controls\<close>

definition invocationsByResult :: "invocation list \<Rightarrow> (string, invocation) jsmap" where
  "invocationsByResult invocations = map_from (map (\<lambda>i. (js_String (iv_resultInteractionId i), i)) invocations)"

definition stoppableHumanRun :: "interaction \<Rightarrow> (string, invocation) jsmap \<Rightarrow> bool" where
  "stoppableHumanRun run byResult \<longleftrightarrow>
     (case map_get byResult (js_String (it_id run)) of
        None \<Rightarrow> True
      | Some i \<Rightarrow> \<not> iv_agentInvoked i \<and> iv_preparationRecoverable i \<noteq> Some True)
     \<and> runIsActive run \<and> it_status run \<in> STOPPABLE_STATUSES"

definition threadActiveRuns :: "interaction list \<Rightarrow> invocation list \<Rightarrow> interaction list" where
  "threadActiveRuns turns invocations =
     (let byResult = invocationsByResult invocations in
      js_sort (\<lambda>l r. number_diff (it_id l) (it_id r)) (filter (\<lambda>t. stoppableHumanRun t byResult) turns))"

datatype run_verb = Remove | Stop

definition interactionRunControl :: "interaction option \<Rightarrow> invocation list \<Rightarrow> (interaction \<times> run_verb) option" where
  "interactionRunControl i invocations =
     (case i of
        None \<Rightarrow> None
      | Some it \<Rightarrow>
          if stoppableHumanRun it (invocationsByResult invocations)
          then Some (it, if it_status it = Queued then Remove else Stop) else None)"

section \<open>Urgency\<close>

fun urgency :: "activity \<Rightarrow> nat" where
  "urgency ActFailed = 0"
| "urgency ActRunning = 1"
| "urgency ActStopping = 2"
| "urgency ActNeedsApproval = 3"

lemma urgency_inject: "urgency a = urgency b \<longleftrightarrow> a = b"
  by (cases a; cases b) simp_all

instantiation activity :: linorder
begin

definition less_eq_activity :: "activity \<Rightarrow> activity \<Rightarrow> bool" where
  "less_eq_activity a b \<longleftrightarrow> urgency a \<le> urgency b"

definition less_activity :: "activity \<Rightarrow> activity \<Rightarrow> bool" where
  "less_activity a b \<longleftrightarrow> urgency a < urgency b"

instance
  by standard (auto simp: less_eq_activity_def less_activity_def urgency_inject)

end

lemma interactionActivity_active:
  "runIsActive t \<Longrightarrow> interactionActivity (Some t) =
     Some (if turn_stopping t then ActStopping else if it_status t = WaitingForApproval then ActNeedsApproval else ActRunning)"
  by (auto simp: runIsActive_def interactionActivity_def turn_stopping_def)

lemma Max_activity:
  assumes "finite A" "A \<noteq> {}" "A \<subseteq> {ActRunning, ActStopping, ActNeedsApproval}"
  shows "Max A = (if ActNeedsApproval \<in> A then ActNeedsApproval else if ActStopping \<in> A then ActStopping else ActRunning)"
proof -
  have "x \<le> (if ActNeedsApproval \<in> A then ActNeedsApproval else if ActStopping \<in> A then ActStopping else ActRunning)"
    if "x \<in> A" for x using that by (cases x) (auto simp: less_eq_activity_def)
  moreover have "(if ActNeedsApproval \<in> A then ActNeedsApproval else if ActStopping \<in> A then ActStopping else ActRunning) \<in> A"
    using assms(2,3) by auto
  ultimately show ?thesis using assms(1) by (intro Max_eqI) blast+
qed

lemma invocationRun_id: "eqId (it_id (invocationRun i interactions)) (iv_resultInteractionId i)"
  by (auto simp: invocationRun_def split: option.splits dest: find_SomeD)

lemma invocationsByResult_unique:
  assumes "distinct (map (\<lambda>i. js_String (iv_resultInteractionId i)) invs)" "i \<in> set invs"
  shows "map_get (invocationsByResult invs) (js_String (iv_resultInteractionId i)) = Some i"
proof -
  let ?es = "map (\<lambda>i. (js_String (iv_resultInteractionId i), i)) invs"
  have "map_has (map_from ?es) (js_String (iv_resultInteractionId i))"
    using assms(2) by (force simp: map_has_from)
  then obtain j where "map_get (map_from ?es) (js_String (iv_resultInteractionId i)) = Some j"
    by (auto simp: map_has_iff)
  moreover from this have "j \<in> set invs" "js_String (iv_resultInteractionId j) = js_String (iv_resultInteractionId i)"
    using map_get_from_in [of ?es "js_String (iv_resultInteractionId i)" j] by auto
  ultimately show ?thesis
    using assms by (auto simp: invocationsByResult_def distinct_map dest: inj_onD)
qed

lemma set_nodeActiveRuns:
  "(i, run) \<in> set (nodeActiveRuns node actions invs its) \<longleftrightarrow>
     i \<in> set (nodeInvocations node actions invs) \<and> run = invocationRun i its \<and> \<not> iv_agentInvoked i
     \<and> iv_preparationRecoverable i \<noteq> Some True \<and> runIsActive run \<and> it_status run \<in> STOPPABLE_STATUSES"
  by (auto simp: nodeActiveRuns_def)

lemma nodeInvocations_subset: "set (nodeInvocations node actions invs) \<subseteq> set invs"
  by (auto simp: nodeInvocations_def)

section \<open>Properties\<close>

text \<open>A thread shows the most urgent state of its active runs, each rated by the same rule as a single
  interaction, with an approval over a stop over a plain run. With no active run, it shows the failure of its
  latest turn or nothing; and an agent's pending approval always shows.\<close>

theorem threadActivity_most_urgent:
  "threadActivity turns True = Some ActNeedsApproval
   \<and> threadActivity turns False =
       (let acts = {a. \<exists>t \<in> set turns. runIsActive t \<and> interactionActivity (Some t) = Some a} in
        if acts \<noteq> {} then Some (Max acts)
        else if turns \<noteq> [] \<and> interactionActivity (Some (last turns)) = Some ActFailed then Some ActFailed else None)"
proof
  show "threadActivity turns True = Some ActNeedsApproval" by (simp add: threadActivity_def Let_def)
next
  define acts where "acts = {a. \<exists>t \<in> set turns. runIsActive t \<and> interactionActivity (Some t) = Some a}"
  have sub: "acts \<subseteq> {ActRunning, ActStopping, ActNeedsApproval}"
    by (auto simp: acts_def interactionActivity_active split: if_splits)
  have fin: "finite acts" using sub by (rule finite_subset) simp
  have NA: "ActNeedsApproval \<in> acts \<longleftrightarrow> list_ex turn_needsApproval turns"
    by (auto simp: acts_def interactionActivity_active list_ex_iff turn_needsApproval_def split: if_splits)
  have ST: "ActStopping \<in> acts \<longleftrightarrow> list_ex turn_stopping (filter runIsActive turns)"
    by (auto simp: acts_def interactionActivity_active list_ex_iff split: if_splits)
  have E: "acts = {} \<longleftrightarrow> filter runIsActive turns = []"
    unfolding acts_def filter_empty_conv using interactionActivity_active by fastforce
  have F: "interactionActivity (Some t) = Some ActFailed \<longleftrightarrow> it_status t = Failed" for t
    by (auto simp: interactionActivity_def ACTIVE_STATUSES_def)
  show "threadActivity turns False =
       (let acts = {a. \<exists>t \<in> set turns. runIsActive t \<and> interactionActivity (Some t) = Some a} in
        if acts \<noteq> {} then Some (Max acts)
        else if turns \<noteq> [] \<and> interactionActivity (Some (last turns)) = Some ActFailed then Some ActFailed else None)"
    unfolding acts_def [symmetric] Let_def threadActivity_def F
    using Max_activity [OF fin _ sub] NA ST E by auto
qed

text \<open>The views of a run agree: when a node offers a Stop for a run, the node is marked running (unless it
  is a draft), and the run's own interaction card offers Stop or Remove for the same run.\<close>

theorem node_stop_agrees_with_card:
  assumes "(i, run) \<in> set (nodeActiveRuns (Some node) actions invs interactions)"
    and "distinct (map (\<lambda>i. js_String (iv_resultInteractionId i)) invs)" and "gn_state node \<noteq> Some ''draft''"
  shows "nodeRunState (Some node) actions invs interactions = Some MarkRunning
     \<and> (\<exists>verb. interactionRunControl (Some run) invs = Some (run, verb))"
proof
  have i: "i \<in> set (nodeInvocations (Some node) actions invs)" "run = invocationRun i interactions"
      "\<not> iv_agentInvoked i" "iv_preparationRecoverable i \<noteq> Some True" "runIsActive run"
      "it_status run \<in> STOPPABLE_STATUSES"
    using assms(1) by (auto simp: set_nodeActiveRuns)
  then show "nodeRunState (Some node) actions invs interactions = Some MarkRunning"
    using assms(3) by (auto simp: nodeRunState_def Let_def list_ex_iff)
  have "i \<in> set invs" using i(1) nodeInvocations_subset by blast
  moreover have "js_String (it_id run) = js_String (iv_resultInteractionId i)"
    using invocationRun_id [of i interactions] i(2) by (simp add: eqId_def)
  ultimately have "map_get (invocationsByResult invs) (js_String (it_id run)) = Some i"
    using invocationsByResult_unique [OF assms(2)] by simp
  with i show "\<exists>verb. interactionRunControl (Some run) invs = Some (run, verb)"
    by (simp add: interactionRunControl_def stoppableHumanRun_def)
qed

definition demo_node :: graph_node where
  "demo_node = \<lparr>gn_id = JNum 5, gn_state = None, gn_title = None, gn_icon = None, gn_relayerIcon = None,
     gn_responseOwner = JNull\<rparr>"

definition demo_action :: graph_action where
  "demo_action = \<lparr>ga_id = JNum 9, ga_kind = InvokeAction, ga_sourceNodeId = JNum 5, ga_targetLayerId = JNull,
     ga_reusable = Some False, ga_label = None, ga_icon = None, ga_state = None\<rparr>"

definition demo_invocation :: invocation where
  "demo_invocation = (bare_invocation (JNum 1) (JNum 9) (JNum 12))\<lparr>iv_resultStatus := Running\<rparr>"

definition demo_run :: interaction where
  "demo_run = (bare_interaction (JNum 12))\<lparr>it_status := Queued\<rparr>"

theorem node_stop_agrees_with_card_witness:
  "nodeRunState (Some demo_node) [demo_action] [demo_invocation] [demo_run] = Some MarkRunning
   \<and> (\<exists>verb. interactionRunControl (Some demo_run) [demo_invocation] = Some (demo_run, verb))"
proof (rule node_stop_agrees_with_card)
  show "(demo_invocation, demo_run) \<in> set (nodeActiveRuns (Some demo_node) [demo_action] [demo_invocation] [demo_run])"
    by (simp add: set_nodeActiveRuns nodeInvocations_def demo_node_def demo_action_def demo_invocation_def demo_run_def
        bare_invocation_def id_in_def invocationRun_def runIsActive_def ACTIVE_STATUSES_def STOPPABLE_STATUSES_def
        interactionReturnsToUnsent_def)
qed (simp_all add: demo_node_def)

text \<open>Stop all reaches exactly the runs a person may stop: the list holds each turn whose card offers a
  control, as often as it is a turn, and nothing else; with numeric ids it is ordered oldest first.\<close>

theorem threadActiveRuns_exact:
  assumes "\<forall>t \<in> set turns. js_Number (it_id t) \<noteq> None"
  shows "mset (threadActiveRuns turns invs) = filter_mset (\<lambda>t. interactionRunControl (Some t) invs \<noteq> None) (mset turns)
     \<and> sorted (map (\<lambda>t. the (js_Number (it_id t))) (threadActiveRuns turns invs))"
proof
  show "mset (threadActiveRuns turns invs) = filter_mset (\<lambda>t. interactionRunControl (Some t) invs \<noteq> None) (mset turns)"
    by (simp add: threadActiveRuns_def interactionRunControl_def Let_def)
  show "sorted (map (\<lambda>t. the (js_Number (it_id t))) (threadActiveRuns turns invs))"
    unfolding threadActiveRuns_def Let_def
    by (rule sorted_js_sort_key) (use assms in \<open>auto simp: number_diff_def split: option.splits\<close>)
qed

theorem threadActiveRuns_exact_witness:
  "mset (threadActiveRuns [demo_run, (bare_interaction (JNum 3))\<lparr>it_status := Running\<rparr>] [])
     = filter_mset (\<lambda>t. interactionRunControl (Some t) [] \<noteq> None)
         (mset [demo_run, (bare_interaction (JNum 3))\<lparr>it_status := Running\<rparr>])"
  using threadActiveRuns_exact [of "[demo_run, (bare_interaction (JNum 3))\<lparr>it_status := Running\<rparr>]" "[]"]
  by (simp add: demo_run_def)

end
