(* ===== verification/ActionInvocation.thy ===== *)
theory ActionInvocation
  imports ProductRows
begin

text \<open>
  The state of action invocations (\<open>desktop/renderer/src/action-invocation-state.js\<close>): which call
  answers an activation, which one a Retry recovers, how a refreshed call or run is merged into the lists
  the window keeps, and how pending transitions settle into a selection. The lemmas: merges are
  idempotent and never move a run backwards, settled transitions leave the map and pending ones stay,
  and an action that offers Retry is not spent.
\<close>

section \<open>Calls\<close>

definition PENDING_COMPLETION_STATUSES :: "status set" where
  "PENDING_COMPLETION_STATUSES = {NotStarted, Queued, Running, Submitted}"

definition isDurableActionInvocation :: "invocation \<Rightarrow> bool" where
  "isDurableActionInvocation call \<longleftrightarrow>
     iv_durable call = Some True \<or> (iv_durable call = None \<and> iv_reusable call = Some True)"

definition isRejectedActionPreparation :: "invocation option \<Rightarrow> bool" where
  "isRejectedActionPreparation c =
     (case c of
        None \<Rightarrow> False
      | Some call \<Rightarrow>
          iv_preparationRejected call = Some True \<and> iv_preparationRecoverable call = Some False
          \<and> iv_durable call = Some False \<and> iv_resultStatus call = Failed
          \<and> truthy_str (iv_invocationKey call) \<and> iv_invocationKey call \<noteq> Some ''legacy'')"

text \<open>\<open>String(call.sourceInteractionId) === String(s) && String(call.actionId) === String(a)\<close>.\<close>

definition call_of :: "jsval \<Rightarrow> jsval \<Rightarrow> invocation \<Rightarrow> bool" where
  "call_of sourceInteractionId actionId call \<longleftrightarrow>
     eqId (iv_sourceInteractionId call) sourceInteractionId \<and> eqId (iv_actionId call) actionId"

definition is_recoverable :: "jsval \<Rightarrow> jsval \<Rightarrow> invocation \<Rightarrow> bool" where
  "is_recoverable sourceInteractionId actionId call \<longleftrightarrow>
     \<not> iv_graphOnly call \<and> call_of sourceInteractionId actionId call
     \<and> iv_preparationRecoverable call = Some True
     \<and> iv_resultStatus call \<in> {NotStarted, Submitted, Failed}
     \<and> truthy_str (iv_invocationKey call)"

definition recoverableActionInvocation :: "invocation list \<Rightarrow> jsval \<Rightarrow> jsval \<Rightarrow> invocation option" where
  "recoverableActionInvocation invocations sourceInteractionId actionId =
     find (is_recoverable sourceInteractionId actionId) invocations"

text \<open>A keyed call, \<open>isDurableActionInvocation(call) || call.invocationKey\<close>.\<close>

definition keyed :: "invocation \<Rightarrow> bool" where
  "keyed call \<longleftrightarrow> isDurableActionInvocation call \<or> truthy_str (iv_invocationKey call)"

definition recoverActionInvocation :: "invocation list \<Rightarrow> jsval \<Rightarrow> jsval \<Rightarrow> string option \<Rightarrow> invocation option" where
  "recoverActionInvocation invocations sourceInteractionId actionId invocationKey =
     find (\<lambda>call. \<not> iv_graphOnly call \<and> call_of sourceInteractionId actionId call
         \<and> (if keyed call then iv_invocationKey call = invocationKey else True)) invocations"

definition replaces :: "invocation \<Rightarrow> invocation \<Rightarrow> bool" where
  "replaces nxt call \<longleftrightarrow>
     (if keyed nxt
      then (if iv_graphOnly nxt \<or> iv_graphOnly call
            then call_of (iv_sourceInteractionId nxt) (iv_actionId nxt) call
              \<and> iv_invocationKey call = iv_invocationKey nxt
            else eqId (iv_resultInteractionId call) (iv_resultInteractionId nxt))
      else call_of (iv_sourceInteractionId nxt) (iv_actionId nxt) call)"

definition mergeActionInvocation :: "invocation list \<Rightarrow> invocation \<Rightarrow> invocation list" where
  "mergeActionInvocation invocations nxt = filter (\<lambda>call. \<not> replaces nxt call) invocations @ [nxt]"

definition call_spends :: "jsval \<Rightarrow> jsval \<Rightarrow> bool option \<Rightarrow> invocation \<Rightarrow> bool" where
  "call_spends sourceInteractionId actionId sourceReusable call \<longleftrightarrow>
     eqId (iv_actionId call) actionId
     \<and> \<not> isRejectedActionPreparation (Some call)
     \<and> (sourceReusable = Some False \<or> (sourceReusable = None \<and> \<not> isDurableActionInvocation call))
     \<and> recoverableActionInvocation [call] sourceInteractionId actionId = None
     \<and> (iv_resultStatus call \<noteq> Submitted \<or> keyed call)"

definition actionWasInvoked ::
  "invocation list \<Rightarrow> invocation list \<Rightarrow> jsval \<Rightarrow> jsval \<Rightarrow> bool option \<Rightarrow> bool" where
  "actionWasInvoked invocations pending sourceInteractionId actionId sourceReusable \<longleftrightarrow>
     list_ex (call_spends sourceInteractionId actionId sourceReusable) invocations
     \<or> list_ex (call_of sourceInteractionId actionId) pending"

definition singleCallResultDestination ::
  "invocation list \<Rightarrow> interaction list \<Rightarrow> graph_action option \<Rightarrow> graph_node \<Rightarrow> graph_action list \<Rightarrow> (invocation \<times> jsval) option" where
  "singleCallResultDestination actionInvocations interactions action node actions =
     (case action of
        None \<Rightarrow> None
      | Some a \<Rightarrow>
          if ga_kind a \<noteq> InvokeAction \<or> ga_reusable a \<noteq> Some False then None
          else (case find (\<lambda>c. eqId (iv_actionId c) (ga_id a) \<and> iv_resultStatus c = Accepted) actionInvocations of
                  None \<Rightarrow> None
                | Some call \<Rightarrow>
                    let result = find (\<lambda>i. eqId (it_id i) (iv_resultInteractionId call)) interactions;
                        rootLayer = Option.bind (Option.bind result it_output) co_rootLayer;
                        layerId = (case rootLayer of None \<Rightarrow> JUndef | Some l \<Rightarrow> gl_id l) in
                    if is_nullish layerId then None
                    else (case find (\<lambda>b. ga_kind b = NavigateAction \<and> eqId (ga_sourceNodeId b) (gn_id node)
                              \<and> eqId (ga_targetLayerId b) layerId) actions of
                            None \<Rightarrow> None
                          | Some _ \<Rightarrow> Some (call, layerId))))"

definition actionCanRetry :: "invocation list \<Rightarrow> jsval \<Rightarrow> bool" where
  "actionCanRetry invocations actionId \<longleftrightarrow>
     list_ex (\<lambda>call. \<not> iv_graphOnly call \<and> eqId (iv_actionId call) actionId
       \<and> (if keyed call then recoverableActionInvocation [call] (iv_sourceInteractionId call) actionId \<noteq> None
          else iv_resultStatus call = Submitted)) invocations"

definition withoutPendingActionInvocation :: "invocation list \<Rightarrow> jsval \<Rightarrow> jsval \<Rightarrow> invocation list" where
  "withoutPendingActionInvocation pending sourceInteractionId actionId =
     filter (\<lambda>call. \<not> call_of sourceInteractionId actionId call) pending"

section \<open>Transitions\<close>

text \<open>The map from a result interaction to the source it was invoked from, as \<open>String\<close>-comparable values. One
  turn of the loop:\<close>

definition settles :: "interaction list \<Rightarrow> jsval \<Rightarrow> interaction option" where
  "settles interactions resultId =
     (case find (\<lambda>i. eqId (it_id i) resultId) interactions of
        None \<Rightarrow> None
      | Some r \<Rightarrow> if it_status r \<in> PENDING_COMPLETION_STATUSES then None else Some r)"

definition reconcile_one ::
  "interaction list \<Rightarrow> interaction option \<times> (jsval, jsval) jsmap \<Rightarrow> jsval \<times> jsval \<Rightarrow> interaction option \<times> (jsval, jsval) jsmap" where
  "reconcile_one interactions st tr =
     (case (st, tr) of ((sel, remaining), (resultId, sourceId)) \<Rightarrow>
        (case settles interactions resultId of
           None \<Rightarrow> (sel, remaining)
         | Some r \<Rightarrow>
             (if it_status r = Accepted \<and> eqId (case sel of None \<Rightarrow> JUndef | Some s \<Rightarrow> it_id s) sourceId
              then Some r else sel,
              map_delete remaining resultId)))"

definition reconcileActionTransitions ::
  "interaction list \<Rightarrow> interaction option \<Rightarrow> (jsval, jsval) jsmap \<Rightarrow> interaction option \<times> (jsval, jsval) jsmap" where
  "reconcileActionTransitions interactions selected transitions =
     foldl (reconcile_one interactions) (selected, transitions) transitions"

definition visibleLayerAfterRefresh :: "jsval \<Rightarrow> graph_layer option \<Rightarrow> interaction option \<Rightarrow> graph_layer option" where
  "visibleLayerAfterRefresh previousInteractionId previousVisibleLayer selected =
     (let refreshedRoot = Option.bind (Option.bind selected it_output) co_rootLayer;
          selectedId = (case selected of None \<Rightarrow> JUndef | Some s \<Rightarrow> it_id s) in
      case previousVisibleLayer of
        Some prev \<Rightarrow>
          if eqId previousInteractionId selectedId
          then (case refreshedRoot of
                  Some root \<Rightarrow> if eqId (gl_id prev) (gl_id root) then Some root else Some prev
                | None \<Rightarrow> Some prev)
          else refreshedRoot
      | None \<Rightarrow> refreshedRoot)"

datatype review_kind = InputReview | NavigateReview | InvokeReview

definition actionReviewKind :: "graph_action option \<Rightarrow> review_kind" where
  "actionReviewKind a =
     (case a of
        None \<Rightarrow> InvokeReview
      | Some act \<Rightarrow>
          if ga_kind act = InputAction then InputReview
          else if ga_kind act = NavigateAction \<or> (ga_kind act = InvokeAction \<and> \<not> is_nullish (ga_targetLayerId act))
          then NavigateReview else InvokeReview)"

section \<open>Merging an invoked run\<close>

text \<open>The run an invoke returned, as the properties its JSON object has: \<open>None\<close> where it has none. The
  spread \<open>{ ...existing, ...interaction }\<close> overrides exactly those.\<close>

record run_patch =
  rp_id :: jsval
  rp_status :: "status option"
  rp_queueReason :: "string option option"
  rp_threadId :: "jsval option"
  rp_sequence :: "jsval option"
  rp_text :: "string option option"
  rp_latestAttempt :: "attempt option option"
  rp_output :: "completion_output option option"
  rp_stopRequested :: "bool option"

definition over :: "'a option \<Rightarrow> 'a \<Rightarrow> 'a" where
  "over p old = (case p of None \<Rightarrow> old | Some v \<Rightarrow> v)"

definition spread_run :: "interaction \<Rightarrow> run_patch \<Rightarrow> interaction" where
  "spread_run old p =
     old\<lparr>it_id := rp_id p, it_status := over (rp_status p) (it_status old),
       it_queueReason := over (rp_queueReason p) None,
       it_threadId := over (rp_threadId p) (it_threadId old), it_sequence := over (rp_sequence p) (it_sequence old),
       it_text := over (rp_text p) (it_text old), it_latestAttempt := over (rp_latestAttempt p) (it_latestAttempt old),
       it_output := over (rp_output p) (it_output old),
       it_stopRequested := over (rp_stopRequested p) (it_stopRequested old)\<rparr>"

text \<open>\<open>interactions.map((item) => item === existing ? merged : item)\<close>: the row that \<open>find\<close> returned is
  replaced in place.\<close>

fun replace_first :: "('a \<Rightarrow> bool) \<Rightarrow> 'a \<Rightarrow> 'a list \<Rightarrow> 'a list" where
  "replace_first P y [] = []"
| "replace_first P y (x # xs) = (if P x then y # xs else x # replace_first P y xs)"

definition keeps_newer :: "interaction \<Rightarrow> run_patch \<Rightarrow> bool" where
  "keeps_newer existing p \<longleftrightarrow>
     it_status existing \<notin> {NotStarted, Submitted, Queued}
     \<or> (it_status existing = Queued \<and> it_queueReason existing = Some ''capacity''
        \<and> rp_status p = Some Queued \<and> over (rp_queueReason p) None \<noteq> Some ''capacity'')"

definition mergeInvokedInteraction :: "interaction list \<Rightarrow> run_patch \<Rightarrow> interaction list" where
  "mergeInvokedInteraction interactions p =
     (case find (\<lambda>i. eqId (it_id i) (rp_id p)) interactions of
        Some existing \<Rightarrow>
          if keeps_newer existing p then interactions
          else replace_first (\<lambda>i. eqId (it_id i) (rp_id p)) (spread_run existing p) interactions
      | None \<Rightarrow> interactions @ [spread_run (bare_interaction (rp_id p)) p])"

section \<open>Lemmas\<close>

lemma replaces_self [simp]: "replaces c c"
  by (simp add: replaces_def call_of_def)

lemma reconcile_one_simps [simp]:
  "settles interactions resId = None \<Longrightarrow> reconcile_one interactions (sel, m) (resId, srcId) = (sel, m)"
  "settles interactions resId = Some r \<Longrightarrow> reconcile_one interactions (sel, m) (resId, srcId) =
     (if it_status r = Accepted \<and> eqId (case sel of None \<Rightarrow> JUndef | Some s \<Rightarrow> it_id s) srcId then Some r else sel,
      map_delete m resId)"
  by (simp_all add: reconcile_one_def)

lemma reconcile_fold:
  assumes "foldl (reconcile_one interactions) (sel, m) ts = (sel', rem)"
  shows "rem = filter (\<lambda>(k, _). k \<in> fst ` set ts \<longrightarrow> settles interactions k = None) m
    \<and> (sel' = sel \<or> (\<exists>r \<in> set interactions. sel' = Some r \<and> it_status r = Accepted))"
  using assms
proof (induction ts arbitrary: sel m)
  case Nil
  then show ?case by auto
next
  case (Cons t ts)
  obtain resId srcId where t: "t = (resId, srcId)" by (cases t)
  show ?case
  proof (cases "settles interactions resId")
    case None
    with Cons.prems t have "foldl (reconcile_one interactions) (sel, m) ts = (sel', rem)"
      by simp
    from Cons.IH [OF this] None t show ?thesis by (auto intro!: filter_cong)
  next
    case (Some r)
    then have r: "r \<in> set interactions" by (auto simp: settles_def split: option.splits if_splits dest: find_SomeD)
    let ?sel = "if it_status r = Accepted \<and> eqId (case sel of None \<Rightarrow> JUndef | Some s \<Rightarrow> it_id s) srcId then Some r else sel"
    have "foldl (reconcile_one interactions) (?sel, map_delete m resId) ts = (sel', rem)"
      using Cons.prems Some t by simp
    from Cons.IH [OF this] Some t r show ?thesis
      by (auto simp: map_delete_def split: if_splits intro!: filter_cong)
  qed
qed

lemma find_replace_first: "P y \<Longrightarrow> find P xs \<noteq> None \<Longrightarrow> find P (replace_first P y xs) = Some y"
  by (induction xs) auto

lemma replace_first_twice: "P y \<Longrightarrow> replace_first P z (replace_first P y xs) = replace_first P z xs"
  by (induction xs) auto

lemma filter_replace_first: "(\<And>x. Q x \<Longrightarrow> \<not> P x) \<Longrightarrow> P y \<Longrightarrow> filter Q (replace_first P y xs) = filter Q xs"
  by (induction xs) auto

lemma find_append: "find P (xs @ ys) = (case find P xs of None \<Rightarrow> find P ys | Some x \<Rightarrow> Some x)"
  by (induction xs) auto

lemma spread_run_id [simp]: "it_id (spread_run old p) = rp_id p"
  by (simp add: spread_run_def)

lemma spread_run_idem [simp]: "spread_run (spread_run old p) p = spread_run old p"
  by (simp add: spread_run_def over_def split: option.splits)

section \<open>Properties\<close>

text \<open>Merging a call is idempotent, puts it last, keeps every call it does not stand for in order, and
  leaves no second call that it stands for.\<close>

theorem mergeActionInvocation_idempotent:
  "mergeActionInvocation (mergeActionInvocation invocations call) call = mergeActionInvocation invocations call
   \<and> (\<exists>kept. mergeActionInvocation invocations call = kept @ [call] \<and> subseq kept invocations
        \<and> list_all (\<lambda>c. \<not> replaces call c) kept)"
  by (auto simp: mergeActionInvocation_def list_all_iff)

text \<open>Reconciling transitions removes exactly those whose result settled, keeps the pending ones in their
  order, and moves the selection only to an accepted result.\<close>

theorem reconcileActionTransitions_settles:
  assumes "reconcileActionTransitions interactions selected transitions = (selected', remaining)"
  shows "remaining = filter (\<lambda>(resultId, _). settles interactions resultId = None) transitions
     \<and> (selected' = selected \<or> (\<exists>r \<in> set interactions. selected' = Some r \<and> it_status r = Accepted))"
proof -
  have "filter (\<lambda>(k, _). k \<in> fst ` set transitions \<longrightarrow> settles interactions k = None) transitions
      = filter (\<lambda>(k, _). settles interactions k = None) transitions"
    by (intro filter_cong) force+
  with reconcile_fold [OF assms [unfolded reconcileActionTransitions_def]] show ?thesis by simp
qed

definition demo_source :: interaction where
  "demo_source = (bare_interaction (JNum 1))\<lparr>it_status := Accepted\<rparr>"

definition demo_result :: interaction where
  "demo_result = (bare_interaction (JNum 2))\<lparr>it_status := Accepted\<rparr>"

theorem reconcileActionTransitions_settles_witness:
  "reconcileActionTransitions [demo_source, demo_result] (Some demo_source) [(JNum 2, JNum 1), (JNum 3, JNum 1)]
     = (Some demo_result, [(JNum 3, JNum 1)])
   \<and> filter (\<lambda>(resultId, _). settles [demo_source, demo_result] resultId = None) [(JNum 2, JNum 1), (JNum 3, JNum 1)]
     = [(JNum 3, JNum 1)]"
proof -
  have r: "reconcileActionTransitions [demo_source, demo_result] (Some demo_source) [(JNum 2, JNum 1), (JNum 3, JNum 1)]
     = (Some demo_result, [(JNum 3, JNum 1)])"
    by (simp add: reconcileActionTransitions_def reconcile_one_def settles_def demo_source_def demo_result_def
        PENDING_COMPLETION_STATUSES_def map_delete_def)
  from reconcileActionTransitions_settles [OF r] r show ?thesis by simp
qed

text \<open>Merging an invoked run is idempotent, touches no other run, always leaves a row for the run, and never
  moves it backwards: a row that a refresh already moved past waiting stays, and so does a wait for capacity
  when the answer still reports a wait behind the node.\<close>

theorem mergeInvokedInteraction_never_regresses:
  "(let xs' = mergeInvokedInteraction xs p; row = (\<lambda>ys. find (\<lambda>i. eqId (it_id i) (rp_id p)) ys) in
      mergeInvokedInteraction xs' p = xs'
      \<and> filter (\<lambda>i. \<not> eqId (it_id i) (rp_id p)) xs' = filter (\<lambda>i. \<not> eqId (it_id i) (rp_id p)) xs
      \<and> row xs' = (case row xs of
            None \<Rightarrow> Some (spread_run (bare_interaction (rp_id p)) p)
          | Some r \<Rightarrow> Some (if keeps_newer r p then r else spread_run r p)))"
proof -
  let ?P = "\<lambda>i. eqId (it_id i) (rp_id p)"
  show ?thesis
  proof (cases "find ?P xs")
    case None
    let ?new = "spread_run (bare_interaction (rp_id p)) p"
    have row: "find ?P (xs @ [?new]) = Some ?new" using None by (simp add: find_append)
    have "replace_first ?P ?new (xs @ [?new]) = xs @ [?new]"
      using None by (induction xs) (auto split: if_splits)
    with None row show ?thesis by (auto simp: mergeInvokedInteraction_def Let_def)
  next
    case (Some r)
    let ?xs = "replace_first ?P (spread_run r p) xs"
    have row: "find ?P ?xs = Some (spread_run r p)" by (rule find_replace_first) (simp_all add: Some)
    have others: "filter (\<lambda>i. \<not> ?P i) ?xs = filter (\<lambda>i. \<not> ?P i) xs" by (rule filter_replace_first) simp_all
    have "replace_first ?P (spread_run r p) ?xs = ?xs" by (rule replace_first_twice) simp
    with Some row others show ?thesis by (auto simp: mergeInvokedInteraction_def Let_def)
  qed
qed

text \<open>An action that only offers Retry is not spent: when every call of the action is a recoverable
  preparation or a trusted refusal, and the pending calls of the activation are cleared, the action does not
  count as invoked.\<close>

theorem retry_is_not_spent:
  assumes "\<forall>call \<in> set invocations. eqId (iv_actionId call) actionId \<longrightarrow>
      is_recoverable source actionId call \<or> isRejectedActionPreparation (Some call)"
  shows "\<not> actionWasInvoked invocations (withoutPendingActionInvocation pending source actionId) source actionId reusable"
  using assms
  by (auto simp: actionWasInvoked_def list_ex_iff call_spends_def recoverableActionInvocation_def
      withoutPendingActionInvocation_def)

definition demo_retry :: invocation where
  "demo_retry = (bare_invocation (JNum 1) (JNum 9) (JNum 12))\<lparr>iv_resultStatus := Failed,
     iv_preparationRecoverable := Some True, iv_invocationKey := Some ''k1''\<rparr>"

theorem retry_is_not_spent_witness:
  "actionCanRetry [demo_retry] (JNum 9)
   \<and> \<not> actionWasInvoked [demo_retry] (withoutPendingActionInvocation [demo_retry] (JNum 1) (JNum 9)) (JNum 1) (JNum 9) (Some False)"
proof
  have r: "is_recoverable (JNum 1) (JNum 9) demo_retry"
    by (simp add: demo_retry_def bare_invocation_def is_recoverable_def call_of_def truthy_str_def)
  then show "actionCanRetry [demo_retry] (JNum 9)"
    by (simp add: actionCanRetry_def recoverableActionInvocation_def keyed_def demo_retry_def bare_invocation_def
        truthy_str_def)
  show "\<not> actionWasInvoked [demo_retry] (withoutPendingActionInvocation [demo_retry] (JNum 1) (JNum 9)) (JNum 1) (JNum 9) (Some False)"
    by (rule retry_is_not_spent) (use r in simp)
qed

end
