(* ===== verification/WorkspaceModel.thy ===== *)
theory WorkspaceModel
  imports ActionInvocation
begin

text \<open>
  The read model of a product workspace (\<open>desktop/renderer/src/product-workspace/model.js\<close>): which
  interaction a thread shows, its turns, how the live projection of a completion is followed or pinned, the
  coordinator of layer navigations, the layer path with its breadcrumbs, the presentation of a
  graph-owned call, and the update notice. \<open>sameId\<close> is the shared one of the prelude. The lemmas: turns
  are the thread's interactions in sequence order, a projection's revision only grows and gaps ask for a
  resync, a superseded navigation is never current again, and a restored path is a chain of navigations.
\<close>

section \<open>Threads and turns\<close>

record thread =
  th_id :: jsval
  th_rootInteractionId :: jsval
  th_rootNodeId :: jsval
  th_imported :: bool

text \<open>A row of imported history and an approval receipt, as far as this module reads them.\<close>

record imported_history =
  ih_inert :: bool
  ih_activator :: "string option"
  ih_resultInteractionId :: jsval

record approval_row =
  ar_resolved :: bool
  ar_interactionId :: jsval

record current_projection =
  cp_completionId :: jsval
  cp_projectionUi :: bool
  cp_currentLayerId :: jsval
  cp_headRevision :: int

record workspace_state =
  ws_interactions :: "interaction list"
  ws_nodes :: "interaction list"
  ws_currentInteractionId :: jsval
  ws_actionInvocations :: "invocation list"
  ws_importedHistory :: "imported_history list"
  ws_approvals :: "approval_row list"
  ws_visibleLayer :: "graph_layer option"
  ws_currentProjections :: "(string, current_projection) jsmap"

definition thread_id :: "thread option \<Rightarrow> jsval" where
  "thread_id th = (case th of None \<Rightarrow> JUndef | Some t \<Rightarrow> th_id t)"

definition thread_interactions :: "workspace_state \<Rightarrow> thread option \<Rightarrow> interaction list" where
  "thread_interactions s th = filter (\<lambda>i. eqId (it_threadId i) (thread_id th)) (ws_interactions s)"

definition interactionForThread :: "workspace_state \<Rightarrow> thread option \<Rightarrow> interaction option" where
  "interactionForThread s th =
     (let interactions = thread_interactions s th;
          interactionId = nullish_or (ws_currentInteractionId s)
            (nullish_or (if interactions = [] then JUndef else it_id (last interactions))
              (case th of
                 None \<Rightarrow> JUndef
               | Some t \<Rightarrow> nullish_or (th_rootInteractionId t) (th_rootNodeId t))) in
      case find (\<lambda>i. eqId (it_id i) interactionId) interactions of
        Some i \<Rightarrow> Some i
      | None \<Rightarrow> find (\<lambda>n. eqId (it_id n) interactionId) (ws_nodes s))"

text \<open>The comparator of the turns: by sequence where both are numbers, by position otherwise and on ties.\<close>

definition turn_cmp :: "nat \<times> interaction \<Rightarrow> nat \<times> interaction \<Rightarrow> int" where
  "turn_cmp l r =
     (case (js_Number (it_sequence (snd l)), js_Number (it_sequence (snd r))) of
        (Some a, Some b) \<Rightarrow> if a - b \<noteq> 0 then a - b else int (fst l) - int (fst r)
      | _ \<Rightarrow> int (fst l) - int (fst r))"

definition workspaceTurns :: "workspace_state \<Rightarrow> thread option \<Rightarrow> interaction list" where
  "workspaceTurns s th = map snd (js_sort turn_cmp (enumerate 0 (thread_interactions s th)))"

definition agentChildIds :: "workspace_state \<Rightarrow> string list" where
  "agentChildIds s =
     map (\<lambda>i. js_String (iv_resultInteractionId i)) (filter iv_agentInvoked (ws_actionInvocations s))
     @ map (\<lambda>h. js_String (ih_resultInteractionId h))
         (filter (\<lambda>h. ih_inert h \<and> ih_activator h = Some ''agent'') (ws_importedHistory s))"

definition agentChildMayRequestApproval :: "workspace_state \<Rightarrow> jsval \<Rightarrow> bool" where
  "agentChildMayRequestApproval s threadId =
     (let inThread = map (\<lambda>i. js_String (it_id i)) (filter (\<lambda>i. eqId (it_threadId i) threadId) (ws_interactions s));
          children = filter (\<lambda>i. iv_agentInvoked i \<and> id_in (iv_resultInteractionId i) inThread) (ws_actionInvocations s) in
      if list_ex iv_providerRunning children then True
      else
        let childIds = map (\<lambda>i. js_String (iv_resultInteractionId i)) children in
        list_ex (\<lambda>r. \<not> ar_resolved r \<and> id_in (ar_interactionId r) childIds) (ws_approvals s))"

definition humanTurns :: "workspace_state \<Rightarrow> thread option \<Rightarrow> interaction list" where
  "humanTurns s th =
     (let children = agentChildIds s in
      filter (\<lambda>t. \<not> it_inertCurrent t \<and> \<not> it_inertSource t \<and> \<not> id_in (it_id t) children) (workspaceTurns s th))"

definition invokedRunIds :: "workspace_state \<Rightarrow> string list" where
  "invokedRunIds s =
     map (\<lambda>i. js_String (iv_resultInteractionId i)) (ws_actionInvocations s)
     @ map (\<lambda>h. js_String (ih_resultInteractionId h)) (ws_importedHistory s)"

definition messageTurns :: "workspace_state \<Rightarrow> thread option \<Rightarrow> interaction list" where
  "messageTurns s th = (let invoked = invokedRunIds s in filter (\<lambda>t. \<not> id_in (it_id t) invoked) (humanTurns s th))"

section \<open>Following the current projection\<close>

datatype follow_mode = Following | Pinned

datatype view_target = AnchorTarget jsval int | LayerTarget jsval jsval

record projection_view =
  pv_completionId :: jsval
  pv_revision :: int
  pv_mode :: follow_mode
  pv_lifecycle :: "string option"
  pv_currentLayerId :: jsval
  pv_finalLayerId :: jsval
  pv_safeReason :: jsval
  pv_visibleTarget :: "view_target option"
  pv_selectedNodeId :: jsval

record projection_event =
  pe_completionId :: jsval
  pe_revision :: jsnum
  pe_previousRevision :: jsnum
  pe_lifecycle :: "string option"
  pe_currentLayerId :: jsval
  pe_finalLayerId :: jsval
  pe_safeReason :: jsval
  pe_currentNodeIds :: "jsval list option"

datatype reconcile_kind = Unrelated | Stale | Resync | Followed | PinnedUpdate

definition was_following :: "projection_view \<Rightarrow> bool" where
  "was_following v \<longleftrightarrow> pv_mode v = Following
     \<and> (case pv_visibleTarget v of
          None \<Rightarrow> False
        | Some (AnchorTarget c r) \<Rightarrow> sameId c (pv_completionId v) \<and> r = pv_revision v
        | Some (LayerTarget c l) \<Rightarrow> sameId c (pv_completionId v) \<and> sameId l (pv_currentLayerId v))"

text \<open>The view after an event that continues it.\<close>

definition next_target :: "projection_event \<Rightarrow> view_target" where
  "next_target e =
     (if is_nullish (pe_currentLayerId e) then AnchorTarget (pe_completionId e) (num_val (pe_revision e))
      else LayerTarget (pe_completionId e) (pe_currentLayerId e))"

definition advance_view :: "projection_view \<Rightarrow> projection_event \<Rightarrow> projection_view" where
  "advance_view v e =
     v\<lparr>pv_revision := num_val (pe_revision e), pv_lifecycle := pe_lifecycle e,
       pv_currentLayerId := nullish_or (pe_currentLayerId e) JNull,
       pv_finalLayerId := nullish_or (pe_finalLayerId e) JNull,
       pv_safeReason := nullish_or (pe_safeReason e) JNull,
       pv_visibleTarget := if was_following v then Some (next_target e) else pv_visibleTarget v,
       pv_selectedNodeId :=
         if was_following v \<and> \<not> is_nullish (pv_selectedNodeId v)
            \<and> (case pe_currentNodeIds e of
                 None \<Rightarrow> False
               | Some ids \<Rightarrow> \<not> id_in (pv_selectedNodeId v) (map js_String ids))
         then JNull else pv_selectedNodeId v\<rparr>"

definition reconcileCurrentProjection ::
  "projection_view option \<Rightarrow> projection_event option \<Rightarrow> reconcile_kind \<times> projection_view option" where
  "reconcileCurrentProjection view event =
     (case (view, event) of
        (Some v, Some e) \<Rightarrow>
          if \<not> sameId (pv_completionId v) (pe_completionId e) then (Unrelated, view)
          else if \<not> is_safe_integer (pe_revision e) \<or> num_val (pe_revision e) \<le> pv_revision v then (Stale, view)
          else if pe_previousRevision e \<noteq> NInt (pv_revision v) then (Resync, view)
          else (if was_following v then Followed else PinnedUpdate, Some (advance_view v e))
      | _ \<Rightarrow> (Unrelated, view))"

section \<open>The coordinator of layer navigations\<close>

record path_entry =
  px_layerId :: jsval
  px_label :: string
  px_icon :: "string option"
  px_actionId :: jsval
  px_sourceNodeId :: jsval
  px_sourceLayerId :: jsval

record layer_request =
  lq_requestId :: nat
  lq_threadId :: jsval
  lq_interactionId :: jsval
  lq_layerId :: jsval
  lq_layerPath :: "path_entry list"

record layer_position =
  lp_threadId :: jsval
  lp_interactionId :: jsval
  lp_layerId :: jsval

text \<open>The state is \<open>latestRequestId\<close>.\<close>

definition coordinator_cancel :: "nat \<Rightarrow> nat" where
  "coordinator_cancel n = n + 1"

definition coordinator_begin :: "layer_position \<Rightarrow> path_entry list \<Rightarrow> nat \<Rightarrow> layer_request \<times> nat" where
  "coordinator_begin pos path n =
     (\<lparr>lq_requestId = n + 1, lq_threadId = lp_threadId pos, lq_interactionId = lp_interactionId pos,
       lq_layerId = lp_layerId pos, lq_layerPath = path\<rparr>, n + 1)"

definition coordinator_isCurrent :: "layer_request option \<Rightarrow> layer_position option \<Rightarrow> nat \<Rightarrow> bool" where
  "coordinator_isCurrent req cur n =
     (case (req, cur) of
        (Some r, Some c) \<Rightarrow> lq_requestId r = n \<and> sameId (lq_threadId r) (lp_threadId c)
          \<and> sameId (lq_interactionId r) (lp_interactionId c) \<and> sameId (lq_layerId r) (lp_layerId c)
      | _ \<Rightarrow> False)"

section \<open>Layer paths\<close>

definition rootLayerPath :: "interaction option \<Rightarrow> path_entry list" where
  "rootLayerPath i =
     (case i of
        None \<Rightarrow> []
      | Some it \<Rightarrow>
          (case Option.bind (it_output it) co_rootLayer of
             None \<Rightarrow> []
           | Some l \<Rightarrow>
               if is_nullish (gl_id l) then []
               else
                 let act = Option.bind (it_output it) co_rootAction in
                 [\<lparr>px_layerId = gl_id l, px_label = str_or (Option.bind act ga_label) ''Response'',
                   px_icon = Some (str_or (Option.bind act ga_icon) ''messages-square''), px_actionId = JNull,
                   px_sourceNodeId = nullish_or (it_graphNodeId it) (nullish_or (it_id it) JNull),
                   px_sourceLayerId = JUndef\<rparr>]))"

definition node_icon :: "graph_node option \<Rightarrow> string option" where
  "node_icon n =
     (case n of
        None \<Rightarrow> None
      | Some nd \<Rightarrow> if truthy_str (gn_icon nd) then gn_icon nd
                  else if truthy_str (gn_relayerIcon nd) then gn_relayerIcon nd else None)"

text \<open>The entry of one navigation, if the action leads anywhere.\<close>

definition path_step :: "graph_action option \<Rightarrow> graph_node option \<Rightarrow> jsval \<Rightarrow> path_entry option" where
  "path_step action sourceNode invocationResultLayerId =
     (case action of
        None \<Rightarrow> None
      | Some a \<Rightarrow>
          let layerId = (if ga_kind a = NavigateAction then ga_targetLayerId a
                         else if ga_kind a = InvokeAction \<and> ga_reusable a = Some False then invocationResultLayerId
                         else JNull) in
          if is_nullish layerId then None
          else Some \<lparr>px_layerId = layerId,
                 px_label = str_or (Option.bind sourceNode gn_title) (str_or (ga_label a) ''Layer''),
                 px_icon = node_icon sourceNode, px_actionId = nullish_or (ga_id a) JNull,
                 px_sourceNodeId = nullish_or (ga_sourceNodeId a)
                   (nullish_or (case sourceNode of None \<Rightarrow> JUndef | Some n \<Rightarrow> gn_id n) JNull),
                 px_sourceLayerId = JUndef\<rparr>)"

definition appendLayerPath :: "path_entry list \<Rightarrow> graph_action option \<Rightarrow> graph_node option \<Rightarrow> jsval \<Rightarrow> path_entry list" where
  "appendLayerPath path action sourceNode invocationResultLayerId =
     (case path_step action sourceNode invocationResultLayerId of None \<Rightarrow> path | Some e \<Rightarrow> path @ [e])"

record nav_path_step =
  np_layerId :: jsval
  np_viaActionId :: jsval

text \<open>The loop of \<open>restoreLayerPath\<close>. \<open>loadLayer\<close> is the caller's loader: the layer it resolves to, or an
  error, which the loop passes on. The outer option of the result is the \<open>null\<close> of a path that cannot be
  restored.\<close>

definition step_action :: "graph_layer \<Rightarrow> nav_path_step \<Rightarrow> graph_action option" where
  "step_action layer st = find (\<lambda>a. sameId (ga_id a) (np_viaActionId st)) (gl_actions layer)"

definition step_node :: "graph_layer \<Rightarrow> graph_action option \<Rightarrow> graph_node option" where
  "step_node layer action =
     find (\<lambda>n. sameId (gn_id n) (case action of None \<Rightarrow> JUndef | Some a \<Rightarrow> ga_sourceNodeId a)) (gl_nodes layer)"

definition step_result ::
  "invocation list \<Rightarrow> interaction list \<Rightarrow> graph_layer \<Rightarrow> graph_action option \<Rightarrow> graph_node option \<Rightarrow> jsval" where
  "step_result invs its layer action sourceNode =
     (case (action, sourceNode) of
        (Some a, Some n) \<Rightarrow>
          if ga_kind a = InvokeAction
          then (case singleCallResultDestination invs its action n (gl_actions layer) of
                  None \<Rightarrow> JUndef | Some (_, l) \<Rightarrow> l)
          else JUndef
      | _ \<Rightarrow> JUndef)"

definition step_leads :: "graph_action option \<Rightarrow> jsval \<Rightarrow> jsval \<Rightarrow> bool" where
  "step_leads action resultLayerId layerId =
     (case action of
        None \<Rightarrow> False
      | Some a \<Rightarrow> if ga_kind a = NavigateAction then sameId (ga_targetLayerId a) layerId
                 else sameId resultLayerId layerId)"

fun restore_steps ::
  "(jsval \<Rightarrow> graph_layer result) \<Rightarrow> invocation list \<Rightarrow> interaction list \<Rightarrow> graph_layer \<Rightarrow> path_entry list
     \<Rightarrow> nav_path_step list \<Rightarrow> (graph_layer \<times> path_entry list) option result" where
  "restore_steps loadLayer invs its layer path [] = Inr (Some (layer, path))"
| "restore_steps loadLayer invs its layer path (st # steps) =
     (let action = step_action layer st;
          sourceNode = step_node layer action;
          result = step_result invs its layer action sourceNode in
      if \<not> step_leads action result (np_layerId st) then Inr None
      else
        bind_r (loadLayer (np_layerId st)) (\<lambda>layer'.
          restore_steps loadLayer invs its layer' (appendLayerPath path action sourceNode result) steps))"

definition restoreLayerPath ::
  "(jsval \<Rightarrow> graph_layer result) \<Rightarrow> invocation list \<Rightarrow> interaction list \<Rightarrow> interaction option
     \<Rightarrow> nav_path_step list option \<Rightarrow> (graph_layer \<times> path_entry list) option result" where
  "restoreLayerPath loadLayer invs its i navigationPath =
     (let rootLayer = Option.bind (Option.bind i it_output) co_rootLayer; path = rootLayerPath i in
      case (rootLayer, navigationPath) of
        (Some root, Some (st # steps)) \<Rightarrow>
          if path = [] \<or> \<not> sameId (np_layerId st) (gl_id root) then Inr None
          else restore_steps loadLayer invs its root path steps
      | _ \<Rightarrow> Inr None)"

definition response_entry :: "jsval \<Rightarrow> path_entry" where
  "response_entry layerId =
     \<lparr>px_layerId = layerId, px_label = ''Response'', px_icon = Some ''messages-square'', px_actionId = JNull,
      px_sourceNodeId = JNull, px_sourceLayerId = JUndef\<rparr>"

definition layerPathForVisibleLayer ::
  "path_entry list \<Rightarrow> interaction option \<Rightarrow> graph_layer option \<Rightarrow> path_entry list" where
  "layerPathForVisibleLayer path i layer =
     (let layerId = (case layer of None \<Rightarrow> JUndef | Some l \<Rightarrow> gl_id l);
          rootPath = rootLayerPath i;
          rootId = (case rootPath of [] \<Rightarrow> JUndef | e # _ \<Rightarrow> px_layerId e) in
      if \<not> is_nullish layerId \<and> path \<noteq> [] \<and> sameId (px_layerId (last path)) layerId
      then (case path of
              [] \<Rightarrow> []
            | e # es \<Rightarrow> (if sameId (px_layerId e) rootId then hd rootPath else e) # es)
      else if is_nullish layerId \<or> sameId rootId layerId then rootPath
      else [response_entry layerId])"

section \<open>Breadcrumbs\<close>

record crumb_origin =
  cr_sourceTurnId :: jsval
  cr_actionId :: jsval
  cr_invocationKey :: jsval
  cr_label :: string
  cr_icon :: "string option"
  cr_presentingLayerId :: jsval
  cr_sourceNodeId :: jsval

datatype crumb_kind = OriginCrumb | LayerCrumb

record crumb =
  cb_key :: string
  cb_kind :: crumb_kind
  cb_label :: string
  cb_icon :: "string option"
  cb_interactive :: bool
  cb_pathIndex :: "nat option"
  cb_layerId :: jsval
  cb_actionId :: jsval
  cb_sourceNodeId :: jsval
  cb_sourceLayerId :: jsval
  cb_current :: bool

definition origin_crumb :: "crumb_origin \<Rightarrow> crumb" where
  "origin_crumb og =
     \<lparr>cb_key = ''invoke-origin:'' @ js_String (cr_sourceTurnId og) @ '':'' @ js_String (cr_actionId og) @ '':''
        @ js_String (cr_invocationKey og),
      cb_kind = OriginCrumb, cb_label = cr_label og, cb_icon = cr_icon og, cb_interactive = True, cb_pathIndex = None,
      cb_layerId = cr_presentingLayerId og, cb_actionId = JUndef, cb_sourceNodeId = cr_sourceNodeId og,
      cb_sourceLayerId = cr_presentingLayerId og, cb_current = False\<rparr>"

definition layer_crumb :: "path_entry list \<Rightarrow> nat \<Rightarrow> path_entry \<Rightarrow> crumb" where
  "layer_crumb path i e =
     \<lparr>cb_key = ''layer:'' @ show_nat i @ '':'' @ js_String (px_layerId e), cb_kind = LayerCrumb, cb_label = px_label e,
      cb_icon = px_icon e, cb_interactive = (i + 1 < length path), cb_pathIndex = Some i, cb_layerId = px_layerId e,
      cb_actionId = px_actionId e, cb_sourceNodeId = px_sourceNodeId e,
      cb_sourceLayerId = nullish_or (px_sourceLayerId e)
        (if i = 0 then px_layerId e else px_layerId (path ! (i - 1))),
      cb_current = (i + 1 = length path)\<rparr>"

definition workspaceBreadcrumbItems ::
  "workspace_state \<Rightarrow> thread option \<Rightarrow> path_entry list \<Rightarrow> crumb_origin option \<Rightarrow> crumb list" where
  "workspaceBreadcrumbItems s th layerPath origin =
     (case th of
        None \<Rightarrow> []
      | Some _ \<Rightarrow>
          let path = layerPathForVisibleLayer layerPath (interactionForThread s th) (ws_visibleLayer s) in
          (case origin of None \<Rightarrow> [] | Some og \<Rightarrow> [origin_crumb og])
          @ map (\<lambda>(i, e). layer_crumb path i e) (enumerate 0 path))"

section \<open>Modes\<close>

record mode_capabilities =
  mc_canNavigate :: bool
  mc_canCompose :: bool
  mc_canInvokeMutatingActions :: bool
  mc_canExportConversation :: bool
  mc_canResolveApprovals :: bool

definition workspaceModeCapabilities :: "string \<Rightarrow> mode_capabilities result" where
  "workspaceModeCapabilities mode =
     (if mode = ''interactive'' then Inr \<lparr>mc_canNavigate = True, mc_canCompose = True,
        mc_canInvokeMutatingActions = True, mc_canExportConversation = True, mc_canResolveApprovals = True\<rparr>
      else if mode = ''review'' then Inr \<lparr>mc_canNavigate = True, mc_canCompose = False,
        mc_canInvokeMutatingActions = False, mc_canExportConversation = False, mc_canResolveApprovals = False\<rparr>
      else Inl (Error (''Unknown product workspace mode: '' @ mode)))"

definition productWorkspaceMode :: "bool \<Rightarrow> bool \<Rightarrow> thread option \<Rightarrow> interaction option \<Rightarrow> string" where
  "productWorkspaceMode evalReviewContext reviewRequested th i =
     (if evalReviewContext \<or> reviewRequested \<or> (case th of None \<Rightarrow> False | Some t \<Rightarrow> th_imported t)
        \<or> (case i of None \<Rightarrow> False | Some it \<Rightarrow> it_inertCurrent it \<or> it_inertSource it)
      then ''review'' else ''interactive'')"

definition productWorkspaceNeedsRecreation :: "string option \<Rightarrow> string \<Rightarrow> bool" where
  "productWorkspaceNeedsRecreation currentMode nextMode \<longleftrightarrow> currentMode \<noteq> None \<and> currentMode \<noteq> Some nextMode"

definition shouldPollThreadInteractions :: "thread option \<Rightarrow> interaction list \<Rightarrow> bool" where
  "shouldPollThreadInteractions th interactions =
     (case th of
        None \<Rightarrow> False
      | Some t \<Rightarrow>
          if th_imported t then False
          else list_ex (\<lambda>i. eqId (it_threadId i) (th_id t)
            \<and> it_status i \<in> {NotStarted, Queued, Running, Submitted, WaitingForApproval}) interactions)"

section \<open>The presentation of a graph-owned call\<close>

record native_state =
  nv_completionId :: jsval
  nv_currentLayerId :: jsval
  nv_lifecycle :: "string option"
  nv_safeReason :: jsval

record native_invocation =
  nv_id :: jsval
  nv_sourceCompletionId :: jsval
  nv_sourceActionId :: jsval
  nv_invocationKey :: "string option"
  nv_parentNodeId :: jsval
  nv_childInteractionNodeId :: jsval
  nv_snapshotActionId :: jsval
  nv_snapshotSourceNodeId :: jsval
  nv_snapshotLabel :: "string option"
  nv_state :: "native_state option"

record native_current =
  nc_nodeId :: jsval
  nc_rootLayerId :: jsval
  nc_rootAction :: "graph_action option"
  nc_layers :: "graph_layer list"

record native_call =
  nl_graphOnly :: bool
  nl_occupancyOnly :: bool
  nl_sourceInteractionId :: jsval
  nl_actionId :: jsval
  nl_invocationKey :: "string option"
  nl_resultStatus :: status
  nl_invocation :: "native_invocation option"
  nl_current :: "native_current option"
  nl_sourceAction :: "graph_action option"
  nl_parentNodeId :: jsval

definition lifecycle_status :: "string option \<Rightarrow> status option" where
  "lifecycle_status l =
     (if l = Some ''active'' then Some Running else if l = Some ''succeeded'' then Some Accepted
      else if l = Some ''stopped'' then Some Stopped else if l = Some ''failed'' then Some Failed else None)"

text \<open>The identities of the call, its invocation, its source and its snapshot all name the same child.\<close>

definition native_coherent ::
  "native_call \<Rightarrow> native_invocation \<Rightarrow> native_current \<Rightarrow> jsval \<Rightarrow> interaction \<Rightarrow> bool" where
  "native_coherent call ninv cur threadId src \<longleftrightarrow>
     (let stateOf = (\<lambda>f. case nv_state ninv of None \<Rightarrow> JUndef | Some st \<Rightarrow> f st);
          actionOf = (\<lambda>f. case nl_sourceAction call of None \<Rightarrow> JUndef | Some a \<Rightarrow> f a) in
      sameId (it_threadId src) threadId
      \<and> sameId (it_id src) (nl_sourceInteractionId call)
      \<and> sameId (it_graphNodeId src) (nv_sourceCompletionId ninv)
      \<and> sameId (nv_sourceActionId ninv) (nl_actionId call)
      \<and> nv_invocationKey ninv = nl_invocationKey call
      \<and> sameId (actionOf ga_id) (nv_sourceActionId ninv)
      \<and> sameId (actionOf ga_sourceNodeId) (nv_parentNodeId ninv)
      \<and> sameId (nl_parentNodeId call) (nv_parentNodeId ninv)
      \<and> sameId (nv_snapshotActionId ninv) (nv_sourceActionId ninv)
      \<and> sameId (nv_snapshotSourceNodeId ninv) (nv_parentNodeId ninv)
      \<and> sameId (stateOf nv_completionId) (nv_childInteractionNodeId ninv)
      \<and> sameId (nc_nodeId cur) (nv_childInteractionNodeId ninv)
      \<and> sameId (nc_rootLayerId cur) (stateOf nv_currentLayerId))"

record native_presentation =
  np_interaction :: interaction
  np_invocationId :: jsval
  np_safeReason :: jsval
  np_layers :: "(string, graph_layer) jsmap"

text \<open>The middle dot of the label is the character 0xB7.\<close>

definition present_native ::
  "native_call \<Rightarrow> native_invocation \<Rightarrow> native_current \<Rightarrow> jsval \<Rightarrow> interaction \<Rightarrow> graph_layer \<Rightarrow> status
     \<Rightarrow> (string, graph_layer) jsmap \<Rightarrow> native_presentation" where
  "present_native call ninv cur threadId src rootLayer st layers =
     (let label = str_or (nv_snapshotLabel ninv) (str_or (Option.bind (nl_sourceAction call) ga_label) ''Invoke'') in
      \<lparr>np_interaction =
         (bare_interaction (JStr (''native-current:'' @ js_String (nv_id ninv))))
           \<lparr>it_threadId := threadId, it_inertCurrent := True, it_status := st,
            it_graphNodeId := nv_childInteractionNodeId ninv, it_sequence := it_sequence src,
            it_text := Some (label @ '' '' @ [CHR 0xB7] @ '' '' @ (if st = Accepted then ''Result'' else ''Current'')),
            it_output := Some \<lparr>co_rootLayer = Some rootLayer, co_rootAction = nc_rootAction cur\<rparr>,
            it_graph := Some \<lparr>gp_enabled = True, gp_complete = Some True,
              gp_sources = [\<lparr>gs_interactionId = it_id src, gs_threadId = threadId, gs_layers = [],
                gs_invocationActionId = nl_actionId call\<rparr>]\<rparr>\<rparr>,
       np_invocationId = nv_id ninv,
       np_safeReason = nullish_or (case nv_state ninv of None \<Rightarrow> JUndef | Some x \<Rightarrow> nv_safeReason x) JNull,
       np_layers = layers\<rparr>)"

definition nativeInvocationCurrentPresentation ::
  "native_call option \<Rightarrow> jsval \<Rightarrow> interaction option \<Rightarrow> native_presentation option" where
  "nativeInvocationCurrentPresentation c threadId source =
     Option.bind c (\<lambda>call. Option.bind (nl_invocation call) (\<lambda>ninv. Option.bind (nl_current call) (\<lambda>cur.
       Option.bind source (\<lambda>src.
         if \<not> nl_graphOnly call \<or> nl_occupancyOnly call \<or> \<not> native_coherent call ninv cur threadId src then None
         else
           let layers = map_from (map (\<lambda>l. (js_String (gl_id l), l)) (nc_layers cur)) in
           Option.bind (map_get layers (js_String (nc_rootLayerId cur))) (\<lambda>rootLayer.
             if list_ex (\<lambda>l. gl_state l \<noteq> Some ''accepted'') (map_values layers) then None
             else Option.bind (lifecycle_status (Option.bind (nv_state ninv) nv_lifecycle)) (\<lambda>st.
               if st \<noteq> nl_resultStatus call then None
               else Some (present_native call ninv cur threadId src rootLayer st layers)))))))"

section \<open>Revisions and update notices\<close>

text \<open>\<open>Array.prototype.join\<close>.\<close>

fun join_with :: "string \<Rightarrow> string list \<Rightarrow> string" where
  "join_with sep [] = []"
| "join_with sep [x] = x"
| "join_with sep (x # y # xs) = x @ sep @ join_with sep (y # xs)"

definition presentationInteractionRevision :: "interaction list \<Rightarrow> jsval \<Rightarrow> string" where
  "presentationInteractionRevision interactions threadId =
     join_with '',''
       (map (\<lambda>i. js_String (it_id i) @ '':'' @ js_String (it_sequence i) @ '':'' @ status_name (it_status i)
            @ (if truthy_str (it_queueReason i) then '':'' @ the (it_queueReason i) else []))
         (js_sort (\<lambda>l r. number_diff (it_sequence l) (it_sequence r))
           (filter (\<lambda>i. eqId (it_threadId i) threadId) interactions)))"

record temporal_pin =
  tp_pinned :: bool
  tp_completionId :: jsval
  tp_pinnedAtRevision :: jsnum

record update_notice =
  un_threadId :: jsval
  un_turnId :: jsval
  un_completionId :: jsval
  un_attemptId :: jsval
  un_revision :: int
  un_layerId :: jsval
  un_newUpdate :: bool

definition currentUpdateNotice ::
  "workspace_state \<Rightarrow> thread option \<Rightarrow> jsval \<Rightarrow> temporal_pin option \<Rightarrow> update_notice option" where
  "currentUpdateNotice s th currentInteractionId pin =
     (case (th, pin, find (\<lambda>i. eqId (it_id i) currentInteractionId \<and> eqId (it_threadId i) (thread_id th)) (ws_interactions s)) of
        (Some t, Some p, Some i) \<Rightarrow>
          if th_imported t \<or> it_inertCurrent i \<or> it_inertSource i \<or> \<not> tp_pinned p
             \<or> \<not> eqId (tp_completionId p) (it_graphNodeId i) then None
          else (case map_get (ws_currentProjections s) (js_String (tp_completionId p)) of
                  None \<Rightarrow> None
                | Some cur \<Rightarrow>
                    if \<not> cp_projectionUi cur \<or> is_nullish (cp_currentLayerId cur)
                       \<or> eqId (cp_currentLayerId cur) (case ws_visibleLayer s of None \<Rightarrow> JUndef | Some l \<Rightarrow> gl_id l)
                    then None
                    else Some \<lparr>un_threadId = th_id t, un_turnId = it_id i, un_completionId = cp_completionId cur,
                      un_attemptId = (case it_latestAttempt i of None \<Rightarrow> JNull | Some a \<Rightarrow> nullish_or (at_id a) JNull),
                      un_revision = cp_headRevision cur, un_layerId = cp_currentLayerId cur,
                      un_newUpdate = (is_safe_integer (tp_pinnedAtRevision p)
                        \<and> cp_headRevision cur > num_val (tp_pinnedAtRevision p))\<rparr>)
      | _ \<Rightarrow> None)"

section \<open>Lemmas\<close>

lemma thread_interactions_mset: "mset (workspaceTurns s th) = mset (thread_interactions s th)"
proof -
  have "mset (workspaceTurns s th) = image_mset snd (mset (enumerate 0 (thread_interactions s th)))"
    by (simp add: workspaceTurns_def)
  also have "\<dots> = mset (map snd (enumerate 0 (thread_interactions s th)))" by (simp only: mset_map)
  also have "\<dots> = mset (thread_interactions s th)" by (simp only: map_snd_enumerate)
  finally show ?thesis .
qed

text \<open>With numeric sequences the comparator is lexicographic, hence total.\<close>

definition lex_key :: "nat \<times> interaction \<Rightarrow> int \<times> int" where
  "lex_key p = (the (js_Number (it_sequence (snd p))), int (fst p))"

definition lex_cmp :: "nat \<times> interaction \<Rightarrow> nat \<times> interaction \<Rightarrow> int" where
  "lex_cmp l r = (if fst (lex_key l) \<noteq> fst (lex_key r) then fst (lex_key l) - fst (lex_key r)
     else snd (lex_key l) - snd (lex_key r))"

lemma total_lex_cmp: "total_cmp lex_cmp"
  by (auto simp: total_cmp_def lex_cmp_def split: if_splits)

lemma turn_cmp_lex:
  "js_Number (it_sequence (snd l)) \<noteq> None \<Longrightarrow> js_Number (it_sequence (snd r)) \<noteq> None \<Longrightarrow> turn_cmp l r = lex_cmp l r"
  by (auto simp: turn_cmp_def lex_cmp_def lex_key_def)

lemma advance_view_simps [simp]:
  "pv_revision (advance_view v e) = num_val (pe_revision e)" "pv_completionId (advance_view v e) = pv_completionId v"
  "pv_mode (advance_view v e) = pv_mode v"
  "\<not> was_following v \<Longrightarrow> pv_visibleTarget (advance_view v e) = pv_visibleTarget v"
  "\<not> was_following v \<Longrightarrow> pv_selectedNodeId (advance_view v e) = pv_selectedNodeId v"
  by (simp_all add: advance_view_def)

lemma advance_following:
  "sameId (pe_completionId e) (pv_completionId v) \<Longrightarrow> was_following v \<Longrightarrow> was_following (advance_view v e)"
  by (simp add: was_following_def [of "advance_view v e"])
    (simp add: advance_view_def next_target_def nullish_or_def was_following_def)

lemma reconcile_step:
  "\<exists>v'. snd (reconcileCurrentProjection (Some v) (Some e)) = Some v' \<and> pv_revision v \<le> pv_revision v'
     \<and> pv_completionId v' = pv_completionId v \<and> pv_mode v' = pv_mode v \<and> (was_following v \<longrightarrow> was_following v')
     \<and> (\<not> was_following v \<longrightarrow> pv_visibleTarget v' = pv_visibleTarget v \<and> pv_selectedNodeId v' = pv_selectedNodeId v)"
  by (auto simp: reconcileCurrentProjection_def advance_following sameId_sym)

section \<open>Properties\<close>

text \<open>The turns of a thread are its interactions, each exactly once; when their sequences are numbers the
  turns are in sequence order.\<close>

theorem workspaceTurns_sorted:
  assumes "\<forall>i \<in> set (thread_interactions s th). js_Number (it_sequence i) \<noteq> None"
  shows "mset (workspaceTurns s th) = mset (thread_interactions s th)
     \<and> sorted (map (\<lambda>i. the (js_Number (it_sequence i))) (workspaceTurns s th))"
proof
  let ?es = "enumerate 0 (thread_interactions s th)"
  have num: "js_Number (it_sequence (snd p)) \<noteq> None" if "p \<in> set ?es" for p
    using assms that by (cases p) (auto simp: in_set_enumerate_eq)
  have "js_sort turn_cmp ?es = js_sort lex_cmp ?es"
    by (rule js_sort_cong) (use num in \<open>simp add: turn_cmp_lex\<close>)
  moreover have "sorted_wrt (\<lambda>a b. lex_cmp a b \<le> 0) (js_sort lex_cmp ?es)"
    by (rule sorted_js_sort) (rule total_lex_cmp)
  ultimately have "sorted_wrt (\<lambda>a b. lex_cmp a b \<le> 0) (js_sort turn_cmp ?es)" by simp
  then have "sorted_wrt (\<lambda>a b. fst (lex_key a) \<le> fst (lex_key b)) (js_sort turn_cmp ?es)"
    by (rule sorted_wrt_mono_rel [rotated]) (auto simp: lex_cmp_def split: if_splits)
  then show "sorted (map (\<lambda>i. the (js_Number (it_sequence i))) (workspaceTurns s th))"
    by (simp add: workspaceTurns_def sorted_wrt_map lex_key_def)
qed (rule thread_interactions_mset)

definition demo_thread :: thread where
  "demo_thread = \<lparr>th_id = JNum 1, th_rootInteractionId = JNull, th_rootNodeId = JNull, th_imported = False\<rparr>"

definition demo_turn :: "int \<Rightarrow> int \<Rightarrow> interaction" where
  "demo_turn n q = (bare_interaction (JNum n))\<lparr>it_threadId := JNum 1, it_sequence := JNum q\<rparr>"

definition demo_workspace :: workspace_state where
  "demo_workspace = \<lparr>ws_interactions = [demo_turn 4 2, demo_turn 3 1], ws_nodes = [], ws_currentInteractionId = JNull,
     ws_actionInvocations = [], ws_importedHistory = [], ws_approvals = [], ws_visibleLayer = None,
     ws_currentProjections = []\<rparr>"

theorem workspaceTurns_sorted_witness:
  "mset (workspaceTurns demo_workspace (Some demo_thread)) = {#demo_turn 4 2, demo_turn 3 1#}"
  using workspaceTurns_sorted [of demo_workspace "Some demo_thread"]
  by (simp add: thread_interactions_def demo_workspace_def demo_turn_def demo_thread_def thread_id_def)

text \<open>C5. Over any stream of projection events a view's revision never falls and its completion never changes.
  A pinned view is never moved: neither its target nor its selection changes. A view that follows keeps
  following. An event that skips a revision changes nothing and asks for a resync.\<close>

theorem projection_stream:
  "(let v' = fold (\<lambda>e v. the (snd (reconcileCurrentProjection (Some v) (Some e)))) events v in
      pv_revision v \<le> pv_revision v' \<and> pv_completionId v' = pv_completionId v \<and> pv_mode v' = pv_mode v
      \<and> (was_following v \<longrightarrow> was_following v')
      \<and> (pv_mode v = Pinned \<longrightarrow> pv_visibleTarget v' = pv_visibleTarget v \<and> pv_selectedNodeId v' = pv_selectedNodeId v))
   \<and> (\<forall>e. sameId (pv_completionId v) (pe_completionId e) \<longrightarrow> is_safe_integer (pe_revision e)
        \<longrightarrow> num_val (pe_revision e) > pv_revision v \<longrightarrow> pe_previousRevision e \<noteq> NInt (pv_revision v)
        \<longrightarrow> reconcileCurrentProjection (Some v) (Some e) = (Resync, Some v))"
proof
  show "let v' = fold (\<lambda>e v. the (snd (reconcileCurrentProjection (Some v) (Some e)))) events v in
      pv_revision v \<le> pv_revision v' \<and> pv_completionId v' = pv_completionId v \<and> pv_mode v' = pv_mode v
      \<and> (was_following v \<longrightarrow> was_following v')
      \<and> (pv_mode v = Pinned \<longrightarrow> pv_visibleTarget v' = pv_visibleTarget v \<and> pv_selectedNodeId v' = pv_selectedNodeId v)"
  proof (induction events arbitrary: v)
    case Nil
    then show ?case by simp
  next
    case (Cons e es)
    obtain v' where v': "snd (reconcileCurrentProjection (Some v) (Some e)) = Some v'" "pv_revision v \<le> pv_revision v'"
      "pv_completionId v' = pv_completionId v" "pv_mode v' = pv_mode v" "was_following v \<Longrightarrow> was_following v'"
      "\<not> was_following v \<Longrightarrow> pv_visibleTarget v' = pv_visibleTarget v \<and> pv_selectedNodeId v' = pv_selectedNodeId v"
      using reconcile_step [of v e] by blast
    have "pv_mode v = Pinned \<Longrightarrow> \<not> was_following v" by (simp add: was_following_def)
    with Cons [of v'] v' show ?case by (auto simp: Let_def)
  qed
qed (simp add: reconcileCurrentProjection_def)

definition demo_view :: projection_view where
  "demo_view = \<lparr>pv_completionId = JNum 4, pv_revision = 2, pv_mode = Pinned, pv_lifecycle = None, pv_currentLayerId = JNum 8,
     pv_finalLayerId = JNull, pv_safeReason = JNull, pv_visibleTarget = Some (LayerTarget (JNum 4) (JNum 7)),
     pv_selectedNodeId = JNum 5\<rparr>"

definition demo_event :: "int \<Rightarrow> int \<Rightarrow> projection_event" where
  "demo_event q p = \<lparr>pe_completionId = JNum 4, pe_revision = NInt q, pe_previousRevision = NInt p, pe_lifecycle = None,
     pe_currentLayerId = JNum 9, pe_finalLayerId = JNull, pe_safeReason = JNull, pe_currentNodeIds = Some []\<rparr>"

theorem projection_stream_witness:
  "pv_visibleTarget (fold (\<lambda>e v. the (snd (reconcileCurrentProjection (Some v) (Some e)))) [demo_event 3 2, demo_event 4 3] demo_view)
     = Some (LayerTarget (JNum 4) (JNum 7))
   \<and> reconcileCurrentProjection (Some demo_view) (Some (demo_event 5 4)) = (Resync, Some demo_view)"
proof
  have pinned: "pv_mode demo_view = Pinned" by (simp add: demo_view_def)
  show "pv_visibleTarget (fold (\<lambda>e v. the (snd (reconcileCurrentProjection (Some v) (Some e)))) [demo_event 3 2, demo_event 4 3] demo_view)
     = Some (LayerTarget (JNum 4) (JNum 7))"
    using projection_stream [THEN conjunct1, of "[demo_event 3 2, demo_event 4 3]" demo_view] pinned
    unfolding Let_def by (metis demo_view_def projection_view.select_convs(8))
  have "sameId (pv_completionId demo_view) (pe_completionId (demo_event 5 4))" "is_safe_integer (pe_revision (demo_event 5 4))"
    "num_val (pe_revision (demo_event 5 4)) > pv_revision demo_view"
    "pe_previousRevision (demo_event 5 4) \<noteq> NInt (pv_revision demo_view)"
    by (simp_all add: demo_view_def demo_event_def is_safe_integer_def num_val_def max_safe_def)
  then show "reconcileCurrentProjection (Some demo_view) (Some (demo_event 5 4)) = (Resync, Some demo_view)"
    using projection_stream [THEN conjunct2, of demo_view] by blast
qed

text \<open>The coordinator is a gate of request tokens; what the window shows adds a condition on top.\<close>

interpretation ln: token_gate "coordinator_begin pos path" coordinator_cancel "\<lambda>n r. lq_requestId r = n" "\<lambda>n r. lq_requestId r \<le> n"
  for pos path
  by unfold_locales (auto simp: coordinator_begin_def coordinator_cancel_def)

definition coordinator_op :: "(layer_position \<times> path_entry list) option \<Rightarrow> nat \<Rightarrow> nat" where
  "coordinator_op op m = (case op of Some (p, q) \<Rightarrow> snd (coordinator_begin p q m) | None \<Rightarrow> coordinator_cancel m)"

lemma coordinator_op_gate: "coordinator_op op m = ln.gate_step pos path (op \<noteq> None) m"
  by (auto simp: coordinator_op_def ln.gate_step_def coordinator_begin_def split: option.splits)

lemma coordinator_ops_gate: "fold coordinator_op ops m = fold (ln.gate_step pos path) (map (\<lambda>op. op \<noteq> None) ops) m"
  by (induction ops arbitrary: m) (simp_all add: coordinator_op_gate [of _ _ pos path])

text \<open>A layer navigation is current while the window still asks for its layer and nothing superseded it;
  after any later navigation, to whatever layer, or a cancellation it never is again, whatever the window shows.\<close>

theorem superseded_navigation_never_current:
  assumes "coordinator_begin pos path n = (r, n')" and "ops \<noteq> []"
  shows "(coordinator_isCurrent (Some r) (Some pos) n' \<longleftrightarrow>
       \<not> is_nullish (lp_threadId pos) \<and> \<not> is_nullish (lp_interactionId pos) \<and> \<not> is_nullish (lp_layerId pos))
    \<and> \<not> coordinator_isCurrent (Some r) cur (fold coordinator_op ops n')"
proof
  show "coordinator_isCurrent (Some r) (Some pos) n' \<longleftrightarrow>
       \<not> is_nullish (lp_threadId pos) \<and> \<not> is_nullish (lp_interactionId pos) \<and> \<not> is_nullish (lp_layerId pos)"
    using assms(1) by (auto simp: coordinator_begin_def coordinator_isCurrent_def)
  have "lq_requestId r \<noteq> fold (ln.gate_step pos path) (map (\<lambda>op. op \<noteq> None) ops) n'"
    by (rule ln.stale_for_ever [OF ln.issue_issued [OF assms(1)]]) (simp add: assms(2))
  then show "\<not> coordinator_isCurrent (Some r) cur (fold coordinator_op ops n')"
    by (auto simp: coordinator_isCurrent_def coordinator_ops_gate [of _ _ pos path] split: option.splits)
qed

theorem superseded_navigation_never_current_witness:
  "\<not> coordinator_isCurrent (Some (fst (coordinator_begin \<lparr>lp_threadId = JNum 1, lp_interactionId = JNum 2, lp_layerId = JNum 3\<rparr> [] 0)))
       (Some \<lparr>lp_threadId = JNum 1, lp_interactionId = JNum 2, lp_layerId = JNum 3\<rparr>) (coordinator_cancel 1)"
proof -
  let ?pos = "\<lparr>lp_threadId = JNum 1, lp_interactionId = JNum 2, lp_layerId = JNum 3\<rparr>"
  have b: "coordinator_begin ?pos [] 0 = (fst (coordinator_begin ?pos [] 0), 1)" by (simp add: coordinator_begin_def)
  have "[None] \<noteq> []" by simp
  from superseded_navigation_never_current [OF b this, of "Some ?pos"] show ?thesis by (simp add: coordinator_op_def)
qed

lemma step_leads_path:
  assumes "step_leads action (step_result invs its layer action node) layerId"
  shows "\<exists>e. path_step action node (step_result invs its layer action node) = Some e \<and> sameId (px_layerId e) layerId"
proof -
  obtain a where a: "action = Some a" using assms by (auto simp: step_leads_def split: option.splits)
  show ?thesis
  proof (cases "ga_kind a = NavigateAction")
    case True
    with assms a show ?thesis by (auto simp: step_leads_def path_step_def Let_def sameId_def)
  next
    case False
    with assms a have s: "sameId (step_result invs its layer action node) layerId" by (simp add: step_leads_def)
    then have "ga_kind a = InvokeAction \<and> ga_reusable a = Some False"
      using a by (auto simp: step_result_def singleCallResultDestination_def split: option.splits if_splits)
    with False s a show ?thesis by (auto simp: path_step_def Let_def sameId_def)
  qed
qed

lemma restore_steps_trace:
  assumes "restore_steps loadLayer invs its layer path steps = Inr (Some (l, path'))"
  shows "\<exists>es. path' = path @ es \<and> list_all2 (\<lambda>e st. sameId (px_layerId e) (np_layerId st)) es steps
     \<and> (if steps = [] then l = layer else loadLayer (np_layerId (last steps)) = Inr l)"
  using assms
proof (induction steps arbitrary: layer path)
  case Nil
  then show ?case by simp
next
  case (Cons st steps)
  define action where "action = step_action layer st"
  define node where "node = step_node layer action"
  define res where "res = step_result invs its layer action node"
  from Cons.prems obtain layer' where leads: "step_leads action res (np_layerId st)"
      and l': "loadLayer (np_layerId st) = Inr layer'"
      and rest: "restore_steps loadLayer invs its layer' (appendLayerPath path action node res) steps = Inr (Some (l, path'))"
    by (auto simp: Let_def bind_r_Inr_iff action_def node_def res_def split: if_splits)
  obtain e where e: "path_step action node res = Some e" "sameId (px_layerId e) (np_layerId st)"
    using step_leads_path [OF leads [unfolded res_def]] by (auto simp: res_def)
  from Cons.IH [OF rest] obtain es where es: "path' = path @ e # es"
      "list_all2 (\<lambda>e st. sameId (px_layerId e) (np_layerId st)) es steps"
      "if steps = [] then l = layer' else loadLayer (np_layerId (last steps)) = Inr l"
    by (auto simp: appendLayerPath_def e(1))
  then show ?case using e(2) l' by (intro exI [of _ "e # es"]) auto
qed

text \<open>A restored layer path retraces the navigation path: one entry per step, each for the step's layer, and
  the layer it ends on is the one the loader gave for the last step (or the root layer of a path of one).\<close>

theorem restoreLayerPath_retraces:
  assumes "restoreLayerPath loadLayer invs its i (Some navigationPath) = Inr (Some (layer, path))"
  shows "list_all2 (\<lambda>e st. sameId (px_layerId e) (np_layerId st)) path navigationPath
     \<and> (if length navigationPath = 1 then Option.bind (Option.bind i it_output) co_rootLayer = Some layer
        else loadLayer (np_layerId (last navigationPath)) = Inr layer)"
proof -
  obtain root st steps where r: "Option.bind (Option.bind i it_output) co_rootLayer = Some root"
      "navigationPath = st # steps" "rootLayerPath i \<noteq> []" "sameId (np_layerId st) (gl_id root)"
      "restore_steps loadLayer invs its root (rootLayerPath i) steps = Inr (Some (layer, path))"
    using assms by (auto simp: restoreLayerPath_def Let_def split: option.splits list.splits if_splits)
  then obtain e where e: "rootLayerPath i = [e]" "px_layerId e = gl_id root"
    by (cases i) (auto simp: rootLayerPath_def Let_def split: if_splits)
  from restore_steps_trace [OF r(5)] r(1,2,4) e show ?thesis
    by (auto intro: sameId_sym)
qed

definition demo_layer :: "int \<Rightarrow> graph_layer" where
  "demo_layer n = \<lparr>gl_id = JNum n, gl_state = Some ''accepted'', gl_nodes = [],
     gl_actions = [\<lparr>ga_id = JNum 50, ga_kind = NavigateAction, ga_sourceNodeId = JNum 5, ga_targetLayerId = JNum 8,
       ga_reusable = None, ga_label = Some ''Open'', ga_icon = None, ga_state = None\<rparr>]\<rparr>"

definition demo_output :: interaction where
  "demo_output = (bare_interaction (JNum 1))\<lparr>it_output := Some \<lparr>co_rootLayer = Some (demo_layer 7), co_rootAction = None\<rparr>\<rparr>"

definition demo_path :: "nav_path_step list" where
  "demo_path = [\<lparr>np_layerId = JNum 7, np_viaActionId = JNull\<rparr>, \<lparr>np_layerId = JNum 8, np_viaActionId = JNum 50\<rparr>]"

theorem restoreLayerPath_retraces_witness:
  "\<exists>path. restoreLayerPath (\<lambda>_. Inr (demo_layer 8)) [] [] (Some demo_output) (Some demo_path) = Inr (Some (demo_layer 8, path))
     \<and> list_all2 (\<lambda>e st. sameId (px_layerId e) (np_layerId st)) path demo_path"
proof -
  obtain path where p: "restoreLayerPath (\<lambda>_. Inr (demo_layer 8)) [] [] (Some demo_output) (Some demo_path)
      = Inr (Some (demo_layer 8, path))"
    by (simp add: restoreLayerPath_def demo_output_def demo_path_def demo_layer_def rootLayerPath_def step_action_def
        step_leads_def Let_def)
  with restoreLayerPath_retraces [OF p] show ?thesis by blast
qed

end
