(* ===== verification/ComposerDrafts.thy ===== *)
theory ComposerDrafts
  imports JsCollections "HOL-Library.Word"
begin

unbundle bit_operations_syntax

text \<open>
  The persisted drafts of the composer (\<open>desktop/renderer/src/composer-drafts.js\<close>): the digest of a sent
  follow-up, and the bounded state of drafts, restorations and sent records. Plain objects are insertion
  lists whose keys come out by \<open>obj_keys\<close>. The size that the code bounds is that of the JSON text in
  UTF-8, which is computed here by a serializer for this state. The module keeps the state in
  \<open>desktopState\<close> (or \<open>localStorage\<close>); an operation reads it, changes it and writes the bounded result back, or
  nothing if it cannot be bounded. The lemmas: the bounds hold after every write, the drafts that go are
  the first keys and the newest draft goes last, protecting records go last, and the digest is a safe
  integer.
\<close>

section \<open>The digest of a follow-up\<close>

text \<open>A JavaScript string as its UTF-16 code units. \<open>Math.imul\<close> and the bit operators work modulo \<open>2^32\<close>.\<close>

type_synonym units = "16 word list"

definition unit_space :: "16 word \<Rightarrow> bool" where
  "unit_space u \<longleftrightarrow> u \<in> {9, 10, 11, 12, 13, 32, 160, 0x1680, 0x2028, 0x2029, 0x202F, 0x205F, 0x3000, 0xFEFF}
     \<or> (0x2000 \<le> u \<and> u \<le> 0x200A)"

definition unit_trim :: "units \<Rightarrow> units" where
  "unit_trim s = rev (dropWhile unit_space (rev (dropWhile unit_space s)))"

fun cyrb_loop :: "units \<Rightarrow> 32 word \<times> 32 word \<Rightarrow> 32 word \<times> 32 word" where
  "cyrb_loop [] h = h"
| "cyrb_loop (c # cs) (h1, h2) =
     cyrb_loop cs ((h1 XOR ucast c) * 2654435761, (h2 XOR ucast c) * 1597334677)"

definition cyrb53 :: "units \<Rightarrow> nat" where
  "cyrb53 value =
     (case cyrb_loop value (0xdeadbeef, 0x41c6ce57) of (h1, h2) \<Rightarrow>
        let h1' = ((h1 XOR drop_bit 16 h1) * 2246822507) XOR ((h2 XOR drop_bit 13 h2) * 3266489909);
            h2' = ((h2 XOR drop_bit 16 h2) * 2246822507) XOR ((h1' XOR drop_bit 13 h1') * 3266489909) in
        4294967296 * unat (2097151 AND h2') + unat h1')"

definition hex_char :: "nat \<Rightarrow> char" where
  "hex_char d = (if d < 10 then char_of (48 + d) else char_of (87 + d))"

fun show_hex :: "nat \<Rightarrow> string" where
  "show_hex n = (if n < 16 then [hex_char n] else show_hex (n div 16) @ [hex_char (n mod 16)])"

declare show_hex.simps [simp del]

definition followupTextDigest :: "units option \<Rightarrow> string" where
  "followupTextDigest text =
     (let value = unit_trim (case text of None \<Rightarrow> [] | Some t \<Rightarrow> t) in
      show_nat (length value) @ '':'' @ show_hex (cyrb53 value))"

section \<open>State\<close>

record sent_record =
  sr_scopeKey :: string
  sr_originScopeKey :: string
  sr_textDigest :: string
  sr_edited :: bool
  sr_sends :: nat

text \<open>The scope of a pending thread is some JSON value, kept as its JSON text.\<close>

record pending_thread =
  pt_text :: string
  pt_scope :: "string option"

record drafts =
  dr_pending :: "pending_thread option"
  dr_followups :: "(string, string) jsmap"
  dr_restorations :: "(string, string) jsmap"
  dr_sent :: "(string, sent_record) jsmap"

definition emptyState :: drafts where
  "emptyState = \<lparr>dr_pending = None, dr_followups = [], dr_restorations = [], dr_sent = []\<rparr>"

definition MAX_THREAD_FOLLOWUP_DRAFTS :: nat where
  "MAX_THREAD_FOLLOWUP_DRAFTS = 256"

definition MAX_COMPOSER_DRAFT_BYTES :: nat where
  "MAX_COMPOSER_DRAFT_BYTES = 1024 * 1024"

section \<open>The size of the serialized state\<close>

definition hex4 :: "nat \<Rightarrow> string" where
  "hex4 n = [CHR ''0'', CHR ''0'', hex_char (n div 16), hex_char (n mod 16)]"

text \<open>\<open>JSON.stringify\<close> on strings: quotes, backslashes and control characters are escaped.\<close>

definition json_char :: "char \<Rightarrow> string" where
  "json_char c =
     (let n = (of_char c :: nat) in
      if n = 34 then [CHR 0x5C, c] else if n = 92 then [CHR 0x5C, c]
      else if n = 8 then [CHR 0x5C, CHR ''b''] else if n = 9 then [CHR 0x5C, CHR ''t'']
      else if n = 10 then [CHR 0x5C, CHR ''n''] else if n = 12 then [CHR 0x5C, CHR ''f'']
      else if n = 13 then [CHR 0x5C, CHR ''r''] else if n < 32 then [CHR 0x5C, CHR ''u''] @ hex4 n
      else [c])"

definition json_string :: "string \<Rightarrow> string" where
  "json_string s = [CHR 0x22] @ concat (map json_char s) @ [CHR 0x22]"

fun json_list :: "string list \<Rightarrow> string" where
  "json_list [] = []"
| "json_list [x] = x"
| "json_list (x # y # xs) = x @ '','' @ json_list (y # xs)"

definition json_object :: "(string \<times> string) list \<Rightarrow> string" where
  "json_object kvs = ''{'' @ json_list (map (\<lambda>(k, v). json_string k @ '':'' @ v) kvs) @ ''}''"

definition json_dict :: "('v \<Rightarrow> string) \<Rightarrow> (string, 'v) jsmap \<Rightarrow> string" where
  "json_dict f o' = json_object (map (\<lambda>k. (k, f (the (map_get o' k)))) (obj_keys o'))"

definition json_sent :: "sent_record \<Rightarrow> string" where
  "json_sent r = json_object
     [(''scopeKey'', json_string (sr_scopeKey r)), (''originScopeKey'', json_string (sr_originScopeKey r)),
      (''textDigest'', json_string (sr_textDigest r)), (''edited'', if sr_edited r then ''true'' else ''false''),
      (''sends'', show_nat (sr_sends r))]"

definition json_pending :: "pending_thread option \<Rightarrow> string" where
  "json_pending p =
     (case p of
        None \<Rightarrow> ''null''
      | Some t \<Rightarrow> json_object ((''text'', json_string (pt_text t))
          # (case pt_scope t of None \<Rightarrow> [] | Some j \<Rightarrow> [(''scope'', j)])))"

definition json_drafts :: "drafts \<Rightarrow> string" where
  "json_drafts d = json_object
     [(''pendingNewThread'', json_pending (dr_pending d)), (''threadFollowups'', json_dict json_string (dr_followups d)),
      (''threadFollowupRestorations'', json_dict json_string (dr_restorations d)),
      (''sentThreadFollowups'', json_dict json_sent (dr_sent d))]"

definition utf8_length :: "string \<Rightarrow> nat" where
  "utf8_length s = sum_list (map (\<lambda>c. if (of_char c :: nat) < 128 then 1 else 2) s)"

definition draft_bytes :: "drafts \<Rightarrow> nat" where
  "draft_bytes d = utf8_length (json_drafts d)"

section \<open>Bounding the state\<close>

text \<open>\<open>keys.slice(0, -n)\<close>.\<close>

definition all_but_last :: "nat \<Rightarrow> 'a list \<Rightarrow> 'a list" where
  "all_but_last n xs = take (length xs - n) xs"

definition protects :: "(string, sent_record) jsmap \<Rightarrow> (string, string) jsmap \<Rightarrow> string \<Rightarrow> bool" where
  "protects records followups key =
     (case map_get records key of None \<Rightarrow> False | Some r \<Rightarrow> sr_edited r \<and> map_has followups (sr_scopeKey r))"

definition evicted_records :: "(string, sent_record) jsmap \<Rightarrow> (string, string) jsmap \<Rightarrow> nat \<Rightarrow> string list" where
  "evicted_records records followups limit =
     (let keys = obj_keys records; p = protects records followups in
      take (length keys - limit) (filter (\<lambda>k. \<not> p k) keys @ filter p keys))"

text \<open>\<open>Object.fromEntries\<close> of the kept keys creates them in enumeration order.\<close>

definition boundedSentRecords ::
  "(string, sent_record) jsmap \<Rightarrow> (string, string) jsmap \<Rightarrow> nat \<Rightarrow> (string, sent_record) jsmap" where
  "boundedSentRecords records followups limit =
     (let keys = obj_keys records in
      if length keys \<le> limit then records
      else map (\<lambda>k. (k, the (map_get records k)))
             (filter (\<lambda>k. k \<notin> set (evicted_records records followups limit)) keys))"

definition dropOrphanRestorations :: "drafts \<Rightarrow> drafts" where
  "dropOrphanRestorations d =
     d\<lparr>dr_restorations := filter (\<lambda>(k, _). map_has (dr_followups d) k) (dr_restorations d)\<rparr>"

lemma length_delete_obj_key: "obj_keys m = k # ks \<Longrightarrow> length (map_delete m k) < length m"
proof -
  assume "obj_keys m = k # ks"
  then have "k \<in> set (map_keys m)" by (metis list.set_intros(1) set_obj_keys)
  then show ?thesis by (auto simp: map_keys_def map_delete_def intro: length_filter_less)
qed

function shrink :: "drafts \<Rightarrow> drafts option" where
  "shrink d =
     (if draft_bytes d > MAX_COMPOSER_DRAFT_BYTES
      then (case obj_keys (dr_followups d) of
              [] \<Rightarrow> None
            | k # _ \<Rightarrow> if k = [] then None
                else shrink (dropOrphanRestorations (d\<lparr>dr_followups := map_delete (dr_followups d) k\<rparr>)))
      else Some d)"
  by pat_completeness auto

termination
  by (relation "measure (\<lambda>d. length (dr_followups d))")
    (auto simp: dropOrphanRestorations_def length_delete_obj_key)

declare shrink.simps [simp del]

definition boundedState :: "drafts \<Rightarrow> drafts option" where
  "boundedState value =
     (let kept = foldl map_delete (dr_followups value)
            (all_but_last MAX_THREAD_FOLLOWUP_DRAFTS (obj_keys (dr_followups value))) in
      shrink (dropOrphanRestorations (value\<lparr>dr_followups := kept,
        dr_sent := boundedSentRecords (dr_sent value) kept MAX_THREAD_FOLLOWUP_DRAFTS\<rparr>)))"

definition writeState :: "drafts \<Rightarrow> drafts \<Rightarrow> drafts" where
  "writeState stored value = (case boundedState value of None \<Rightarrow> stored | Some b \<Rightarrow> b)"

section \<open>Operations\<close>

definition pendingNewThreadDraft :: "drafts \<Rightarrow> pending_thread option" where
  "pendingNewThreadDraft stored = dr_pending stored"

definition persistPendingNewThreadDraft :: "string \<Rightarrow> string option \<Rightarrow> drafts \<Rightarrow> drafts" where
  "persistPendingNewThreadDraft text scope stored =
     writeState stored
       (stored\<lparr>dr_pending := if text = [] then None else Some \<lparr>pt_text = text, pt_scope = scope\<rparr>\<rparr>)"

definition clearPendingNewThreadDraft :: "drafts \<Rightarrow> drafts" where
  "clearPendingNewThreadDraft stored = writeState stored (stored\<lparr>dr_pending := None\<rparr>)"

definition threadFollowupDraft :: "string \<Rightarrow> drafts \<Rightarrow> string option" where
  "threadFollowupDraft scopeKey stored = (if scopeKey = [] then None else map_get (dr_followups stored) scopeKey)"

definition threadFollowupRestoration :: "string \<Rightarrow> drafts \<Rightarrow> string option" where
  "threadFollowupRestoration scopeKey stored =
     (if scopeKey = [] then None else map_get (dr_restorations stored) scopeKey)"

definition with_followup :: "string \<Rightarrow> string \<Rightarrow> jsval \<Rightarrow> drafts \<Rightarrow> drafts" where
  "with_followup scopeKey text restorationId d =
     (let followups = map_set (map_delete (dr_followups d) scopeKey) scopeKey text;
          without = map_delete (dr_restorations d) scopeKey in
      d\<lparr>dr_followups := foldl map_delete followups (all_but_last MAX_THREAD_FOLLOWUP_DRAFTS (obj_keys followups)),
        dr_restorations := if is_nullish restorationId then without
          else map_set without scopeKey (js_String restorationId)\<rparr>)"

definition without_followup :: "string \<Rightarrow> drafts \<Rightarrow> drafts" where
  "without_followup scopeKey d =
     d\<lparr>dr_followups := map_delete (dr_followups d) scopeKey, dr_restorations := map_delete (dr_restorations d) scopeKey\<rparr>"

definition persistThreadFollowupDraft :: "string \<Rightarrow> string \<Rightarrow> bool \<Rightarrow> jsval \<Rightarrow> drafts \<Rightarrow> drafts" where
  "persistThreadFollowupDraft scopeKey text preserveEmpty restorationId stored =
     (if scopeKey = [] then stored
      else writeState stored
        (if text \<noteq> [] \<or> preserveEmpty then with_followup scopeKey text restorationId stored
         else without_followup scopeKey stored))"

definition clearThreadFollowupDraft :: "string \<Rightarrow> drafts \<Rightarrow> drafts" where
  "clearThreadFollowupDraft scopeKey stored =
     (if scopeKey = [] then stored else writeState stored (without_followup scopeKey stored))"

definition sentThreadFollowup :: "jsval \<Rightarrow> drafts \<Rightarrow> sent_record option" where
  "sentThreadFollowup threadId stored =
     (if is_nullish threadId then None else map_get (dr_sent stored) (js_String threadId))"

definition persistSentThreadFollowup :: "jsval \<Rightarrow> sent_record option \<Rightarrow> drafts \<Rightarrow> drafts" where
  "persistSentThreadFollowup threadId record stored =
     (if is_nullish threadId then stored
      else
        let without = map_delete (dr_sent stored) (js_String threadId) in
        writeState stored (stored\<lparr>dr_sent :=
          case record of None \<Rightarrow> without | Some r \<Rightarrow> map_set without (js_String threadId) r\<rparr>))"

text \<open>The durable variant reports what the others swallow.\<close>

definition persistPendingNewThreadDraftDurably :: "string \<Rightarrow> string option \<Rightarrow> bool \<Rightarrow> drafts \<Rightarrow> drafts result" where
  "persistPendingNewThreadDraftDurably text scope initialized stored =
     (case boundedState (stored\<lparr>dr_pending := if text = [] then None else Some \<lparr>pt_text = text, pt_scope = scope\<rparr>\<rparr>) of
        None \<Rightarrow> Inl (Error ''The draft exceeds the local persistence limit.'')
      | Some b \<Rightarrow> if \<not> initialized then Inl (Error ''Draft storage is still initializing.'') else Inr b)"

section \<open>Lemmas\<close>

lemma obj_keys_delete: "obj_keys (map_delete m k) = filter (\<lambda>k'. k' \<noteq> k) (obj_keys m)"
  by (simp add: obj_keys_def map_keys_delete filter_sort conj_commute)

lemma obj_keys_delete_all: "obj_keys (foldl map_delete m ks) = filter (\<lambda>k. k \<notin> set ks) (obj_keys m)"
  by (induction ks arbitrary: m) (simp_all add: obj_keys_delete conj_commute)

lemma filter_not_take: "distinct xs \<Longrightarrow> filter (\<lambda>x. x \<notin> set (take n xs)) xs = drop n xs"
proof -
  assume d: "distinct xs"
  have "filter (\<lambda>x. x \<notin> set (take n xs)) (take n xs @ drop n xs) = drop n xs"
    using set_take_disj_set_drop_if_distinct [OF d order_refl, of n]
    by (auto simp: filter_empty_conv filter_id_conv simp del: append_take_drop_id)
  then show ?thesis by simp
qed

lemma obj_keys_trim:
  "map_ok m \<Longrightarrow> obj_keys (foldl map_delete m (all_but_last n (obj_keys m))) = drop (length (obj_keys m) - n) (obj_keys m)"
  by (simp add: obj_keys_delete_all all_but_last_def filter_not_take distinct_obj_keys)

lemma obj_keys_hd_delete: "map_ok m \<Longrightarrow> obj_keys m = k # ks \<Longrightarrow> obj_keys (map_delete m k) = ks"
  using distinct_obj_keys [of m] by (auto simp: obj_keys_delete filter_id_conv)

lemma orphan_simps [simp]:
  "dr_followups (dropOrphanRestorations d) = dr_followups d" "dr_pending (dropOrphanRestorations d) = dr_pending d"
  "dr_sent (dropOrphanRestorations d) = dr_sent d"
  by (simp_all add: dropOrphanRestorations_def)

definition owned :: "drafts \<Rightarrow> bool" where
  "owned d \<longleftrightarrow> (\<forall>(k, _) \<in> set (dr_restorations d). map_has (dr_followups d) k)"

lemma owned_drop [simp]: "owned (dropOrphanRestorations d)"
  by (auto simp: owned_def dropOrphanRestorations_def)

lemma shrink_spec:
  assumes "shrink d = Some b" "map_ok (dr_followups d)" "owned d" "map_ok (dr_restorations d)"
  shows "draft_bytes b \<le> MAX_COMPOSER_DRAFT_BYTES \<and> owned b \<and> dr_pending b = dr_pending d \<and> dr_sent b = dr_sent d
     \<and> map_ok (dr_followups b) \<and> map_ok (dr_restorations b) \<and> suffix (obj_keys (dr_followups b)) (obj_keys (dr_followups d))
     \<and> (\<forall>k. map_has (dr_followups b) k \<longrightarrow> map_get (dr_followups b) k = map_get (dr_followups d) k)"
  using assms
proof (induction d rule: shrink.induct)
  case (1 d)
  show ?case
  proof (cases "draft_bytes d > MAX_COMPOSER_DRAFT_BYTES")
    case False
    with 1(2-) show ?thesis by (simp add: shrink.simps [of d])
  next
    case True
    with 1(2) obtain k ks where k: "obj_keys (dr_followups d) = k # ks" "k \<noteq> []"
      by (auto simp: shrink.simps [of d] split: list.splits if_splits)
    let ?d = "dropOrphanRestorations (d\<lparr>dr_followups := map_delete (dr_followups d) k\<rparr>)"
    have s: "shrink ?d = Some b" using 1(2) True k by (simp add: shrink.simps [of d])
    have r: "map_ok (dr_restorations ?d)"
      using 1(5) by (simp add: dropOrphanRestorations_def map_ok_def distinct_map_filter)
    have "obj_keys (map_delete (dr_followups d) k) = ks" using 1(3) k(1) by (rule obj_keys_hd_delete)
    note keys = this
    have IH: "draft_bytes b \<le> MAX_COMPOSER_DRAFT_BYTES \<and> owned b \<and> dr_pending b = dr_pending d \<and> dr_sent b = dr_sent d
       \<and> map_ok (dr_followups b) \<and> map_ok (dr_restorations b) \<and> suffix (obj_keys (dr_followups b)) ks
       \<and> (\<forall>k'. map_has (dr_followups b) k' \<longrightarrow> map_get (dr_followups b) k' = map_get (map_delete (dr_followups d) k) k')"
      using 1(1) [OF True k s _ _ r] 1(3) keys by simp
    have "map_get (dr_followups b) k' = map_get (dr_followups d) k'" if "map_has (dr_followups b) k'" for k'
      using IH that by (cases "k' = k") (auto simp: map_has_iff)
    with IH k show ?thesis by (simp add: suffix_Cons)
  qed
qed

lemma boundedSent_length:
  "map_ok records \<Longrightarrow> length (boundedSentRecords records followups limit) \<le> limit"
proof -
  assume m: "map_ok records"
  let ?keys = "obj_keys records" and ?ev = "evicted_records records followups limit"
  have d: "distinct ?keys" using m by (rule distinct_obj_keys)
  have "mset (filter (\<lambda>k. \<not> protects records followups k) ?keys @ filter (protects records followups) ?keys) = mset ?keys"
    by (simp add: multiset_partition [of "mset ?keys" "protects records followups", symmetric] add.commute)
  then have perm: "distinct (filter (\<lambda>k. \<not> protects records followups k) ?keys @ filter (protects records followups) ?keys)"
    and len: "length (filter (\<lambda>k. \<not> protects records followups k) ?keys @ filter (protects records followups) ?keys) = length ?keys"
    using d mset_eq_imp_distinct_iff mset_eq_length by blast+
  have ev: "distinct ?ev" "set ?ev \<subseteq> set ?keys" "length ?ev = length ?keys - limit"
    using perm len by (auto simp: evicted_records_def Let_def dest!: in_set_takeD)
  have "length (filter (\<lambda>k. k \<notin> set ?ev) ?keys) = card (set ?keys - set ?ev)"
    using d by (simp add: distinct_card [symmetric] set_diff_eq)
  also have "\<dots> = length ?keys - length ?ev"
    using ev d distinct_card [OF d] by (simp add: card_Diff_subset distinct_card)
  finally show ?thesis using ev(3) by (auto simp: boundedSentRecords_def Let_def length_obj_keys)
qed

lemma boundedSent_ok: "map_ok records \<Longrightarrow> map_ok (boundedSentRecords records followups limit)"
  by (auto simp: boundedSentRecords_def Let_def map_ok_def comp_def distinct_obj_keys [unfolded map_ok_def])

section \<open>The drafts as a machine\<close>

definition draft_ok :: "drafts \<Rightarrow> bool" where
  "draft_ok d \<longleftrightarrow> map_ok (dr_followups d) \<and> map_ok (dr_restorations d) \<and> map_ok (dr_sent d) \<and> owned d
     \<and> length (dr_followups d) \<le> MAX_THREAD_FOLLOWUP_DRAFTS \<and> length (dr_sent d) \<le> MAX_THREAD_FOLLOWUP_DRAFTS
     \<and> draft_bytes d \<le> MAX_COMPOSER_DRAFT_BYTES"

definition maps_ok :: "drafts \<Rightarrow> bool" where
  "maps_ok d \<longleftrightarrow> map_ok (dr_followups d) \<and> map_ok (dr_restorations d) \<and> map_ok (dr_sent d)"

lemma map_ok_delete_all: "map_ok m \<Longrightarrow> map_ok (foldl map_delete m ks)"
  by (rule jsm.invar_del_all)

lemma boundedState_spec:
  assumes "boundedState d = Some b" "maps_ok d"
  shows "draft_ok b \<and> dr_pending b = dr_pending d
     \<and> suffix (obj_keys (dr_followups b)) (obj_keys (dr_followups d))
     \<and> (\<forall>k. map_has (dr_followups b) k \<longrightarrow> map_get (dr_followups b) k = map_get (dr_followups d) k)"
proof -
  let ?old = "all_but_last MAX_THREAD_FOLLOWUP_DRAFTS (obj_keys (dr_followups d))"
  let ?kept = "foldl map_delete (dr_followups d) ?old"
  let ?sent = "boundedSentRecords (dr_sent d) ?kept MAX_THREAD_FOLLOWUP_DRAFTS"
  let ?d = "dropOrphanRestorations (d\<lparr>dr_followups := ?kept, dr_sent := ?sent\<rparr>)"
  have m: "map_ok (dr_followups d)" "map_ok (dr_sent d)" "map_ok (dr_restorations ?d)"
    using assms(2) by (simp_all add: maps_ok_def dropOrphanRestorations_def map_ok_def distinct_map_filter)
  have keys: "obj_keys ?kept = drop (length (obj_keys (dr_followups d)) - MAX_THREAD_FOLLOWUP_DRAFTS) (obj_keys (dr_followups d))"
    by (rule obj_keys_trim [OF m(1)])
  have s: "shrink ?d = Some b" using assms(1) by (simp add: boundedState_def Let_def)
  note b = shrink_spec [OF s _ owned_drop m(3), simplified, OF map_ok_delete_all [OF m(1)]]
  have "suffix (obj_keys ?kept) (obj_keys (dr_followups d))" by (simp add: keys suffix_drop)
  with b have suf: "suffix (obj_keys (dr_followups b)) (obj_keys (dr_followups d))" by (auto intro: suffix_order.trans)
  have "length (obj_keys (dr_followups b)) \<le> length (obj_keys ?kept)" using b by (simp add: suffix_length_le)
  then have "length (dr_followups b) \<le> MAX_THREAD_FOLLOWUP_DRAFTS" by (simp add: keys length_obj_keys)
  moreover have "map_get ?kept k = map_get (dr_followups d) k" if "map_has ?kept k" for k
    using that jsm.get_del_all [OF m(1), of ?old k] by (auto simp: map_has_iff split: if_splits)
  ultimately show ?thesis
    using b suf boundedSent_ok [OF m(2)] boundedSent_length [OF m(2)] by (auto simp: draft_ok_def map_has_iff)
qed

datatype draft_call =
    PersistPending string "string option" | ClearPending
  | PersistFollowup string string bool jsval | ClearFollowup string
  | PersistSent jsval "sent_record option"
  | PersistDurably string "string option" bool

fun draft_step :: "draft_call \<Rightarrow> drafts \<Rightarrow> drafts" where
  "draft_step (PersistPending t s) d = persistPendingNewThreadDraft t s d"
| "draft_step ClearPending d = clearPendingNewThreadDraft d"
| "draft_step (PersistFollowup k t p r) d = persistThreadFollowupDraft k t p r d"
| "draft_step (ClearFollowup k) d = clearThreadFollowupDraft k d"
| "draft_step (PersistSent i r) d = persistSentThreadFollowup i r d"
| "draft_step (PersistDurably t s i) d = (case persistPendingNewThreadDraftDurably t s i d of Inl _ \<Rightarrow> d | Inr d' \<Rightarrow> d')"

lemma writeState_ok: "draft_ok d \<Longrightarrow> maps_ok v \<Longrightarrow> draft_ok (writeState d v)"
  by (auto simp: writeState_def boundedState_spec split: option.splits)

lemma maps_ok_updates:
  assumes "draft_ok d"
  shows "maps_ok (d\<lparr>dr_pending := p\<rparr>)" "maps_ok (with_followup k t r d)" "maps_ok (without_followup k d)"
    "maps_ok (d\<lparr>dr_sent := case rec of None \<Rightarrow> map_delete (dr_sent d) i | Some r \<Rightarrow> map_set (map_delete (dr_sent d) i) i r\<rparr>)"
  using assms
  by (auto simp: draft_ok_def maps_ok_def with_followup_def without_followup_def map_ok_delete_all Let_def split: option.splits)

lemma draft_step_ok: "draft_ok d \<Longrightarrow> draft_ok (draft_step c d)"
  by (cases c)
    (auto simp: persistPendingNewThreadDraft_def clearPendingNewThreadDraft_def persistThreadFollowupDraft_def
      clearThreadFollowupDraft_def persistSentThreadFollowup_def persistPendingNewThreadDraftDurably_def Let_def
      writeState_ok maps_ok_updates boundedState_spec split: option.splits)

interpretation dm: machine draft_step draft_ok
  by unfold_locales (rule draft_step_ok)

lemma emptyState_ok: "draft_ok emptyState"
  by (simp add: draft_ok_def emptyState_def owned_def draft_bytes_def json_drafts_def json_dict_def json_object_def
      json_pending_def obj_keys_def json_string_def json_char_def utf8_length_def MAX_COMPOSER_DRAFT_BYTES_def)

section \<open>Properties\<close>

text \<open>C6. Whatever is typed, sent or cleared, the stored drafts keep their bounds: at most 256 follow-up drafts and
  256 sent records, no restoration without its draft, and at most a megabyte of serialized text.\<close>

theorem drafts_bounded:
  "let d = fold draft_step calls emptyState in
     length (dr_followups d) \<le> 256 \<and> length (dr_sent d) \<le> 256 \<and> draft_bytes d \<le> 1048576
     \<and> set (map_keys (dr_restorations d)) \<subseteq> set (map_keys (dr_followups d))"
proof -
  have "draft_ok (fold draft_step calls emptyState)" by (rule dm.run_inv) (rule emptyState_ok)
  then show ?thesis
    by (auto simp: Let_def draft_ok_def owned_def MAX_COMPOSER_DRAFT_BYTES_def MAX_THREAD_FOLLOWUP_DRAFTS_def map_has_def map_keys_def)
qed

lemma suffix_last: "suffix xs ys \<Longrightarrow> xs \<noteq> [] \<Longrightarrow> last xs = last ys"
  by (auto simp: suffix_def)

lemma with_followup_keys:
  assumes "map_ok (dr_followups d)" "list_all (\<lambda>k. \<not> is_index k) (map_keys (dr_followups d))" "\<not> is_index scopeKey"
  shows "obj_keys (dr_followups (with_followup scopeKey text r d)) \<noteq> []"
    "last (obj_keys (dr_followups (with_followup scopeKey text r d))) = scopeKey"
    "map_get (dr_followups (with_followup scopeKey text r d)) scopeKey = Some text"
proof -
  let ?f = "map_set (map_delete (dr_followups d) scopeKey) scopeKey text"
  let ?n = "length (obj_keys ?f) - MAX_THREAD_FOLLOWUP_DRAFTS"
  have keys: "obj_keys ?f = filter (\<lambda>k. k \<noteq> scopeKey) (map_keys (dr_followups d)) @ [scopeKey]"
    using assms(2,3) by (subst obj_keys_no_index) (auto simp: map_keys_set map_keys_delete list_all_iff)
  have w: "dr_followups (with_followup scopeKey text r d) = foldl map_delete ?f (all_but_last MAX_THREAD_FOLLOWUP_DRAFTS (obj_keys ?f))"
    by (simp add: with_followup_def Let_def)
  have ok: "map_ok ?f" using assms(1) by simp
  have dr: "obj_keys (dr_followups (with_followup scopeKey text r d)) = drop ?n (obj_keys ?f)"
    unfolding w by (rule obj_keys_trim [OF ok])
  moreover have "?n < length (obj_keys ?f)" by (simp add: keys MAX_THREAD_FOLLOWUP_DRAFTS_def)
  ultimately show ne: "obj_keys (dr_followups (with_followup scopeKey text r d)) \<noteq> []"
    and l: "last (obj_keys (dr_followups (with_followup scopeKey text r d))) = scopeKey"
    by (simp_all add: keys)
  then have "map_has (dr_followups (with_followup scopeKey text r d)) scopeKey"
    by (metis last_in_set map_has_keys set_obj_keys)
  then show "map_get (dr_followups (with_followup scopeKey text r d)) scopeKey = Some text"
    using jsm.get_del_all [OF ok, of "all_but_last MAX_THREAD_FOLLOWUP_DRAFTS (obj_keys ?f)" scopeKey]
    by (auto simp: w map_has_iff split: if_splits)
qed

text \<open>The draft just typed is the last to be dropped. With scope keys that are not array indices, once the
  write is accepted either the draft reads back as typed, or no follow-up draft is left at all (it alone did not
  fit); the drafts that stay are the youngest.\<close>

theorem typed_draft_is_kept:
  assumes "draft_ok stored" and "list_all (\<lambda>k. \<not> is_index k) (map_keys (dr_followups stored))"
    and "\<not> is_index scopeKey" "scopeKey \<noteq> []" "text \<noteq> []"
    and "boundedState (with_followup scopeKey text restorationId stored) = Some b"
  shows "persistThreadFollowupDraft scopeKey text False restorationId stored = b
     \<and> (dr_followups b = [] \<or> threadFollowupDraft scopeKey b = Some text)
     \<and> suffix (obj_keys (dr_followups b)) (obj_keys (dr_followups (with_followup scopeKey text restorationId stored)))"
proof -
  let ?d = "with_followup scopeKey text restorationId stored"
  have ok: "map_ok (dr_followups stored)" using assms(1) by (simp add: draft_ok_def)
  note w = with_followup_keys [OF ok assms(2,3), of "text" restorationId]
  have "maps_ok ?d" using assms(1) by (rule maps_ok_updates)
  with assms(6) have b: "draft_ok b \<and> dr_pending b = dr_pending ?d \<and> suffix (obj_keys (dr_followups b)) (obj_keys (dr_followups ?d))
     \<and> (\<forall>k. map_has (dr_followups b) k \<longrightarrow> map_get (dr_followups b) k = map_get (dr_followups ?d) k)"
    by (rule boundedState_spec)
  have "threadFollowupDraft scopeKey b = Some text" if "dr_followups b \<noteq> []"
  proof -
    have "obj_keys (dr_followups b) \<noteq> []" using that by (metis length_obj_keys length_0_conv)
    then have "scopeKey \<in> set (obj_keys (dr_followups b))" using b w(2) suffix_last last_in_set by metis
    then have "map_has (dr_followups b) scopeKey" by (simp add: map_has_keys)
    with b w(3) assms(4) show ?thesis by (simp add: threadFollowupDraft_def)
  qed
  then show ?thesis
    using assms(4-6) b by (auto simp: persistThreadFollowupDraft_def writeState_def)
qed

lemma demo_typed_bounded:
  "boundedState (with_followup ''1:2'' ''hi'' JNull emptyState) = Some (with_followup ''1:2'' ''hi'' JNull emptyState)"
  by (simp add: boundedState_def with_followup_def emptyState_def all_but_last_def MAX_THREAD_FOLLOWUP_DRAFTS_def
      boundedSentRecords_def dropOrphanRestorations_def obj_keys_def is_index_def is_digit_def map_delete_def
      shrink.simps draft_bytes_def json_drafts_def json_dict_def json_object_def json_pending_def json_string_def
      json_char_def utf8_length_def MAX_COMPOSER_DRAFT_BYTES_def map_get_def Let_def)

theorem typed_draft_is_kept_witness:
  "threadFollowupDraft ''1:2'' (persistThreadFollowupDraft ''1:2'' ''hi'' False JNull emptyState) = Some ''hi''"
proof -
  have k: "list_all (\<lambda>k. \<not> is_index k) (map_keys (dr_followups emptyState))" "\<not> is_index ''1:2''"
    by (simp_all add: emptyState_def is_index_def is_digit_def)
  have ne: "dr_followups (with_followup ''1:2'' ''hi'' JNull emptyState) \<noteq> []"
    by (simp add: with_followup_def emptyState_def all_but_last_def MAX_THREAD_FOLLOWUP_DRAFTS_def obj_keys_def
        map_delete_def Let_def)
  show ?thesis
    using typed_draft_is_kept [OF emptyState_ok k _ _ demo_typed_bounded] ne by auto
qed

text \<open>Over the cap the records that protect no draft go before any that does: if a record that protects a draft
  is dropped, every kept record protects one. Exactly the excess is dropped, and the kept records are unchanged.\<close>

theorem protecting_records_go_last:
  assumes "map_ok records" and "k \<in> set (evicted_records records followups limit)" and "protects records followups k"
  shows "(\<forall>k'. map_has (boundedSentRecords records followups limit) k' \<longrightarrow> protects records followups k')
     \<and> length (boundedSentRecords records followups limit) \<le> limit
     \<and> (\<forall>k' r. map_get (boundedSentRecords records followups limit) k' = Some r \<longrightarrow> map_get records k' = Some r)"
proof -
  let ?keys = "obj_keys records" and ?p = "protects records followups" and ?ev = "evicted_records records followups limit"
  let ?un = "filter (\<lambda>k. \<not> ?p k) ?keys"
  have "k \<in> set (take (length ?keys - limit) (?un @ filter ?p ?keys))"
    using assms(2) by (simp add: evicted_records_def Let_def)
  then have "k \<in> set (take (length ?keys - limit - length ?un) (filter ?p ?keys))"
    using assms(3) by (auto dest: in_set_takeD)
  then have "length ?un \<le> length ?keys - limit" by (cases "length ?keys - limit - length ?un") auto
  then have "set ?un \<subseteq> set ?ev" by (simp add: evicted_records_def Let_def)
  moreover have over: "\<not> length ?keys \<le> limit" using assms(2) by (auto simp: evicted_records_def Let_def)
  ultimately have "\<forall>k'. map_has (boundedSentRecords records followups limit) k' \<longrightarrow> ?p k'"
    by (auto simp: boundedSentRecords_def map_has_def Let_def)
  moreover have "map_get records k' = Some r" if "map_get (boundedSentRecords records followups limit) k' = Some r" for k' r
    using map_get_in [OF that] over by (auto simp: boundedSentRecords_def Let_def map_has_keys [symmetric] map_has_iff)
  ultimately show ?thesis using boundedSent_length [OF assms(1)] by blast
qed

definition demo_sent :: "string \<Rightarrow> bool \<Rightarrow> sent_record" where
  "demo_sent scope edited = \<lparr>sr_scopeKey = scope, sr_originScopeKey = scope, sr_textDigest = ''2:0'', sr_edited = edited, sr_sends = 1\<rparr>"

theorem protecting_records_go_last_witness:
  "length (boundedSentRecords [(''4'', demo_sent ''4:1'' True), (''9'', demo_sent ''9:1'' True)]
     [(''4:1'', ''a''), (''9:1'', ''b'')] 1) \<le> 1"
proof -
  let ?r = "[(''4'', demo_sent ''4:1'' True), (''9'', demo_sent ''9:1'' True)]" and ?f = "[(''4:1'', ''a''), (''9:1'', ''b'')]"
  have k: "obj_keys ?r = [''4'', ''9'']"
    by (simp add: obj_keys_def is_index_def is_digit_def read_digits_def digit_val_def)
  have p: "protects ?r ?f ''4''" "protects ?r ?f ''9''" by (simp_all add: protects_def map_get_def demo_sent_def)
  have "''4'' \<in> set (evicted_records ?r ?f 1)" by (simp add: evicted_records_def k p Let_def)
  from protecting_records_go_last [OF _ this p(1)] show ?thesis by (simp add: map_ok_def)
qed

text \<open>The order among equals is that of \<open>Object.keys\<close>: thread ids are array indices, so the record of the smallest
  thread id goes first, not the oldest. Here thread 7 sent first and thread 3 last, and thread 3's record goes.\<close>

lemma sent_records_evict_newest:
  "boundedSentRecords (map_set (map_set [] ''7'' (demo_sent ''7:1'' False)) ''3'' (demo_sent ''3:1'' False)) [] 1
     = [(''7'', demo_sent ''7:1'' False)]"
  by (simp add: boundedSentRecords_def evicted_records_def protects_def obj_keys_def is_index_def is_digit_def
      read_digits_def digit_val_def map_get_def demo_sent_def)

text \<open>The digest is computed without loss: its number is below \<open>2^53\<close>, so the double arithmetic of the source is
  exact, and it ignores white space around the text.\<close>

theorem digest_exact:
  "cyrb53 value < 2 ^ 53 \<and> followupTextDigest (Some (unit_trim text)) = followupTextDigest (Some text)"
proof
  have "unat (2097151 AND h :: 32 word) \<le> 2097151" for h
  proof -
    have "2097151 AND h \<le> (2097151 :: 32 word)" by (rule word_and_le2)
    then show ?thesis by (simp add: word_le_nat_alt)
  qed
  moreover have "unat (h :: 32 word) < 4294967296" for h
    using unsigned_less [of h] by simp
  ultimately have "4294967296 * unat (2097151 AND h2 :: 32 word) + unat (h1 :: 32 word) < 2 ^ 53" for h1 h2
    using add_less_le_mono [of "unat h1" 4294967296 "4294967296 * unat (2097151 AND h2)" "4294967296 * 2097151"]
    by (simp add: add.commute mult_le_mono2)
  then show "cyrb53 value < 2 ^ 53" by (simp add: cyrb53_def Let_def split: prod.splits)
  have "unit_trim (unit_trim text) = unit_trim text"
  proof -
    have idem: "dropWhile P (dropWhile P xs) = dropWhile P xs" for P and xs :: units by (induction xs) auto
    have keep: "dropWhile P (rev (dropWhile P (rev (dropWhile P xs)))) = rev (dropWhile P (rev (dropWhile P xs)))"
      for P and xs :: units
    proof (cases "dropWhile P xs")
      case Nil
      show ?thesis unfolding Nil by simp
    next
      case (Cons y ys)
      then have ny: "\<not> P y" using hd_dropWhile [of P xs] by auto
      then have "dropWhile P (rev ys @ [y]) = dropWhile P (rev ys) @ [y]"
        by (cases "\<forall>x \<in> set ys. P x") (simp_all add: dropWhile_append)
      with Cons ny show ?thesis by simp
    qed
    show ?thesis by (simp add: unit_trim_def keep idem)
  qed
  then show "followupTextDigest (Some (unit_trim text)) = followupTextDigest (Some text)"
    by (simp add: followupTextDigest_def)
qed

end
