(* ===== verification/FollowupRequests.thy ===== *)
theory FollowupRequests
  imports JsCollections
begin

text \<open>
  The request bodies of the composer (\<open>desktop/renderer/src/interaction-request-model.js\<close>): the body of a
  new thread, the receipt id that an unchanged first Send reuses, and the input ids of follow-up
  sends. \<open>JSON.stringify\<close> of a request is injective on the values these fields take, so a serialized
  request is kept as the request itself. \<open>crypto.randomUUID\<close> is a parameter: the id it returns at the
  call. The lemmas: an unchanged request keeps its id, an edited one gets a new one, and no two pending
  sends share an id.
\<close>

section \<open>New threads\<close>

text \<open>An empty string and a missing value are both falsy; a field is omitted in either case.\<close>

definition truthy_opt :: "string option \<Rightarrow> string option" where
  "truthy_opt s = (if truthy_str s then s else None)"

record thread_input =
  ti_title :: string
  ti_initialMessage :: string
  ti_permissionProfileId :: jsval
  ti_projectId :: "string option"
  ti_harnessId :: string
  ti_modelSelection :: jsval
  ti_workingDirectory :: "string option"
  ti_creationRequestId :: "string option"
  ti_expectedCheckout :: "string option"

record thread_body =
  tb_title :: string
  tb_initialMessage :: string
  tb_permissionProfileId :: jsval
  tb_harnessId :: string
  tb_modelSelection :: jsval
  tb_projectId :: "string option"
  tb_workingDirectory :: "string option"
  tb_creationRequestId :: "string option"
  tb_expectedCheckout :: "string option"

definition newThreadRequestBody :: "thread_input \<Rightarrow> thread_body" where
  "newThreadRequestBody i =
     \<lparr>tb_title = ti_title i, tb_initialMessage = ti_initialMessage i,
      tb_permissionProfileId = ti_permissionProfileId i, tb_harnessId = ti_harnessId i,
      tb_modelSelection = ti_modelSelection i, tb_projectId = truthy_opt (ti_projectId i),
      tb_workingDirectory = (if truthy_str (ti_projectId i) then truthy_opt (ti_workingDirectory i) else None),
      tb_creationRequestId = truthy_opt (ti_creationRequestId i),
      tb_expectedCheckout = truthy_opt (ti_expectedCheckout i)\<rparr>"

text \<open>The mutable draft scope: the receipt id of the first Send and the intent it was for.\<close>

record thread_scope =
  sc_creationRequestId :: "string option"
  sc_creationRequestPayload :: "thread_body option"

definition request_intent :: "thread_body \<Rightarrow> thread_body" where
  "request_intent b = b\<lparr>tb_creationRequestId := None, tb_expectedCheckout := None\<rparr>"

definition stableNewThreadRequest :: "string \<Rightarrow> thread_scope \<Rightarrow> thread_input \<Rightarrow> thread_body \<times> thread_scope" where
  "stableNewThreadRequest newId scope i =
     (let body = (newThreadRequestBody i)\<lparr>tb_creationRequestId := None\<rparr>;
          payload = request_intent body;
          keep = truthy_str (sc_creationRequestId scope)
            \<and> (sc_creationRequestPayload scope = None \<or> sc_creationRequestPayload scope = Some payload);
          requestId = (if keep then sc_creationRequestId scope else Some newId) in
      (body\<lparr>tb_creationRequestId := requestId\<rparr>,
       scope\<lparr>sc_creationRequestId := requestId, sc_creationRequestPayload := Some payload\<rparr>))"

section \<open>Follow-ups\<close>

record followup_body =
  fb_text :: string
  fb_inputId :: string
  fb_contexts :: "jsval list"
  fb_contextConfirmationIds :: "jsval list"
  fb_modelSelection :: jsval
  fb_inputDraftRevision :: "jsval option"

definition followupRequestBody ::
  "string \<Rightarrow> jsval \<Rightarrow> string option \<Rightarrow> jsval list \<Rightarrow> jsval list \<Rightarrow> jsval \<Rightarrow> followup_body result" where
  "followupRequestBody text modelSelection inputId contexts confirmations revision =
     (if \<not> truthy_str inputId then Inl (Error ''A stable inputId is required for a follow-up send.'')
      else Inr \<lparr>fb_text = text, fb_inputId = the inputId, fb_contexts = contexts,
        fb_contextConfirmationIds = confirmations, fb_modelSelection = modelSelection,
        fb_inputDraftRevision = if is_nullish revision then None else Some revision\<rparr>)"

record followup_content =
  fc_threadId :: string
  fc_text :: string
  fc_modelSelection :: jsval
  fc_contexts :: "jsval list"
  fc_contextConfirmationIds :: "jsval list"
  fc_inputDraftRevision :: jsval

type_synonym pending_sends = "(followup_content, string) jsmap"

definition followup_content_of ::
  "jsval \<Rightarrow> string \<Rightarrow> jsval \<Rightarrow> jsval list \<Rightarrow> jsval list \<Rightarrow> jsval \<Rightarrow> followup_content" where
  "followup_content_of threadId text modelSelection contexts confirmations revision =
     \<lparr>fc_threadId = js_String threadId, fc_text = text, fc_modelSelection = modelSelection, fc_contexts = contexts,
      fc_contextConfirmationIds = confirmations, fc_inputDraftRevision = revision\<rparr>"

definition stableFollowupInputId :: "string \<Rightarrow> followup_content \<Rightarrow> pending_sends \<Rightarrow> string \<times> pending_sends" where
  "stableFollowupInputId uuid content pending =
     (case map_get pending content of
        Some p \<Rightarrow> if p \<noteq> [] then (p, pending) else (uuid, map_set pending content uuid)
      | None \<Rightarrow> (uuid, map_set pending content uuid))"

fun markFollowupSendSucceeded :: "string \<Rightarrow> pending_sends \<Rightarrow> pending_sends" where
  "markFollowupSendSucceeded inputId [] = []"
| "markFollowupSendSucceeded inputId ((content, p) # rest) =
     (if p = inputId then rest else (content, p) # markFollowupSendSucceeded inputId rest)"

section \<open>The pending sends as a machine\<close>

datatype send_event = AskId followup_content | Succeeded string

text \<open>\<open>crypto.randomUUID\<close> never repeats: the supply is a stream of ids, of which the state has used the first ones.\<close>

definition send_step :: "(nat \<Rightarrow> string) \<Rightarrow> send_event \<Rightarrow> pending_sends \<times> nat \<Rightarrow> pending_sends \<times> nat" where
  "send_step uuid ev st =
     (case ev of
        AskId c \<Rightarrow>
          (case stableFollowupInputId (uuid (snd st)) c (fst st) of (_, pending) \<Rightarrow>
             (pending, if map_has (fst st) c then snd st else snd st + 1))
      | Succeeded i \<Rightarrow> (markFollowupSendSucceeded i (fst st), snd st))"

definition sends_ok :: "(nat \<Rightarrow> string) \<Rightarrow> pending_sends \<times> nat \<Rightarrow> bool" where
  "sends_ok uuid st \<longleftrightarrow> map_ok (fst st) \<and> distinct (map_values (fst st)) \<and> set (map_values (fst st)) \<subseteq> uuid ` {..<snd st}"

definition fresh_ids :: "(nat \<Rightarrow> string) \<Rightarrow> bool" where
  "fresh_ids uuid \<longleftrightarrow> inj uuid \<and> (\<forall>n. uuid n \<noteq> [])"

lemma mark_filter:
  "distinct (map snd m) \<Longrightarrow> markFollowupSendSucceeded i m = filter (\<lambda>(_, p). p \<noteq> i) m"
proof (induction m)
  case (Cons e m)
  then show ?case by (cases e) (auto simp: filter_id_conv image_iff split_beta intro!: filter_True [symmetric])
qed simp

lemma mark_get:
  assumes "distinct (map snd m)" "map_ok m"
  shows "map_get (markFollowupSendSucceeded i m) c = (if map_get m c = Some i then None else map_get m c)"
proof -
  have "map_ok (filter (\<lambda>(_, p). p \<noteq> i) m)" using assms(2) by (simp add: map_ok_def distinct_map_filter)
  then have iff: "map_get (markFollowupSendSucceeded i m) c = Some v \<longleftrightarrow> v \<noteq> i \<and> map_get m c = Some v" for v
    using assms by (auto simp: mark_filter map_get_iff_in)
  show ?thesis
  proof (cases "map_get (markFollowupSendSucceeded i m) c")
    case None
    then have "\<not> (v \<noteq> i \<and> map_get m c = Some v)" for v using iff [of v] by simp
    with None show ?thesis by (cases "map_get m c") auto
  next
    case (Some v)
    with iff [of v] show ?thesis by simp
  qed
qed

lemma values_nonempty: "fresh_ids uuid \<Longrightarrow> sends_ok uuid (m, n) \<Longrightarrow> map_get m c = Some p \<Longrightarrow> p \<noteq> []"
proof -
  assume f: "fresh_ids uuid" and ok: "sends_ok uuid (m, n)" and "map_get m c = Some p"
  then have "(c, p) \<in> set m" by (simp add: map_get_in)
  then have "p \<in> set (map_values m)" by (force simp: map_values_def)
  then obtain k where "p = uuid k" using ok by (auto simp: sends_ok_def)
  with f show "p \<noteq> []" by (simp add: fresh_ids_def)
qed

lemma ask_present: "fresh_ids uuid \<Longrightarrow> sends_ok uuid (m, n) \<Longrightarrow> map_get m c = Some p \<Longrightarrow> stableFollowupInputId u c m = (p, m)"
  using values_nonempty by (auto simp: stableFollowupInputId_def)

lemma ask_absent: "map_get m c = None \<Longrightarrow> stableFollowupInputId u c m = (u, m @ [(c, u)])"
  by (simp add: stableFollowupInputId_def map_set_absent map_has_iff)

lemma send_step_ok:
  assumes "fresh_ids uuid" "sends_ok uuid st" shows "sends_ok uuid (send_step uuid ev st)"
proof (cases ev)
  case (AskId c)
  obtain m n where st: "st = (m, n)" by (cases st)
  show ?thesis
  proof (cases "map_get m c")
    case None
    have "uuid n \<notin> uuid ` {..<n}" using assms(1) by (auto simp: fresh_ids_def inj_def)
    moreover have "uuid ` {..<n} \<subseteq> uuid ` {..<n + 1}" by auto
    moreover have "c \<notin> fst ` set m" using None by (auto simp: map_get_def map_of_eq_None_iff)
    ultimately show ?thesis
      using assms(2) None by (auto simp: send_step_def AskId st ask_absent map_has_iff sends_ok_def map_ok_def map_values_def)
  next
    case (Some p)
    with assms show ?thesis by (simp add: send_step_def AskId st ask_present map_has_iff)
  qed
next
  case (Succeeded i)
  with assms(2) show ?thesis
    by (cases st) (auto simp: send_step_def sends_ok_def map_values_def map_ok_def mark_filter distinct_map_filter)
qed

text \<open>The invariant holds under a fresh supply of ids; a supply that is not fresh makes no promise.\<close>

definition sends_inv :: "(nat \<Rightarrow> string) \<Rightarrow> pending_sends \<times> nat \<Rightarrow> bool" where
  "sends_inv uuid st \<longleftrightarrow> (fresh_ids uuid \<longrightarrow> sends_ok uuid st)"

interpretation sm: machine "send_step uuid" "sends_inv uuid" for uuid
  by unfold_locales (simp add: sends_inv_def send_step_ok)

section \<open>Properties\<close>

text \<open>Follow-up sends are idempotent for the server: in every reachable state no two pending sends share an
  input id, asking again for the same content returns the same id, and once the send succeeded the content
  is forgotten while every other pending send keeps its id.\<close>

theorem followup_ids_stable:
  assumes "fresh_ids uuid" and "fold (send_step uuid) events ([], 0) = (pending, n)"
    and "stableFollowupInputId (uuid n) content pending = (inputId, pending')"
  shows "distinct (map_values pending) \<and> stableFollowupInputId anyId content pending' = (inputId, pending')
     \<and> map_get (markFollowupSendSucceeded inputId pending') content = None
     \<and> (\<forall>other. other \<noteq> content \<longrightarrow> map_get (markFollowupSendSucceeded inputId pending') other = map_get pending other)"
proof -
  have "sends_inv uuid ([], 0)" by (simp add: sends_inv_def sends_ok_def map_values_def)
  from sm.run_inv [OF this, of events] assms(1,2) have ok: "sends_ok uuid (pending, n)" by (simp add: sends_inv_def)
  define k where "k = (if map_has pending content then n else n + 1)"
  have ok': "sends_ok uuid (pending', k)"
    using send_step_ok [OF assms(1) ok, of "AskId content"] assms(3)
    by (simp only: send_step_def k_def send_event.case fst_conv snd_conv prod.case)
  have got: "map_get pending' content = Some inputId"
    and others: "other \<noteq> content \<Longrightarrow> map_get pending' other = map_get pending other" for other
    using assms(3) by (auto simp: stableFollowupInputId_def split: option.splits if_splits)
  have d: "distinct (map snd pending')" "map_ok pending'" using ok' by (simp_all add: sends_ok_def map_values_def)
  note mark = mark_get [OF d, of inputId]
  have inj: "map_get pending' other \<noteq> Some inputId" if "other \<noteq> content" for other
  proof
    assume "map_get pending' other = Some inputId"
    then have ins: "(other, inputId) \<in> set pending'" "(content, inputId) \<in> set pending'"
      using got by (simp_all add: map_get_in)
    have "inj_on snd (set pending')" using d(1) by (simp add: distinct_map)
    from inj_onD [OF this _ ins] have "(other, inputId) = (content, inputId)" by simp
    with that show False by simp
  qed
  have "map_get (markFollowupSendSucceeded inputId pending') other = map_get pending other" if "other \<noteq> content" for other
    using mark [of other] inj [OF that] others [OF that] by simp
  with mark [of content] got ask_present [OF assms(1) ok' got] ok show ?thesis by (simp add: sends_ok_def)
qed

definition demo_content :: followup_content where
  "demo_content = followup_content_of (JNum 1) ''hi'' JNull [] [] JNull"

definition demo_uuid :: "nat \<Rightarrow> string" where
  "demo_uuid n = show_nat n"

theorem followup_ids_stable_witness:
  "stableFollowupInputId ''other'' demo_content (snd (stableFollowupInputId (demo_uuid 0) demo_content []))
     = (demo_uuid 0, [(demo_content, demo_uuid 0)])"
proof -
  have f: "fresh_ids demo_uuid" by (simp add: fresh_ids_def demo_uuid_def inj_def)
  have s: "stableFollowupInputId (demo_uuid 0) demo_content [] = (demo_uuid 0, [(demo_content, demo_uuid 0)])"
    by (simp add: stableFollowupInputId_def)
  have "fold (send_step demo_uuid) [] ([], 0) = ([], 0)" by simp
  from followup_ids_stable [OF f this s, of "''other''"] s show ?thesis by simp
qed

text \<open>The receipt of a first Send: sending the same request again keeps its id, and changing the request, except
  for the expected checkout, makes a new one. The id sent is the id kept in the scope.\<close>

theorem first_send_receipt:
  assumes "stableNewThreadRequest id1 scope i = (b1, scope1)" and "stableNewThreadRequest id2 scope1 j = (b2, scope2)"
    and "id1 \<noteq> []"
  shows "tb_creationRequestId b2 = sc_creationRequestId scope2 \<and> tb_creationRequestId b1 = sc_creationRequestId scope1
     \<and> (request_intent (newThreadRequestBody j) = request_intent (newThreadRequestBody i)
          \<longrightarrow> tb_creationRequestId b2 = tb_creationRequestId b1)
     \<and> (request_intent (newThreadRequestBody j) \<noteq> request_intent (newThreadRequestBody i)
          \<longrightarrow> tb_creationRequestId b2 = Some id2)"
  using assms by (auto simp: stableNewThreadRequest_def Let_def request_intent_def truthy_str_def)

definition demo_input :: thread_input where
  "demo_input = \<lparr>ti_title = ''t'', ti_initialMessage = ''m'', ti_permissionProfileId = JNull, ti_projectId = None,
     ti_harnessId = ''h'', ti_modelSelection = JNull, ti_workingDirectory = None, ti_creationRequestId = None,
     ti_expectedCheckout = None\<rparr>"

theorem first_send_receipt_witness:
  "tb_creationRequestId (fst (stableNewThreadRequest ''b''
      (snd (stableNewThreadRequest ''a'' \<lparr>sc_creationRequestId = None, sc_creationRequestPayload = None\<rparr> demo_input)) demo_input))
   = tb_creationRequestId (fst (stableNewThreadRequest ''a'' \<lparr>sc_creationRequestId = None, sc_creationRequestPayload = None\<rparr> demo_input))"
proof -
  let ?scope = "\<lparr>sc_creationRequestId = None, sc_creationRequestPayload = None\<rparr>"
  obtain b1 scope1 where r1: "stableNewThreadRequest ''a'' ?scope demo_input = (b1, scope1)"
    by (cases "stableNewThreadRequest ''a'' ?scope demo_input")
  obtain b2 scope2 where r2: "stableNewThreadRequest ''b'' scope1 demo_input = (b2, scope2)"
    by (cases "stableNewThreadRequest ''b'' scope1 demo_input")
  have "tb_creationRequestId b2 = tb_creationRequestId b1" using first_send_receipt [OF r1 r2] by auto
  then show ?thesis by (simp only: r1 r2 fst_conv snd_conv)
qed

end
