(* ===== verification/Approval.thy ===== *)
theory Approval
  imports ProductRows
begin

text \<open>
  The approval requests of a thread (\<open>desktop/renderer/src/approval-model.js\<close>): which receipts are valid,
  which are pending or history, in which order the dock shows them, and how the keyboard moves through the
  queue. \<open>String.prototype.localeCompare\<close> depends on the collation of the platform; it is the parameter
  \<open>lc\<close>, and the ordering lemmas assume that it is a total preorder, which the specification of
  \<open>localeCompare\<close> requires of every collation. The lemmas: a pending request is valid, unanswered, unique
  and owned by a waiting run, the queue is sorted, and its keys form a cycle.
\<close>

section \<open>Receipts\<close>

record approval_action =
  aa_kind :: string
  aa_command :: jsval
  aa_action :: jsval
  aa_workingDirectory :: jsval
  aa_networkDestination :: jsval
  aa_affectedFiles :: "jsval list option"

record approval_correlation =
  ac_threadId :: jsval
  ac_interactionId :: jsval
  ac_completeCallId :: jsval
  ac_harnessSessionId :: jsval

record approval_request =
  aq_requestId :: jsval
  aq_correlation :: "approval_correlation option"
  aq_title :: jsval
  aq_reason :: jsval
  aq_action :: "approval_action option"
  aq_scopeKeys :: "jsval list option"
  aq_scopeDescription :: jsval
  aq_createdAt :: jsval

record approval_resolution =
  an_outcome :: string
  an_decision :: "string option"
  an_resolvedAt :: "string option"

record approval_receipt =
  ap_request :: "approval_request option"
  ap_resolution :: "approval_resolution option"

definition nonEmpty :: "jsval \<Rightarrow> bool" where
  "nonEmpty v = (case v of JStr s \<Rightarrow> js_trim s \<noteq> [] | _ \<Rightarrow> False)"

definition positiveInteger :: "jsval \<Rightarrow> bool" where
  "positiveInteger v = (case js_Number v of None \<Rightarrow> False | Some n \<Rightarrow> 0 < n \<and> n \<le> max_safe)"

definition validApprovalAction :: "approval_action option \<Rightarrow> bool" where
  "validApprovalAction act =
     (case act of
        None \<Rightarrow> False
      | Some a \<Rightarrow>
          if aa_kind a = ''command'' then nonEmpty (aa_command a) \<and> nonEmpty (aa_workingDirectory a)
          else if aa_kind a = ''file_change'' then
            nonEmpty (aa_action a) \<and> nonEmpty (aa_workingDirectory a)
            \<and> (case aa_affectedFiles a of None \<Rightarrow> False | Some fs \<Rightarrow> fs \<noteq> [] \<and> list_all nonEmpty fs)
          else if aa_kind a = ''network'' then
            nonEmpty (aa_action a) \<and> nonEmpty (aa_networkDestination a)
            \<and> (aa_workingDirectory a = JUndef \<or> nonEmpty (aa_workingDirectory a))
          else if aa_kind a = ''other'' then
            nonEmpty (aa_action a) \<and> (aa_workingDirectory a = JUndef \<or> nonEmpty (aa_workingDirectory a))
          else False)"

definition valid_request :: "approval_request \<Rightarrow> bool" where
  "valid_request q \<longleftrightarrow>
     nonEmpty (aq_requestId q)
     \<and> (case aq_correlation q of
          None \<Rightarrow> False
        | Some c \<Rightarrow> positiveInteger (ac_threadId c) \<and> positiveInteger (ac_interactionId c)
            \<and> nonEmpty (ac_completeCallId c) \<and> nonEmpty (ac_harnessSessionId c))
     \<and> nonEmpty (aq_title q) \<and> nonEmpty (aq_reason q) \<and> validApprovalAction (aq_action q)
     \<and> (case aq_scopeKeys q of None \<Rightarrow> False | Some ks \<Rightarrow> ks \<noteq> [] \<and> list_all nonEmpty ks \<and> distinct ks)
     \<and> nonEmpty (aq_scopeDescription q) \<and> nonEmpty (aq_createdAt q)"

definition validApprovalRequest :: "approval_receipt \<Rightarrow> bool" where
  "validApprovalRequest r = (case ap_request r of None \<Rightarrow> False | Some q \<Rightarrow> valid_request q)"

text \<open>Projections of a receipt, undefined where the optional chain of the source is.\<close>

definition request_of :: "approval_receipt \<Rightarrow> (approval_request \<Rightarrow> jsval) \<Rightarrow> jsval" where
  "request_of r f = (case ap_request r of None \<Rightarrow> JUndef | Some q \<Rightarrow> f q)"

definition correlation_of :: "approval_receipt \<Rightarrow> (approval_correlation \<Rightarrow> jsval) \<Rightarrow> jsval" where
  "correlation_of r f =
     (case Option.bind (ap_request r) aq_correlation of None \<Rightarrow> JUndef | Some c \<Rightarrow> f c)"

definition receipt_id :: "approval_receipt \<Rightarrow> jsval" where
  "receipt_id r = request_of r aq_requestId"

section \<open>Pending requests and history\<close>

record approval_state =
  as_approvals :: "approval_receipt list"
  as_interactions :: "interaction list"
  as_invocations :: "invocation list"

definition approvalReceiptsForThread :: "approval_state \<Rightarrow> jsval \<Rightarrow> approval_receipt list" where
  "approvalReceiptsForThread s threadId =
     filter (\<lambda>r. validApprovalRequest r \<and> sameId (correlation_of r ac_threadId) threadId) (as_approvals s)"

definition count_id :: "approval_receipt list \<Rightarrow> jsval \<Rightarrow> nat" where
  "count_id receipts v = length (filter (\<lambda>r. eqId (receipt_id r) v) receipts)"

definition is_pending :: "approval_state \<Rightarrow> jsval \<Rightarrow> approval_receipt list \<Rightarrow> approval_receipt \<Rightarrow> bool" where
  "is_pending s threadId receipts r \<longleftrightarrow>
     ap_resolution r = None \<and> count_id receipts (receipt_id r) = 1
     \<and> (let children = map (\<lambda>i. js_String (iv_resultInteractionId i)) (filter iv_agentInvoked (as_invocations s)) in
        list_ex (\<lambda>i. sameId (it_id i) (correlation_of r ac_interactionId) \<and> sameId (it_threadId i) threadId
          \<and> (it_status i = WaitingForApproval \<or> id_in (it_id i) children)) (as_interactions s))"

definition pending_cmp :: "(string \<Rightarrow> string \<Rightarrow> int) \<Rightarrow> approval_receipt \<Rightarrow> approval_receipt \<Rightarrow> int" where
  "pending_cmp lc l r =
     or_else (lc (js_String (request_of l aq_createdAt)) (js_String (request_of r aq_createdAt)))
       (lc (js_String (receipt_id l)) (js_String (receipt_id r)))"

definition pendingApprovalsForThread ::
  "(string \<Rightarrow> string \<Rightarrow> int) \<Rightarrow> approval_state \<Rightarrow> jsval \<Rightarrow> approval_receipt list" where
  "pendingApprovalsForThread lc s threadId =
     (let receipts = approvalReceiptsForThread s threadId in
      js_sort (pending_cmp lc) (filter (is_pending s threadId receipts) receipts))"

definition resolved_at :: "approval_receipt \<Rightarrow> string" where
  "resolved_at r = str_or (Option.bind (ap_resolution r) an_resolvedAt) []"

definition history_cmp :: "(string \<Rightarrow> string \<Rightarrow> int) \<Rightarrow> approval_receipt \<Rightarrow> approval_receipt \<Rightarrow> int" where
  "history_cmp lc l r =
     or_else (lc (resolved_at r) (resolved_at l)) (lc (js_String (receipt_id l)) (js_String (receipt_id r)))"

definition resolvedApprovalHistoryForThread ::
  "(string \<Rightarrow> string \<Rightarrow> int) \<Rightarrow> approval_state \<Rightarrow> jsval \<Rightarrow> approval_receipt list" where
  "resolvedApprovalHistoryForThread lc s threadId =
     js_sort (history_cmp lc) (filter (\<lambda>r. ap_resolution r \<noteq> None) (approvalReceiptsForThread s threadId))"

section \<open>The dock and its queue\<close>

definition selectedPendingApproval :: "approval_receipt list \<Rightarrow> jsval \<Rightarrow> approval_receipt option" where
  "selectedPendingApproval pending requestId =
     (case find (\<lambda>r. sameId (receipt_id r) requestId) pending of
        Some r \<Rightarrow> Some r
      | None \<Rightarrow> (case pending of [] \<Rightarrow> None | r # _ \<Rightarrow> Some r))"

datatype dock_mode = DockPending | DockHistory | DockHidden

definition approvalDockMode :: "'a list \<Rightarrow> 'b list \<Rightarrow> dock_mode" where
  "approvalDockMode pending history =
     (if pending \<noteq> [] then DockPending else if history \<noteq> [] then DockHistory else DockHidden)"

definition shouldRevealApprovalHistory :: "dock_mode \<Rightarrow> bool \<Rightarrow> bool \<Rightarrow> bool \<Rightarrow> bool" where
  "shouldRevealApprovalHistory dockMode wasHidden wasHistoryOnly threadChanged \<longleftrightarrow>
     dockMode = DockHistory \<and> (wasHidden \<or> \<not> wasHistoryOnly \<or> threadChanged)"

datatype queue_intent = GoFirst | GoLast | GoStep int

text \<open>\<open>findIndex\<close> with \<open>Math.max(0, \<dots>)\<close>, and the \<open>%\<close> of JavaScript, whose result has the sign of the dividend.\<close>

fun index_or_zero :: "('a \<Rightarrow> bool) \<Rightarrow> 'a list \<Rightarrow> nat" where
  "index_or_zero P xs = (case List.find (\<lambda>i. P (xs ! i)) [0..<length xs] of None \<Rightarrow> 0 | Some i \<Rightarrow> i)"

declare index_or_zero.simps [simp del]

definition js_rem :: "int \<Rightarrow> int \<Rightarrow> int" where
  "js_rem a b = (if a \<ge> 0 then a mod b else - ((- a) mod b))"

definition approvalQueueTarget :: "approval_receipt list \<Rightarrow> jsval \<Rightarrow> queue_intent \<Rightarrow> jsval" where
  "approvalQueueTarget pending requestId intent =
     (if pending = [] then JNull
      else
        let n = int (length pending);
            current = int (index_or_zero (\<lambda>r. sameId (receipt_id r) requestId) pending);
            index = (case intent of GoFirst \<Rightarrow> 0 | GoLast \<Rightarrow> n - 1 | GoStep d \<Rightarrow> js_rem (current + d + n) n) in
        if index < 0 \<or> index \<ge> n then JNull else nullish_or (receipt_id (pending ! nat index)) JNull)"

record key_event =
  ke_key :: string
  ke_modified :: bool

definition approvalQueueKeyIntent :: "key_event \<Rightarrow> bool \<Rightarrow> queue_intent option" where
  "approvalQueueKeyIntent ev focused =
     (if \<not> focused \<or> ke_modified ev then None
      else if ke_key ev = ''ArrowLeft'' then Some (GoStep (- 1))
      else if ke_key ev = ''ArrowRight'' then Some (GoStep 1)
      else if ke_key ev = ''Home'' then Some GoFirst
      else if ke_key ev = ''End'' then Some GoLast
      else None)"

definition validApprovalDecision :: "string \<Rightarrow> bool" where
  "validApprovalDecision d \<longleftrightarrow> d \<in> {''approve_once'', ''approve_always'', ''deny''}"

section \<open>Presentation\<close>

record action_presentation =
  pr_kind :: string
  pr_label :: string
  pr_value :: string
  pr_workingDirectory :: "jsval option"
  pr_affectedFiles :: "string list"

definition string_or_empty :: "jsval \<Rightarrow> string" where
  "string_or_empty v = (if is_nullish v \<or> v = JStr [] \<or> v = JNum 0 then [] else js_String v)"

definition dir_of :: "approval_action \<Rightarrow> jsval option" where
  "dir_of a = (if nonEmpty (aa_workingDirectory a) then Some (aa_workingDirectory a) else None)"

definition join_dot :: "string list \<Rightarrow> string" where
  "join_dot xs = (case xs of [] \<Rightarrow> [] | [x] \<Rightarrow> x | x # ys \<Rightarrow> x @ concat (map (\<lambda>y. '' '' @ [CHR 0xB7] @ '' '' @ y) ys))"

definition approvalActionPresentation :: "approval_action option \<Rightarrow> action_presentation" where
  "approvalActionPresentation act =
     (case act of
        None \<Rightarrow> \<lparr>pr_kind = ''other'', pr_label = ''Action'', pr_value = [], pr_workingDirectory = None, pr_affectedFiles = []\<rparr>
      | Some a \<Rightarrow>
          if aa_kind a = ''command'' then
            \<lparr>pr_kind = aa_kind a, pr_label = ''Command'', pr_value = string_or_empty (aa_command a),
             pr_workingDirectory = dir_of a, pr_affectedFiles = []\<rparr>
          else if aa_kind a = ''file_change'' then
            \<lparr>pr_kind = aa_kind a, pr_label = ''File change'', pr_value = string_or_empty (aa_action a),
             pr_workingDirectory = dir_of a,
             pr_affectedFiles = (case aa_affectedFiles a of None \<Rightarrow> [] | Some fs \<Rightarrow> map js_String fs)\<rparr>
          else if aa_kind a = ''network'' then
            \<lparr>pr_kind = aa_kind a, pr_label = ''Network access'',
             pr_value = join_dot (map js_String (filter nonEmpty [aa_action a, aa_networkDestination a])),
             pr_workingDirectory = dir_of a, pr_affectedFiles = []\<rparr>
          else
            \<lparr>pr_kind = ''other'', pr_label = ''Action'', pr_value = string_or_empty (aa_action a),
             pr_workingDirectory = dir_of a, pr_affectedFiles = []\<rparr>)"

definition approvalResolutionLabel :: "approval_receipt option \<Rightarrow> string" where
  "approvalResolutionLabel r =
     (case Option.bind r ap_resolution of
        None \<Rightarrow> ''Resolved''
      | Some n \<Rightarrow>
          if an_outcome n = ''approved'' then
            (if an_decision n = Some ''approve_always'' then ''Approved for this session'' else ''Approved once'')
          else if an_outcome n = ''denied'' then ''Denied''
          else if an_outcome n = ''cancelled'' then ''Cancelled''
          else if an_outcome n = ''expired'' then ''Expired''
          else if an_outcome n = ''aborted'' then ''Aborted''
          else ''Resolved'')"

section \<open>Lemmas\<close>

text \<open>What the specification of \<open>localeCompare\<close> promises of a collation.\<close>

definition collation :: "(string \<Rightarrow> string \<Rightarrow> int) \<Rightarrow> bool" where
  "collation lc \<longleftrightarrow> total_cmp lc \<and> (\<forall>x y. lc x y = 0 \<longleftrightarrow> lc y x = 0) \<and> (\<forall>x y. lc x y < 0 \<longleftrightarrow> lc y x > 0)"

lemma total_or_else:
  assumes "collation lc"
  shows "total_cmp (\<lambda>l r. or_else (lc (f l) (f r)) (lc (g l) (g r)))"
proof -
  have tot: "lc x y \<le> 0 \<or> lc y x \<le> 0" and tr: "lc x y \<le> 0 \<Longrightarrow> lc y z \<le> 0 \<Longrightarrow> lc x z \<le> 0"
    and neg: "lc x y < 0 \<longleftrightarrow> lc y x > 0" for x y z
    using assms by (auto simp: collation_def total_cmp_def)
  have str: "lc x z < 0" if "lc x y \<le> 0" "lc y z \<le> 0" "lc x y < 0 \<or> lc y z < 0" for x y z
  proof (rule ccontr)
    assume "\<not> lc x z < 0"
    then have "lc z x \<le> 0" using neg [of x z] by auto
    with that show False using tr [of y z x] tr [of z x y] neg [of x y] neg [of y z] by auto
  qed
  show ?thesis
    unfolding total_cmp_def or_else_def
  proof (intro conjI allI impI)
    fix x y
    show "(if lc (f x) (f y) \<noteq> 0 then lc (f x) (f y) else lc (g x) (g y)) \<le> 0
        \<or> (if lc (f y) (f x) \<noteq> 0 then lc (f y) (f x) else lc (g y) (g x)) \<le> 0"
      using tot [of "f x" "f y"] tot [of "g x" "g y"] neg [of "f x" "f y"] neg [of "f y" "f x"] by auto
  next
    fix x y z
    assume xy: "(if lc (f x) (f y) \<noteq> 0 then lc (f x) (f y) else lc (g x) (g y)) \<le> 0"
      and yz: "(if lc (f y) (f z) \<noteq> 0 then lc (f y) (f z) else lc (g y) (g z)) \<le> 0"
    have le: "lc (f x) (f y) \<le> 0" "lc (f y) (f z) \<le> 0" using xy yz by (auto split: if_splits)
    show "(if lc (f x) (f z) \<noteq> 0 then lc (f x) (f z) else lc (g x) (g z)) \<le> 0"
    proof (cases "lc (f x) (f y) < 0 \<or> lc (f y) (f z) < 0")
      case True
      then show ?thesis using str [OF le] by auto
    next
      case False
      with le xy yz have "lc (g x) (g y) \<le> 0" "lc (g y) (g z) \<le> 0" by auto
      then show ?thesis using tr [OF le] tr [of "g x" "g y" "g z"] by auto
    qed
  qed
qed

lemma distinct_counted:
  "distinct (map f (filter (\<lambda>x. Q x \<and> length (filter (\<lambda>y. f y = f x) xs) = 1) xs))"
proof -
  have "distinct (map f (filter (\<lambda>x. length (filter (\<lambda>y. f y = f x) zs) = 1) xs))"
    if "zs = ys @ xs" for zs ys xs
    using that
  proof (induction xs arbitrary: ys)
    case (Cons x xs)
    have "distinct (map f (filter (\<lambda>x. length (filter (\<lambda>y. f y = f x) zs) = 1) xs))"
      using Cons.IH [of "ys @ [x]"] Cons.prems by simp
    moreover have "f x \<notin> f ` set xs" if "length (filter (\<lambda>y. f y = f x) zs) = 1"
    proof
      assume "f x \<in> f ` set xs"
      then have "length (filter (\<lambda>y. f y = f x) xs) \<ge> 1" by (force simp: Suc_le_eq filter_empty_conv)
      with that Cons.prems show False by simp
    qed
    ultimately show ?case by auto
  qed simp
  from this [of xs "[]" xs] have "distinct (map f (filter (\<lambda>x. length (filter (\<lambda>y. f y = f x) xs) = 1) xs))" by simp
  then have "distinct (map f (filter Q (filter (\<lambda>x. length (filter (\<lambda>y. f y = f x) xs) = 1) xs)))"
    by (rule distinct_map_filter)
  then show ?thesis by (simp add: conj_commute)
qed

section \<open>Properties\<close>

text \<open>The approvals a person can answer. Each pending request of a thread is a valid, unresolved request of
  that thread, for an interaction of the thread that waits for approval or is an agent's child; no two have
  the same request id; and they are ordered by creation time, then by request id.\<close>

theorem pendingApprovals_sound:
  assumes "collation lc"
  shows "distinct (map (\<lambda>r. js_String (receipt_id r)) (pendingApprovalsForThread lc s threadId))
    \<and> sorted_wrt (\<lambda>l r. pending_cmp lc l r \<le> 0) (pendingApprovalsForThread lc s threadId)
    \<and> (\<forall>r \<in> set (pendingApprovalsForThread lc s threadId).
         r \<in> set (as_approvals s) \<and> validApprovalRequest r \<and> ap_resolution r = None
         \<and> sameId (correlation_of r ac_threadId) threadId
         \<and> (\<exists>i \<in> set (as_interactions s). sameId (it_id i) (correlation_of r ac_interactionId) \<and> sameId (it_threadId i) threadId
              \<and> (it_status i = WaitingForApproval
                 \<or> (\<exists>v \<in> set (as_invocations s). iv_agentInvoked v \<and> eqId (it_id i) (iv_resultInteractionId v)))))"
proof (intro conjI ballI)
  let ?rs = "approvalReceiptsForThread s threadId" and ?f = "\<lambda>r. js_String (receipt_id r)"
  have "distinct (map ?f (filter (\<lambda>r. is_pending s threadId ?rs r \<and> length (filter (\<lambda>y. ?f y = ?f r) ?rs) = 1) ?rs))"
    by (rule distinct_counted)
  moreover have "is_pending s threadId ?rs r \<and> length (filter (\<lambda>y. ?f y = ?f r) ?rs) = 1 \<longleftrightarrow> is_pending s threadId ?rs r" for r
    by (auto simp: is_pending_def count_id_def eqId_def)
  ultimately have "distinct (map ?f (filter (is_pending s threadId ?rs) ?rs))" by simp
  then show "distinct (map ?f (pendingApprovalsForThread lc s threadId))"
    by (simp add: pendingApprovalsForThread_def Let_def)
  have "total_cmp (pending_cmp lc)"
    unfolding pending_cmp_def by (rule total_or_else [OF assms])
  then show "sorted_wrt (\<lambda>l r. pending_cmp lc l r \<le> 0) (pendingApprovalsForThread lc s threadId)"
    by (simp add: pendingApprovalsForThread_def Let_def sorted_js_sort)
next
  fix r assume "r \<in> set (pendingApprovalsForThread lc s threadId)"
  then have r: "r \<in> set (approvalReceiptsForThread s threadId)" "is_pending s threadId (approvalReceiptsForThread s threadId) r"
    by (auto simp: pendingApprovalsForThread_def Let_def)
  then show "r \<in> set (as_approvals s)" "validApprovalRequest r" "sameId (correlation_of r ac_threadId) threadId"
    by (auto simp: approvalReceiptsForThread_def)
  show "ap_resolution r = None" using r(2) by (simp add: is_pending_def)
  show "\<exists>i \<in> set (as_interactions s). sameId (it_id i) (correlation_of r ac_interactionId) \<and> sameId (it_threadId i) threadId
      \<and> (it_status i = WaitingForApproval
         \<or> (\<exists>v \<in> set (as_invocations s). iv_agentInvoked v \<and> eqId (it_id i) (iv_resultInteractionId v)))"
    using r(2) by (fastforce simp: is_pending_def list_ex_iff id_in_map)
qed

definition demo_lc :: "string \<Rightarrow> string \<Rightarrow> int" where
  "demo_lc a b = int (length a) - int (length b)"

lemma demo_lc_collation: "collation demo_lc"
  by (auto simp: collation_def total_cmp_def demo_lc_def)

definition demo_request :: "string \<Rightarrow> approval_receipt" where
  "demo_request i = \<lparr>ap_request = Some \<lparr>aq_requestId = JStr i,
      aq_correlation = Some \<lparr>ac_threadId = JNum 1, ac_interactionId = JNum 2, ac_completeCallId = JStr ''c'', ac_harnessSessionId = JStr ''h''\<rparr>,
      aq_title = JStr ''t'', aq_reason = JStr ''r'',
      aq_action = Some \<lparr>aa_kind = ''command'', aa_command = JStr ''ls'', aa_action = JUndef, aa_workingDirectory = JStr ''d'',
        aa_networkDestination = JUndef, aa_affectedFiles = None\<rparr>,
      aq_scopeKeys = Some [JStr ''k''], aq_scopeDescription = JStr ''s'', aq_createdAt = JStr ''2024''\<rparr>,
    ap_resolution = None\<rparr>"

definition demo_approvals :: approval_state where
  "demo_approvals = \<lparr>as_approvals = [demo_request ''q2'', demo_request ''q1'', demo_request ''q3'', demo_request ''q3''],
     as_interactions = [(bare_interaction (JNum 2))\<lparr>it_threadId := JNum 1, it_status := WaitingForApproval\<rparr>],
     as_invocations = []\<rparr>"

theorem pendingApprovals_sound_witness:
  "distinct (map (\<lambda>r. js_String (receipt_id r)) (pendingApprovalsForThread demo_lc demo_approvals (JNum 1)))
   \<and> list_all validApprovalRequest (pendingApprovalsForThread demo_lc demo_approvals (JNum 1))"
  using pendingApprovals_sound [OF demo_lc_collation, of demo_approvals "JNum 1"] unfolding list_all_iff by blast

lemma index_or_zero_unique:
  assumes "i < length xs" "P (xs ! i)" "\<And>j. j < length xs \<Longrightarrow> P (xs ! j) \<Longrightarrow> j = i"
  shows "index_or_zero P xs = i"
proof -
  have "\<not> P (xs ! j)" if "j < i" for j using assms(3) [of j] assms(1) that by auto
  then have "List.find (\<lambda>j. P (xs ! j)) [0..<length xs] = Some i"
    using assms(1,2) by (simp add: find_Some_iff exI [of _ i])
  then show ?thesis by (simp add: index_or_zero.simps)
qed

lemma queue_index:
  assumes "distinct (map (\<lambda>r. js_String (receipt_id r)) pending)" "list_all (\<lambda>r. \<not> is_nullish (receipt_id r)) pending"
    "i < length pending"
  shows "index_or_zero (\<lambda>r. sameId (receipt_id r) (receipt_id (pending ! i))) pending = i"
proof (rule index_or_zero_unique)
  show "sameId (receipt_id (pending ! i)) (receipt_id (pending ! i))" using assms by (simp add: list_all_length)
  show "j = i" if "j < length pending" "sameId (receipt_id (pending ! j)) (receipt_id (pending ! i))" for j
    using that assms(1,3) by (auto simp: sameId_def distinct_conv_nth)
qed (rule assms(3))

text \<open>The queue is a cycle: from a pending request the right and left keys move to the next and the previous
  one, around the ends, so that each undoes the other, and every key leads to a pending request.\<close>

theorem queue_cycle:
  assumes "distinct (map (\<lambda>r. js_String (receipt_id r)) pending)" and "list_all (\<lambda>r. \<not> is_nullish (receipt_id r)) pending"
    and "i < length pending"
  shows "approvalQueueTarget pending (receipt_id (pending ! i)) (GoStep 1) = receipt_id (pending ! ((i + 1) mod length pending))
    \<and> approvalQueueTarget pending (receipt_id (pending ! ((i + 1) mod length pending))) (GoStep (- 1)) = receipt_id (pending ! i)
    \<and> approvalQueueTarget pending (receipt_id (pending ! i)) GoLast = receipt_id (last pending)"
proof -
  let ?n = "length pending"
  have n: "0 < ?n" "pending \<noteq> []" using assms(3) by auto
  have id: "nullish_or (receipt_id (pending ! k)) JNull = receipt_id (pending ! k)" if "k < ?n" for k
    using assms(2) that by (simp add: nullish_or_def list_all_length)
  have step: "approvalQueueTarget pending (receipt_id (pending ! k)) (GoStep d) = receipt_id (pending ! nat ((int k + d) mod int ?n))"
    if "k < ?n" "- 1 \<le> d" for k d
  proof -
    define q where "q = (int k + d) mod int ?n"
    have q: "\<not> q < 0" "\<not> int ?n \<le> q" using n by (simp_all add: q_def not_le not_less)
    have "0 \<le> int k + d + int ?n" using that n by auto
    then have "js_rem (int k + d + int ?n) (int ?n) = q" by (simp add: js_rem_def q_def)
    with q n that show ?thesis
      by (simp add: approvalQueueTarget_def queue_index [OF assms(1,2)] Let_def id flip: q_def)
  qed
  have right: "nat ((int i + 1) mod int ?n) = (i + 1) mod ?n"
  proof -
    have "(int i + 1) mod int ?n = int ((i + 1) mod ?n)" by (simp add: zmod_int add.commute)
    then show ?thesis by (simp only: nat_int)
  qed
  have "nat ((int ((i + 1) mod ?n) + - 1) mod int ?n) = i"
  proof -
    have "(int ((i + 1) mod ?n) + - 1) mod int ?n = (int (i + 1) + - 1) mod int ?n"
      by (simp only: zmod_int mod_add_left_eq)
    then show ?thesis using assms(3) by simp
  qed
  with step [OF assms(3), of 1] step [of "(i + 1) mod ?n" "- 1"] right n show ?thesis
    by (simp add: approvalQueueTarget_def Let_def id last_conv_nth nat_diff_distrib')
qed

theorem queue_cycle_witness:
  "approvalQueueTarget [demo_request ''q1'', demo_request ''q2''] (JStr ''q2'') (GoStep 1) = JStr ''q1''"
proof -
  have "approvalQueueTarget [demo_request ''q1'', demo_request ''q2''] (receipt_id ([demo_request ''q1'', demo_request ''q2''] ! 1)) (GoStep 1)
      = receipt_id ([demo_request ''q1'', demo_request ''q2''] ! ((1 + 1) mod length [demo_request ''q1'', demo_request ''q2'']))"
    by (rule queue_cycle [THEN conjunct1]) (simp_all add: receipt_id_def request_of_def demo_request_def)
  then show ?thesis by (simp add: receipt_id_def request_of_def demo_request_def)
qed

end
