(* ===== verification/ModelPicker.thy ===== *)
theory ModelPicker
  imports JsCollections
begin

text \<open>
  The model picker (\<open>desktop/renderer/src/model-picker-model.js\<close>): which families of models a harness can
  run, which selection a composer starts from or keeps, and what a family that cannot run needs. A family
  runs through its orchestrator, the one member with that role. Regular expressions in a harness's rules
  are tested by the platform's \<open>RegExp\<close>: the parameter \<open>re\<close>, which is false for an invalid pattern. The
  lemmas: a selection is always runnable, it is of the family asked for, normalizing is idempotent, and
  an enabled family can be picked exactly when it needs no setup.
\<close>

section \<open>Settings\<close>

record picker_model =
  pm_id :: string
  pm_label :: "string option"
  pm_visible :: bool
  pm_available :: bool

record picker_provider =
  pp_id :: string
  pp_label :: "string option"
  pp_adapterId :: "string option"
  pp_connected :: bool
  pp_models :: "picker_model list"

record model_rule =
  ru_adapterId :: "string option"
  ru_modelIdExact :: "string option"
  ru_modelIdRegex :: "string option"

record harness_rules =
  hr_deny :: "model_rule list"
  hr_allow :: "model_rule list"

record harness =
  hs_id :: string
  hs_label :: "string option"
  hs_available :: bool
  hs_modelRules :: "harness_rules option"
  hs_modelCompatibility :: "(string \<times> string list option) list"
  hs_compatibleProviderIds :: "string list option"
  hs_permissionAvailable :: bool
  hs_usableFamilyIds :: "jsval list option"

record family_member =
  fm_providerId :: string
  fm_modelId :: string
  fm_position :: int
  fm_roles :: "string list"

record model_family =
  pf_id :: jsval
  pf_name :: string
  pf_enabled :: bool
  pf_position :: int
  pf_members :: "family_member list"

datatype conversation_compatibility =
    NoCompatibility | UnrestrictedRoute | BlockedRoute | CompatibleRoute string string

record recovery_reason =
  rr_code :: string
  rr_message :: "string option"

record family_recovery =
  rc_familyId :: jsval
  rc_familyName :: string
  rc_providerId :: string
  rc_reason :: "recovery_reason option"

record picker_settings =
  ps_families :: "model_family list"
  ps_providers :: "picker_provider list"
  ps_harnesses :: "harness list"
  ps_defaultHarnessId :: "string option"
  ps_defaultFamilyId :: jsval
  ps_compatibility :: conversation_compatibility
  ps_defaultFamilyRecovery :: "family_recovery option"
  ps_familiesNeedingModelSetup :: "family_recovery list"

definition MODEL_SETUP_RECOVERY_CODE :: string where
  "MODEL_SETUP_RECOVERY_CODE = ''provider_no_eligible_execution_models''"

definition MODEL_SELECTION_CATALOG_ERRORS :: "string list" where
  "MODEL_SELECTION_CATALOG_ERRORS =
     [''conversation_route_incompatible'', ''harness_unknown'', ''harness_not_product_visible'', ''harness_unavailable'',
      ''provider_unknown'', ''provider_disconnected'', ''model_selection_unknown'', ''model_hidden'', ''model_unavailable'',
      ''model_family_disabled'', ''model_family_removed'', ''model_family_unresolvable'', MODEL_SETUP_RECOVERY_CODE,
      ''harness_model_incompatible'', ''model_not_in_family'']"

definition isModelSelectionCatalogError :: "string option \<Rightarrow> bool" where
  "isModelSelectionCatalogError code = (case code of None \<Rightarrow> False | Some c \<Rightarrow> c \<in> set MODEL_SELECTION_CATALOG_ERRORS)"

section \<open>Harnesses and members\<close>

definition harnessFor :: "picker_settings \<Rightarrow> string option \<Rightarrow> harness option" where
  "harnessFor s harnessId = find (\<lambda>h. Some (hs_id h) = harnessId) (ps_harnesses s)"

definition harnessUsesConfigurationModel :: "picker_settings \<Rightarrow> string option \<Rightarrow> bool" where
  "harnessUsesConfigurationModel s harnessId =
     (if ps_compatibility s \<noteq> NoCompatibility \<and> ps_compatibility s \<noteq> UnrestrictedRoute then False
      else (case harnessFor s harnessId of
              None \<Rightarrow> False
            | Some h \<Rightarrow> hs_available h \<and> hs_modelRules h = None \<and> hs_modelCompatibility h = []
                \<and> (hs_compatibleProviderIds h = None \<or> hs_compatibleProviderIds h = Some [])))"

definition providerFor :: "picker_settings \<Rightarrow> string \<Rightarrow> picker_provider option" where
  "providerFor s providerId = find (\<lambda>p. pp_id p = providerId) (ps_providers s)"

definition providerModel :: "picker_settings \<Rightarrow> string \<Rightarrow> string \<Rightarrow> picker_model option" where
  "providerModel s providerId modelId =
     Option.bind (providerFor s providerId) (\<lambda>p. find (\<lambda>m. pm_id m = modelId) (pp_models p))"

definition harnessRuleMatches :: "(string \<Rightarrow> string \<Rightarrow> bool) \<Rightarrow> model_rule \<Rightarrow> string option \<Rightarrow> string \<Rightarrow> bool" where
  "harnessRuleMatches re rule adapterId modelId =
     (if ru_adapterId rule \<noteq> adapterId then False
      else (case ru_modelIdExact rule of
              Some m \<Rightarrow> m = modelId
            | None \<Rightarrow> (case ru_modelIdRegex rule of None \<Rightarrow> False | Some r \<Rightarrow> re r modelId)))"

definition harnessSupportsModel ::
  "(string \<Rightarrow> string \<Rightarrow> bool) \<Rightarrow> harness \<Rightarrow> picker_provider option \<Rightarrow> string \<Rightarrow> bool" where
  "harnessSupportsModel re h provider modelId =
     (case hs_modelRules h of
        Some rules \<Rightarrow>
          let adapterId = Option.bind provider pp_adapterId in
          if list_ex (\<lambda>r. harnessRuleMatches re r adapterId modelId) (hr_deny rules) then False
          else hr_allow rules = [] \<or> list_ex (\<lambda>r. harnessRuleMatches re r adapterId modelId) (hr_allow rules)
      | None \<Rightarrow>
          (case find (\<lambda>c. Some (fst c) = map_option pp_id provider) (hs_modelCompatibility h) of
             Some c \<Rightarrow> (case snd c of None \<Rightarrow> True | Some ids \<Rightarrow> modelId \<in> set ids)
           | None \<Rightarrow>
               (case hs_compatibleProviderIds h of
                  None \<Rightarrow> True
                | Some ids \<Rightarrow> (case provider of None \<Rightarrow> False | Some p \<Rightarrow> pp_id p \<in> set ids))))"

definition member_available ::
  "(string \<Rightarrow> string \<Rightarrow> bool) \<Rightarrow> picker_settings \<Rightarrow> harness \<Rightarrow> family_member \<Rightarrow> bool" where
  "member_available re s h m \<longleftrightarrow>
     (case ps_compatibility s of CompatibleRoute _ p \<Rightarrow> fm_providerId m = p | _ \<Rightarrow> True)
     \<and> harnessSupportsModel re h (providerFor s (fm_providerId m)) (fm_modelId m)
     \<and> (case (providerFor s (fm_providerId m), providerModel s (fm_providerId m) (fm_modelId m)) of
          (Some p, Some md) \<Rightarrow> pp_connected p \<and> pm_visible md \<and> pm_available md
        | _ \<Rightarrow> False)"

definition availableFamilyMembers ::
  "(string \<Rightarrow> string \<Rightarrow> bool) \<Rightarrow> picker_settings \<Rightarrow> model_family \<Rightarrow> string option \<Rightarrow> family_member list" where
  "availableFamilyMembers re s family harnessId =
     (if ps_compatibility s = BlockedRoute
         \<or> (case ps_compatibility s of CompatibleRoute h _ \<Rightarrow> Some h \<noteq> harnessId | _ \<Rightarrow> False) then []
      else (case harnessFor s harnessId of
              None \<Rightarrow> []
            | Some h \<Rightarrow>
                if \<not> hs_available h then []
                else filter (member_available re s h) (js_sort (\<lambda>l r. fm_position l - fm_position r) (pf_members family))))"

definition familyOrchestrator :: "model_family \<Rightarrow> family_member option" where
  "familyOrchestrator family =
     (case filter (\<lambda>m. ''orchestrator'' \<in> set (fm_roles m)) (pf_members family) of [m] \<Rightarrow> Some m | _ \<Rightarrow> None)"

definition availableOrchestrator ::
  "(string \<Rightarrow> string \<Rightarrow> bool) \<Rightarrow> picker_settings \<Rightarrow> model_family \<Rightarrow> string option \<Rightarrow> family_member option" where
  "availableOrchestrator re s family harnessId =
     (case familyOrchestrator family of
        None \<Rightarrow> None
      | Some oc \<Rightarrow> find (\<lambda>m. fm_providerId m = fm_providerId oc \<and> fm_modelId m = fm_modelId oc)
          (availableFamilyMembers re s family harnessId))"

section \<open>Families a harness can run\<close>

record picker_family =
  pk_family :: model_family
  pk_availableMembers :: "family_member list"
  pk_orchestrator :: "family_member option"

definition availablePickerFamilies ::
  "(string \<Rightarrow> string \<Rightarrow> bool) \<Rightarrow> picker_settings \<Rightarrow> string option \<Rightarrow> picker_family list" where
  "availablePickerFamilies re s harnessId =
     filter (\<lambda>f. pk_orchestrator f \<noteq> None)
       (map (\<lambda>f. \<lparr>pk_family = f, pk_availableMembers = availableFamilyMembers re s f harnessId,
                pk_orchestrator = availableOrchestrator re s f harnessId\<rparr>)
         (js_sort (\<lambda>l r. pf_position l - pf_position r) (filter pf_enabled (ps_families s))))"

definition route_harnesses :: "picker_settings \<Rightarrow> string option \<Rightarrow> bool \<Rightarrow> string option list" where
  "route_harnesses s harnessId allowHarnessChange =
     (if allowHarnessChange
      then first_unique ([harnessId, ps_defaultHarnessId s] @ map Some (js_sort str_cmp (map hs_id (ps_harnesses s))))
      else [harnessId])"

definition route_skipped :: "picker_settings \<Rightarrow> bool \<Rightarrow> string option \<Rightarrow> bool" where
  "route_skipped s allowHarnessChange harnessId \<longleftrightarrow>
     harnessUsesConfigurationModel s harnessId
     \<or> (allowHarnessChange \<and> (case harnessFor s harnessId of None \<Rightarrow> False | Some h \<Rightarrow> \<not> hs_permissionAvailable h))"

definition route_usable :: "picker_settings \<Rightarrow> bool \<Rightarrow> string option \<Rightarrow> picker_family \<Rightarrow> bool" where
  "route_usable s allowHarnessChange harnessId f \<longleftrightarrow>
     (case Option.bind (harnessFor s harnessId) hs_usableFamilyIds of
        None \<Rightarrow> True
      | Some ids \<Rightarrow> \<not> allowHarnessChange \<or> list_ex (\<lambda>i. eqId i (pf_id (pk_family f))) ids)"

type_synonym route = "picker_family \<times> string option"

definition add_route :: "string option \<Rightarrow> (jsval, route) jsmap \<Rightarrow> picker_family \<Rightarrow> (jsval, route) jsmap" where
  "add_route harnessId routes f =
     (if map_has routes (pf_id (pk_family f)) then routes else map_set routes (pf_id (pk_family f)) (f, harnessId))"

definition routablePickerFamilies ::
  "(string \<Rightarrow> string \<Rightarrow> bool) \<Rightarrow> picker_settings \<Rightarrow> string option \<Rightarrow> bool \<Rightarrow> route list" where
  "routablePickerFamilies re s harnessId allow =
     js_sort (\<lambda>l r. pf_position (pk_family (fst l)) - pf_position (pk_family (fst r)))
       (map_values (foldl (\<lambda>routes hid.
            if route_skipped s allow hid then routes
            else foldl (add_route hid) routes (filter (route_usable s allow hid) (availablePickerFamilies re s hid)))
          [] (route_harnesses s harnessId allow)))"

section \<open>What a family needs\<close>

record model_setup =
  ms_familyId :: jsval
  ms_familyName :: string
  ms_providerId :: "string option"
  ms_action :: string
  ms_label :: string
  ms_message :: string
  ms_choiceName :: "string option"
  ms_actionLabel :: string
  ms_actionName :: string
  ms_reason :: "string option"
  ms_providerLabel :: "string option"
  ms_busyName :: "string option"

definition label_or :: "string option \<Rightarrow> string \<Rightarrow> string" where
  "label_or l d = (case l of None \<Rightarrow> d | Some x \<Rightarrow> x)"

definition mismatch_setup :: "model_family \<Rightarrow> family_member \<Rightarrow> picker_model \<Rightarrow> harness \<Rightarrow> bool \<Rightarrow> model_setup" where
  "mismatch_setup family oc md h choices =
     (let hl = label_or (hs_label h) (hs_id h) in
      \<lparr>ms_familyId = pf_id family, ms_familyName = pf_name family, ms_providerId = Some (fm_providerId oc),
       ms_action = ''family-settings'', ms_label = ''Harness mismatch'',
       ms_message = pf_name family @ '' cannot run with '' @ hl @ '': its orchestrator, '' @ label_or (pm_label md) (pm_id md)
         @ '', is not supported by this harness. Choose a compatible family, or configure one in Settings.'',
       ms_choiceName = (if choices then Some (''Choose a compatible family for '' @ hl) else None),
       ms_actionLabel = ''Open Settings'',
       ms_actionName = ''Configure a compatible family for '' @ hl @ '' in Settings'',
       ms_reason = Some ''harness-mismatch'', ms_providerLabel = None, ms_busyName = None\<rparr>)"

definition orchestrator_setup :: "model_family \<Rightarrow> family_member option \<Rightarrow> bool \<Rightarrow> model_setup" where
  "orchestrator_setup family oc disconnected =
     \<lparr>ms_familyId = pf_id family, ms_familyName = pf_name family, ms_providerId = map_option fm_providerId oc,
      ms_action = (if disconnected then ''settings'' else ''family-settings''), ms_label = ''Orchestrator unavailable'',
      ms_message = pf_name family @ '' cannot run because its orchestrator is unavailable or incompatible. ''
        @ ''Reconnect its provider or choose an available orchestrator in Settings.'',
      ms_choiceName = None, ms_actionLabel = ''Open Settings'',
      ms_actionName = ''Configure '' @ pf_name family @ '' in Settings'',
      ms_reason = None, ms_providerLabel = None, ms_busyName = None\<rparr>"

definition recovery_setup :: "picker_settings \<Rightarrow> family_recovery \<Rightarrow> recovery_reason \<Rightarrow> model_setup" where
  "recovery_setup s rc reason =
     (let pl = label_or (Option.bind (providerFor s (rc_providerId rc)) pp_label) (rc_providerId rc) in
      if rr_code reason = MODEL_SETUP_RECOVERY_CODE then
        \<lparr>ms_familyId = rc_familyId rc, ms_familyName = rc_familyName rc, ms_providerId = Some (rc_providerId rc),
         ms_action = ''refresh'', ms_label = ''Needs model setup'',
         ms_message = rc_familyName rc @ '' needs model setup. '' @ pl @ '' has no models eligible for agent execution.'',
         ms_choiceName = None, ms_actionLabel = ''Refresh models'', ms_actionName = ''Refresh models for '' @ pl,
         ms_reason = None, ms_providerLabel = Some pl, ms_busyName = Some (''Refreshing models for '' @ pl)\<rparr>
      else
        \<lparr>ms_familyId = rc_familyId rc, ms_familyName = rc_familyName rc, ms_providerId = Some (rc_providerId rc),
         ms_action = ''settings'', ms_label = ''Provider not connected'',
         ms_message = pl @ '' is not connected, so '' @ rc_familyName rc @ '' cannot run.''
           @ (if truthy_str (rr_message reason) then '' '' @ the (rr_message reason) else []),
         ms_choiceName = None, ms_actionLabel = ''Open Settings'', ms_actionName = ''Reconnect '' @ pl @ '' in Settings'',
         ms_reason = None, ms_providerLabel = Some pl, ms_busyName = None\<rparr>)"

definition recovery_for :: "picker_settings \<Rightarrow> jsval \<Rightarrow> (family_recovery \<times> recovery_reason) option" where
  "recovery_for s familyId =
     (case find (\<lambda>r. rc_reason r \<noteq> None \<and> eqId (rc_familyId r) familyId)
            ((case ps_defaultFamilyRecovery s of None \<Rightarrow> [] | Some r \<Rightarrow> [r]) @ ps_familiesNeedingModelSetup s) of
        None \<Rightarrow> None
      | Some r \<Rightarrow> Option.bind (rc_reason r) (\<lambda>q. Some (r, q)))"

definition is_mismatch ::
  "(string \<Rightarrow> string \<Rightarrow> bool) \<Rightarrow> picker_provider option \<Rightarrow> picker_model \<Rightarrow> family_member \<Rightarrow> harness \<Rightarrow> bool" where
  "is_mismatch re provider md oc h \<longleftrightarrow>
     (case provider of None \<Rightarrow> True | Some p \<Rightarrow> pp_connected p) \<and> pm_visible md \<and> pm_available md
     \<and> hs_available h \<and> \<not> harnessSupportsModel re h provider (fm_modelId oc)"

definition familyModelSetup ::
  "(string \<Rightarrow> string \<Rightarrow> bool) \<Rightarrow> picker_settings \<Rightarrow> jsval \<Rightarrow> string option \<Rightarrow> model_setup option" where
  "familyModelSetup re s familyId harnessId =
     (if is_nullish familyId then None
      else (case recovery_for s familyId of
              Some (rc, reason) \<Rightarrow> Some (recovery_setup s rc reason)
            | None \<Rightarrow>
                (case find (\<lambda>f. eqId (pf_id f) familyId) (ps_families s) of
                   None \<Rightarrow> None
                 | Some family \<Rightarrow>
                     if \<not> pf_enabled family \<or> availableOrchestrator re s family harnessId \<noteq> None then None
                     else
                       let oc = familyOrchestrator family;
                           provider = Option.bind oc (\<lambda>m. providerFor s (fm_providerId m));
                           md = Option.bind oc (\<lambda>m. providerModel s (fm_providerId m) (fm_modelId m));
                           plain = orchestrator_setup family oc (case provider of None \<Rightarrow> False | Some p \<Rightarrow> \<not> pp_connected p) in
                       (case (oc, md, harnessFor s harnessId) of
                          (Some m, Some d, Some h) \<Rightarrow>
                            if is_mismatch re provider d m h
                            then Some (mismatch_setup family m d h (availablePickerFamilies re s harnessId \<noteq> []))
                            else Some plain
                        | _ \<Rightarrow> Some plain))))"

definition defaultFamilyModelSetup ::
  "(string \<Rightarrow> string \<Rightarrow> bool) \<Rightarrow> picker_settings \<Rightarrow> string option \<Rightarrow> model_setup option" where
  "defaultFamilyModelSetup re s harnessId = familyModelSetup re s (ps_defaultFamilyId s) harnessId"

record coded_error =
  ce_message :: string
  ce_code :: "string option"

definition defaultFamilyRecoveryError :: "(string \<Rightarrow> string \<Rightarrow> bool) \<Rightarrow> picker_settings \<Rightarrow> coded_error option" where
  "defaultFamilyRecoveryError re s =
     (case defaultFamilyModelSetup re s (ps_defaultHarnessId s) of
        None \<Rightarrow> None
      | Some m \<Rightarrow> Some \<lparr>ce_message = ''The default model family is unavailable. '' @ ms_message m,
          ce_code = Some (case Option.bind (ps_defaultFamilyRecovery s) rc_reason of
             None \<Rightarrow> ''model_family_unresolvable'' | Some r \<Rightarrow> rr_code r)\<rparr>)"

definition requireDefaultModelSelection ::
  "(string \<Rightarrow> string \<Rightarrow> bool) \<Rightarrow> 'sel option \<Rightarrow> picker_settings \<Rightarrow> string \<Rightarrow> coded_error + 'sel" where
  "requireDefaultModelSelection re selection s missingMessage =
     (case selection of
        Some x \<Rightarrow> Inr x
      | None \<Rightarrow> Inl (case defaultFamilyRecoveryError re s of
          Some e \<Rightarrow> e | None \<Rightarrow> \<lparr>ce_message = missingMessage, ce_code = None\<rparr>))"

section \<open>Selections\<close>

text \<open>A selection of a configured harness has no family, provider or model.\<close>

record selection =
  sl_harnessId :: "string option"
  sl_familyId :: jsval
  sl_providerId :: "string option"
  sl_modelId :: "string option"

definition bare_selection :: "string option \<Rightarrow> selection" where
  "bare_selection h = \<lparr>sl_harnessId = h, sl_familyId = JUndef, sl_providerId = None, sl_modelId = None\<rparr>"

definition selection_of :: "string option \<Rightarrow> model_family \<Rightarrow> family_member \<Rightarrow> selection" where
  "selection_of harnessId family m =
     \<lparr>sl_harnessId = harnessId, sl_familyId = pf_id family, sl_providerId = Some (fm_providerId m), sl_modelId = Some (fm_modelId m)\<rparr>"

definition firstAvailableSelection ::
  "(string \<Rightarrow> string \<Rightarrow> bool) \<Rightarrow> picker_settings \<Rightarrow> string option \<Rightarrow> selection option" where
  "firstAvailableSelection re s harnessId =
     (if defaultFamilyModelSetup re s harnessId \<noteq> None then None
      else
        let families = availablePickerFamilies re s harnessId;
            family = (if \<not> is_nullish (ps_defaultFamilyId s)
              then find (\<lambda>f. eqId (pf_id (pk_family f)) (ps_defaultFamilyId s)) families
              else (case families of [] \<Rightarrow> None | f # _ \<Rightarrow> Some f)) in
        Option.bind family (\<lambda>f. map_option (selection_of harnessId (pk_family f)) (pk_orchestrator f)))"

definition or_harness :: "string option \<Rightarrow> string option \<Rightarrow> string option" where
  "or_harness a b = (case a of None \<Rightarrow> b | Some _ \<Rightarrow> a)"

definition normalizePickerSelection ::
  "(string \<Rightarrow> string \<Rightarrow> bool) \<Rightarrow> picker_settings \<Rightarrow> selection option \<Rightarrow> selection option" where
  "normalizePickerSelection re s candidate =
     (let harnessId = or_harness (Option.bind candidate sl_harnessId) (ps_defaultHarnessId s) in
      if harnessUsesConfigurationModel s harnessId then Some (bare_selection harnessId)
      else
        (case availablePickerFamilies re s harnessId of
           [] \<Rightarrow> None
         | first # rest \<Rightarrow>
             let requested = nullish_or (case candidate of None \<Rightarrow> JUndef | Some c \<Rightarrow> sl_familyId c) (ps_defaultFamilyId s);
                 family = (if is_nullish requested then Some first
                   else find (\<lambda>f. eqId (pf_id (pk_family f)) requested) (first # rest)) in
             Option.bind family (\<lambda>f. map_option (selection_of harnessId (pk_family f)) (pk_orchestrator f))))"

definition defaultFamilySelection ::
  "(string \<Rightarrow> string \<Rightarrow> bool) \<Rightarrow> picker_settings \<Rightarrow> string option \<Rightarrow> selection option" where
  "defaultFamilySelection re s harnessId =
     (if is_nullish (ps_defaultFamilyId s) then None
      else normalizePickerSelection re s (Some ((bare_selection harnessId)\<lparr>sl_familyId := ps_defaultFamilyId s\<rparr>)))"

text \<open>\<open>String(selection?.providerId) === String(providerId)\<close>: a missing provider reads as \<open>undefined\<close>.\<close>

definition defaultFamilySelectionForProvider ::
  "(string \<Rightarrow> string \<Rightarrow> bool) \<Rightarrow> picker_settings \<Rightarrow> string option \<Rightarrow> string \<Rightarrow> selection option" where
  "defaultFamilySelectionForProvider re s harnessId providerId =
     (let sel = defaultFamilySelection re s harnessId in
      if (case Option.bind sel sl_providerId of None \<Rightarrow> ''undefined'' | Some p \<Rightarrow> p) = providerId then sel else None)"

definition reconcilePickerSelection ::
  "(string \<Rightarrow> string \<Rightarrow> bool) \<Rightarrow> picker_settings \<Rightarrow> selection option \<Rightarrow> selection option" where
  "reconcilePickerSelection re s candidate =
     (let harnessId = or_harness (Option.bind candidate sl_harnessId) (ps_defaultHarnessId s);
          full = (case candidate of None \<Rightarrow> bare_selection harnessId | Some c \<Rightarrow> c\<lparr>sl_harnessId := harnessId\<rparr>) in
      case normalizePickerSelection re s (Some full) of
        Some n \<Rightarrow> Some n
      | None \<Rightarrow>
          if \<not> is_nullish (sl_familyId full) \<and> sl_providerId full \<noteq> None \<and> sl_modelId full \<noteq> None then Some full else None)"

definition modelPickerContextCandidate ::
  "picker_settings \<Rightarrow> bool \<Rightarrow> string option \<Rightarrow> selection option \<Rightarrow> selection option \<Rightarrow> bool \<Rightarrow> selection" where
  "modelPickerContextCandidate s ongoing pinnedHarnessId currentSelection nextSelection replaceSelection =
     (let harnessId = (if ongoing then pinnedHarnessId
            else or_harness (Option.bind nextSelection sl_harnessId)
              (or_harness (if replaceSelection then None else Option.bind currentSelection sl_harnessId) (ps_defaultHarnessId s)));
          candidate = (if replaceSelection then nextSelection
            else (case currentSelection of Some c \<Rightarrow> Some c | None \<Rightarrow> nextSelection)) in
      (case candidate of None \<Rightarrow> bare_selection harnessId | Some c \<Rightarrow> c\<lparr>sl_harnessId := harnessId\<rparr>))"

definition pickerSelectionIsAvailable ::
  "(string \<Rightarrow> string \<Rightarrow> bool) \<Rightarrow> picker_settings \<Rightarrow> selection option \<Rightarrow> bool" where
  "pickerSelectionIsAvailable re s candidate =
     (case candidate of
        None \<Rightarrow> False
      | Some c \<Rightarrow>
          if truthy_str (sl_harnessId c) \<and> is_nullish (sl_familyId c) then harnessUsesConfigurationModel s (sl_harnessId c)
          else if is_nullish (sl_familyId c) \<or> sl_providerId c = None \<or> sl_modelId c = None then False
          else normalizePickerSelection re s candidate \<noteq> None)"

record interaction_models =
  im_selection :: "selection option"
  im_modelFamilyId :: jsval
  im_modelProviderId :: "string option"
  im_providerModelId :: "string option"

definition selectionForInteraction ::
  "(string \<Rightarrow> string \<Rightarrow> bool) \<Rightarrow> picker_settings \<Rightarrow> string option \<Rightarrow> interaction_models \<Rightarrow> selection option" where
  "selectionForInteraction re s harnessId i =
     reconcilePickerSelection re s (Some
       \<lparr>sl_harnessId = harnessId,
        sl_familyId = nullish_or (case im_selection i of None \<Rightarrow> JUndef | Some c \<Rightarrow> sl_familyId c) (im_modelFamilyId i),
        sl_providerId = or_harness (Option.bind (im_selection i) sl_providerId) (im_modelProviderId i),
        sl_modelId = or_harness (Option.bind (im_selection i) sl_modelId) (im_providerModelId i)\<rparr>)"

definition resolveUnsentModelIntent ::
  "(string \<Rightarrow> string \<Rightarrow> bool) \<Rightarrow> picker_settings \<Rightarrow> selection option \<Rightarrow> selection option \<times> jsval" where
  "resolveUnsentModelIntent re s candidate =
     (let harnessId = or_harness (Option.bind candidate sl_harnessId) (ps_defaultHarnessId s);
          familyId = (case candidate of None \<Rightarrow> JUndef | Some c \<Rightarrow> sl_familyId c) in
      if is_nullish familyId then (normalizePickerSelection re s (Some (bare_selection harnessId)), JNull)
      else (case find (\<lambda>f. eqId (pf_id f) familyId \<and> pf_enabled f) (ps_families s) of
              None \<Rightarrow> (None, familyId)
            | Some family \<Rightarrow>
                (case availableOrchestrator re s family harnessId of
                   None \<Rightarrow> (None, pf_id family)
                 | Some m \<Rightarrow> (Some (selection_of harnessId family m), JNull))))"

record picker_payload =
  py_harnessId :: "string option"
  py_familyId :: "jsval option"

definition pickerSelectionPayload :: "selection option \<Rightarrow> picker_payload option" where
  "pickerSelectionPayload sel =
     (case sel of
        None \<Rightarrow> None
      | Some c \<Rightarrow> Some \<lparr>py_harnessId = sl_harnessId c, py_familyId = if is_nullish (sl_familyId c) then None else Some (sl_familyId c)\<rparr>)"

section \<open>Lemmas\<close>

text \<open>A selection a harness can run now: its family is enabled and the member is the family's one orchestrator,
  connected, visible, available and supported.\<close>

definition runnable :: "(string \<Rightarrow> string \<Rightarrow> bool) \<Rightarrow> picker_settings \<Rightarrow> selection \<Rightarrow> bool" where
  "runnable re s sel \<longleftrightarrow>
     (\<exists>f \<in> set (ps_families s). \<exists>m oc h. pf_enabled f \<and> familyOrchestrator f = Some oc \<and> m \<in> set (pf_members f)
        \<and> fm_providerId m = fm_providerId oc \<and> fm_modelId m = fm_modelId oc
        \<and> harnessFor s (sl_harnessId sel) = Some h \<and> hs_available h \<and> member_available re s h m
        \<and> sel = selection_of (sl_harnessId sel) f m)"

lemma availableFamilyMembers_in:
  "m \<in> set (availableFamilyMembers re s f hid) \<Longrightarrow>
     m \<in> set (pf_members f) \<and> (\<exists>h. harnessFor s hid = Some h \<and> hs_available h \<and> member_available re s h m)"
  by (auto simp: availableFamilyMembers_def split: option.splits if_splits)

lemma availableOrchestrator_Some:
  assumes "availableOrchestrator re s f hid = Some m"
  obtains oc h where "familyOrchestrator f = Some oc" "m \<in> set (pf_members f)" "fm_providerId m = fm_providerId oc"
     "fm_modelId m = fm_modelId oc" "harnessFor s hid = Some h" "hs_available h" "member_available re s h m"
proof -
  from assms obtain oc where oc: "familyOrchestrator f = Some oc"
      "find (\<lambda>m. fm_providerId m = fm_providerId oc \<and> fm_modelId m = fm_modelId oc) (availableFamilyMembers re s f hid) = Some m"
    by (auto simp: availableOrchestrator_def split: option.splits)
  from find_SomeD [OF oc(2)] availableFamilyMembers_in [of m re s f hid] oc(1) that show thesis by blast
qed

lemma availablePickerFamilies_in:
  "f \<in> set (availablePickerFamilies re s hid) \<longleftrightarrow>
     (\<exists>g \<in> set (ps_families s). pf_enabled g \<and> availableOrchestrator re s g hid \<noteq> None
        \<and> f = \<lparr>pk_family = g, pk_availableMembers = availableFamilyMembers re s g hid,
                pk_orchestrator = availableOrchestrator re s g hid\<rparr>)"
  by (auto simp: availablePickerFamilies_def)

lemma picked_runnable:
  assumes "f \<in> set (availablePickerFamilies re s hid)" "pk_orchestrator f = Some m"
  shows "runnable re s (selection_of hid (pk_family f) m)"
proof -
  obtain g where g: "g \<in> set (ps_families s)" "pf_enabled g" "pk_family f = g" "availableOrchestrator re s g hid = Some m"
    using assms by (auto simp: availablePickerFamilies_in)
  from g(4) obtain oc h where "familyOrchestrator g = Some oc" "m \<in> set (pf_members g)" "fm_providerId m = fm_providerId oc"
     "fm_modelId m = fm_modelId oc" "harnessFor s hid = Some h" "hs_available h" "member_available re s h m"
    by (rule availableOrchestrator_Some)
  with g(1-3) show ?thesis unfolding runnable_def selection_of_def by (intro bexI [of _ g]) auto
qed

text \<open>Every selection the normalization returns comes from one family of the picker, or from a configured harness.\<close>

lemma normalize_cases:
  assumes "normalizePickerSelection re s candidate = Some sel"
  obtains (configured) hid where "harnessUsesConfigurationModel s hid" "sel = bare_selection hid"
      "hid = or_harness (Option.bind candidate sl_harnessId) (ps_defaultHarnessId s)"
    | (picked) hid f m where "\<not> harnessUsesConfigurationModel s hid" "f \<in> set (availablePickerFamilies re s hid)"
      "pk_orchestrator f = Some m" "sel = selection_of hid (pk_family f) m"
      "hid = or_harness (Option.bind candidate sl_harnessId) (ps_defaultHarnessId s)"
      "let q = nullish_or (case candidate of None \<Rightarrow> JUndef | Some c \<Rightarrow> sl_familyId c) (ps_defaultFamilyId s) in
         if is_nullish q then hd (availablePickerFamilies re s hid) = f
         else find (\<lambda>f. eqId (pf_id (pk_family f)) q) (availablePickerFamilies re s hid) = Some f"
proof -
  define hid where "hid = or_harness (Option.bind candidate sl_harnessId) (ps_defaultHarnessId s)"
  define q where "q = nullish_or (case candidate of None \<Rightarrow> JUndef | Some c \<Rightarrow> sl_familyId c) (ps_defaultFamilyId s)"
  show thesis
  proof (cases "harnessUsesConfigurationModel s hid")
    case True
    with assms configured [OF True] show thesis by (simp add: normalizePickerSelection_def hid_def)
  next
    case False
    with assms obtain first rest f m where fs: "availablePickerFamilies re s hid = first # rest"
        "(if is_nullish q then Some first else find (\<lambda>f. eqId (pf_id (pk_family f)) q) (first # rest)) = Some f"
        "pk_orchestrator f = Some m" "sel = selection_of hid (pk_family f) m"
      unfolding normalizePickerSelection_def Let_def hid_def [symmetric] q_def [symmetric]
      by (simp split: list.splits) (auto simp: bind_eq_Some_conv simp del: find.simps)
    have "f \<in> set (availablePickerFamilies re s hid)"
      using fs(1,2) find_SomeD [of _ "first # rest" f] by (auto split: if_splits simp del: find.simps)
    with False fs show thesis
      by (intro picked [of hid f m]) (simp_all add: hid_def q_def Let_def split: if_splits del: find.simps)
  qed
qed

section \<open>Properties\<close>


definition demo_orchestrator :: family_member where
  "demo_orchestrator = \<lparr>fm_providerId = ''p'', fm_modelId = ''m'', fm_position = 0, fm_roles = [''orchestrator'']\<rparr>"

definition demo_family :: model_family where
  "demo_family = \<lparr>pf_id = JNum 1, pf_name = ''F'', pf_enabled = True, pf_position = 0, pf_members = [demo_orchestrator]\<rparr>"

definition demo_harness :: harness where
  "demo_harness = \<lparr>hs_id = ''h'', hs_label = None, hs_available = True, hs_modelRules = None, hs_modelCompatibility = [],
     hs_compatibleProviderIds = Some [''p''], hs_permissionAvailable = True, hs_usableFamilyIds = None\<rparr>"

definition demo_settings :: picker_settings where
  "demo_settings = \<lparr>ps_families = [demo_family],
     ps_providers = [\<lparr>pp_id = ''p'', pp_label = None, pp_adapterId = None, pp_connected = True,
       pp_models = [\<lparr>pm_id = ''m'', pm_label = None, pm_visible = True, pm_available = True\<rparr>]\<rparr>],
     ps_harnesses = [demo_harness], ps_defaultHarnessId = Some ''h'', ps_defaultFamilyId = JNum 1,
     ps_compatibility = NoCompatibility, ps_defaultFamilyRecovery = None, ps_familiesNeedingModelSetup = []\<rparr>"

definition demo_re :: "string \<Rightarrow> string \<Rightarrow> bool" where
  "demo_re r m = False"

lemmas demo_picker_defs = demo_settings_def demo_family_def demo_harness_def demo_orchestrator_def
  harnessFor_def providerFor_def providerModel_def harnessSupportsModel_def member_available_def
  availableFamilyMembers_def familyOrchestrator_def availableOrchestrator_def availablePickerFamilies_def
  harnessUsesConfigurationModel_def or_harness_def

lemma demo_orchestrator_available: "availableOrchestrator demo_re demo_settings demo_family (Some ''h'') = Some demo_orchestrator"
  by (simp add: demo_picker_defs)

lemma demo_normalized:
  "normalizePickerSelection demo_re demo_settings None = Some (selection_of (Some ''h'') demo_family demo_orchestrator)"
  by (simp add: normalizePickerSelection_def demo_picker_defs nullish_or_def)


lemma normalize_harness:
  "normalizePickerSelection re s candidate = Some sel \<Longrightarrow>
     sl_harnessId sel = or_harness (Option.bind candidate sl_harnessId) (ps_defaultHarnessId s)"
  by (erule normalize_cases) (simp_all add: bare_selection_def selection_of_def)

lemma find_same_class:
  assumes "find (\<lambda>f. eqId (g f) q) fs = Some f"
  shows "find (\<lambda>x. eqId (g x) (g f)) fs = Some f"
proof -
  have "eqId (g f) q" using find_SomeD [OF assms] by simp
  then have "(\<lambda>x. eqId (g x) (g f)) = (\<lambda>x. eqId (g x) q)" by (auto simp: fun_eq_iff eqId_def)
  with assms show ?thesis by simp
qed

text \<open>Normalizing a selection is idempotent, and what it returns counts as available.\<close>

theorem picker_normalization_idempotent:
  assumes "normalizePickerSelection re s candidate = Some sel"
    and "\<forall>f \<in> set (ps_families s). \<not> is_nullish (pf_id f)" and "\<forall>h \<in> set (ps_harnesses s). hs_id h \<noteq> []"
  shows "normalizePickerSelection re s (Some sel) = Some sel \<and> pickerSelectionIsAvailable re s (Some sel)"
proof -
  have same: "or_harness (sl_harnessId sel) (ps_defaultHarnessId s) = sl_harnessId sel"
    using normalize_harness [OF assms(1)]
    by (cases "Option.bind candidate sl_harnessId"; cases "ps_defaultHarnessId s") (auto simp: or_harness_def)
  have "normalizePickerSelection re s (Some sel) = Some sel
      \<and> (is_nullish (sl_familyId sel) \<longrightarrow> harnessUsesConfigurationModel s (sl_harnessId sel))
      \<and> (\<not> is_nullish (sl_familyId sel) \<longrightarrow> sl_providerId sel \<noteq> None \<and> sl_modelId sel \<noteq> None)"
    using assms(1)
  proof (cases rule: normalize_cases)
    case (configured hid)
    with same show ?thesis by (simp add: normalizePickerSelection_def bare_selection_def)
  next
    case (picked hid f m)
    let ?fs = "availablePickerFamilies re s hid"
    have hid: "sl_harnessId sel = hid" "sl_familyId sel = pf_id (pk_family f)"
      using picked(4) by (simp_all add: selection_of_def)
    have nn: "\<not> is_nullish (pf_id (pk_family f))" using picked(2) assms(2) by (auto simp: availablePickerFamilies_in)
    obtain first rest where fs: "?fs = first # rest" using picked(2) by (cases ?fs) auto
    have "find (\<lambda>x. eqId (pf_id (pk_family x)) (pf_id (pk_family f))) ?fs = Some f"
    proof (cases "is_nullish (nullish_or (case candidate of None \<Rightarrow> JUndef | Some c \<Rightarrow> sl_familyId c) (ps_defaultFamilyId s))")
      case True
      with picked(6) fs have "first = f" by (simp add: Let_def)
      with fs show ?thesis by simp
    next
      case False
      with picked(6) show ?thesis
        by (intro find_same_class [of "\<lambda>x. pf_id (pk_family x)"]) (simp add: Let_def)
    qed
    with picked(1,3,4) same hid nn fs show ?thesis
      by (simp add: normalizePickerSelection_def nullish_or_def Let_def selection_of_def del: find.simps)
  qed
  moreover have "truthy_str (sl_harnessId sel)" if "harnessUsesConfigurationModel s (sl_harnessId sel)"
  proof -
    from that obtain h where "harnessFor s (sl_harnessId sel) = Some h"
      by (auto simp: harnessUsesConfigurationModel_def split: if_splits option.splits)
    then have "h \<in> set (ps_harnesses s)" "Some (hs_id h) = sl_harnessId sel" by (auto simp: harnessFor_def dest: find_SomeD)
    with assms(3) show ?thesis by (auto simp: truthy_str_def simp flip: \<open>Some (hs_id h) = _\<close>)
  qed
  ultimately show ?thesis by (auto simp: pickerSelectionIsAvailable_def)
qed

theorem picker_normalization_idempotent_witness:
  "pickerSelectionIsAvailable demo_re demo_settings (Some (selection_of (Some ''h'') demo_family demo_orchestrator))"
  using picker_normalization_idempotent [OF demo_normalized]
  by (simp add: demo_settings_def demo_family_def demo_harness_def)

text \<open>An enabled family without a recorded recovery can be picked for a harness exactly when it needs no setup:
  the picker never hides a family without explaining what it needs.\<close>

theorem pickable_iff_no_setup:
  assumes "f \<in> set (ps_families s)" "pf_enabled f" "\<not> is_nullish (pf_id f)"
    and "distinct (map (\<lambda>g. js_String (pf_id g)) (ps_families s))" and "recovery_for s (pf_id f) = None"
  shows "familyModelSetup re s (pf_id f) hid = None \<longleftrightarrow> (\<exists>p \<in> set (availablePickerFamilies re s hid). pk_family p = f)"
proof -
  obtain g where g: "find (\<lambda>g. eqId (pf_id g) (pf_id f)) (ps_families s) = Some g"
    using assms(1) by (cases "find (\<lambda>g. eqId (pf_id g) (pf_id f)) (ps_families s)") (auto simp: find_None_iff)
  from find_SomeD [OF g] assms(1,4) have "g = f" by (auto simp: eqId_def distinct_map dest: inj_onD)
  with g have "familyModelSetup re s (pf_id f) hid = None \<longleftrightarrow> availableOrchestrator re s f hid \<noteq> None"
    using assms(2,3,5) by (auto simp: familyModelSetup_def Let_def split: option.splits)
  also have "\<dots> \<longleftrightarrow> (\<exists>p \<in> set (availablePickerFamilies re s hid). pk_family p = f)"
    using assms(1,2) availablePickerFamilies_in [of _ re s hid]
    by (force simp: availablePickerFamilies_in)
  finally show ?thesis .
qed

theorem pickable_iff_no_setup_witness:
  "familyModelSetup demo_re demo_settings (pf_id demo_family) (Some ''h'') = None"
proof -
  have "\<exists>p \<in> set (availablePickerFamilies demo_re demo_settings (Some ''h'')). pk_family p = demo_family"
    by (simp add: demo_picker_defs)
  moreover have "familyModelSetup demo_re demo_settings (pf_id demo_family) (Some ''h'') = None
      \<longleftrightarrow> (\<exists>p \<in> set (availablePickerFamilies demo_re demo_settings (Some ''h'')). pk_family p = demo_family)"
    by (rule pickable_iff_no_setup) (simp_all add: demo_settings_def demo_family_def recovery_for_def)
  ultimately show ?thesis by blast
qed

text \<open>Nothing switches the family a person chose. An unsent choice of a family resolves to a runnable selection of
  that family, or names that family as blocked; an automatic selection is of the default family where there is
  one, and is refused while that family needs setup.\<close>

theorem family_choice_is_kept:
  assumes "candidate = Some c" "\<not> is_nullish (sl_familyId c)"
  shows "(case resolveUnsentModelIntent re s candidate of
       (Some sel, blocked) \<Rightarrow> blocked = JNull \<and> runnable re s sel \<and> eqId (sl_familyId sel) (sl_familyId c)
     | (None, blocked) \<Rightarrow> eqId blocked (sl_familyId c))
    \<and> (\<forall>hid sel. firstAvailableSelection re s hid = Some sel \<longrightarrow>
         runnable re s sel \<and> defaultFamilyModelSetup re s hid = None
         \<and> (is_nullish (ps_defaultFamilyId s) \<or> eqId (sl_familyId sel) (ps_defaultFamilyId s)))"
proof
  let ?hid = "or_harness (sl_harnessId c) (ps_defaultHarnessId s)"
  show "case resolveUnsentModelIntent re s candidate of
       (Some sel, blocked) \<Rightarrow> blocked = JNull \<and> runnable re s sel \<and> eqId (sl_familyId sel) (sl_familyId c)
     | (None, blocked) \<Rightarrow> eqId blocked (sl_familyId c)"
  proof (cases "find (\<lambda>f. eqId (pf_id f) (sl_familyId c) \<and> pf_enabled f) (ps_families s)")
    case None
    with assms show ?thesis by (simp add: resolveUnsentModelIntent_def)
  next
    case (Some f)
    have f: "f \<in> set (ps_families s)" "eqId (pf_id f) (sl_familyId c)" "pf_enabled f" using find_SomeD [OF Some] by auto
    show ?thesis
    proof (cases "availableOrchestrator re s f ?hid")
      case None
      with Some f assms show ?thesis by (simp add: resolveUnsentModelIntent_def)
    next
      case (Some m)
      let ?p = "\<lparr>pk_family = f, pk_availableMembers = availableFamilyMembers re s f ?hid, pk_orchestrator = availableOrchestrator re s f ?hid\<rparr>"
      have "?p \<in> set (availablePickerFamilies re s ?hid)" using f Some by (auto simp: availablePickerFamilies_in)
      from picked_runnable [OF this] Some have "runnable re s (selection_of ?hid f m)" by simp
      with Some \<open>find _ _ = Some f\<close> f assms show ?thesis by (simp add: resolveUnsentModelIntent_def selection_of_def)
    qed
  qed
  show "\<forall>hid sel. firstAvailableSelection re s hid = Some sel \<longrightarrow>
         runnable re s sel \<and> defaultFamilyModelSetup re s hid = None
         \<and> (is_nullish (ps_defaultFamilyId s) \<or> eqId (sl_familyId sel) (ps_defaultFamilyId s))"
  proof (intro allI impI)
    fix hid sel assume a: "firstAvailableSelection re s hid = Some sel"
    let ?fs = "availablePickerFamilies re s hid"
    let ?pick = "if \<not> is_nullish (ps_defaultFamilyId s) then find (\<lambda>f. eqId (pf_id (pk_family f)) (ps_defaultFamilyId s)) ?fs
      else (case ?fs of [] \<Rightarrow> None | f # _ \<Rightarrow> Some f)"
    obtain f m where f: "?pick = Some f" "pk_orchestrator f = Some m" "sel = selection_of hid (pk_family f) m"
        "defaultFamilyModelSetup re s hid = None"
      using a by (auto simp: firstAvailableSelection_def Let_def bind_eq_Some_conv split: if_splits)
    have "f \<in> set ?fs" "is_nullish (ps_defaultFamilyId s) \<or> eqId (pf_id (pk_family f)) (ps_defaultFamilyId s)"
      using f(1) by (auto split: if_splits list.splits dest: find_SomeD)
    with picked_runnable [OF this(1) f(2)] f(3,4)
    show "runnable re s sel \<and> defaultFamilyModelSetup re s hid = None
         \<and> (is_nullish (ps_defaultFamilyId s) \<or> eqId (sl_familyId sel) (ps_defaultFamilyId s))"
      by (simp add: selection_of_def)
  qed
qed

theorem family_choice_is_kept_witness:
  "case resolveUnsentModelIntent demo_re demo_settings (Some ((bare_selection None)\<lparr>sl_familyId := JNum 2\<rparr>)) of
       (Some sel, blocked) \<Rightarrow> blocked = JNull \<and> runnable demo_re demo_settings sel
         \<and> eqId (sl_familyId sel) (sl_familyId ((bare_selection None)\<lparr>sl_familyId := JNum 2\<rparr>))
     | (None, blocked) \<Rightarrow> eqId blocked (sl_familyId ((bare_selection None)\<lparr>sl_familyId := JNum 2\<rparr>))"
  by (rule family_choice_is_kept [OF refl, THEN conjunct1]) simp

end
