(* ===== verification/Tutorial.thy ===== *)
theory Tutorial
  imports ProductRows
begin

text \<open>
  The onboarding tutorial: its reducer in the renderer
  (\<open>desktop/renderer/src/onboarding-tutorial-state.js\<close>) and its lifecycle in the main process
  (\<open>desktop/main/services/tutorial-lifecycle.mjs\<close>). The reducer is a function on a state record; the
  inductive relation \<open>tutorial_move\<close> is its abstract specification, and \<open>reduce_refines\<close> shows that
  every effective event is such a move. The lifecycle's store of settings is outside this module: \<open>update\<close>
  applies a function to the stored settings atomically, so an operation is a function on them. The
  lemmas: the tutorial completes only through all of its steps in order, its end states absorb, its thread
  never changes, and the automatic tutorial starts at most once.
\<close>

section \<open>The tutorial's target\<close>

record tutorial_action = graph_action +
  ga_interactionText :: "string option"

record tutorial_layer =
  tl_nodeIds :: "jsval list"
  tl_actions :: "tutorial_action list"

record tutorial_target =
  tt_nodeId :: jsval
  tt_actionId :: jsval
  tt_actionKind :: action_kind

definition actionable :: "tutorial_layer \<Rightarrow> string list \<Rightarrow> string list \<Rightarrow> tutorial_action \<Rightarrow> bool" where
  "actionable layer invoked disabled a \<longleftrightarrow>
     \<not> is_nullish (ga_id a) \<and> list_ex (\<lambda>n. sameId n (ga_sourceNodeId a)) (tl_nodeIds layer)
     \<and> \<not> id_in (ga_id a) invoked \<and> \<not> id_in (ga_id a) disabled
     \<and> ((ga_kind a = NavigateAction \<and> \<not> is_nullish (ga_targetLayerId a))
        \<or> (ga_kind a = InvokeAction \<and> is_nullish (ga_targetLayerId a)
           \<and> (case ga_interactionText a of None \<Rightarrow> False | Some t \<Rightarrow> js_trim t \<noteq> [])))"

definition selectOnboardingTutorialAction ::
  "tutorial_layer option \<Rightarrow> jsval list \<Rightarrow> jsval list \<Rightarrow> tutorial_target option" where
  "selectOnboardingTutorialAction layer invokedIds disabledIds =
     (case layer of
        None \<Rightarrow> None
      | Some l \<Rightarrow>
          let candidates = filter (actionable l (map js_String invokedIds) (map js_String disabledIds)) (tl_actions l);
              pick = (case find (\<lambda>a. ga_kind a = NavigateAction) candidates of
                        Some a \<Rightarrow> Some a
                      | None \<Rightarrow> (case candidates of [] \<Rightarrow> None | a # _ \<Rightarrow> Some a)) in
          map_option (\<lambda>a. \<lparr>tt_nodeId = ga_sourceNodeId a, tt_actionId = ga_id a, tt_actionKind = ga_kind a\<rparr>) pick)"

section \<open>The reducer\<close>

datatype tutorial_phase =
    InitialComposer | AwaitingAcceptedResponse | SelectNode | UseAction | WriteFollowUp | Complete | Dismissed

record tutorial_state =
  tu_phase :: tutorial_phase
  tu_threadId :: jsval
  tu_interactionId :: jsval
  tu_target :: "tutorial_target option"
  tu_reason :: "string option"

record tutorial_event =
  te_type :: "string option"
  te_threadId :: jsval
  te_interactionId :: jsval
  te_nodeId :: jsval
  te_actionId :: jsval
  te_resultInteractionId :: jsval
  te_status :: string
  te_layer :: "tutorial_layer option"
  te_invokedActionIds :: "jsval list"
  te_disabledActionIds :: "jsval list"

definition createOnboardingTutorialState :: tutorial_state where
  "createOnboardingTutorialState =
     \<lparr>tu_phase = InitialComposer, tu_threadId = JNull, tu_interactionId = JNull, tu_target = None, tu_reason = None\<rparr>"

definition dismissReason :: "string \<Rightarrow> string option" where
  "dismissReason ty = (if ty = ''skip'' then Some ''skipped'' else if ty = ''leave'' then Some ''left''
     else if ty = ''close'' then Some ''closed'' else None)"

definition dismissed_state :: "tutorial_state \<Rightarrow> string \<Rightarrow> tutorial_state" where
  "dismissed_state st reason =
     \<lparr>tu_phase = Dismissed, tu_threadId = tu_threadId st, tu_interactionId = tu_interactionId st, tu_target = None,
      tu_reason = Some reason\<rparr>"

definition phase_state :: "tutorial_phase \<Rightarrow> jsval \<Rightarrow> jsval \<Rightarrow> tutorial_target option \<Rightarrow> tutorial_state" where
  "phase_state p th i target = \<lparr>tu_phase = p, tu_threadId = th, tu_interactionId = i, tu_target = target, tu_reason = None\<rparr>"

definition same_interaction :: "tutorial_state \<Rightarrow> tutorial_event \<Rightarrow> bool" where
  "same_interaction st e \<longleftrightarrow> sameId (te_threadId e) (tu_threadId st) \<and> sameId (te_interactionId e) (tu_interactionId st)"

definition target_node :: "tutorial_state \<Rightarrow> jsval" where
  "target_node st = (case tu_target st of None \<Rightarrow> JUndef | Some t \<Rightarrow> tt_nodeId t)"

definition target_action :: "tutorial_state \<Rightarrow> jsval" where
  "target_action st = (case tu_target st of None \<Rightarrow> JUndef | Some t \<Rightarrow> tt_actionId t)"

definition reduce_awaiting :: "tutorial_state \<Rightarrow> string \<Rightarrow> tutorial_event \<Rightarrow> tutorial_state" where
  "reduce_awaiting st ty e =
     (if ty = ''response-terminal'' \<and> same_interaction st e then
        (if te_status e \<notin> {''failed'', ''cancelled'', ''stopped''} then st
         else dismissed_state st (''response-'' @ te_status e))
      else if ty \<noteq> ''response-accepted'' \<or> \<not> same_interaction st e then st
      else
        (case selectOnboardingTutorialAction (te_layer e) (te_invokedActionIds e) (te_disabledActionIds e) of
           None \<Rightarrow> dismissed_state st ''no-action''
         | Some t \<Rightarrow> phase_state SelectNode (tu_threadId st) (tu_interactionId st) (Some t)))"

definition reduce_use_action :: "tutorial_state \<Rightarrow> string \<Rightarrow> tutorial_event \<Rightarrow> tutorial_state" where
  "reduce_use_action st ty e =
     (if ty = ''node-selected'' \<and> same_interaction st e \<and> \<not> sameId (te_nodeId e) (target_node st)
      then phase_state SelectNode (tu_threadId st) (tu_interactionId st) (tu_target st)
      else if ty \<noteq> ''action-succeeded'' \<or> \<not> same_interaction st e \<or> \<not> sameId (te_actionId e) (target_action st) then st
      else if (case tu_target st of None \<Rightarrow> False | Some t \<Rightarrow> tt_actionKind t = NavigateAction)
      then phase_state WriteFollowUp (tu_threadId st) (tu_interactionId st) None
      else if is_nullish (te_resultInteractionId e) then st
      else phase_state AwaitingAcceptedResponse (tu_threadId st) (te_resultInteractionId e) None)"

definition reduce_phase :: "tutorial_state \<Rightarrow> string \<Rightarrow> tutorial_event \<Rightarrow> tutorial_state" where
  "reduce_phase st ty e =
     (case tu_phase st of
        InitialComposer \<Rightarrow>
          if ty \<noteq> ''thread-created'' \<or> is_nullish (te_threadId e) \<or> is_nullish (te_interactionId e) then st
          else phase_state AwaitingAcceptedResponse (te_threadId e) (te_interactionId e) None
      | AwaitingAcceptedResponse \<Rightarrow> reduce_awaiting st ty e
      | SelectNode \<Rightarrow>
          if ty \<noteq> ''node-selected'' \<or> \<not> same_interaction st e \<or> \<not> sameId (te_nodeId e) (target_node st) then st
          else phase_state UseAction (tu_threadId st) (tu_interactionId st) (tu_target st)
      | UseAction \<Rightarrow> reduce_use_action st ty e
      | WriteFollowUp \<Rightarrow>
          if ty \<noteq> ''followup-submitted'' \<or> \<not> sameId (te_threadId e) (tu_threadId st) then st
          else phase_state Complete (tu_threadId st) (nullish_or (te_interactionId e) (tu_interactionId st)) None
      | Complete \<Rightarrow> st
      | Dismissed \<Rightarrow> st)"

definition reduceOnboardingTutorial :: "tutorial_state option \<Rightarrow> tutorial_event option \<Rightarrow> tutorial_state result" where
  "reduceOnboardingTutorial current event =
     (case (current, Option.bind event te_type, event) of
        (Some st, Some ty, Some e) \<Rightarrow>
          if ty = [] then Inl (TypeError ''Tutorial state and event type are required.'')
          else if tu_phase st = Complete \<or> tu_phase st = Dismissed then Inr st
          else (case dismissReason ty of Some r \<Rightarrow> Inr (dismissed_state st r) | None \<Rightarrow> Inr (reduce_phase st ty e))
      | _ \<Rightarrow> Inl (TypeError ''Tutorial state and event type are required.''))"

section \<open>The moves of the tutorial\<close>

text \<open>The specification: what the tutorial may do, named by the type of the event that does it.\<close>

inductive tutorial_move :: "tutorial_state \<Rightarrow> string \<Rightarrow> tutorial_state \<Rightarrow> bool" where
  dismiss: "tu_phase st \<notin> {Complete, Dismissed} \<Longrightarrow> tutorial_move st ty (dismissed_state st r)"
| started: "tu_phase st = InitialComposer \<Longrightarrow> tutorial_move st ''thread-created'' (phase_state AwaitingAcceptedResponse th i None)"
| accepted: "tu_phase st = AwaitingAcceptedResponse
    \<Longrightarrow> tutorial_move st ''response-accepted'' (phase_state SelectNode (tu_threadId st) (tu_interactionId st) (Some t))"
| selected: "tu_phase st = SelectNode
    \<Longrightarrow> tutorial_move st ''node-selected'' (phase_state UseAction (tu_threadId st) (tu_interactionId st) (tu_target st))"
| deselected: "tu_phase st = UseAction
    \<Longrightarrow> tutorial_move st ''node-selected'' (phase_state SelectNode (tu_threadId st) (tu_interactionId st) (tu_target st))"
| navigated: "tu_phase st = UseAction \<Longrightarrow> tu_target st = Some t \<Longrightarrow> tt_actionKind t = NavigateAction
    \<Longrightarrow> tutorial_move st ''action-succeeded'' (phase_state WriteFollowUp (tu_threadId st) (tu_interactionId st) None)"
| invoked: "tu_phase st = UseAction
    \<Longrightarrow> tutorial_move st ''action-succeeded'' (phase_state AwaitingAcceptedResponse (tu_threadId st) i None)"
| followed: "tu_phase st = WriteFollowUp
    \<Longrightarrow> tutorial_move st ''followup-submitted'' (phase_state Complete (tu_threadId st) i None)"

inductive_cases tutorial_moveE: "tutorial_move st ty st'"

lemma reduce_refines:
  assumes "reduceOnboardingTutorial (Some st) (Some e) = Inr st'" "st' \<noteq> st"
  obtains ty where "te_type e = Some ty" "tutorial_move st ty st'"
proof -
  obtain ty where ty: "te_type e = Some ty" "tu_phase st \<notin> {Complete, Dismissed}"
      "case dismissReason ty of Some r \<Rightarrow> st' = dismissed_state st r | None \<Rightarrow> st' = reduce_phase st ty e"
    using assms by (auto simp: reduceOnboardingTutorial_def split: option.splits if_splits)
  have "tutorial_move st ty st'"
  proof (cases "dismissReason ty")
    case (Some r)
    with ty show ?thesis by (simp add: dismiss)
  next
    case None
    with ty(3) have st': "st' = reduce_phase st ty e" by simp
    with assms(2) ty(2) show ?thesis
      by (cases "tu_phase st")
        (auto simp: reduce_phase_def reduce_awaiting_def reduce_use_action_def split: if_splits option.splits
          intro: tutorial_move.intros)
  qed
  with ty(1) that show thesis by blast
qed

section \<open>The lifecycle\<close>

text \<open>The \<open>tutorial\<close> property of the stored settings: missing, a marker of this version, or anything else.
  The other settings are carried along untouched.\<close>

datatype terminal_status = StDismissed | StCompleted

datatype tutorial_marker = NoMarker | Marker terminal_status | OtherMarker

record 'r settings =
  se_tutorial :: tutorial_marker
  se_rest :: 'r

datatype tutorial_status = NeverShown | Terminal terminal_status

definition tutorialStatus :: "'r settings \<Rightarrow> tutorial_status" where
  "tutorialStatus s = (case se_tutorial s of NoMarker \<Rightarrow> NeverShown | Marker t \<Rightarrow> Terminal t | OtherMarker \<Rightarrow> Terminal StDismissed)"

record raw_context =
  rx_surface :: "string option"
  rx_providerConnected :: "bool option"
  rx_threadCount :: jsnum

record tutorial_context =
  tx_providerConnected :: bool
  tx_threadCount :: int

definition automaticContext :: "raw_context option \<Rightarrow> tutorial_context result" where
  "automaticContext value =
     (case value of
        None \<Rightarrow> Inl (TypeError ''Tutorial context must be an object.'')
      | Some v \<Rightarrow>
          if rx_surface v \<noteq> Some ''product''
          then Inl (TypeError ''Automatic tutorials are available only in the writable product surface.'')
          else (case rx_providerConnected v of
                  None \<Rightarrow> Inl (TypeError ''Tutorial providerConnected must be a boolean.'')
                | Some c \<Rightarrow>
                    if \<not> is_safe_integer (rx_threadCount v) \<or> num_val (rx_threadCount v) < 0
                    then Inl (TypeError ''Tutorial threadCount must be a non-negative integer.'')
                    else Inr \<lparr>tx_providerConnected = c, tx_threadCount = num_val (rx_threadCount v)\<rparr>))"

definition automaticEligible :: "'r settings \<Rightarrow> tutorial_context \<Rightarrow> bool" where
  "automaticEligible s c \<longleftrightarrow> tutorialStatus s = NeverShown \<and> tx_providerConnected c \<and> tx_threadCount c = 0"

definition stateFor :: "'r settings \<Rightarrow> tutorial_context \<Rightarrow> tutorial_status \<times> bool" where
  "stateFor s c = (tutorialStatus s, automaticEligible s c)"

definition terminalSettings :: "'r settings \<Rightarrow> terminal_status \<Rightarrow> 'r settings" where
  "terminalSettings s t = s\<lparr>se_tutorial := Marker t\<rparr>"

definition life_read :: "raw_context option \<Rightarrow> 'r settings \<Rightarrow> (tutorial_status \<times> bool) result" where
  "life_read ctx s = bind_r (automaticContext ctx) (\<lambda>c. Inr (stateFor s c))"

text \<open>The result: the state after, and whether the tutorial started.\<close>

definition beginAutomatic :: "raw_context option \<Rightarrow> 'r settings \<Rightarrow> ((tutorial_status \<times> bool) \<times> bool) result \<times> 'r settings" where
  "beginAutomatic ctx s =
     (case automaticContext ctx of
        Inl e \<Rightarrow> (Inl e, s)
      | Inr c \<Rightarrow>
          let started = automaticEligible s c;
              next = (if started then terminalSettings s StDismissed else s) in
          (Inr (stateFor next c, started), next))"

definition beginManual :: "'r settings \<Rightarrow> tutorial_status \<times> 'r settings" where
  "beginManual s =
     (let next = (if tutorialStatus s = NeverShown then terminalSettings s StDismissed else s) in (tutorialStatus next, next))"

definition life_dismiss :: "'r settings \<Rightarrow> tutorial_status \<times> 'r settings" where
  "life_dismiss s =
     (let next = terminalSettings s (if tutorialStatus s = Terminal StCompleted then StCompleted else StDismissed) in
      (tutorialStatus next, next))"

definition life_complete :: "'r settings \<Rightarrow> tutorial_status \<times> 'r settings" where
  "life_complete s = (let next = terminalSettings s StCompleted in (tutorialStatus next, next))"

datatype life_call = BeginAutomatic "raw_context option" | BeginManual | LifeDismiss | LifeComplete

text \<open>One call, with whether it started an automatic tutorial.\<close>

fun life_step :: "life_call \<Rightarrow> 'r settings \<Rightarrow> bool \<times> 'r settings" where
  "life_step (BeginAutomatic ctx) s = (case beginAutomatic ctx s of (Inr (_, b), s') \<Rightarrow> (b, s') | (Inl _, s') \<Rightarrow> (False, s'))"
| "life_step BeginManual s = (False, snd (beginManual s))"
| "life_step LifeDismiss s = (False, snd (life_dismiss s))"
| "life_step LifeComplete s = (False, snd (life_complete s))"

fun life_run :: "life_call list \<Rightarrow> 'r settings \<Rightarrow> bool list \<times> 'r settings" where
  "life_run [] s = ([], s)"
| "life_run (c # cs) s = (case life_step c s of (b, s') \<Rightarrow> (case life_run cs s' of (bs, s'') \<Rightarrow> (b # bs, s'')))"

section \<open>Lemmas\<close>

definition tutorial_next :: "tutorial_event \<Rightarrow> tutorial_state \<Rightarrow> tutorial_state" where
  "tutorial_next e st = (case reduceOnboardingTutorial (Some st) (Some e) of Inl _ \<Rightarrow> st | Inr st' \<Rightarrow> st')"

lemma tutorial_next_cases:
  obtains (same) "tutorial_next e st = st" | (moved) ty where "te_type e = Some ty" "tutorial_move st ty (tutorial_next e st)"
proof (cases "tutorial_next e st = st")
  case False
  then have "reduceOnboardingTutorial (Some st) (Some e) = Inr (tutorial_next e st)"
    by (auto simp: tutorial_next_def split: sum.splits)
  from reduce_refines [OF this False] moved show thesis by blast
qed (rule same)

lemma move_simps [simp]:
  "tu_phase (phase_state p th i t) = p" "tu_threadId (phase_state p th i t) = th"
  "tu_phase (dismissed_state st r) = Dismissed" "tu_threadId (dismissed_state st r) = tu_threadId st"
  by (simp_all add: phase_state_def dismissed_state_def)

text \<open>The steps a phase presupposes.\<close>

fun steps_before :: "tutorial_phase \<Rightarrow> string list" where
  "steps_before InitialComposer = []"
| "steps_before AwaitingAcceptedResponse = [''thread-created'']"
| "steps_before SelectNode = [''thread-created'', ''response-accepted'']"
| "steps_before UseAction = [''thread-created'', ''response-accepted'', ''node-selected'']"
| "steps_before WriteFollowUp = [''thread-created'', ''response-accepted'', ''node-selected'', ''action-succeeded'']"
| "steps_before Complete = [''thread-created'', ''response-accepted'', ''node-selected'', ''action-succeeded'', ''followup-submitted'']"
| "steps_before Dismissed = []"

lemma subseq_snoc: "subseq xs ys \<Longrightarrow> subseq xs (ys @ [y])"
  by (rule subseq_order.trans) auto

lemma move_steps:
  assumes "tutorial_move st ty st'" "subseq (steps_before (tu_phase st)) seen"
  shows "subseq (steps_before (tu_phase st')) (seen @ [ty])"
proof -
  note keep = subseq_snoc [of _ seen ty]
  have snoc: "subseq xs seen \<Longrightarrow> subseq (xs @ [ty]) (seen @ [ty])" for xs by (rule list_emb_append_mono) auto
  have pre: "subseq (xs @ ys) seen \<Longrightarrow> subseq xs seen" for xs ys by (rule subseq_order.trans [of _ "xs @ ys"]) auto
  show ?thesis
    using assms(1)
  proof (cases rule: tutorial_move.cases)
    case deselected
    with assms(2) pre [of "[''thread-created'', ''response-accepted'']" "[''node-selected'']"] keep show ?thesis by simp
  next
    case (invoked i)
    with assms(2) pre [of "[''thread-created'']" "[''response-accepted'', ''node-selected'']"] keep show ?thesis by simp
  qed (use assms(2) snoc [of "steps_before (tu_phase st)"] in simp_all)
qed

lemma move_thread:
  "tutorial_move st ty st' \<Longrightarrow> tu_phase st \<noteq> InitialComposer \<Longrightarrow> tu_threadId st' = tu_threadId st \<and> tu_phase st' \<noteq> InitialComposer"
  by (erule tutorial_moveE) auto

lemma move_final: "tutorial_move st ty st' \<Longrightarrow> tu_phase st \<notin> {Complete, Dismissed}"
  by (erule tutorial_moveE) auto

section \<open>Properties\<close>

text \<open>The tutorial completes only through its steps: in any run that ends complete a thread was created, its
  response accepted, the target node selected, its action succeeded and a follow-up submitted, in this order.\<close>

theorem tutorial_completes_in_order:
  assumes "tu_phase (fold tutorial_next events createOnboardingTutorialState) = Complete"
  shows "subseq [''thread-created'', ''response-accepted'', ''node-selected'', ''action-succeeded'', ''followup-submitted'']
    (map (\<lambda>e. case te_type e of None \<Rightarrow> [] | Some ty \<Rightarrow> ty) events)"
proof -
  have "subseq (steps_before (tu_phase (fold tutorial_next events createOnboardingTutorialState)))
      (map (\<lambda>e. case te_type e of None \<Rightarrow> [] | Some ty \<Rightarrow> ty) events)"
  proof (induction events rule: rev_induct)
    case Nil
    then show ?case by (simp add: createOnboardingTutorialState_def)
  next
    case (snoc e events)
    let ?st = "fold tutorial_next events createOnboardingTutorialState"
    show ?case
    proof (cases rule: tutorial_next_cases [of e ?st])
      case same
      with snoc show ?thesis by (simp add: subseq_snoc)
    next
      case (moved ty)
      from move_steps [OF moved(2) snoc] moved(1) show ?thesis by simp
    qed
  qed
  with assms show ?thesis by simp
qed

definition demo_tutorial_layer :: tutorial_layer where
  "demo_tutorial_layer = \<lparr>tl_nodeIds = [JNum 5], tl_actions = [\<lparr>ga_id = JNum 9, ga_kind = NavigateAction, ga_sourceNodeId = JNum 5,
     ga_targetLayerId = JNum 8, ga_reusable = None, ga_label = None, ga_icon = None, ga_state = None, ga_interactionText = None\<rparr>]\<rparr>"

definition demo_tutorial_event :: "string \<Rightarrow> tutorial_event" where
  "demo_tutorial_event ty = \<lparr>te_type = Some ty, te_threadId = JNum 1, te_interactionId = JNum 2, te_nodeId = JNum 5,
     te_actionId = JNum 9, te_resultInteractionId = JNull, te_status = [], te_layer = Some demo_tutorial_layer,
     te_invokedActionIds = [], te_disabledActionIds = []\<rparr>"

definition demo_tutorial_run :: "tutorial_event list" where
  "demo_tutorial_run = map demo_tutorial_event
     [''thread-created'', ''response-accepted'', ''node-selected'', ''action-succeeded'', ''followup-submitted'']"

lemma demo_tutorial_run_completes: "tu_phase (fold tutorial_next demo_tutorial_run createOnboardingTutorialState) = Complete"
  by (simp add: demo_tutorial_run_def demo_tutorial_event_def demo_tutorial_layer_def tutorial_next_def createOnboardingTutorialState_def
      reduceOnboardingTutorial_def dismissReason_def reduce_phase_def reduce_awaiting_def reduce_use_action_def
      selectOnboardingTutorialAction_def actionable_def same_interaction_def target_node_def target_action_def phase_state_def id_in_def)

theorem tutorial_completes_in_order_witness:
  "subseq [''thread-created'', ''response-accepted'', ''node-selected'', ''action-succeeded'', ''followup-submitted'']
    (map (\<lambda>e. case te_type e of None \<Rightarrow> [] | Some ty \<Rightarrow> ty) demo_tutorial_run)"
  by (rule tutorial_completes_in_order [OF demo_tutorial_run_completes])

lemma run_final: "tu_phase st \<in> {Complete, Dismissed} \<Longrightarrow> fold tutorial_next events st = st"
proof (induction events)
  case (Cons e events)
  have "tutorial_next e st = st" by (cases rule: tutorial_next_cases [of e st]) (use Cons.prems move_final in blast)+
  with Cons show ?case by simp
qed simp

lemma run_thread:
  "tu_phase st \<noteq> InitialComposer \<Longrightarrow> tu_threadId (fold tutorial_next events st) = tu_threadId st"
proof (induction events arbitrary: st)
  case (Cons e events)
  show ?case
  proof (cases rule: tutorial_next_cases [of e st])
    case same
    with Cons show ?thesis by simp
  next
    case (moved ty)
    from move_thread [OF moved(2) Cons.prems] Cons.IH show ?thesis by simp
  qed
qed simp

text \<open>A tutorial that started keeps its thread whatever happens, the end states absorb every event, and until then
  a person can always dismiss it.\<close>

theorem tutorial_thread_and_end:
  assumes "tu_phase st \<noteq> InitialComposer"
  shows "tu_threadId (fold tutorial_next events st) = tu_threadId st
    \<and> (tu_phase st \<in> {Complete, Dismissed} \<longrightarrow> fold tutorial_next events st = st)
    \<and> (tu_phase st \<notin> {Complete, Dismissed} \<longrightarrow> te_type e \<in> {Some ''skip'', Some ''leave'', Some ''close''}
         \<longrightarrow> tu_phase (tutorial_next e st) = Dismissed)"
  using assms run_thread run_final [of st events]
  by (auto simp: tutorial_next_def reduceOnboardingTutorial_def dismissReason_def)

theorem tutorial_thread_and_end_witness:
  "tu_threadId (fold tutorial_next [demo_tutorial_event ''response-accepted'', demo_tutorial_event ''skip'']
      (phase_state AwaitingAcceptedResponse (JNum 1) (JNum 2) None)) = JNum 1"
  using tutorial_thread_and_end [of "phase_state AwaitingAcceptedResponse (JNum 1) (JNum 2) None"
      "[demo_tutorial_event ''response-accepted'', demo_tutorial_event ''skip'']"] by simp

lemma shown_no_start:
  "tutorialStatus s \<noteq> NeverShown \<Longrightarrow> life_step c s = (b, s') \<Longrightarrow> \<not> b \<and> tutorialStatus s' \<noteq> NeverShown"
  by (cases c)
    (auto simp: beginAutomatic_def beginManual_def life_dismiss_def life_complete_def automaticEligible_def
      terminalSettings_def tutorialStatus_def Let_def split: sum.splits)

lemma start_shows: "life_step c s = (True, s') \<Longrightarrow> tutorialStatus s' \<noteq> NeverShown"
  by (cases c)
    (auto simp: beginAutomatic_def terminalSettings_def tutorialStatus_def Let_def split: sum.splits)

lemma completed_stays:
  "se_tutorial s = Marker StCompleted \<Longrightarrow> life_step c s = (b, s') \<Longrightarrow> se_tutorial s' = Marker StCompleted"
  by (cases c)
    (auto simp: beginAutomatic_def beginManual_def life_dismiss_def life_complete_def automaticEligible_def
      terminalSettings_def tutorialStatus_def Let_def split: sum.splits)

lemma life_rest: "life_step c s = (b, s') \<Longrightarrow> se_rest s' = se_rest s"
  by (cases c)
    (auto simp: beginAutomatic_def beginManual_def life_dismiss_def life_complete_def
      terminalSettings_def Let_def split: sum.splits)

text \<open>The automatic tutorial starts at most once in the life of the settings, and never once they hold any
  marker; a completed tutorial stays completed, and no operation touches the other settings.\<close>

theorem automatic_tutorial_once:
  assumes "life_run calls s = (starts, s')"
  shows "length (filter (\<lambda>b. b) starts) \<le> (if tutorialStatus s = NeverShown then 1 else 0)
    \<and> (se_tutorial s = Marker StCompleted \<longrightarrow> se_tutorial s' = Marker StCompleted) \<and> se_rest s' = se_rest s"
  using assms
proof (induction calls arbitrary: s starts)
  case Nil
  then show ?case by auto
next
  case (Cons c calls)
  obtain b s1 where c: "life_step c s = (b, s1)" by (cases "life_step c s")
  with Cons.prems obtain bs where r: "life_run calls s1 = (bs, s')" "starts = b # bs" by (auto split: prod.splits)
  from Cons.IH [OF r(1)] r(2) shown_no_start [OF _ c] start_shows [of c s s1] completed_stays [OF _ c] life_rest [OF c] c
  show ?case by (cases b) (auto split: if_splits)
qed

definition demo_context :: "raw_context option" where
  "demo_context = Some \<lparr>rx_surface = Some ''product'', rx_providerConnected = Some True, rx_threadCount = NInt 0\<rparr>"

theorem automatic_tutorial_once_witness:
  "length (filter (\<lambda>b. b) (fst (life_run [BeginAutomatic demo_context, BeginAutomatic demo_context]
      \<lparr>se_tutorial = NoMarker, se_rest = ()\<rparr>))) \<le> 1"
proof -
  let ?s = "\<lparr>se_tutorial = NoMarker, se_rest = ()\<rparr>"
  obtain bs s' where r: "life_run [BeginAutomatic demo_context, BeginAutomatic demo_context] ?s = (bs, s')"
    by (cases "life_run [BeginAutomatic demo_context, BeginAutomatic demo_context] ?s")
  have "tutorialStatus ?s = NeverShown" by (simp add: tutorialStatus_def)
  with automatic_tutorial_once [OF r] show ?thesis by (simp only: r fst_conv) simp
qed

end
