(* ===== verification/Updater.thy ===== *)
theory Updater
  imports JsCollections
begin

text \<open>
  The desktop updater (\<open>desktop/main/services/updater.mjs\<close>) and the failures it reports
  (\<open>updaterFailure\<close> in \<open>desktop/main/services/updater-diagnostics.mjs\<close>). The closure's variables and the
  published state are one record. electron-updater is outside the sources: its events and the outcomes of its
  promises arrive in any order, so the machine \<open>updater_step\<close> takes them, the calls of the product and the
  firing of the timers as one stream of events. An asynchronous method is two events, its start and its
  settlement. Diagnostics and emission have no effect on the state and are left out. The lemmas: what the
  published state promises in every reachable state, that background discovery never disturbs an update in
  flight, and what can take a verified update away.
\<close>

section \<open>Versions\<close>

text \<open>\<open>^(\d+)\.(\d+)\.(\d+)$\<close>: three runs of digits with dots between them.\<close>

fun split_dots :: "string \<Rightarrow> string list" where
  "split_dots [] = [[]]"
| "split_dots (c # cs) =
     (if c = CHR ''.'' then [] # split_dots cs
      else (case split_dots cs of [] \<Rightarrow> [[c]] | w # ws \<Rightarrow> (c # w) # ws))"

definition digits :: "string \<Rightarrow> bool" where
  "digits s \<longleftrightarrow> s \<noteq> [] \<and> list_all is_digit s"

definition numericVersion :: "string option \<Rightarrow> nat list option" where
  "numericVersion value =
     (case split_dots (case value of None \<Rightarrow> [] | Some v \<Rightarrow> v) of
        [a, b, c] \<Rightarrow> if digits a \<and> digits b \<and> digits c then Some (map read_digits [a, b, c]) else None
      | _ \<Rightarrow> None)"

text \<open>The loop: the first difference decides, and no difference is enough.\<close>

fun version_at_least :: "nat list \<Rightarrow> nat list \<Rightarrow> bool" where
  "version_at_least (c # cs) (m # ms) = (if c \<noteq> m then c > m else version_at_least cs ms)"
| "version_at_least _ _ = True"

definition desktopUpdateSupportsSystem :: "string \<Rightarrow> string option \<Rightarrow> string option \<Rightarrow> bool" where
  "desktopUpdateSupportsSystem platform release minimumSystemVersion =
     (if platform \<noteq> ''darwin'' then True
      else (case (numericVersion release, numericVersion minimumSystemVersion) of
              (Some cur, Some minimum) \<Rightarrow> version_at_least cur minimum
            | _ \<Rightarrow> False))"

datatype channel = StableChannel | PreviewChannel

definition resolveUpdateChannel :: "string option \<Rightarrow> channel" where
  "resolveUpdateChannel saved = (if saved = Some ''preview'' then PreviewChannel else StableChannel)"

section \<open>Failures\<close>

datatype update_stage = StCheck | StDownload | StInstall | StUpdate

record update_error =
  ue_code :: "string option"
  ue_message :: "string option"
  ue_statusCode :: jsnum
  ue_status :: jsnum

record update_failure =
  uf_error :: string
  uf_errorCode :: string
  uf_errorStage :: update_stage
  uf_errorStatus :: "int option"

definition EXPLANATIONS :: "(string \<times> string) list" where
  "EXPLANATIONS =
     [(''ENOTFOUND'', ''The update server could not be found.''),
      (''EAI_AGAIN'', ''The update server could not be found. Try again shortly.''),
      (''ECONNREFUSED'', ''The update server refused the connection.''),
      (''ECONNRESET'', ''The connection to the update server was interrupted.''),
      (''ETIMEDOUT'', ''The update request timed out.''),
      (''ERR_CONNECTION_TIMED_OUT'', ''The update request timed out.''),
      (''ERR_NAME_NOT_RESOLVED'', ''The update server could not be found.''),
      (''ERR_CONNECTION_RESET'', ''The connection to the update server was interrupted.''),
      (''ERR_CONNECTION_REFUSED'', ''The update server refused the connection.''),
      (''ERR_INTERNET_DISCONNECTED'', ''The network connection is offline.''),
      (''ERR_NETWORK_CHANGED'', ''The network changed during the update request.''),
      (''ERR_CERT_AUTHORITY_INVALID'', ''The update server certificate could not be verified.''),
      (''CERT_HAS_EXPIRED'', ''The update server certificate has expired.''),
      (''UNABLE_TO_VERIFY_LEAF_SIGNATURE'', ''The update server certificate could not be verified.''),
      (''ERR_UPDATER_CHANNEL_FILE_NOT_FOUND'', ''The selected update channel is unavailable.''),
      (''ERR_UPDATER_INVALID_RELEASE_FEED'', ''The update manifest could not be read.''),
      (''ERR_UPDATER_INVALID_UPDATE_INFO'', ''The update manifest could not be read.''),
      (''ERR_UPDATER_NO_CHECKSUM'', ''The update manifest is missing integrity information.''),
      (''ERR_UPDATER_INVALID_VERSION'', ''The update manifest contains an invalid version.''),
      (''ERR_UPDATER_NO_FILES_PROVIDED'', ''The update manifest contains no downloadable files.''),
      (''ERR_UPDATER_ZIP_FILE_NOT_FOUND'', ''The macOS update archive is missing.''),
      (''ERR_UPDATER_CHECKSUM_MISMATCH'', ''The downloaded update failed integrity verification.''),
      (''ERR_CHECKSUM_MISMATCH'', ''The downloaded update failed integrity verification.''),
      (''ERR_UPDATER_INVALID_SIGNATURE'', ''The update publisher signature could not be verified.'')]"

text \<open>\<open>^net::(ERR_[A-Z_]+)(?:\s|$)\<close>: the run of capitals and underscores after the prefix, up to white space or the end.\<close>

definition upper_char :: "char \<Rightarrow> bool" where
  "upper_char c \<longleftrightarrow> c = CHR ''_'' \<or> (65 \<le> (of_char c :: nat) \<and> (of_char c :: nat) \<le> 90)"

definition networkCode :: "string option \<Rightarrow> string option" where
  "networkCode message =
     (case message of
        None \<Rightarrow> None
      | Some m \<Rightarrow>
          if take 5 m \<noteq> ''net::'' then None
          else
            let rest = drop 5 m; code = takeWhile upper_char rest; after = dropWhile upper_char rest in
            if take 4 code = ''ERR_'' \<and> length code > 4 \<and> (after = [] \<or> is_space (hd after)) then Some code else None)"

definition http_status :: "jsnum \<Rightarrow> int option" where
  "http_status v = (case v of NInt n \<Rightarrow> if 100 \<le> n \<and> n \<le> 599 then Some n else None | NOther \<Rightarrow> None)"

definition updaterFailure :: "update_error \<Rightarrow> update_stage \<Rightarrow> update_failure" where
  "updaterFailure e stage =
     (let candidate = (case ue_code e of Some c \<Rightarrow> Some c | None \<Rightarrow> networkCode (ue_message e));
          code = (case candidate of None \<Rightarrow> ''UNKNOWN'' | Some c \<Rightarrow> if map_of EXPLANATIONS c \<noteq> None then c else ''UNKNOWN'');
          status = (case http_status (ue_statusCode e) of Some n \<Rightarrow> Some n | None \<Rightarrow> http_status (ue_status e));
          explanation = (case map_of EXPLANATIONS code of
             Some t \<Rightarrow> t
           | None \<Rightarrow> (case status of Some n \<Rightarrow> ''The update server returned HTTP '' @ show_int n @ ''.''
                     | None \<Rightarrow> ''The updater could not finish this operation.'')) in
      \<lparr>uf_error = explanation @ '' ('' @ code @ (case status of None \<Rightarrow> [] | Some n \<Rightarrow> ''; HTTP '' @ show_int n) @ '')'',
       uf_errorCode = code, uf_errorStage = stage, uf_errorStatus = status\<rparr>)"

section \<open>State\<close>

datatype update_phase = UpIdle | UpDevelopment | UpChecking | UpAvailable | UpDownloading | UpReady | UpFailed

record updater =
  up_packaged :: bool
  up_hasBaseUrl :: bool
  up_channel :: channel
  up_availableInfo :: "string option"
  up_pollTimer :: bool
  up_launchTimer :: bool
  up_launchCheckScheduled :: bool
  up_displayed :: int
  up_stage :: update_stage
  up_failurePublished :: bool
  up_checking :: bool
  up_downloading :: bool
  up_installing :: bool
  up_phase :: update_phase
  up_availableVersion :: "string option"
  up_percent :: "int option"
  up_failure :: "update_failure option"
  up_feedChannel :: "string option"
  up_allowPrerelease :: bool
  up_allowDowngrade :: bool

definition IN_FLIGHT_UPDATE_PHASES :: "update_phase set" where
  "IN_FLIGHT_UPDATE_PHASES = {UpChecking, UpAvailable, UpDownloading, UpReady}"

definition createDesktopUpdater :: "bool \<Rightarrow> bool \<Rightarrow> updater" where
  "createDesktopUpdater packaged hasBaseUrl =
     \<lparr>up_packaged = packaged, up_hasBaseUrl = hasBaseUrl, up_channel = StableChannel, up_availableInfo = None,
      up_pollTimer = False, up_launchTimer = False, up_launchCheckScheduled = False, up_displayed = 0,
      up_stage = StCheck, up_failurePublished = False, up_checking = False, up_downloading = False,
      up_installing = False, up_phase = if packaged then UpIdle else UpDevelopment, up_availableVersion = None,
      up_percent = None, up_failure = None, up_feedChannel = None, up_allowPrerelease = False, up_allowDowngrade = False\<rparr>"

section \<open>Operations\<close>

definition default_failed_stage :: "updater \<Rightarrow> update_stage" where
  "default_failed_stage u =
     (if up_installing u then StInstall
      else if up_checking u \<and> up_downloading u then StUpdate
      else if up_downloading u then StDownload
      else if up_checking u then StCheck
      else up_stage u)"

definition fail :: "update_error \<Rightarrow> update_stage \<Rightarrow> updater \<Rightarrow> updater" where
  "fail e failedStage u =
     (if up_failurePublished u \<and> map_option uf_errorStage (up_failure u) = Some failedStage then u
      else u\<lparr>up_failurePublished := True,
        up_installing := (if failedStage = StInstall then False else up_installing u),
        up_downloading := (if failedStage = StDownload \<or> failedStage = StUpdate then False else up_downloading u),
        up_checking := (if failedStage = StCheck \<or> failedStage = StUpdate then False else up_checking u),
        up_phase := UpFailed, up_failure := Some (updaterFailure e failedStage)\<rparr>)"

definition begin_stage :: "update_stage \<Rightarrow> updater \<Rightarrow> updater" where
  "begin_stage s u = u\<lparr>up_stage := s, up_failurePublished := False\<rparr>"

text \<open>\<open>Math.round\<close> of the report, or nothing if it is not finite.\<close>

definition nextDownloadPercent :: "int option \<Rightarrow> int \<Rightarrow> int" where
  "nextDownloadPercent reported displayed =
     max displayed (min 99 (max 0 (case reported of None \<Rightarrow> 0 | Some p \<Rightarrow> p)))"

definition configureFeed :: "updater \<Rightarrow> updater" where
  "configureFeed u =
     (if \<not> up_packaged u \<or> \<not> up_hasBaseUrl u then u
      else u\<lparr>up_feedChannel := Some (if up_channel u = PreviewChannel then ''beta'' else ''latest''),
        up_allowPrerelease := (up_channel u = PreviewChannel), up_allowDowngrade := False\<rparr>)"

definition on_checking :: "updater \<Rightarrow> updater" where
  "on_checking u =
     (if up_phase u = UpReady then u
      else u\<lparr>up_displayed := 0, up_phase := UpChecking, up_percent := None, up_failure := None\<rparr>)"

definition on_available :: "string \<Rightarrow> updater \<Rightarrow> updater" where
  "on_available version u =
     (let u1 = u\<lparr>up_availableInfo := Some version\<rparr> in
      if up_phase u1 = UpReady \<and> up_availableVersion u1 = Some version then u1
      else u1\<lparr>up_displayed := 0, up_phase := UpAvailable, up_availableVersion := Some version, up_percent := None, up_failure := None\<rparr>)"

definition on_not_available :: "updater \<Rightarrow> updater" where
  "on_not_available u =
     (if up_phase u = UpReady then u
      else u\<lparr>up_availableInfo := None, up_displayed := 0, up_phase := UpIdle, up_availableVersion := None,
        up_percent := None, up_failure := None\<rparr>)"

definition on_progress :: "int option \<Rightarrow> updater \<Rightarrow> updater" where
  "on_progress reported u =
     (if up_phase u = UpReady then u
      else let p = nextDownloadPercent reported (up_displayed u) in
        u\<lparr>up_displayed := p, up_phase := UpDownloading, up_percent := Some p, up_failure := None\<rparr>)"

definition on_downloaded :: "string \<Rightarrow> updater \<Rightarrow> updater" where
  "on_downloaded version u =
     u\<lparr>up_downloading := False, up_displayed := 100, up_phase := UpReady, up_availableVersion := Some version,
       up_percent := Some 100, up_failure := None\<rparr>"

definition check_begin :: "updater \<Rightarrow> updater" where
  "check_begin u =
     (if \<not> up_packaged u then u\<lparr>up_phase := UpDevelopment, up_failure := None\<rparr>
      else configureFeed ((begin_stage StCheck u)\<lparr>up_checking := True\<rparr>))"

definition check_end :: "update_error option \<Rightarrow> updater \<Rightarrow> updater" where
  "check_end outcome u =
     (let u1 = (case outcome of None \<Rightarrow> u | Some e \<Rightarrow> fail e StCheck u) in u1\<lparr>up_checking := False\<rparr>)"

definition backgroundCheck :: "updater \<Rightarrow> updater" where
  "backgroundCheck u = (if up_phase u \<in> IN_FLIGHT_UPDATE_PHASES then u else check_begin u)"

definition startPolling :: "updater \<Rightarrow> bool \<times> updater" where
  "startPolling u =
     (if \<not> up_packaged u \<or> up_pollTimer u then (False, u)
      else (True,
        (if up_launchCheckScheduled u then u else u\<lparr>up_launchCheckScheduled := True, up_launchTimer := True\<rparr>)
          \<lparr>up_pollTimer := True\<rparr>))"

definition stopPolling :: "updater \<Rightarrow> bool \<times> updater" where
  "stopPolling u =
     (let u1 = u\<lparr>up_launchTimer := False\<rparr> in
      if \<not> up_pollTimer u1 then (False, u1) else (True, u1\<lparr>up_pollTimer := False\<rparr>))"

definition setChannel :: "string \<Rightarrow> updater \<Rightarrow> updater result" where
  "setChannel nxt u =
     (if nxt \<noteq> ''stable'' \<and> nxt \<noteq> ''preview'' then Inl (Error ''Update channel must be stable or preview.'')
      else if up_phase u \<in> IN_FLIGHT_UPDATE_PHASES then Inl (Error ''Finish the current update before changing channels.'')
      else
        let u1 = configureFeed (u\<lparr>up_channel := (if nxt = ''preview'' then PreviewChannel else StableChannel), up_availableInfo := None\<rparr>) in
        Inr (u1\<lparr>up_displayed := 0, up_phase := (if up_packaged u then UpIdle else UpDevelopment),
          up_availableVersion := None, up_percent := None, up_failure := None\<rparr>))"

definition download_begin :: "updater \<Rightarrow> updater result" where
  "download_begin u =
     (if \<not> up_packaged u then Inl (Error ''Updates are available only in packaged builds.'')
      else Inr ((begin_stage StDownload (u\<lparr>up_displayed := 0\<rparr>))\<lparr>up_downloading := True\<rparr>))"

definition download_end :: "update_error option \<Rightarrow> updater \<Rightarrow> updater" where
  "download_end outcome u =
     (case outcome of None \<Rightarrow> u | Some e \<Rightarrow> (fail e StDownload u)\<lparr>up_downloading := False\<rparr>)"

text \<open>\<open>quitAndInstall\<close> returns, or throws its argument.\<close>

definition install :: "update_error option \<Rightarrow> updater \<Rightarrow> unit result \<times> updater" where
  "install thrown u =
     (if up_phase u \<noteq> UpReady then (Inl (Error ''No verified update is ready to install.''), u)
      else
        let u1 = (begin_stage StInstall u)\<lparr>up_installing := True\<rparr> in
        (case thrown of
           None \<Rightarrow> (Inr (), u1)
         | Some e \<Rightarrow>
             let u2 = (fail e StInstall u1)\<lparr>up_installing := False\<rparr> in
             (Inl (Error (case up_failure u2 of None \<Rightarrow> ''null'' | Some f \<Rightarrow> uf_error f)), u2)))"

section \<open>The updater as a machine\<close>

datatype update_event =
    EvChecking | EvAvailable string | EvNotAvailable | EvProgress "int option" | EvDownloaded string | EvError update_error
  | CheckBegin | CheckEnd "update_error option" | PollFires | LaunchFires | StartPolling | StopPolling
  | SetChannel string | DownloadBegin | DownloadEnd "update_error option" | Install "update_error option"

fun library_event :: "update_event \<Rightarrow> bool" where
  "library_event EvChecking = True"
| "library_event (EvAvailable _) = True"
| "library_event EvNotAvailable = True"
| "library_event (EvProgress _) = True"
| "library_event (EvDownloaded _) = True"
| "library_event (EvError _) = True"
| "library_event (CheckEnd _) = True"
| "library_event (DownloadEnd _) = True"
| "library_event _ = False"

fun raw_step :: "update_event \<Rightarrow> updater \<Rightarrow> updater" where
  "raw_step EvChecking u = on_checking u"
| "raw_step (EvAvailable v) u = on_available v u"
| "raw_step EvNotAvailable u = on_not_available u"
| "raw_step (EvProgress p) u = on_progress p u"
| "raw_step (EvDownloaded v) u = on_downloaded v u"
| "raw_step (EvError e) u = fail e (default_failed_stage u) u"
| "raw_step CheckBegin u = check_begin u"
| "raw_step (CheckEnd r) u = check_end r u"
| "raw_step PollFires u = (if up_pollTimer u then backgroundCheck u else u)"
| "raw_step LaunchFires u = (if up_launchTimer u then backgroundCheck u else u)"
| "raw_step StartPolling u = snd (startPolling u)"
| "raw_step StopPolling u = snd (stopPolling u)"
| "raw_step (SetChannel c) u = (case setChannel c u of Inl _ \<Rightarrow> u | Inr u' \<Rightarrow> u')"
| "raw_step DownloadBegin u = (case download_begin u of Inl _ \<Rightarrow> u | Inr u' \<Rightarrow> u')"
| "raw_step (DownloadEnd r) u = download_end r u"
| "raw_step (Install t) u = snd (install t u)"

text \<open>The handlers of electron-updater's events are registered, and its promises started, in packaged builds only.\<close>

definition updater_step :: "update_event \<Rightarrow> updater \<Rightarrow> updater" where
  "updater_step ev u = (if library_event ev \<and> \<not> up_packaged u then u else raw_step ev u)"

section \<open>Lemmas\<close>

text \<open>What the published state promises.\<close>

definition updater_ok :: "updater \<Rightarrow> bool" where
  "updater_ok u \<longleftrightarrow>
     (\<not> up_packaged u \<longrightarrow> up_phase u = UpDevelopment)
     \<and> 0 \<le> up_displayed u \<and> up_displayed u \<le> 100
     \<and> (up_phase u = UpDownloading \<longrightarrow> (\<exists>p. up_percent u = Some p \<and> 0 \<le> p \<and> p \<le> 100))
     \<and> (up_phase u = UpReady \<longrightarrow> up_percent u = Some 100)
     \<and> (up_phase u \<in> {UpAvailable, UpReady} \<longrightarrow> up_availableVersion u \<noteq> None)
     \<and> (up_phase u = UpFailed \<longleftrightarrow> up_failure u \<noteq> None)
     \<and> \<not> up_allowDowngrade u"

lemma fail_ok: "updater_ok u \<Longrightarrow> up_packaged u \<Longrightarrow> updater_ok (fail e s u)"
  by (auto simp: updater_ok_def fail_def)

lemma handlers_ok:
  assumes "updater_ok u" "up_packaged u"
  shows "updater_ok (on_checking u)" "updater_ok (on_available v u)" "updater_ok (on_not_available u)"
    "updater_ok (on_progress p u)" "updater_ok (on_downloaded v u)"
  using assms
  by (auto simp: updater_ok_def on_checking_def on_available_def on_not_available_def on_progress_def
      on_downloaded_def nextDownloadPercent_def Let_def)

lemma check_begin_ok: "updater_ok u \<Longrightarrow> updater_ok (check_begin u)"
  by (auto simp: updater_ok_def check_begin_def configureFeed_def begin_stage_def)

lemma ok_flags [simp]:
  "updater_ok (u\<lparr>up_checking := b\<rparr>) = updater_ok u" "updater_ok (u\<lparr>up_downloading := b\<rparr>) = updater_ok u"
  "updater_ok (u\<lparr>up_installing := b\<rparr>) = updater_ok u" "updater_ok (begin_stage s u) = updater_ok u"
  by (simp_all add: updater_ok_def begin_stage_def)

lemma packaged_flags [simp]:
  "up_packaged (u\<lparr>up_checking := b\<rparr>) = up_packaged u" "up_packaged (begin_stage s u) = up_packaged u"
  by (simp_all add: begin_stage_def)

lemma settle_ok:
  assumes "updater_ok u" "up_packaged u"
  shows "updater_ok (check_end r u)" "updater_ok (download_end r u)"
  using assms by (auto simp: check_end_def download_end_def fail_ok Let_def split: option.splits)

lemma install_ok: "updater_ok u \<Longrightarrow> updater_ok (snd (install t u))"
proof (cases "up_phase u = UpReady")
  case True
  assume ok: "updater_ok u"
  with True have "up_packaged u" by (auto simp: updater_ok_def)
  with ok True show ?thesis by (auto simp: install_def Let_def fail_ok split: option.splits)
qed (simp add: install_def)

lemma configureFeed_simps [simp]:
  "up_packaged (configureFeed u) = up_packaged u" "up_phase (configureFeed u) = up_phase u"
  "\<not> up_allowDowngrade u \<Longrightarrow> \<not> up_allowDowngrade (configureFeed u)"
  by (simp_all add: configureFeed_def)

lemma setChannel_Inr:
  assumes "setChannel c u = Inr u'"
  shows "\<exists>ch. u' = (configureFeed (u\<lparr>up_channel := ch, up_availableInfo := None\<rparr>))\<lparr>up_displayed := 0,
      up_phase := (if up_packaged u then UpIdle else UpDevelopment), up_availableVersion := None, up_percent := None, up_failure := None\<rparr>"
    "up_phase u \<notin> IN_FLIGHT_UPDATE_PHASES"
  using assms by (auto simp only: setChannel_def Let_def split: if_splits)

lemma setChannel_ok: "updater_ok u \<Longrightarrow> setChannel c u = Inr u' \<Longrightarrow> updater_ok u'"
proof -
  assume ok: "updater_ok u" and "setChannel c u = Inr u'"
  then obtain ch where u': "u' = (configureFeed (u\<lparr>up_channel := ch, up_availableInfo := None\<rparr>))\<lparr>up_displayed := 0,
      up_phase := (if up_packaged u then UpIdle else UpDevelopment), up_availableVersion := None, up_percent := None, up_failure := None\<rparr>"
    using setChannel_Inr(1) by blast
  have "\<not> up_allowDowngrade u" using ok by (simp add: updater_ok_def)
  then show ?thesis unfolding u' updater_ok_def by simp
qed

lemma download_begin_ok: "updater_ok u \<Longrightarrow> download_begin u = Inr u' \<Longrightarrow> updater_ok u'"
  by (auto simp: updater_ok_def download_begin_def begin_stage_def split: if_splits)

lemma polling_ok: "updater_ok u \<Longrightarrow> updater_ok (snd (startPolling u))" "updater_ok u \<Longrightarrow> updater_ok (snd (stopPolling u))"
  by (auto simp: updater_ok_def startPolling_def stopPolling_def Let_def)

lemma updater_step_ok: "updater_ok u \<Longrightarrow> updater_ok (updater_step ev u)"
  by (cases ev)
    (auto simp: updater_step_def handlers_ok fail_ok check_begin_ok settle_ok install_ok polling_ok backgroundCheck_def
      split: sum.splits dest: setChannel_ok download_begin_ok)

interpretation um: machine updater_step updater_ok
  by unfold_locales (rule updater_step_ok)

lemma create_updater_ok: "updater_ok (createDesktopUpdater packaged url)"
  by (simp add: createDesktopUpdater_def updater_ok_def)

lemma version_at_least_lex:
  "version_at_least [a, b, c] [x, y, z] \<longleftrightarrow> (a > x \<or> a = x \<and> (b > y \<or> b = y \<and> c \<ge> z))"
  by auto

section \<open>Properties\<close>

text \<open>In every state the updater can reach, with electron-updater's events in any order, a ready update shows
  100 percent and its version, a download shows a percentage, the phase is failed exactly when a failure is
  published, a development build shows no update, and a downgrade is never allowed.\<close>

theorem updater_invariant:
  "let u = fold updater_step events (createDesktopUpdater packaged url) in
     (if up_phase u = UpReady then up_percent u = Some 100 \<and> up_availableVersion u \<noteq> None
      else if up_phase u = UpDownloading then (\<exists>p. up_percent u = Some p \<and> 0 \<le> p \<and> p \<le> 100)
      else if up_phase u = UpAvailable then up_availableVersion u \<noteq> None else True)
     \<and> (up_phase u = UpFailed \<longleftrightarrow> up_failure u \<noteq> None)
     \<and> (packaged \<or> up_phase u = UpDevelopment) \<and> \<not> up_allowDowngrade u"
proof -
  let ?u = "fold updater_step events (createDesktopUpdater packaged url)"
  have "updater_ok ?u" by (rule um.run_inv) (rule create_updater_ok)
  moreover have "up_packaged (updater_step ev u) = up_packaged u" for ev u
    by (cases ev)
      (auto simp: updater_step_def on_checking_def on_available_def on_not_available_def on_progress_def on_downloaded_def
        fail_def check_begin_def configureFeed_def check_end_def backgroundCheck_def startPolling_def stopPolling_def
        setChannel_def download_begin_def download_end_def install_def begin_stage_def Let_def split: sum.splits option.splits)
  then have "up_packaged ?u = packaged"
    by (induction events rule: rev_induct) (simp_all add: createDesktopUpdater_def)
  ultimately show ?thesis by (auto simp: updater_ok_def Let_def)
qed

text \<open>The events that a check, a download or an install failed, and those that name another version.\<close>

fun failure_event :: "update_event \<Rightarrow> bool" where
  "failure_event (EvError _) = True"
| "failure_event (CheckEnd (Some _)) = True"
| "failure_event (DownloadEnd (Some _)) = True"
| "failure_event (Install (Some _)) = True"
| "failure_event _ = False"

fun other_version :: "string \<Rightarrow> update_event \<Rightarrow> bool" where
  "other_version v (EvAvailable w) = (w \<noteq> v)"
| "other_version v (EvDownloaded w) = (w \<noteq> v)"
| "other_version v _ = False"

lemma ready_step:
  assumes "up_phase u = UpReady" "up_packaged u" "up_availableVersion u = Some v" "\<not> failure_event ev" "\<not> other_version v ev"
  shows "up_phase (updater_step ev u) = UpReady \<and> up_packaged (updater_step ev u) \<and> up_availableVersion (updater_step ev u) = Some v"
proof (cases ev)
  case (CheckEnd r)
  with assms show ?thesis by (cases r) (auto simp: updater_step_def check_end_def)
next
  case (DownloadEnd r)
  with assms show ?thesis by (cases r) (auto simp: updater_step_def download_end_def)
next
  case (Install r)
  with assms show ?thesis by (cases r) (auto simp: updater_step_def install_def begin_stage_def Let_def)
qed (use assms in \<open>auto simp: updater_step_def on_checking_def on_available_def on_not_available_def on_progress_def
        on_downloaded_def check_begin_def configureFeed_def backgroundCheck_def IN_FLIGHT_UPDATE_PHASES_def startPolling_def
        stopPolling_def setChannel_def download_begin_def begin_stage_def Let_def split: sum.splits\<close>)

text \<open>C8. A verified update stays ready, and can be installed, through any events that neither report a failure nor
  name another version: checks from Settings, polls, progress reports, channel changes. A check that fails does take
  it away, in spite of the comment in the source: the phase becomes failed and the install is refused.\<close>

theorem ready_survives_unless_failure:
  assumes "up_phase u = UpReady" "up_packaged u" "up_availableVersion u = Some v"
    and "\<forall>ev \<in> set events. \<not> failure_event ev \<and> \<not> other_version v ev"
  shows "up_phase (fold updater_step events u) = UpReady \<and> up_availableVersion (fold updater_step events u) = Some v
     \<and> fst (install None (fold updater_step events u)) = Inr ()
     \<and> up_phase (fold updater_step [CheckBegin, CheckEnd (Some e)] u) = UpFailed
     \<and> fst (install None (fold updater_step [CheckBegin, CheckEnd (Some e)] u)) = Inl (Error ''No verified update is ready to install.'')"
proof -
  have "up_phase (fold updater_step events u) = UpReady \<and> up_packaged (fold updater_step events u)
      \<and> up_availableVersion (fold updater_step events u) = Some v"
    using assms
  proof (induction events arbitrary: u)
    case (Cons ev events)
    with ready_step [of u v ev] show ?case by simp
  qed simp
  moreover have "up_phase (fold updater_step [CheckBegin, CheckEnd (Some e)] u) = UpFailed"
    using assms(2) by (auto simp: updater_step_def check_begin_def check_end_def configureFeed_def begin_stage_def fail_def Let_def)
  ultimately show ?thesis by (simp add: install_def Let_def)
qed

definition demo_ready :: updater where
  "demo_ready = on_downloaded ''2.0.0'' (createDesktopUpdater True True)"

definition demo_offline :: update_error where
  "demo_offline = \<lparr>ue_code = None, ue_message = Some ''net::ERR_INTERNET_DISCONNECTED'', ue_statusCode = NOther, ue_status = NOther\<rparr>"

theorem ready_survives_unless_failure_witness:
  "up_phase (fold updater_step [CheckBegin, EvChecking, EvAvailable ''2.0.0'', CheckEnd None] demo_ready) = UpReady
   \<and> up_phase (fold updater_step [CheckBegin, CheckEnd (Some demo_offline)] demo_ready) = UpFailed"
proof -
  have "up_phase demo_ready = UpReady" "up_packaged demo_ready" "up_availableVersion demo_ready = Some ''2.0.0''"
    by (simp_all add: demo_ready_def on_downloaded_def createDesktopUpdater_def)
  from ready_survives_unless_failure [OF this, of "[CheckBegin, EvChecking, EvAvailable ''2.0.0'', CheckEnd None]" demo_offline]
  show ?thesis by simp
qed

text \<open>Background discovery and channel changes never disturb an update in the user's hands: while a check, an offer,
  a download or a ready update is in flight, polling, its timers and every channel change leave the published
  state, the channel and the work in progress as they are.\<close>

theorem in_flight_undisturbed:
  assumes "up_phase u \<in> IN_FLIGHT_UPDATE_PHASES"
    and "\<forall>ev \<in> set events. ev \<in> {PollFires, LaunchFires, StartPolling, StopPolling} \<union> range SetChannel"
  shows "\<exists>a b c. fold updater_step events u = u\<lparr>up_pollTimer := a, up_launchTimer := b, up_launchCheckScheduled := c\<rparr>"
  using assms
proof (induction events arbitrary: u)
  case Nil
  then show ?case by (intro exI [of _ "up_pollTimer u"] exI [of _ "up_launchTimer u"] exI [of _ "up_launchCheckScheduled u"]) simp
next
  case (Cons ev events)
  have "\<exists>a b c. updater_step ev u = u\<lparr>up_pollTimer := a, up_launchTimer := b, up_launchCheckScheduled := c\<rparr>"
  proof -
    have same: "u = u\<lparr>up_pollTimer := up_pollTimer u, up_launchTimer := up_launchTimer u, up_launchCheckScheduled := up_launchCheckScheduled u\<rparr>"
      by simp
    from Cons.prems consider "updater_step ev u = u" | "ev = StartPolling" | "ev = StopPolling"
      by (auto simp: updater_step_def backgroundCheck_def setChannel_def split: sum.splits if_splits)
    then show ?thesis
    proof cases
      case 1
      with same show ?thesis by metis
    next
      case 2
      show ?thesis
        unfolding 2 by (intro exI [of _ "up_packaged u \<or> up_pollTimer u"]
            exI [of _ "up_launchTimer u \<or> (up_packaged u \<and> \<not> up_pollTimer u \<and> \<not> up_launchCheckScheduled u)"]
            exI [of _ "up_launchCheckScheduled u \<or> (up_packaged u \<and> \<not> up_pollTimer u)"])
          (auto simp: updater_step_def startPolling_def)
    next
      case 3
      show ?thesis
        unfolding 3 by (intro exI [of _ False] exI [of _ "up_launchCheckScheduled u"])
          (auto simp: updater_step_def stopPolling_def Let_def)
    qed
  qed
  then obtain a b c where s: "updater_step ev u = u\<lparr>up_pollTimer := a, up_launchTimer := b, up_launchCheckScheduled := c\<rparr>" by blast
  from Cons.IH [of "updater_step ev u"] Cons.prems show ?case by (simp add: s)
qed

theorem in_flight_undisturbed_witness:
  "\<exists>a b c. fold updater_step [StartPolling, PollFires, SetChannel ''preview''] demo_ready
     = demo_ready\<lparr>up_pollTimer := a, up_launchTimer := b, up_launchCheckScheduled := c\<rparr>"
  by (rule in_flight_undisturbed) (auto simp: demo_ready_def on_downloaded_def IN_FLIGHT_UPDATE_PHASES_def)

end
