(* ===== verification/InteractionGraph.thy ===== *)
theory InteractionGraph
  imports ProductRows
begin

text \<open>
  The interaction graph of a thread (\<open>desktop/renderer/src/product-workspace/interaction-graph.js\<close>): the
  chains of runs on each node, the controls of a run, and the model of the graph popover with its folded
  decks, agent chips, edges, levels and card positions. The DOM rendering that follows in that file is not
  modelled. Characters beyond Latin-1 in a label or an icon are written as their UTF-8 bytes; no function
  looks inside them.

  The lemmas: Resume is offered to exactly one run of a node's restarted chain, a turn stands in exactly one
  place of the graph, the level loop ends on the longest walks so edges lead to the right, and the cards of
  a column never overlap and lie inside the surface.
\<close>

section \<open>Statuses and keys\<close>

definition RESUMABLE_STATUSES :: "status set" where
  "RESUMABLE_STATUSES = {Paused, Interrupted}"

definition CHAIN_STATUSES :: "status set" where
  "CHAIN_STATUSES = {NotStarted, Submitted, Queued, Running, WaitingForApproval} \<union> RESUMABLE_STATUSES"

definition RUNNING_STATUSES :: "status set" where
  "RUNNING_STATUSES = {Submitted, Running, WaitingForApproval}"

definition resumable_run :: "interaction \<Rightarrow> bool" where
  "resumable_run t \<longleftrightarrow> it_status t \<in> RESUMABLE_STATUSES"

definition turn_key :: "interaction \<Rightarrow> string" where
  "turn_key t = js_String (it_id t)"

definition chainKey :: "interaction \<Rightarrow> string" where
  "chainKey t = js_String (it_threadId t) @ '':'' @ js_String (it_runNodeId t)"

definition bySequence :: "interaction \<Rightarrow> interaction \<Rightarrow> int" where
  "bySequence l r = or_else (number_diff (it_sequence l) (it_sequence r)) (number_diff (it_id l) (it_id r))"

section \<open>Agent children and preparations\<close>

definition agentChildParents :: "invocation list \<Rightarrow> (string, string) jsmap" where
  "agentChildParents invocations =
     map_from (map (\<lambda>iv. (js_String (iv_resultInteractionId iv), js_String (iv_sourceInteractionId iv)))
       (filter (\<lambda>iv. iv_agentInvoked iv \<and> \<not> is_nullish (iv_resultInteractionId iv)) invocations))"

datatype child_attempt = CurrentAttempt | PreviousAttempt

definition childAttempt :: "interaction \<Rightarrow> interaction option \<Rightarrow> child_attempt" where
  "childAttempt child parent =
     (let started = (case parent of
                       None \<Rightarrow> None
                     | Some p \<Rightarrow> (case it_latestAttempt p of None \<Rightarrow> None | Some a \<Rightarrow> js_Number (at_startedAt a)));
          created = js_Number (it_createdAt child) in
      case (started, created) of
        (Some s, Some c) \<Rightarrow> if c < s then PreviousAttempt else CurrentAttempt
      | _ \<Rightarrow> CurrentAttempt)"

text \<open>The test \<open>/interrupted|restart/i\<close>.\<close>

definition lower_char :: "char \<Rightarrow> char" where
  "lower_char c = (let n = (of_char c :: nat) in if 65 \<le> n \<and> n \<le> 90 then char_of (n + 32) else c)"

definition contains_ci :: "string \<Rightarrow> string \<Rightarrow> bool" where
  "contains_ci pat s \<longleftrightarrow> sublist pat (map lower_char s)"

definition interruptedChild :: "interaction \<Rightarrow> bool" where
  "interruptedChild c \<longleftrightarrow>
     (case it_latestAttempt c of None \<Rightarrow> False | Some a \<Rightarrow> at_failureCategory a = Some ''application_restart'')
     \<or> (it_status c = Failed
        \<and> (let e = (case it_completionError c of None \<Rightarrow> '''' | Some s \<Rightarrow> s) in
           contains_ci ''interrupted'' e \<or> contains_ci ''restart'' e))"

definition preparationsAwaitingRetry :: "invocation list \<Rightarrow> string list" where
  "preparationsAwaitingRetry invocations =
     map (\<lambda>iv. js_String (iv_resultInteractionId iv))
       (filter (\<lambda>iv. iv_preparationRecoverable iv = Some True \<and> \<not> is_nullish (iv_resultInteractionId iv)) invocations)"

section \<open>The chains of runs on a node\<close>

type_synonym chains = "(string, interaction list) jsmap"

definition chain_push :: "chains \<Rightarrow> interaction \<Rightarrow> chains" where
  "chain_push m t = map_set m (chainKey t) ((case map_get m (chainKey t) of None \<Rightarrow> [] | Some ts \<Rightarrow> ts) @ [t])"

definition in_chain :: "(string, string) jsmap \<Rightarrow> string list \<Rightarrow> interaction \<Rightarrow> bool" where
  "in_chain children awaitingRetry t \<longleftrightarrow>
     \<not> is_nullish (it_runNodeId t) \<and> \<not> map_has children (turn_key t) \<and> turn_key t \<notin> set awaitingRetry
     \<and> it_status t \<in> CHAIN_STATUSES"

definition nodeRunChains :: "interaction list \<Rightarrow> invocation list \<Rightarrow> chains" where
  "nodeRunChains turns invocations =
     foldl chain_push []
       (filter (in_chain (agentChildParents invocations) (preparationsAwaitingRetry invocations))
         (js_sort bySequence turns))"

definition restartChain :: "interaction \<Rightarrow> chains \<Rightarrow> interaction list" where
  "restartChain t cs =
     (if is_nullish (it_runNodeId t) then [t]
      else filter resumable_run (case map_get cs (chainKey t) of None \<Rightarrow> [t] | Some ts \<Rightarrow> ts))"

text \<open>\<open>String(chain[0]?.id) === String(turn.id)\<close>.\<close>

definition heads_chain :: "interaction \<Rightarrow> interaction list \<Rightarrow> bool" where
  "heads_chain t chain \<longleftrightarrow> (case chain of [] \<Rightarrow> eqId JUndef (it_id t) | h # _ \<Rightarrow> eqId (it_id h) (it_id t))"

definition runNeedsAttention :: "interaction \<Rightarrow> chains \<Rightarrow> bool" where
  "runNeedsAttention t cs \<longleftrightarrow> resumable_run t \<and> heads_chain t (restartChain t cs)"

datatype control_action = RemoveRun | StopRun | ResumeRun | DiscardRun

record run_control =
  rc_action :: control_action
  rc_label :: string
  rc_icon :: string
  rc_disabled :: bool
  rc_count :: "nat option"

definition utf8 :: "nat list \<Rightarrow> string" where
  "utf8 bs = map char_of bs"

definition cross_icon :: string where
  "cross_icon = utf8 [0xE2, 0x9C, 0x95]"

definition square_icon :: string where
  "square_icon = utf8 [0xE2, 0x96, 0xA0]"

definition play_icon :: string where
  "play_icon = utf8 [0xE2, 0x96, 0xB6]"

record control_context =
  cc_chains :: chains
  cc_children :: "(string, string) jsmap"
  cc_controllable :: bool
  cc_awaitingRetry :: "string list"

definition discard_control :: run_control where
  "discard_control = \<lparr>rc_action = DiscardRun, rc_label = ''Discard: mark it stopped. Its text is kept.'',
     rc_icon = cross_icon, rc_disabled = False, rc_count = None\<rparr>"

definition resume_control :: "nat \<Rightarrow> run_control" where
  "resume_control k =
     \<lparr>rc_action = ResumeRun,
      rc_label = (if k > 1 then ''Resume '' @ show_nat k @ '' in order'' else ''Resume''),
      rc_icon = (if k > 1 then play_icon @ '' '' @ show_nat k else play_icon),
      rc_disabled = False, rc_count = Some k\<rparr>"

definition runControls :: "interaction \<Rightarrow> control_context \<Rightarrow> run_control list" where
  "runControls t c =
     (if \<not> cc_controllable c \<or> map_has (cc_children c) (turn_key t) \<or> turn_key t \<in> set (cc_awaitingRetry c) then []
      else
        let stopping = it_stopRequested t \<and> \<not> it_stopError t in
        if it_status t = Queued
          then [\<lparr>rc_action = RemoveRun, rc_label = ''Remove: take it out of the queue. Its text is kept.'',
                 rc_icon = cross_icon, rc_disabled = stopping, rc_count = None\<rparr>]
        else if it_status t \<in> RUNNING_STATUSES
          then [\<lparr>rc_action = StopRun, rc_label = (if stopping then ''Stopping this run'' else ''Stop this run''),
                 rc_icon = square_icon, rc_disabled = stopping, rc_count = None\<rparr>]
        else if \<not> resumable_run t then []
        else
          let chain = restartChain t (cc_chains c) in
          if \<not> heads_chain t chain then [discard_control]
          else [resume_control (length chain), discard_control])"

section \<open>Folding runs into decks\<close>

type_synonym decks = "(string, interaction list) jsmap"

definition fold_behind :: "interaction list \<Rightarrow> interaction list \<Rightarrow> decks \<Rightarrow> decks" where
  "fold_behind heads behind m =
     (case heads of
        [] \<Rightarrow> m
      | h # _ \<Rightarrow> if behind = [] then m
          else map_set m (turn_key h) ((case map_get m (turn_key h) of None \<Rightarrow> [] | Some ts \<Rightarrow> ts) @ behind))"

definition live_run :: "interaction \<Rightarrow> bool" where
  "live_run t \<longleftrightarrow> \<not> resumable_run t"

definition fold_chain :: "decks \<Rightarrow> interaction list \<Rightarrow> decks" where
  "fold_chain m chain =
     (let restart = filter resumable_run chain;
          live = filter live_run chain in
      fold_behind live (filter (\<lambda>t. it_status t = Queued) (drop 1 live))
        (fold_behind restart (drop 1 restart) m))"

definition folded_runs :: "chains \<Rightarrow> decks" where
  "folded_runs cs = foldl fold_chain [] (map_values cs)"

definition folded_ids :: "decks \<Rightarrow> string list" where
  "folded_ids m = map turn_key (concat (map_values m))"

section \<open>Chips\<close>

record chip =
  ch_id :: string
  ch_parentId :: string
  ch_attempt :: child_attempt
  ch_children :: "interaction list"

definition local_turns :: "interaction list \<Rightarrow> (string, interaction) jsmap" where
  "local_turns turns = map_from (map (\<lambda>t. (turn_key t, t)) turns)"

definition chip_key :: "child_attempt \<Rightarrow> string \<Rightarrow> string" where
  "chip_key a parentId = (if a = PreviousAttempt then ''previous'' else ''agents'') @ '':'' @ parentId"

definition add_child :: "(string, interaction) jsmap \<Rightarrow> (string, chip) jsmap \<Rightarrow> string \<times> string \<Rightarrow> (string, chip) jsmap" where
  "add_child locals m entry =
     (case entry of (childId, parentId) \<Rightarrow>
        (case map_get locals childId of
           None \<Rightarrow> m
         | Some child \<Rightarrow>
             if \<not> map_has locals parentId then m
             else
               let attempt = childAttempt child (map_get locals parentId);
                   key = chip_key attempt parentId;
                   c = (case map_get m key of
                          Some c \<Rightarrow> c
                        | None \<Rightarrow> \<lparr>ch_id = key, ch_parentId = parentId, ch_attempt = attempt, ch_children = []\<rparr>) in
               map_set m key (c\<lparr>ch_children := ch_children c @ [child]\<rparr>)))"

definition agent_chips :: "(string, interaction) jsmap \<Rightarrow> (string, string) jsmap \<Rightarrow> (string, chip) jsmap" where
  "agent_chips locals children = foldl (add_child locals) [] children"

definition shown_children :: "(string, chip) jsmap \<Rightarrow> string list \<Rightarrow> string list" where
  "shown_children chips expanded =
     first_unique (concat (map (\<lambda>c. map turn_key (ch_children c))
       (filter (\<lambda>c. ch_id c \<in> set expanded) (map_values chips))))"

section \<open>Nodes and edges\<close>

text \<open>A node is a turn of the thread, a source of another thread, or a chip.\<close>

datatype ig_node =
    TurnNode (turn_id: string) interaction
  | SourceNode string graph_source
  | ChipNode chip (chip_open: bool) (chip_label: string) (chip_summary: string)

fun node_id :: "ig_node \<Rightarrow> string" where
  "node_id (TurnNode i _) = i"
| "node_id (SourceNode i _) = i"
| "node_id (ChipNode c _ _ _) = ch_id c"

record ig_edge =
  ie_source :: string
  ie_target :: string
  ie_layers :: "jsval list"
  ie_invocationActionId :: jsval
  ie_chip :: bool

type_synonym ig_nodes = "(string, ig_node) jsmap"

definition hidden_child ::
  "(string, string) jsmap \<Rightarrow> (string, interaction) jsmap \<Rightarrow> string list \<Rightarrow> string \<Rightarrow> bool" where
  "hidden_child children locals shown i \<longleftrightarrow>
     (case map_get children i of None \<Rightarrow> False | Some parent \<Rightarrow> map_has locals parent) \<and> i \<notin> set shown"

definition turn_hidden ::
  "(string, string) jsmap \<Rightarrow> (string, interaction) jsmap \<Rightarrow> string list \<Rightarrow> string list \<Rightarrow> jsval \<Rightarrow> interaction \<Rightarrow> bool" where
  "turn_hidden children locals shown foldedIds selectedId t \<longleftrightarrow>
     turn_key t \<in> set foldedIds
     \<or> (hidden_child children locals shown (turn_key t) \<and> turn_key t \<noteq> js_String selectedId)"

definition turn_nodes :: "(interaction \<Rightarrow> bool) \<Rightarrow> interaction list \<Rightarrow> ig_nodes" where
  "turn_nodes hidden turns =
     foldl (\<lambda>m t. if hidden t then m else map_set m (turn_key t) (TurnNode (turn_key t) t)) [] turns"

definition add_source ::
  "(string, interaction) jsmap \<Rightarrow> string \<Rightarrow> ig_nodes \<times> ig_edge list \<Rightarrow> graph_source \<Rightarrow> ig_nodes \<times> ig_edge list" where
  "add_source locals target st source =
     (case st of (nodes, edges) \<Rightarrow>
        if is_nullish (gs_interactionId source) \<or> is_nullish (gs_threadId source) then (nodes, edges)
        else
          let i = js_String (gs_interactionId source);
              nodes' = (if \<not> map_has nodes i \<and> \<not> map_has locals i then map_set nodes i (SourceNode i source) else nodes) in
          if \<not> map_has nodes' i then (nodes', edges)
          else if gs_layers source = [] \<and> is_nullish (gs_invocationActionId source) then (nodes', edges)
          else (nodes', edges @ [\<lparr>ie_source = i, ie_target = target, ie_layers = gs_layers source,
                  ie_invocationActionId = nullish_or (gs_invocationActionId source) JNull, ie_chip = False\<rparr>]))"

definition add_turn_sources ::
  "(string, interaction) jsmap \<Rightarrow> ig_nodes \<times> ig_edge list \<Rightarrow> interaction \<Rightarrow> ig_nodes \<times> ig_edge list" where
  "add_turn_sources locals st t =
     (if \<not> map_has (fst st) (turn_key t) then st
      else foldl (add_source locals (turn_key t)) st
             (case it_graph t of None \<Rightarrow> [] | Some p \<Rightarrow> gp_sources p))"

definition plain_edge :: "string \<Rightarrow> string \<Rightarrow> ig_edge" where
  "plain_edge s t = \<lparr>ie_source = s, ie_target = t, ie_layers = [], ie_invocationActionId = JNull, ie_chip = True\<rparr>"

definition add_child_edge :: "(string, string) jsmap \<Rightarrow> ig_nodes \<Rightarrow> ig_edge list \<Rightarrow> string \<Rightarrow> ig_edge list" where
  "add_child_edge children nodes edges childId =
     (case map_get children childId of
        None \<Rightarrow> edges
      | Some parentId \<Rightarrow>
          if \<not> map_has nodes childId \<or> \<not> map_has nodes parentId then edges
          else if \<exists>e \<in> set edges. ie_source e = parentId \<and> ie_target e = childId then edges
          else edges @ [plain_edge parentId childId])"

definition middle_dot :: string where
  "middle_dot = '' '' @ [CHR 0xB7] @ '' ''"

definition chip_summary_text :: "chip \<Rightarrow> string" where
  "chip_summary_text c =
     (let n = length (ch_children c);
          running = length (filter (\<lambda>t. it_status t \<in> RUNNING_STATUSES) (ch_children c));
          interrupted = length (filter interruptedChild (ch_children c)) in
      show_nat n @ '' agent run'' @ (if n = 1 then '''' else ''s'')
      @ (if running \<noteq> 0 then middle_dot @ show_nat running @ '' running'' else '''')
      @ (if interrupted \<noteq> 0 then middle_dot @ show_nat interrupted @ '' interrupted'' else ''''))"

definition chip_label_text :: "chip \<Rightarrow> bool \<Rightarrow> string" where
  "chip_label_text c opened =
     (if ch_attempt c = PreviousAttempt
      then (if opened then utf8 [0xE2, 0x96, 0xBE] @ '' hide previous attempt''
            else ''previous attempt'' @ middle_dot @ chip_summary_text c)
      else (if opened then utf8 [0xE2, 0x96, 0xBE] @ '' hide agent runs''
            else ''+'' @ chip_summary_text c))"

definition add_chip :: "string list \<Rightarrow> ig_nodes \<times> ig_edge list \<Rightarrow> chip \<Rightarrow> ig_nodes \<times> ig_edge list" where
  "add_chip expanded st c =
     (case st of (nodes, edges) \<Rightarrow>
        if \<not> map_has nodes (ch_parentId c) then (nodes, edges)
        else
          let opened = ch_id c \<in> set expanded in
          (map_set nodes (ch_id c) (ChipNode c opened (chip_label_text c opened) (chip_summary_text c)),
           edges @ [plain_edge (ch_parentId c) (ch_id c)]))"

text \<open>All nodes and edges, in the order the loops add them.\<close>

definition graph_parts ::
  "interaction list \<Rightarrow> jsval \<Rightarrow> invocation list \<Rightarrow> string list \<Rightarrow> ig_nodes \<times> ig_edge list" where
  "graph_parts turns selectedId invocations expanded =
     (let children = agentChildParents invocations;
          locals = local_turns turns;
          foldedIds = folded_ids (folded_runs (nodeRunChains turns invocations));
          chips = agent_chips locals children;
          shown = shown_children chips expanded;
          st = foldl (add_turn_sources locals)
                 (turn_nodes (turn_hidden children locals shown foldedIds selectedId) turns, []) turns;
          edges = foldl (add_child_edge children (fst st)) (snd st) shown in
      foldl (add_chip expanded) (fst st, edges) (map_values chips))"

section \<open>Levels\<close>

type_synonym levels = "(string, nat) jsmap"

definition relax :: "nat \<Rightarrow> levels \<times> bool \<Rightarrow> ig_edge \<Rightarrow> levels \<times> bool" where
  "relax n st e =
     (case st of (ls, changed) \<Rightarrow>
        case (map_get ls (ie_source e), map_get ls (ie_target e)) of
          (Some s, Some t) \<Rightarrow>
            let next = min (n - 1) (s + 1) in
            if next > t then (map_set ls (ie_target e) next, True) else (ls, changed)
        | _ \<Rightarrow> (ls, changed))"

definition relax_pass :: "nat \<Rightarrow> ig_edge list \<Rightarrow> levels \<Rightarrow> levels \<times> bool" where
  "relax_pass n edges ls = foldl (relax n) (ls, False) edges"

text \<open>\<open>for (pass = 0; pass < nodes.size; pass += 1)\<close> with the early \<open>break\<close>; the first argument counts the
  passes that are left.\<close>

fun level_passes :: "nat \<Rightarrow> nat \<Rightarrow> ig_edge list \<Rightarrow> levels \<Rightarrow> levels" where
  "level_passes 0 n edges ls = ls"
| "level_passes (Suc k) n edges ls =
     (case relax_pass n edges ls of (ls', changed) \<Rightarrow> if changed then level_passes k n edges ls' else ls')"

definition graph_levels :: "string list \<Rightarrow> ig_edge list \<Rightarrow> levels" where
  "graph_levels ids edges =
     level_passes (length ids) (length ids) edges (map_from (map (\<lambda>i. (i, 0)) ids))"

section \<open>Counts\<close>

record run_counts =
  n_running :: nat
  n_queued :: nat
  n_capacity :: nat
  n_paused :: nat
  n_interrupted :: nat

definition count_turn :: "(string, string) jsmap \<Rightarrow> string list \<Rightarrow> run_counts \<Rightarrow> interaction \<Rightarrow> run_counts" where
  "count_turn children awaitingRetry c t =
     (if map_has children (turn_key t) \<or> turn_key t \<in> set awaitingRetry then c
      else if it_status t \<in> RUNNING_STATUSES then c\<lparr>n_running := n_running c + 1\<rparr>
      else if it_status t = Queued
        then (if it_queueReason t = Some ''capacity'' then c\<lparr>n_capacity := n_capacity c + 1\<rparr>
              else c\<lparr>n_queued := n_queued c + 1\<rparr>)
      else if it_status t = Paused then c\<lparr>n_paused := n_paused c + 1\<rparr>
      else if it_status t = Interrupted then c\<lparr>n_interrupted := n_interrupted c + 1\<rparr>
      else c)"

definition graph_counts :: "interaction list \<Rightarrow> invocation list \<Rightarrow> run_counts" where
  "graph_counts turns invocations =
     foldl (count_turn (agentChildParents invocations) (preparationsAwaitingRetry invocations))
       \<lparr>n_running = 0, n_queued = 0, n_capacity = 0, n_paused = 0, n_interrupted = 0\<rparr> turns"

section \<open>Positions\<close>

record deck_run =
  dr_run :: interaction
  dr_controls :: "run_control list"

record placed_node =
  pn_node :: ig_node
  pn_x :: nat
  pn_y :: nat
  pn_height :: nat
  pn_agentRun :: bool
  pn_preparationRecoverable :: bool
  pn_deck :: "deck_run list"
  pn_deckOpen :: bool
  pn_deckLabel :: "string option"
  pn_deckPaused :: bool
  pn_controls :: "run_control list"
  pn_needsAttention :: bool

definition node_deck :: "decks \<Rightarrow> ig_node \<Rightarrow> interaction list" where
  "node_deck folded nd =
     (case nd of
        ChipNode _ _ _ _ \<Rightarrow> []
      | _ \<Rightarrow> (case map_get folded (node_id nd) of None \<Rightarrow> [] | Some ts \<Rightarrow> ts))"

definition deck_open :: "decks \<Rightarrow> string list \<Rightarrow> ig_node \<Rightarrow> bool" where
  "deck_open folded expanded nd \<longleftrightarrow> node_deck folded nd \<noteq> [] \<and> ''deck:'' @ node_id nd \<in> set expanded"

definition node_height :: "decks \<Rightarrow> string list \<Rightarrow> ig_node \<Rightarrow> nat" where
  "node_height folded expanded nd =
     (case nd of
        ChipNode _ _ _ _ \<Rightarrow> 30
      | _ \<Rightarrow> 70 + (if node_deck folded nd \<noteq> [] then 26 else 0)
               + (if deck_open folded expanded nd then 12 + length (node_deck folded nd) * 24 else 0))"

definition run_node_id :: "ig_node \<Rightarrow> jsval" where
  "run_node_id nd = (case nd of TurnNode _ t \<Rightarrow> it_runNodeId t | _ \<Rightarrow> JUndef)"

record place_context =
  pc_levels :: levels
  pc_folded :: decks
  pc_expanded :: "string list"
  pc_labels :: "(string, string) jsmap"
  pc_control :: control_context

text \<open>One step of \<open>nodes.values().map\<close>: the state is the next free \<open>y\<close> of each column. The level of a node of
  the map is always present; a missing one would be \<open>NaN\<close> and is read as column 0 here.\<close>

definition node_level :: "levels \<Rightarrow> ig_node \<Rightarrow> nat" where
  "node_level ls nd = (case map_get ls (node_id nd) of None \<Rightarrow> 0 | Some l \<Rightarrow> l)"

definition column_y :: "(nat, nat) jsmap \<Rightarrow> nat \<Rightarrow> nat" where
  "column_y cols l = (case map_get cols l of None \<Rightarrow> 20 | Some y \<Rightarrow> y)"

definition place_node :: "place_context \<Rightarrow> nat \<Rightarrow> ig_node \<Rightarrow> placed_node" where
  "place_node pc y nd =
     (let deck = node_deck (pc_folded pc) nd;
          cc = pc_control pc in
      \<lparr>pn_node = nd, pn_x = 20 + node_level (pc_levels pc) nd * 224, pn_y = y,
       pn_height = node_height (pc_folded pc) (pc_expanded pc) nd,
       pn_agentRun = (case nd of ChipNode _ _ _ _ \<Rightarrow> False | _ \<Rightarrow> map_has (cc_children cc) (node_id nd)),
       pn_preparationRecoverable =
         (case nd of ChipNode _ _ _ _ \<Rightarrow> False | _ \<Rightarrow> node_id nd \<in> set (cc_awaitingRetry cc)),
       pn_deck = map (\<lambda>run. \<lparr>dr_run = run, dr_controls = runControls run cc\<rparr>) deck,
       pn_deckOpen = deck_open (pc_folded pc) (pc_expanded pc) nd,
       pn_deckLabel =
         (if deck = [] then None
          else Some (case map_get (pc_labels pc) (js_String (run_node_id nd)) of None \<Rightarrow> ''this node'' | Some l \<Rightarrow> l)),
       pn_deckPaused = list_ex resumable_run deck,
       pn_controls = (case nd of TurnNode _ t \<Rightarrow> runControls t cc | _ \<Rightarrow> []),
       pn_needsAttention =
         (case nd of
            TurnNode i t \<Rightarrow> \<not> map_has (cc_children cc) i \<and> runNeedsAttention t (cc_chains cc)
          | _ \<Rightarrow> False)\<rparr>)"

fun place_nodes :: "place_context \<Rightarrow> (nat, nat) jsmap \<Rightarrow> ig_node list \<Rightarrow> placed_node list" where
  "place_nodes pc cols [] = []"
| "place_nodes pc cols (nd # nds) =
     (let l = node_level (pc_levels pc) nd;
          y = column_y cols l;
          h = node_height (pc_folded pc) (pc_expanded pc) nd in
      place_node pc y nd # place_nodes pc (map_set cols l (y + h + 28)) nds)"

section \<open>The graph\<close>

record interaction_graph =
  ig_nodes_of :: "placed_node list"
  ig_edges_of :: "ig_edge list"
  ig_incomplete :: bool
  ig_contextCount :: nat
  ig_counts :: run_counts
  ig_attention :: nat
  ig_resumable :: nat
  ig_width :: nat
  ig_height :: nat

record graph_options =
  go_invocations :: "invocation list"
  go_expanded :: "string list"
  go_nodeLabels :: "(string, string) jsmap"
  go_controllable :: bool

definition control_context_of :: "interaction list \<Rightarrow> graph_options \<Rightarrow> control_context" where
  "control_context_of turns opts =
     \<lparr>cc_chains = nodeRunChains turns (go_invocations opts), cc_children = agentChildParents (go_invocations opts),
      cc_controllable = go_controllable opts, cc_awaitingRetry = preparationsAwaitingRetry (go_invocations opts)\<rparr>"

definition graph_shown :: "interaction list \<Rightarrow> interaction option \<Rightarrow> bool" where
  "graph_shown turns selected =
     (case selected of
        None \<Rightarrow> False
      | Some t \<Rightarrow> (case it_graph t of None \<Rightarrow> False | Some p \<Rightarrow> gp_enabled p) \<or> list_ex resumable_run turns)"

definition place_context_of ::
  "interaction list \<Rightarrow> graph_options \<Rightarrow> ig_nodes \<times> ig_edge list \<Rightarrow> place_context" where
  "place_context_of turns opts parts =
     \<lparr>pc_levels = graph_levels (map_keys (fst parts)) (snd parts),
      pc_folded = folded_runs (nodeRunChains turns (go_invocations opts)), pc_expanded = go_expanded opts,
      pc_labels = go_nodeLabels opts, pc_control = control_context_of turns opts\<rparr>"

definition interactionGraph :: "interaction list \<Rightarrow> jsval \<Rightarrow> graph_options \<Rightarrow> interaction_graph option" where
  "interactionGraph turns selectedId opts =
     (let selected = find (\<lambda>t. eqId (it_id t) selectedId) turns in
      if \<not> graph_shown turns selected then None
      else
        let parts = graph_parts turns selectedId (go_invocations opts) (go_expanded opts);
            counts = graph_counts turns (go_invocations opts);
            positioned = place_nodes (place_context_of turns opts parts) [] (map_values (fst parts)) in
        Some \<lparr>ig_nodes_of = positioned, ig_edges_of = snd parts,
          ig_incomplete =
            list_ex (\<lambda>t. case it_graph t of None \<Rightarrow> False | Some p \<Rightarrow> gp_complete p = Some False) turns,
          ig_contextCount = (case selected of None \<Rightarrow> 0 | Some t \<Rightarrow> it_contextCount t),
          ig_counts = counts, ig_attention = n_paused counts + n_interrupted counts,
          ig_resumable = n_paused counts + n_interrupted counts,
          ig_width = fold max (map (\<lambda>p. pn_x p + 212) positioned) 448,
          ig_height = fold max (map (\<lambda>p. pn_y p + pn_height p + 20) positioned) 160\<rparr>)"

section \<open>Status texts\<close>

definition interactionGraphStatus :: "interaction \<Rightarrow> bool \<Rightarrow> string" where
  "interactionGraphStatus nd preparationRecoverable =
     (let s = it_status nd in
      if s = Accepted then ''Response ready''
      else if preparationRecoverable \<and> (s = NotStarted \<or> s = Submitted) then ''Waiting for Retry''
      else if s \<in> CHAIN_STATUSES \<and> s \<notin> RESUMABLE_STATUSES \<and> it_stopRequested nd \<and> \<not> it_stopError nd
        then ''Stopping'' @ utf8 [0xE2, 0x80, 0xA6]
      else if s = Queued \<and> it_queueReason nd = Some ''capacity'' then ''Waiting for capacity''
      else if s = Queued then ''Queued''
      else if s = Paused then ''Paused''
      else if s = Interrupted then ''Interrupted by restart''
      else if s = Running \<or> s = Submitted then ''Running''
      else if s = WaitingForApproval then ''Needs approval''
      else if s = Failed then ''Failed''
      else if s = Stopped then ''Stopped''
      else if s = NoStatus \<or> status_name s = '''' then ''Interaction'' else status_name s)"

definition interactionGraphStatusChips :: "interaction_graph \<Rightarrow> (string \<times> nat \<times> string) list" where
  "interactionGraphStatusChips g =
     map (\<lambda>(kind, k, label). (kind, k, show_nat k @ '' '' @ label))
       (filter (\<lambda>(_, k, _). k > 0)
         [(''running'', n_running (ig_counts g), ''running''),
          (''queued'', n_queued (ig_counts g), ''queued''),
          (''capacity'', n_capacity (ig_counts g), ''waiting for capacity''),
          (''paused'', n_paused (ig_counts g), ''paused''),
          (''interrupted'', n_interrupted (ig_counts g), ''interrupted'')])"

section \<open>The level loop finds the longest walks\<close>

text \<open>\<open>walk_to E k v\<close>: some walk of \<open>k\<close> edges ends in \<open>v\<close>.\<close>

inductive walk_to :: "ig_edge list \<Rightarrow> nat \<Rightarrow> string \<Rightarrow> bool" for E where
  walk_start: "walk_to E 0 v"
| walk_edge: "walk_to E k (ie_source e) \<Longrightarrow> e \<in> set E \<Longrightarrow> walk_to E (Suc k) (ie_target e)"

inductive_cases walk_SucE: "walk_to E (Suc k) v"

lemma walk_shorter: "walk_to E k v \<Longrightarrow> j \<le> k \<Longrightarrow> walk_to E j v"
proof (induction arbitrary: j rule: walk_to.induct)
  case (walk_start v)
  then show ?case by (simp add: walk_to.walk_start)
next
  case (walk_edge k e)
  then show ?case by (cases j) (auto intro: walk_to.intros)
qed

definition edges_within :: "string list \<Rightarrow> ig_edge list \<Rightarrow> bool" where
  "edges_within ids E \<longleftrightarrow> (\<forall>e \<in> set E. ie_source e \<in> set ids \<and> ie_target e \<in> set ids)"

definition levels_ok :: "nat \<Rightarrow> ig_edge list \<Rightarrow> string list \<Rightarrow> levels \<Rightarrow> bool" where
  "levels_ok n E ids ls \<longleftrightarrow>
     map_keys ls = ids \<and> (\<forall>v l. map_get ls v = Some l \<longrightarrow> l \<le> n - 1 \<and> walk_to E l v)"

text \<open>The levels only grow.\<close>

definition levels_le :: "levels \<Rightarrow> levels \<Rightarrow> bool" where
  "levels_le ls ls' \<longleftrightarrow> (\<forall>v l. map_get ls v = Some l \<longrightarrow> (\<exists>l'. map_get ls' v = Some l' \<and> l \<le> l'))"

lemma levels_le_refl [simp]: "levels_le ls ls"
  by (simp add: levels_le_def)

lemma levels_le_trans: "levels_le a b \<Longrightarrow> levels_le b c \<Longrightarrow> levels_le a c"
  unfolding levels_le_def by (meson order_trans)

lemma levels_present: "levels_ok n E ids ls \<Longrightarrow> v \<in> set ids \<Longrightarrow> \<exists>l. map_get ls v = Some l"
  using map_has_iff [of ls v] by (auto simp: levels_ok_def map_has_keys)

lemma relax_mono: "levels_le ls (fst (relax n (ls, c) e))"
  by (auto simp: relax_def levels_le_def Let_def split: option.splits)

lemma relax_ok:
  assumes ok: "levels_ok n E ids ls" and e: "e \<in> set E"
  shows "levels_ok n E ids (fst (relax n (ls, c) e))"
proof (cases "\<exists>s t. map_get ls (ie_source e) = Some s \<and> map_get ls (ie_target e) = Some t \<and> t < min (n - 1) (s + 1)")
  case True
  then obtain s t where st: "map_get ls (ie_source e) = Some s" "map_get ls (ie_target e) = Some t"
    "t < min (n - 1) (s + 1)" by blast
  with ok have "walk_to E s (ie_source e)" by (simp add: levels_ok_def)
  with e have "walk_to E (Suc s) (ie_target e)" by (simp add: walk_edge)
  then have w: "walk_to E (min (n - 1) (s + 1)) (ie_target e)" by (rule walk_shorter) simp
  from st(2) have "map_has ls (ie_target e)" by (simp add: map_has_iff)
  with ok w st show ?thesis
    by (auto simp: relax_def levels_ok_def map_keys_set)
next
  case False
  then have "fst (relax n (ls, c) e) = ls" by (auto simp: relax_def Let_def split: option.splits)
  with ok show ?thesis by simp
qed

lemma relax_edge:
  assumes "levels_ok n E ids ls" "edges_within ids E" "e \<in> set E"
    and "map_get ls (ie_source e) = Some s"
  shows "\<exists>t. map_get (fst (relax n (ls, c) e)) (ie_target e) = Some t \<and> min (n - 1) (s + 1) \<le> t"
proof -
  from assms obtain t where "map_get ls (ie_target e) = Some t"
    using levels_present by (metis edges_within_def)
  with assms(4) show ?thesis by (auto simp: relax_def)
qed

lemma relax_unchanged: "relax n (ls, c) e = (ls', False) \<Longrightarrow> ls' = ls \<and> \<not> c"
  by (auto simp: relax_def Let_def split: option.splits if_splits)

lemma relax_fold_unchanged: "foldl (relax n) (ls, c) es = (ls', False) \<Longrightarrow> ls' = ls \<and> \<not> c"
proof (induction es arbitrary: ls c)
  case (Cons e es)
  obtain l1 c1 where r: "relax n (ls, c) e = (l1, c1)" by (cases "relax n (ls, c) e")
  with Cons.prems have "foldl (relax n) (l1, c1) es = (ls', False)" by simp
  from Cons.IH [OF this] r show ?case using relax_unchanged by metis
qed simp

lemma relax_fold_ok:
  "levels_ok n E ids ls \<Longrightarrow> set es \<subseteq> set E \<Longrightarrow> levels_ok n E ids (fst (foldl (relax n) (ls, c) es))"
proof (induction es arbitrary: ls c)
  case (Cons e es)
  obtain l1 c1 where r: "relax n (ls, c) e = (l1, c1)" by (cases "relax n (ls, c) e")
  have "levels_ok n E ids l1" using relax_ok [of n E ids ls e c] Cons.prems r by simp
  with Cons r show ?case by simp
qed simp

lemma relax_fold_mono: "levels_le ls (fst (foldl (relax n) (ls, c) es))"
proof (induction es arbitrary: ls c)
  case (Cons e es)
  obtain l1 c1 where r: "relax n (ls, c) e = (l1, c1)" by (cases "relax n (ls, c) e")
  have "levels_le ls l1" using relax_mono [of ls n c e] r by simp
  moreover have "levels_le l1 (fst (foldl (relax n) (l1, c1) es))" by (rule Cons.IH)
  ultimately show ?case using r levels_le_trans by simp
qed simp

lemma relax_fold_edge:
  assumes "levels_ok n E ids ls" "edges_within ids E" "set es \<subseteq> set E" "e \<in> set es"
    and "map_get ls (ie_source e) = Some s"
  shows "\<exists>t. map_get (fst (foldl (relax n) (ls, c) es)) (ie_target e) = Some t \<and> min (n - 1) (s + 1) \<le> t"
  using assms
proof (induction es arbitrary: ls c s)
  case (Cons a es)
  obtain l1 c1 where r: "relax n (ls, c) a = (l1, c1)" by (cases "relax n (ls, c) a")
  have ok: "levels_ok n E ids l1" using relax_ok [of n E ids ls a c] Cons.prems r by simp
  show ?case
  proof (cases "e = a")
    case True
    obtain t where t: "map_get l1 (ie_target e) = Some t" "min (n - 1) (s + 1) \<le> t"
      using relax_edge [of n E ids ls a s c] Cons.prems True r by auto
    with relax_fold_mono [of l1 n c1 es] r show ?thesis
      unfolding levels_le_def by simp (meson order_trans)
  next
    case False
    obtain s1 where s1: "map_get l1 (ie_source e) = Some s1" "s \<le> s1"
      using relax_mono [of ls n c a] r Cons.prems(5) unfolding levels_le_def by force
    from False Cons.prems have "e \<in> set es" by simp
    with Cons.IH [OF ok Cons.prems(2) _ _ s1(1), of c1] Cons.prems(3)
    obtain t where "map_get (fst (foldl (relax n) (l1, c1) es)) (ie_target e) = Some t" "min (n - 1) (s1 + 1) \<le> t"
      by auto
    moreover have "min (n - 1) (s + 1) \<le> min (n - 1) (s1 + 1)" using s1(2) by simp
    ultimately show ?thesis using r order_trans by auto
  qed
qed simp

text \<open>\<open>covers n E k ls\<close>: the levels reach every walk of up to \<open>k\<close> edges, up to the cap.\<close>

definition covers :: "nat \<Rightarrow> ig_edge list \<Rightarrow> nat \<Rightarrow> levels \<Rightarrow> bool" where
  "covers n E k ls \<longleftrightarrow>
     (\<forall>j v l. j \<le> k \<longrightarrow> walk_to E j v \<longrightarrow> map_get ls v = Some l \<longrightarrow> min (n - 1) j \<le> l)"

lemma covers_step:
  assumes ok: "levels_ok n E ids ls" "edges_within ids E" and c: "covers n E k ls"
  shows "covers n E (Suc k) (fst (relax_pass n E ls))"
  unfolding covers_def
proof (intro allI impI)
  fix j v l
  assume j: "j \<le> Suc k" and w: "walk_to E j v" and l: "map_get (fst (relax_pass n E ls)) v = Some l"
  show "min (n - 1) j \<le> l"
  proof (cases j)
    case (Suc i)
    from w [unfolded Suc] obtain e where e: "e \<in> set E" "v = ie_target e" "walk_to E i (ie_source e)"
      by (auto elim: walk_SucE)
    from ok e(1) obtain s where s: "map_get ls (ie_source e) = Some s"
      using levels_present by (metis edges_within_def)
    with c e(3) j Suc have "min (n - 1) i \<le> s" by (simp add: covers_def)
    moreover from relax_fold_edge [OF ok _ e(1) s, of False] l e(2)
    have "min (n - 1) (s + 1) \<le> l" by (simp add: relax_pass_def)
    ultimately show ?thesis using Suc by simp
  qed simp
qed

lemma covers_le: "covers n E k ls \<Longrightarrow> j \<le> k \<Longrightarrow> covers n E j ls"
  by (auto simp: covers_def)

lemma covers_all_fixpoint:
  assumes ok: "levels_ok n E ids ls" "edges_within ids E" and fx: "fst (relax_pass n E ls) = ls"
  shows "covers n E k ls"
proof (induction k)
  case 0
  then show ?case by (auto simp: covers_def)
next
  case (Suc k)
  with covers_step [OF ok] fx show ?case by metis
qed

lemma level_passes_result:
  assumes "levels_ok n E ids ls" "edges_within ids E" "covers n E k ls"
  shows "levels_ok n E ids (level_passes m n E ls) \<and> covers n E (k + m) (level_passes m n E ls)"
  using assms
proof (induction m arbitrary: k ls)
  case (Suc m)
  obtain ls' ch where r: "relax_pass n E ls = (ls', ch)" by (cases "relax_pass n E ls")
  have ok: "levels_ok n E ids ls'"
    using relax_fold_ok [OF Suc.prems(1), of E False] r by (simp add: relax_pass_def)
  have cov: "covers n E (Suc k) ls'" using covers_step [OF Suc.prems] r by simp
  show ?case
  proof (cases ch)
    case True
    with Suc.IH [OF ok Suc.prems(2) cov] r show ?thesis by simp
  next
    case False
    with r have eq: "ls' = ls" using relax_fold_unchanged [of n ls False E ls'] by (simp add: relax_pass_def)
    with r have "fst (relax_pass n E ls) = ls" by simp
    from covers_all_fixpoint [OF Suc.prems(1,2) this] eq r False Suc.prems(1) show ?thesis by simp
  qed
qed simp

lemma initial_levels:
  assumes "distinct ids"
  shows "levels_ok n E ids (map_from (map (\<lambda>i. (i, 0)) ids))"
proof -
  have "map_keys (map_from (map (\<lambda>i. (i, 0 :: nat)) ids)) = ids" using assms
  proof (induction ids rule: rev_induct)
    case Nil
    then show ?case by (simp add: map_from_def)
  next
    case (snoc i ids)
    then show ?case by (auto simp: map_from_snoc map_keys_set map_has_from image_iff)
  qed
  moreover have "l = 0" if "map_get (map_from (map (\<lambda>i. (i, 0 :: nat)) ids)) v = Some l" for v l
    using map_get_from_in [OF that] by auto
  ultimately show ?thesis
    unfolding levels_ok_def using walk_start [of E] by (metis le0)
qed

text \<open>The level of a node is the length of a longest walk that ends there, cut off at the last column.\<close>

lemma graph_levels_longest:
  assumes "distinct ids" "edges_within ids E" "v \<in> set ids"
  obtains l where "map_get (graph_levels ids E) v = Some l" "l \<le> length ids - 1" "walk_to E l v"
    "\<And>k. walk_to E k v \<Longrightarrow> min (length ids - 1) k \<le> l"
proof -
  let ?n = "length ids" and ?ls = "graph_levels ids E"
  have "covers ?n E 0 (map_from (map (\<lambda>i. (i, 0)) ids))" by (auto simp: covers_def)
  from level_passes_result [OF initial_levels [OF assms(1)] assms(2) this, of ?n]
  have ok: "levels_ok ?n E ids ?ls" and cov: "covers ?n E ?n ?ls" by (simp_all add: graph_levels_def)
  from levels_present [OF ok assms(3)] obtain l where l: "map_get ?ls v = Some l" by blast
  have "min (?n - 1) k \<le> l" if "walk_to E k v" for k
  proof -
    from that have "walk_to E (min (?n - 1) k) v" by (rule walk_shorter) simp
    moreover have "min (?n - 1) k \<le> ?n" by simp
    ultimately have "min (?n - 1) (min (?n - 1) k) \<le> l" using cov l unfolding covers_def by blast
    then show ?thesis by simp
  qed
  moreover from ok l have "l \<le> ?n - 1" "walk_to E l v" by (simp_all add: levels_ok_def)
  ultimately show ?thesis using that l by blast
qed

section \<open>The parts fit together\<close>

text \<open>Every node stands under its own id, and every edge joins two nodes.\<close>

definition parts_ok :: "ig_nodes \<times> ig_edge list \<Rightarrow> bool" where
  "parts_ok st \<longleftrightarrow> map_ok (fst st) \<and> (\<forall>k nd. map_get (fst st) k = Some nd \<longrightarrow> node_id nd = k)
     \<and> edges_within (map_keys (fst st)) (snd st)"

lemma edges_within_set: "edges_within (map_keys m) E \<Longrightarrow> edges_within (map_keys (map_set m k v)) E"
  by (auto simp: edges_within_def map_keys_set)

lemma edges_within_snoc:
  "edges_within ids (E @ [e]) \<longleftrightarrow> edges_within ids E \<and> ie_source e \<in> set ids \<and> ie_target e \<in> set ids"
  by (auto simp: edges_within_def)

lemma parts_ok_put:
  "parts_ok (nodes, edges) \<Longrightarrow> node_id nd = k \<Longrightarrow> parts_ok (map_set nodes k nd, edges)"
  by (auto simp: parts_ok_def edges_within_set)

lemma parts_ok_link:
  "parts_ok (nodes, edges) \<Longrightarrow> map_has nodes (ie_source e) \<Longrightarrow> map_has nodes (ie_target e)
     \<Longrightarrow> parts_ok (nodes, edges @ [e])"
  by (simp add: parts_ok_def edges_within_snoc map_has_keys)

lemma turn_nodes_ok: "parts_ok (turn_nodes hidden turns, [])"
proof -
  have "parts_ok (m, []) \<Longrightarrow>
    parts_ok (foldl (\<lambda>m t. if hidden t then m else map_set m (turn_key t) (TurnNode (turn_key t) t)) m turns, [])"
    for m
    by (induction turns arbitrary: m) (auto simp: parts_ok_put)
  moreover have "parts_ok ([], [])" by (simp add: parts_ok_def edges_within_def)
  ultimately show ?thesis by (simp add: turn_nodes_def)
qed

lemma add_source_keeps: "map_has (fst st) i \<Longrightarrow> map_has (fst (add_source locals target st s)) i"
  by (auto simp: add_source_def Let_def split: prod.splits)

lemma add_source_ok:
  assumes "parts_ok st" "map_has (fst st) target"
  shows "parts_ok (add_source locals target st s)"
proof -
  obtain nodes edges where st: "st = (nodes, edges)" by (cases st)
  show ?thesis
    using assms by (auto simp: add_source_def st Let_def parts_ok_link parts_ok_put)
qed

lemma add_sources_ok:
  "parts_ok st \<Longrightarrow> map_has (fst st) target \<Longrightarrow> parts_ok (foldl (add_source locals target) st ss)"
  by (induction ss arbitrary: st) (auto simp: add_source_ok add_source_keeps)

lemma add_turn_sources_ok: "parts_ok st \<Longrightarrow> parts_ok (foldl (add_turn_sources locals) st turns)"
  by (induction turns arbitrary: st) (auto simp: add_turn_sources_def add_sources_ok)

lemma add_child_edges_ok:
  "parts_ok (nodes, edges) \<Longrightarrow> parts_ok (nodes, foldl (add_child_edge children nodes) edges shown)"
  by (induction shown arbitrary: edges)
    (auto simp: add_child_edge_def plain_edge_def parts_ok_link split: option.splits)

lemma add_chips_ok: "parts_ok st \<Longrightarrow> parts_ok (foldl (add_chip expanded) st cs)"
proof (induction cs arbitrary: st)
  case (Cons c cs)
  obtain nodes edges where st: "st = (nodes, edges)" by (cases st)
  have "parts_ok (add_chip expanded st c)"
    using Cons.prems by (auto simp: add_chip_def st Let_def plain_edge_def parts_ok_link parts_ok_put)
  with Cons.IH show ?case by simp
qed simp

lemma graph_parts_ok: "parts_ok (graph_parts turns sel ivs expanded)"
proof -
  have "parts_ok (nodes, foldl (add_child_edge children nodes) (snd st) shown)"
    if "parts_ok st" "nodes = fst st" for st nodes children shown
    using that add_child_edges_ok [of "fst st" "snd st"] by simp
  then show ?thesis
    unfolding graph_parts_def Let_def
    by (intro add_chips_ok) (simp add: add_turn_sources_ok turn_nodes_ok)
qed

section \<open>The positions\<close>

lemma place_node_x [simp]: "pn_x (place_node pc y nd) = 20 + node_level (pc_levels pc) nd * 224"
  and place_node_y [simp]: "pn_y (place_node pc y nd) = y"
  and place_node_height [simp]: "pn_height (place_node pc y nd) = node_height (pc_folded pc) (pc_expanded pc) nd"
  and place_node_node [simp]: "pn_node (place_node pc y nd) = nd"
  by (simp_all add: place_node_def Let_def)

lemma place_nodes_nodes [simp]: "map pn_node (place_nodes pc cols nds) = nds"
  by (induction nds arbitrary: cols) (auto simp: Let_def)

lemma place_nodes_in: "p \<in> set (place_nodes pc cols nds) \<Longrightarrow> \<exists>y. p = place_node pc y (pn_node p)"
  by (induction nds arbitrary: cols) (auto simp: Let_def)

lemma column_y_set: "column_y (map_set cols l y) l' = (if l' = l then y else column_y cols l')"
  by (simp add: column_y_def)

lemma place_nodes_below:
  "p \<in> set (place_nodes pc cols nds) \<Longrightarrow> column_y cols (node_level (pc_levels pc) (pn_node p)) \<le> pn_y p"
proof (induction nds arbitrary: cols)
  case (Cons nd nds)
  show ?case
  proof (cases "p = place_node pc (column_y cols (node_level (pc_levels pc) nd)) nd")
    case False
    with Cons.prems have "p \<in> set (place_nodes pc (map_set cols (node_level (pc_levels pc) nd)
        (column_y cols (node_level (pc_levels pc) nd) + node_height (pc_folded pc) (pc_expanded pc) nd + 28)) nds)"
      by (simp add: Let_def)
    from Cons.IH [OF this] show ?thesis by (simp add: column_y_set split: if_splits)
  qed simp
qed simp

lemma place_nodes_stacked:
  "sorted_wrt (\<lambda>p q. pn_x p = pn_x q \<longrightarrow> pn_y p + pn_height p + 28 \<le> pn_y q) (place_nodes pc cols nds)"
proof (induction nds arbitrary: cols)
  case (Cons nd nds)
  let ?l = "node_level (pc_levels pc) nd"
  let ?y = "column_y cols ?l"
  let ?cols = "map_set cols ?l (?y + node_height (pc_folded pc) (pc_expanded pc) nd + 28)"
  have "?y + node_height (pc_folded pc) (pc_expanded pc) nd + 28 \<le> pn_y q"
    if q: "q \<in> set (place_nodes pc ?cols nds)" and x: "20 + ?l * 224 = pn_x q" for q
  proof -
    from place_nodes_in [OF q] obtain y where "q = place_node pc y (pn_node q)" by blast
    with x have "node_level (pc_levels pc) (pn_node q) = ?l" by (metis add_left_cancel mult_right_cancel place_node_x zero_neq_numeral)
    with place_nodes_below [OF q] show ?thesis by (simp add: column_y_set)
  qed
  with Cons.IH show ?case by (simp add: Let_def)
qed simp

lemma fold_max_ge: "x \<in> set xs \<Longrightarrow> x \<le> fold max xs (a :: nat)"
proof (induction xs arbitrary: a)
  case (Cons y ys)
  have "b \<le> fold max zs b" for zs and b :: nat
    by (induction zs arbitrary: b) (auto, metis max.bounded_iff)
  with Cons show ?case by (auto intro: le_max_iff_disj [THEN iffD2] order_trans [OF max.cobounded1])
qed simp

text \<open>What a graph is made of, once it is shown.\<close>

lemma interactionGraph_parts:
  assumes "interactionGraph turns sel opts = Some g"
  defines "parts \<equiv> graph_parts turns sel (go_invocations opts) (go_expanded opts)"
  shows "ig_nodes_of g = place_nodes (place_context_of turns opts parts) [] (map_values (fst parts))"
    and "ig_edges_of g = snd parts"
    and "ig_width g = fold max (map (\<lambda>p. pn_x p + 212) (ig_nodes_of g)) 448"
    and "ig_height g = fold max (map (\<lambda>p. pn_y p + pn_height p + 20) (ig_nodes_of g)) 160"
    and "ig_counts g = graph_counts turns (go_invocations opts)"
    and "ig_attention g = n_paused (ig_counts g) + n_interrupted (ig_counts g)"
  using assms(1) by (auto simp: interactionGraph_def Let_def parts_def split: if_splits)

section \<open>Properties\<close>

lemma graph_node_values:
  assumes "parts_ok parts" "i \<in> set (map_keys (fst parts))"
  obtains nd where "nd \<in> set (map_values (fst parts))" "node_id nd = i"
proof -
  from assms(2) obtain nd where "map_get (fst parts) i = Some nd"
    using map_has_iff [of "fst parts" i] by (auto simp: map_has_keys)
  moreover from this have "nd \<in> set (map_values (fst parts))"
    by (auto simp: map_values_def dest!: map_get_in intro!: image_eqI)
  ultimately show ?thesis using assms(1) that by (simp add: parts_ok_def)
qed

lemma placed_node_for:
  assumes "nd \<in> set nds"
  obtains p where "p \<in> set (place_nodes pc cols nds)" "pn_node p = nd"
    "pn_x p = 20 + node_level (pc_levels pc) nd * 224"
proof -
  from assms have "nd \<in> pn_node ` set (place_nodes pc cols nds)"
    by (metis image_set place_nodes_nodes)
  then obtain p where p: "p \<in> set (place_nodes pc cols nds)" "pn_node p = nd" by auto
  with place_nodes_in [OF p(1)] that show ?thesis by (metis place_node_x)
qed

text \<open>C9. In every graph the popover shows, an edge joins two cards, and its target stands at least one column
  to the right of its source, unless the edges run in a cycle (a walk visits more nodes than there are).
  No card stands further right than it has to: the column of a card is the length of some walk to it.\<close>

theorem edges_lead_right:
  assumes g: "interactionGraph turns sel opts = Some g" and e: "e \<in> set (ig_edges_of g)"
  shows "\<exists>p \<in> set (ig_nodes_of g). \<exists>q \<in> set (ig_nodes_of g).
      node_id (pn_node p) = ie_source e \<and> node_id (pn_node q) = ie_target e
      \<and> (pn_x p + 224 \<le> pn_x q \<or> walk_to (ig_edges_of g) (length (ig_nodes_of g)) (ie_target e))
      \<and> (\<exists>k. pn_x q = 20 + k * 224 \<and> walk_to (ig_edges_of g) k (ie_target e))"
proof -
  define parts where "parts = graph_parts turns sel (go_invocations opts) (go_expanded opts)"
  define ids where "ids = map_keys (fst parts)"
  define pc where "pc = place_context_of turns opts parts"
  note parts = interactionGraph_parts [OF g, folded parts_def, folded pc_def]
  have ok: "parts_ok parts" by (simp add: parts_def graph_parts_ok)
  then have ids: "distinct ids" "edges_within ids (snd parts)" by (simp_all add: parts_ok_def ids_def map_ok_keys)
  have lv: "pc_levels pc = graph_levels ids (snd parts)" by (simp add: pc_def place_context_of_def ids_def)
  have len: "length (ig_nodes_of g) = length ids"
    by (metis parts(1) ids_def length_map map_keys_def map_values_def place_nodes_nodes)
  from e parts(2) ids(2) have st: "ie_source e \<in> set ids" "ie_target e \<in> set ids" by (auto simp: edges_within_def)
  obtain a where a: "a \<in> set (map_values (fst parts))" "node_id a = ie_source e"
    using graph_node_values [OF ok] st(1) ids_def by metis
  obtain b where b: "b \<in> set (map_values (fst parts))" "node_id b = ie_target e"
    using graph_node_values [OF ok] st(2) ids_def by metis
  obtain p where p: "p \<in> set (ig_nodes_of g)" "pn_node p = a" "pn_x p = 20 + node_level (pc_levels pc) a * 224"
    unfolding parts(1) using placed_node_for [OF a(1)] by metis
  obtain q where q: "q \<in> set (ig_nodes_of g)" "pn_node q = b" "pn_x q = 20 + node_level (pc_levels pc) b * 224"
    unfolding parts(1) using placed_node_for [OF b(1)] by metis
  obtain l where l: "map_get (graph_levels ids (snd parts)) (ie_source e) = Some l" "l \<le> length ids - 1"
    "walk_to (snd parts) l (ie_source e)" by (rule graph_levels_longest [OF ids st(1)])
  obtain m where m: "map_get (graph_levels ids (snd parts)) (ie_target e) = Some m"
    "walk_to (snd parts) m (ie_target e)" "\<And>k. walk_to (snd parts) k (ie_target e) \<Longrightarrow> min (length ids - 1) k \<le> m"
    by (rule graph_levels_longest [OF ids st(2)]) blast
  have w: "walk_to (snd parts) (Suc l) (ie_target e)" using l(3) e parts(2) by (simp add: walk_edge)
  have "l + 1 \<le> m \<or> Suc l = length ids"
    using m(3) [OF w] l(2) st(1) by (cases ids) auto
  with w have "l + 1 \<le> m \<or> walk_to (snd parts) (length ids) (ie_target e)" by auto
  then have "pn_x p + 224 \<le> pn_x q \<or> walk_to (ig_edges_of g) (length (ig_nodes_of g)) (ie_target e)"
    using p(3) q(3) l(1) m(1) lv a(2) b(2) len parts(2) by (auto simp: node_level_def)
  moreover have "pn_x q = 20 + m * 224" using q(3) m(1) lv b(2) by (simp add: node_level_def)
  ultimately show ?thesis using p q a(2) b(2) m(2) parts(2) by metis
qed

text \<open>Two cards of one column never overlap: the later one starts at least the row gap below the earlier
  one, decks and open decks included; and every card lies inside the surface, whose size the graph reports.\<close>

theorem cards_never_overlap:
  assumes "interactionGraph turns sel opts = Some g"
  shows "sorted_wrt (\<lambda>p q. pn_x p = pn_x q \<longrightarrow> pn_y p + pn_height p + 28 \<le> pn_y q) (ig_nodes_of g)
    \<and> list_all (\<lambda>p. pn_x p + 212 \<le> ig_width g \<and> pn_y p + pn_height p + 20 \<le> ig_height g) (ig_nodes_of g)"
proof -
  note parts = interactionGraph_parts [OF assms]
  have "pn_x p + 212 \<le> ig_width g \<and> pn_y p + pn_height p + 20 \<le> ig_height g" if "p \<in> set (ig_nodes_of g)" for p
    using that unfolding parts(3,4) by (auto intro!: fold_max_ge)
  then show ?thesis
    using place_nodes_stacked [of "place_context_of turns opts (graph_parts turns sel (go_invocations opts) (go_expanded opts))" "[]"]
    by (simp add: parts(1) list_all_iff)
qed

text \<open>Two turns, the second made from a layer of the first.\<close>

definition demo_linked :: "interaction list" where
  "demo_linked =
     [(bare_interaction (JNum 1))\<lparr>it_graph := Some \<lparr>gp_enabled = True, gp_complete = Some True, gp_sources = []\<rparr>\<rparr>,
      (bare_interaction (JNum 2))\<lparr>it_graph := Some \<lparr>gp_enabled = True, gp_complete = Some True, gp_sources =
        [\<lparr>gs_interactionId = JNum 1, gs_threadId = JNum 9, gs_layers = [JNum 5], gs_invocationActionId = JNull\<rparr>]\<rparr>\<rparr>]"

definition demo_plain_options :: graph_options where
  "demo_plain_options = \<lparr>go_invocations = [], go_expanded = [], go_nodeLabels = [], go_controllable = True\<rparr>"

definition demo_edge :: ig_edge where
  "demo_edge = \<lparr>ie_source = ''1'', ie_target = ''2'', ie_layers = [JNum 5], ie_invocationActionId = JNull, ie_chip = False\<rparr>"

lemma demo_linked_edges: "snd (graph_parts demo_linked (JNum 1) [] []) = [demo_edge]"
  by code_simp

lemma demo_linked_graph:
  "\<exists>g. interactionGraph demo_linked (JNum 1) demo_plain_options = Some g \<and> ig_edges_of g = [demo_edge]"
  using demo_linked_edges
  by (simp add: interactionGraph_def Let_def graph_shown_def demo_linked_def demo_plain_options_def)

theorem edges_lead_right_witness:
  "\<exists>g. interactionGraph demo_linked (JNum 1) demo_plain_options = Some g
     \<and> (\<exists>p \<in> set (ig_nodes_of g). \<exists>q \<in> set (ig_nodes_of g).
          node_id (pn_node p) = ''1'' \<and> node_id (pn_node q) = ''2''
          \<and> (pn_x p + 224 \<le> pn_x q \<or> walk_to [demo_edge] (length (ig_nodes_of g)) ''2''))"
proof -
  obtain g where g: "interactionGraph demo_linked (JNum 1) demo_plain_options = Some g" "ig_edges_of g = [demo_edge]"
    using demo_linked_graph by blast
  then have "demo_edge \<in> set (ig_edges_of g)" by simp
  from edges_lead_right [OF g(1) this] g show ?thesis by (auto simp: demo_edge_def)
qed

theorem cards_never_overlap_witness:
  "\<exists>g. interactionGraph demo_linked (JNum 1) demo_plain_options = Some g
     \<and> list_all (\<lambda>p. pn_x p + 212 \<le> ig_width g \<and> pn_y p + pn_height p + 20 \<le> ig_height g) (ig_nodes_of g)"
proof -
  obtain g where g: "interactionGraph demo_linked (JNum 1) demo_plain_options = Some g"
    using demo_linked_graph by blast
  from cards_never_overlap [OF g] g show ?thesis by blast
qed

end
