(* ===== verification/InteractionGraphRuns.thy ===== *)
theory InteractionGraphRuns
  imports InteractionGraph
begin

text \<open>
  What the interaction graph of \<open>InteractionGraph\<close> shows of a thread's runs
  (\<open>desktop/renderer/src/product-workspace/interaction-graph.js\<close>): the chains are the runs of a node in
  order, Resume is offered to one run of a restarted chain, the decks hold what the chains fold, and every
  turn is in exactly one place, a card, a deck or a closed chip.
\<close>

section \<open>Chains\<close>

definition chain_runs :: "interaction list \<Rightarrow> invocation list \<Rightarrow> interaction list" where
  "chain_runs turns ivs =
     filter (in_chain (agentChildParents ivs) (preparationsAwaitingRetry ivs)) (js_sort bySequence turns)"

lemma set_chain_runs:
  "t \<in> set (chain_runs turns ivs) \<longleftrightarrow>
     t \<in> set turns \<and> in_chain (agentChildParents ivs) (preparationsAwaitingRetry ivs) t"
  by (auto simp: chain_runs_def)

lemma distinct_chain_runs: "distinct (map turn_key turns) \<Longrightarrow> distinct (map turn_key (chain_runs turns ivs))"
  by (simp add: chain_runs_def distinct_map_filter)

definition chain_of :: "string \<Rightarrow> interaction list \<Rightarrow> interaction list" where
  "chain_of k ts = filter (\<lambda>t. chainKey t = k) ts"

lemma chain_push_get:
  "map_get (chain_push m t) k =
     (if k = chainKey t then Some ((case map_get m k of None \<Rightarrow> [] | Some ts \<Rightarrow> ts) @ [t]) else map_get m k)"
  by (simp add: chain_push_def)

lemma chains_get:
  "map_get (foldl chain_push [] ts) k = (if chain_of k ts = [] then None else Some (chain_of k ts))"
  by (induction ts rule: rev_induct) (auto simp: chain_of_def chain_push_get)

lemma chains_ok: "map_ok (foldl chain_push [] ts)"
  by (induction ts rule: rev_induct) (auto simp: chain_push_def)

lemma nodeRunChains_get:
  "map_get (nodeRunChains turns ivs) k =
     (let ts = chain_of k (chain_runs turns ivs) in if ts = [] then None else Some ts)"
  by (simp add: nodeRunChains_def chain_runs_def chains_get Let_def)

lemma map_values_iff: "map_ok m \<Longrightarrow> v \<in> set (map_values m) \<longleftrightarrow> (\<exists>k. map_get m k = Some v)"
  by (auto simp: map_values_def map_get_iff_in intro: image_eqI [of _ snd "(_, v)"])

lemma nodeRunChains_values:
  "c \<in> set (map_values (nodeRunChains turns ivs)) \<longleftrightarrow>
     (\<exists>k. c = chain_of k (chain_runs turns ivs) \<and> c \<noteq> [])"
proof -
  have "map_ok (nodeRunChains turns ivs)" by (simp add: nodeRunChains_def chains_ok)
  from map_values_iff [OF this] show ?thesis by (auto simp: nodeRunChains_get Let_def split: if_splits)
qed

section \<open>Controls\<close>

definition resumes :: "run_control list \<Rightarrow> bool" where
  "resumes cs \<longleftrightarrow> ResumeRun \<in> rc_action ` set cs"

lemma runControls_resumes:
  "resumes (runControls t c) \<longleftrightarrow>
     cc_controllable c \<and> \<not> map_has (cc_children c) (turn_key t) \<and> turn_key t \<notin> set (cc_awaitingRetry c)
     \<and> runNeedsAttention t (cc_chains c)"
  by (auto simp: resumes_def runControls_def Let_def runNeedsAttention_def resumable_run_def RESUMABLE_STATUSES_def
      RUNNING_STATUSES_def resume_control_def discard_control_def)

lemma resumable_chain: "resumable_run t \<Longrightarrow> it_status t \<in> CHAIN_STATUSES"
  by (simp add: resumable_run_def CHAIN_STATUSES_def)

lemma restartChain_member:
  assumes "t \<in> set turns" "in_chain (agentChildParents ivs) (preparationsAwaitingRetry ivs) t"
  shows "restartChain t (nodeRunChains turns ivs) =
    filter resumable_run (chain_of (chainKey t) (chain_runs turns ivs))"
proof -
  have "t \<in> set (chain_of (chainKey t) (chain_runs turns ivs))"
    using assms by (simp add: chain_of_def set_chain_runs)
  then have "chain_of (chainKey t) (chain_runs turns ivs) \<noteq> []" by auto
  with assms show ?thesis by (simp add: restartChain_def nodeRunChains_get in_chain_def)
qed

lemma resumes_in_chain:
  assumes "t \<in> set turns" "resumes (runControls t (control_context_of turns opts))" "\<not> is_nullish (it_runNodeId t)"
  shows "in_chain (agentChildParents (go_invocations opts)) (preparationsAwaitingRetry (go_invocations opts)) t"
    and "heads_chain t (filter resumable_run (chain_of (chainKey t) (chain_runs turns (go_invocations opts))))"
proof -
  from assms show *: "in_chain (agentChildParents (go_invocations opts)) (preparationsAwaitingRetry (go_invocations opts)) t"
    by (auto simp: runControls_resumes in_chain_def control_context_of_def runNeedsAttention_def resumable_chain)
  from assms(2) restartChain_member [OF assms(1) *]
  show "heads_chain t (filter resumable_run (chain_of (chainKey t) (chain_runs turns (go_invocations opts))))"
    by (simp add: runControls_resumes control_context_of_def runNeedsAttention_def)
qed

text \<open>The head of the restarted runs of a node, among the turns: the first resumable one in sequence order.\<close>

definition restart_head :: "interaction list \<Rightarrow> invocation list \<Rightarrow> string \<Rightarrow> interaction option" where
  "restart_head turns ivs k = find resumable_run (chain_of k (chain_runs turns ivs))"

lemma find_filter_hd: "find P xs = (case filter P xs of [] \<Rightarrow> None | x # _ \<Rightarrow> Some x)"
  by (induction xs) auto

lemma restart_head_member:
  assumes "restart_head turns ivs k = Some t"
  shows "t \<in> set turns \<and> in_chain (agentChildParents ivs) (preparationsAwaitingRetry ivs) t
    \<and> resumable_run t \<and> chainKey t = k"
  using find_SomeD [OF assms [unfolded restart_head_def]] by (auto simp: chain_of_def set_chain_runs)

text \<open>C10. Of the runs of a node, Resume is offered to exactly one: the run that comes first, in creation order,
  among those of its queue that a restart paused or interrupted. So every restarted queue can be resumed, and
  from one card only.\<close>

theorem one_resume_per_node:
  assumes d: "distinct (map turn_key turns)" and t: "t \<in> set turns" "\<not> is_nullish (it_runNodeId t)"
    and c: "go_controllable opts"
  shows "resumes (runControls t (control_context_of turns opts))
    \<longleftrightarrow> restart_head turns (go_invocations opts) (chainKey t) = Some t"
proof
  let ?ivs = "go_invocations opts"
  let ?rs = "filter resumable_run (chain_of (chainKey t) (chain_runs turns ?ivs))"
  {
    assume r: "resumes (runControls t (control_context_of turns opts))"
    have "t \<in> set ?rs"
      using resumes_in_chain(1) [OF t(1) r t(2)] t(1) r
      by (simp add: chain_of_def set_chain_runs runControls_resumes runNeedsAttention_def)
    then obtain h rs where h: "?rs = h # rs" by (cases ?rs) auto
    with resumes_in_chain(2) [OF t(1) r t(2)] have k: "turn_key h = turn_key t"
      by (simp add: heads_chain_def eqId_def turn_key_def)
    have "h \<in> set ?rs" by (simp add: h)
    then have "h \<in> set turns" by (simp add: chain_of_def set_chain_runs)
    with d t(1) k have "h = t" by (auto simp: distinct_map inj_on_def)
    with h show "restart_head turns ?ivs (chainKey t) = Some t" by (simp add: restart_head_def find_filter_hd)
  next
    assume h: "restart_head turns ?ivs (chainKey t) = Some t"
    note m = restart_head_member [OF h]
    from h have "heads_chain t ?rs"
      by (auto simp: restart_head_def find_filter_hd heads_chain_def split: list.splits)
    with m restartChain_member [of t turns ?ivs] c show "resumes (runControls t (control_context_of turns opts))"
      by (simp add: runControls_resumes control_context_of_def runNeedsAttention_def in_chain_def)
  }
qed

section \<open>Decks\<close>

definition in_deck :: "decks \<Rightarrow> string \<Rightarrow> interaction \<Rightarrow> bool" where
  "in_deck m h t \<longleftrightarrow> (\<exists>ts. map_get m h = Some ts \<and> t \<in> set ts)"

lemma in_deck_fold_behind:
  "in_deck (fold_behind heads behind m) h t \<longleftrightarrow>
     in_deck m h t \<or> (heads \<noteq> [] \<and> turn_key (hd heads) = h \<and> t \<in> set behind)"
proof (cases heads)
  case (Cons a list)
  show ?thesis
  proof (cases "map_get m (turn_key a)")
    case (Some ts)
    with Cons show ?thesis by (auto simp: in_deck_def fold_behind_def)
  qed (auto simp: Cons in_deck_def fold_behind_def)
qed (simp add: fold_behind_def)

text \<open>\<open>folds chain h t\<close>: the chain folds \<open>t\<close> into the card of the run with id \<open>h\<close>.\<close>

definition folds :: "interaction list \<Rightarrow> string \<Rightarrow> interaction \<Rightarrow> bool" where
  "folds chain h t \<longleftrightarrow>
     (let restart = filter resumable_run chain; live = filter live_run chain in
      (restart \<noteq> [] \<and> turn_key (hd restart) = h \<and> t \<in> set (tl restart))
      \<or> (live \<noteq> [] \<and> turn_key (hd live) = h \<and> it_status t = Queued \<and> t \<in> set (tl live)))"

lemma in_deck_fold_chain: "in_deck (fold_chain m chain) h t \<longleftrightarrow> in_deck m h t \<or> folds chain h t"
  by (auto simp: fold_chain_def Let_def in_deck_fold_behind folds_def drop_Suc)

lemma in_deck_fold: "in_deck (foldl fold_chain m cs) h t \<longleftrightarrow> in_deck m h t \<or> (\<exists>c \<in> set cs. folds c h t)"
  by (induction cs arbitrary: m) (auto simp: in_deck_fold_chain)

lemma folded_runs_ok: "map_ok (folded_runs cs)"
proof -
  have "map_ok m \<Longrightarrow> map_ok (fold_behind heads behind m)" for m heads behind
    by (cases heads) (auto simp: fold_behind_def)
  then have "map_ok m \<Longrightarrow> map_ok (foldl fold_chain m xs)" for m xs
    by (induction xs arbitrary: m) (simp_all add: fold_chain_def Let_def)
  then show ?thesis by (simp add: folded_runs_def)
qed

lemma folded_runs_iff:
  "in_deck (folded_runs (nodeRunChains turns ivs)) h t \<longleftrightarrow> (\<exists>k. folds (chain_of k (chain_runs turns ivs)) h t)"
proof -
  have "\<not> folds [] h t" by (simp add: folds_def)
  moreover have "\<not> in_deck [] h t" by (simp add: in_deck_def)
  ultimately show ?thesis
    unfolding folded_runs_def in_deck_fold using nodeRunChains_values [of _ turns ivs] by metis
qed

lemma folded_ids_iff: "map_ok m \<Longrightarrow> i \<in> set (folded_ids m) \<longleftrightarrow> (\<exists>h t. in_deck m h t \<and> turn_key t = i)"
proof -
  assume m: "map_ok m"
  have "i \<in> set (folded_ids m) \<longleftrightarrow> (\<exists>ts. ts \<in> set (map_values m) \<and> (\<exists>t \<in> set ts. turn_key t = i))"
    by (auto simp: folded_ids_def)
  then show ?thesis unfolding map_values_iff [OF m] in_deck_def by blast
qed

lemma folds_parts:
  assumes "folds chain h t"
  obtains u where "u \<in> set chain" "turn_key u = h" "t \<in> set chain"
    "resumable_run u = resumable_run t" "u = hd (filter (\<lambda>x. resumable_run x = resumable_run u) chain)"
    "t \<in> set (tl (filter (\<lambda>x. resumable_run x = resumable_run t) chain))"
proof -
  note result = that
  let ?f = "\<lambda>b. filter (\<lambda>x. resumable_run x = b) chain"
  have *: "thesis" if b: "?f b \<noteq> []" "turn_key (hd (?f b)) = h" "t \<in> set (tl (?f b))" for b
  proof -
    from b(1) have u: "hd (?f b) \<in> set (?f b)" by (rule hd_in_set)
    from b(1,3) have "t \<in> set (?f b)" by (metis list.set_sel(2))
    then have t: "t \<in> set chain" "resumable_run t = b" by simp_all
    from u have "hd (?f b) \<in> set chain" "resumable_run (hd (?f b)) = b" by simp_all
    with result [of "hd (?f b)"] t b(2,3) show thesis by simp
  qed
  have "?f True = filter resumable_run chain" by simp
  moreover have "?f False = filter live_run chain" by (simp add: live_run_def [abs_def])
  ultimately show thesis
    using assms * [of True] * [of False] by (auto simp: folds_def Let_def)
qed

text \<open>With distinct ids, the card that carries a deck is never itself folded.\<close>

lemma deck_head_not_folded:
  assumes d: "distinct (map turn_key turns)"
    and f: "folds (chain_of k (chain_runs turns ivs)) h t"
  shows "\<not> (\<exists>k' h' t'. folds (chain_of k' (chain_runs turns ivs)) h' t' \<and> turn_key t' = h)"
proof
  let ?c = "\<lambda>k. chain_of k (chain_runs turns ivs)"
  assume "\<exists>k' h' t'. folds (?c k') h' t' \<and> turn_key t' = h"
  then obtain k' h' t' where f': "folds (?c k') h' t'" "turn_key t' = h" by blast
  obtain u where u: "u \<in> set (?c k)" "turn_key u = h"
    "u = hd (filter (\<lambda>x. resumable_run x = resumable_run u) (?c k))" by (rule folds_parts [OF f]) blast
  have t': "t' \<in> set (?c k')"
    "t' \<in> set (tl (filter (\<lambda>x. resumable_run x = resumable_run t') (?c k')))"
    by (rule folds_parts [OF f'(1)], blast)+
  have "u \<in> set turns" "t' \<in> set turns" using u(1) t'(1) by (auto simp: chain_of_def set_chain_runs)
  then have eq: "t' = u" using d u(2) f'(2) unfolding distinct_map inj_on_def by metis
  have "k' = k" using u(1) t'(1) eq by (simp add: chain_of_def)
  with t'(2) eq have tl: "u \<in> set (tl (filter (\<lambda>x. resumable_run x = resumable_run u) (?c k)))" by simp
  have "distinct (filter (\<lambda>x. resumable_run x = resumable_run u) (?c k))"
    using distinct_chain_runs [OF d, of ivs] by (simp add: chain_of_def distinct_map)
  with u(3) tl show False
    by (cases "filter (\<lambda>x. resumable_run x = resumable_run u) (?c k)") auto
qed

section \<open>Chips\<close>

definition in_chip :: "(string, chip) jsmap \<Rightarrow> string \<Rightarrow> interaction \<Rightarrow> bool" where
  "in_chip m k t \<longleftrightarrow> (\<exists>c. map_get m k = Some c \<and> t \<in> set (ch_children c))"

definition chips_keyed :: "(string, chip) jsmap \<Rightarrow> bool" where
  "chips_keyed m \<longleftrightarrow> map_ok m \<and> (\<forall>k c. map_get m k = Some c \<longrightarrow> ch_id c = k)"

definition collapses :: "(string, interaction) jsmap \<Rightarrow> string \<times> string \<Rightarrow> string \<Rightarrow> interaction \<Rightarrow> bool" where
  "collapses locals entry k t \<longleftrightarrow>
     map_get locals (fst entry) = Some t \<and> map_has locals (snd entry)
     \<and> chip_key (childAttempt t (map_get locals (snd entry))) (snd entry) = k"

lemma add_child_in_chip:
  "in_chip (add_child locals m entry) k t \<longleftrightarrow> in_chip m k t \<or> collapses locals entry k t"
  by (cases entry) (auto simp: add_child_def in_chip_def collapses_def Let_def split: option.splits)

lemma add_child_keyed: "chips_keyed m \<Longrightarrow> chips_keyed (add_child locals m entry)"
  by (cases entry) (auto simp: add_child_def chips_keyed_def Let_def split: option.splits)

lemma agent_chips_in: "in_chip (agent_chips locals children) k t \<longleftrightarrow> (\<exists>e \<in> set children. collapses locals e k t)"
proof -
  have "in_chip (foldl (add_child locals) m children) k t
      \<longleftrightarrow> in_chip m k t \<or> (\<exists>e \<in> set children. collapses locals e k t)" for m
    by (induction children arbitrary: m) (auto simp: add_child_in_chip)
  then show ?thesis by (simp add: agent_chips_def in_chip_def)
qed

lemma agent_chips_keyed: "chips_keyed (agent_chips locals children)"
proof -
  have "chips_keyed m \<Longrightarrow> chips_keyed (foldl (add_child locals) m children)" for m
    by (induction children arbitrary: m) (simp_all add: add_child_keyed)
  moreover have "chips_keyed []" by (simp add: chips_keyed_def)
  ultimately show ?thesis unfolding agent_chips_def by blast
qed

lemma shown_children_iff:
  "i \<in> set (shown_children (agent_chips locals children) expanded) \<longleftrightarrow>
     (\<exists>e \<in> set children. \<exists>k t. k \<in> set expanded \<and> collapses locals e k t \<and> turn_key t = i)"
proof -
  let ?m = "agent_chips locals children"
  have ok: "map_ok ?m" and keyed: "\<And>k c. map_get ?m k = Some c \<Longrightarrow> ch_id c = k"
    using agent_chips_keyed [of locals children] by (auto simp: chips_keyed_def)
  have "i \<in> set (shown_children ?m expanded) \<longleftrightarrow>
      (\<exists>c. (\<exists>k. map_get ?m k = Some c) \<and> ch_id c \<in> set expanded \<and> (\<exists>t \<in> set (ch_children c). turn_key t = i))"
    unfolding map_values_iff [OF ok, symmetric] by (auto simp: shown_children_def)
  also have "\<dots> \<longleftrightarrow> (\<exists>k t. k \<in> set expanded \<and> in_chip ?m k t \<and> turn_key t = i)"
    unfolding in_chip_def by (auto dest: keyed)
  finally show ?thesis unfolding agent_chips_in by blast
qed

lemma local_turns_get:
  assumes "distinct (map turn_key turns)"
  shows "map_get (local_turns turns) i = Some t \<longleftrightarrow> t \<in> set turns \<and> turn_key t = i"
proof
  assume "map_get (local_turns turns) i = Some t"
  then show "t \<in> set turns \<and> turn_key t = i"
    unfolding local_turns_def by (auto dest: map_get_from_in)
next
  assume t: "t \<in> set turns \<and> turn_key t = i"
  then have "map_has (local_turns turns) i"
    by (auto simp: local_turns_def map_has_from image_iff)
  then obtain u where u: "map_get (local_turns turns) i = Some u" by (auto simp: map_has_iff)
  then have "u \<in> set turns \<and> turn_key u = i" unfolding local_turns_def by (auto dest: map_get_from_in)
  with t assms have "u = t" unfolding distinct_map inj_on_def by metis
  with u show "map_get (local_turns turns) i = Some t" by simp
qed

text \<open>A turn is behind a closed chip: it is an agent's child of another turn of the thread, its chip is not
  expanded, and it is not the selected turn.\<close>

definition behind_closed_chip :: "interaction list \<Rightarrow> jsval \<Rightarrow> graph_options \<Rightarrow> interaction \<Rightarrow> bool" where
  "behind_closed_chip turns sel opts t \<longleftrightarrow>
     (\<exists>p parent. map_get (agentChildParents (go_invocations opts)) (turn_key t) = Some p
        \<and> map_get (local_turns turns) p = Some parent
        \<and> chip_key (childAttempt t (Some parent)) p \<notin> set (go_expanded opts))
     \<and> turn_key t \<noteq> js_String sel"

lemma hidden_child_closed:
  fixes opts :: graph_options
  assumes d: "distinct (map turn_key turns)" and t: "t \<in> set turns"
  defines "children \<equiv> agentChildParents (go_invocations opts)" and "locals \<equiv> local_turns turns"
  shows "hidden_child children locals (shown_children (agent_chips locals children) (go_expanded opts)) (turn_key t)
      \<and> turn_key t \<noteq> js_String sel \<longleftrightarrow> behind_closed_chip turns sel opts t"
proof -
  have self: "map_get locals (turn_key t) = Some t" using local_turns_get [OF d] t by (simp add: locals_def)
  have ok: "map_ok children" by (simp add: children_def agentChildParents_def)
  have shown: "turn_key t \<in> set (shown_children (agent_chips locals children) (go_expanded opts)) \<longleftrightarrow>
      chip_key (childAttempt t (map_get locals p)) p \<in> set (go_expanded opts)"
    if p: "map_get children (turn_key t) = Some p" "map_has locals p" for p
  proof -
    have "collapses locals e k u \<and> turn_key u = turn_key t \<longleftrightarrow>
        u = t \<and> e = (turn_key t, p) \<and> chip_key (childAttempt t (map_get locals p)) p = k"
      if e: "e \<in> set children" for e k u
    proof -
      have "u = t \<and> e = (turn_key t, p)" if c: "collapses locals e k u" "turn_key u = turn_key t"
      proof -
        from c(1) have u: "u \<in> set turns" "turn_key u = fst e"
          using local_turns_get [OF d] by (auto simp: collapses_def locals_def)
        with c(2) d t have "u = t" unfolding distinct_map inj_on_def by metis
        moreover have "map_get children (turn_key t) = Some (snd e)"
          using e c(2) u(2) by (metis map_get_iff_in [OF ok] prod.collapse)
        ultimately show ?thesis using p(1) u(2) by (cases e) auto
      qed
      with p(2) self show ?thesis by (auto simp: collapses_def)
    qed
    moreover have "(turn_key t, p) \<in> set children" using p(1) by (simp add: map_get_iff_in [OF ok])
    ultimately show ?thesis unfolding shown_children_iff by metis
  qed
  show ?thesis
  proof (cases "map_get children (turn_key t)")
    case (Some p)
    with shown [OF Some] show ?thesis
      by (auto simp: hidden_child_def behind_closed_chip_def children_def [symmetric] locals_def [symmetric] map_has_iff)
  qed (auto simp: hidden_child_def behind_closed_chip_def children_def)
qed

section \<open>Every turn is in one place\<close>

lemma turn_nodes_get:
  assumes "distinct (map turn_key turns)" "t \<in> set turns"
  shows "map_get (turn_nodes hidden turns) (turn_key t) = (if hidden t then None else Some (TurnNode (turn_key t) t))"
  using assms
proof (induction turns rule: rev_induct)
  case (snoc u us)
  let ?m = "turn_nodes hidden us"
  have step: "turn_nodes hidden (us @ [u]) = (if hidden u then ?m else map_set ?m (turn_key u) (TurnNode (turn_key u) u))"
    by (simp add: turn_nodes_def)
  show ?case
  proof (cases "t = u")
    case True
    have "map_get (turn_nodes hidden us) i = None" if "i \<notin> turn_key ` set us" for i us
      using that by (induction us rule: rev_induct) (auto simp: turn_nodes_def)
    with snoc.prems(1) True have "map_get ?m (turn_key u) = None" by simp
    with True show ?thesis by (simp add: step)
  next
    case False
    with snoc.prems have t: "t \<in> set us" by simp
    then have "turn_key t \<in> turn_key ` set us" by simp
    with snoc.prems(1) have "turn_key t \<noteq> turn_key u" by auto
    with t snoc step show ?thesis by simp
  qed
qed simp

lemma add_source_local:
  "map_has locals i \<Longrightarrow> map_get (fst (add_source locals target st s)) i = map_get (fst st) i"
  by (cases st) (auto simp: add_source_def Let_def)

lemma add_turn_sources_local:
  "map_has locals i \<Longrightarrow> map_get (fst (foldl (add_turn_sources locals) st turns)) i = map_get (fst st) i"
proof (induction turns arbitrary: st)
  case (Cons t ts)
  have "map_get (fst (foldl (add_source locals tgt) st' ss)) i = map_get (fst st') i" for tgt ss st'
    using Cons.prems by (induction ss arbitrary: st') (simp_all add: add_source_local)
  then have "map_get (fst (add_turn_sources locals st t)) i = map_get (fst st) i"
    by (simp add: add_turn_sources_def)
  with Cons show ?case by simp
qed simp

lemma add_chips_other:
  "i \<notin> ch_id ` set cs \<Longrightarrow> map_get (fst (foldl (add_chip expanded) st cs)) i = map_get (fst st) i"
proof (induction cs arbitrary: st)
  case (Cons c cs)
  then have "map_get (fst (add_chip expanded st c)) i = map_get (fst st) i"
    by (cases st) (auto simp: add_chip_def Let_def)
  with Cons show ?case by simp
qed simp

lemma chip_key_colon: "CHR '':'' \<in> set (chip_key a p)"
  by (simp add: chip_key_def)

definition colon_ids :: "(string, chip) jsmap \<Rightarrow> bool" where
  "colon_ids m \<longleftrightarrow> (\<forall>k c. map_get m k = Some c \<longrightarrow> CHR '':'' \<in> set (ch_id c))"

lemma add_child_colon: "colon_ids m \<Longrightarrow> colon_ids (add_child locals m e)"
  by (cases e) (auto simp: colon_ids_def add_child_def Let_def chip_key_colon split: option.splits)

lemma chip_ids_colon:
  assumes "c \<in> set (map_values (agent_chips locals children))"
  shows "CHR '':'' \<in> set (ch_id c)"
proof -
  have "colon_ids m \<Longrightarrow> colon_ids (foldl (add_child locals) m children)" for m
    by (induction children arbitrary: m) (simp_all add: add_child_colon)
  moreover have "colon_ids []" by (simp add: colon_ids_def)
  ultimately have "colon_ids (agent_chips locals children)" unfolding agent_chips_def by blast
  moreover have "map_ok (agent_chips locals children)" using agent_chips_keyed by (simp add: chips_keyed_def)
  ultimately show ?thesis using assms by (auto simp: map_values_iff colon_ids_def)
qed

text \<open>The node that stands for a turn in the finished graph, if any.\<close>

lemma graph_parts_turn:
  fixes opts :: graph_options
  assumes d: "distinct (map turn_key turns)" and c: "list_all (\<lambda>t. CHR '':'' \<notin> set (turn_key t)) turns"
    and t: "t \<in> set turns"
  defines "ivs \<equiv> go_invocations opts"
  shows "map_get (fst (graph_parts turns sel ivs (go_expanded opts))) (turn_key t) =
    (if (\<exists>h. in_deck (folded_runs (nodeRunChains turns ivs)) h t) \<or> behind_closed_chip turns sel opts t
     then None else Some (TurnNode (turn_key t) t))"
proof -
  let ?locals = "local_turns turns" and ?folded = "folded_runs (nodeRunChains turns ivs)"
  let ?children = "agentChildParents ivs"
  let ?shown = "shown_children (agent_chips ?locals ?children) (go_expanded opts)"
  have local: "map_has ?locals (turn_key t)" using local_turns_get [OF d] t by (auto simp: map_has_iff)
  have nochip: "turn_key t \<notin> ch_id ` set (map_values (agent_chips ?locals ?children))"
    using c t chip_ids_colon by (auto simp: list_all_iff)
  have "(turn_key t \<in> set (folded_ids ?folded)) = (\<exists>h. in_deck ?folded h t)"
  proof -
    have "u = t" if u: "in_deck ?folded h u" "turn_key u = turn_key t" for h u
    proof -
      from u(1) obtain k where "folds (chain_of k (chain_runs turns ivs)) h u"
        by (auto simp: folded_runs_iff)
      then have "u \<in> set (chain_of k (chain_runs turns ivs))" by (rule folds_parts)
      then have "u \<in> set turns" by (simp add: chain_of_def set_chain_runs)
      with u(2) d t show ?thesis unfolding distinct_map inj_on_def by metis
    qed
    then show ?thesis unfolding folded_ids_iff [OF folded_runs_ok] by metis
  qed
  moreover have "(hidden_child ?children ?locals ?shown (turn_key t) \<and> turn_key t \<noteq> js_String sel)
      = behind_closed_chip turns sel opts t"
    unfolding ivs_def by (rule hidden_child_closed [OF d t])
  ultimately have "turn_hidden ?children ?locals ?shown (folded_ids ?folded) sel t
      \<longleftrightarrow> (\<exists>h. in_deck ?folded h t) \<or> behind_closed_chip turns sel opts t"
    unfolding turn_hidden_def by simp
  then show ?thesis
    unfolding graph_parts_def Let_def
    by (simp add: add_chips_other [OF nochip] add_turn_sources_local [OF local] turn_nodes_get [OF d t])
qed

definition shown_as_card :: "interaction_graph \<Rightarrow> interaction \<Rightarrow> bool" where
  "shown_as_card g t \<longleftrightarrow> (\<exists>p \<in> set (ig_nodes_of g). pn_node p = TurnNode (turn_key t) t)"

definition in_a_deck :: "interaction_graph \<Rightarrow> interaction \<Rightarrow> bool" where
  "in_a_deck g t \<longleftrightarrow> (\<exists>p \<in> set (ig_nodes_of g). t \<in> dr_run ` set (pn_deck p))"

lemma shown_as_card_iff:
  assumes "interactionGraph turns sel opts = Some g"
  shows "shown_as_card g t \<longleftrightarrow>
    map_get (fst (graph_parts turns sel (go_invocations opts) (go_expanded opts))) (turn_key t) = Some (TurnNode (turn_key t) t)"
proof -
  let ?parts = "graph_parts turns sel (go_invocations opts) (go_expanded opts)"
  have ok: "map_ok (fst ?parts)" "\<And>k nd. map_get (fst ?parts) k = Some nd \<Longrightarrow> node_id nd = k"
    using graph_parts_ok [of turns sel "go_invocations opts" "go_expanded opts"] by (auto simp: parts_ok_def)
  have "shown_as_card g t \<longleftrightarrow> TurnNode (turn_key t) t \<in> set (map pn_node (ig_nodes_of g))"
    unfolding shown_as_card_def by (auto simp: image_iff) metis
  also have "\<dots> \<longleftrightarrow> TurnNode (turn_key t) t \<in> set (map_values (fst ?parts))"
    by (simp only: interactionGraph_parts(1) [OF assms] place_nodes_nodes)
  also have "\<dots> \<longleftrightarrow> map_get (fst ?parts) (turn_key t) = Some (TurnNode (turn_key t) t)"
    unfolding map_values_iff [OF ok(1)] using ok(2) node_id.simps(1) by metis
  finally show ?thesis .
qed

lemma place_node_deck [simp]: "dr_run ` set (pn_deck (place_node pc y nd)) = set (node_deck (pc_folded pc) nd)"
  by (simp add: place_node_def Let_def image_image)

lemma node_deck_in: "t \<in> set (node_deck m nd) \<Longrightarrow> \<exists>h. in_deck m h t"
  by (cases nd; cases "map_get m (node_id nd)") (auto simp: node_deck_def in_deck_def)

lemma in_a_deck_iff:
  assumes g: "interactionGraph turns sel opts = Some g"
    and d: "distinct (map turn_key turns)" and c: "list_all (\<lambda>t. CHR '':'' \<notin> set (turn_key t)) turns"
  shows "in_a_deck g t \<longleftrightarrow> (\<exists>h. in_deck (folded_runs (nodeRunChains turns (go_invocations opts))) h t)"
proof
  let ?ivs = "go_invocations opts"
  let ?folded = "folded_runs (nodeRunChains turns ?ivs)"
  let ?parts = "graph_parts turns sel ?ivs (go_expanded opts)"
  have pc: "pc_folded (place_context_of turns opts ?parts) = ?folded" by (simp add: place_context_of_def)
  {
    assume "in_a_deck g t"
    then obtain p where p: "p \<in> set (ig_nodes_of g)" "t \<in> dr_run ` set (pn_deck p)" by (auto simp: in_a_deck_def)
    from place_nodes_in [OF p(1) [unfolded interactionGraph_parts(1) [OF g]]]
    obtain y where "p = place_node (place_context_of turns opts ?parts) y (pn_node p)" by blast
    with p(2) pc have "t \<in> set (node_deck ?folded (pn_node p))" by (metis place_node_deck)
    then show "\<exists>h. in_deck ?folded h t" by (rule node_deck_in)
  next
    assume "\<exists>h. in_deck ?folded h t"
    then obtain h where h: "in_deck ?folded h t" by blast
    then obtain k where k: "folds (chain_of k (chain_runs turns ?ivs)) h t" by (auto simp: folded_runs_iff)
    obtain u where u: "u \<in> set (chain_of k (chain_runs turns ?ivs))" "turn_key u = h"
      by (rule folds_parts [OF k]) blast
    then have t: "u \<in> set turns" and "in_chain (agentChildParents ?ivs) (preparationsAwaitingRetry ?ivs) u"
      by (simp_all add: chain_of_def set_chain_runs)
    then have "\<not> behind_closed_chip turns sel opts u"
      by (auto simp: behind_closed_chip_def in_chain_def map_has_iff)
    moreover have "\<not> (\<exists>h'. in_deck ?folded h' u)"
      using deck_head_not_folded [OF d k] u(2) by (auto simp: folded_runs_iff)
    ultimately have "map_get (fst ?parts) h = Some (TurnNode h u)"
      using graph_parts_turn [OF d c t, of sel opts] u(2) by simp
    then have "shown_as_card g u" using shown_as_card_iff [OF g] u(2) by simp
    then obtain p where p: "p \<in> set (ig_nodes_of g)" "pn_node p = TurnNode h u" using u(2) by (auto simp: shown_as_card_def)
    from place_nodes_in [OF p(1) [unfolded interactionGraph_parts(1) [OF g]]]
    obtain y where "p = place_node (place_context_of turns opts ?parts) y (TurnNode h u)" using p(2) by auto
    then have "dr_run ` set (pn_deck p) = set (node_deck ?folded (TurnNode h u))" using pc by simp
    moreover have "t \<in> set (node_deck ?folded (TurnNode h u))" using h by (auto simp: in_deck_def node_deck_def)
    ultimately show "in_a_deck g t" unfolding in_a_deck_def using p(1) by blast
  }
qed

text \<open>In a graph the popover shows, every turn of the thread is in exactly one place: it has a card of its
  own, or it is folded into the deck of a card, or it is an agent's child behind a chip that is closed. So no
  run is lost and none is shown twice. The ids of the turns are distinct and contain no colon, which chip ids
  do.\<close>

theorem turn_in_one_place:
  assumes "interactionGraph turns sel opts = Some g"
    and "distinct (map turn_key turns)" and "list_all (\<lambda>t. CHR '':'' \<notin> set (turn_key t)) turns"
    and "t \<in> set turns"
  shows "(shown_as_card g t \<or> in_a_deck g t \<or> behind_closed_chip turns sel opts t)
    \<and> \<not> (shown_as_card g t \<and> in_a_deck g t)
    \<and> \<not> (shown_as_card g t \<and> behind_closed_chip turns sel opts t)
    \<and> \<not> (in_a_deck g t \<and> behind_closed_chip turns sel opts t)"
proof -
  let ?ivs = "go_invocations opts"
  let ?deck = "\<exists>h. in_deck (folded_runs (nodeRunChains turns ?ivs)) h t"
  have card: "shown_as_card g t \<longleftrightarrow> \<not> (?deck \<or> behind_closed_chip turns sel opts t)"
    using shown_as_card_iff [OF assms(1)] graph_parts_turn [OF assms(2-4), of sel opts] by simp
  have deck: "in_a_deck g t \<longleftrightarrow> ?deck" by (rule in_a_deck_iff [OF assms(1-3)])
  have "\<not> behind_closed_chip turns sel opts t" if "?deck"
  proof -
    from that obtain k h where "folds (chain_of k (chain_runs turns ?ivs)) h t" by (auto simp: folded_runs_iff)
    then have "t \<in> set (chain_of k (chain_runs turns ?ivs))" by (rule folds_parts)
    then show ?thesis by (auto simp: chain_of_def set_chain_runs in_chain_def behind_closed_chip_def map_has_iff)
  qed
  with card deck show ?thesis by blast
qed

text \<open>A thread whose node 7 has a running run, a queued one behind it and two runs a restart left.\<close>

definition demo_run :: "int \<Rightarrow> status \<Rightarrow> interaction" where
  "demo_run i s = (bare_interaction (JNum i))\<lparr>it_threadId := JNum 1, it_sequence := JNum i, it_status := s,
     it_runNodeId := JNum 7\<rparr>"

definition demo_runs :: "interaction list" where
  "demo_runs = [demo_run 1 Running, demo_run 2 Queued, demo_run 3 Paused, demo_run 4 Paused]"

definition demo_graph_options :: graph_options where
  "demo_graph_options = \<lparr>go_invocations = [], go_expanded = [], go_nodeLabels = [], go_controllable = True\<rparr>"

lemma demo_runs_keys:
  "map turn_key demo_runs = [''1'', ''2'', ''3'', ''4'']"
  by code_simp

lemma demo_graph: "\<exists>g. interactionGraph demo_runs (JNum 1) demo_graph_options = Some g"
  by (simp add: interactionGraph_def graph_shown_def Let_def demo_runs_def demo_run_def resumable_run_def
      RESUMABLE_STATUSES_def)

lemma demo_runs_ok:
  "distinct (map turn_key demo_runs)" "list_all (\<lambda>t. CHR '':'' \<notin> set (turn_key t)) demo_runs"
proof -
  show "distinct (map turn_key demo_runs)" by (simp add: demo_runs_keys)
  have "list_all (\<lambda>i. CHR '':'' \<notin> set i) (map turn_key demo_runs)" by (simp add: demo_runs_keys)
  then show "list_all (\<lambda>t. CHR '':'' \<notin> set (turn_key t)) demo_runs" by (simp add: list.pred_map comp_def)
qed

theorem turn_in_one_place_witness:
  "\<exists>g. interactionGraph demo_runs (JNum 1) demo_graph_options = Some g
     \<and> (shown_as_card g (demo_run 2 Queued) \<or> in_a_deck g (demo_run 2 Queued)
        \<or> behind_closed_chip demo_runs (JNum 1) demo_graph_options (demo_run 2 Queued))"
proof -
  obtain g where g: "interactionGraph demo_runs (JNum 1) demo_graph_options = Some g" using demo_graph by blast
  have "demo_run 2 Queued \<in> set demo_runs" by (simp add: demo_runs_def)
  from turn_in_one_place [OF g demo_runs_ok this] g show ?thesis by blast
qed

theorem one_resume_per_node_witness:
  "resumes (runControls (demo_run 3 Paused) (control_context_of demo_runs demo_graph_options))
    \<longleftrightarrow> restart_head demo_runs [] (chainKey (demo_run 3 Paused)) = Some (demo_run 3 Paused)"
proof -
  have "demo_run 3 Paused \<in> set demo_runs" "\<not> is_nullish (it_runNodeId (demo_run 3 Paused))"
    "go_controllable demo_graph_options"
    by (simp_all add: demo_runs_def demo_run_def demo_graph_options_def)
  from one_resume_per_node [OF demo_runs_ok(1) this] show ?thesis by (simp add: demo_graph_options_def)
qed

end
