(* ===== verification/JsBytes.thy ===== *)
theory JsBytes
  imports JsCollections "HOL-Library.Word"
begin

text \<open>
  Dynamically typed values, byte arrays and base64, for the services that validate what they read back from
  disk. A \<open>jv\<close> is any value those validators may meet: \<open>VBytes\<close> is a \<open>Uint8Array\<close>, \<open>VArr\<close> an array, \<open>VObj\<close> an
  object with its own properties in order. \<open>b64\<close> is \<open>Buffer.toString("base64")\<close>; the lenient decoder of
  \<open>Buffer.from(s, "base64")\<close> is a parameter of its users, and \<open>b64_read\<close> is one decoder with its law.
\<close>

section \<open>Values\<close>

type_synonym byte = "8 word"

datatype jv =
    VUndef | VNull | VBool bool | VNum jsnum | VStr string | VArr "jv list" | VBytes "byte list"
  | VObj "(string \<times> jv) list"

text \<open>Property access \<open>v.k\<close> on an object; anything else the validators ask has no such property.\<close>

definition jv_get :: "jv \<Rightarrow> string \<Rightarrow> jv" where
  "jv_get v k = (case v of VObj fs \<Rightarrow> (case map_of fs k of None \<Rightarrow> VUndef | Some x \<Rightarrow> x) | _ \<Rightarrow> VUndef)"

definition jv_keys :: "jv \<Rightarrow> string list" where
  "jv_keys v = (case v of VObj fs \<Rightarrow> map fst fs | _ \<Rightarrow> [])"

definition jv_has :: "jv \<Rightarrow> string \<Rightarrow> bool" where
  "jv_has v k \<longleftrightarrow> k \<in> set (jv_keys v)"

definition is_obj :: "jv \<Rightarrow> bool" where
  "is_obj v = (case v of VObj _ \<Rightarrow> True | _ \<Rightarrow> False)"

lemma jv_get_obj: "jv_get (VObj fs) k = (case map_of fs k of None \<Rightarrow> VUndef | Some x \<Rightarrow> x)"
  by (simp add: jv_get_def)

lemma jv_get_Nil [simp]: "jv_get (VObj []) k = VUndef"
  by (simp add: jv_get_def)

lemma jv_get_Cons [simp]: "jv_get (VObj ((k, v) # fs)) k' = (if k' = k then v else jv_get (VObj fs) k')"
  by (simp add: jv_get_def)

lemma jv_get_append: "jv_get (VObj (fs @ gs)) k = (if k \<in> fst ` set fs then jv_get (VObj fs) k else jv_get (VObj gs) k)"
proof (induction fs)
  case (Cons f fs)
  then show ?case by (cases f) simp
qed simp

lemma jv_absent: "k \<notin> set (jv_keys v) \<Longrightarrow> jv_get v k = VUndef"
  by (cases v) (auto simp: jv_get_def jv_keys_def map_of_eq_None_iff [symmetric])

definition jv_truthy :: "jv \<Rightarrow> bool" where
  "jv_truthy v = (case v of
       VUndef \<Rightarrow> False | VNull \<Rightarrow> False | VBool b \<Rightarrow> b | VNum n \<Rightarrow> n \<noteq> NInt 0 | VStr s \<Rightarrow> s \<noteq> [] | _ \<Rightarrow> True)"

text \<open>\<open>exactKeys(value, required, optional)\<close>: an object with all the required keys and no unknown one.\<close>

definition exactKeys :: "jv \<Rightarrow> string list \<Rightarrow> string list \<Rightarrow> bool" where
  "exactKeys v required optional \<longleftrightarrow>
     is_obj v \<and> list_all (jv_has v) required
     \<and> list_all (\<lambda>k. k \<in> set required \<or> k \<in> set optional) (jv_keys v)"

text \<open>\<open>String(value)\<close>, as \<open>RegExp.test\<close> and the URL constructor apply it.\<close>

fun join_comma :: "string list \<Rightarrow> string" where
  "join_comma [] = ''''"
| "join_comma [s] = s"
| "join_comma (s # ss) = s @ '','' @ join_comma ss"

fun jv_string :: "jv \<Rightarrow> string" where
  "jv_string VUndef = ''undefined''"
| "jv_string VNull = ''null''"
| "jv_string (VBool b) = (if b then ''true'' else ''false'')"
| "jv_string (VNum n) = (case n of NInt i \<Rightarrow> show_int i | NOther \<Rightarrow> ''NaN'')"
| "jv_string (VStr s) = s"
| "jv_string (VArr vs) =
     join_comma (map (\<lambda>v. if v = VUndef \<or> v = VNull then '''' else jv_string v) vs)"
| "jv_string (VBytes bs) = join_comma (map (\<lambda>b. show_nat (unat b)) bs)"
| "jv_string (VObj fs) = ''[object Object]''"

section \<open>Character classes of the record formats\<close>

definition hex_lower :: "char \<Rightarrow> bool" where
  "hex_lower c \<longleftrightarrow> is_digit c \<or> (97 \<le> (of_char c :: nat) \<and> (of_char c :: nat) \<le> 102)"

definition upper_alnum :: "char \<Rightarrow> bool" where
  "upper_alnum c \<longleftrightarrow> is_digit c \<or> (65 \<le> (of_char c :: nat) \<and> (of_char c :: nat) \<le> 90)"

section \<open>Byte arrays\<close>

text \<open>\<open>Array.isArray(v) || v instanceof Uint8Array\<close>, its length, and its bytes as \<open>Uint8Array.from\<close> and
  \<open>Buffer.from\<close> read them: an integer modulo 256. The other elements of an array would be converted too; the
  validators reject them in snapshots, and previews are stored as an empty array or a \<open>Uint8Array\<close>.\<close>

definition is_bytes :: "jv \<Rightarrow> bool" where
  "is_bytes v = (case v of VArr _ \<Rightarrow> True | VBytes _ \<Rightarrow> True | _ \<Rightarrow> False)"

definition bytes_length :: "jv \<Rightarrow> nat" where
  "bytes_length v = (case v of VArr vs \<Rightarrow> length vs | VBytes bs \<Rightarrow> length bs | _ \<Rightarrow> 0)"

definition to_byte :: "jv \<Rightarrow> byte" where
  "to_byte v = (case v of VNum (NInt i) \<Rightarrow> word_of_int i | _ \<Rightarrow> 0)"

definition bytes_of :: "jv \<Rightarrow> byte list" where
  "bytes_of v = (case v of VArr vs \<Rightarrow> map to_byte vs | VBytes bs \<Rightarrow> bs | _ \<Rightarrow> [])"

lemma length_bytes_of [simp]: "length (bytes_of v) = bytes_length v"
  by (cases v) (auto simp: bytes_of_def bytes_length_def)

lemma bytes_of_VBytes [simp]: "bytes_of (VBytes bs) = bs" "bytes_length (VBytes bs) = length bs" "is_bytes (VBytes bs)"
  by (simp_all add: bytes_of_def bytes_length_def is_bytes_def)

text \<open>An element the snapshot check refuses: no integer from 0 to 255.\<close>

definition bad_byte :: "jv \<Rightarrow> bool" where
  "bad_byte v = (case v of VNum (NInt i) \<Rightarrow> i < 0 \<or> i > 255 | _ \<Rightarrow> True)"

section \<open>Base64\<close>

definition b64_char :: "nat \<Rightarrow> char" where
  "b64_char n =
     (if n < 26 then char_of (65 + n) else if n < 52 then char_of (71 + n) else if n < 62 then char_of (n - 4)
      else if n = 62 then CHR ''+'' else CHR ''/'')"

fun b64 :: "byte list \<Rightarrow> string" where
  "b64 [] = []"
| "b64 [a] = [b64_char (unat a div 4), b64_char (unat a mod 4 * 16), CHR ''='', CHR ''='']"
| "b64 [a, b] =
     [b64_char (unat a div 4), b64_char (unat a mod 4 * 16 + unat b div 16), b64_char (unat b mod 16 * 4), CHR ''='']"
| "b64 (a # b # c # r) =
     b64_char (unat a div 4) # b64_char (unat a mod 4 * 16 + unat b div 16)
     # b64_char (unat b mod 16 * 4 + unat c div 64) # b64_char (unat c mod 64) # b64 r"

lemma length_b64: "length (b64 bs) = (length bs + 2) div 3 * 4"
proof (induction bs rule: b64.induct)
  case (4 a b c r)
  have "(length (a # b # c # r) + 2) div 3 = Suc ((length r + 2) div 3)" by simp
  with 4 show ?case by simp
qed auto

definition b64_val :: "char \<Rightarrow> nat" where
  "b64_val c =
     (let n = (of_char c :: nat) in
      if 65 \<le> n \<and> n \<le> 90 then n - 65 else if 97 \<le> n \<and> n \<le> 122 then n - 71
      else if 48 \<le> n \<and> n \<le> 57 then n + 4 else if c = CHR ''+'' then 62 else 63)"

fun b64_read :: "string \<Rightarrow> byte list" where
  "b64_read (p # q # r # s # cs) =
     (let a = of_nat (b64_val p * 4 + b64_val q div 16);
          b = of_nat (b64_val q mod 16 * 16 + b64_val r div 4);
          c = of_nat (b64_val r mod 4 * 64 + b64_val s) in
      if r = CHR ''='' then [a] else if s = CHR ''='' then [a, b] else a # b # c # b64_read cs)"
| "b64_read _ = []"

lemma b64_val_char [simp]: "n < 64 \<Longrightarrow> b64_val (b64_char n) = n"
  by (auto simp: b64_val_def b64_char_def Let_def)

lemma b64_char_no_pad [simp]: "n < 64 \<Longrightarrow> b64_char n \<noteq> CHR ''=''"
proof
  assume n: "n < 64" and "b64_char n = CHR ''=''"
  then have "(of_char (b64_char n) :: nat) = 61" by simp
  with n show False by (auto simp: b64_char_def split: if_splits)
qed

lemma byte_bound [simp]: "unat (a :: byte) < 256"
  using unsigned_less [of a] by simp

lemma byte_div_bounds [simp]:
  "unat (a :: byte) div 4 < 64" "unat (a :: byte) div 16 < 16" "unat (a :: byte) div 64 < 4"
  "unat (a :: byte) mod 4 * 16 + unat (b :: byte) div 16 < 64"
  "unat (a :: byte) mod 16 * 4 + unat (b :: byte) div 64 < 64"
  using byte_bound [of a] byte_bound [of b] by linarith+

lemma byte_split:
  "(x * 16 + unat (b :: byte) div 16) div 16 = x" "(x * 16 + unat (b :: byte) div 16) mod 16 = unat b div 16"
  "(x * 4 + unat (b :: byte) div 64) div 4 = x" "(x * 4 + unat (b :: byte) div 64) mod 4 = unat b div 64"
  using div_mult_self3 [of 16 "unat b div 16" x] div_mult_self3 [of 4 "unat b div 64" x]
    mod_mult_self3 [of x 16 "unat b div 16"] mod_mult_self3 [of x 4 "unat b div 64"] by simp_all

lemma byte_join:
  "of_nat (unat (a :: byte) div 4 * 4 + unat a mod 4) = a"
  "of_nat (unat (a :: byte) div 16 * 16 + unat a mod 16) = a"
  "of_nat (unat (a :: byte) div 64 * 64 + unat a mod 64) = a"
  by simp_all

text \<open>The decoder gives back what the encoder wrote.\<close>

lemma b64_read_b64 [simp]: "b64_read (b64 bs) = bs"
proof (induction bs rule: b64.induct)
  case (4 a b c r)
  then show ?case by (simp add: Let_def byte_split)
qed (simp_all add: Let_def byte_split)

end
