(* ===== verification/ShareAttemptStore.thy ===== *)
theory ShareAttemptStore
  imports JsBytes
begin

text \<open>
  The durable store of share attempts (\<open>desktop/main/services/share-publish-attempt-store.mjs\<close>): validation of
  a record, the envelope written to disk and its way back, and the four operations over a directory of record
  files. What the code takes from Node and does not define itself is a field of \<open>platform\<close>: the SHA-256 digests,
  the URL parser, the lenient base64 decoder and the size of a rendered JSON text. A file holds its size and
  the value its text parses to, if it parses. Errors of the file system other than a missing file are not
  modelled; the code rethrows them and changes nothing.

  The lemmas: an encoded record decodes to itself, a saved record is read back, the store keeps within its
  two capacities, and unreadable files are removed and never returned.
\<close>

section \<open>The platform\<close>

record url =
  url_protocol :: string
  url_username :: string
  url_password :: string
  url_hostname :: string

record platform =
  pf_digest :: "byte list \<Rightarrow> string"
  pf_digestText :: "string \<Rightarrow> string"
  pf_parseUrl :: "string \<Rightarrow> url option"
  pf_b64_decode :: "string \<Rightarrow> byte list"
  pf_json_size :: "jv \<Rightarrow> nat"

definition VERSION :: int where
  "VERSION = 1"

definition MAX_ATTEMPTS_PER_OWNER :: nat where
  "MAX_ATTEMPTS_PER_OWNER = 32"

definition MAX_ATTEMPTS_GLOBAL :: nat where
  "MAX_ATTEMPTS_GLOBAL = 64"

definition MAX_SNAPSHOT_BYTES :: nat where
  "MAX_SNAPSHOT_BYTES = 16 * 1024 * 1024"

definition MAX_RECORD_BYTES :: nat where
  "MAX_RECORD_BYTES = 30 * 1024 * 1024"

definition RECORD_NAME :: "string \<Rightarrow> bool" where
  "RECORD_NAME s \<longleftrightarrow> length s = 69 \<and> list_all hex_lower (take 64 s) \<and> drop 64 s = ''.json''"

definition FAILURE_CODES :: "string list" where
  "FAILURE_CODES =
     [''share_cancelled'', ''share_sign_in_required'', ''share_imported_conversation'',
      ''share_no_accepted_completion'', ''share_title_required'', ''share_title_too_long'',
      ''share_snapshot_too_large'', ''share_export_failed'', ''share_upload_failed'', ''share_service_failed'',
      ''daily_quota_exhausted'', ''reservation_limit_exhausted'', ''share_attempt_unavailable'']"

section \<open>Validation\<close>

definition validReference :: "string \<Rightarrow> bool" where
  "validReference s \<longleftrightarrow> take 4 s = ''SHR-'' \<and> 8 \<le> length (drop 4 s) \<and> length (drop 4 s) \<le> 32
     \<and> list_all upper_alnum (drop 4 s)"

definition str_ok :: "(string \<Rightarrow> bool) \<Rightarrow> jv \<Rightarrow> bool" where
  "str_ok P v = (case v of VStr s \<Rightarrow> P s | _ \<Rightarrow> False)"

definition int_ok :: "(int \<Rightarrow> bool) \<Rightarrow> jv \<Rightarrow> bool" where
  "int_ok P v = (case v of VNum n \<Rightarrow> is_safe_integer n \<and> P (num_val n) | _ \<Rightarrow> False)"

definition is_bool :: "jv \<Rightarrow> bool" where
  "is_bool v = (case v of VBool _ \<Rightarrow> True | _ \<Rightarrow> False)"

definition validFailure :: "jv \<Rightarrow> jv \<Rightarrow> bool" where
  "validFailure v reference \<longleftrightarrow>
     v = VNull
     \<or> (exactKeys v [''status'', ''attemptReferenceId'', ''code'', ''retryable''] [''resetAt'']
        \<and> jv_get v ''status'' = VStr ''failed''
        \<and> jv_get v ''attemptReferenceId'' = reference
        \<and> str_ok (\<lambda>c. c \<in> set FAILURE_CODES) (jv_get v ''code'')
        \<and> is_bool (jv_get v ''retryable'')
        \<and> (\<not> jv_has v ''resetAt'' \<or> str_ok (\<lambda>s. length s \<le> 64) (jv_get v ''resetAt'')))"

definition validPublishedUrl :: "platform \<Rightarrow> jv \<Rightarrow> bool" where
  "validPublishedUrl P v =
     (case pf_parseUrl P (jv_string v) of
        None \<Rightarrow> False
      | Some u \<Rightarrow> url_protocol u = ''https:'' \<and> url_username u = '''' \<and> url_password u = '''' \<and> url_hostname u \<noteq> '''')"

definition record_keys :: "string list" where
  "record_keys = [''reference'', ''attemptId'', ''ownerKey'', ''threadId'', ''sourceThreadId'', ''title'',
     ''snapshotBytes'', ''createdAt'', ''lastFailure'', ''reportedFailures'', ''publishedUrl'']"

definition valid_reported :: "jv \<Rightarrow> bool" where
  "valid_reported v =
     (case v of
        VArr ks \<Rightarrow> length ks \<le> 16 \<and> list_all (str_ok (\<lambda>s. s \<noteq> [] \<and> length s \<le> 128)) ks
      | _ \<Rightarrow> False)"

text \<open>The first condition of \<open>validateRecord\<close>: the shape of every field.\<close>

definition valid_fields :: "jv \<Rightarrow> bool" where
  "valid_fields v \<longleftrightarrow>
     exactKeys v record_keys [''preview'', ''previewBytes'']
     \<and> str_ok validReference (jv_get v ''reference'')
     \<and> str_ok (\<lambda>s. length s = 32 \<and> list_all hex_lower s) (jv_get v ''attemptId'')
     \<and> str_ok (\<lambda>s. s \<noteq> [] \<and> length s \<le> 512) (jv_get v ''ownerKey'')
     \<and> int_ok (\<lambda>n. n > 0) (jv_get v ''threadId'')
     \<and> str_ok (\<lambda>s. s \<noteq> [] \<and> length s \<le> 1024) (jv_get v ''sourceThreadId'')
     \<and> str_ok (\<lambda>s. length s \<le> 120) (jv_get v ''title'')
     \<and> is_bytes (jv_get v ''snapshotBytes'')
     \<and> bytes_length (jv_get v ''snapshotBytes'') \<le> MAX_SNAPSHOT_BYTES
     \<and> int_ok (\<lambda>n. n \<ge> 0) (jv_get v ''createdAt'')
     \<and> validFailure (jv_get v ''lastFailure'') (jv_get v ''reference'')
     \<and> valid_reported (jv_get v ''reportedFailures'')"

text \<open>The frozen preview: its shape, and its bytes, which a published record has dropped.\<close>

definition valid_preview :: "platform \<Rightarrow> bool \<Rightarrow> jv \<Rightarrow> jv \<Rightarrow> bool" where
  "valid_preview P published p bytes \<longleftrightarrow>
     jv_truthy p
     \<and> (jv_get p ''theme'' = VStr ''light'' \<or> jv_get p ''theme'' = VStr ''dark'')
     \<and> int_ok (\<lambda>n. 1 \<le> n \<and> n \<le> 4 * 1024 * 1024) (jv_get p ''byteLength'')
     \<and> length (jv_string (jv_get p ''sha256'')) = 64 \<and> list_all hex_lower (jv_string (jv_get p ''sha256''))
     \<and> is_bytes bytes
     \<and> (if published then bytes_length bytes = 0
        else jv_get p ''byteLength'' = VNum (NInt (int (bytes_length bytes)))
             \<and> jv_get p ''sha256'' = VStr (pf_digest P (bytes_of bytes)))"

definition durable_export_failure :: "bool \<Rightarrow> jv \<Rightarrow> bool" where
  "durable_export_failure published v \<longleftrightarrow>
     \<not> published \<and> bytes_length (jv_get v ''snapshotBytes'') = 0
     \<and> jv_get v ''lastFailure'' \<noteq> VNull
     \<and> jv_get (jv_get v ''lastFailure'') ''retryable'' = VBool False
     \<and> (jv_get (jv_get v ''lastFailure'') ''code'' = VStr ''share_snapshot_too_large''
        \<or> jv_get (jv_get v ''lastFailure'') ''code'' = VStr ''share_export_failed'')"

definition valid_state :: "platform \<Rightarrow> jv \<Rightarrow> bool" where
  "valid_state P v \<longleftrightarrow>
     (let published = validPublishedUrl P (jv_get v ''publishedUrl'');
          n = bytes_length (jv_get v ''snapshotBytes'') in
      (published \<longrightarrow> n = 0 \<and> jv_get v ''lastFailure'' = VNull)
      \<and> (\<not> published \<longrightarrow> jv_get v ''publishedUrl'' = VNull \<and> (n = 0 \<longrightarrow> durable_export_failure published v)))"

definition invalid_record :: js_error where
  "invalid_record = TypeError ''Share publish attempt record is invalid.''"

definition check_preview :: "platform \<Rightarrow> jv \<Rightarrow> unit result" where
  "check_preview P v =
     (if jv_get v ''preview'' \<noteq> VUndef
      then guard_r (valid_preview P (validPublishedUrl P (jv_get v ''publishedUrl'')) (jv_get v ''preview'') (jv_get v ''previewBytes''))
             (TypeError ''Invalid frozen share preview'')
      else guard_r (jv_get v ''previewBytes'' = VUndef) (TypeError ''Orphan preview bytes''))"

definition validateRecord :: "platform \<Rightarrow> jv \<Rightarrow> jv result" where
  "validateRecord P v =
     bind_r (guard_r (valid_fields v) invalid_record) (\<lambda>_.
     bind_r (check_preview P v) (\<lambda>_.
     bind_r (guard_r (valid_state P v) invalid_record) (\<lambda>_.
     bind_r (guard_r (case jv_get v ''snapshotBytes'' of VArr bs \<Rightarrow> \<not> list_ex bad_byte bs | _ \<Rightarrow> True) invalid_record) (\<lambda>_.
     Inr v))))"

section \<open>The envelope\<close>

definition filename :: "platform \<Rightarrow> string \<Rightarrow> string" where
  "filename P reference = pf_digestText P reference @ ''.json''"

definition str_of :: "jv \<Rightarrow> string" where
  "str_of v = (case v of VStr s \<Rightarrow> s | _ \<Rightarrow> '''')"

definition array_of :: "jv \<Rightarrow> jv list" where
  "array_of v = (case v of VArr vs \<Rightarrow> vs | _ \<Rightarrow> [])"

definition envelope_of :: "jv \<Rightarrow> jv" where
  "envelope_of v = VObj (
     [(''version'', VNum (NInt (if jv_truthy (jv_get v ''preview'') then 2 else VERSION))),
      (''reference'', jv_get v ''reference''),
      (''attemptId'', jv_get v ''attemptId''),
      (''ownerKey'', jv_get v ''ownerKey''),
      (''threadId'', jv_get v ''threadId''),
      (''sourceThreadId'', jv_get v ''sourceThreadId''),
      (''title'', jv_get v ''title''),
      (''snapshot'', VStr (b64 (bytes_of (jv_get v ''snapshotBytes''))))]
     @ (if jv_truthy (jv_get v ''preview'')
        then [(''preview'', jv_get v ''preview''), (''previewPng'', VStr (b64 (bytes_of (jv_get v ''previewBytes''))))]
        else [])
     @ [(''createdAt'', jv_get v ''createdAt''),
        (''lastFailure'', jv_get v ''lastFailure''),
        (''reportedFailures'', VArr (first_unique (array_of (jv_get v ''reportedFailures'')))),
        (''publishedUrl'', jv_get v ''publishedUrl'')])"

definition encodeRecord :: "platform \<Rightarrow> jv \<Rightarrow> jv result" where
  "encodeRecord P input = bind_r (validateRecord P input) (\<lambda>v. Inr (envelope_of v))"

definition envelope_keys :: "string list" where
  "envelope_keys = [''version'', ''reference'', ''attemptId'', ''ownerKey'', ''threadId'', ''sourceThreadId'',
     ''title'', ''snapshot'', ''createdAt'', ''lastFailure'', ''reportedFailures'', ''publishedUrl'']"

definition b64_text :: "platform \<Rightarrow> nat \<Rightarrow> jv \<Rightarrow> bool" where
  "b64_text P limit v = str_ok (\<lambda>s. length s \<le> (limit + 2) div 3 * 4 \<and> b64 (pf_b64_decode P s) = s) v"

definition record_of :: "platform \<Rightarrow> jv \<Rightarrow> jv" where
  "record_of P e = VObj (
     (if jv_truthy (jv_get e ''preview'')
      then [(''preview'', jv_get e ''preview''),
            (''previewBytes'', VBytes (pf_b64_decode P (str_of (jv_get e ''previewPng''))))]
      else [])
     @ [(''reference'', jv_get e ''reference''),
        (''attemptId'', jv_get e ''attemptId''),
        (''ownerKey'', jv_get e ''ownerKey''),
        (''threadId'', jv_get e ''threadId''),
        (''sourceThreadId'', jv_get e ''sourceThreadId''),
        (''title'', jv_get e ''title''),
        (''snapshotBytes'', VBytes (pf_b64_decode P (str_of (jv_get e ''snapshot'')))),
        (''createdAt'', jv_get e ''createdAt''),
        (''lastFailure'', jv_get e ''lastFailure''),
        (''reportedFailures'', jv_get e ''reportedFailures''),
        (''publishedUrl'', jv_get e ''publishedUrl'')])"

definition decodeRecord :: "platform \<Rightarrow> jv \<Rightarrow> jv result" where
  "decodeRecord P e =
     bind_r (guard_r
       (exactKeys e envelope_keys [''preview'', ''previewPng'']
        \<and> (jv_get e ''version'' = VNum (NInt VERSION) \<or> jv_get e ''version'' = VNum (NInt 2))
        \<and> str_ok (\<lambda>s. length s \<le> (MAX_SNAPSHOT_BYTES + 2) div 3 * 4 \<and> length s mod 4 = 0) (jv_get e ''snapshot''))
       (TypeError ''Share publish attempt envelope is invalid.'')) (\<lambda>_.
     bind_r (guard_r
       ((jv_get e ''version'' = VNum (NInt 2)) = jv_truthy (jv_get e ''preview'')
        \<and> (jv_truthy (jv_get e ''preview'') \<or> jv_get e ''previewPng'' = VUndef))
       (TypeError ''Invalid preview version'')) (\<lambda>_.
     bind_r (guard_r (b64_text P MAX_SNAPSHOT_BYTES (jv_get e ''snapshot''))
       (TypeError ''Share publish attempt envelope is invalid.'')) (\<lambda>_.
     bind_r (guard_r
       (\<not> jv_truthy (jv_get e ''preview'') \<or> b64_text P (4 * 1024 * 1024) (jv_get e ''previewPng''))
       (TypeError ''Invalid preview envelope'')) (\<lambda>_.
     validateRecord P (record_of P e)))))"

section \<open>The directory\<close>

record share_file =
  fl_size :: nat
  fl_json :: "jv option"

type_synonym dir = "(string, share_file) jsmap"

definition recordNames :: "dir \<Rightarrow> string list" where
  "recordNames d = filter RECORD_NAME (map_keys d)"

text \<open>\<open>try { \<dots> } catch\<close> around the size test, the parse, the decoder and the identity test.\<close>

definition readable :: "platform \<Rightarrow> string \<Rightarrow> share_file \<Rightarrow> jv option" where
  "readable P name f =
     (if fl_size f > MAX_RECORD_BYTES then None
      else
        case fl_json f of
          None \<Rightarrow> None
        | Some e \<Rightarrow>
            (case decodeRecord P e of
               Inl _ \<Rightarrow> None
             | Inr r \<Rightarrow> if filename P (str_of (jv_get r ''reference'')) \<noteq> name then None else Some r))"

definition loadRecord :: "platform \<Rightarrow> string \<Rightarrow> dir \<Rightarrow> jv option \<times> dir" where
  "loadRecord P name d =
     (case map_get d name of
        None \<Rightarrow> (None, d)
      | Some f \<Rightarrow>
          (case readable P name f of
             Some r \<Rightarrow> (Some r, d)
           | None \<Rightarrow> (None, map_delete d name)))"

fun load_all :: "platform \<Rightarrow> string list \<Rightarrow> dir \<Rightarrow> jv list \<times> dir" where
  "load_all P [] d = ([], d)"
| "load_all P (n # ns) d =
     (case loadRecord P n d of (r, d') \<Rightarrow>
        case load_all P ns d' of (rs, d'') \<Rightarrow> ((case r of None \<Rightarrow> rs | Some x \<Rightarrow> x # rs), d''))"

definition created_at :: "jv \<Rightarrow> int" where
  "created_at v = (case jv_get v ''createdAt'' of VNum n \<Rightarrow> num_val n | _ \<Rightarrow> 0)"

definition store_load :: "platform \<Rightarrow> dir \<Rightarrow> jv list \<times> dir" where
  "store_load P d =
     (case load_all P (recordNames d) d of (rs, d') \<Rightarrow> (js_sort (\<lambda>l r. created_at l - created_at r) rs, d'))"

definition store_read :: "platform \<Rightarrow> string \<Rightarrow> dir \<Rightarrow> jv option \<times> dir" where
  "store_read P reference d = loadRecord P (filename P reference) d"

definition exhausted :: js_error where
  "exhausted = Error ''Share publish attempt capacity is exhausted.''"

text \<open>The sequential count of an owner's attempts: it stops at the capacity, and the files it finds unreadable
  on the way are gone.\<close>

fun count_owner :: "platform \<Rightarrow> jv \<Rightarrow> nat \<Rightarrow> string list \<Rightarrow> dir \<Rightarrow> unit result \<times> dir" where
  "count_owner P owner n [] d = (Inr (), d)"
| "count_owner P owner n (c # cs) d =
     (case loadRecord P c d of (r, d') \<Rightarrow>
        let n' = (case r of None \<Rightarrow> n | Some x \<Rightarrow> if jv_get x ''ownerKey'' = owner then n + 1 else n) in
        if n' \<ge> MAX_ATTEMPTS_PER_OWNER then (Inl exhausted, d') else count_owner P owner n' cs d')"

definition store_save :: "platform \<Rightarrow> jv \<Rightarrow> dir \<Rightarrow> unit result \<times> dir" where
  "store_save P v d =
     (case encodeRecord P v of
        Inl e \<Rightarrow> (Inl e, d)
      | Inr env \<Rightarrow>
          let name = filename P (str_of (jv_get env ''reference''));
              names = recordNames d;
              write = (\<lambda>d'. map_set d' name \<lparr>fl_size = pf_json_size P env, fl_json = Some env\<rparr>) in
          if name \<in> set names then (Inr (), write d)
          else if length names \<ge> MAX_ATTEMPTS_GLOBAL then (Inl exhausted, d)
          else
            (case count_owner P (jv_get env ''ownerKey'') 0 names d of
               (Inl e, d') \<Rightarrow> (Inl e, d')
             | (Inr _, d') \<Rightarrow> (Inr (), write d')))"

definition store_delete :: "platform \<Rightarrow> jv \<Rightarrow> dir \<Rightarrow> bool \<times> dir" where
  "store_delete P reference d =
     (if \<not> str_ok validReference reference then (False, d)
      else
        let name = filename P (str_of reference) in
        if map_has d name then (True, map_delete d name) else (False, d))"

section \<open>Round trip of a record\<close>

text \<open>The law of the decoder that Node documents: it reads back what \<open>toString("base64")\<close> wrote.\<close>

definition decoder_law :: "platform \<Rightarrow> bool" where
  "decoder_law P \<longleftrightarrow> (\<forall>bs. pf_b64_decode P (b64 bs) = bs)"

lemma validateRecord_iff:
  "validateRecord P v = Inr w \<longleftrightarrow>
     w = v \<and> valid_fields v \<and> check_preview P v = Inr () \<and> valid_state P v
     \<and> (case jv_get v ''snapshotBytes'' of VArr bs \<Rightarrow> \<not> list_ex bad_byte bs | _ \<Rightarrow> True)"
  by (auto simp: validateRecord_def bind_r_Inr_iff)

text \<open>A record in the form it has after a round trip: typed byte arrays, and each reported key once.\<close>

definition canonical :: "jv \<Rightarrow> string \<Rightarrow> jv" where
  "canonical v k =
     (if k = ''snapshotBytes'' then VBytes (bytes_of (jv_get v k))
      else if k = ''previewBytes'' then (if jv_truthy (jv_get v ''preview'') then VBytes (bytes_of (jv_get v k)) else VUndef)
      else if k = ''reportedFailures'' then VArr (first_unique (array_of (jv_get v k)))
      else jv_get v k)"

lemma preview_truthy:
  assumes "check_preview P v = Inr ()"
  shows "jv_truthy (jv_get v ''preview'') \<longleftrightarrow> jv_get v ''preview'' \<noteq> VUndef"
  using assms by (auto simp: check_preview_def valid_preview_def jv_truthy_def split: if_splits)

lemma envelope_get:
  "jv_get (envelope_of v) ''snapshot'' = VStr (b64 (bytes_of (jv_get v ''snapshotBytes'')))"
  "jv_get (envelope_of v) ''version'' = VNum (NInt (if jv_truthy (jv_get v ''preview'') then 2 else VERSION))"
  "jv_get (envelope_of v) ''preview'' = (if jv_truthy (jv_get v ''preview'') then jv_get v ''preview'' else VUndef)"
  "jv_get (envelope_of v) ''previewPng'' =
     (if jv_truthy (jv_get v ''preview'') then VStr (b64 (bytes_of (jv_get v ''previewBytes''))) else VUndef)"
  "jv_get (envelope_of v) ''reportedFailures'' = VArr (first_unique (array_of (jv_get v ''reportedFailures'')))"
"jv_get (envelope_of v) ''reference'' = jv_get v ''reference''"
  "jv_get (envelope_of v) ''attemptId'' = jv_get v ''attemptId''"
  "jv_get (envelope_of v) ''ownerKey'' = jv_get v ''ownerKey''"
  "jv_get (envelope_of v) ''threadId'' = jv_get v ''threadId''"
  "jv_get (envelope_of v) ''sourceThreadId'' = jv_get v ''sourceThreadId''"
  "jv_get (envelope_of v) ''title'' = jv_get v ''title''"
  "jv_get (envelope_of v) ''createdAt'' = jv_get v ''createdAt''"
  "jv_get (envelope_of v) ''lastFailure'' = jv_get v ''lastFailure''"
  "jv_get (envelope_of v) ''publishedUrl'' = jv_get v ''publishedUrl''"
  by (cases "jv_truthy (jv_get v ''preview'')"; simp add: envelope_of_def)+

lemma record_get:
  "jv_get (record_of P e) ''snapshotBytes'' = VBytes (pf_b64_decode P (str_of (jv_get e ''snapshot'')))"
  "jv_get (record_of P e) ''preview'' = (if jv_truthy (jv_get e ''preview'') then jv_get e ''preview'' else VUndef)"
  "jv_get (record_of P e) ''previewBytes'' =
     (if jv_truthy (jv_get e ''preview'') then VBytes (pf_b64_decode P (str_of (jv_get e ''previewPng''))) else VUndef)"
  "jv_get (record_of P e) ''reference'' = jv_get e ''reference''"
  "jv_get (record_of P e) ''attemptId'' = jv_get e ''attemptId''"
  "jv_get (record_of P e) ''ownerKey'' = jv_get e ''ownerKey''"
  "jv_get (record_of P e) ''threadId'' = jv_get e ''threadId''"
  "jv_get (record_of P e) ''sourceThreadId'' = jv_get e ''sourceThreadId''"
  "jv_get (record_of P e) ''title'' = jv_get e ''title''"
  "jv_get (record_of P e) ''createdAt'' = jv_get e ''createdAt''"
  "jv_get (record_of P e) ''lastFailure'' = jv_get e ''lastFailure''"
  "jv_get (record_of P e) ''publishedUrl'' = jv_get e ''publishedUrl''"
  "jv_get (record_of P e) ''reportedFailures'' = jv_get e ''reportedFailures''"
  by (cases "jv_truthy (jv_get e ''preview'')"; simp add: record_of_def)+

lemma record_of_exact: "exactKeys (record_of P e) record_keys [''preview'', ''previewBytes'']"
  by (cases "jv_truthy (jv_get e ''preview'')")
    (simp_all add: exactKeys_def record_of_def is_obj_def jv_has_def jv_keys_def record_keys_def)

lemma exactKeys_absent:
  "exactKeys v required optional \<Longrightarrow> k \<notin> set required \<Longrightarrow> k \<notin> set optional \<Longrightarrow> jv_get v k = VUndef"
  by (rule jv_absent) (auto simp: exactKeys_def list_all_iff)

lemma jv_truthy_undef [simp]: "\<not> jv_truthy VUndef"
  by (simp add: jv_truthy_def)

lemma record_of_get:
  assumes v: "validateRecord P v = Inr v" and P: "decoder_law P"
  shows "jv_get (record_of P (envelope_of v)) k = canonical v k"
proof -
  have pv: "jv_truthy (jv_get v ''preview'') \<longleftrightarrow> jv_get v ''preview'' \<noteq> VUndef"
    using v preview_truthy [of P v] by (simp add: validateRecord_iff)
  have keys: "k \<in> set record_keys \<or> k = ''preview'' \<or> k = ''previewBytes''" if "jv_get v k \<noteq> VUndef"
    using v that jv_absent [of k v] by (auto simp: validateRecord_iff valid_fields_def exactKeys_def list_all_iff)
  have P': "pf_b64_decode P (b64 bs) = bs" for bs using P by (simp add: decoder_law_def)
  have str: "str_of (VStr x) = x" for x by (simp add: str_of_def)
  show ?thesis
  proof (cases "k \<in> set record_keys \<or> k = ''preview'' \<or> k = ''previewBytes''")
    case True
    then show ?thesis
      unfolding record_keys_def set_simps
      by (elim disjE insertE) (use pv in \<open>simp_all add: record_get envelope_get canonical_def str P'\<close>)
  next
    case False
    then have "canonical v k = VUndef"
      using keys unfolding canonical_def record_keys_def by (metis list.set_intros(1) list.set_intros(2))
    moreover have "jv_get (record_of P (envelope_of v)) k = VUndef"
      using exactKeys_absent [OF record_of_exact] False by simp
    ultimately show ?thesis by simp
  qed
qed

lemma first_unique_length: "length (first_unique xs) \<le> length xs"
  by (simp add: first_unique_def length_remdups_leq [THEN order_trans])

lemma valid_reported_unique: "valid_reported v \<Longrightarrow> valid_reported (VArr (first_unique (array_of v)))"
  using first_unique_length by (cases v) (auto simp: valid_reported_def array_of_def list_all_iff intro: order_trans)

lemma canonical_valid:
  assumes v: "validateRecord P v = Inr v" and w: "\<And>k. jv_get w k = canonical v k"
    and keys: "exactKeys w record_keys [''preview'', ''previewBytes'']"
  shows "validateRecord P w = Inr w"
proof -
  note parts = v [unfolded validateRecord_iff]
  have pv: "jv_truthy (jv_get v ''preview'') \<longleftrightarrow> jv_get v ''preview'' \<noteq> VUndef"
    using parts preview_truthy [of P v] by simp
  have "valid_fields w"
    using parts keys by (auto simp: valid_fields_def w canonical_def valid_reported_unique)
  moreover have "check_preview P w = Inr ()"
    using parts pv by (auto simp: check_preview_def w canonical_def valid_preview_def split: if_splits)
  moreover have "valid_state P w"
    using parts by (simp add: valid_state_def w canonical_def durable_export_failure_def)
  ultimately show ?thesis by (simp add: validateRecord_iff w canonical_def)
qed

lemma envelope_exact: "exactKeys (envelope_of v) envelope_keys [''preview'', ''previewPng'']"
  by (auto simp: exactKeys_def envelope_of_def is_obj_def jv_has_def jv_keys_def envelope_keys_def)

lemma preview_size:
  assumes "check_preview P v = Inr ()" "jv_truthy (jv_get v ''preview'')"
  shows "bytes_length (jv_get v ''previewBytes'') \<le> 4 * 1024 * 1024"
  using assms by (auto simp: check_preview_def valid_preview_def int_ok_def num_val_def jv_truthy_def split: if_splits jv.splits)

lemma decode_envelope:
  assumes v: "validateRecord P v = Inr v" and "decoder_law P"
  shows "decodeRecord P (envelope_of v) = Inr (record_of P (envelope_of v))"
proof -
  let ?e = "envelope_of v"
  let ?w = "record_of P ?e"
  note parts = v [unfolded validateRecord_iff]
  have w: "jv_get ?w k = canonical v k" for k by (rule record_of_get [OF assms])
  have valid: "validateRecord P ?w = Inr ?w" by (rule canonical_valid [OF v w record_of_exact])
  have P: "pf_b64_decode P (b64 bs) = bs" for bs using assms(2) by (simp add: decoder_law_def)
  have fit: "length (b64 bs) \<le> (limit + 2) div 3 * 4" if "length bs \<le> limit" for bs :: "byte list" and limit
    using that by (simp add: length_b64 div_le_mono)
  have snap: "bytes_length (jv_get v ''snapshotBytes'') \<le> MAX_SNAPSHOT_BYTES" using parts by (simp add: valid_fields_def)
  have "b64_text P MAX_SNAPSHOT_BYTES (jv_get ?e ''snapshot'')"
    using fit snap by (simp add: b64_text_def envelope_get str_ok_def P)
  moreover have "\<not> jv_truthy (jv_get ?e ''preview'') \<or> b64_text P (4 * 1024 * 1024) (jv_get ?e ''previewPng'')"
  proof (cases "jv_truthy (jv_get v ''preview'')")
    case True
    with parts have "bytes_length (jv_get v ''previewBytes'') \<le> 4 * 1024 * 1024" using preview_size [of P v] by simp
    with fit [of "bytes_of (jv_get v ''previewBytes'')" "4 * 1024 * 1024"]
    show ?thesis by (simp add: b64_text_def envelope_get str_ok_def P)
  qed (simp add: envelope_get jv_truthy_def)
  moreover have "length (b64 bs) mod 4 = 0" for bs by (simp add: length_b64)
  ultimately show ?thesis
    using fit [OF snap [folded length_bytes_of]] valid
    by (auto simp: decodeRecord_def envelope_exact envelope_get str_ok_def VERSION_def jv_truthy_def)
qed

text \<open>What the store writes for a valid record is read back as that record: decoding the envelope succeeds,
  and every field comes back, the byte arrays as \<open>Uint8Array\<close>s and the reported failures without repetition.\<close>

theorem envelope_roundtrip:
  assumes "validateRecord P v = Inr v" "decoder_law P"
  shows "\<exists>e w. encodeRecord P v = Inr e \<and> decodeRecord P e = Inr w \<and> validateRecord P w = Inr w
    \<and> (\<forall>k. jv_get w k = canonical v k)"
proof -
  let ?w = "record_of P (envelope_of v)"
  have w: "jv_get ?w k = canonical v k" for k by (rule record_of_get [OF assms])
  moreover have "validateRecord P ?w = Inr ?w" by (rule canonical_valid [OF assms(1) w record_of_exact])
  moreover have "encodeRecord P v = Inr (envelope_of v)" using assms(1) by (simp add: encodeRecord_def)
  ultimately show ?thesis using decode_envelope [OF assms] by blast
qed

section \<open>The directory keeps its readable records\<close>

text \<open>\<open>holds P d n r\<close>: the file \<open>n\<close> of the directory holds the record \<open>r\<close>.\<close>

definition holds :: "platform \<Rightarrow> dir \<Rightarrow> string \<Rightarrow> jv \<Rightarrow> bool" where
  "holds P d n r \<longleftrightarrow> (\<exists>f. map_get d n = Some f \<and> readable P n f = Some r)"

text \<open>\<open>repaired P d d'\<close>: some files that hold no record are gone, and nothing else changed.\<close>

definition repaired :: "platform \<Rightarrow> dir \<Rightarrow> dir \<Rightarrow> bool" where
  "repaired P d d' \<longleftrightarrow>
     (map_ok d \<longrightarrow> map_ok d') \<and> length (recordNames d') \<le> length (recordNames d)
     \<and> (\<forall>n f. map_get d' n = Some f \<longrightarrow> map_get d n = Some f) \<and> (\<forall>n r. holds P d n r \<longrightarrow> holds P d' n r)"

lemma repaired_refl [simp]: "repaired P d d"
  by (simp add: repaired_def)

lemma repaired_trans: "repaired P d d' \<Longrightarrow> repaired P d' d'' \<Longrightarrow> repaired P d d''"
  by (auto simp: repaired_def)

lemma repaired_holds: "repaired P d d' \<Longrightarrow> holds P d' n r \<longleftrightarrow> holds P d n r"
  unfolding repaired_def holds_def by blast

lemma loadRecord_holds: "loadRecord P n d = (r, d') \<Longrightarrow> r = Some x \<longleftrightarrow> holds P d n x"
  by (auto simp: loadRecord_def holds_def split: option.splits)

lemma recordNames_delete: "recordNames (map_delete d n) = filter (\<lambda>m. m \<noteq> n) (recordNames d)"
  by (auto simp: recordNames_def map_keys_delete conj_commute)

lemma loadRecord_repaired: "loadRecord P n d = (r, d') \<Longrightarrow> repaired P d d'"
  by (auto simp: loadRecord_def repaired_def holds_def recordNames_delete split: option.splits if_splits)

lemma load_all_repaired: "load_all P ns d = (rs, d') \<Longrightarrow> repaired P d d'"
proof (induction ns arbitrary: d rs d')
  case (Cons n ns)
  obtain r d1 where l: "loadRecord P n d = (r, d1)" by (cases "loadRecord P n d")
  obtain rs1 d2 where a: "load_all P ns d1 = (rs1, d2)" by (cases "load_all P ns d1")
  from Cons.prems l a have "d' = d2" by (simp split: option.splits)
  with Cons.IH [OF a] loadRecord_repaired [OF l] show ?case using repaired_trans by blast
qed simp

lemma load_all_records: "load_all P ns d = (rs, d') \<Longrightarrow> x \<in> set rs \<longleftrightarrow> (\<exists>n \<in> set ns. holds P d n x)"
proof (induction ns arbitrary: d rs d')
  case (Cons n ns)
  obtain r d1 where l: "loadRecord P n d = (r, d1)" by (cases "loadRecord P n d")
  obtain rs1 d2 where a: "load_all P ns d1 = (rs1, d2)" by (cases "load_all P ns d1")
  from Cons.prems l a have "rs = (case r of None \<Rightarrow> rs1 | Some y \<Rightarrow> y # rs1)" by simp
  then have "x \<in> set rs \<longleftrightarrow> r = Some x \<or> x \<in> set rs1" by (auto split: option.splits)
  with Cons.IH [OF a] loadRecord_holds [OF l] repaired_holds [OF loadRecord_repaired [OF l]] show ?case by simp
qed simp

lemma count_owner_repaired: "count_owner P owner n ns d = (res, d') \<Longrightarrow> repaired P d d'"
proof (induction ns arbitrary: n d)
  case (Cons c cs)
  obtain r d1 where l: "loadRecord P c d = (r, d1)" by (cases "loadRecord P c d")
  note step = loadRecord_repaired [OF l]
  from Cons.prems l have "d' = d1 \<or> (\<exists>m. count_owner P owner m cs d1 = (res, d'))"
    by (auto simp: Let_def split: if_splits)
  with step Cons.IH show ?case using repaired_trans by blast
qed simp

text \<open>The records of an owner among the given files.\<close>

definition owned :: "platform \<Rightarrow> dir \<Rightarrow> jv \<Rightarrow> string \<Rightarrow> bool" where
  "owned P d owner n \<longleftrightarrow> (\<exists>r. holds P d n r \<and> jv_get r ''ownerKey'' = owner)"

lemma owned_repaired: "repaired P d d' \<Longrightarrow> owned P d' owner n \<longleftrightarrow> owned P d owner n"
  by (simp add: owned_def repaired_holds)

lemma loadRecord_owned:
  fixes n :: nat
  assumes "loadRecord P c d = (r, d')"
  shows "(case r of None \<Rightarrow> n | Some x \<Rightarrow> if jv_get x ''ownerKey'' = owner then n + 1 else n)
    = n + (if owned P d owner c then 1 else 0)"
proof (cases r)
  case None
  then have "\<not> holds P d c x" for x using loadRecord_holds [OF assms, of x] by simp
  with None show ?thesis by (simp add: owned_def)
next
  case (Some x)
  then have "holds P d c y \<longleftrightarrow> y = x" for y using loadRecord_holds [OF assms, of y] by auto
  with Some show ?thesis by (simp add: owned_def)
qed

lemma count_owner_ok:
  "count_owner P owner n ns d = (Inr u, d') \<Longrightarrow> n < MAX_ATTEMPTS_PER_OWNER
     \<Longrightarrow> n + length (filter (owned P d owner) ns) < MAX_ATTEMPTS_PER_OWNER"
proof (induction ns arbitrary: n d)
  case (Cons c cs)
  obtain r d1 where l: "loadRecord P c d = (r, d1)" by (cases "loadRecord P c d")
  let ?n = "n + (if owned P d owner c then 1 else 0)"
  from Cons.prems(1) l loadRecord_owned [OF l, of n owner]
  have "?n < MAX_ATTEMPTS_PER_OWNER" "count_owner P owner ?n cs d1 = (Inr u, d')"
    by (simp_all add: Let_def split: if_splits)
  from Cons.IH [OF this(2,1)] owned_repaired [OF loadRecord_repaired [OF l]] show ?case by auto
qed simp

section \<open>Saving\<close>

definition envelope_file :: "platform \<Rightarrow> jv \<Rightarrow> share_file" where
  "envelope_file P v = \<lparr>fl_size = pf_json_size P (envelope_of v), fl_json = Some (envelope_of v)\<rparr>"

definition record_file :: "platform \<Rightarrow> jv \<Rightarrow> string" where
  "record_file P v = filename P (str_of (jv_get v ''reference''))"

lemma encodeRecord_iff: "encodeRecord P v = Inr e \<longleftrightarrow> validateRecord P v = Inr v \<and> e = envelope_of v"
  by (auto simp: encodeRecord_def bind_r_Inr_iff validateRecord_iff)

text \<open>What a save did: it replaced the record's file, or wrote a new one below both capacities, or refused.\<close>

lemma store_save_cases:
  assumes "store_save P v d = (res, d')"
  obtains (invalid) e where "res = Inl e" "encodeRecord P v = Inl e" "d' = d"
  | (full) "res = Inl exhausted" "record_file P v \<notin> set (recordNames d)" "repaired P d d'"
  | (replaced) "res = Inr ()" "validateRecord P v = Inr v" "record_file P v \<in> set (recordNames d)"
      "d' = map_set d (record_file P v) (envelope_file P v)"
  | (added) d1 where "res = Inr ()" "validateRecord P v = Inr v" "record_file P v \<notin> set (recordNames d)"
      "length (recordNames d) < MAX_ATTEMPTS_GLOBAL" "repaired P d d1"
      "length (filter (owned P d (jv_get v ''ownerKey'')) (recordNames d)) < MAX_ATTEMPTS_PER_OWNER"
      "d' = map_set d1 (record_file P v) (envelope_file P v)"
proof (cases "encodeRecord P v")
  case (Inl e)
  with assms have "res = Inl e" "d' = d" by (simp_all add: store_save_def)
  with Inl invalid show thesis by blast
next
  case (Inr e)
  then have v: "validateRecord P v = Inr v" and e: "e = envelope_of v" by (simp_all add: encodeRecord_iff)
  obtain u d1 where c: "count_owner P (jv_get v ''ownerKey'') 0 (recordNames d) d = (u, d1)"
    by (cases "count_owner P (jv_get v ''ownerKey'') 0 (recordNames d) d")
  note rep = count_owner_repaired [OF c]
  have save: "(res, d') =
      (if record_file P v \<in> set (recordNames d) then (Inr (), map_set d (record_file P v) (envelope_file P v))
       else if MAX_ATTEMPTS_GLOBAL \<le> length (recordNames d) then (Inl exhausted, d)
       else case u of Inl x \<Rightarrow> (Inl x, d1) | Inr _ \<Rightarrow> (Inr (), map_set d1 (record_file P v) (envelope_file P v)))"
    using assms Inr e c
    by (cases u) (simp_all add: store_save_def Let_def envelope_get record_file_def envelope_file_def cong: if_cong)
  have ex: "x = exhausted" if "count_owner P o' n ns d0 = (Inl x, d2)" for x o' n ns d0 d2
    using that by (induction ns arbitrary: n d0) (auto simp: Let_def split: prod.splits if_splits)
  show thesis
  proof (cases "record_file P v \<in> set (recordNames d)")
    case True
    with save replaced v show thesis by simp
  next
    case False
    show thesis
    proof (cases "MAX_ATTEMPTS_GLOBAL \<le> length (recordNames d)")
      case True
      with False save full show thesis by simp
    next
      case below: False
      show thesis
      proof (cases u)
        case (Inl x)
        with ex c have "x = exhausted" by blast
        with Inl False below save full rep show thesis by simp
      next
        case (Inr y)
        have "0 < MAX_ATTEMPTS_PER_OWNER" by (simp add: MAX_ATTEMPTS_PER_OWNER_def)
        with count_owner_ok [OF c [unfolded Inr]] added v False below rep save Inr show thesis by simp
      qed
    qed
  qed
qed

lemma holds_set:
  "holds P (map_set d n f) m r \<longleftrightarrow> (if m = n then readable P n f = Some r else holds P d m r)"
  by (simp add: holds_def)

lemma envelope_file_readable:
  assumes "validateRecord P v = Inr v" "decoder_law P" "pf_json_size P (envelope_of v) \<le> MAX_RECORD_BYTES"
  shows "readable P (record_file P v) (envelope_file P v) = Some (record_of P (envelope_of v))"
proof -
  let ?w = "record_of P (envelope_of v)"
  have "decodeRecord P (envelope_of v) = Inr ?w" by (rule decode_envelope [OF assms(1,2)])
  moreover have "jv_get ?w ''reference'' = jv_get v ''reference''" by (simp add: record_get envelope_get)
  ultimately show ?thesis
    using assms(3) by (simp add: readable_def envelope_file_def record_file_def)
qed

lemma store_save_read:
  assumes "store_save P v d = (Inr (), d')" "decoder_law P"
    and "pf_json_size P (envelope_of v) \<le> MAX_RECORD_BYTES"
  shows "validateRecord P v = Inr v"
    and "store_read P (str_of (jv_get v ''reference'')) d' = (Some (record_of P (envelope_of v)), d')"
    and "n \<noteq> record_file P v \<Longrightarrow> holds P d' n r = holds P d n r"
proof -
  obtain d1 where v: "validateRecord P v = Inr v" and d1: "\<And>n r. holds P d1 n r = holds P d n r"
    and d': "d' = map_set d1 (record_file P v) (envelope_file P v)"
    using assms(1)
  proof (cases rule: store_save_cases)
    case replaced
    then show thesis using that [of d] by blast
  next
    case (added d1)
    show thesis by (rule that [OF added(2) repaired_holds [OF added(5)] added(7)])
  qed simp_all
  show "validateRecord P v = Inr v" by (rule v)
  have "readable P (record_file P v) (envelope_file P v) = Some (record_of P (envelope_of v))"
    by (rule envelope_file_readable [OF v assms(2,3)])
  then show "store_read P (str_of (jv_get v ''reference'')) d' = (Some (record_of P (envelope_of v)), d')"
    by (simp add: store_read_def loadRecord_def d' record_file_def [symmetric])
  show "holds P d' n r = holds P d n r" if "n \<noteq> record_file P v" using that d1 by (simp add: d' holds_set)
qed

text \<open>C15. An attempt that was saved is read back: after a save that succeeded, reading its reference gives the
  record with every field (the byte arrays typed, the reported keys once), and every other record of the
  directory is still there, whatever unreadable files the save removed. The rendered JSON has to be within
  the size the reader accepts.\<close>

theorem saved_attempt_is_read_back:
  assumes "store_save P v d = (Inr (), d')" "decoder_law P"
    and "pf_json_size P (envelope_of v) \<le> MAX_RECORD_BYTES"
  shows "\<exists>w. store_read P (str_of (jv_get v ''reference'')) d' = (Some w, d')
      \<and> (\<forall>k. jv_get w k = canonical v k)
      \<and> (\<forall>n r. n \<noteq> record_file P v \<longrightarrow> holds P d' n r = holds P d n r)"
  using store_save_read [OF assms] record_of_get [OF store_save_read(1) [OF assms] assms(2)] by blast

text \<open>A save that is refused loses nothing: the error is the validation's or the exhausted capacity, every
  record of the directory is still held, and no file has appeared or changed.\<close>

theorem refused_save_loses_nothing:
  assumes "store_save P v d = (Inl e, d')"
  shows "(e = exhausted \<or> (\<exists>m. e = TypeError m)) \<and> (\<forall>n r. holds P d' n r = holds P d n r)
    \<and> (\<forall>n f. map_get d' n = Some f \<longrightarrow> map_get d n = Some f)"
  using assms
proof (cases rule: store_save_cases)
  case (invalid e')
  then have "\<exists>m. e = TypeError m"
    by (auto simp: encodeRecord_def validateRecord_def check_preview_def guard_r_def invalid_record_def bind_r_def
        split: sum.splits if_splits)
  with invalid show ?thesis by simp
next
  case full
  with repaired_holds [OF full(3)] show ?thesis by (simp add: repaired_def)
qed simp_all

section \<open>Capacity\<close>

datatype store_op = OpLoad | OpRead string | OpSave jv | OpDelete jv

fun store_step :: "platform \<Rightarrow> store_op \<Rightarrow> dir \<Rightarrow> dir" where
  "store_step P OpLoad d = snd (store_load P d)"
| "store_step P (OpRead r) d = snd (store_read P r d)"
| "store_step P (OpSave v) d = snd (store_save P v d)"
| "store_step P (OpDelete r) d = snd (store_delete P r d)"

text \<open>A reference belongs to one owner: a save over an existing record keeps its owner.\<close>

definition owner_stable :: "platform \<Rightarrow> store_op \<Rightarrow> dir \<Rightarrow> bool" where
  "owner_stable P op d =
     (case op of
        OpSave v \<Rightarrow> (\<forall>r. holds P d (record_file P v) r \<longrightarrow> jv_get r ''ownerKey'' = jv_get v ''ownerKey'')
      | _ \<Rightarrow> True)"

inductive store_reaches :: "platform \<Rightarrow> dir \<Rightarrow> bool" for P where
  store_empty: "store_reaches P []"
| store_next: "store_reaches P d \<Longrightarrow> owner_stable P op d \<Longrightarrow> store_reaches P (store_step P op d)"

definition owner_count :: "platform \<Rightarrow> dir \<Rightarrow> jv \<Rightarrow> nat" where
  "owner_count P d owner = length (filter (owned P d owner) (recordNames d))"

definition within_capacity :: "platform \<Rightarrow> dir \<Rightarrow> bool" where
  "within_capacity P d \<longleftrightarrow>
     map_ok d \<and> length (recordNames d) \<le> MAX_ATTEMPTS_GLOBAL
     \<and> (\<forall>owner. owner_count P d owner \<le> MAX_ATTEMPTS_PER_OWNER)"

text \<open>The record names of a directory and the owned ones, as sets: \<open>map_ok\<close> makes them distinct.\<close>

lemma recordNames_set: "set (recordNames d) = {n. RECORD_NAME n \<and> map_has d n}"
  by (auto simp: recordNames_def map_has_keys)

lemma owner_count_card:
  assumes "map_ok d"
  shows "owner_count P d owner = card {n. RECORD_NAME n \<and> owned P d owner n}"
proof -
  have "distinct (filter (owned P d owner) (recordNames d))"
    using assms by (simp add: recordNames_def map_ok_keys)
  moreover have "set (filter (owned P d owner) (recordNames d)) = {n. RECORD_NAME n \<and> owned P d owner n}"
    by (auto simp: recordNames_set owned_def holds_def map_has_iff)
  ultimately show ?thesis unfolding owner_count_def by (metis distinct_card)
qed

lemma within_repaired:
  assumes w: "within_capacity P d" and r: "repaired P d d'"
  shows "within_capacity P d'"
proof -
  have ok: "map_ok d" "map_ok d'" using w r by (auto simp: within_capacity_def repaired_def)
  have "owner_count P d' owner = owner_count P d owner" for owner
    by (simp add: owner_count_card ok owned_repaired [OF r])
  with w r ok show ?thesis by (auto simp: within_capacity_def repaired_def)
qed

lemma length_filter_mono: "(\<And>x. P x \<Longrightarrow> Q x) \<Longrightarrow> length (filter P xs) \<le> length (filter Q xs)"
  by (induction xs) (auto intro: le_SucI)

lemma within_delete: "within_capacity P d \<Longrightarrow> within_capacity P (map_delete d n)"
proof -
  assume w: "within_capacity P d"
  have "owned P (map_delete d n) owner m \<Longrightarrow> owned P d owner m" for owner m
    by (auto simp: owned_def holds_def split: if_splits)
  then have "owner_count P (map_delete d n) owner \<le> owner_count P d owner" for owner
    unfolding owner_count_def recordNames_delete filter_filter by (intro length_filter_mono) blast
  moreover have "length (recordNames (map_delete d n)) \<le> length (recordNames d)" by (simp add: recordNames_delete)
  ultimately show ?thesis using w by (auto simp: within_capacity_def intro: order_trans)
qed

text \<open>Every file of a directory that only the store wrote holds a record.\<close>

definition all_readable :: "platform \<Rightarrow> dir \<Rightarrow> bool" where
  "all_readable P d \<longleftrightarrow> (\<forall>n. map_has d n \<longrightarrow> (\<exists>r. holds P d n r))"

definition sizes_fit :: "platform \<Rightarrow> bool" where
  "sizes_fit P \<longleftrightarrow> (\<forall>v. validateRecord P v = Inr v \<longrightarrow> pf_json_size P (envelope_of v) \<le> MAX_RECORD_BYTES)"

lemma all_readable_repaired: "all_readable P d \<Longrightarrow> repaired P d d' \<Longrightarrow> all_readable P d'"
  unfolding all_readable_def repaired_def map_has_iff holds_def by (metis not_None_eq)

lemma all_readable_delete: "all_readable P d \<Longrightarrow> all_readable P (map_delete d n)"
  by (auto simp: all_readable_def holds_def)

lemma written_holds:
  assumes "validateRecord P v = Inr v" "decoder_law P" "sizes_fit P"
  shows "holds P (map_set d (record_file P v) (envelope_file P v)) n r \<longleftrightarrow>
    (if n = record_file P v then r = record_of P (envelope_of v) else holds P d n r)"
  using envelope_file_readable [OF assms(1,2)] assms(1,3) by (auto simp: holds_set sizes_fit_def)

lemma written_owned:
  assumes "validateRecord P v = Inr v" "decoder_law P" "sizes_fit P"
  shows "owned P (map_set d (record_file P v) (envelope_file P v)) owner n \<longleftrightarrow>
    (if n = record_file P v then owner = jv_get v ''ownerKey'' else owned P d owner n)"
  by (auto simp: owned_def written_holds [OF assms] record_get envelope_get)

lemma recordNames_set_length:
  "length (recordNames (map_set d n f)) \<le> (if n \<in> set (recordNames d) then length (recordNames d) else Suc (length (recordNames d)))"
  by (auto simp: recordNames_def map_keys_set map_has_keys)

lemma finite_owned: "finite {n. RECORD_NAME n \<and> owned P d owner n}"
proof (rule finite_subset)
  show "{n. RECORD_NAME n \<and> owned P d owner n} \<subseteq> set (map_keys d)"
    by (auto simp: owned_def holds_def map_has_keys [symmetric] map_has_iff)
qed simp

text \<open>Writing a record counts one more for its owner, unless its file was the owner's already.\<close>

lemma written_count:
  assumes v: "validateRecord P v = Inr v" "decoder_law P" "sizes_fit P" and d: "map_ok d"
  shows "owner_count P (map_set d (record_file P v) (envelope_file P v)) owner \<le>
    (if owner = jv_get v ''ownerKey'' \<and> \<not> owned P d owner (record_file P v)
     then Suc (owner_count P d owner) else owner_count P d owner)"
proof -
  let ?d = "map_set d (record_file P v) (envelope_file P v)"
  let ?A = "{n. RECORD_NAME n \<and> owned P d owner n}" and ?B = "{n. RECORD_NAME n \<and> owned P ?d owner n}"
  have B: "?B \<subseteq> insert (record_file P v) ?A" "owner \<noteq> jv_get v ''ownerKey'' \<Longrightarrow> ?B \<subseteq> ?A"
    by (auto simp: written_owned [OF v])
  have fin: "finite ?A" by (rule finite_owned)
  have "card ?B \<le> card (insert (record_file P v) ?A)" using B(1) fin by (simp add: card_mono)
  also have "\<dots> \<le> Suc (card ?A)" by (rule card_insert_le_m1) (auto simp: card_insert_if fin)
  finally have "card ?B \<le> Suc (card ?A)" .
  moreover have "card ?B \<le> card ?A" if "owner \<noteq> jv_get v ''ownerKey'' \<or> owned P d owner (record_file P v)"
  proof (rule card_mono [OF fin])
    show "?B \<subseteq> ?A" using that B(2) by (auto simp: written_owned [OF v] split: if_splits)
  qed
  ultimately show ?thesis using d by (auto simp: owner_count_card)
qed

lemma within_save:
  assumes P: "decoder_law P" "sizes_fit P" and d: "within_capacity P d" "all_readable P d"
    and st: "owner_stable P (OpSave v) d" and s: "store_save P v d = (res, d')"
  shows "within_capacity P d' \<and> all_readable P d'"
  using s
proof (cases rule: store_save_cases)
  case (invalid e)
  with d show ?thesis by simp
next
  case full
  with d within_repaired all_readable_repaired show ?thesis by blast
next
  case replaced
  let ?n = "record_file P v"
  have "map_has d ?n" using replaced(3) by (simp add: recordNames_set)
  then obtain r where "holds P d ?n r" using d(2) by (auto simp: all_readable_def)
  with st have "owned P d (jv_get v ''ownerKey'') ?n" by (auto simp: owned_def owner_stable_def)
  then have "owner_count P d' owner \<le> owner_count P d owner" for owner
    using written_count [OF replaced(2) P, of d owner] d(1) replaced(4) by (auto simp: within_capacity_def split: if_splits)
  moreover have "length (recordNames d') \<le> length (recordNames d)"
    using recordNames_set_length [of d ?n] replaced(3,4) by auto
  moreover have "all_readable P d'"
    using d(2) by (auto simp: all_readable_def replaced(4) written_holds [OF replaced(2) P])
  ultimately show ?thesis
    using d(1) replaced(4) by (auto simp: within_capacity_def intro: order_trans)
next
  case (added d1)
  let ?n = "record_file P v"
  note w1 = within_repaired [OF d(1) added(5)]
  have cnt: "owner_count P d1 owner = owner_count P d owner" for owner
    using d(1) w1 by (simp add: within_capacity_def owner_count_card owned_repaired [OF added(5)])
  have "owner_count P d' owner \<le> MAX_ATTEMPTS_PER_OWNER" for owner
    using written_count [OF added(2) P, of d1 owner] w1 d(1) added(6,7) cnt [of owner]
    by (auto simp: within_capacity_def owner_count_def split: if_splits intro: order_trans)
  moreover have "length (recordNames d') \<le> MAX_ATTEMPTS_GLOBAL"
  proof -
    have "length (recordNames d') \<le> Suc (length (recordNames d1))"
      using recordNames_set_length [of d1 ?n "envelope_file P v"] added(7) by (auto split: if_splits)
    moreover have "length (recordNames d1) \<le> length (recordNames d)" using added(5) by (simp add: repaired_def)
    ultimately show ?thesis using added(4) by simp
  qed
  moreover have "all_readable P d'"
    using all_readable_repaired [OF d(2) added(5)] by (auto simp: all_readable_def added(7) written_holds [OF added(2) P])
  moreover have "map_ok d'" using w1 added(7) by (simp add: within_capacity_def)
  ultimately show ?thesis by (simp add: within_capacity_def)
qed

lemma load_repaired: "store_load P d = (rs, d') \<Longrightarrow> repaired P d d'"
  by (auto simp: store_load_def split: prod.splits dest: load_all_repaired)

lemma within_step:
  assumes P: "decoder_law P" "sizes_fit P" and d: "within_capacity P d" "all_readable P d"
    and st: "owner_stable P op d"
  shows "within_capacity P (store_step P op d) \<and> all_readable P (store_step P op d)"
proof (cases op)
  case OpLoad
  then show ?thesis
    using load_repaired [of P d "fst (store_load P d)" "snd (store_load P d)"] d within_repaired all_readable_repaired
    by (metis prod.collapse store_step.simps(1))
next
  case (OpRead r)
  have "repaired P d (snd (store_read P r d))"
    unfolding store_read_def by (rule loadRecord_repaired) (rule prod.collapse [symmetric])
  with OpRead d within_repaired all_readable_repaired show ?thesis by simp
next
  case (OpSave v)
  obtain res d' where s: "store_save P v d = (res, d')" by (cases "store_save P v d")
  with within_save [OF P d _ s] st OpSave show ?thesis by simp
next
  case (OpDelete r)
  with d within_delete all_readable_delete show ?thesis by (auto simp: store_delete_def Let_def)
qed


section \<open>A concrete attempt\<close>

definition demo_platform :: platform where
  "demo_platform = \<lparr>pf_digest = (\<lambda>_. replicate 64 (CHR ''a'')), pf_digestText = (\<lambda>_. replicate 64 (CHR ''b'')),
     pf_parseUrl = (\<lambda>_. None), pf_b64_decode = b64_read, pf_json_size = (\<lambda>_. 1000)\<rparr>"

definition demo_attempt :: jv where
  "demo_attempt = VObj [(''reference'', VStr ''SHR-0123ABCD''), (''attemptId'', VStr (replicate 32 (CHR ''0''))),
     (''ownerKey'', VStr ''owner''), (''threadId'', VNum (NInt 4)), (''sourceThreadId'', VStr ''thread-4''),
     (''title'', VStr ''A title''), (''snapshotBytes'', VBytes [123, 125, 10]), (''createdAt'', VNum (NInt 5)),
     (''lastFailure'', VNull), (''reportedFailures'', VArr [VStr ''upload:x'', VStr ''upload:x'']),
     (''publishedUrl'', VNull)]"

lemma demo_decoder: "decoder_law demo_platform"
  by (simp add: decoder_law_def demo_platform_def)

lemma demo_sizes: "sizes_fit demo_platform"
  by (simp add: sizes_fit_def demo_platform_def MAX_RECORD_BYTES_def)

lemma demo_attempt_get:
  "jv_get demo_attempt ''reference'' = VStr ''SHR-0123ABCD''" "jv_get demo_attempt ''lastFailure'' = VNull"
  "jv_get demo_attempt ''attemptId'' = VStr (replicate 32 (CHR ''0''))" "jv_get demo_attempt ''ownerKey'' = VStr ''owner''"
  "jv_get demo_attempt ''threadId'' = VNum (NInt 4)" "jv_get demo_attempt ''sourceThreadId'' = VStr ''thread-4''"
  "jv_get demo_attempt ''title'' = VStr ''A title''" "jv_get demo_attempt ''snapshotBytes'' = VBytes [123, 125, 10]"
  "jv_get demo_attempt ''createdAt'' = VNum (NInt 5)" "jv_get demo_attempt ''publishedUrl'' = VNull"
  "jv_get demo_attempt ''reportedFailures'' = VArr [VStr ''upload:x'', VStr ''upload:x'']"
  "jv_get demo_attempt ''preview'' = VUndef" "jv_get demo_attempt ''previewBytes'' = VUndef"
  by (simp_all add: demo_attempt_def)

lemma demo_attempt_fields: "valid_fields demo_attempt"
proof -
  have "exactKeys demo_attempt record_keys [''preview'', ''previewBytes'']"
    by (simp add: demo_attempt_def exactKeys_def record_keys_def is_obj_def jv_has_def jv_keys_def)
  moreover have "validReference ''SHR-0123ABCD''"
    by (simp add: validReference_def upper_alnum_def is_digit_def)
  moreover have "list_all hex_lower (replicate 32 (CHR ''0''))"
    by (simp add: list_all_iff hex_lower_def is_digit_def)
  ultimately show ?thesis
    by (simp add: valid_fields_def demo_attempt_get str_ok_def int_ok_def is_safe_integer_def max_safe_def num_val_def
        MAX_SNAPSHOT_BYTES_def validFailure_def valid_reported_def)
qed

lemma demo_attempt_valid: "validateRecord demo_platform demo_attempt = Inr demo_attempt"
  using demo_attempt_fields
  by (simp add: validateRecord_iff check_preview_def valid_state_def demo_attempt_get validPublishedUrl_def demo_platform_def)

lemma demo_save: "fst (store_save demo_platform demo_attempt []) = Inr ()"
  using demo_attempt_valid
  by (simp add: store_save_def encodeRecord_def Let_def recordNames_def MAX_ATTEMPTS_GLOBAL_def)

theorem envelope_roundtrip_witness:
  "\<exists>e w. encodeRecord demo_platform demo_attempt = Inr e \<and> decodeRecord demo_platform e = Inr w
     \<and> jv_get w ''reportedFailures'' = VArr [VStr ''upload:x'']"
proof -
  have "canonical demo_attempt ''reportedFailures'' = VArr [VStr ''upload:x'']"
    by (simp add: canonical_def demo_attempt_get array_of_def first_unique_def)
  with envelope_roundtrip [OF demo_attempt_valid demo_decoder] show ?thesis by metis
qed

theorem saved_attempt_is_read_back_witness:
  "\<exists>d' w. store_save demo_platform demo_attempt [] = (Inr (), d')
     \<and> store_read demo_platform ''SHR-0123ABCD'' d' = (Some w, d') \<and> jv_get w ''title'' = VStr ''A title''"
proof -
  obtain d' where d: "store_save demo_platform demo_attempt [] = (Inr (), d')"
    using demo_save by (cases "store_save demo_platform demo_attempt []") auto
  have sz: "pf_json_size demo_platform (envelope_of demo_attempt) \<le> MAX_RECORD_BYTES"
    by (simp add: demo_platform_def MAX_RECORD_BYTES_def)
  have c: "canonical demo_attempt ''title'' = VStr ''A title''"
    and r: "str_of (jv_get demo_attempt ''reference'') = ''SHR-0123ABCD''"
    by (simp_all add: canonical_def demo_attempt_get str_of_def)
  obtain w where w: "store_read demo_platform (str_of (jv_get demo_attempt ''reference'')) d' = (Some w, d')"
    "\<forall>k. jv_get w k = canonical demo_attempt k"
    using saved_attempt_is_read_back [OF d demo_decoder sz] by blast
  from w(2) c have "jv_get w ''title'' = VStr ''A title''" by metis
  with w(1) r d show ?thesis by auto
qed

theorem refused_save_loses_nothing_witness:
  "\<exists>e d'. store_save demo_platform (VObj []) [] = (Inl e, d') \<and> map_get d' ''x'' = None"
proof -
  have "\<exists>e. store_save demo_platform (VObj []) [] = (Inl e, [])"
    by (simp add: store_save_def encodeRecord_def validateRecord_def valid_fields_def exactKeys_def record_keys_def
        jv_has_def jv_keys_def guard_r_def)
  then obtain e where e: "store_save demo_platform (VObj []) [] = (Inl e, [])" by blast
  have "map_get ([] :: dir) ''x'' = None"
    using refused_save_loses_nothing [OF e] by simp
  with e show ?thesis by blast
qed


end
