(* ===== verification/ShareCoordinator.thy ===== *)
theory ShareCoordinator
  imports ShareAttemptStore
begin

text \<open>
  The authority for share attempts (\<open>desktop/main/services/share-publish-coordinator.mjs\<close>), over the durable
  store of \<open>ShareAttemptStore\<close> as \<open>main/index.mjs\<close> wires it. The coordinator's closure is the record
  \<open>coordinator\<close>: the attempts, the reference of the one publication that is in flight, the store's directory
  and the telemetry sent so far. What the awaited services answer is an argument of each operation: the
  account session, the exporter, the publisher, and whether a write of the store fails in the file system.

  A call that publishes is two steps. \<open>run_begin\<close> is everything up to the first \<open>await\<close>, with the guards and
  the flags; \<open>run_settle\<close> is the rest, and may come after any number of other calls. Between the two the attempt
  is \<open>running\<close>, and no other operation touches a running attempt. \<open>dismiss\<close> is split in the same way.
\<close>

section \<open>Errors and failures\<close>

record share_error =
  er_abort :: bool
  er_code :: "string option"
  er_resetAt :: "string option"
  er_stage :: "string option"

definition plain_error :: share_error where
  "plain_error = \<lparr>er_abort = False, er_code = None, er_resetAt = None, er_stage = None\<rparr>"

definition coded :: "string \<Rightarrow> share_error" where
  "coded c = plain_error\<lparr>er_code := Some c\<rparr>"

definition NON_REPORTED_CODES :: "string list" where
  "NON_REPORTED_CODES =
     [''reusable_invocation_portability_unavailable'', ''share_cancelled'', ''share_sign_in_required'',
      ''share_imported_conversation'', ''share_no_accepted_completion'', ''share_title_required'',
      ''share_title_too_long'', ''daily_quota_exhausted'', ''reservation_limit_exhausted'',
      ''share_attempt_unavailable'']"

definition CLOSED_FAILURE_CODES :: "string list" where
  "CLOSED_FAILURE_CODES =
     [''share_cancelled'', ''share_sign_in_required'', ''share_imported_conversation'',
      ''share_no_accepted_completion'', ''share_title_required'', ''share_title_too_long'',
      ''share_snapshot_too_large'', ''share_export_failed'', ''reusable_invocation_portability_unavailable'',
      ''share_upload_failed'', ''share_service_failed'', ''daily_quota_exhausted'',
      ''reservation_limit_exhausted'', ''share_attempt_unavailable'']"

definition FINAL_CODES :: "string list" where
  "FINAL_CODES =
     [''share_imported_conversation'', ''share_no_accepted_completion'', ''share_title_required'',
      ''share_title_too_long'', ''share_snapshot_too_large'', ''share_export_failed'',
      ''reusable_invocation_portability_unavailable'', ''daily_quota_exhausted'', ''reservation_limit_exhausted'',
      ''share_sign_in_required'', ''share_attempt_unavailable'']"

record failure =
  fa_reference :: string
  fa_code :: string
  fa_retryable :: bool
  fa_resetAt :: "string option"

datatype outcome = Failure failure | Created string jv | DismissedAttempt string | Ready

definition failureCode :: "share_error \<Rightarrow> string" where
  "failureCode e =
     (if er_abort e then ''share_cancelled''
      else if er_code e = Some ''snapshot_too_large'' then ''share_snapshot_too_large''
      else case er_code e of
             None \<Rightarrow> ''share_service_failed''
           | Some c \<Rightarrow> if c \<in> set CLOSED_FAILURE_CODES then c else ''share_service_failed'')"

definition closedFailure :: "share_error \<Rightarrow> string \<Rightarrow> failure" where
  "closedFailure e reference =
     (let code = failureCode e in
      \<lparr>fa_reference = reference, fa_code = code, fa_retryable = code \<notin> set FINAL_CODES,
       fa_resetAt = (if code = ''daily_quota_exhausted'' \<and> truthy_str (er_resetAt e) then er_resetAt e else None)\<rparr>)"

definition unavailable :: "string \<Rightarrow> bool \<Rightarrow> failure" where
  "unavailable reference retryable =
     \<lparr>fa_reference = reference, fa_code = ''share_attempt_unavailable'', fa_retryable = retryable, fa_resetAt = None\<rparr>"

text \<open>The telemetry of an error, as far as it identifies the event: its stage and its code.\<close>

definition telemetryRecord :: "share_error \<Rightarrow> (string \<times> string) option" where
  "telemetryRecord e =
     (let code = failureCode e in
      if code \<in> set NON_REPORTED_CODES then None
      else if code = ''share_snapshot_too_large'' then Some (''export'', ''share.snapshot_too_large'')
      else if er_stage e = Some ''upload'' then Some (''upload'', ''share.upload_failed'')
      else if er_stage e = Some ''export'' then Some (''export'', ''share.export_failed'')
      else Some (''service'', ''share.service_failed''))"

section \<open>Accounts\<close>

record account =
  ac_ownerKey :: string
  ac_authorization :: string
  ac_generation :: jsnum

definition exactAccount :: "account option \<Rightarrow> share_error + account" where
  "exactAccount a =
     (case a of
        None \<Rightarrow> Inl (coded ''share_sign_in_required'')
      | Some x \<Rightarrow>
          if ac_ownerKey x = '''' \<or> ac_authorization x = '''' \<or> \<not> is_safe_integer (ac_generation x)
             \<or> num_val (ac_generation x) < 1
          then Inl (coded ''share_sign_in_required'') else Inr x)"

type_synonym session = "share_error + account option"

definition account_of :: "session \<Rightarrow> share_error + account" where
  "account_of s = bind_r s exactAccount"

section \<open>Snapshots\<close>

record share_platform = platform +
  pf_decodeUtf8 :: "byte list \<Rightarrow> string option"
  pf_headerProject :: "string \<Rightarrow> string option option"

record metadata =
  md_byteLength :: nat
  md_lineCount :: nat
  md_sha256 :: string
  md_projectName :: "string option"

fun split_lines :: "string \<Rightarrow> string list" where
  "split_lines [] = [[]]"
| "split_lines (c # cs) =
     (if c = CHR 0x0A then [] # split_lines cs
      else case split_lines cs of [] \<Rightarrow> [[c]] | l # ls \<Rightarrow> (c # l) # ls)"

definition snapshot_lines :: "string \<Rightarrow> string list" where
  "snapshot_lines txt = split_lines (if txt \<noteq> [] \<and> last txt = CHR 0x0A then butlast txt else txt)"

text \<open>\<open>None\<close> is a throw: bytes that are no UTF-8, or a first line that is no JSON.\<close>

definition snapshotMetadata :: "share_platform \<Rightarrow> byte list \<Rightarrow> metadata option" where
  "snapshotMetadata P bs =
     (case pf_decodeUtf8 P bs of
        None \<Rightarrow> None
      | Some txt \<Rightarrow>
          (case pf_headerProject P (hd (snapshot_lines txt)) of
             None \<Rightarrow> None
           | Some project \<Rightarrow>
               Some \<lparr>md_byteLength = length bs, md_lineCount = length (snapshot_lines txt),
                 md_sha256 = pf_digest P bs, md_projectName = project\<rparr>))"

section \<open>Attempts\<close>

record share_attempt =
  sh_reference :: string
  sh_attemptId :: string
  sh_ownerKey :: string
  sh_threadId :: int
  sh_sourceThreadId :: string
  sh_title :: string
  sh_snapshotBytes :: "byte list option"
  sh_preview :: jv
  sh_previewBytes :: "byte list option"
  sh_metadata :: "metadata option"
  sh_createdAt :: int
  sh_lastFailure :: "failure option"
  sh_reportedFailures :: "string list"
  sh_completed :: bool
  sh_failureOnly :: bool
  sh_publishedUrl :: jv
  sh_running :: bool
  sh_dismissing :: bool
  sh_lazy :: bool

definition failure_jv :: "failure option \<Rightarrow> jv" where
  "failure_jv f =
     (case f of
        None \<Rightarrow> VNull
      | Some x \<Rightarrow> VObj ([(''status'', VStr ''failed''), (''attemptReferenceId'', VStr (fa_reference x)),
          (''code'', VStr (fa_code x)), (''retryable'', VBool (fa_retryable x))]
          @ (case fa_resetAt x of None \<Rightarrow> [] | Some r \<Rightarrow> [(''resetAt'', VStr r)])))"

text \<open>\<open>new Uint8Array(bytes)\<close> of \<open>null\<close> is empty.\<close>

definition some_bytes :: "byte list option \<Rightarrow> byte list" where
  "some_bytes b = (case b of None \<Rightarrow> [] | Some bs \<Rightarrow> bs)"

definition persistedRecord :: "share_attempt \<Rightarrow> jv" where
  "persistedRecord a = VObj (
     [(''reference'', VStr (sh_reference a)), (''attemptId'', VStr (sh_attemptId a)),
      (''ownerKey'', VStr (sh_ownerKey a)), (''threadId'', VNum (NInt (sh_threadId a))),
      (''sourceThreadId'', VStr (sh_sourceThreadId a)),
      (''title'', VStr (if sh_completed a then '''' else sh_title a)),
      (''snapshotBytes'', if sh_completed a then VArr [] else VBytes (some_bytes (sh_snapshotBytes a)))]
     @ (if jv_truthy (sh_preview a)
        then [(''preview'', sh_preview a),
              (''previewBytes'', if sh_completed a then VArr [] else VBytes (some_bytes (sh_previewBytes a)))]
        else [])
     @ [(''createdAt'', VNum (NInt (sh_createdAt a))),
        (''lastFailure'', failure_jv (sh_lastFailure a)),
        (''reportedFailures'', VArr (map VStr (sh_reportedFailures a))),
        (''publishedUrl'', sh_publishedUrl a)])"

definition restored_failure :: "jv \<Rightarrow> string \<Rightarrow> failure option" where
  "restored_failure f reference =
     (if is_obj f \<and> jv_get f ''status'' = VStr ''failed'' \<and> jv_get f ''attemptReferenceId'' = VStr reference
         \<and> str_ok (\<lambda>c. c \<in> set CLOSED_FAILURE_CODES) (jv_get f ''code'') \<and> is_bool (jv_get f ''retryable'')
      then Some \<lparr>fa_reference = reference, fa_code = str_of (jv_get f ''code''),
             fa_retryable = (jv_get f ''retryable'' = VBool True),
             fa_resetAt = (if str_ok (\<lambda>s. s \<noteq> []) (jv_get f ''resetAt'') then Some (str_of (jv_get f ''resetAt'')) else None)\<rparr>
      else None)"

definition restorable :: "jv \<Rightarrow> bool" where
  "restorable v \<longleftrightarrow>
     is_obj v \<and> str_ok validReference (jv_get v ''reference'')
     \<and> str_ok (\<lambda>s. length s = 32 \<and> list_all hex_lower s) (jv_get v ''attemptId'')
     \<and> str_ok (\<lambda>s. s \<noteq> []) (jv_get v ''ownerKey'')
     \<and> int_ok (\<lambda>n. n > 0) (jv_get v ''threadId'')
     \<and> str_ok (\<lambda>s. s \<noteq> []) (jv_get v ''sourceThreadId'')
     \<and> str_ok (\<lambda>_. True) (jv_get v ''title'')
     \<and> is_bytes (jv_get v ''snapshotBytes'')
     \<and> (case jv_get v ''snapshotBytes'' of VArr bs \<Rightarrow> \<not> list_ex bad_byte bs | _ \<Rightarrow> True)
     \<and> int_ok (\<lambda>n. n \<ge> 0) (jv_get v ''createdAt'')
     \<and> (case jv_get v ''reportedFailures'' of VArr ks \<Rightarrow> list_all (str_ok (\<lambda>s. length s \<le> 128)) ks | _ \<Rightarrow> False)"

definition int_of :: "jv \<Rightarrow> int" where
  "int_of v = (case v of VNum n \<Rightarrow> num_val n | _ \<Rightarrow> 0)"

definition failure_only :: "jv \<Rightarrow> byte list \<Rightarrow> failure option \<Rightarrow> bool" where
  "failure_only url bs f \<longleftrightarrow>
     url = VNull \<and> bs = []
     \<and> (case f of None \<Rightarrow> False
        | Some x \<Rightarrow> \<not> fa_retryable x \<and> (fa_code x = ''share_snapshot_too_large'' \<or> fa_code x = ''share_export_failed''))"

definition restoredRecord :: "share_platform \<Rightarrow> jv \<Rightarrow> share_attempt option" where
  "restoredRecord P v =
     (if \<not> restorable v then None
      else
        let bs = bytes_of (jv_get v ''snapshotBytes'');
            url = (if validPublishedUrl (platform.truncate P) (jv_get v ''publishedUrl'') then jv_get v ''publishedUrl'' else VNull);
            reference = str_of (jv_get v ''reference'');
            f = restored_failure (jv_get v ''lastFailure'') reference;
            only = failure_only url bs f;
            md = snapshotMetadata P bs in
        if url = VNull \<and> \<not> only \<and> md = None then None
        else Some
          \<lparr>sh_reference = reference, sh_attemptId = str_of (jv_get v ''attemptId''),
           sh_ownerKey = str_of (jv_get v ''ownerKey''), sh_threadId = int_of (jv_get v ''threadId''),
           sh_sourceThreadId = str_of (jv_get v ''sourceThreadId''), sh_title = str_of (jv_get v ''title''),
           sh_snapshotBytes = Some bs,
           sh_preview = (if jv_truthy (jv_get v ''preview'') then jv_get v ''preview'' else VUndef),
           sh_previewBytes = (if jv_truthy (jv_get v ''preview'') then Some (bytes_of (jv_get v ''previewBytes'')) else None),
           sh_metadata = (if url = VNull \<and> \<not> only then md else None),
           sh_createdAt = int_of (jv_get v ''createdAt''), sh_lastFailure = f,
           sh_reportedFailures = first_unique (map str_of (array_of (jv_get v ''reportedFailures''))),
           sh_completed = (url \<noteq> VNull), sh_failureOnly = only, sh_publishedUrl = url,
           sh_running = False, sh_dismissing = False, sh_lazy = False\<rparr>)"

section \<open>The coordinator\<close>

record coordinator =
  co_attempts :: "(string, share_attempt) jsmap"
  co_loaded :: bool
  co_active :: "string option"
  co_dir :: dir
  co_sent :: "(string \<times> string) list"

definition createSharePublishCoordinator :: "dir \<Rightarrow> coordinator" where
  "createSharePublishCoordinator d = \<lparr>co_attempts = [], co_loaded = False, co_active = None, co_dir = d, co_sent = []\<rparr>"

definition remember :: "share_attempt \<Rightarrow> coordinator \<Rightarrow> coordinator" where
  "remember a c = c\<lparr>co_attempts := map_set (co_attempts c) (sh_reference a) a\<rparr>"

definition forget :: "string \<Rightarrow> coordinator \<Rightarrow> coordinator" where
  "forget reference c = c\<lparr>co_attempts := map_delete (co_attempts c) reference\<rparr>"

text \<open>\<open>attemptStore.save(persistedRecord(record))\<close>; the flag says whether the file system lets it write.\<close>

definition save :: "share_platform \<Rightarrow> bool \<Rightarrow> share_attempt \<Rightarrow> coordinator \<Rightarrow> bool \<times> coordinator" where
  "save P io a c =
     (if \<not> io then (False, c)
      else case store_save (platform.truncate P) (persistedRecord a) (co_dir c) of
             (Inl _, d) \<Rightarrow> (False, c\<lparr>co_dir := d\<rparr>)
           | (Inr _, d) \<Rightarrow> (True, c\<lparr>co_dir := d\<rparr>))"

definition delete_file :: "share_platform \<Rightarrow> string \<Rightarrow> coordinator \<Rightarrow> coordinator" where
  "delete_file P reference c = c\<lparr>co_dir := snd (store_delete (platform.truncate P) (VStr reference) (co_dir c))\<rparr>"

section \<open>Loading\<close>

text \<open>\<open>restore(value, true)\<close> for every record of the store: an attempt that is not completed drops its bytes and
  becomes lazy; a record that cannot be restored is deleted. Then the staged attempts are remembered.\<close>

definition lazily :: "share_attempt \<Rightarrow> share_attempt" where
  "lazily a =
     (if sh_completed a then a
      else a\<lparr>sh_snapshotBytes := None, sh_previewBytes := (if jv_truthy (sh_preview a) then None else sh_previewBytes a),
             sh_lazy := True\<rparr>)"

fun restore_all ::
  "share_platform \<Rightarrow> jv list \<Rightarrow> (string, share_attempt) jsmap \<Rightarrow> coordinator \<Rightarrow> (string, share_attempt) jsmap \<times> coordinator" where
  "restore_all P [] staged c = (staged, c)"
| "restore_all P (v # vs) staged c =
     (case restoredRecord P v of
        Some a \<Rightarrow> restore_all P vs (map_set staged (sh_reference a) (lazily a)) c
      | None \<Rightarrow>
          restore_all P vs staged
            (case jv_get v ''reference'' of VStr r \<Rightarrow> delete_file P r c | _ \<Rightarrow> c))"

definition ensureLoaded :: "share_platform \<Rightarrow> coordinator \<Rightarrow> coordinator" where
  "ensureLoaded P c =
     (if co_loaded c then c
      else
        case load_all (platform.truncate P) (recordNames (co_dir c)) (co_dir c) of (vs, d) \<Rightarrow>
          case restore_all P vs [] (c\<lparr>co_dir := d, co_loaded := True\<rparr>) of (staged, c') \<Rightarrow>
            fold remember (map_values staged) c')"

section \<open>Telemetry\<close>

text \<open>\<open>report(error, reference, reporter, attempt)\<close> for an attempt; without a reporter or an attempt nothing is
  sent. The key is saved first, so that a restart does not send it again.\<close>

definition report_key :: "string \<times> string \<Rightarrow> string" where
  "report_key r = fst r @ '':'' @ snd r"

definition report ::
  "share_platform \<Rightarrow> share_error \<Rightarrow> bool \<Rightarrow> bool \<Rightarrow> share_attempt \<Rightarrow> coordinator \<Rightarrow> share_attempt \<times> coordinator" where
  "report P e reporter io a c =
     (case telemetryRecord e of
        None \<Rightarrow> (a, c)
      | Some r \<Rightarrow>
          let key = report_key r in
          if \<not> reporter \<or> key \<in> set (sh_reportedFailures a) then (a, c)
          else
            let a' = a\<lparr>sh_reportedFailures := sh_reportedFailures a @ [key]\<rparr> in
            case save P io a' c of
              (True, c') \<Rightarrow> (a', c'\<lparr>co_sent := co_sent c' @ [(sh_reference a, key)]\<rparr>)
            | (False, c') \<Rightarrow> (a, c'))"

section \<open>Running an attempt\<close>

definition run_begin :: "string \<Rightarrow> share_attempt \<Rightarrow> coordinator \<Rightarrow> outcome option \<times> coordinator" where
  "run_begin reference a c =
     (if sh_failureOnly a
      then (Some (Failure (case sh_lastFailure a of Some f \<Rightarrow> f | None \<Rightarrow> unavailable reference False)), c)
      else if sh_running a \<or> sh_dismissing a then (Some (Failure (unavailable reference False)), c)
      else if sh_lazy a \<and> co_active c \<noteq> None
        then (Some (Failure (unavailable reference True)), remember (a\<lparr>sh_snapshotBytes := None\<rparr>) c)
      else
        (None, remember (a\<lparr>sh_running := True\<rparr>) (c\<lparr>co_active := (if sh_lazy a then Some reference else co_active c)\<rparr>)))"

text \<open>What the awaited services answer while an attempt runs.\<close>

record run_answers =
  ra_readFails :: "share_error option"
  ra_session1 :: session
  ra_publish :: "share_error + jv option"
  ra_session2 :: session
  ra_saveIo :: bool
  ra_session3 :: session
  ra_failureSaveIo :: bool
  ra_reporter :: bool
  ra_reportIo :: bool

definition assertAuthority :: "share_attempt \<Rightarrow> jsnum \<Rightarrow> session \<Rightarrow> share_error + account" where
  "assertAuthority a generation s =
     bind_r (account_of s) (\<lambda>current.
       if ac_ownerKey current \<noteq> sh_ownerKey a \<or> ac_generation current \<noteq> generation
       then Inl (coded ''share_sign_in_required'') else Inr current)"

text \<open>The lazy read of the frozen bytes: \<open>None\<close> means that the record is gone from the store.\<close>

definition read_frozen ::
  "share_platform \<Rightarrow> run_answers \<Rightarrow> share_attempt \<Rightarrow> coordinator \<Rightarrow> (share_error + share_attempt option) \<times> coordinator" where
  "read_frozen P ans a c =
     (if \<not> (sh_lazy a \<and> sh_snapshotBytes a = None) then (Inr (Some a), c)
      else
        case ra_readFails ans of
          Some e \<Rightarrow> (Inl e, c)
        | None \<Rightarrow>
            (case store_read (platform.truncate P) (sh_reference a) (co_dir c) of
               (None, d) \<Rightarrow> (Inr None, c\<lparr>co_dir := d\<rparr>)
             | (Some saved, d) \<Rightarrow>
                 (if jv_get saved ''preview'' \<noteq> sh_preview a
                     \<or> (jv_truthy (sh_preview a)
                        \<and> VStr (pf_digest P (bytes_of (jv_get saved ''previewBytes''))) \<noteq> jv_get (sh_preview a) ''sha256'')
                  then Inl (coded ''share_attempt_unavailable'')
                  else Inr (Some (a\<lparr>sh_snapshotBytes := Some (bytes_of (jv_get saved ''snapshotBytes'')),
                         sh_previewBytes := (if jv_truthy (sh_preview a) then Some (bytes_of (jv_get saved ''previewBytes''))
                                             else sh_previewBytes a)\<rparr>)),
                  c\<lparr>co_dir := d\<rparr>)))"

definition published_url :: "share_platform \<Rightarrow> share_error + jv option \<Rightarrow> share_error + jv" where
  "published_url P reply =
     bind_r reply (\<lambda>r. case r of
         None \<Rightarrow> Inl plain_error
       | Some url \<Rightarrow> if validPublishedUrl (platform.truncate P) url then Inr url else Inl plain_error)"

text \<open>The \<open>try\<close> body from the authority check to the second one: the published URL, or the first error.\<close>

definition publish_once :: "share_platform \<Rightarrow> run_answers \<Rightarrow> jsnum \<Rightarrow> share_attempt \<Rightarrow> share_error + jv" where
  "publish_once P ans generation a =
     bind_r (assertAuthority a generation (ra_session1 ans)) (\<lambda>_.
     bind_r (published_url P (ra_publish ans)) (\<lambda>url.
     bind_r (assertAuthority a generation (ra_session2 ans)) (\<lambda>_. Inr url)))"

definition failed_attempt :: "share_attempt \<Rightarrow> failure \<Rightarrow> share_attempt" where
  "failed_attempt a f = a\<lparr>sh_completed := False, sh_publishedUrl := VNull, sh_lastFailure := Some f\<rparr>"

definition completed_attempt :: "share_attempt \<Rightarrow> jv \<Rightarrow> share_attempt" where
  "completed_attempt a url = a\<lparr>sh_completed := True, sh_publishedUrl := url, sh_lastFailure := None\<rparr>"

text \<open>The \<open>catch\<close> branch.\<close>

definition run_failed ::
  "share_platform \<Rightarrow> run_answers \<Rightarrow> share_error \<Rightarrow> share_attempt \<Rightarrow> coordinator \<Rightarrow> outcome \<times> share_attempt \<times> coordinator" where
  "run_failed P ans e a c =
     (let f = closedFailure e (sh_reference a);
          a1 = failed_attempt a f;
          c1 = snd (save P (ra_failureSaveIo ans) a1 c) in
      case report P e (ra_reporter ans) (ra_reportIo ans) a1 c1 of (a2, c2) \<Rightarrow> (Failure f, a2, c2))"

text \<open>The \<open>finally\<close> branch.\<close>

definition run_finally :: "share_attempt \<Rightarrow> share_attempt" where
  "run_finally a =
     (let a1 = a\<lparr>sh_running := False\<rparr> in
      if sh_lazy a \<or> sh_completed a then a1\<lparr>sh_snapshotBytes := None, sh_previewBytes := None\<rparr> else a1)"

definition release :: "string \<Rightarrow> coordinator \<Rightarrow> coordinator" where
  "release reference c = (if co_active c = Some reference then c\<lparr>co_active := None\<rparr> else c)"

definition run_body ::
  "share_platform \<Rightarrow> run_answers \<Rightarrow> jsnum \<Rightarrow> share_attempt \<Rightarrow> coordinator \<Rightarrow> outcome \<times> share_attempt \<times> coordinator" where
  "run_body P ans generation a c =
     (case publish_once P ans generation a of
        Inl e \<Rightarrow> run_failed P ans e a c
      | Inr url \<Rightarrow>
          let a1 = completed_attempt a url in
          (case save P (ra_saveIo ans) a1 c of
             (False, c1) \<Rightarrow> run_failed P ans plain_error a1 c1
           | (True, c1) \<Rightarrow>
               (case assertAuthority a1 generation (ra_session3 ans) of
                  Inl e \<Rightarrow> (Failure (closedFailure e (sh_reference a)), a1, c1)
                | Inr _ \<Rightarrow> (Created (sh_reference a) url, a1, c1))))"

definition run_settle ::
  "share_platform \<Rightarrow> run_answers \<Rightarrow> jsnum \<Rightarrow> string \<Rightarrow> coordinator \<Rightarrow> outcome \<times> coordinator" where
  "run_settle P ans generation reference c =
     (case map_get (co_attempts c) reference of
        None \<Rightarrow> (Failure (unavailable reference False), c)
      | Some a \<Rightarrow>
          (case read_frozen P ans a c of
             (Inr None, c1) \<Rightarrow>
               (Failure (unavailable reference False), release reference (forget reference (delete_file P reference c1)))
           | (Inl e, c1) \<Rightarrow>
               (case run_failed P ans e a c1 of (r, a2, c2) \<Rightarrow> (r, release reference (remember (run_finally a2) c2)))
           | (Inr (Some a1), c1) \<Rightarrow>
               (case run_body P ans generation a1 c1 of (r, a2, c2) \<Rightarrow>
                  (r, release reference (remember (run_finally a2) c2)))))"

section \<open>Preflight and creation\<close>

text \<open>What the services answer to a preflight or a creation: the fresh ids and the time, the sessions, the
  identity of the source thread, the exporter and the preview capture.\<close>

record create_answers =
  ca_reference :: string
  ca_attemptId :: string
  ca_now :: int
  ca_session1 :: session
  ca_sourceThread :: "share_error + string"
  ca_aborted :: bool
  ca_export :: "share_error + byte list"
  ca_capture :: "(share_error + byte list) option"
  ca_theme :: string
  ca_session2 :: session
  ca_preflight :: "share_error + unit"
  ca_session3 :: session
  ca_saveIo :: bool
  ca_reporter :: bool
  ca_reportIo :: bool

definition valid_thread :: "jsnum \<Rightarrow> bool" where
  "valid_thread t \<longleftrightarrow> is_safe_integer t \<and> num_val t > 0"

definition same_account :: "account \<Rightarrow> account \<Rightarrow> bool" where
  "same_account a b \<longleftrightarrow> ac_ownerKey b = ac_ownerKey a \<and> ac_generation b = ac_generation a"

definition check_account :: "account \<Rightarrow> session \<Rightarrow> share_error + account" where
  "check_account account s =
     bind_r (account_of s) (\<lambda>current.
       if same_account account current then Inr current else Inl (coded ''share_sign_in_required''))"

text \<open>A record of an export that failed for good: no bytes, only the failure.\<close>

definition failure_record :: "create_answers \<Rightarrow> account \<Rightarrow> int \<Rightarrow> string \<Rightarrow> string \<Rightarrow> failure \<Rightarrow> share_attempt" where
  "failure_record ans account threadId sourceThreadId title f =
     \<lparr>sh_reference = ca_reference ans, sh_attemptId = ca_attemptId ans, sh_ownerKey = ac_ownerKey account,
      sh_threadId = threadId, sh_sourceThreadId = sourceThreadId, sh_title = title, sh_snapshotBytes = Some [],
      sh_preview = VUndef, sh_previewBytes = None, sh_metadata = None, sh_createdAt = ca_now ans,
      sh_lastFailure = Some f, sh_reportedFailures = [], sh_completed = False, sh_failureOnly = True,
      sh_publishedUrl = VNull, sh_running = False, sh_dismissing = False, sh_lazy = False\<rparr>"

definition durable_code :: "string \<Rightarrow> bool" where
  "durable_code code \<longleftrightarrow> code = ''share_snapshot_too_large'' \<or> code = ''share_export_failed''"

text \<open>The \<open>catch\<close> of both calls: an export failure is frozen as a record of its own and reported under it.\<close>

definition freeze_failure ::
  "share_platform \<Rightarrow> create_answers \<Rightarrow> share_error \<Rightarrow> (account \<times> string) option \<Rightarrow> int \<Rightarrow> string \<Rightarrow> failure \<Rightarrow> coordinator \<Rightarrow> coordinator" where
  "freeze_failure P ans e known threadId title f c =
     (case known of
        None \<Rightarrow> c
      | Some (account, source) \<Rightarrow>
          if \<not> durable_code (fa_code f) then c
          else
            let a = failure_record ans account threadId source title f in
            case save P (ca_saveIo ans) a c of
              (False, c1) \<Rightarrow> c1
            | (True, c1) \<Rightarrow>
                (case report P e (ca_reporter ans) (ca_reportIo ans) a (remember a c1) of
                   (a2, c2) \<Rightarrow> remember a2 c2))"

text \<open>The awaited prefix of both calls; the \<open>Some\<close> of an error is what the \<open>catch\<close> branch knows by then.\<close>

definition start_call ::
  "bool \<Rightarrow> create_answers \<Rightarrow> (share_error \<times> (account \<times> string) option) + (account \<times> string)" where
  "start_call valid_input ans =
     (if \<not> valid_input then Inl (plain_error, None)
      else case account_of (ca_session1 ans) of
             Inl e \<Rightarrow> Inl (e, None)
           | Inr account \<Rightarrow>
               (case ca_sourceThread ans of
                  Inl e \<Rightarrow> Inl (e, None)
                | Inr s \<Rightarrow> if js_trim s = [] then Inl (plain_error, Some (account, s)) else Inr (account, s)))"

definition preflight_result :: "create_answers \<Rightarrow> account \<Rightarrow> share_error + unit" where
  "preflight_result ans account =
     bind_r (ca_export ans) (\<lambda>_.
     bind_r (check_account account (ca_session2 ans)) (\<lambda>_.
     bind_r (ca_preflight ans) (\<lambda>_.
     bind_r (check_account account (ca_session3 ans)) (\<lambda>_. Inr ()))))"

definition preflight :: "share_platform \<Rightarrow> create_answers \<Rightarrow> jsnum \<Rightarrow> coordinator \<Rightarrow> outcome \<times> coordinator" where
  "preflight P ans threadId c =
     (case start_call (valid_thread threadId) ans of
        Inl (e, known) \<Rightarrow>
          (let f = closedFailure e (ca_reference ans) in
           (Failure f, freeze_failure P ans e known (num_val threadId) '''' f c))
      | Inr (account, source) \<Rightarrow>
          (case preflight_result ans account of
             Inr _ \<Rightarrow> (Ready, c)
           | Inl e \<Rightarrow>
               let f = closedFailure e (ca_reference ans) in
               (Failure f, freeze_failure P ans e (Some (account, source)) (num_val threadId) '''' f c)))"

text \<open>The frozen history: the snapshot and, when a preview is captured, its bytes.\<close>

definition export_snapshot :: "create_answers \<Rightarrow> share_error + byte list \<times> byte list option" where
  "export_snapshot ans =
     (if ca_aborted ans then Inl (plain_error\<lparr>er_abort := True\<rparr>)
      else bind_r (ca_export ans) (\<lambda>bs.
        case ca_capture ans of
          None \<Rightarrow> Inr (bs, None)
        | Some r \<Rightarrow> bind_r r (\<lambda>png. Inr (bs, Some png))))"

definition preview_of :: "share_platform \<Rightarrow> create_answers \<Rightarrow> byte list option \<Rightarrow> jv" where
  "preview_of P ans png =
     (case png of
        None \<Rightarrow> VUndef
      | Some bs \<Rightarrow> VObj [(''byteLength'', VNum (NInt (int (length bs)))), (''sha256'', VStr (pf_digest P bs)),
          (''theme'', VStr (ca_theme ans))])"

definition new_attempt ::
  "share_platform \<Rightarrow> create_answers \<Rightarrow> account \<Rightarrow> int \<Rightarrow> string \<Rightarrow> string \<Rightarrow> byte list \<Rightarrow> byte list option \<Rightarrow> metadata \<Rightarrow> share_attempt" where
  "new_attempt P ans account threadId source title bs png md =
     \<lparr>sh_reference = ca_reference ans, sh_attemptId = ca_attemptId ans, sh_ownerKey = ac_ownerKey account,
      sh_threadId = threadId, sh_sourceThreadId = source, sh_title = title, sh_snapshotBytes = Some bs,
      sh_preview = preview_of P ans png, sh_previewBytes = png, sh_metadata = Some md, sh_createdAt = ca_now ans,
      sh_lastFailure = None, sh_reportedFailures = [], sh_completed = False, sh_failureOnly = False,
      sh_publishedUrl = VNull, sh_running = False, sh_dismissing = False, sh_lazy = False\<rparr>"

definition prepare_attempt ::
  "share_platform \<Rightarrow> create_answers \<Rightarrow> account \<Rightarrow> int \<Rightarrow> string \<Rightarrow> string \<Rightarrow> share_error + share_attempt" where
  "prepare_attempt P ans account threadId source title =
     bind_r (export_snapshot ans) (\<lambda>(bs, png).
     bind_r (check_account account (ca_session2 ans)) (\<lambda>_.
       case snapshotMetadata P bs of
         None \<Rightarrow> Inl plain_error
       | Some md \<Rightarrow> Inr (new_attempt P ans account threadId source title bs png md)))"

definition not_retryable :: "failure \<Rightarrow> failure" where
  "not_retryable f = f\<lparr>fa_retryable := False\<rparr>"

text \<open>\<open>create\<close> up to the point where the frozen attempt starts to run; \<open>None\<close> means that it runs now, for the
  generation given back.\<close>

definition create ::
  "share_platform \<Rightarrow> create_answers \<Rightarrow> jsnum \<Rightarrow> string \<Rightarrow> coordinator \<Rightarrow> (outcome + jsnum) \<times> coordinator" where
  "create P ans threadId title c0 =
     (let c = ensureLoaded P c0; reference = ca_reference ans in
      case start_call (valid_thread threadId) ans of
        Inl (e, known) \<Rightarrow>
          (let f = not_retryable (closedFailure e reference) in
           (Inl (Failure f), freeze_failure P ans e known (num_val threadId) title f c))
      | Inr (account, source) \<Rightarrow>
          (case prepare_attempt P ans account (num_val threadId) source title of
             Inl e \<Rightarrow>
               (let f = not_retryable (closedFailure e reference) in
                (Inl (Failure f), freeze_failure P ans e (Some (account, source)) (num_val threadId) title f c))
           | Inr a \<Rightarrow>
               (case save P (ca_saveIo ans) a c of
                  (False, c1) \<Rightarrow> (Inl (Failure (not_retryable (closedFailure plain_error reference))), c1)
                | (True, c1) \<Rightarrow>
                    (let a1 = a\<lparr>sh_lazy := True\<rparr> in
                     case run_begin reference a1 (remember a1 c1) of
                       (Some r, c2) \<Rightarrow> (Inl r, c2)
                     | (None, c2) \<Rightarrow> (Inr (ac_generation account), c2)))))"

section \<open>Retry, pending and dismiss\<close>

definition retry :: "share_platform \<Rightarrow> session \<Rightarrow> string \<Rightarrow> coordinator \<Rightarrow> (outcome + jsnum) \<times> coordinator" where
  "retry P s reference c0 =
     (let c = ensureLoaded P c0 in
      case map_get (co_attempts c) reference of
        None \<Rightarrow> (Inl (Failure (unavailable reference False)), c)
      | Some a \<Rightarrow>
          (case account_of s of
             Inl e \<Rightarrow> (Inl (Failure (closedFailure e reference)), c)
           | Inr account \<Rightarrow>
               if ac_ownerKey account \<noteq> sh_ownerKey a \<or> sh_dismissing a
               then (Inl (Failure (unavailable reference False)), c)
               else if sh_completed a \<and> jv_truthy (sh_publishedUrl a) then (Inl (Created reference (sh_publishedUrl a)), c)
               else
                 (case run_begin reference a c of
                    (Some r, c1) \<Rightarrow> (Inl r, c1)
                  | (None, c1) \<Rightarrow> (Inr (ac_generation account), c1))))"

definition pending_candidates :: "account \<Rightarrow> int \<Rightarrow> coordinator \<Rightarrow> share_attempt list" where
  "pending_candidates account threadId c =
     js_sort (\<lambda>l r. sh_createdAt r - sh_createdAt l)
       (filter (\<lambda>a. sh_ownerKey a = ac_ownerKey account \<and> sh_threadId a = threadId \<and> \<not> sh_running a \<and> \<not> sh_dismissing a)
         (map_values (co_attempts c)))"

definition pending_outcome :: "share_attempt \<Rightarrow> outcome" where
  "pending_outcome a =
     (if sh_completed a \<and> jv_truthy (sh_publishedUrl a) then Created (sh_reference a) (sh_publishedUrl a)
      else
        case sh_lastFailure a of
          Some f \<Rightarrow>
            if sh_failureOnly a then Failure f
            else Failure (f\<lparr>fa_code := (if fa_code f \<in> {''share_sign_in_required'', ''share_attempt_unavailable''}
                                         then ''share_service_failed'' else fa_code f),
                   fa_retryable := fa_code f \<notin> {''daily_quota_exhausted'', ''reservation_limit_exhausted'',
                                                  ''share_snapshot_too_large''}\<rparr>)
        | None \<Rightarrow> Failure \<lparr>fa_reference = sh_reference a, fa_code = ''share_service_failed'', fa_retryable = True,
            fa_resetAt = None\<rparr>)"

definition pending :: "share_platform \<Rightarrow> session \<Rightarrow> jsnum \<Rightarrow> coordinator \<Rightarrow> outcome option \<times> coordinator" where
  "pending P s threadId c0 =
     (if \<not> valid_thread threadId then (None, c0)
      else
        let c = ensureLoaded P c0 in
        case account_of s of
          Inl _ \<Rightarrow> (None, c)
        | Inr account \<Rightarrow>
            (case pending_candidates account (num_val threadId) c of
               [] \<Rightarrow> (None, c)
             | a # _ \<Rightarrow> (Some (pending_outcome a), c)))"

definition dismiss_begin :: "share_platform \<Rightarrow> session \<Rightarrow> string \<Rightarrow> coordinator \<Rightarrow> outcome option \<times> coordinator" where
  "dismiss_begin P s reference c0 =
     (let c = ensureLoaded P c0 in
      case account_of s of
        Inl e \<Rightarrow> (Some (Failure (closedFailure e reference)), c)
      | Inr account \<Rightarrow>
          (case map_get (co_attempts c) reference of
             None \<Rightarrow> (Some (Failure (unavailable reference False)), c)
           | Some a \<Rightarrow>
               if sh_running a \<or> sh_dismissing a \<or> sh_ownerKey a \<noteq> ac_ownerKey account
               then (Some (Failure (unavailable reference False)), c)
               else (None, remember (a\<lparr>sh_dismissing := True\<rparr>) c)))"

definition dismiss_settle :: "share_platform \<Rightarrow> bool \<Rightarrow> string \<Rightarrow> coordinator \<Rightarrow> outcome \<times> coordinator" where
  "dismiss_settle P io reference c =
     (if io then (DismissedAttempt reference, forget reference (delete_file P reference c))
      else
        case map_get (co_attempts c) reference of
          None \<Rightarrow> (Failure (closedFailure plain_error reference), c)
        | Some a \<Rightarrow> (Failure (closedFailure plain_error reference), remember (a\<lparr>sh_dismissing := False\<rparr>) c))"

end
