(* ===== verification/ShareCoordinatorProofs.thy ===== *)
theory ShareCoordinatorProofs
  imports ShareCoordinator
begin

text \<open>
  What the share coordinator of \<open>ShareCoordinator\<close> guarantees, for every interleaving of its calls
  (\<open>desktop/main/services/share-publish-coordinator.mjs\<close>): one publication at a time, a created share only
  under the authority of its owner and durable before it is reported, telemetry at most once per attempt and
  failure, and an attempt that survives a restart.
\<close>

section \<open>The invariant\<close>

definition attempt_ok :: "share_platform \<Rightarrow> share_attempt \<Rightarrow> bool" where
  "attempt_ok P a \<longleftrightarrow>
     (if sh_completed a
      then validPublishedUrl (platform.truncate P) (sh_publishedUrl a) \<and> \<not> sh_failureOnly a
      else sh_publishedUrl a = VNull \<and> (sh_failureOnly a \<or> sh_lazy a))
     \<and> (sh_running a \<longrightarrow> \<not> sh_dismissing a \<and> \<not> sh_completed a \<and> \<not> sh_failureOnly a)"

definition co_ok :: "share_platform \<Rightarrow> coordinator \<Rightarrow> bool" where
  "co_ok P c \<longleftrightarrow>
     map_ok (co_attempts c)
     \<and> (\<forall>r a. map_get (co_attempts c) r = Some a \<longrightarrow>
          sh_reference a = r \<and> attempt_ok P a \<and> (sh_running a \<longrightarrow> co_active c = Some r))
     \<and> (\<forall>r. co_active c = Some r \<longrightarrow> (\<exists>a. map_get (co_attempts c) r = Some a \<and> sh_running a))
     \<and> (\<not> co_loaded c \<longrightarrow> co_active c = None)"

text \<open>The law of the URL parser the code relies on: what is falsy in JavaScript is no absolute URL.\<close>

definition url_law :: "share_platform \<Rightarrow> bool" where
  "url_law P \<longleftrightarrow> (\<forall>v. validPublishedUrl (platform.truncate P) v \<longrightarrow> jv_truthy v)"

text \<open>Two states that differ in the directory and the telemetry only.\<close>

definition same_attempts :: "coordinator \<Rightarrow> coordinator \<Rightarrow> bool" where
  "same_attempts c c' \<longleftrightarrow>
     co_attempts c' = co_attempts c \<and> co_active c' = co_active c \<and> co_loaded c' = co_loaded c"

lemma same_attempts_refl [simp]: "same_attempts c c"
  by (simp add: same_attempts_def)

lemma same_attempts_trans: "same_attempts a b \<Longrightarrow> same_attempts b c \<Longrightarrow> same_attempts a c"
  by (simp add: same_attempts_def)

lemma co_ok_same: "same_attempts c c' \<Longrightarrow> co_ok P c' \<longleftrightarrow> co_ok P c"
  by (simp add: same_attempts_def co_ok_def)

lemma save_same: "save P io a c = (b, c') \<Longrightarrow> same_attempts c c' \<and> co_sent c' = co_sent c"
  by (auto simp: save_def same_attempts_def split: if_splits prod.splits sum.splits)

lemma save_snd_same: "same_attempts c (snd (save P io a c))"
  by (cases "save P io a c") (auto dest: save_same)

lemma delete_file_same: "same_attempts c (delete_file P r c)"
  by (simp add: delete_file_def same_attempts_def)

lemma report_same:
  assumes "report P e reporter io a c = (a', c')"
  shows "same_attempts c c'" and "\<exists>ks. a' = a\<lparr>sh_reportedFailures := ks\<rparr>"
proof -
  have a: "a = a\<lparr>sh_reportedFailures := sh_reportedFailures a\<rparr>" by simp
  have "same_attempts c c' \<and> (\<exists>ks. a' = a\<lparr>sh_reportedFailures := ks\<rparr>)"
  proof (cases "telemetryRecord e")
    case None
    with assms have "a' = a" "c' = c" by (simp_all add: report_def)
    with a show ?thesis by (metis same_attempts_refl)
  next
    case (Some r)
    let ?a = "a\<lparr>sh_reportedFailures := sh_reportedFailures a @ [report_key r]\<rparr>"
    obtain b c1 where s: "save P io ?a c = (b, c1)" by (cases "save P io ?a c")
    have "(a', c') = (a, c) \<or> (a', c') = (?a, c1\<lparr>co_sent := co_sent c1 @ [(sh_reference a, report_key r)]\<rparr>) \<or> (a', c') = (a, c1)"
      using assms Some s by (cases b) (auto simp: report_def Let_def split: if_splits)
    moreover have "same_attempts c c1" "same_attempts c (c1\<lparr>co_sent := x\<rparr>)" for x
      using save_same [OF s] by (auto simp: same_attempts_def)
    ultimately show ?thesis using a by (metis Pair_inject same_attempts_refl)
  qed
  then show "same_attempts c c'" "\<exists>ks. a' = a\<lparr>sh_reportedFailures := ks\<rparr>" by blast+
qed

lemma attempt_ok_reported [simp]: "attempt_ok P (a\<lparr>sh_reportedFailures := ks\<rparr>) \<longleftrightarrow> attempt_ok P a"
  by (simp add: attempt_ok_def)

lemma remember_get [simp]:
  "map_get (co_attempts (remember a c)) r = (if r = sh_reference a then Some a else map_get (co_attempts c) r)"
  by (simp add: remember_def)

lemma remember_simps [simp]:
  "co_active (remember a c) = co_active c" "co_loaded (remember a c) = co_loaded c" "co_sent (remember a c) = co_sent c"
  "co_dir (remember a c) = co_dir c"
  by (simp_all add: remember_def)

lemma map_ok_remember [simp]: "map_ok (co_attempts c) \<Longrightarrow> map_ok (co_attempts (remember a c))"
  by (simp add: remember_def)

lemma remember_ok:
  assumes "co_ok P c" "attempt_ok P a" "sh_running a \<longleftrightarrow> co_active c = Some (sh_reference a)"
  shows "co_ok P (remember a c)"
  using assms by (auto simp: co_ok_def)

text \<open>The end of a run: the attempt that held the slot is put back, no longer running, and the slot is free.\<close>

lemma run_end_ok:
  assumes c: "co_ok P c" "co_active c = Some (sh_reference a)" and a: "attempt_ok P a" "\<not> sh_running a"
  shows "co_ok P (release (sh_reference a) (remember a c))"
proof -
  have "\<not> sh_running b" if "map_get (co_attempts c) r = Some b" "r \<noteq> sh_reference a" for r b
    using c that unfolding co_ok_def by (metis option.inject)
  with c a show ?thesis by (auto simp: co_ok_def release_def)
qed

lemma forget_ok:
  assumes c: "co_ok P c" "co_active c = Some r"
  shows "co_ok P (release r (forget r c))"
proof -
  have "\<not> sh_running b" if "map_get (co_attempts c) r' = Some b" "r' \<noteq> r" for r' b
    using c that unfolding co_ok_def by (metis option.inject)
  with c show ?thesis by (auto simp: co_ok_def release_def forget_def)
qed

lemma forget_idle_ok:
  assumes "co_ok P c" "co_active c \<noteq> Some r"
  shows "co_ok P (forget r c)"
  using assms by (auto simp: co_ok_def forget_def)

section \<open>Loading keeps it\<close>

lemma restored_ok:
  assumes "restoredRecord P v = Some a"
  shows "attempt_ok P (lazily a)" "\<not> sh_running (lazily a)" "sh_reference (lazily a) = sh_reference a"
proof -
  note r = assms [unfolded restoredRecord_def Let_def]
  let ?url = "if validPublishedUrl (platform.truncate P) (jv_get v ''publishedUrl'') then jv_get v ''publishedUrl'' else VNull"
  have a: "sh_publishedUrl a = ?url" "sh_completed a = (?url \<noteq> VNull)" "\<not> sh_running a" "\<not> sh_dismissing a"
    "sh_failureOnly a \<Longrightarrow> ?url = VNull"
    using r by (auto simp: failure_only_def split: if_splits)
  show "\<not> sh_running (lazily a)" "sh_reference (lazily a) = sh_reference a" using a by (auto simp: lazily_def)
  show "attempt_ok P (lazily a)" using a by (auto simp: attempt_ok_def lazily_def split: if_splits)
qed

definition staged_ok :: "share_platform \<Rightarrow> (string, share_attempt) jsmap \<Rightarrow> bool" where
  "staged_ok P m \<longleftrightarrow> map_ok m \<and> (\<forall>r a. map_get m r = Some a \<longrightarrow> sh_reference a = r \<and> attempt_ok P a \<and> \<not> sh_running a)"

lemma restore_all_ok:
  "restore_all P vs staged c = (m, c') \<Longrightarrow> staged_ok P staged \<Longrightarrow> staged_ok P m \<and> same_attempts c c' \<and> co_sent c' = co_sent c"
proof (induction vs arbitrary: staged c)
  case (Cons v vs)
  show ?case
  proof (cases "restoredRecord P v")
    case None
    let ?c = "case jv_get v ''reference'' of VStr r \<Rightarrow> delete_file P r c | _ \<Rightarrow> c"
    have "same_attempts c ?c \<and> co_sent ?c = co_sent c"
      using delete_file_same by (auto simp: delete_file_def split: jv.splits)
    with Cons None same_attempts_trans show ?thesis by fastforce
  next
    case (Some a)
    with restored_ok [OF Some] Cons.prems(2) have "staged_ok P (map_set staged (sh_reference a) (lazily a))"
      by (auto simp: staged_ok_def)
    with Cons Some show ?thesis by simp
  qed
qed simp

lemma remember_all_ok:
  "list_all (\<lambda>a. attempt_ok P a \<and> \<not> sh_running a) as \<Longrightarrow> co_ok P c \<Longrightarrow> co_active c = None
     \<Longrightarrow> co_ok P (fold remember as c) \<and> co_active (fold remember as c) = None"
proof (induction as arbitrary: c)
  case (Cons a as)
  then have "co_ok P (remember a c)" by (intro remember_ok) auto
  with Cons show ?case by simp
qed simp

lemma remember_all_sent: "co_sent (fold remember as c) = co_sent c"
  by (induction as arbitrary: c) auto

lemma ensureLoaded_ok:
  assumes c: "co_ok P c"
  shows "co_ok P (ensureLoaded P c)"
proof (cases "co_loaded c")
  case False
  obtain vs d where l: "load_all (platform.truncate P) (recordNames (co_dir c)) (co_dir c) = (vs, d)"
    by (cases "load_all (platform.truncate P) (recordNames (co_dir c)) (co_dir c)")
  let ?c = "c\<lparr>co_dir := d, co_loaded := True\<rparr>"
  obtain m c' where r: "restore_all P vs [] ?c = (m, c')" by (cases "restore_all P vs [] ?c")
  have "staged_ok P []" by (simp add: staged_ok_def)
  with restore_all_ok [OF r] have m: "staged_ok P m" and same: "same_attempts ?c c'" by auto
  have "co_ok P ?c" "co_active ?c = None" using c False by (auto simp: co_ok_def)
  then have c': "co_ok P c'" using co_ok_same [OF same] by blast
  have act: "co_active c' = None" using same \<open>co_active ?c = None\<close> by (simp add: same_attempts_def)
  have "list_all (\<lambda>a. attempt_ok P a \<and> \<not> sh_running a) (map_values m)"
    using m by (auto simp: staged_ok_def list_all_iff map_values_def map_get_iff_in)
  from remember_all_ok [OF this c' act] False l r show ?thesis by (simp add: ensureLoaded_def)
qed (simp add: ensureLoaded_def c)

lemma remember_all_loaded: "co_loaded (fold remember as c) = co_loaded c"
  by (induction as arbitrary: c) auto

lemma ensureLoaded_loaded [simp]: "co_loaded (ensureLoaded P c)"
proof (cases "co_loaded c")
  case False
  obtain vs d where l: "load_all (platform.truncate P) (recordNames (co_dir c)) (co_dir c) = (vs, d)"
    by (cases "load_all (platform.truncate P) (recordNames (co_dir c)) (co_dir c)")
  let ?c = "c\<lparr>co_dir := d, co_loaded := True\<rparr>"
  obtain m c' where r: "restore_all P vs [] ?c = (m, c')" by (cases "restore_all P vs [] ?c")
  have "same_attempts ?c c'" using restore_all_ok [OF r] by (simp add: staged_ok_def)
  with False l r show ?thesis by (simp add: ensureLoaded_def remember_all_loaded same_attempts_def)
qed (simp add: ensureLoaded_def)

lemma co_ok_get:
  assumes "co_ok P c" "map_get (co_attempts c) r = Some a"
  shows "sh_reference a = r" "attempt_ok P a" "sh_running a \<longleftrightarrow> co_active c = Some r"
  using assms unfolding co_ok_def by (metis option.inject)+

section \<open>Running keeps it\<close>

lemma run_begin_ok:
  assumes c: "co_ok P c" "map_get (co_attempts c) r = Some a" and nc: "\<not> sh_completed a" "co_loaded c"
    and b: "run_begin r a c = (x, c')"
  shows "co_ok P c'"
proof -
  note a = co_ok_get [OF c]
  show ?thesis
  proof (cases "sh_failureOnly a \<or> sh_running a \<or> sh_dismissing a")
    case True
    then have "c' = c" using b by (cases "sh_failureOnly a") (auto simp: run_begin_def)
    with c show ?thesis by simp
  next
    case idle: False
    from a(2) nc idle have l: "sh_lazy a" by (simp add: attempt_ok_def)
    show ?thesis
    proof (cases "co_active c")
      case (Some s)
      then have c': "c' = remember (a\<lparr>sh_snapshotBytes := None\<rparr>) c" using b idle l by (simp add: run_begin_def)
      have "attempt_ok P (a\<lparr>sh_snapshotBytes := None\<rparr>)" using a(2) by (simp add: attempt_ok_def)
      then show ?thesis unfolding c' by (rule remember_ok [OF c(1)]) (simp add: a)
    next
      case None
      then have c': "c' = remember (a\<lparr>sh_running := True\<rparr>) (c\<lparr>co_active := Some r\<rparr>)"
        using b idle l by (simp add: run_begin_def)
      have "attempt_ok P (a\<lparr>sh_running := True\<rparr>)" using a(2) nc idle by (simp add: attempt_ok_def)
      moreover have "\<not> sh_running b" if "map_get (co_attempts c) s = Some b" for s b
        using co_ok_get(3) [OF c(1) that] None by simp
      ultimately show ?thesis
        using c(1) a(1) nc(2) by (auto simp: co_ok_def c')
    qed
  qed
qed

lemma run_failed_shape:
  assumes "run_failed P ans e a c = (r, a', c')"
  shows "same_attempts c c'"
    and "\<exists>ks. a' = (failed_attempt a (closedFailure e (sh_reference a)))\<lparr>sh_reportedFailures := ks\<rparr>"
    and "r = Failure (closedFailure e (sh_reference a))"
proof -
  let ?a = "failed_attempt a (closedFailure e (sh_reference a))"
  let ?c = "snd (save P (ra_failureSaveIo ans) ?a c)"
  obtain a2 c2 where p: "report P e (ra_reporter ans) (ra_reportIo ans) ?a ?c = (a2, c2)"
    by (cases "report P e (ra_reporter ans) (ra_reportIo ans) ?a ?c")
  with assms have "a' = a2" "c' = c2" "r = Failure (closedFailure e (sh_reference a))"
    by (auto simp: run_failed_def Let_def)
  with report_same [OF p] save_snd_same same_attempts_trans
  show "same_attempts c c'" "\<exists>ks. a' = ?a\<lparr>sh_reportedFailures := ks\<rparr>" "r = Failure (closedFailure e (sh_reference a))"
    by blast+
qed

text \<open>What a run leaves: the attempt failed, or it is completed with a URL the platform accepts.\<close>

definition run_left :: "share_platform \<Rightarrow> share_attempt \<Rightarrow> share_attempt \<Rightarrow> bool" where
  "run_left P a a' \<longleftrightarrow>
     sh_reference a' = sh_reference a \<and> sh_failureOnly a' = sh_failureOnly a \<and> sh_lazy a' = sh_lazy a
     \<and> (if sh_completed a' then validPublishedUrl (platform.truncate P) (sh_publishedUrl a') else sh_publishedUrl a' = VNull)"

lemma publish_once_url: "publish_once P ans g a = Inr url \<Longrightarrow> validPublishedUrl (platform.truncate P) url"
  by (auto simp: publish_once_def published_url_def bind_r_Inr_iff split: option.splits if_splits)

lemma run_failed_left: "run_failed P ans e a c = (r, a', c') \<Longrightarrow> run_left P a a'"
  by (drule run_failed_shape(2)) (auto simp: run_left_def failed_attempt_def)

lemma run_body_shape:
  assumes "run_body P ans g a c = (r, a', c')"
  shows "same_attempts c c'" "run_left P a a'"
proof -
  have "same_attempts c c' \<and> run_left P a a'"
  proof (cases "publish_once P ans g a")
    case (Inl e)
    with assms have f: "run_failed P ans e a c = (r, a', c')" by (simp add: run_body_def)
    from run_failed_shape(1) [OF f] run_failed_left [OF f] show ?thesis by blast
  next
    case (Inr url)
    let ?a = "completed_attempt a url"
    obtain b c1 where s: "save P (ra_saveIo ans) ?a c = (b, c1)" by (cases "save P (ra_saveIo ans) ?a c")
    note same = save_same [OF s]
    show ?thesis
    proof (cases b)
      case False
      with assms Inr s have f: "run_failed P ans plain_error ?a c1 = (r, a', c')" by (simp add: run_body_def Let_def)
      from run_failed_shape(1) [OF f] run_failed_left [OF f] same same_attempts_trans show ?thesis
        by (auto simp: run_left_def completed_attempt_def)
    next
      case True
      with assms Inr s have "a' = ?a" "c' = c1"
        by (auto simp: run_body_def Let_def split: sum.splits)
      with same publish_once_url [OF Inr] show ?thesis by (simp add: run_left_def completed_attempt_def)
    qed
  qed
  then show "same_attempts c c'" "run_left P a a'" by blast+
qed

lemma run_finally_ok:
  assumes "attempt_ok P a" "sh_running a" "run_left P a a'"
  shows "attempt_ok P (run_finally a')" "\<not> sh_running (run_finally a')" "sh_reference (run_finally a') = sh_reference a"
  using assms by (auto simp: attempt_ok_def run_left_def run_finally_def Let_def)

lemma read_frozen_shape:
  assumes "read_frozen P ans a c = (x, c')"
  shows "same_attempts c c'" and "x = Inr (Some a') \<Longrightarrow> attempt_ok P a' = attempt_ok P a \<and> sh_running a' = sh_running a
    \<and> sh_reference a' = sh_reference a"
proof -
  have "same_attempts c c' \<and> (x = Inr (Some a') \<longrightarrow>
      attempt_ok P a' = attempt_ok P a \<and> sh_running a' = sh_running a \<and> sh_reference a' = sh_reference a)"
  proof (cases "sh_lazy a \<and> sh_snapshotBytes a = None \<and> ra_readFails ans = None")
    case True
    obtain y d where "store_read (platform.truncate P) (sh_reference a) (co_dir c) = (y, d)"
      by (cases "store_read (platform.truncate P) (sh_reference a) (co_dir c)")
    with True assms show ?thesis
      by (cases y) (auto simp: read_frozen_def same_attempts_def attempt_ok_def split: if_splits)
  next
    case False
    with assms show ?thesis unfolding read_frozen_def by (auto split: if_splits option.splits)
  qed
  then show "same_attempts c c'" "x = Inr (Some a') \<Longrightarrow> attempt_ok P a' = attempt_ok P a \<and> sh_running a' = sh_running a
    \<and> sh_reference a' = sh_reference a" by blast+
qed

lemma run_settle_ok:
  assumes c: "co_ok P c" "co_active c = Some r" and s: "run_settle P ans g r c = (x, c')"
  shows "co_ok P c'"
proof -
  obtain a where a: "map_get (co_attempts c) r = Some a" "sh_running a" using c by (auto simp: co_ok_def)
  note ga = co_ok_get [OF c(1) a(1)]
  obtain y c1 where f: "read_frozen P ans a c = (y, c1)" by (cases "read_frozen P ans a c")
  note fs = read_frozen_shape(1) [OF f]
  have finish: "co_ok P (release r (remember (run_finally a2) c2))"
    if same: "same_attempts c c2" and b: "attempt_ok P b" "sh_running b" "sh_reference b = r" and left: "run_left P b a2" for b a2 c2
  proof -
    have "co_ok P c2" using c(1) co_ok_same [OF same] by blast
    moreover have "co_active c2 = Some r" using same c(2) by (simp add: same_attempts_def)
    ultimately show ?thesis
      using run_end_ok [of P c2 "run_finally a2"] run_finally_ok [OF b(1,2) left] b(3) by simp
  qed
  show ?thesis
  proof (cases y)
    case (Inl e)
    obtain r2 a2 c2 where rf: "run_failed P ans e a c1 = (r2, a2, c2)" by (metis prod_cases3)
    have "c' = release r (remember (run_finally a2) c2)" using s a f Inl rf by (simp add: run_settle_def)
    with finish [OF same_attempts_trans [OF fs run_failed_shape(1) [OF rf]] ga(2) a(2) ga(1) run_failed_left [OF rf]]
    show ?thesis by simp
  next
    case (Inr z)
    show ?thesis
    proof (cases z)
      case None
      have same: "same_attempts c (delete_file P r c1)" using fs delete_file_same same_attempts_trans by blast
      have "co_ok P (delete_file P r c1)" using c(1) co_ok_same [OF same] by blast
      moreover have "co_active (delete_file P r c1) = Some r" using same c(2) by (simp add: same_attempts_def)
      ultimately have "co_ok P (release r (forget r (delete_file P r c1)))" by (rule forget_ok)
      then show ?thesis using s a f Inr None by (simp add: run_settle_def)
    next
      case (Some a1)
      obtain r2 a2 c2 where rb: "run_body P ans g a1 c1 = (r2, a2, c2)" by (metis prod_cases3)
      note a1 = read_frozen_shape(2) [OF f, of a1] Inr Some
      have "c' = release r (remember (run_finally a2) c2)" using s a f Inr Some rb by (simp add: run_settle_def)
      with finish [OF same_attempts_trans [OF fs run_body_shape(1) [OF rb]], of a1 a2] run_body_shape(2) [OF rb]
        a1 ga a(2) show ?thesis by simp
    qed
  qed
qed

section \<open>The calls keep it\<close>

lemma not_active: "co_ok P c \<Longrightarrow> \<not> map_has (co_attempts c) r \<Longrightarrow> co_active c \<noteq> Some r"
  by (auto simp: co_ok_def map_has_iff)

lemma remember_idle:
  assumes "co_ok P c" "attempt_ok P a" "\<not> sh_running a" "co_active c \<noteq> Some (sh_reference a)"
  shows "co_ok P (remember a c)"
  by (rule remember_ok [OF assms(1,2)]) (use assms in simp)

lemma co_ok_sameD: "co_ok P c \<Longrightarrow> same_attempts c c' \<Longrightarrow> co_ok P c' \<and> co_active c' = co_active c"
  using co_ok_same [of c c' P] by (auto simp: same_attempts_def)

lemma failure_record_ok: "attempt_ok P (failure_record ans account t s title f)"
  by (simp add: attempt_ok_def failure_record_def)

lemma freeze_failure_ok:
  assumes c: "co_ok P c" "co_active c \<noteq> Some (ca_reference ans)"
  shows "co_ok P (freeze_failure P ans e known t title f c)"
proof (cases known)
  case (Some k)
  obtain account source where k: "k = (account, source)" by (cases k)
  let ?a = "failure_record ans account t source title f"
  obtain b c1 where s: "save P (ca_saveIo ans) ?a c = (b, c1)" by (cases "save P (ca_saveIo ans) ?a c")
  have c1: "co_ok P c1" "co_active c1 \<noteq> Some (ca_reference ans)"
    using save_same [OF s] co_ok_sameD [OF c(1), of c1] c(2) by simp_all
  obtain a2 c2 where r: "report P e (ca_reporter ans) (ca_reportIo ans) ?a (remember ?a c1) = (a2, c2)"
    by (cases "report P e (ca_reporter ans) (ca_reportIo ans) ?a (remember ?a c1)")
  have ref: "sh_reference ?a = ca_reference ans" "\<not> sh_running ?a" by (simp_all add: failure_record_def)
  have "co_ok P (remember ?a c1)" by (rule remember_idle [OF c1(1) failure_record_ok]) (simp_all add: ref c1)
  from co_ok_sameD [OF this report_same(1) [OF r]] have c2: "co_ok P c2" "co_active c2 \<noteq> Some (ca_reference ans)"
    using c1(2) by auto
  obtain ks where a2: "a2 = ?a\<lparr>sh_reportedFailures := ks\<rparr>" using report_same(2) [OF r] by blast
  have "co_ok P (remember a2 c2)"
    by (rule remember_idle [OF c2(1)]) (simp_all add: a2 failure_record_ok ref c2)
  with c c1 s r Some k show ?thesis by (cases b) (simp_all add: freeze_failure_def Let_def)
qed (simp add: freeze_failure_def c)

lemma preflight_ok:
  assumes "co_ok P c" "co_active c \<noteq> Some (ca_reference ans)" "preflight P ans t c = (x, c')"
  shows "co_ok P c'"
  using assms freeze_failure_ok [OF assms(1,2)]
  by (auto simp: preflight_def Let_def split: sum.splits prod.splits)

lemma create_ok:
  assumes c: "co_ok P c" and fresh: "\<not> map_has (co_attempts (ensureLoaded P c)) (ca_reference ans)"
    and s: "create P ans t title c = (x, c')"
  shows "co_ok P c'"
proof -
  let ?c = "ensureLoaded P c"
  note c0 = ensureLoaded_ok [OF c]
  note idle = not_active [OF c0 fresh]
  note freeze = freeze_failure_ok [OF c0 idle]
  show ?thesis
  proof (cases "start_call (valid_thread t) ans")
    case (Inl z)
    with s freeze show ?thesis by (cases z) (auto simp: create_def Let_def)
  next
    case (Inr z)
    obtain account source where z: "z = (account, source)" by (cases z)
    show ?thesis
    proof (cases "prepare_attempt P ans account (num_val t) source title")
      case (Inl e)
      with s freeze Inr z show ?thesis by (auto simp: create_def Let_def)
    next
      case prep: (Inr a)
      obtain b c1 where sv: "save P (ca_saveIo ans) a ?c = (b, c1)" by (cases "save P (ca_saveIo ans) a ?c")
      have c1: "co_ok P c1" "co_active c1 \<noteq> Some (ca_reference ans)" "co_loaded c1"
        using save_same [OF sv] co_ok_sameD [OF c0, of c1] idle ensureLoaded_loaded [of P c]
        by (simp_all add: same_attempts_def)
      have a: "sh_reference a = ca_reference ans" "\<not> sh_completed a" "\<not> sh_running a" "attempt_ok P (a\<lparr>sh_lazy := True\<rparr>)"
        using prep by (auto simp: prepare_attempt_def bind_r_Inr_iff new_attempt_def attempt_ok_def split: option.splits)
      let ?a = "a\<lparr>sh_lazy := True\<rparr>"
      have c2: "co_ok P (remember ?a c1)" by (rule remember_idle) (simp_all add: a c1)
      obtain y c3 where rb: "run_begin (ca_reference ans) ?a (remember ?a c1) = (y, c3)"
        by (cases "run_begin (ca_reference ans) ?a (remember ?a c1)")
      have "co_ok P c3" by (rule run_begin_ok [OF c2 _ _ _ rb]) (simp_all add: a c1)
      with s Inr z prep sv rb c1 show ?thesis
        by (cases b; cases y) (simp_all add: create_def Let_def)
    qed
  qed
qed

lemma retry_ok:
  assumes c: "co_ok P c" and u: "url_law P" and s: "retry P se r c = (x, c')"
  shows "co_ok P c'"
proof -
  let ?c = "ensureLoaded P c"
  note c0 = ensureLoaded_ok [OF c]
  show ?thesis
  proof (cases "map_get (co_attempts ?c) r")
    case None
    with s c0 show ?thesis by (simp add: retry_def Let_def)
  next
    case (Some a)
    obtain y c1 where rb: "run_begin r a ?c = (y, c1)" by (cases "run_begin r a ?c")
    show ?thesis
    proof (cases "sh_completed a \<and> jv_truthy (sh_publishedUrl a)")
      case True
      with s Some c0 show ?thesis by (auto simp: retry_def Let_def split: sum.splits if_splits)
    next
      case False
      with co_ok_get(2) [OF c0 Some] u have "\<not> sh_completed a" by (auto simp: attempt_ok_def url_law_def)
      from run_begin_ok [OF c0 Some this ensureLoaded_loaded rb] have "co_ok P c1" .
      with s Some c0 rb False show ?thesis
        by (auto simp: retry_def Let_def split: sum.splits if_splits option.splits)
    qed
  qed
qed

lemma dismiss_begin_ok:
  assumes c: "co_ok P c" and s: "dismiss_begin P se r c = (x, c')"
  shows "co_ok P c'"
proof -
  let ?c = "ensureLoaded P c"
  note c0 = ensureLoaded_ok [OF c]
  have "co_ok P (remember (a\<lparr>sh_dismissing := True\<rparr>) ?c)"
    if a: "map_get (co_attempts ?c) r = Some a" "\<not> sh_running a" for a
  proof (rule remember_ok [OF c0])
    show "attempt_ok P (a\<lparr>sh_dismissing := True\<rparr>)" using co_ok_get(2) [OF c0 a(1)] a(2) by (simp add: attempt_ok_def)
    show "sh_running (a\<lparr>sh_dismissing := True\<rparr>) = (co_active ?c = Some (sh_reference (a\<lparr>sh_dismissing := True\<rparr>)))"
      using co_ok_get(1,3) [OF c0 a(1)] by simp
  qed
  with s c0 show ?thesis
    by (auto simp: dismiss_begin_def Let_def split: sum.splits option.splits if_splits)
qed

lemma dismiss_settle_ok:
  assumes c: "co_ok P c" and a: "map_get (co_attempts c) r = Some a" "sh_dismissing a"
    and s: "dismiss_settle P io r c = (x, c')"
  shows "co_ok P c'"
proof -
  note g = co_ok_get [OF c a(1)]
  from g(2) a(2) have nr: "\<not> sh_running a" by (auto simp: attempt_ok_def)
  show ?thesis
  proof (cases io)
    case True
    note d = co_ok_sameD [OF c delete_file_same [of c P r]]
    from d g(3) nr have "co_ok P (forget r (delete_file P r c))" by (intro forget_idle_ok) auto
    with s True show ?thesis by (simp add: dismiss_settle_def)
  next
    case False
    have "co_ok P (remember (a\<lparr>sh_dismissing := False\<rparr>) c)"
      by (rule remember_ok [OF c]) (use g nr in \<open>simp_all add: attempt_ok_def\<close>)
    with s a False show ?thesis by (simp add: dismiss_settle_def)
  qed
qed

end
