(* ===== verification/ShareCoordinatorRuns.thy ===== *)
theory ShareCoordinatorRuns
  imports ShareCoordinatorProofs
begin

text \<open>
  The histories of a share coordinator (\<open>desktop/main/services/share-publish-coordinator.mjs\<close>): the calls and the
  settlements of \<open>ShareCoordinator\<close> in any order, as a step relation, and what every history guarantees. One
  publication is in flight at a time, a share counts as created only under the authority of its owner and with
  its record on disk, telemetry goes out at most once per attempt and failure, and an attempt frozen before a
  restart is the attempt found after it.
\<close>

section \<open>Histories\<close>

text \<open>References are random; a new one was not used before.\<close>

definition fresh_reference :: "string \<Rightarrow> coordinator \<Rightarrow> bool" where
  "fresh_reference r c \<longleftrightarrow> \<not> map_has (co_attempts c) r \<and> r \<notin> fst ` set (co_sent c)"

inductive co_step :: "share_platform \<Rightarrow> coordinator \<Rightarrow> coordinator \<Rightarrow> bool" for P where
  preflights: "fresh_reference (ca_reference ans) c \<Longrightarrow> preflight P ans t c = (x, c') \<Longrightarrow> co_step P c c'"
| creates: "fresh_reference (ca_reference ans) (ensureLoaded P c) \<Longrightarrow> create P ans t title c = (y, c') \<Longrightarrow> co_step P c c'"
| retries: "retry P s r c = (y, c') \<Longrightarrow> co_step P c c'"
| pends: "pending P s t c = (z, c') \<Longrightarrow> co_step P c c'"
| dismisses: "dismiss_begin P s r c = (z, c') \<Longrightarrow> co_step P c c'"
| settles: "co_active c = Some r \<Longrightarrow> run_settle P answers g r c = (x, c') \<Longrightarrow> co_step P c c'"
| dismissal_settles: "map_get (co_attempts c) r = Some a \<Longrightarrow> sh_dismissing a \<Longrightarrow> dismiss_settle P io r c = (x, c')
    \<Longrightarrow> co_step P c c'"

inductive co_reaches :: "share_platform \<Rightarrow> coordinator \<Rightarrow> coordinator \<Rightarrow> bool" for P c0 where
  co_start: "co_reaches P c0 c0"
| co_next: "co_reaches P c0 c \<Longrightarrow> co_step P c c' \<Longrightarrow> co_reaches P c0 c'"

lemma co_start_ok: "co_ok P (createSharePublishCoordinator d)"
  by (simp add: co_ok_def createSharePublishCoordinator_def)

lemma pending_loads: "pending P s t c = (z, c') \<Longrightarrow> c' = c \<or> c' = ensureLoaded P c"
  by (auto simp: pending_def Let_def split: if_splits sum.splits list.splits)

lemma co_step_ok:
  assumes "co_step P c c'" "co_ok P c" "url_law P"
  shows "co_ok P c'"
  using assms
proof cases
  case (preflights ans t x)
  with assms(2) not_active preflight_ok show ?thesis by (metis fresh_reference_def)
next
  case (creates ans t title y)
  with assms(2) create_ok show ?thesis by (metis fresh_reference_def)
next
  case (retries s r y)
  with assms retry_ok show ?thesis by blast
next
  case (pends s t z)
  with assms(2) ensureLoaded_ok pending_loads show ?thesis by blast
next
  case (dismisses s r z)
  with assms dismiss_begin_ok show ?thesis by blast
next
  case (settles r answers g x)
  with assms run_settle_ok show ?thesis by blast
next
  case (dismissal_settles r a io x)
  with assms dismiss_settle_ok show ?thesis by blast
qed

lemma co_reaches_ok:
  "co_reaches P c0 c \<Longrightarrow> co_ok P c0 \<Longrightarrow> url_law P \<Longrightarrow> co_ok P c"
  by (induction rule: co_reaches.induct) (auto dest: co_step_ok)

section \<open>One publication at a time\<close>

lemma one_entry: "map_ok m \<Longrightarrow> map_has m k \<Longrightarrow> length (filter (\<lambda>p. k = fst p) m) = 1"
  by (induction m) (auto simp: map_ok_def map_has_def filter_empty_conv image_iff)

lemma running_count:
  assumes c: "co_ok P c"
  shows "length (filter sh_running (map_values (co_attempts c))) = (if co_active c = None then 0 else 1)"
proof -
  have ok: "map_ok (co_attempts c)" using c by (simp add: co_ok_def)
  have run: "sh_running (snd p) \<longleftrightarrow> co_active c = Some (fst p)" if "p \<in> set (co_attempts c)" for p
    using co_ok_get(3) [OF c, of "fst p" "snd p"] that ok by (simp add: map_get_iff_in)
  have "length (filter sh_running (map_values (co_attempts c))) = length (filter (\<lambda>p. sh_running (snd p)) (co_attempts c))"
    by (simp add: map_values_def filter_map comp_def)
  also have "\<dots> = length (filter (\<lambda>p. co_active c = Some (fst p)) (co_attempts c))"
    using run by (simp cong: filter_cong)
  also have "\<dots> = (if co_active c = None then 0 else 1)"
  proof (cases "co_active c")
    case (Some r)
    then have "map_has (co_attempts c) r" using c by (auto simp: co_ok_def map_has_iff)
    from one_entry [OF ok this] show ?thesis by (simp add: Some)
  qed simp
  finally show ?thesis .
qed


section \<open>Telemetry\<close>

definition sent_for :: "coordinator \<Rightarrow> string \<Rightarrow> share_attempt \<Rightarrow> bool" where
  "sent_for c r a \<longleftrightarrow> (\<forall>k. (r, k) \<in> set (co_sent c) \<longrightarrow> k \<in> set (sh_reportedFailures a))"

text \<open>What was sent is noted in its attempt, for all attempts but the one at \<open>r\<close>.\<close>

definition sent_but :: "string option \<Rightarrow> coordinator \<Rightarrow> bool" where
  "sent_but r c \<longleftrightarrow> distinct (co_sent c)
     \<and> (\<forall>s b. Some s \<noteq> r \<longrightarrow> map_get (co_attempts c) s = Some b \<longrightarrow> sent_for c s b)"

lemma sent_but_weaken: "sent_but None c \<Longrightarrow> sent_but r c"
  by (simp add: sent_but_def)

lemma sent_but_get: "sent_but None c \<Longrightarrow> map_get (co_attempts c) r = Some a \<Longrightarrow> sent_for c r a"
  by (simp add: sent_but_def)

lemma sent_but_same: "co_attempts c' = co_attempts c \<Longrightarrow> co_sent c' = co_sent c \<Longrightarrow> sent_but r c' = sent_but r c"
  by (simp add: sent_but_def sent_for_def)

lemma remember_sent: "sent_but (Some (sh_reference a)) c \<Longrightarrow> sent_for c (sh_reference a) a \<Longrightarrow> sent_but None (remember a c)"
  by (auto simp: sent_but_def sent_for_def)

lemma release_sent [simp]: "sent_but r (release s c) = sent_but r c"
  by (simp add: sent_but_def sent_for_def release_def)

lemma forget_sent: "sent_but None c \<Longrightarrow> sent_but None (forget r c)"
  by (auto simp: sent_but_def sent_for_def forget_def)

lemma save_sent: "save P io a c = (b, c') \<Longrightarrow> sent_but r c' = sent_but r c \<and> sent_for c' s d = sent_for c s d"
  by (auto dest!: save_same simp: same_attempts_def sent_but_def sent_for_def)

lemma delete_file_sent: "sent_but r (delete_file P s c) = sent_but r c"
  by (simp add: delete_file_def sent_but_def sent_for_def)

text \<open>A report leaves what was sent noted in the attempt it reports for.\<close>

lemma report_sent:
  assumes "report P e reporter io a c = (a', c')" "sent_but (Some (sh_reference a)) c" "sent_for c (sh_reference a) a"
  shows "sent_but (Some (sh_reference a)) c'" "sent_for c' (sh_reference a) a'" "sh_reference a' = sh_reference a"
proof -
  obtain ks where "a' = a\<lparr>sh_reportedFailures := ks\<rparr>" using report_same(2) [OF assms(1)] by blast
  then show "sh_reference a' = sh_reference a" by simp
  have "sent_but (Some (sh_reference a)) c' \<and> sent_for c' (sh_reference a) a'"
  proof (cases "telemetryRecord e")
    case None
    with assms show ?thesis by (simp add: report_def)
  next
    case (Some r)
    let ?k = "report_key r"
    let ?a = "a\<lparr>sh_reportedFailures := sh_reportedFailures a @ [?k]\<rparr>"
    obtain b c1 where s: "save P io ?a c = (b, c1)" by (cases "save P io ?a c")
    note c1 = save_sent [OF s, of "Some (sh_reference a)" "sh_reference a" a]
    have sent1: "co_sent c1 = co_sent c" using save_same [OF s] by simp
    show ?thesis
    proof (cases "\<not> reporter \<or> ?k \<in> set (sh_reportedFailures a)")
      case True
      with assms Some show ?thesis by (simp add: report_def)
    next
      case False
      show ?thesis
      proof (cases b)
        case b: True
        with assms(1) Some False s have a': "a' = ?a" and c': "c' = c1\<lparr>co_sent := co_sent c1 @ [(sh_reference a, ?k)]\<rparr>"
          by (auto simp: report_def Let_def)
        have "(sh_reference a, ?k) \<notin> set (co_sent c)" using assms(3) False by (auto simp: sent_for_def)
        with c1 assms(2,3) sent1 show ?thesis by (auto simp: a' c' sent_but_def sent_for_def)
      next
        case b: False
        with assms(1) Some False s have "a' = a" "c' = c1" by (simp_all add: report_def)
        with c1 assms(2,3) show ?thesis by simp
      qed
    qed
  qed
  then show "sent_but (Some (sh_reference a)) c'" "sent_for c' (sh_reference a) a'" by blast+
qed

lemma freeze_failure_sent:
  assumes c: "sent_but None c" "fresh_reference (ca_reference ans) c"
  shows "sent_but None (freeze_failure P ans e known t title f c)"
proof (cases known)
  case (Some k)
  obtain account source where k: "k = (account, source)" by (cases k)
  let ?a = "failure_record ans account t source title f"
  obtain b c1 where s: "save P (ca_saveIo ans) ?a c = (b, c1)" by (cases "save P (ca_saveIo ans) ?a c")
  have ref: "sh_reference ?a = ca_reference ans" by (simp add: failure_record_def)
  have for_c: "sent_for c (ca_reference ans) x" for x
    using c(2) by (force simp: sent_for_def fresh_reference_def)
  have c1: "sent_but None c1" "sent_for c1 (ca_reference ans) ?a" using save_sent [OF s] c(1) for_c by simp_all
  obtain a2 c2 where r: "report P e (ca_reporter ans) (ca_reportIo ans) ?a (remember ?a c1) = (a2, c2)"
    by (cases "report P e (ca_reporter ans) (ca_reportIo ans) ?a (remember ?a c1)")
  have "sent_but (Some (sh_reference ?a)) (remember ?a c1)" "sent_for (remember ?a c1) (sh_reference ?a) ?a"
    using remember_sent [OF sent_but_weaken [OF c1(1)]] c1(2) ref by (simp_all add: sent_but_weaken sent_for_def)
  from report_sent [OF r this] have "sent_but None (remember a2 c2)" by (intro remember_sent) simp_all
  with c c1 s r Some k show ?thesis by (cases b) (simp_all add: freeze_failure_def Let_def)
qed (simp add: freeze_failure_def c)

lemma run_failed_sent:
  assumes "run_failed P ans e a c = (x, a', c')" "sent_but (Some (sh_reference a)) c" "sent_for c (sh_reference a) a"
  shows "sent_but (Some (sh_reference a)) c'" "sent_for c' (sh_reference a) a'" "sh_reference a' = sh_reference a"
proof -
  let ?a = "failed_attempt a (closedFailure e (sh_reference a))"
  obtain b c1 where s: "save P (ra_failureSaveIo ans) ?a c = (b, c1)" by (cases "save P (ra_failureSaveIo ans) ?a c")
  have a: "sh_reference ?a = sh_reference a" "sent_for c (sh_reference a) ?a"
    using assms(3) by (simp_all add: failed_attempt_def sent_for_def)
  have r: "report P e (ra_reporter ans) (ra_reportIo ans) ?a c1 = (a', c')"
    using assms(1) s by (auto simp: run_failed_def Let_def split: prod.splits)
  have "sent_but (Some (sh_reference ?a)) c1" "sent_for c1 (sh_reference ?a) ?a"
    using save_sent [OF s] assms(2) a by simp_all
  from report_sent [OF r this] a(1)
  show "sent_but (Some (sh_reference a)) c'" "sent_for c' (sh_reference a) a'" "sh_reference a' = sh_reference a" by simp_all
qed

lemma run_body_sent:
  assumes "run_body P ans g a c = (x, a', c')" "sent_but (Some (sh_reference a)) c" "sent_for c (sh_reference a) a"
  shows "sent_but (Some (sh_reference a)) c' \<and> sent_for c' (sh_reference a) a' \<and> sh_reference a' = sh_reference a"
proof (cases "publish_once P ans g a")
  case (Inl e)
  with assms(1) have "run_failed P ans e a c = (x, a', c')" by (simp add: run_body_def)
  from run_failed_sent [OF this assms(2,3)] show ?thesis by blast
next
  case (Inr url)
  let ?a = "completed_attempt a url"
  obtain b c1 where s: "save P (ra_saveIo ans) ?a c = (b, c1)" by (cases "save P (ra_saveIo ans) ?a c")
  have a: "sh_reference ?a = sh_reference a" by (simp add: completed_attempt_def)
  have c1: "sent_but (Some (sh_reference ?a)) c1" "sent_for c1 (sh_reference ?a) ?a"
    using save_sent [OF s] assms(2,3) by (simp_all add: completed_attempt_def sent_for_def)
  show ?thesis
  proof (cases b)
    case False
    with assms(1) Inr s have f: "run_failed P ans plain_error ?a c1 = (x, a', c')" by (simp add: run_body_def Let_def)
    from run_failed_sent [OF f c1] a show ?thesis by simp
  next
    case True
    with assms(1) Inr s have "a' = ?a" "c' = c1" by (auto simp: run_body_def Let_def split: sum.splits)
    with c1 a show ?thesis by simp
  qed
qed

lemma read_frozen_sent:
  assumes "read_frozen P ans a c = (x, c')"
  shows "co_attempts c' = co_attempts c \<and> co_sent c' = co_sent c"
    and "x = Inr (Some a') \<Longrightarrow> sh_reference a' = sh_reference a \<and> sh_reportedFailures a' = sh_reportedFailures a"
  using assms by (auto simp: read_frozen_def split: if_splits option.splits prod.splits)

lemma run_settle_sent:
  assumes c: "sent_but None c" "co_ok P c" and s: "run_settle P ans g r c = (x, c')"
  shows "sent_but None c'"
proof (cases "map_get (co_attempts c) r")
  case None
  with s c show ?thesis by (simp add: run_settle_def)
next
  case (Some a)
  note ref = co_ok_get(1) [OF c(2) Some]
  obtain y c1 where f: "read_frozen P ans a c = (y, c1)" by (cases "read_frozen P ans a c")
  note f1 = read_frozen_sent(1) [OF f]
  have c1: "sent_but None c1" using c(1) f1 sent_but_same by blast
  have for_a: "sent_for c1 (sh_reference a) a" using sent_but_get [OF c(1) Some] f1 ref by (simp add: sent_for_def)
  have finish: "sent_but None (release r (remember (run_finally a2) c2))"
    if "sent_but (Some (sh_reference a)) c2" "sent_for c2 (sh_reference a) a2" "sh_reference a2 = sh_reference a" for a2 c2
    using remember_sent [of "run_finally a2" c2] that by (simp add: run_finally_def sent_for_def Let_def)
  show ?thesis
  proof (cases y)
    case (Inl e)
    obtain x2 a2 c2 where rf: "run_failed P ans e a c1 = (x2, a2, c2)" by (metis prod_cases3)
    have "c' = release r (remember (run_finally a2) c2)" using s Some f Inl rf by (simp add: run_settle_def)
    with finish run_failed_sent [OF rf sent_but_weaken [OF c1] for_a] show ?thesis by simp
  next
    case (Inr z)
    show ?thesis
    proof (cases z)
      case None
      have "c' = release r (forget r (delete_file P r c1))" using s Some f Inr None by (simp add: run_settle_def)
      with c1 show ?thesis by (simp add: forget_sent delete_file_sent)
    next
      case (Some a1)
      obtain x2 a2 c2 where rb: "run_body P ans g a1 c1 = (x2, a2, c2)" by (metis prod_cases3)
      have a1: "sh_reference a1 = sh_reference a" "sent_for c1 (sh_reference a1) a1"
        using read_frozen_sent(2) [OF f, of a1] Inr Some for_a by (simp_all add: sent_for_def)
      have "c' = release r (remember (run_finally a2) c2)"
        using s \<open>map_get (co_attempts c) r = Some a\<close> f Inr Some rb by (simp add: run_settle_def)
      with finish run_body_sent [OF rb sent_but_weaken [OF c1] a1(2)] a1(1) show ?thesis by simp
    qed
  qed
qed

lemma flags_sent:
  assumes "sent_but None c" "map_get (co_attempts c) (sh_reference a) = Some b" "sh_reportedFailures a = sh_reportedFailures b"
  shows "sent_but None (remember a c)"
  using remember_sent [OF sent_but_weaken [OF assms(1)], of a] sent_but_get [OF assms(1,2)] assms(3)
  by (simp add: sent_for_def)

lemma run_begin_sent:
  assumes c: "sent_but None c" "map_get (co_attempts c) r = Some a" "sh_reference a = r" and b: "run_begin r a c = (x, c')"
  shows "sent_but None c'"
proof -
  have active: "sent_but None (remember d (c\<lparr>co_active := z\<rparr>)) = sent_but None (remember d c)" for d z
    by (simp add: sent_but_def sent_for_def remember_def)
  have "c' = c \<or> c' = remember (a\<lparr>sh_snapshotBytes := None\<rparr>) c \<or> c' = remember (a\<lparr>sh_running := True\<rparr>) c
      \<or> (\<exists>z. c' = remember (a\<lparr>sh_running := True\<rparr>) (c\<lparr>co_active := z\<rparr>))"
    using b by (auto simp: run_begin_def split: if_splits)
  then show ?thesis using c flags_sent [OF c(1), of _ a] by (auto simp: active)
qed

lemma create_sent:
  assumes c: "sent_but None c" "co_loaded c" and fresh: "fresh_reference (ca_reference ans) c"
    and s: "create P ans t title c = (x, c')"
  shows "sent_but None c'"
proof -
  have l: "ensureLoaded P c = c" using c(2) by (simp add: ensureLoaded_def)
  note freeze = freeze_failure_sent [OF c(1) fresh]
  show ?thesis
  proof (cases "start_call (valid_thread t) ans")
    case (Inl z)
    with s freeze l show ?thesis by (cases z) (auto simp: create_def Let_def)
  next
    case (Inr z)
    obtain account source where z: "z = (account, source)" by (cases z)
    show ?thesis
    proof (cases "prepare_attempt P ans account (num_val t) source title")
      case (Inl e)
      with s freeze Inr z l show ?thesis by (auto simp: create_def Let_def)
    next
      case prep: (Inr a)
      let ?a = "a\<lparr>sh_lazy := True\<rparr>"
      obtain b c1 where sv: "save P (ca_saveIo ans) a c = (b, c1)" by (cases "save P (ca_saveIo ans) a c")
      have ref: "sh_reference a = ca_reference ans"
        using prep by (auto simp: prepare_attempt_def bind_r_Inr_iff new_attempt_def split: option.splits)
      have "sent_for c (ca_reference ans) ?a" using fresh by (force simp: sent_for_def fresh_reference_def)
      then have c1: "sent_but None c1" "sent_for c1 (ca_reference ans) ?a" using save_sent [OF sv] c(1) by simp_all
      then have c2: "sent_but None (remember ?a c1)" by (intro remember_sent) (simp_all add: ref sent_but_weaken)
      obtain y c3 where rb: "run_begin (ca_reference ans) ?a (remember ?a c1) = (y, c3)"
        by (cases "run_begin (ca_reference ans) ?a (remember ?a c1)")
      have "sent_but None c3" by (rule run_begin_sent [OF c2 _ _ rb]) (simp_all add: ref)
      with s Inr z prep sv rb c1 l show ?thesis by (cases b; cases y) (simp_all add: create_def Let_def)
    qed
  qed
qed

lemma retry_sent:
  assumes c: "sent_but None c" "co_loaded c" "co_ok P c" and s: "retry P se r c = (x, c')"
  shows "sent_but None c'"
proof -
  have l: "ensureLoaded P c = c" using c(2) by (simp add: ensureLoaded_def)
  have "c' = c \<or> (\<exists>a y. map_get (co_attempts c) r = Some a \<and> run_begin r a c = (y, c'))"
    using s l by (auto simp: retry_def Let_def split: option.splits sum.splits if_splits prod.splits)
  then show ?thesis using c co_ok_get(1) [OF c(3)] run_begin_sent [OF c(1)] by blast
qed

lemma dismiss_sent:
  assumes c: "sent_but None c" "co_loaded c" "co_ok P c" and s: "dismiss_begin P se r c = (x, c')"
  shows "sent_but None c'"
proof -
  have l: "ensureLoaded P c = c" using c(2) by (simp add: ensureLoaded_def)
  have "c' = c \<or> (\<exists>a. map_get (co_attempts c) r = Some a \<and> c' = remember (a\<lparr>sh_dismissing := True\<rparr>) c)"
    using s l by (auto simp: dismiss_begin_def Let_def split: option.splits sum.splits if_splits)
  then show ?thesis using c co_ok_get(1) [OF c(3)] flags_sent [OF c(1)] by force
qed

lemma dismiss_settle_sent:
  assumes c: "sent_but None c" "co_ok P c" and a: "map_get (co_attempts c) r = Some a"
    and s: "dismiss_settle P io r c = (x, c')"
  shows "sent_but None c'"
proof -
  have "sent_but None (remember (a\<lparr>sh_dismissing := False\<rparr>) c)"
    using flags_sent [OF c(1), of "a\<lparr>sh_dismissing := False\<rparr>" a] a co_ok_get(1) [OF c(2) a] by simp
  with s a c show ?thesis by (cases io) (auto simp: dismiss_settle_def forget_sent delete_file_sent)
qed

section \<open>Loading happens once\<close>

lemma report_loaded: "report P e rep io a c = (a', c') \<Longrightarrow> co_loaded c' = co_loaded c"
  using report_same(1) by (auto simp: same_attempts_def)

lemma freeze_failure_loaded: "co_loaded (freeze_failure P ans e known t title f c) = co_loaded c"
  by (auto simp: freeze_failure_def Let_def same_attempts_def
      dest!: save_same report_loaded split: option.splits prod.splits bool.splits)

lemma run_begin_loaded: "run_begin r a c = (x, c') \<Longrightarrow> co_loaded c' = co_loaded c"
  by (auto simp: run_begin_def split: if_splits)

lemma create_loaded: "create P ans t title c = (x, c') \<Longrightarrow> co_loaded c'"
  using freeze_failure_loaded [of P ans _ _ _ _ _ "ensureLoaded P c"]
  by (auto simp: create_def Let_def same_attempts_def dest!: save_same run_begin_loaded
      split: sum.splits prod.splits bool.splits option.splits)

lemma retry_loaded: "retry P s r c = (x, c') \<Longrightarrow> co_loaded c'"
  by (auto simp: retry_def Let_def dest!: run_begin_loaded split: option.splits sum.splits if_splits prod.splits)

lemma dismiss_loaded: "dismiss_begin P s r c = (x, c') \<Longrightarrow> co_loaded c'"
  by (auto simp: dismiss_begin_def Let_def split: option.splits sum.splits if_splits)

lemma loaded_simps [simp]:
  "co_loaded (release r c) = co_loaded c" "co_loaded (forget r c) = co_loaded c" "co_loaded (delete_file P r c) = co_loaded c"
  by (simp_all add: release_def forget_def delete_file_def)

lemma settle_loaded: "run_settle P ans g r c = (x, c') \<Longrightarrow> co_loaded c' = co_loaded c"
  by (auto simp: run_settle_def same_attempts_def
      dest!: read_frozen_shape(1) run_failed_shape(1) run_body_shape(1)
      split: option.splits prod.splits sum.splits)

lemma dismiss_settle_loaded: "dismiss_settle P io r c = (x, c') \<Longrightarrow> co_loaded c' = co_loaded c"
  by (auto simp: dismiss_settle_def split: if_splits option.splits)

lemma co_step_sent:
  assumes "co_step P c c'" "co_ok P c" "co_loaded c" "sent_but None c"
  shows "sent_but None c' \<and> co_loaded c'"
proof -
  have l: "ensureLoaded P c = c" using assms(3) by (simp add: ensureLoaded_def)
  from assms(1) show ?thesis
  proof cases
    case (preflights ans t x)
    with freeze_failure_sent [OF assms(4) preflights(1)] freeze_failure_loaded assms(3,4) show ?thesis
      by (auto simp: preflight_def Let_def split: sum.splits prod.splits)
  next
    case (creates ans t title y)
    with create_sent [OF assms(4,3)] create_loaded l show ?thesis by auto
  next
    case (retries s r y)
    with retry_sent [OF assms(4,3,2)] retry_loaded show ?thesis by blast
  next
    case (pends s t z)
    with pending_loads l assms(3,4) show ?thesis by metis
  next
    case (dismisses s r z)
    with dismiss_sent [OF assms(4,3,2)] dismiss_loaded show ?thesis by blast
  next
    case (settles r answers g x)
    with run_settle_sent [OF assms(4,2)] settle_loaded assms(3) show ?thesis by blast
  next
    case (dismissal_settles r a io x)
    with dismiss_settle_sent [OF assms(4,2)] dismiss_settle_loaded assms(3) show ?thesis by blast
  qed
qed

lemma ensureLoaded_sent: "co_sent (ensureLoaded P c) = co_sent c"
proof (cases "co_loaded c")
  case False
  obtain vs d where l: "load_all (platform.truncate P) (recordNames (co_dir c)) (co_dir c) = (vs, d)"
    by (cases "load_all (platform.truncate P) (recordNames (co_dir c)) (co_dir c)")
  let ?c = "c\<lparr>co_dir := d, co_loaded := True\<rparr>"
  obtain m c' where r: "restore_all P vs [] ?c = (m, c')" by (cases "restore_all P vs [] ?c")
  have "co_sent c' = co_sent c" using restore_all_ok [OF r] by (simp add: staged_ok_def)
  with False l r show ?thesis by (simp add: ensureLoaded_def remember_all_sent)
qed (simp add: ensureLoaded_def)

text \<open>Telemetry at most once: after the attempts were loaded from any directory, no history of calls and
  settlements sends the same failure of the same attempt twice, and whatever was sent for an attempt that is
  still there is noted in it, so that the next session does not send it again either.\<close>

theorem telemetry_at_most_once:
  assumes "co_reaches P (ensureLoaded P (createSharePublishCoordinator d)) c" "url_law P"
  shows "distinct (co_sent c)
    \<and> (\<forall>r a k. map_get (co_attempts c) r = Some a \<longrightarrow> (r, k) \<in> set (co_sent c) \<longrightarrow> k \<in> set (sh_reportedFailures a))"
proof -
  let ?c0 = "ensureLoaded P (createSharePublishCoordinator d)"
  have start: "co_ok P ?c0" "co_loaded ?c0" "sent_but None ?c0"
    using ensureLoaded_ok [OF co_start_ok] by (simp_all add: sent_but_def sent_for_def ensureLoaded_sent createSharePublishCoordinator_def)
  from assms(1) have "co_ok P c \<and> sent_but None c \<and> co_loaded c"
  proof (induction rule: co_reaches.induct)
    case (co_next c c')
    with co_step_ok [OF co_next.hyps(2) _ assms(2)] co_step_sent [OF co_next.hyps(2)] show ?case by blast
  qed (use start in blast)
  then show ?thesis by (simp add: sent_but_def sent_for_def)
qed

section \<open>Restarts\<close>

text \<open>What an attempt that was exported and not yet published is: its bytes with their metadata, no URL, a
  preview with its bytes or none, and a failure that names it.\<close>

definition frozen_attempt :: "share_platform \<Rightarrow> share_attempt \<Rightarrow> bool" where
  "frozen_attempt P a \<longleftrightarrow>
     \<not> sh_completed a \<and> \<not> sh_failureOnly a \<and> sh_publishedUrl a = VNull
     \<and> (case sh_snapshotBytes a of
          None \<Rightarrow> False
        | Some bs \<Rightarrow> bs \<noteq> [] \<and> sh_metadata a = snapshotMetadata P bs \<and> snapshotMetadata P bs \<noteq> None)
     \<and> (if jv_truthy (sh_preview a) then sh_previewBytes a \<noteq> None else sh_preview a = VUndef \<and> sh_previewBytes a = None)
     \<and> (case sh_lastFailure a of None \<Rightarrow> True | Some f \<Rightarrow> fa_reference f = sh_reference a \<and> fa_resetAt f \<noteq> Some '''')
     \<and> distinct (sh_reportedFailures a)"

lemma persisted_get:
  "jv_get (persistedRecord a) ''reference'' = VStr (sh_reference a)"
  "jv_get (persistedRecord a) ''attemptId'' = VStr (sh_attemptId a)"
  "jv_get (persistedRecord a) ''ownerKey'' = VStr (sh_ownerKey a)"
  "jv_get (persistedRecord a) ''threadId'' = VNum (NInt (sh_threadId a))"
  "jv_get (persistedRecord a) ''sourceThreadId'' = VStr (sh_sourceThreadId a)"
  "jv_get (persistedRecord a) ''title'' = VStr (if sh_completed a then '''' else sh_title a)"
  "jv_get (persistedRecord a) ''snapshotBytes'' = (if sh_completed a then VArr [] else VBytes (some_bytes (sh_snapshotBytes a)))"
  "jv_get (persistedRecord a) ''preview'' = (if jv_truthy (sh_preview a) then sh_preview a else VUndef)"
  "jv_get (persistedRecord a) ''previewBytes'' =
     (if \<not> jv_truthy (sh_preview a) then VUndef
      else if sh_completed a then VArr [] else VBytes (some_bytes (sh_previewBytes a)))"
  "jv_get (persistedRecord a) ''createdAt'' = VNum (NInt (sh_createdAt a))"
  "jv_get (persistedRecord a) ''lastFailure'' = failure_jv (sh_lastFailure a)"
  "jv_get (persistedRecord a) ''reportedFailures'' = VArr (map VStr (sh_reportedFailures a))"
  "jv_get (persistedRecord a) ''publishedUrl'' = sh_publishedUrl a"
  by (cases "jv_truthy (sh_preview a)"; simp add: persistedRecord_def)+

lemma first_unique_distinct: "distinct xs \<Longrightarrow> first_unique xs = xs"
  by (simp add: first_unique_def distinct_remdups_id)

lemma codes_closed: "set FAILURE_CODES \<subseteq> set CLOSED_FAILURE_CODES"
  by (simp add: FAILURE_CODES_def CLOSED_FAILURE_CODES_def)

text \<open>A valid failure of the attempt is restored as it was.\<close>

lemma restored_failure_back:
  assumes "validFailure (failure_jv f) (VStr r)"
    and "case f of None \<Rightarrow> True | Some x \<Rightarrow> fa_reference x = r \<and> fa_resetAt x \<noteq> Some ''''"
  shows "restored_failure (failure_jv f) r = f"
proof (cases f)
  case (Some x)
  obtain code retryable reset where x: "x = \<lparr>fa_reference = r, fa_code = code, fa_retryable = retryable, fa_resetAt = reset\<rparr>"
    using assms(2) Some by (cases x) simp
  have "code \<in> set FAILURE_CODES"
    using assms(1) Some x by (cases reset) (auto simp: failure_jv_def validFailure_def str_ok_def)
  then have "code \<in> set CLOSED_FAILURE_CODES" using codes_closed by blast
  with assms(2) Some x show ?thesis
    by (cases reset) (auto simp: failure_jv_def restored_failure_def is_obj_def str_ok_def is_bool_def str_of_def)
qed (simp add: failure_jv_def restored_failure_def is_obj_def)

lemma frozen_restored:
  assumes a: "frozen_attempt P a" and v: "validateRecord (platform.truncate P) (persistedRecord a) = Inr (persistedRecord a)"
    and u: "url_law P" and w: "\<And>k. jv_get w k = canonical (persistedRecord a) k" and o: "is_obj w"
  shows "restoredRecord P w = Some (a\<lparr>sh_running := False, sh_dismissing := False, sh_lazy := False\<rparr>)"
proof -
  have nc: "\<not> sh_completed a" using a by (simp add: frozen_attempt_def)
  note g = persisted_get [of a] nc
  note fields = v [unfolded validateRecord_iff, THEN conjunct2, THEN conjunct1, unfolded valid_fields_def]
  obtain bs md where bs: "sh_snapshotBytes a = Some bs" "bs \<noteq> []" "snapshotMetadata P bs = Some md" "sh_metadata a = Some md"
    using a by (auto simp: frozen_attempt_def split: option.splits)
  have url: "\<not> validPublishedUrl (platform.truncate P) VNull" using u by (auto simp: url_law_def jv_truthy_def)
  have f: "restored_failure (failure_jv (sh_lastFailure a)) (sh_reference a) = sh_lastFailure a"
    by (rule restored_failure_back) (use fields a in \<open>simp_all add: g frozen_attempt_def\<close>)
  have ks: "first_unique (map VStr (sh_reportedFailures a)) = map VStr (sh_reportedFailures a)"
    by (rule first_unique_distinct) (use a in \<open>simp add: frozen_attempt_def distinct_map inj_on_def\<close>)
  have ks2: "first_unique (sh_reportedFailures a) = sh_reportedFailures a"
    by (rule first_unique_distinct) (use a in \<open>simp add: frozen_attempt_def\<close>)
  have "restorable w"
    using fields o
    by (auto simp: restorable_def w canonical_def g array_of_def ks valid_reported_def str_ok_def list_all_iff is_bytes_def)
  moreover have "jv_get w ''reference'' = VStr (sh_reference a)" "jv_get w ''attemptId'' = VStr (sh_attemptId a)"
    "jv_get w ''ownerKey'' = VStr (sh_ownerKey a)" "jv_get w ''threadId'' = VNum (NInt (sh_threadId a))"
    "jv_get w ''sourceThreadId'' = VStr (sh_sourceThreadId a)" "jv_get w ''title'' = VStr (sh_title a)"
    "jv_get w ''snapshotBytes'' = VBytes bs" "jv_get w ''createdAt'' = VNum (NInt (sh_createdAt a))"
    "jv_get w ''lastFailure'' = failure_jv (sh_lastFailure a)" "jv_get w ''publishedUrl'' = VNull"
    "jv_get w ''reportedFailures'' = VArr (map VStr (sh_reportedFailures a))"
    using bs a by (simp_all add: w canonical_def g array_of_def ks some_bytes_def frozen_attempt_def)
  moreover have "(if jv_truthy (jv_get w ''preview'') then jv_get w ''preview'' else VUndef) = sh_preview a"
    "(if jv_truthy (jv_get w ''preview'') then Some (bytes_of (jv_get w ''previewBytes'')) else None) = sh_previewBytes a"
    using a by (auto simp: w canonical_def g some_bytes_def frozen_attempt_def split: if_splits)
  moreover have "\<not> sh_completed a" "\<not> sh_failureOnly a" "sh_publishedUrl a = VNull" using a by (simp_all add: frozen_attempt_def)
  ultimately show ?thesis
    using bs(2) unfolding restoredRecord_def Let_def
    by (simp add: url f bs(1,3,4) str_of_def int_of_def num_val_def array_of_def comp_def failure_only_def ks2)
qed

lemma restore_all_get:
  "restore_all P vs staged c = (m, c') \<Longrightarrow>
     \<forall>v \<in> set vs. \<forall>b. restoredRecord P v = Some b \<longrightarrow> sh_reference b = r \<longrightarrow> lazily b = x \<Longrightarrow>
     map_get staged r = Some x \<or> (\<exists>v \<in> set vs. \<exists>b. restoredRecord P v = Some b \<and> sh_reference b = r) \<Longrightarrow>
     map_get m r = Some x"
proof (induction vs arbitrary: staged c)
  case (Cons v vs)
  show ?case
  proof (cases "restoredRecord P v")
    case None
    with Cons.IH [of staged] Cons.prems show ?thesis by simp
  next
    case (Some b)
    have "map_get (map_set staged (sh_reference b) (lazily b)) r = Some x
        \<or> (\<exists>v \<in> set vs. \<exists>b. restoredRecord P v = Some b \<and> sh_reference b = r)"
      using Cons.prems(2,3) Some by auto
    with Cons.IH [of "map_set staged (sh_reference b) (lazily b)" c] Cons.prems(1,2) Some show ?thesis by simp
  qed
qed simp

lemma remember_all_get:
  "map_ok m \<Longrightarrow> list_all (\<lambda>(k, v). sh_reference v = k) m \<Longrightarrow> map_get m r = Some x
     \<Longrightarrow> map_get (co_attempts (fold remember (map_values m) c)) r = Some x"
proof (induction m arbitrary: c)
  case (Cons p m)
  obtain k v where p: "p = (k, v)" by (cases p)
  have other: "r \<notin> fst ` set ps \<Longrightarrow> list_all (\<lambda>(k, v). sh_reference v = k) ps
      \<Longrightarrow> map_get (co_attempts (fold remember (map_values ps) d)) r = map_get (co_attempts d) r" for ps d
    by (induction ps arbitrary: d) (auto simp: map_values_def)
  show ?case
  proof (cases "k = r")
    case True
    with Cons.prems p have "x = v" "r \<notin> fst ` set m" by (auto simp: map_ok_def map_get_def)
    with other [of m "remember v c"] Cons.prems(2) p True show ?thesis by (simp add: map_values_def)
  next
    case False
    with Cons p show ?thesis by (simp add: map_values_def map_ok_def map_get_def)
  qed
qed simp

lemma holds_named: "holds P d n v \<Longrightarrow> filename P (str_of (jv_get v ''reference'')) = n"
  by (auto simp: holds_def readable_def split: if_splits option.splits sum.splits)

lemma restored_reference: "restoredRecord P v = Some b \<Longrightarrow> sh_reference b = str_of (jv_get v ''reference'')"
  by (auto simp: restoredRecord_def Let_def split: if_splits)

text \<open>A record that the store holds is an attempt of the coordinator that loads it.\<close>

lemma load_finds:
  assumes h: "holds (platform.truncate P) d (filename (platform.truncate P) (sh_reference a)) w"
    and n: "RECORD_NAME (filename (platform.truncate P) (sh_reference a))" and r: "restoredRecord P w = Some a"
  shows "map_get (co_attempts (ensureLoaded P (createSharePublishCoordinator d))) (sh_reference a) = Some (lazily a)"
proof -
  let ?P = "platform.truncate P" and ?c = "createSharePublishCoordinator d"
  obtain vs d1 where l: "load_all ?P (recordNames d) d = (vs, d1)" by (cases "load_all ?P (recordNames d) d")
  let ?c1 = "?c\<lparr>co_dir := d1, co_loaded := True\<rparr>"
  obtain m c2 where s: "restore_all P vs [] ?c1 = (m, c2)" by (cases "restore_all P vs [] ?c1")
  have "filename ?P (sh_reference a) \<in> set (recordNames d)"
    using h n by (auto simp: recordNames_set holds_def map_has_iff)
  then have w: "w \<in> set vs" using load_all_records [OF l, of w] h by blast
  have uniq: "lazily b = lazily a" if v: "v \<in> set vs" "restoredRecord P v = Some b" "sh_reference b = sh_reference a" for v b
  proof -
    obtain n' where n': "holds ?P d n' v" using load_all_records [OF l, of v] v(1) by blast
    then have "n' = filename ?P (sh_reference a)" using holds_named restored_reference [OF v(2)] v(3) by metis
    with n' h have "v = w" by (auto simp: holds_def)
    with v(2) r show ?thesis by simp
  qed
  have "map_get m (sh_reference a) = Some (lazily a)"
    by (rule restore_all_get [OF s]) (use uniq w r in blast)+
  moreover have "staged_ok P m" using restore_all_ok [OF s] by (simp add: staged_ok_def)
  then have "map_ok m" "list_all (\<lambda>(k, v). sh_reference v = k) m"
    by (auto simp: staged_ok_def list_all_iff map_get_iff_in)
  ultimately have "map_get (co_attempts (fold remember (map_values m) c2)) (sh_reference a) = Some (lazily a)"
    using remember_all_get by blast
  with l s show ?thesis by (simp add: ensureLoaded_def createSharePublishCoordinator_def)
qed

lemma record_of_obj [simp]: "is_obj (record_of P e)"
  by (simp add: record_of_def is_obj_def)

text \<open>C13. A frozen attempt survives a restart: when it was saved in one session, the coordinator of the next one,
  loading the directory, has that attempt under its reference, equal in every field but the flags of the
  run, with its bytes left in the store until they are needed; and what the store reads for it then restores
  to the attempt with its bytes.\<close>

theorem attempt_survives_restart:
  assumes "frozen_attempt P a" "store_save (platform.truncate P) (persistedRecord a) d = (Inr (), d')"
    and "decoder_law (platform.truncate P)" "url_law P"
    and "pf_json_size P (envelope_of (persistedRecord a)) \<le> MAX_RECORD_BYTES"
    and "RECORD_NAME (filename (platform.truncate P) (sh_reference a))"
  shows "\<exists>w. store_read (platform.truncate P) (sh_reference a) d' = (Some w, d')
      \<and> restoredRecord P w = Some (a\<lparr>sh_running := False, sh_dismissing := False, sh_lazy := False\<rparr>)
      \<and> map_get (co_attempts (ensureLoaded P (createSharePublishCoordinator d'))) (sh_reference a)
        = Some (a\<lparr>sh_running := False, sh_dismissing := False, sh_lazy := True, sh_snapshotBytes := None,
            sh_previewBytes := None\<rparr>)"
proof -
  let ?P = "platform.truncate P" and ?v = "persistedRecord a"
  let ?w = "record_of ?P (envelope_of ?v)" and ?a = "a\<lparr>sh_running := False, sh_dismissing := False, sh_lazy := False\<rparr>"
  have nc: "\<not> sh_completed a" using assms(1) by (simp add: frozen_attempt_def)
  have ref: "str_of (jv_get ?v ''reference'') = sh_reference a" by (simp add: persisted_get str_of_def)
  have size: "pf_json_size ?P (envelope_of ?v) \<le> MAX_RECORD_BYTES" using assms(5) by (simp add: platform.defs)
  note s = store_save_read [OF assms(2,3) size, unfolded ref]
  have w: "restoredRecord P ?w = Some ?a"
    by (rule frozen_restored [OF assms(1) s(1) assms(4) record_of_get [OF s(1) assms(3)] record_of_obj])
  have h: "holds ?P d' (filename ?P (sh_reference ?a)) ?w"
    using loadRecord_holds [OF s(2) [unfolded store_read_def], of ?w] by simp
  have lazy: "lazily ?a = a\<lparr>sh_running := False, sh_dismissing := False, sh_lazy := True, sh_snapshotBytes := None,
            sh_previewBytes := None\<rparr>"
    using assms(1) by (simp add: lazily_def nc frozen_attempt_def)
  have "map_get (co_attempts (ensureLoaded P (createSharePublishCoordinator d'))) (sh_reference a) = Some (lazily ?a)"
    using load_finds [OF h _ w] assms(6) by simp
  with s(2) w show ?thesis unfolding lazy by blast
qed

section \<open>Authority\<close>

lemma account_of_grants: "account_of s = Inr acc \<Longrightarrow> s = Inr (Some acc) \<and> ac_authorization acc \<noteq> ''''"
  by (cases s) (simp_all add: account_of_def exactAccount_def split: option.splits if_splits)

text \<open>\<open>grants s a g\<close>: the session answered with the attempt's owner, signed in at generation \<open>g\<close>.\<close>

definition grants :: "session \<Rightarrow> share_attempt \<Rightarrow> jsnum \<Rightarrow> bool" where
  "grants s a g = (case s of Inr (Some acc) \<Rightarrow> ac_ownerKey acc = sh_ownerKey a \<and> ac_generation acc = g \<and> ac_authorization acc \<noteq> ''''
     | _ \<Rightarrow> False)"

lemma assertAuthority_grants: "assertAuthority a g s = Inr acc \<Longrightarrow> grants s a g"
  by (auto simp: assertAuthority_def bind_r_Inr_iff grants_def dest!: account_of_grants split: if_splits)

lemma publish_once_grants:
  "publish_once P ans g a = Inr url \<Longrightarrow>
     grants (ra_session1 ans) a g \<and> grants (ra_session2 ans) a g \<and> ra_publish ans = Inr (Some url)"
  by (auto simp: publish_once_def bind_r_Inr_iff published_url_def dest!: assertAuthority_grants split: option.splits if_splits)

lemma grants_completed [simp]: "grants s (completed_attempt a u) g = grants s a g"
  by (simp add: grants_def completed_attempt_def cong: sum.case_cong option.case_cong)

lemma run_body_created:
  assumes "run_body P ans g a c = (Created r url, a', c')"
  shows "r = sh_reference a" "a' = completed_attempt a url" "publish_once P ans g a = Inr url"
    "save P (ra_saveIo ans) (completed_attempt a url) c = (True, c')" "grants (ra_session3 ans) a g"
proof -
  obtain u where u: "publish_once P ans g a = Inr u" using assms
    by (cases "publish_once P ans g a") (auto simp: run_body_def dest: run_failed_shape(3))
  obtain b c1 where s: "save P (ra_saveIo ans) (completed_attempt a u) c = (b, c1)"
    by (cases "save P (ra_saveIo ans) (completed_attempt a u) c")
  have b using assms u s by (cases b) (auto simp: run_body_def Let_def dest: run_failed_shape(3))
  with assms u s obtain acc where "assertAuthority (completed_attempt a u) g (ra_session3 ans) = Inr acc"
    and e: "r = sh_reference a" "u = url" "a' = completed_attempt a u" "c' = c1"
    by (cases "assertAuthority (completed_attempt a u) g (ra_session3 ans)") (auto simp: run_body_def Let_def)
  then have "grants (ra_session3 ans) a g"
    using assertAuthority_grants by fastforce
  with e u s \<open>b\<close> show "r = sh_reference a" "a' = completed_attempt a url" "publish_once P ans g a = Inr url"
    "save P (ra_saveIo ans) (completed_attempt a url) c = (True, c')" "grants (ra_session3 ans) a g" by simp_all
qed


section \<open>A concrete history\<close>

definition demo_reference :: string where
  "demo_reference = ''SHR-0123ABCD''"

definition demo_url :: string where
  "demo_url = ''https://share.example/s/1''"

definition demo_share :: share_platform where
  "demo_share = \<lparr>pf_digest = (\<lambda>_. replicate 64 (CHR ''a'')), pf_digestText = (\<lambda>_. replicate 64 (CHR ''b'')),
     pf_parseUrl = (\<lambda>s. if s = demo_url
       then Some \<lparr>url_protocol = ''https:'', url_username = '''', url_password = '''', url_hostname = ''share.example''\<rparr> else None),
     pf_b64_decode = b64_read, pf_json_size = (\<lambda>_. 1000), pf_decodeUtf8 = (\<lambda>_. Some ''{}''), pf_headerProject = (\<lambda>_. Some None)\<rparr>"

definition demo_session :: session where
  "demo_session = Inr (Some \<lparr>ac_ownerKey = ''owner'', ac_authorization = ''token'', ac_generation = NInt 1\<rparr>)"

definition demo_create :: create_answers where
  "demo_create = \<lparr>ca_reference = demo_reference, ca_attemptId = replicate 32 (CHR ''0''), ca_now = 5,
     ca_session1 = demo_session, ca_sourceThread = Inr ''thread-4'', ca_aborted = False, ca_export = Inr [123, 125],
     ca_capture = None, ca_theme = ''light'', ca_session2 = demo_session, ca_preflight = Inr (), ca_session3 = demo_session,
     ca_saveIo = True, ca_reporter = True, ca_reportIo = True\<rparr>"

definition demo_run :: run_answers where
  "demo_run = \<lparr>ra_readFails = None, ra_session1 = demo_session, ra_publish = Inr (Some (VStr demo_url)),
     ra_session2 = demo_session, ra_saveIo = True, ra_session3 = demo_session, ra_failureSaveIo = True,
     ra_reporter = True, ra_reportIo = True\<rparr>"

definition demo_frozen :: share_attempt where
  "demo_frozen = new_attempt demo_share demo_create \<lparr>ac_ownerKey = ''owner'', ac_authorization = ''token'', ac_generation = NInt 1\<rparr>
     4 ''thread-4'' ''A title'' [123, 125] None \<lparr>md_byteLength = 2, md_lineCount = 1, md_sha256 = replicate 64 (CHR ''a''), md_projectName = None\<rparr>"

definition demo_running :: coordinator where
  "demo_running = snd (create demo_share demo_create (NInt 4) ''A title'' (createSharePublishCoordinator []))"

lemma demo_url_law: "url_law demo_share"
  unfolding url_law_def
proof (intro allI impI)
  fix v assume "validPublishedUrl (platform.truncate demo_share) v"
  then have "jv_string v = demo_url"
    by (auto simp: validPublishedUrl_def demo_share_def platform.defs split: if_splits)
  then show "jv_truthy v" by (cases v) (auto simp: jv_truthy_def demo_url_def show_int_def show_nat.simps split: if_splits)
qed

lemma demo_share_laws:
  "decoder_law (platform.truncate demo_share)" "sizes_fit (platform.truncate demo_share)"
  by (simp_all add: decoder_law_def sizes_fit_def demo_share_def platform.defs MAX_RECORD_BYTES_def)

text \<open>The shape the store asks of a record, in terms of the attempt.\<close>

lemma persisted_fields:
  assumes "validReference (sh_reference a)" "length (sh_attemptId a) = 32" "list_all hex_lower (sh_attemptId a)"
    and "sh_ownerKey a \<noteq> []" "length (sh_ownerKey a) \<le> 512" "is_safe_integer (NInt (sh_threadId a))" "0 < sh_threadId a"
    and "sh_sourceThreadId a \<noteq> []" "length (sh_sourceThreadId a) \<le> 1024" "length (sh_title a) \<le> 120"
    and "length (some_bytes (sh_snapshotBytes a)) \<le> MAX_SNAPSHOT_BYTES"
    and "is_safe_integer (NInt (sh_createdAt a))" "0 \<le> sh_createdAt a" "validFailure (failure_jv (sh_lastFailure a)) (VStr (sh_reference a))"
    and "valid_reported (VArr (map VStr (sh_reportedFailures a)))"
  shows "valid_fields (persistedRecord a)"
proof -
  have "exactKeys (persistedRecord a) record_keys [''preview'', ''previewBytes'']"
    by (auto simp: exactKeys_def persistedRecord_def is_obj_def jv_has_def jv_keys_def record_keys_def)
  with assms show ?thesis
    by (auto simp: valid_fields_def persisted_get str_ok_def int_ok_def num_val_def is_bytes_def bytes_length_def)
qed

lemma demo_frozen_simps:
  "sh_reference demo_frozen = demo_reference" "sh_snapshotBytes demo_frozen = Some [123, 125]" "sh_preview demo_frozen = VUndef"
  "sh_previewBytes demo_frozen = None" "sh_lastFailure demo_frozen = None" "sh_reportedFailures demo_frozen = []"
  "\<not> sh_completed demo_frozen" "\<not> sh_failureOnly demo_frozen" "sh_publishedUrl demo_frozen = VNull"
  "\<not> sh_running demo_frozen" "\<not> sh_dismissing demo_frozen" "sh_ownerKey demo_frozen = ''owner''" "\<not> sh_lazy demo_frozen"
  by (simp_all add: demo_frozen_def new_attempt_def demo_create_def preview_of_def)

lemma demo_frozen_fields:
  "valid_fields (persistedRecord (demo_frozen\<lparr>sh_lazy := l, sh_running := r, sh_completed := b, sh_publishedUrl := u, sh_lastFailure := f,
     sh_reportedFailures := ks\<rparr>))"
  if "validFailure (failure_jv f) (VStr demo_reference)" "valid_reported (VArr (map VStr ks))"
  by (rule persisted_fields)
    (use that in \<open>simp_all add: demo_frozen_def new_attempt_def demo_create_def demo_reference_def validReference_def upper_alnum_def
      is_digit_def list_all_iff hex_lower_def is_safe_integer_def max_safe_def some_bytes_def MAX_SNAPSHOT_BYTES_def\<close>)

lemma demo_frozen_same:
  "demo_frozen\<lparr>sh_lazy := False, sh_running := False, sh_completed := False, sh_publishedUrl := VNull, sh_lastFailure := None,
     sh_reportedFailures := []\<rparr> = demo_frozen"
  by (simp add: demo_frozen_def new_attempt_def)

lemma demo_valid_url:
  "validPublishedUrl (platform.truncate demo_share) (VStr demo_url)" "\<not> validPublishedUrl (platform.truncate demo_share) VNull"
  by (simp_all add: validPublishedUrl_def demo_share_def platform.defs demo_url_def)

lemma demo_frozen_valid: "validateRecord (platform.truncate demo_share) (persistedRecord demo_frozen) = Inr (persistedRecord demo_frozen)"
  using demo_frozen_fields [where l = False and r = False and b = False and u = VNull and f = None and ks = "[]", unfolded demo_frozen_same] demo_valid_url
  by (simp add: validateRecord_iff check_preview_def valid_state_def persisted_get demo_frozen_simps jv_truthy_def some_bytes_def
      validFailure_def failure_jv_def valid_reported_def)

definition demo_saved :: dir where
  "demo_saved = [(filename (platform.truncate demo_share) demo_reference, envelope_file (platform.truncate demo_share) (persistedRecord demo_frozen))]"

lemma demo_store_save: "store_save (platform.truncate demo_share) (persistedRecord demo_frozen) [] = (Inr (), demo_saved)"
  using demo_frozen_valid
  by (simp add: store_save_def encodeRecord_def Let_def recordNames_def MAX_ATTEMPTS_GLOBAL_def demo_saved_def envelope_get
      persisted_get demo_frozen_simps str_of_def envelope_file_def)

lemma demo_account: "account_of demo_session = Inr \<lparr>ac_ownerKey = ''owner'', ac_authorization = ''token'', ac_generation = NInt 1\<rparr>"
  by (simp add: demo_session_def account_of_def exactAccount_def is_safe_integer_def max_safe_def num_val_def)

lemma demo_prepare:
  "prepare_attempt demo_share demo_create \<lparr>ac_ownerKey = ''owner'', ac_authorization = ''token'', ac_generation = NInt 1\<rparr>
     4 ''thread-4'' ''A title'' = Inr demo_frozen"
  by (simp add: prepare_attempt_def export_snapshot_def check_account_def same_account_def demo_create_def demo_account
      snapshotMetadata_def demo_share_def snapshot_lines_def demo_frozen_def numeral_2_eq_2)

lemma demo_running_eq:
  "create demo_share demo_create (NInt 4) ''A title'' (createSharePublishCoordinator []) =
     (Inr (NInt 1), \<lparr>co_attempts = [(demo_reference, demo_frozen\<lparr>sh_lazy := True, sh_running := True\<rparr>)], co_loaded = True,
        co_active = Some demo_reference, co_dir = demo_saved, co_sent = []\<rparr>)"
proof -
  have l: "ensureLoaded demo_share (createSharePublishCoordinator []) =
      \<lparr>co_attempts = [], co_loaded = True, co_active = None, co_dir = [], co_sent = []\<rparr>"
    by (simp add: ensureLoaded_def createSharePublishCoordinator_def recordNames_def map_values_def)
  have s: "start_call (valid_thread (NInt 4)) demo_create =
      Inr (\<lparr>ac_ownerKey = ''owner'', ac_authorization = ''token'', ac_generation = NInt 1\<rparr>, ''thread-4'')"
    by (simp add: start_call_def valid_thread_def is_safe_integer_def max_safe_def num_val_def demo_create_def demo_account
        js_trim_def is_space_def)
  have io: "ca_saveIo demo_create" "ca_reference demo_create = demo_reference" by (simp_all add: demo_create_def)
  show ?thesis
    by (simp add: create_def Let_def l s num_val_def demo_prepare save_def demo_store_save io run_begin_def remember_def
        demo_frozen_simps)
qed

lemma demo_running_simps:
  "co_active demo_running = Some demo_reference"
  "co_attempts demo_running = [(demo_reference, demo_frozen\<lparr>sh_lazy := True, sh_running := True\<rparr>)]"
  "co_dir demo_running = demo_saved" "co_sent demo_running = []"
  by (simp_all add: demo_running_def demo_running_eq)

lemma demo_step:
  "fresh_reference demo_reference (ensureLoaded demo_share c) \<Longrightarrow> c = createSharePublishCoordinator [] \<Longrightarrow> co_step demo_share c demo_running"
  by (rule creates [of demo_create _ _ "NInt 4" "''A title''" "Inr (NInt 1)"])
    (simp_all add: demo_create_def, simp add: demo_create_def [symmetric] demo_running_def demo_running_eq)

lemma demo_reach: "co_reaches demo_share (createSharePublishCoordinator []) demo_running"
  by (rule co_next [OF co_start demo_step])
    (simp_all add: fresh_reference_def ensureLoaded_def createSharePublishCoordinator_def recordNames_def map_values_def)


definition demo_broken_run :: run_answers where
  "demo_broken_run = demo_run\<lparr>ra_publish := Inl (plain_error\<lparr>er_stage := Some ''upload''\<rparr>)\<rparr>"

definition demo_loaded :: coordinator where
  "demo_loaded = ensureLoaded demo_share (createSharePublishCoordinator demo_saved)"

lemma demo_frozen_frozen: "frozen_attempt demo_share demo_frozen"
  by (simp add: frozen_attempt_def demo_frozen_simps jv_truthy_def snapshotMetadata_def)
    (simp add: demo_frozen_def new_attempt_def demo_share_def snapshot_lines_def numeral_2_eq_2)

lemma demo_record_name: "RECORD_NAME (filename (platform.truncate demo_share) demo_reference)"
  by (simp add: RECORD_NAME_def filename_def demo_share_def platform.defs list_all_iff hex_lower_def)

lemma demo_size: "pf_json_size demo_share v \<le> MAX_RECORD_BYTES"
  by (simp add: demo_share_def MAX_RECORD_BYTES_def)

theorem attempt_survives_restart_witness:
  "map_get (co_attempts demo_loaded) demo_reference = Some (demo_frozen\<lparr>sh_running := False, sh_dismissing := False,
     sh_lazy := True, sh_snapshotBytes := None, sh_previewBytes := None\<rparr>)"
  using attempt_survives_restart [OF demo_frozen_frozen demo_store_save demo_share_laws(1) demo_url_law demo_size]
    demo_record_name unfolding demo_frozen_simps demo_loaded_def by blast

lemma demo_saved_names: "filename (platform.truncate demo_share) demo_reference \<in> set (recordNames (map_set demo_saved n f))"
  using demo_record_name by (simp add: recordNames_set demo_saved_def map_has_set map_has_def)

lemma save_replaces:
  assumes "validateRecord (platform.truncate P) (persistedRecord a) = Inr (persistedRecord a)"
    and "filename (platform.truncate P) (sh_reference a) \<in> set (recordNames (co_dir c))"
  shows "save P True a c = (True, c\<lparr>co_dir := map_set (co_dir c) (filename (platform.truncate P) (sh_reference a))
    (envelope_file (platform.truncate P) (persistedRecord a))\<rparr>)"
  using assms by (simp add: save_def store_save_def encodeRecord_def Let_def envelope_get persisted_get str_of_def envelope_file_def)

lemma demo_completed_valid:
  "validateRecord (platform.truncate demo_share) (persistedRecord (completed_attempt (demo_frozen\<lparr>sh_lazy := l, sh_running := r\<rparr>) (VStr demo_url)))
     = Inr (persistedRecord (completed_attempt (demo_frozen\<lparr>sh_lazy := l, sh_running := r\<rparr>) (VStr demo_url)))"
proof -
  let ?a = "demo_frozen\<lparr>sh_lazy := l, sh_running := r, sh_completed := True, sh_publishedUrl := VStr demo_url,
    sh_lastFailure := None, sh_reportedFailures := []\<rparr>"
  have "completed_attempt (demo_frozen\<lparr>sh_lazy := l, sh_running := r\<rparr>) (VStr demo_url) = ?a"
    by (simp add: completed_attempt_def demo_frozen_def new_attempt_def)
  moreover have "valid_fields (persistedRecord ?a)"
    by (rule demo_frozen_fields) (simp_all add: validFailure_def failure_jv_def valid_reported_def)
  ultimately show ?thesis using demo_valid_url
    by (simp add: validateRecord_iff check_preview_def valid_state_def persisted_get demo_frozen_simps jv_truthy_def failure_jv_def
        bytes_length_def)
qed

lemma demo_created: "\<exists>c'. run_settle demo_share demo_run (NInt 1) demo_reference demo_running = (Created demo_reference (VStr demo_url), c')"
proof -
  let ?a = "demo_frozen\<lparr>sh_lazy := True, sh_running := True\<rparr>"
  have auth: "assertAuthority a (NInt 1) demo_session = Inr \<lparr>ac_ownerKey = ''owner'', ac_authorization = ''token'', ac_generation = NInt 1\<rparr>"
    if "sh_ownerKey a = ''owner''" for a using that by (simp add: assertAuthority_def demo_account)
  have f: "read_frozen demo_share demo_run ?a demo_running = (Inr (Some ?a), demo_running)"
    by (simp add: read_frozen_def demo_frozen_simps)
  have p: "publish_once demo_share demo_run (NInt 1) ?a = Inr (VStr demo_url)"
    by (simp add: publish_once_def demo_run_def auth demo_frozen_simps published_url_def demo_valid_url)
  have s: "fst (save demo_share True (completed_attempt ?a (VStr demo_url)) demo_running)"
    using save_replaces [OF demo_completed_valid, of True True demo_running] demo_record_name
    by (simp add: demo_running_simps demo_saved_def completed_attempt_def demo_frozen_simps recordNames_def map_keys_def)
  have "\<exists>a' c'. run_body demo_share demo_run (NInt 1) ?a demo_running = (Created demo_reference (VStr demo_url), a', c')"
    using s p by (cases "save demo_share True (completed_attempt ?a (VStr demo_url)) demo_running")
      (simp add: run_body_def Let_def, simp add: demo_run_def auth demo_frozen_simps completed_attempt_def)
  with f show ?thesis by (auto simp: run_settle_def demo_running_simps map_get_def)
qed


definition demo_reported :: coordinator where
  "demo_reported = snd (run_settle demo_share demo_broken_run (NInt 1) demo_reference demo_running)"

lemma demo_failed_valid:
  assumes "ks = [] \<or> ks = [''upload:share.upload_failed'']"
  shows "validateRecord (platform.truncate demo_share) (persistedRecord
      (demo_frozen\<lparr>sh_lazy := True, sh_running := True, sh_completed := False, sh_publishedUrl := VNull,
        sh_lastFailure := Some (closedFailure plain_error demo_reference), sh_reportedFailures := ks\<rparr>))
    = Inr (persistedRecord (demo_frozen\<lparr>sh_lazy := True, sh_running := True, sh_completed := False, sh_publishedUrl := VNull,
        sh_lastFailure := Some (closedFailure plain_error demo_reference), sh_reportedFailures := ks\<rparr>))"
proof -
  have "valid_fields (persistedRecord (demo_frozen\<lparr>sh_lazy := True, sh_running := True, sh_completed := False, sh_publishedUrl := VNull,
        sh_lastFailure := Some (closedFailure plain_error demo_reference), sh_reportedFailures := ks\<rparr>))"
    by (rule demo_frozen_fields) (use assms in \<open>auto simp: validFailure_def failure_jv_def valid_reported_def closedFailure_def
        failureCode_def plain_error_def exactKeys_def is_obj_def jv_has_def jv_keys_def str_ok_def FAILURE_CODES_def is_bool_def Let_def\<close>)
  with demo_valid_url show ?thesis
    by (simp add: validateRecord_iff check_preview_def valid_state_def persisted_get demo_frozen_simps jv_truthy_def some_bytes_def)
qed

lemma demo_sent: "co_sent demo_reported = [(demo_reference, ''upload:share.upload_failed'')]"
proof -
  let ?a = "demo_frozen\<lparr>sh_lazy := True, sh_running := True\<rparr>"
  let ?e = "plain_error\<lparr>er_stage := Some ''upload''\<rparr>" and ?n = "filename (platform.truncate demo_share) demo_reference"
  let ?f = "\<lambda>ks. demo_frozen\<lparr>sh_lazy := True, sh_running := True, sh_completed := False, sh_publishedUrl := VNull,
        sh_lastFailure := Some (closedFailure plain_error demo_reference), sh_reportedFailures := ks\<rparr>"
  have e: "closedFailure ?e demo_reference = closedFailure plain_error demo_reference"
    by (simp add: closedFailure_def failureCode_def plain_error_def Let_def)
  have a: "failed_attempt ?a (closedFailure ?e demo_reference) = ?f []"
    by (simp add: failed_attempt_def e) (simp add: demo_frozen_def new_attempt_def)
  have t: "telemetryRecord ?e = Some (''upload'', ''share.upload_failed'')"
    by (simp add: telemetryRecord_def failureCode_def plain_error_def NON_REPORTED_CODES_def Let_def)
  have ref: "sh_reference (?f ks) = demo_reference" for ks by (simp add: demo_frozen_simps)
  have n: "?n \<in> set (recordNames (map_set demo_saved m g))" "?n \<in> set (recordNames demo_saved)" for m g
    using demo_saved_names demo_record_name by (simp_all add: demo_saved_def recordNames_def map_keys_def)
  obtain g where s1: "save demo_share True (?f []) demo_running = (True, demo_running\<lparr>co_dir := map_set demo_saved ?n g\<rparr>)"
    using save_replaces [OF demo_failed_valid, of "[]" demo_running] n by (simp add: demo_running_simps ref demo_frozen_simps)
  obtain h where s2: "save demo_share True (?f [''upload:share.upload_failed'']) (demo_running\<lparr>co_dir := map_set demo_saved ?n g\<rparr>)
      = (True, demo_running\<lparr>co_dir := h\<rparr>)"
    using save_replaces [OF demo_failed_valid, of "[''upload:share.upload_failed'']" "demo_running\<lparr>co_dir := map_set demo_saved ?n g\<rparr>"] n
    by (simp add: ref demo_frozen_simps)
  have b: "ra_publish demo_broken_run = Inl ?e" "ra_failureSaveIo demo_broken_run" "ra_reporter demo_broken_run" "ra_reportIo demo_broken_run"
    "ra_session1 demo_broken_run = demo_session" by (simp_all add: demo_broken_run_def demo_run_def)
  have "assertAuthority ?a (NInt 1) demo_session = Inr \<lparr>ac_ownerKey = ''owner'', ac_authorization = ''token'', ac_generation = NInt 1\<rparr>"
    by (simp add: assertAuthority_def demo_account demo_frozen_simps)
  then have p: "publish_once demo_share demo_broken_run (NInt 1) ?a = Inl ?e"
    by (simp add: publish_once_def b published_url_def)
  have "run_body demo_share demo_broken_run (NInt 1) ?a demo_running =
      (Failure (closedFailure ?e demo_reference), ?f [''upload:share.upload_failed''],
       demo_running\<lparr>co_dir := h, co_sent := [(demo_reference, ''upload:share.upload_failed'')]\<rparr>)"
    using s1 s2 a t b
    by (simp add: run_body_def p run_failed_def Let_def demo_frozen_simps report_def report_key_def demo_running_simps)
  moreover have "read_frozen demo_share demo_broken_run ?a demo_running = (Inr (Some ?a), demo_running)"
    by (simp add: read_frozen_def demo_frozen_simps)
  ultimately show ?thesis by (simp add: demo_reported_def run_settle_def demo_running_simps map_get_def release_def)
qed

lemma demo_report_reach: "co_reaches demo_share (ensureLoaded demo_share (createSharePublishCoordinator [])) demo_reported"
proof -
  let ?c = "ensureLoaded demo_share (createSharePublishCoordinator [])"
  have l: "ensureLoaded demo_share ?c = ?c" using ensureLoaded_loaded by (subst ensureLoaded_def) simp
  have "create demo_share demo_create (NInt 4) ''A title'' ?c = (Inr (NInt 1), demo_running)"
    using demo_running_eq by (simp add: demo_running_def) (simp add: create_def l)
  moreover have "fresh_reference (ca_reference demo_create) (ensureLoaded demo_share ?c)"
    by (simp add: l) (simp add: fresh_reference_def ensureLoaded_def createSharePublishCoordinator_def recordNames_def map_values_def)
  ultimately have "co_step demo_share ?c demo_running" by (intro creates)
  moreover have "co_step demo_share demo_running demo_reported"
    unfolding demo_reported_def by (rule settles [OF demo_running_simps(1)]) (rule prod.collapse [symmetric])
  ultimately show ?thesis using co_start co_next by metis
qed

theorem telemetry_at_most_once_witness:
  "co_sent demo_reported = [(demo_reference, ''upload:share.upload_failed'')] \<and> distinct (co_sent demo_reported)"
  using telemetry_at_most_once [OF demo_report_reach demo_url_law] demo_sent by blast

end
