(* ===== verification/ShareServiceClient.thy ===== *)
theory ShareServiceClient
  imports ShareCoordinator
begin

text \<open>
  The transport under the publish coordinator (\<open>desktop/main/services/share-service-client.mjs\<close>). Every call is a
  function of what the world answers: the record \<open>client_world\<close> says, after a given trace of effects, what the
  authority assertion, the service and the upload host answer. The result of a call is an error or a value,
  with the trace of the effects it had, in order; \<open>and_then\<close> is the sequencing of \<open>await\<close>s.

  The results: each reservation, upload and finalization follows a successful assertion of authority, in the one
  order the protocol allows (\<open>publish_protocol\<close>); the codes of the errors are closed (\<open>client_codes_closed\<close>); a
  spent quota reaches the user with its reset time; and an authority that is lost between the reservation and
  the end is reported as a failure of the service (\<open>lost_authority_reported_as_service_failure\<close>), although
  the coordinator asks for it to be reported as signed out.

  Parameters: the URL parser and \<open>encodeURIComponent\<close>. An \<open>AbortSignal\<close> shows as the error of the call it aborts.
\<close>

section \<open>Errors\<close>

definition KNOWN_SERVICE_CODES :: "string list" where
  "KNOWN_SERVICE_CODES =
     [''daily_quota_exhausted'', ''reservation_limit_exhausted'', ''snapshot_too_large'', ''reservation_expired'',
      ''staged_snapshot_missing'', ''snapshot_mismatch'', ''attempt_closed'', ''attempt_conflict'', ''invalid_request'',
      ''invalid_share_title'']"

text \<open>An error as the coordinator reads it, whether it is a \<open>ShareServiceClientError\<close>, and what that one adds.\<close>

record client_error = share_error +
  ce_client :: bool
  ce_status :: int
  ce_used :: "int option"
  ce_limit :: "int option"

definition foreign_error :: "share_error \<Rightarrow> client_error" where
  "foreign_error e = share_error.extend e \<lparr>ce_client = False, ce_status = 0, ce_used = None, ce_limit = None\<rparr>"

definition safe_int_of :: "jv \<Rightarrow> int option" where
  "safe_int_of v = (case v of VNum n \<Rightarrow> if is_safe_integer n then Some (num_val n) else None | _ \<Rightarrow> None)"

text \<open>\<open>resetAt\<close> is kept when it is a safe integer or a string; the coordinator only reads a string.\<close>

definition clientError :: "string \<Rightarrow> int \<Rightarrow> string \<Rightarrow> jv \<Rightarrow> client_error" where
  "clientError code status stage data =
     \<lparr>er_abort = False, er_code = Some code,
      er_resetAt = (case jv_get data ''resetAt'' of VStr s \<Rightarrow> Some s | _ \<Rightarrow> None), er_stage = Some stage,
      ce_client = True, ce_status = status, ce_used = safe_int_of (jv_get data ''used''),
      ce_limit = safe_int_of (jv_get data ''limit'')\<rparr>"

definition service_failed :: "client_error" where
  "service_failed = clientError ''share_service_failed'' 0 ''service'' VUndef"

definition upload_failed :: "client_error" where
  "upload_failed = clientError ''share_upload_failed'' 0 ''upload'' VUndef"

definition exactBearer :: "string \<Rightarrow> client_error + string" where
  "exactBearer v =
     (let rest = drop 6 v; token = dropWhile is_space rest in
      if take 6 v = ''Bearer'' \<and> takeWhile is_space rest \<noteq> [] \<and> token \<noteq> [] \<and> list_all (\<lambda>c. \<not> is_space c) token
      then Inr v else Inl (clientError ''share_sign_in_required'' 0 ''service'' VUndef))"

record http_response =
  hr_status :: int
  hr_json :: "jv option"

definition response_ok :: "http_response \<Rightarrow> bool" where
  "response_ok r \<longleftrightarrow> 200 \<le> hr_status r \<and> hr_status r \<le> 299"

definition responseBody :: "http_response \<Rightarrow> jv" where
  "responseBody r = (if hr_status r = 204 then VNull else case hr_json r of None \<Rightarrow> VNull | Some v \<Rightarrow> v)"

definition serviceError :: "http_response \<Rightarrow> jv \<Rightarrow> string \<Rightarrow> client_error" where
  "serviceError r body stage =
     (let rawCode = str_of (jv_get body ''error'');
          code = (if stage = ''service'' \<and> (hr_status r = 401 \<or> hr_status r = 403) then ''share_sign_in_required''
                  else if rawCode \<in> set KNOWN_SERVICE_CODES then rawCode else ''share_service_failed'') in
      clientError code (hr_status r) stage body)"

definition transportError :: "client_error \<Rightarrow> string \<Rightarrow> client_error" where
  "transportError e stage =
     (if ce_client e \<or> er_abort e then e
      else clientError (if stage = ''upload'' then ''share_upload_failed'' else ''share_service_failed'') 0 stage VUndef)"

section \<open>Effects\<close>

datatype effect =
    Asserted bool
  | Requested string string string "string option"
  | Uploaded string "byte list" bool

type_synonym trace = "effect list"

text \<open>An authority assertion answers with the account's authorization, if it answers with anything.\<close>

record client_world =
  cw_authority :: "trace \<Rightarrow> client_error + string option"
  cw_fetch :: "trace \<Rightarrow> client_error + http_response"
  cw_upload :: "trace \<Rightarrow> client_error + http_response"
  cw_encode :: "string \<Rightarrow> string"

type_synonym 'a call = "trace \<Rightarrow> (client_error + 'a) \<times> trace"

definition and_then :: "'a call \<Rightarrow> ('a \<Rightarrow> 'b call) \<Rightarrow> 'b call" where
  "and_then m f tr = (case m tr of (Inl e, tr') \<Rightarrow> (Inl e, tr') | (Inr a, tr') \<Rightarrow> f a tr')"

definition give :: "client_error + 'a \<Rightarrow> 'a call" where
  "give r tr = (r, tr)"

definition catch_with :: "(client_error \<Rightarrow> client_error) \<Rightarrow> 'a call \<Rightarrow> 'a call" where
  "catch_with h m tr = (case m tr of (Inl e, tr') \<Rightarrow> (Inl (h e), tr') | r \<Rightarrow> r)"

definition assert_authority :: "client_world \<Rightarrow> string option call" where
  "assert_authority W tr =
     (case cw_authority W tr of
        Inl e \<Rightarrow> (Inl e, tr @ [Asserted False])
      | Inr a \<Rightarrow> (Inr a, tr @ [Asserted True]))"

section \<open>The client\<close>

record share_client =
  sc_origin :: string

definition strip_slash :: "string \<Rightarrow> string" where
  "strip_slash s = (if s \<noteq> [] \<and> last s = CHR ''/'' then butlast s else s)"

definition exactUrl :: "(string \<Rightarrow> (string \<times> string) option) \<Rightarrow> string \<Rightarrow> string result" where
  "exactUrl parse v =
     (case parse v of
        None \<Rightarrow> Inl (TypeError ''Share service endpoint must be an HTTP(S) URL.'')
      | Some (protocol, href) \<Rightarrow>
          if protocol \<noteq> ''https:'' \<and> protocol \<noteq> ''http:''
          then Inl (TypeError ''Share service endpoint must be an HTTP(S) URL.'') else Inr (strip_slash href))"

definition positive_timeout :: "jsnum \<Rightarrow> bool" where
  "positive_timeout n \<longleftrightarrow> is_safe_integer n \<and> num_val n > 0"

definition createShareServiceClient ::
  "(string \<Rightarrow> (string \<times> string) option) \<Rightarrow> string \<Rightarrow> jsnum \<Rightarrow> jsnum \<Rightarrow> share_client result" where
  "createShareServiceClient parse endpoint timeoutMs uploadTimeoutMs =
     bind_r (exactUrl parse endpoint) (\<lambda>origin.
       if \<not> positive_timeout timeoutMs then Inl (TypeError ''Share service timeout must be positive.'')
       else if \<not> positive_timeout uploadTimeoutMs then Inl (TypeError ''Share upload timeout must be positive.'')
       else Inr \<lparr>sc_origin = origin\<rparr>)"

definition pathUrl :: "string \<Rightarrow> string \<Rightarrow> string" where
  "pathUrl origin path = origin @ (if prefix ''/'' path then path else ''/'' @ path)"

text \<open>\<open>request\<close>: the method, the URL, the bearer and the idempotency key of the call are its effect.\<close>

definition request ::
  "client_world \<Rightarrow> share_client \<Rightarrow> string \<Rightarrow> string \<Rightarrow> string \<Rightarrow> string option \<Rightarrow> jv call" where
  "request W c path authorization method key =
     and_then (give (exactBearer authorization)) (\<lambda>bearer tr.
       case cw_fetch W tr of
         Inl e \<Rightarrow> (Inl (transportError e ''service''), tr @ [Requested method (pathUrl (sc_origin c) path) bearer key])
       | Inr r \<Rightarrow>
           (if response_ok r then Inr (responseBody r) else Inl (serviceError r (responseBody r) ''service''),
            tr @ [Requested method (pathUrl (sc_origin c) path) bearer key]))"

definition exactUploadPolicy :: "jv \<Rightarrow> client_error + jv" where
  "exactUploadPolicy v =
     (if jv_get v ''method'' \<noteq> VStr ''POST'' \<or> \<not> str_ok (\<lambda>_. True) (jv_get v ''url'')
         \<or> \<not> str_ok (\<lambda>_. True) (jv_get v ''key'') \<or> \<not> (is_obj (jv_get v ''fields'') \<or> is_bytes (jv_get v ''fields''))
      then Inl service_failed else Inr v)"

text \<open>\<open>Object.entries(policy.fields)\<close>, the values.\<close>

definition policy_values :: "jv \<Rightarrow> jv list" where
  "policy_values v = (case jv_get v ''fields'' of VObj fs \<Rightarrow> map snd fs | VArr vs \<Rightarrow> vs | _ \<Rightarrow> [])"

definition appendUpload :: "jv \<Rightarrow> client_error + unit" where
  "appendUpload policy =
     (if list_all (str_ok (\<lambda>_. True)) (policy_values policy) then Inr () else Inl upload_failed)"

definition upload :: "client_world \<Rightarrow> jv \<Rightarrow> byte list \<Rightarrow> bool \<Rightarrow> unit call" where
  "upload W policy bs preview =
     and_then (give (exactUploadPolicy policy)) (\<lambda>exact.
     and_then (give (appendUpload exact)) (\<lambda>_ tr.
       let tr' = tr @ [Uploaded (str_of (jv_get exact ''url'')) bs preview] in
       case cw_upload W tr of
         Inl e \<Rightarrow> (Inl (transportError e ''upload''), tr')
       | Inr r \<Rightarrow> (if response_ok r then Inr () else Inl (serviceError r (responseBody r) ''upload''), tr')))"

section \<open>Publishing\<close>

text \<open>The attempt as the client reads it: its id and the length of its preview, if it has one.\<close>

record publish_attempt =
  pb_attemptId :: string
  pb_preview :: "nat option"

definition valid_reservation :: "jv \<Rightarrow> bool" where
  "valid_reservation r \<longleftrightarrow> is_obj r \<and> str_ok (\<lambda>_. True) (jv_get r ''shareId'')"

definition or_authorization :: "string option \<Rightarrow> string \<Rightarrow> string" where
  "or_authorization a b = (case a of None \<Rightarrow> b | Some x \<Rightarrow> x)"

text \<open>The preview of an attempt that has one: a fresh assertion, then the bytes the attempt announced.\<close>

definition upload_preview :: "client_world \<Rightarrow> publish_attempt \<Rightarrow> byte list option \<Rightarrow> jv \<Rightarrow> unit call" where
  "upload_preview W a previewBytes reservation =
     (case pb_preview a of
        None \<Rightarrow> give (Inr ())
      | Some n \<Rightarrow>
          and_then (assert_authority W) (\<lambda>_.
            case previewBytes of
              None \<Rightarrow> give (Inl upload_failed)
            | Some bs \<Rightarrow>
                if length bs \<noteq> n then give (Inl upload_failed)
                else upload W (jv_get reservation ''previewUpload'') bs True))"

definition finish_reservation ::
  "client_world \<Rightarrow> share_client \<Rightarrow> string \<Rightarrow> publish_attempt \<Rightarrow> byte list \<Rightarrow> byte list option \<Rightarrow> jv \<Rightarrow> jv call" where
  "finish_reservation W c authorization a bs previewBytes reservation =
     (if jv_get reservation ''status'' = VStr ''reserved'' then
        and_then (upload W (jv_get reservation ''upload'') bs False) (\<lambda>_.
        and_then (upload_preview W a previewBytes reservation) (\<lambda>_.
        and_then (assert_authority W) (\<lambda>current.
          request W c (''/shares/'' @ cw_encode W (str_of (jv_get reservation ''shareId'')) @ ''/finalize'')
            (or_authorization current authorization) ''POST'' None)))
      else if jv_get reservation ''status'' = VStr ''published'' \<and> str_ok (\<lambda>_. True) (jv_get reservation ''url'')
      then give (Inr reservation)
      else give (Inl service_failed))"

definition publish_body ::
  "client_world \<Rightarrow> share_client \<Rightarrow> string \<Rightarrow> publish_attempt \<Rightarrow> byte list \<Rightarrow> byte list option \<Rightarrow> jv call" where
  "publish_body W c authorization a bs previewBytes =
     and_then (request W c ''/shares'' authorization ''POST'' (Some (pb_attemptId a))) (\<lambda>reservation.
       if \<not> valid_reservation reservation then give (Inl service_failed)
       else and_then (assert_authority W) (\<lambda>_. finish_reservation W c authorization a bs previewBytes reservation))"

definition rethrown :: "client_error \<Rightarrow> client_error" where
  "rethrown e = transportError e (case er_stage e of None \<Rightarrow> ''service'' | Some s \<Rightarrow> s)"

definition publish ::
  "client_world \<Rightarrow> share_client \<Rightarrow> string \<Rightarrow> publish_attempt \<Rightarrow> byte list \<Rightarrow> byte list option \<Rightarrow> jv call" where
  "publish W c authorization a bs previewBytes =
     and_then (give (exactBearer authorization)) (\<lambda>_.
     and_then (assert_authority W) (\<lambda>initial.
       catch_with rethrown (publish_body W c (or_authorization initial authorization) a bs previewBytes)))"

section \<open>Listing and quota\<close>

definition list_shares :: "client_world \<Rightarrow> share_client \<Rightarrow> string \<Rightarrow> jv list call" where
  "list_shares W c authorization =
     and_then (request W c ''/shares'' authorization ''GET'' None) (\<lambda>r.
       case jv_get r ''items'' of VArr vs \<Rightarrow> give (Inr vs) | _ \<Rightarrow> give (Inl service_failed))"

definition quota_ok :: "jv \<Rightarrow> bool" where
  "quota_ok q \<longleftrightarrow>
     safe_int_of (jv_get q ''used'') \<noteq> None \<and> safe_int_of (jv_get q ''limit'') \<noteq> None
     \<and> str_ok (\<lambda>_. True) (jv_get q ''resetAt'')"

definition check_quota :: "jv \<Rightarrow> client_error + unit" where
  "check_quota q =
     (if \<not> quota_ok q then Inl service_failed
      else if the (safe_int_of (jv_get q ''used'')) \<ge> the (safe_int_of (jv_get q ''limit''))
      then Inl (clientError ''daily_quota_exhausted'' 429 ''service'' q)
      else Inr ())"

definition client_preflight :: "client_world \<Rightarrow> share_client \<Rightarrow> string \<Rightarrow> unit call" where
  "client_preflight W c authorization =
     and_then (assert_authority W) (\<lambda>_.
     and_then (request W c ''/shares/quota'' authorization ''GET'' None) (\<lambda>quota.
     and_then (assert_authority W) (\<lambda>_. give (check_quota quota))))"

section \<open>The order of effects\<close>

datatype effect_kind = KAssert | KRefused | KReserve | KUpload | KPreview | KFinalize

fun kind_of :: "effect \<Rightarrow> effect_kind" where
  "kind_of (Asserted b) = (if b then KAssert else KRefused)"
| "kind_of (Requested method url bearer key) = (if key = None then KFinalize else KReserve)"
| "kind_of (Uploaded url bs preview) = (if preview then KPreview else KUpload)"

text \<open>A call that stopped within a sequence: after one of its prefixes, or at an assertion that was refused.\<close>

definition stopped_within :: "effect_kind list \<Rightarrow> effect_kind list \<Rightarrow> bool" where
  "stopped_within xs ks \<longleftrightarrow>
     prefix xs ks \<or> (xs \<noteq> [] \<and> last xs = KRefused \<and> prefix (butlast xs @ [KAssert]) ks)"

text \<open>A call that ends with one of the sequences \<open>Ks\<close>, or stops within one of them.\<close>

definition runs :: "effect_kind list set \<Rightarrow> 'a call \<Rightarrow> bool" where
  "runs Ks m \<longleftrightarrow>
     (\<forall>tr. \<exists>new. snd (m tr) = tr @ new
        \<and> (case fst (m tr) of Inr _ \<Rightarrow> map kind_of new \<in> Ks | Inl _ \<Rightarrow> \<exists>ks\<in>Ks. stopped_within (map kind_of new) ks))"

lemma stopped_Nil [simp]: "stopped_within [] ks"
  by (simp add: stopped_within_def)

lemma stopped_append: "stopped_within xs ks \<Longrightarrow> stopped_within xs (ks @ ls)"
  by (auto simp: stopped_within_def)

lemma stopped_after: "stopped_within ys ls \<Longrightarrow> stopped_within (ks @ ys) (ks @ ls)"
  by (auto simp: stopped_within_def butlast_append)

lemma runs_give: "runs {[]} (give r)"
  by (simp add: runs_def give_def split: sum.split)

lemma runs_mono:
  assumes "runs Ks m" and "Ks \<subseteq> Ls"
  shows "runs Ls m"
  unfolding runs_def
proof
  fix tr
  show "\<exists>new. snd (m tr) = tr @ new
      \<and> (case fst (m tr) of Inr _ \<Rightarrow> map kind_of new \<in> Ls | Inl _ \<Rightarrow> \<exists>ks\<in>Ls. stopped_within (map kind_of new) ks)"
    using assms(1) [unfolded runs_def, rule_format, of tr] assms(2) by (cases "fst (m tr)") auto
qed

lemma runs_then:
  assumes m: "runs {ks} m" and f: "\<And>a. runs Ls (f a)" and "Ls \<noteq> {}"
  shows "runs ((@) ks ` Ls) (and_then m f)"
  unfolding runs_def
proof
  fix tr
  obtain r tr1 where r: "m tr = (r, tr1)" by (cases "m tr")
  obtain new where new: "tr1 = tr @ new"
      "case r of Inr _ \<Rightarrow> map kind_of new = ks | Inl _ \<Rightarrow> stopped_within (map kind_of new) ks"
    using m [unfolded runs_def, rule_format, of tr] r by (cases r) auto
  show "\<exists>new. snd (and_then m f tr) = tr @ new
      \<and> (case fst (and_then m f tr) of Inr _ \<Rightarrow> map kind_of new \<in> (@) ks ` Ls
         | Inl _ \<Rightarrow> \<exists>ks'\<in>(@) ks ` Ls. stopped_within (map kind_of new) ks')"
  proof (cases r)
    case (Inl e)
    with r new assms(3) show ?thesis by (auto simp: and_then_def stopped_append)
  next
    case (Inr a)
    obtain more where more: "snd (f a tr1) = tr1 @ more"
        "case fst (f a tr1) of Inr _ \<Rightarrow> map kind_of more \<in> Ls | Inl _ \<Rightarrow> \<exists>ls\<in>Ls. stopped_within (map kind_of more) ls"
      using f [of a] unfolding runs_def by blast
    with r new Inr show ?thesis
      by (intro exI [of _ "new @ more"]) (auto simp: and_then_def split: sum.splits intro: stopped_after)
  qed
qed

lemma runs_assert: "runs {[KAssert]} (assert_authority W)"
  by (auto simp: runs_def assert_authority_def stopped_within_def split: sum.split)

lemma runs_request:
  "runs {[if key = None then KFinalize else KReserve]} (request W c path authorization method key)"
  by (auto simp: runs_def request_def and_then_def give_def stopped_within_def split: sum.split)

lemma runs_upload: "runs {[if preview then KPreview else KUpload]} (upload W policy bs preview)"
  by (auto simp: runs_def upload_def and_then_def give_def stopped_within_def Let_def split: sum.split)

lemma runs_catch:
  assumes "runs Ks m"
  shows "runs Ks (catch_with h m)"
  unfolding runs_def
proof
  fix tr
  have "fst (catch_with h m tr) = (case fst (m tr) of Inl e \<Rightarrow> Inl (h e) | Inr a \<Rightarrow> Inr a)"
    and "snd (catch_with h m tr) = snd (m tr)"
    by (auto simp: catch_with_def split: prod.split sum.split)
  then show "\<exists>new. snd (catch_with h m tr) = tr @ new
      \<and> (case fst (catch_with h m tr) of Inr _ \<Rightarrow> map kind_of new \<in> Ks
         | Inl _ \<Rightarrow> \<exists>ks\<in>Ks. stopped_within (map kind_of new) ks)"
    using assms [unfolded runs_def, rule_format, of tr] by (auto split: sum.splits)
qed

lemma runs_if: "runs Ks x \<Longrightarrow> runs Ks y \<Longrightarrow> runs Ks (if b then x else y)"
  by simp

definition preview_effects :: "publish_attempt \<Rightarrow> effect_kind list" where
  "preview_effects a = (if pb_preview a = None then [] else [KAssert, KPreview])"

text \<open>A failure without an effect stops within any sequence.\<close>

lemma runs_fail: "Ks \<noteq> {} \<Longrightarrow> runs Ks (give (Inl e))"
  by (auto simp: runs_def give_def)

lemma runs_upload_preview: "runs {preview_effects a} (upload_preview W a pbs reservation)"
proof (cases "pb_preview a")
  case None
  then show ?thesis by (simp add: upload_preview_def preview_effects_def runs_give)
next
  case (Some n)
  have "runs {[KPreview]} (case pbs of None \<Rightarrow> give (Inl upload_failed)
      | Some bs \<Rightarrow> if length bs \<noteq> n then give (Inl upload_failed) else upload W (jv_get reservation ''previewUpload'') bs True)"
    using runs_upload [of True W "jv_get reservation ''previewUpload''"] by (auto simp: runs_fail split: option.split)
  from runs_then [OF runs_assert this] Some show ?thesis by (simp add: upload_preview_def preview_effects_def)
qed

definition reserved_effects :: "publish_attempt \<Rightarrow> effect_kind list" where
  "reserved_effects a = [KUpload] @ preview_effects a @ [KAssert, KFinalize]"

lemma runs_finish: "runs {reserved_effects a, []} (finish_reservation W c authorization a bs pbs reservation)"
proof -
  have final: "runs {[KAssert, KFinalize]} (and_then (assert_authority W) (\<lambda>current.
      request W c path (or_authorization current authorization) ''POST'' None))" for path
    using runs_then [OF runs_assert runs_request [where key = None]] by simp
  have "runs {reserved_effects a} (and_then (upload W (jv_get reservation ''upload'') bs False) (\<lambda>_.
        and_then (upload_preview W a pbs reservation) (\<lambda>_.
        and_then (assert_authority W) (\<lambda>current.
          request W c path (or_authorization current authorization) ''POST'' None))))" for path
    using runs_then [OF runs_upload [of False] runs_then [OF runs_upload_preview final [of path]]]
    by (simp add: reserved_effects_def)
  then show ?thesis
    unfolding finish_reservation_def
    by (intro runs_if) (auto intro: runs_mono [OF _ subset_insertI] runs_mono runs_mono [OF runs_give])
qed
lemma publish_body_runs:
  "runs ((@) [KReserve] ` (@) [KAssert] ` {reserved_effects a, []}) (publish_body W c auth a bs pbs)"
proof -
  have "runs ((@) [KAssert] ` {reserved_effects a, []}) (if \<not> valid_reservation r then give (Inl service_failed)
      else and_then (assert_authority W) (\<lambda>_. finish_reservation W c auth a bs pbs r))" for r
    by (intro runs_if runs_fail runs_then [OF runs_assert runs_finish]) simp_all
  from runs_then [OF runs_request [where key = "Some (pb_attemptId a)"] this] show ?thesis
    by (simp add: publish_body_def)
qed

text \<open>C21. In every world, publishing has its effects in one order: authority, reservation, authority, snapshot,
  authority and preview when there is one, authority, finalization. It stops early only on an error, or
  after a reservation that is published already, and nothing follows an authority that is refused.\<close>

theorem publish_protocol:
  "let (r, tr) = publish W c authorization a bs previewBytes [];
       full = [KAssert, KReserve, KAssert] @ reserved_effects a in
   case r of
     Inr v \<Rightarrow> map kind_of tr \<in> {full, [KAssert, KReserve, KAssert]}
   | Inl e \<Rightarrow> stopped_within (map kind_of tr) full"
proof -
  let ?rest = "{reserved_effects a, []}"
  have "runs ((@) [] ` (@) [KAssert] ` (@) [KReserve] ` (@) [KAssert] ` ?rest)
      (publish W c authorization a bs previewBytes)"
    unfolding publish_def
    by (intro runs_then [OF runs_give] runs_then [OF runs_assert] runs_catch publish_body_runs) simp_all
  then have run: "runs {[KAssert, KReserve, KAssert] @ reserved_effects a, [KAssert, KReserve, KAssert]}
      (publish W c authorization a bs previewBytes)"
    by simp
  have early: "stopped_within xs [KAssert, KReserve, KAssert]
      \<Longrightarrow> stopped_within xs ([KAssert, KReserve, KAssert] @ reserved_effects a)" for xs
    by (rule stopped_append)
  obtain r tr where r: "publish W c authorization a bs previewBytes [] = (r, tr)"
    by (cases "publish W c authorization a bs previewBytes []")
  show ?thesis
    using run [unfolded runs_def, rule_format, of "[]"] early unfolding r Let_def prod.case
    by (cases r) auto
qed

section \<open>What the coordinator is told\<close>

definition CLIENT_CODES :: "string list" where
  "CLIENT_CODES = KNOWN_SERVICE_CODES @ [''share_sign_in_required'', ''share_service_failed'', ''share_upload_failed'']"

definition closed_error :: "client_error \<Rightarrow> bool" where
  "closed_error e \<longleftrightarrow> er_abort e \<or> (ce_client e \<and> (\<exists>code \<in> set CLIENT_CODES. er_code e = Some code))"

text \<open>What the platform and the coordinator throw is never a \<open>ShareServiceClientError\<close>.\<close>

definition foreign_world :: "client_world \<Rightarrow> bool" where
  "foreign_world W \<longleftrightarrow>
     (\<forall>tr e. cw_authority W tr = Inl e \<longrightarrow> \<not> ce_client e) \<and> (\<forall>tr e. cw_fetch W tr = Inl e \<longrightarrow> \<not> ce_client e)
     \<and> (\<forall>tr e. cw_upload W tr = Inl e \<longrightarrow> \<not> ce_client e)"

lemma client_codes [simp]:
  "''share_sign_in_required'' \<in> set CLIENT_CODES" "''share_service_failed'' \<in> set CLIENT_CODES"
  "''share_upload_failed'' \<in> set CLIENT_CODES" "code \<in> set KNOWN_SERVICE_CODES \<Longrightarrow> code \<in> set CLIENT_CODES"
  by (simp_all add: CLIENT_CODES_def)

lemma clientError_closed: "code \<in> set CLIENT_CODES \<Longrightarrow> closed_error (clientError code status stage data)"
  by (simp add: closed_error_def clientError_def)

lemma transport_closed: "\<not> ce_client e \<or> closed_error e \<Longrightarrow> closed_error (transportError e stage)"
  by (auto simp: transportError_def clientError_closed) (auto simp: closed_error_def)

lemma serviceError_closed: "closed_error (serviceError r body stage)"
  unfolding serviceError_def Let_def by (rule clientError_closed) simp

lemma bearer_closed: "exactBearer v = Inl e \<Longrightarrow> closed_error e"
  by (auto simp: exactBearer_def Let_def clientError_closed split: if_split_asm)

text \<open>A call whose errors are closed, or come from outside the client.\<close>

definition fine :: "'a call \<Rightarrow> bool" where
  "fine m \<longleftrightarrow> (\<forall>tr e tr'. m tr = (Inl e, tr') \<longrightarrow> \<not> ce_client e \<or> closed_error e)"

lemma fine_then: "fine m \<Longrightarrow> (\<And>a. fine (f a)) \<Longrightarrow> fine (and_then m f)"
  by (auto simp: fine_def and_then_def split: prod.splits sum.splits)

lemma fine_give: "(\<And>e. r = Inl e \<Longrightarrow> closed_error e) \<Longrightarrow> fine (give r)"
  by (simp add: fine_def give_def)

lemma fine_if: "fine x \<Longrightarrow> fine y \<Longrightarrow> fine (if b then x else y)"
  by simp

lemma fine_assert: "foreign_world W \<Longrightarrow> fine (assert_authority W)"
  by (auto simp: fine_def assert_authority_def foreign_world_def split: sum.splits)

lemma failed_closed [simp]: "closed_error service_failed" "closed_error upload_failed"
  by (simp_all add: service_failed_def upload_failed_def clientError_closed)

lemma fine_request: "foreign_world W \<Longrightarrow> fine (request W c path auth method key)"
  unfolding request_def
  by (intro fine_then fine_give)
    (auto simp: fine_def serviceError_closed foreign_world_def bearer_closed split: sum.splits if_split_asm
      intro!: transport_closed)

lemma fine_upload: "foreign_world W \<Longrightarrow> fine (upload W policy bs preview)"
  unfolding upload_def
  by (intro fine_then fine_give)
    (auto simp: fine_def exactUploadPolicy_def appendUpload_def Let_def serviceError_closed foreign_world_def
      split: if_split_asm sum.splits intro!: transport_closed)

lemma fine_body: "foreign_world W \<Longrightarrow> fine (publish_body W c auth a bs pbs)"
  unfolding publish_body_def finish_reservation_def upload_preview_def
  by (intro fine_then fine_if fine_request fine_upload fine_assert fine_give)
    (auto intro!: fine_then fine_if fine_upload fine_assert fine_give split: option.split)

text \<open>What the coordinator makes of a code.\<close>

definition told_code :: "string \<Rightarrow> string" where
  "told_code code =
     (if code = ''snapshot_too_large'' then ''share_snapshot_too_large''
      else if code \<in> set CLOSED_FAILURE_CODES then code else ''share_service_failed'')"

definition coordinator_codes :: "string list" where
  "coordinator_codes =
     [''share_cancelled'', ''share_sign_in_required'', ''share_service_failed'', ''share_upload_failed'',
      ''daily_quota_exhausted'', ''reservation_limit_exhausted'', ''share_snapshot_too_large'']"

lemma told_codes: "list_all (\<lambda>code. told_code code \<in> set coordinator_codes) CLIENT_CODES"
  by code_simp

text \<open>C22. Once publishing has the first authority, every error it ends with is an abort or has one of the closed
  codes, so that the coordinator's failure has one of seven codes.\<close>

theorem client_codes_closed:
  assumes "foreign_world W" and "cw_authority W [] = Inr initial"
    and "publish W c authorization a bs previewBytes [] = (Inl e, tr)"
  shows "closed_error e
     \<and> fa_code (closedFailure (share_error.truncate e) reference) \<in> set coordinator_codes"
proof -
  have "closed_error e"
  proof (cases "exactBearer authorization")
    case (Inl e1)
    then have "closed_error e1" by (rule bearer_closed)
    with Inl assms(3) show ?thesis by (simp add: publish_def and_then_def give_def)
  next
    case (Inr b)
    with assms(2,3) obtain e1 where "publish_body W c (or_authorization initial authorization) a bs previewBytes [Asserted True] = (Inl e1, tr)"
        and e: "e = rethrown e1"
      by (auto simp: publish_def and_then_def give_def assert_authority_def catch_with_def split: prod.splits sum.splits)
    with fine_body [OF assms(1)] have "\<not> ce_client e1 \<or> closed_error e1" unfolding fine_def by blast
    then show ?thesis unfolding e rethrown_def by (rule transport_closed)
  qed
  moreover have "failureCode (share_error.truncate e) \<in> set coordinator_codes" if "closed_error e"
  proof (cases "er_abort e")
    case True
    then show ?thesis by (simp add: failureCode_def share_error.truncate_def coordinator_codes_def)
  next
    case False
    with that obtain code where code: "code \<in> set CLIENT_CODES" "er_code e = Some code"
      by (auto simp: closed_error_def)
    with False have "failureCode (share_error.truncate e) = told_code code"
      by (simp add: failureCode_def share_error.truncate_def told_code_def)
    with code(1) told_codes show ?thesis by (simp add: list_all_iff)
  qed
  ultimately show ?thesis by (simp add: closedFailure_def Let_def)
qed

text \<open>Calls that only a refused authority leaves with a refusal at the end of the trace.\<close>

definition refuses :: "client_error \<Rightarrow> 'a call \<Rightarrow> bool" where
  "refuses e0 m \<longleftrightarrow>
     (\<forall>tr. Asserted False \<notin> set tr \<longrightarrow>
        (case m tr of
           (Inr _, tr') \<Rightarrow> Asserted False \<notin> set tr'
         | (Inl e, tr') \<Rightarrow> Asserted False \<in> set tr' \<longrightarrow> e = e0))"

lemma refuses_then: "refuses e0 m \<Longrightarrow> (\<And>a. refuses e0 (f a)) \<Longrightarrow> refuses e0 (and_then m f)"
  unfolding refuses_def and_then_def by (fastforce split: prod.splits sum.splits)

lemma refuses_give: "refuses e0 (give r)"
  by (simp add: refuses_def give_def split: sum.split)

lemma refuses_if: "refuses e0 x \<Longrightarrow> refuses e0 y \<Longrightarrow> refuses e0 (if b then x else y)"
  by simp

lemma refuses_request: "refuses e0 (request W c path auth method key)"
  by (auto simp: refuses_def request_def and_then_def give_def split: sum.splits prod.splits)

lemma refuses_upload: "refuses e0 (upload W policy bs preview)"
  by (auto simp: refuses_def upload_def and_then_def give_def Let_def split: sum.splits prod.splits)

lemma refuses_assert: "(\<And>tr e. cw_authority W tr = Inl e \<Longrightarrow> e = e0) \<Longrightarrow> refuses e0 (assert_authority W)"
  by (auto simp: refuses_def assert_authority_def split: sum.split)

lemma refuses_body:
  assumes "\<And>tr e. cw_authority W tr = Inl e \<Longrightarrow> e = e0"
  shows "refuses e0 (publish_body W c auth a bs pbs)"
  unfolding publish_body_def finish_reservation_def upload_preview_def
  by (intro refuses_then refuses_if refuses_request refuses_upload refuses_assert assms refuses_give)
    (auto intro!: refuses_then refuses_if refuses_upload refuses_assert refuses_give assms split: option.split)

definition signed_out :: client_error where
  "signed_out = foreign_error (coded ''share_sign_in_required'')"

text \<open>The coordinator refuses authority with \<open>share_sign_in_required\<close>, which is final and never telemetry. Refused at
  the start, publishing passes it on. Refused later, the client rethrows it as its own service error, so that
  the user is told that the service failed and may retry, and a failure of the service is reported.\<close>

theorem lost_authority_reported_as_service_failure:
  assumes "\<And>tr e. cw_authority W tr = Inl e \<Longrightarrow> e = signed_out"
    and "publish W c authorization a bs previewBytes [] = (Inl e, tr)" and "Asserted False \<in> set tr"
  shows "if length tr = 1
     then closedFailure (share_error.truncate e) reference
            = \<lparr>fa_reference = reference, fa_code = ''share_sign_in_required'', fa_retryable = False, fa_resetAt = None\<rparr>
          \<and> telemetryRecord (share_error.truncate e) = None
     else closedFailure (share_error.truncate e) reference
            = \<lparr>fa_reference = reference, fa_code = ''share_service_failed'', fa_retryable = True, fa_resetAt = None\<rparr>
          \<and> telemetryRecord (share_error.truncate e) = Some (''service'', ''share.service_failed'')"
proof -
  obtain b where bearer: "exactBearer authorization = Inr b"
    using assms(2,3) by (auto simp: publish_def and_then_def give_def split: sum.splits)
  show ?thesis
  proof (cases "cw_authority W []")
    case (Inl e1)
    with assms bearer have "e = signed_out" "length tr = 1"
      by (auto simp: publish_def and_then_def give_def assert_authority_def)
    then show ?thesis
      by (simp add: signed_out_def foreign_error_def coded_def plain_error_def share_error.defs closedFailure_def
          failureCode_def telemetryRecord_def CLOSED_FAILURE_CODES_def FINAL_CODES_def NON_REPORTED_CODES_def)
  next
    case (Inr initial)
    with assms(2) bearer obtain e1
      where body: "publish_body W c (or_authorization initial authorization) a bs previewBytes [Asserted True] = (Inl e1, tr)"
        and e: "e = rethrown e1"
      by (auto simp: publish_def and_then_def give_def assert_authority_def catch_with_def split: prod.splits sum.splits)
    have "refuses signed_out (publish_body W c (or_authorization initial authorization) a bs previewBytes)"
      by (rule refuses_body) (rule assms(1))
    from this [unfolded refuses_def, rule_format, of "[Asserted True]"] body assms(3) have "e1 = signed_out" by simp
    then have "e = service_failed"
      by (simp add: e rethrown_def transportError_def signed_out_def foreign_error_def coded_def plain_error_def
          share_error.defs service_failed_def clientError_def)
    moreover have "length tr \<noteq> 1"
    proof
      assume "length tr = 1"
      moreover have "\<exists>new. tr = [Asserted True] @ new"
      proof -
        obtain Ks where "runs Ks (publish_body W c (or_authorization initial authorization) a bs previewBytes)"
          using publish_body_runs by blast
        from this [unfolded runs_def, rule_format, of "[Asserted True]"] body show ?thesis by auto
      qed
      ultimately show False using assms(3) by auto
    qed
    ultimately show ?thesis
      by (simp add: service_failed_def clientError_def share_error.defs closedFailure_def
          failureCode_def telemetryRecord_def CLOSED_FAILURE_CODES_def FINAL_CODES_def NON_REPORTED_CODES_def)
  qed
qed

text \<open>A user who signs out between the reservation and the upload.\<close>

definition demo_world :: client_world where
  "demo_world =
     \<lparr>cw_authority = (\<lambda>tr. if length tr \<le> 1 then Inr (Some ''Bearer t'') else Inl signed_out),
      cw_fetch = (\<lambda>_. Inr \<lparr>hr_status = 200, hr_json = Some (VObj [(''shareId'', VStr ''s''), (''status'', VStr ''reserved'')])\<rparr>),
      cw_upload = (\<lambda>_. Inr \<lparr>hr_status = 204, hr_json = None\<rparr>), cw_encode = (\<lambda>s. s)\<rparr>"

lemma demo_publish:
  "publish demo_world \<lparr>sc_origin = ''o''\<rparr> ''Bearer t'' \<lparr>pb_attemptId = ''a'', pb_preview = None\<rparr> [] None []
     = (Inl service_failed,
        [Asserted True, Requested ''POST'' ''o/shares'' ''Bearer t'' (Some ''a''), Asserted False])"
  by code_simp

theorem client_codes_closed_witness:
  "foreign_world demo_world \<and> closed_error service_failed"
proof
  show world: "foreign_world demo_world"
    by (simp add: foreign_world_def demo_world_def signed_out_def foreign_error_def coded_def plain_error_def
        share_error.defs)
  have "cw_authority demo_world [] = Inr (Some ''Bearer t'')" by (simp add: demo_world_def)
  from client_codes_closed [OF world this demo_publish] show "closed_error service_failed" by blast
qed

theorem lost_authority_reported_as_service_failure_witness:
  "closedFailure (share_error.truncate service_failed) ''SHR-1''
     = \<lparr>fa_reference = ''SHR-1'', fa_code = ''share_service_failed'', fa_retryable = True, fa_resetAt = None\<rparr>
   \<and> telemetryRecord (share_error.truncate service_failed) = Some (''service'', ''share.service_failed'')"
proof -
  have "cw_authority demo_world tr = Inl e \<Longrightarrow> e = signed_out" for tr e
    by (simp add: demo_world_def split: if_splits)
  from lost_authority_reported_as_service_failure [OF this demo_publish] show ?thesis by simp
qed

end
