(* ===== verification/OperationReceipts.thy ===== *)
theory OperationReceipts
  imports JsBytes
begin

text \<open>
  What the recorder of graph operations keeps of a request (\<open>desktop/main/services/graph-operation-recorder.mjs\<close>,
  the pure half): the scrubbing of secrets, the receipt of each route with its closed set of fields, and the
  limits on bodies. A request or response body is what \<open>JSON.parse\<close> returned, a \<open>jv\<close>; a receipt is the list of
  its properties, and \<open>put_fields\<close> is the spread \<open>{ ...receipt, ... }\<close>, where a property that is there keeps its
  place. Characters are single bytes, so code points are list elements.

  Two results: no string of a scrubbed value contains a secret (\<open>scrub_no_secret\<close>), and a receipt has only the
  fields of the format, each with its type, whatever the server answered (\<open>receipt_typed_sanitize\<close>).
\<close>

section \<open>Values\<close>

definition jv_int :: "jv \<Rightarrow> int option" where
  "jv_int v = (case v of VNum n \<Rightarrow> if is_safe_integer n then Some (num_val n) else None | _ \<Rightarrow> None)"

definition positiveInteger_jv :: "jv \<Rightarrow> bool" where
  "positiveInteger_jv v = (case jv_int v of Some n \<Rightarrow> n > 0 | None \<Rightarrow> False)"

definition natural_jv :: "jv \<Rightarrow> bool" where
  "natural_jv v = (case jv_int v of Some n \<Rightarrow> n \<ge> 0 | None \<Rightarrow> False)"

definition is_string :: "jv \<Rightarrow> bool" where
  "is_string v = (case v of VStr _ \<Rightarrow> True | _ \<Rightarrow> False)"

definition is_boolean :: "jv \<Rightarrow> bool" where
  "is_boolean v = (case v of VBool _ \<Rightarrow> True | _ \<Rightarrow> False)"

definition chars_of :: "jv \<Rightarrow> string" where
  "chars_of v = (case v of VStr s \<Rightarrow> s | _ \<Rightarrow> '''')"

definition is_array :: "jv \<Rightarrow> bool" where
  "is_array v = (case v of VArr _ \<Rightarrow> True | _ \<Rightarrow> False)"

definition items :: "jv \<Rightarrow> jv list" where
  "items v = (case v of VArr vs \<Rightarrow> vs | _ \<Rightarrow> [])"

definition fields_of :: "jv \<Rightarrow> (string \<times> jv) list" where
  "fields_of v = (case v of VObj fs \<Rightarrow> fs | _ \<Rightarrow> [])"

type_synonym receipt = "(string, jv) jsmap"

definition put_fields :: "receipt \<Rightarrow> (string \<times> jv) list \<Rightarrow> receipt" where
  "put_fields r fs = foldl (\<lambda>m (k, v). map_set m k v) r fs"

text \<open>\<open>...(c ? { k: v } : {})\<close>.\<close>

definition opt_field :: "bool \<Rightarrow> string \<Rightarrow> jv \<Rightarrow> (string \<times> jv) list" where
  "opt_field c k v = (if c then [(k, v)] else [])"

definition bearerToken :: "string option \<Rightarrow> string option" where
  "bearerToken header =
     (case header of
        None \<Rightarrow> None
      | Some h \<Rightarrow>
          if take 7 h = ''Bearer '' \<and> drop 7 h \<noteq> [] \<and> list_all (\<lambda>c. \<not> is_space c) (drop 7 h)
          then Some (drop 7 h) else None)"

definition errorCodes :: "jv \<Rightarrow> jv list" where
  "errorCodes response =
     (let err = (if is_obj (jv_get response ''error'') then jv_get response ''error'' else VUndef);
          issues = items (jv_get err ''issues'') in
      filter is_string (first_unique (jv_get err ''code''
        # map (\<lambda>i. if is_obj i then jv_get i ''code'' else VUndef) issues)))"

section \<open>Scrubbing\<close>

text \<open>\<open>s.split(sep)\<close> for a separator that is not empty.\<close>

function js_split :: "string \<Rightarrow> string \<Rightarrow> string list" where
  "js_split sep s =
     (if sep \<noteq> [] \<and> prefix sep s then [] # js_split sep (drop (length sep) s)
      else case s of
             [] \<Rightarrow> [[]]
           | c # cs \<Rightarrow> (case js_split sep cs of [] \<Rightarrow> [[c]] | p # ps \<Rightarrow> (c # p) # ps))"
  by pat_completeness auto
termination by (relation "measure (\<lambda>(sep, s). length s)") (auto simp: prefix_def)

declare js_split.simps [simp del]

fun js_join :: "string \<Rightarrow> string list \<Rightarrow> string" where
  "js_join sep [] = ''''"
| "js_join sep [s] = s"
| "js_join sep (s # t # ss) = s @ sep @ js_join sep (t # ss)"

definition REDACTED :: string where
  "REDACTED = ''[REDACTED]''"

definition scrub_text :: "string list \<Rightarrow> string \<Rightarrow> string" where
  "scrub_text secrets s = foldl (\<lambda>t k. if k = [] then t else js_join REDACTED (js_split k t)) s secrets"

definition ascii_lower :: "char \<Rightarrow> char" where
  "ascii_lower c = (let n = (of_char c :: nat) in if 65 \<le> n \<and> n \<le> 90 then char_of (n + 32) else c)"

definition SENSITIVE_NAME :: "string \<Rightarrow> bool" where
  "SENSITIVE_NAME name =
     list_ex (\<lambda>w. sublist w (map ascii_lower name))
       [''authorization'', ''credential'', ''password'', ''secret'', ''token'']"

definition is_tagged_record :: "jv \<Rightarrow> bool" where
  "is_tagged_record v \<longleftrightarrow> jv_get v ''type'' = VStr ''record'' \<and> is_array (jv_get v ''fields'')"

definition is_named_field :: "jv \<Rightarrow> bool" where
  "is_named_field f \<longleftrightarrow> is_obj f \<and> is_string (jv_get f ''name'')"

lemma size_entry: "(k, e) \<in> set fs \<Longrightarrow> size e < size (VObj fs)"
  by (induction fs) auto

lemma size_item: "e \<in> set vs \<Longrightarrow> size e < size (VArr vs)"
  by (induction vs) auto

lemma size_jv_get: "is_obj v \<Longrightarrow> size (jv_get v k) < size v"
  by (cases v) (auto simp: is_obj_def jv_get_obj split: option.splits dest!: map_of_SomeD size_entry)

lemma size_items: "e \<in> set (items v) \<Longrightarrow> size e < size v"
  by (cases v) (auto simp: items_def dest: size_item)

lemma size_fields_of: "(k, e) \<in> set (fields_of v) \<Longrightarrow> size e < size v"
  by (cases v) (auto simp: fields_of_def dest: size_entry)

lemma size_fields: "e \<in> set (items (jv_get (VObj fs) k)) \<Longrightarrow> size e < size (VObj fs)"
  using size_items size_jv_get [of "VObj fs" k] by (fastforce simp: is_obj_def)

function scrubKnownSecrets :: "string list \<Rightarrow> jv \<Rightarrow> jv" where
  "scrubKnownSecrets secrets v =
     (case v of
        VStr s \<Rightarrow> VStr (scrub_text secrets s)
      | VArr vs \<Rightarrow> VArr (map (scrubKnownSecrets secrets) vs)
      | VObj fs \<Rightarrow>
          if is_tagged_record (VObj fs) then
            VObj (map (\<lambda>(k, e). (k, if SENSITIVE_NAME k then VStr REDACTED else scrubKnownSecrets secrets e))
                    (filter (\<lambda>(k, _). k \<noteq> ''fields'') fs)
                  @ [(''fields'', VArr (map
                       (\<lambda>f. if is_named_field f then
                              VObj (map (\<lambda>(k, e). (k, if SENSITIVE_NAME k then VStr REDACTED else scrubKnownSecrets secrets e))
                                      (filter (\<lambda>(k, _). k \<noteq> ''value'') (fields_of f))
                                    @ [(''value'', if SENSITIVE_NAME (chars_of (jv_get f ''name'')) then VStr REDACTED
                                         else scrubKnownSecrets secrets (jv_get f ''value''))])
                            else scrubKnownSecrets secrets f)
                       (items (jv_get (VObj fs) ''fields''))))])
          else VObj (map (\<lambda>(k, e). (k, if SENSITIVE_NAME k then VStr REDACTED else scrubKnownSecrets secrets e)) fs)
      | _ \<Rightarrow> v)"
  by pat_completeness auto
termination
proof (relation "measure (\<lambda>(secrets, v). size v)", goal_cases)
  case 1
  then show ?case by simp
qed (auto simp: is_named_field_def simp del: jv.size dest!: size_entry size_item size_fields size_fields_of size_jv_get
      intro: less_trans)

declare scrubKnownSecrets.simps [simp del]

subsection \<open>A scrubbed value holds no secret\<close>

text \<open>The texts of a value: its strings, wherever they are. Property names are not scrubbed and not counted.\<close>

fun texts :: "jv \<Rightarrow> string list" where
  "texts (VStr s) = [s]"
| "texts (VArr vs) = concat (map texts vs)"
| "texts (VObj fs) = concat (map (\<lambda>(k, v). texts v) fs)"
| "texts _ = []"

text \<open>A secret that cannot arise from the marker \<open>[REDACTED]\<close>. Bearer tokens are random letters and digits.\<close>

definition plain_secret :: "string \<Rightarrow> bool" where
  "plain_secret k \<longleftrightarrow> k \<noteq> [] \<and> CHR ''['' \<notin> set k \<and> CHR '']'' \<notin> set k \<and> \<not> sublist k ''REDACTED''"

definition hides :: "string list \<Rightarrow> jv \<Rightarrow> bool" where
  "hides secrets v \<longleftrightarrow> list_all (\<lambda>s. list_all (\<lambda>k. \<not> sublist k s) secrets) (texts v)"

lemma js_split_step:
  "js_split sep s =
     (if sep \<noteq> [] \<and> prefix sep s then [] # js_split sep (drop (length sep) s)
      else case s of
             [] \<Rightarrow> [[]]
           | c # cs \<Rightarrow> (case js_split sep cs of [] \<Rightarrow> [[c]] | p # ps \<Rightarrow> (c # p) # ps))"
  by (subst js_split.simps) (rule refl)

lemma js_split_not_Nil: "js_split sep s \<noteq> []"
  by (subst js_split_step) (auto split: list.splits)

text \<open>The first piece is a prefix of the text, every piece a part of it, and no piece holds the separator.\<close>

lemma js_split_pieces:
  assumes "sep \<noteq> []"
  shows "prefix (hd (js_split sep s)) s \<and> list_all (\<lambda>p. sublist p s \<and> \<not> sublist sep p) (js_split sep s)"
  using assms
proof (induction sep s rule: js_split.induct)
  case (1 sep s)
  show ?case
  proof (cases "prefix sep s")
    case True
    then obtain r where s: "s = sep @ r" by (auto simp: prefix_def)
    have "js_split sep s = [] # js_split sep r"
      using True "1.prems" s by (subst js_split_step) simp
    moreover have "list_all (\<lambda>p. sublist p r \<and> \<not> sublist sep p) (js_split sep r)"
      using "1.IH"(1) True "1.prems" s by simp
    moreover have "sublist p r \<Longrightarrow> sublist p s" for p
      using s by (auto simp: sublist_append)
    ultimately show ?thesis using "1.prems" by (auto simp: list_all_iff)
  next
    case False
    show ?thesis
    proof (cases s)
      case Nil
      then have "js_split sep s = [[]]" using False by (subst js_split_step) simp
      with Nil "1.prems" show ?thesis by simp
    next
      case (Cons c cs)
      obtain p ps where ps: "js_split sep cs = p # ps"
        using js_split_not_Nil [of sep cs] by (cases "js_split sep cs") auto
      have split: "js_split sep s = (c # p) # ps"
        using False Cons ps by (subst js_split_step) simp
      have IH: "prefix p cs" "list_all (\<lambda>p. sublist p cs \<and> \<not> sublist sep p) (p # ps)"
        using "1.IH"(2) False Cons "1.prems" ps by auto
      have "\<not> prefix sep (c # p)"
        using False Cons IH(1) by (metis Cons_prefix_Cons prefix_order.trans)
      then have "\<not> sublist sep (c # p)"
        using IH(2) by (simp add: sublist_Cons_right)
      moreover have "sublist (c # p) s" using Cons IH(1) by (simp add: sublist_Cons_right)
      ultimately show ?thesis
        using IH Cons split by (auto simp: list_all_iff sublist_Cons_right)
    qed
  qed
qed

lemma sublist_around_char:
  assumes "c \<notin> set k"
  shows "sublist k (xs @ c # ys) \<longleftrightarrow> sublist k xs \<or> sublist k ys"
proof
  assume "sublist k (xs @ c # ys)"
  then consider "sublist k xs" | "sublist k (c # ys)"
    | k1 k2 where "k = k1 @ k2" "suffix k1 xs" "prefix k2 (c # ys)"
    unfolding sublist_append by blast
  then show "sublist k xs \<or> sublist k ys"
  proof cases
    case 2
    with assms show ?thesis by (cases k) (auto simp: sublist_Cons_right)
  next
    case 3
    with assms have "k2 = []" by (cases k2) auto
    with 3 show ?thesis by (simp add: suffix_imp_sublist)
  qed simp
qed (auto simp: sublist_append sublist_Cons_right)

lemma sublist_around_marker:
  assumes "plain_secret k"
  shows "sublist k (xs @ REDACTED @ ys) \<longleftrightarrow> sublist k xs \<or> sublist k ys"
proof -
  have marker: "REDACTED @ ys = CHR ''['' # (''REDACTED'' @ CHR '']'' # ys)"
    by (simp add: REDACTED_def)
  have k: "CHR ''['' \<notin> set k" "CHR '']'' \<notin> set k" "\<not> sublist k ''REDACTED''"
    using assms unfolding plain_secret_def by blast+
  show ?thesis
    unfolding marker sublist_around_char [OF k(1)] sublist_around_char [OF k(2)] using k(3) by blast
qed

lemma marker_hides: "plain_secret k \<Longrightarrow> \<not> sublist k REDACTED"
  using sublist_around_marker [of k "[]" "[]"] by (simp add: plain_secret_def)

lemma join_hides:
  assumes "plain_secret k" "list_all (\<lambda>p. \<not> sublist k p) ps"
  shows "\<not> sublist k (js_join REDACTED ps)"
  using assms(2)
proof (induction REDACTED ps rule: js_join.induct)
  case 1
  with assms(1) show ?case by (simp add: plain_secret_def)
next
  case (3 s t ss)
  with assms(1) show ?case by (simp add: sublist_around_marker)
qed simp

lemma scrub_text_hides:
  assumes "list_all plain_secret secrets"
  shows "list_all (\<lambda>k. \<not> sublist k (scrub_text secrets s)) secrets"
  using assms
proof (induction secrets rule: rev_induct)
  case Nil
  then show ?case by simp
next
  case (snoc k ks)
  let ?t = "scrub_text ks s"
  have k: "k \<noteq> []" using snoc.prems by (simp add: plain_secret_def)
  have t: "scrub_text (ks @ [k]) s = js_join REDACTED (js_split k ?t)"
    using k by (simp add: scrub_text_def)
  have pieces: "list_all (\<lambda>p. sublist p ?t \<and> \<not> sublist k p) (js_split k ?t)"
    using js_split_pieces [OF k, of ?t] by simp
  have "\<not> sublist k' (js_join REDACTED (js_split k ?t))" if "k' \<in> set (ks @ [k])" for k'
  proof (rule join_hides)
    show "plain_secret k'" using snoc.prems that by (auto simp: list_all_iff)
    show "list_all (\<lambda>p. \<not> sublist k' p) (js_split k ?t)"
    proof (cases "k' = k")
      case True
      with pieces show ?thesis by (simp add: list_all_iff)
    next
      case False
      then have "\<not> sublist k' ?t" using snoc that by (auto simp: list_all_iff)
      then show ?thesis
        using pieces by (auto simp: list_all_iff intro: sublist_order.order_trans)
    qed
  qed
  then show ?case by (simp add: t list_all_iff)
qed

lemma hides_simps [simp]:
  "hides ks (VStr s) \<longleftrightarrow> list_all (\<lambda>k. \<not> sublist k s) ks"
  "hides ks (VArr vs) \<longleftrightarrow> list_all (hides ks) vs"
  "hides ks (VObj fs) \<longleftrightarrow> list_all (\<lambda>(k, v). hides ks v) fs"
  "hides ks VUndef" "hides ks VNull" "hides ks (VBool b)" "hides ks (VNum n)" "hides ks (VBytes bs)"
  by (auto simp: hides_def list_all_iff split: prod.splits)

lemma scrub_no_secret:
  assumes "list_all plain_secret secrets"
  shows "hides secrets (scrubKnownSecrets secrets v)"
  using assms
proof (induction secrets v rule: scrubKnownSecrets.induct)
  case (1 ks v)
  have marker: "list_all (\<lambda>k. \<not> sublist k REDACTED) ks"
    using "1.prems" by (auto simp: list_all_iff marker_hides)
  show ?case
  proof (cases v)
    case (VStr s)
    then show ?thesis using "1.prems" by (simp add: scrubKnownSecrets.simps scrub_text_hides)
  next
    case (VArr vs)
    then show ?thesis using "1.IH"(1) "1.prems" by (simp add: scrubKnownSecrets.simps list_all_iff)
  next
    case (VObj fs)
    show ?thesis
    proof (cases "is_tagged_record v")
      case False
      then show ?thesis using VObj "1.IH"(6) "1.prems" marker
        by (subst scrubKnownSecrets.simps) (fastforce simp: list_all_iff)
    next
      case True
      then show ?thesis using VObj "1.IH"(2-5) "1.prems" marker
        by (subst scrubKnownSecrets.simps) (fastforce simp: list_all_iff)
    qed
  qed (simp_all add: scrubKnownSecrets.simps)
qed

section \<open>Routes\<close>

definition id_segment :: "string \<Rightarrow> bool" where
  "id_segment s \<longleftrightarrow> s \<noteq> [] \<and> list_all is_digit s \<and> hd s \<noteq> CHR ''0''"

text \<open>\<open>/^pre[1-9]\d*post$/\<close>.\<close>

definition id_path :: "string \<Rightarrow> string \<Rightarrow> string \<Rightarrow> bool" where
  "id_path pre post path \<longleftrightarrow>
     prefix pre path \<and> suffix post path \<and> length pre + length post \<le> length path
     \<and> id_segment (drop (length pre) (take (length path - length post) path))"

definition ok_status :: "int \<Rightarrow> bool" where
  "ok_status status \<longleftrightarrow> 200 \<le> status \<and> status < 300"

definition hex64 :: "string \<Rightarrow> bool" where
  "hex64 s \<longleftrightarrow> length s = 64 \<and> list_all hex_lower s"

section \<open>Parts of a receipt\<close>

definition SEARCH_BUDGET_KEYS :: "string list" where
  "SEARCH_BUDGET_KEYS =
     [''queryBytes'', ''astDepth'', ''variables'', ''patternParts'', ''traversalHops'', ''examinedExpansions'',
      ''intermediateRows'', ''wallTimeMs'', ''resultRows'', ''encodedResultBytes'']"

definition closedSearchTarget :: "jv \<Rightarrow> jv option" where
  "closedSearchTarget v =
     (if \<not> is_obj v \<or> jv_get v ''scope'' \<notin> {VStr ''thread'', VStr ''project''} \<or> \<not> positiveInteger_jv (jv_get v ''id'')
      then None else Some (VObj [(''scope'', jv_get v ''scope''), (''id'', jv_get v ''id'')]))"

definition closedSearchBudget :: "jv \<Rightarrow> jv option" where
  "closedSearchBudget v =
     (if \<not> is_obj v then None
      else
        let budget = concat (map (\<lambda>k. opt_field (natural_jv (jv_get v k)) k (jv_get v k)) SEARCH_BUDGET_KEYS) in
        if budget = [] then None else Some (VObj budget))"

definition some_field :: "string \<Rightarrow> jv option \<Rightarrow> (string \<times> jv) list" where
  "some_field k o' = (case o' of None \<Rightarrow> [] | Some v \<Rightarrow> [(k, v)])"

definition withSearchRequest :: "receipt \<Rightarrow> jv \<Rightarrow> string list \<Rightarrow> receipt" where
  "withSearchRequest r request secrets =
     (if \<not> is_obj request then r
      else put_fields r (
        opt_field (jv_int (jv_get request ''queryContractVersion'') \<noteq> None) ''queryContractVersion''
          (jv_get request ''queryContractVersion'')
        @ some_field ''target'' (closedSearchTarget (jv_get request ''target''))
        @ opt_field (is_string (jv_get request ''query'')) ''query'' (scrubKnownSecrets secrets (jv_get request ''query''))
        @ opt_field (is_obj (jv_get request ''parameters'')) ''parameters''
            (scrubKnownSecrets secrets (jv_get request ''parameters''))
        @ some_field ''budget'' (closedSearchBudget (jv_get request ''budget''))))"

definition withRecord :: "receipt \<Rightarrow> string \<Rightarrow> jv \<Rightarrow> receipt" where
  "withRecord r recordKind v =
     (if \<not> is_obj v \<or> \<not> positiveInteger_jv (jv_get v ''id'') then r
      else put_fields r ([(''recordKind'', VStr recordKind), (''recordId'', jv_get v ''id'')]
        @ opt_field (is_string (jv_get v ''state'')) ''recordState'' (jv_get v ''state'')))"

definition withAction :: "receipt \<Rightarrow> jv \<Rightarrow> receipt" where
  "withAction r v =
     (let recorded = withRecord r ''action'' v in
      if \<not> is_obj v then recorded
      else put_fields recorded (
        opt_field (is_string (jv_get v ''kind'')) ''actionKind'' (jv_get v ''kind'')
        @ opt_field (is_string (jv_get v ''relation'') \<or> jv_get v ''relation'' = VNull) ''actionRelation''
            (jv_get v ''relation'')
        @ opt_field (positiveInteger_jv (jv_get v ''sourceNodeId'')) ''actionSourceNodeId'' (jv_get v ''sourceNodeId'')
        @ opt_field (positiveInteger_jv (jv_get v ''sourceLayerId'') \<or> jv_get v ''sourceLayerId'' = VNull)
            ''actionSourceLayerId'' (jv_get v ''sourceLayerId'')
        @ opt_field (positiveInteger_jv (jv_get v ''targetLayerId'') \<or> jv_get v ''targetLayerId'' = VNull)
            ''actionTargetLayerId'' (jv_get v ''targetLayerId'')))"

text \<open>The layer a search result names: \<open>layer:\<close> and a number that is a safe integer.\<close>

definition layer_id :: "jv \<Rightarrow> jv list" where
  "layer_id v =
     (let s = chars_of (jv_get v ''id''); n = int (read_digits (drop 6 s)) in
      if is_obj v \<and> jv_get v ''type'' = VStr ''layer'' \<and> is_string (jv_get v ''id'')
         \<and> id_path ''layer:'' '''' s \<and> is_safe_integer (NInt n)
      then [VNum (NInt n)] else [])"

definition withSearch :: "receipt \<Rightarrow> jv \<Rightarrow> receipt" where
  "withSearch r response =
     (if \<not> is_array (jv_get response ''rows'') then r
      else put_fields r (
        (''searchLayerIds'',
           VArr (concat (map (\<lambda>row. concat (map layer_id (items row))) (items (jv_get response ''rows'')))))
        # opt_field (is_boolean (jv_get response ''truncated'')) ''resultTruncated'' (jv_get response ''truncated'')))"

definition withCompletion :: "receipt \<Rightarrow> jv \<Rightarrow> receipt" where
  "withCompletion r response =
     (let root = jv_get response ''rootLayer'';
          rootLayer = (if is_obj root \<and> is_obj (jv_get root ''layer'') then jv_get root ''layer'' else VUndef) in
      put_fields r (
        opt_field (positiveInteger_jv (jv_get response ''nodeId'')) ''completionNodeId'' (jv_get response ''nodeId'')
        @ opt_field (positiveInteger_jv (jv_get rootLayer ''id'')) ''completionRootLayerId'' (jv_get rootLayer ''id'')))"

definition REASON_PURPOSES :: "string list" where
  "REASON_PURPOSES =
     [''authority'', ''authoring'', ''presentation'', ''navigation'', ''search'', ''preview'', ''repair'',
      ''delegation'', ''verification'', ''recovery'']"

definition instructionReason :: "jv \<Rightarrow> string list \<Rightarrow> jv option" where
  "instructionReason v secrets =
     (let detail = jv_get v ''detail'' in
      if \<not> is_obj v \<or> jv_get v ''purpose'' \<notin> set (map VStr REASON_PURPOSES) \<or> \<not> is_string detail
         \<or> length (chars_of detail) < 8 \<or> length (chars_of detail) > 240
      then None
      else Some (VObj [(''purpose'', jv_get v ''purpose''), (''detail'', scrubKnownSecrets secrets detail)]))"

definition retrieval_entry :: "string list \<Rightarrow> jv \<Rightarrow> jv list" where
  "retrieval_entry secrets e =
     (if \<not> positiveInteger_jv (jv_get e ''nodeId'')
         \<or> jv_get e ''delivery'' \<notin> set (map VStr [''body'', ''already-returned'', ''reread''])
         \<or> \<not> is_string (jv_get e ''key'') \<or> \<not> natural_jv (jv_get e ''bodyCharacters'')
         \<or> \<not> natural_jv (jv_get e ''bodyBytes'')
      then []
      else [VObj ([(''nodeId'', jv_get e ''nodeId''), (''key'', VStr (take 160 (chars_of (jv_get e ''key'')))),
               (''delivery'', jv_get e ''delivery''), (''bodyCharacters'', jv_get e ''bodyCharacters''),
               (''bodyBytes'', jv_get e ''bodyBytes'')]
             @ opt_field (is_string (jv_get e ''firstRequestKey'')) ''firstRequestKey''
                 (scrubKnownSecrets secrets (VStr (take 128 (chars_of (jv_get e ''firstRequestKey''))))))])"

definition instructionRetrieval :: "jv \<Rightarrow> string list \<Rightarrow> jv option" where
  "instructionRetrieval response secrets =
     (case instructionReason (jv_get response ''reason'') secrets of
        None \<Rightarrow> None
      | Some reason \<Rightarrow>
          if \<not> is_string (jv_get response ''requestKey'') \<or> \<not> is_boolean (jv_get response ''replayed'')
             \<or> \<not> is_array (jv_get response ''entries'') \<or> length (items (jv_get response ''entries'')) > 8
          then None
          else
            let entries = concat (map (retrieval_entry secrets) (items (jv_get response ''entries''))) in
            if length entries \<noteq> length (items (jv_get response ''entries'')) then None
            else Some (VObj (
              [(''requestKey'', scrubKnownSecrets secrets (VStr (take 128 (chars_of (jv_get response ''requestKey''))))),
               (''replayed'', jv_get response ''replayed''), (''reason'', reason), (''entries'', VArr entries)]
              @ opt_field (is_string (jv_get response ''rereadReason'')
                    \<and> length (chars_of (jv_get response ''rereadReason'')) \<le> 240) ''rereadReason''
                  (scrubKnownSecrets secrets (jv_get response ''rereadReason'')))))"

section \<open>The receipt of a request\<close>

definition VISUAL_KINDS :: "string list" where
  "VISUAL_KINDS =
     [''add'', ''create-tag'', ''move-tag'', ''associate'', ''organize'', ''archive'', ''list-assets'', ''list-tags'',
      ''list-registries'', ''find'', ''inspect'', ''download'']"

definition lifecycle_of :: "string \<Rightarrow> string option" where
  "lifecycle_of kind =
     (if kind = ''advance'' then Some ''active'' else if kind = ''return'' then Some ''succeeded''
      else if kind = ''stop'' then Some ''stopped'' else None)"

definition base_receipt :: "string \<Rightarrow> string \<Rightarrow> int \<Rightarrow> jv \<Rightarrow> receipt" where
  "base_receipt method path status response =
     [(''schemaVersion'', VNum (NInt 1)), (''method'', VStr method), (''path'', VStr path), (''status'', VNum (NInt status))]
     @ opt_field (errorCodes response \<noteq> []) ''errorCodes'' (VArr (errorCodes response))"

definition fallback_receipt :: "string \<Rightarrow> string \<Rightarrow> jv \<Rightarrow> jv \<Rightarrow> string list \<Rightarrow> receipt \<Rightarrow> receipt" where
  "fallback_receipt method path request response secrets r =
     (let withRequest = (if method = ''POST'' \<and> path = ''/api/graph/search''
            then withSearchRequest r request secrets else r) in
      put_fields withRequest (opt_field (errorCodes response \<noteq> []) ''errorCodes'' (VArr (errorCodes response))))"

definition transition_receipt :: "jv \<Rightarrow> jv \<Rightarrow> receipt \<Rightarrow> receipt option" where
  "transition_receipt request response r =
     (let kind = jv_get (jv_get request ''transition'') ''kind'' in
      case lifecycle_of (jv_string kind) of
        None \<Rightarrow> None
      | Some lifecycle \<Rightarrow>
          if jv_get response ''lifecycle'' = VStr lifecycle \<and> positiveInteger_jv (jv_get response ''completionId'')
          then Some (put_fields r (
            [(''transitionKind'', kind), (''completionNodeId'', jv_get response ''completionId''),
             (''completionLifecycle'', VStr lifecycle)]
            @ opt_field (positiveInteger_jv (jv_get response ''currentLayerId'')) ''completionCurrentLayerId''
                (jv_get response ''currentLayerId'')
            @ opt_field (positiveInteger_jv (jv_get response ''finalLayerId'')) ''completionRootLayerId''
                (jv_get response ''finalLayerId'')))
          else None)"

definition sanitizeReceipt :: "string \<Rightarrow> string \<Rightarrow> int \<Rightarrow> jv \<Rightarrow> jv \<Rightarrow> string list \<Rightarrow> receipt" where
  "sanitizeReceipt method path status request response secrets =
     (let r = base_receipt method path status response; ok = ok_status status;
          fallback = fallback_receipt method path request response secrets r in
      if method = ''GET'' \<and> path = ''/api/graph/instruction-graph'' \<and> ok then
        put_fields r (
          opt_field (is_string (jv_get response ''versionKey'')) ''instructionGraphVersionKey'' (jv_get response ''versionKey'')
          @ opt_field (jv_get response ''digest'' \<notin> {VUndef, VNull} \<and> hex64 (jv_string (jv_get response ''digest'')))
              ''instructionGraphDigest'' (jv_get response ''digest''))
      else if method = ''GET'' \<and> id_path ''/api/graph/instruction-graph/nodes/'' '''' path then
        withRecord r ''instruction-node'' (jv_get response ''node'')
      else if method = ''GET'' \<and> id_path ''/api/graph/instruction-graph/layers/'' '''' path then
        withRecord r ''instruction-layer'' (jv_get response ''layer'')
      else if method = ''POST'' \<and> path = ''/api/graph/instruction-graph/retrieve'' \<and> ok then
        put_fields r (some_field ''instructionRetrieval'' (instructionRetrieval response secrets))
      else if method = ''POST'' \<and> path = ''/api/graph/instruction-graph/search'' then
        put_fields (withSearch (withSearchRequest r request secrets) response)
          (some_field ''instructionSearchReceipt''
            (if ok then map_option (\<lambda>reason. VObj [(''reason'', reason)])
               (instructionReason (jv_get (jv_get response ''instructionSearchReceipt'') ''reason'') secrets) else None))
      else if method = ''POST'' \<and> path = ''/api/graph/visual-assets/operations'' then
        put_fields r (opt_field (jv_get (jv_get request ''operation'') ''kind'' \<in> set (map VStr VISUAL_KINDS))
          ''visualAssetOperationKind'' (jv_get (jv_get request ''operation'') ''kind''))
      else if method = ''POST'' \<and> path = ''/api/graph/nodes'' then withRecord r ''node'' (jv_get response ''node'')
      else if method = ''POST'' \<and> path = ''/api/graph/edges'' then withRecord r ''edge'' (jv_get response ''edge'')
      else if method = ''POST'' \<and> path = ''/api/graph/layers'' then withRecord r ''layer'' (jv_get response ''layer'')
      else if method = ''POST'' \<and> path = ''/api/graph/actions'' then withAction r (jv_get response ''action'')
      else if method = ''POST'' \<and> id_path ''/api/graph/layers/'' ''/discard'' path then
        withRecord r ''layer'' (jv_get response ''layer'')
      else if method = ''POST'' \<and> path = ''/api/graph/search'' \<and> ok then
        withSearch (withSearchRequest r request secrets) response
      else if method = ''POST'' \<and> path = ''/api/graph/submit'' \<and> ok then withCompletion r response
      else if method = ''POST'' \<and> path = ''/api/graph/current/transitions'' \<and> ok then
        (case transition_receipt request response r of Some r' \<Rightarrow> r' | None \<Rightarrow> fallback)
      else fallback)"

section \<open>Bodies\<close>

text \<open>\<open>/^\/api\/control\/conversation-import-stages\/[^/]+\/visual-asset-contents$/\<close> and
  \<open>/^\/api\/control\/nodes\/[1-9][0-9]*\/detail-assets\/[^/]+$/\<close>.\<close>

definition one_segment :: "string \<Rightarrow> bool" where
  "one_segment s \<longleftrightarrow> s \<noteq> [] \<and> CHR ''/'' \<notin> set s"

definition stage_contents_path :: "string \<Rightarrow> bool" where
  "stage_contents_path path =
     (let pre = ''/api/control/conversation-import-stages/''; post = ''/visual-asset-contents'' in
      prefix pre path \<and> suffix post path \<and> length pre + length post \<le> length path
      \<and> one_segment (drop (length pre) (take (length path - length post) path)))"

definition detail_asset_path :: "string \<Rightarrow> bool" where
  "detail_asset_path path =
     (let pre = ''/api/control/nodes/''; rest = drop (length pre) path;
          node = takeWhile (\<lambda>c. c \<noteq> CHR ''/'') rest; tail = drop (length node) rest in
      prefix pre path \<and> id_segment node \<and> prefix ''/detail-assets/'' tail \<and> one_segment (drop 15 tail))"

definition MAX_PROXY_BODY_BYTES :: nat where
  "MAX_PROXY_BODY_BYTES = 4 * 1024 * 1024"

definition proxyBodyLimit :: "string \<Rightarrow> string \<Rightarrow> nat" where
  "proxyBodyLimit method pathname =
     (if method = ''POST'' \<and> (pathname = ''/api/control/visual-assets/imports/validate'' \<or> stage_contents_path pathname)
      then 17 * 1024 * 1024
      else if method = ''POST'' \<and> (pathname = ''/api/graph/nodes'' \<or> pathname = ''/api/graph/layers'')
      then 8 * 1024 * 1024
      else if (method = ''POST'' \<and> pathname = ''/api/graph/visual-assets/operations'')
              \<or> (method = ''GET'' \<and> detail_asset_path pathname)
      then 12 * 1024 * 1024
      else MAX_PROXY_BODY_BYTES)"

text \<open>\<open>readBoundedBody\<close> over the chunks of a stream: \<open>None\<close> is the throw at the first chunk beyond the limit.\<close>

fun read_chunks :: "nat \<Rightarrow> byte list list \<Rightarrow> nat \<Rightarrow> byte list list \<Rightarrow> byte list option" where
  "read_chunks limit chunks byteLength [] = Some (concat chunks)"
| "read_chunks limit chunks byteLength (c # cs) =
     (if byteLength + length c > limit then None else read_chunks limit (chunks @ [c]) (byteLength + length c) cs)"

definition readBoundedBody :: "byte list list \<Rightarrow> nat \<Rightarrow> byte list option" where
  "readBoundedBody stream limit = read_chunks limit [] 0 stream"

lemma read_chunks_eq:
  "read_chunks limit chunks n cs =
     (if n + length (concat cs) \<le> limit \<or> cs = [] then Some (concat chunks @ concat cs) else None)"
  by (induction cs arbitrary: chunks n) auto

lemma readBoundedBody_eq:
  "readBoundedBody stream limit =
     (if length (concat stream) \<le> limit \<or> stream = [] then Some (concat stream) else None)"
  by (simp add: readBoundedBody_def read_chunks_eq)

section \<open>The type of a receipt\<close>

text \<open>Every field a receipt may have, with its type. The texts that come from a request, or that an instruction
  answers with, hold no secret.\<close>

definition codes_type :: "jv \<Rightarrow> bool" where
  "codes_type v \<longleftrightarrow> is_array v \<and> items v \<noteq> [] \<and> list_all is_string (items v) \<and> distinct (items v)"

definition closed_fields :: "(string \<times> (jv \<Rightarrow> bool)) list \<Rightarrow> jv \<Rightarrow> bool" where
  "closed_fields ts v \<longleftrightarrow>
     is_obj v \<and> list_all (\<lambda>(k, x). case map_of ts k of None \<Rightarrow> False | Some t \<Rightarrow> t x) (fields_of v)"

definition hidden :: "string list \<Rightarrow> jv \<Rightarrow> bool" where
  "hidden ks v \<longleftrightarrow> (list_all plain_secret ks \<longrightarrow> hides ks v)"

definition text_type :: "string list \<Rightarrow> jv \<Rightarrow> bool" where
  "text_type ks v \<longleftrightarrow> is_string v \<and> hidden ks v"

definition reason_type :: "string list \<Rightarrow> jv \<Rightarrow> bool" where
  "reason_type ks = closed_fields [(''purpose'', \<lambda>v. v \<in> set (map VStr REASON_PURPOSES)), (''detail'', text_type ks)]"

definition entry_type :: "string list \<Rightarrow> jv \<Rightarrow> bool" where
  "entry_type ks = closed_fields
     [(''nodeId'', positiveInteger_jv), (''key'', \<lambda>v. is_string v \<and> length (chars_of v) \<le> 160),
      (''delivery'', is_string), (''bodyCharacters'', natural_jv), (''bodyBytes'', natural_jv),
      (''firstRequestKey'', text_type ks)]"

definition retrieval_type :: "string list \<Rightarrow> jv \<Rightarrow> bool" where
  "retrieval_type ks = closed_fields
     [(''requestKey'', text_type ks), (''replayed'', is_boolean), (''reason'', reason_type ks),
      (''entries'', \<lambda>v. is_array v \<and> length (items v) \<le> 8 \<and> list_all (entry_type ks) (items v)),
      (''rereadReason'', text_type ks)]"

definition target_type :: "jv \<Rightarrow> bool" where
  "target_type = closed_fields [(''scope'', \<lambda>v. v \<in> {VStr ''thread'', VStr ''project''}), (''id'', positiveInteger_jv)]"

definition nullable :: "(jv \<Rightarrow> bool) \<Rightarrow> jv \<Rightarrow> bool" where
  "nullable t v \<longleftrightarrow> v = VNull \<or> t v"

definition receipt_fields :: "string list \<Rightarrow> (string \<times> (jv \<Rightarrow> bool)) list" where
  "receipt_fields ks =
     [(''schemaVersion'', \<lambda>v. v = VNum (NInt 1)), (''method'', is_string), (''path'', is_string),
      (''status'', \<lambda>v. \<exists>n. v = VNum (NInt n)), (''errorCodes'', codes_type),
      (''instructionGraphVersionKey'', is_string), (''instructionGraphDigest'', \<lambda>v. hex64 (jv_string v)),
      (''recordKind'', is_string), (''recordId'', positiveInteger_jv), (''recordState'', is_string),
      (''actionKind'', is_string), (''actionRelation'', nullable is_string),
      (''actionSourceNodeId'', positiveInteger_jv), (''actionSourceLayerId'', nullable positiveInteger_jv),
      (''actionTargetLayerId'', nullable positiveInteger_jv),
      (''instructionRetrieval'', retrieval_type ks),
      (''instructionSearchReceipt'', closed_fields [(''reason'', reason_type ks)]),
      (''queryContractVersion'', \<lambda>v. jv_int v \<noteq> None), (''target'', target_type), (''query'', text_type ks),
      (''parameters'', \<lambda>v. is_obj v \<and> hidden ks v),
      (''budget'', closed_fields (map (\<lambda>k. (k, natural_jv)) SEARCH_BUDGET_KEYS)),
      (''searchLayerIds'', \<lambda>v. is_array v \<and> list_all positiveInteger_jv (items v)), (''resultTruncated'', is_boolean),
      (''completionNodeId'', positiveInteger_jv), (''completionRootLayerId'', positiveInteger_jv),
      (''completionCurrentLayerId'', positiveInteger_jv),
      (''visualAssetOperationKind'', \<lambda>v. v \<in> set (map VStr VISUAL_KINDS)),
      (''transitionKind'', \<lambda>v. lifecycle_of (jv_string v) \<noteq> None), (''completionLifecycle'', is_string)]"

definition field_typed :: "string list \<Rightarrow> string \<times> jv \<Rightarrow> bool" where
  "field_typed ks = (\<lambda>(k, v). case map_of (receipt_fields ks) k of None \<Rightarrow> False | Some t \<Rightarrow> t v)"

definition receipt_typed :: "string list \<Rightarrow> receipt \<Rightarrow> bool" where
  "receipt_typed ks r \<longleftrightarrow> map_ok r \<and> list_all (field_typed ks) r"

lemma map_set_entries: "set (map_set m k v) \<subseteq> insert (k, v) (set m)"
  by (induction m k v rule: map_set.induct) auto

lemma put_fields_typed:
  "receipt_typed ks r \<Longrightarrow> list_all (field_typed ks) fs \<Longrightarrow> receipt_typed ks (put_fields r fs)"
proof (induction fs arbitrary: r)
  case Nil
  then show ?case by (simp add: put_fields_def)
next
  case (Cons f fs)
  obtain k v where f: "f = (k, v)" by (cases f)
  have "list_all (field_typed ks) (map_set r k v)"
    using Cons.prems f map_set_entries [of r k v] by (auto simp: receipt_typed_def list_all_iff)
  then have "receipt_typed ks (map_set r k v)" using Cons.prems(1) by (simp add: receipt_typed_def)
  with Cons f show ?case by (simp add: put_fields_def)
qed

lemma list_all_opt_field [simp]: "list_all P (opt_field c k v) \<longleftrightarrow> (c \<longrightarrow> P (k, v))"
  by (simp add: opt_field_def)

lemma list_all_some_field [simp]: "list_all P (some_field k o') \<longleftrightarrow> (case o' of None \<Rightarrow> True | Some v \<Rightarrow> P (k, v))"
  by (simp add: some_field_def split: option.split)

lemma is_obj_scrub [simp]: "is_obj (scrubKnownSecrets ks v) = is_obj v"
  by (subst scrubKnownSecrets.simps) (auto simp: is_obj_def split: jv.split)

lemma is_string_scrub [simp]: "is_string (scrubKnownSecrets ks v) = is_string v"
  by (subst scrubKnownSecrets.simps) (auto simp: is_string_def split: jv.split)

lemma hidden_scrub [simp]: "hidden ks (scrubKnownSecrets ks v)"
  by (simp add: hidden_def scrub_no_secret)

lemma text_type_scrub: "is_string v \<Longrightarrow> text_type ks (scrubKnownSecrets ks v)"
  by (simp add: text_type_def)

lemma is_string_VStr [simp]: "is_string (VStr s)" "chars_of (VStr s) = s" "is_array (VArr vs)" "items (VArr vs) = vs"
  "is_obj (VObj fs)" "fields_of (VObj fs) = fs"
  by (simp_all add: is_string_def chars_of_def is_array_def items_def is_obj_def fields_of_def)

lemma codes_typed: "errorCodes response \<noteq> [] \<Longrightarrow> codes_type (VArr (errorCodes response))"
  by (simp add: codes_type_def) (auto simp: errorCodes_def Let_def list_all_iff)

lemma reason_typed:
  assumes "instructionReason v ks = Some r"
  shows "reason_type ks r"
  using assms by (auto simp: instructionReason_def reason_type_def closed_fields_def Let_def text_type_scrub split: if_splits)

lemma entry_typed:
  assumes "x \<in> set (retrieval_entry ks e)"
  shows "entry_type ks x"
  using assms by (auto simp: retrieval_entry_def entry_type_def closed_fields_def opt_field_def text_type_scrub split: if_splits)

lemma retrieval_typed:
  assumes "instructionRetrieval v ks = Some r"
  shows "retrieval_type ks r"
proof -
  from assms obtain reason where reason: "instructionReason (jv_get v ''reason'') ks = Some reason"
    by (auto simp: instructionRetrieval_def split: option.splits)
  have entries: "list_all (entry_type ks) (concat (map (retrieval_entry ks) xs))" for xs
    using entry_typed by (auto simp: list_all_iff)
  show ?thesis
    using assms reason reason_typed [OF reason] entries
    by (auto simp: instructionRetrieval_def retrieval_type_def closed_fields_def Let_def text_type_scrub
        split: if_splits)
qed

lemma field_typed_simps1 [simp]:
  "field_typed ks (''schemaVersion'', v) \<longleftrightarrow> (v = VNum (NInt 1))"
  "field_typed ks (''method'', v) \<longleftrightarrow> is_string v"
  "field_typed ks (''path'', v) \<longleftrightarrow> is_string v"
  "field_typed ks (''status'', v) \<longleftrightarrow> (\<exists>n. v = VNum (NInt n))"
  "field_typed ks (''errorCodes'', v) \<longleftrightarrow> codes_type v"
  "field_typed ks (''instructionGraphVersionKey'', v) \<longleftrightarrow> is_string v"
  "field_typed ks (''instructionGraphDigest'', v) \<longleftrightarrow> (hex64 (jv_string v))"
  "field_typed ks (''recordKind'', v) \<longleftrightarrow> is_string v"
  by (simp_all add: field_typed_def receipt_fields_def)

lemma field_typed_simps2 [simp]:
  "field_typed ks (''recordId'', v) \<longleftrightarrow> positiveInteger_jv v"
  "field_typed ks (''recordState'', v) \<longleftrightarrow> is_string v"
  "field_typed ks (''actionKind'', v) \<longleftrightarrow> is_string v"
  "field_typed ks (''actionRelation'', v) \<longleftrightarrow> nullable is_string v"
  "field_typed ks (''actionSourceNodeId'', v) \<longleftrightarrow> positiveInteger_jv v"
  "field_typed ks (''actionSourceLayerId'', v) \<longleftrightarrow> nullable positiveInteger_jv v"
  "field_typed ks (''actionTargetLayerId'', v) \<longleftrightarrow> nullable positiveInteger_jv v"
  "field_typed ks (''instructionRetrieval'', v) \<longleftrightarrow> retrieval_type ks v"
  by (simp_all add: field_typed_def receipt_fields_def)

lemma field_typed_simps3 [simp]:
  "field_typed ks (''instructionSearchReceipt'', v) \<longleftrightarrow> closed_fields [(''reason'', reason_type ks)] v"
  "field_typed ks (''queryContractVersion'', v) \<longleftrightarrow> (jv_int v \<noteq> None)"
  "field_typed ks (''target'', v) \<longleftrightarrow> target_type v"
  "field_typed ks (''query'', v) \<longleftrightarrow> text_type ks v"
  "field_typed ks (''parameters'', v) \<longleftrightarrow> (is_obj v \<and> hidden ks v)"
  "field_typed ks (''budget'', v) \<longleftrightarrow> closed_fields (map (\<lambda>k. (k, natural_jv)) SEARCH_BUDGET_KEYS) v"
  "field_typed ks (''searchLayerIds'', v) \<longleftrightarrow> (is_array v \<and> list_all positiveInteger_jv (items v))"
  "field_typed ks (''resultTruncated'', v) \<longleftrightarrow> is_boolean v"
  by (simp_all add: field_typed_def receipt_fields_def)

lemma field_typed_simps4 [simp]:
  "field_typed ks (''completionNodeId'', v) \<longleftrightarrow> positiveInteger_jv v"
  "field_typed ks (''completionRootLayerId'', v) \<longleftrightarrow> positiveInteger_jv v"
  "field_typed ks (''completionCurrentLayerId'', v) \<longleftrightarrow> positiveInteger_jv v"
  "field_typed ks (''visualAssetOperationKind'', v) \<longleftrightarrow> (v \<in> set (map VStr VISUAL_KINDS))"
  "field_typed ks (''transitionKind'', v) \<longleftrightarrow> (lifecycle_of (jv_string v) \<noteq> None)"
  "field_typed ks (''completionLifecycle'', v) \<longleftrightarrow> is_string v"
  by (simp_all add: field_typed_def receipt_fields_def)

lemma in_singleton_if: "v \<in> set (if c then [a] else []) \<longleftrightarrow> c \<and> v = a"
  by auto

lemma layer_ids_typed: "v \<in> set (layer_id x) \<Longrightarrow> positiveInteger_jv v"
proof -
  have pos: "0 < read_digits s" if seg: "id_segment s" for s
  proof -
    obtain c cs where s: "s = c # cs" using seg by (cases s) (auto simp: id_segment_def)
    have "digit_val c > 0"
    proof (rule ccontr)
      assume "\<not> digit_val c > 0"
      then have "(of_char c :: nat) = 48"
        using seg s by (auto simp: id_segment_def is_digit_def digit_val_def)
      then have "(of_char c :: nat) = of_char (CHR ''0'')" by simp
      then have "c = CHR ''0''" by (simp only: of_char_eq_iff)
      with seg s show False by (simp add: id_segment_def)
    qed
    moreover have grow: "foldl (\<lambda>a c. 10 * a + digit_val c) n cs \<ge> n" for n
    proof (induction cs arbitrary: n)
      case (Cons a cs)
      have "n \<le> 10 * n + digit_val a" by simp
      also have "\<dots> \<le> foldl (\<lambda>a c. 10 * a + digit_val c) (10 * n + digit_val a) cs" by (rule Cons)
      finally show ?case by simp
    qed simp
    ultimately show ?thesis
      using grow by (auto simp: s read_digits_def intro: less_le_trans)
  qed
  assume mem: "v \<in> set (layer_id x)"
  define n where "n = int (read_digits (drop 6 (chars_of (jv_get x ''id''))))"
  from mem have mem: "v \<in> set (if is_obj x \<and> jv_get x ''type'' = VStr ''layer'' \<and> is_string (jv_get x ''id'')
         \<and> id_path ''layer:'' '''' (chars_of (jv_get x ''id'')) \<and> is_safe_integer (NInt n) then [VNum (NInt n)] else [])"
    unfolding layer_id_def Let_def n_def by assumption
  have v: "v = VNum (NInt n)" and path: "id_path ''layer:'' '''' (chars_of (jv_get x ''id''))"
      and safe: "is_safe_integer (NInt n)"
    using mem unfolding in_singleton_if by blast+
  from path have "0 < n"
    using pos [of "drop 6 (chars_of (jv_get x ''id''))"] by (simp add: n_def id_path_def eval_nat_numeral)
  with safe show ?thesis
    unfolding v positiveInteger_jv_def jv_int_def by (simp add: num_val_def)
qed

lemma withRecord_typed: "receipt_typed ks r \<Longrightarrow> receipt_typed ks (withRecord r kind v)"
  by (simp add: withRecord_def put_fields_typed)

lemma withAction_typed: "receipt_typed ks r \<Longrightarrow> receipt_typed ks (withAction r v)"
  by (simp add: withAction_def Let_def put_fields_typed withRecord_typed nullable_def)

lemma withSearch_typed: "receipt_typed ks r \<Longrightarrow> receipt_typed ks (withSearch r v)"
proof -
  have "list_all positiveInteger_jv (concat (map (\<lambda>row. concat (map layer_id (items row))) rows))" for rows
    using layer_ids_typed by (auto simp: list_all_iff)
  moreover assume "receipt_typed ks r"
  ultimately show ?thesis by (simp add: withSearch_def put_fields_typed)
qed

lemma budget_typed:
  "closedSearchBudget v = Some b \<Longrightarrow> closed_fields (map (\<lambda>k. (k, natural_jv)) SEARCH_BUDGET_KEYS) b"
proof -
  have *: "k \<in> set keys \<Longrightarrow> map_of (map (\<lambda>k. (k, natural_jv)) keys) k = Some natural_jv" for k keys
    by (induction keys) auto
  assume "closedSearchBudget v = Some b"
  then have "b = VObj (concat (map (\<lambda>k. opt_field (natural_jv (jv_get v k)) k (jv_get v k)) SEARCH_BUDGET_KEYS))"
    by (auto simp: closedSearchBudget_def Let_def split: if_splits)
  then show ?thesis
    by (simp add: closed_fields_def) (auto simp: list_all_iff opt_field_def * split: if_splits)
qed

lemma target_typed: "closedSearchTarget v = Some t \<Longrightarrow> target_type t"
  by (auto simp: closedSearchTarget_def target_type_def closed_fields_def split: if_splits)

lemma withSearchRequest_typed:
  assumes "receipt_typed ks r"
  shows "receipt_typed ks (withSearchRequest r request ks)"
  using assms budget_typed target_typed
  by (auto simp: withSearchRequest_def text_type_scrub intro!: put_fields_typed split: option.split)

lemma withCompletion_typed: "receipt_typed ks r \<Longrightarrow> receipt_typed ks (withCompletion r v)"
  by (simp add: withCompletion_def Let_def put_fields_typed)

lemma base_typed: "receipt_typed ks (base_receipt method path status response)"
  by (auto simp: base_receipt_def receipt_typed_def map_ok_def opt_field_def codes_typed)

lemma fallback_typed:
  "receipt_typed ks r \<Longrightarrow> receipt_typed ks (fallback_receipt method path request response ks r)"
  by (simp add: fallback_receipt_def Let_def codes_typed withSearchRequest_typed put_fields_typed)

lemma transition_typed:
  "receipt_typed ks r \<Longrightarrow> transition_receipt request response r = Some r' \<Longrightarrow> receipt_typed ks r'"
  by (auto simp: transition_receipt_def Let_def intro!: put_fields_typed split: option.splits if_splits)

lemma if_typed: "receipt_typed ks x \<Longrightarrow> receipt_typed ks y \<Longrightarrow> receipt_typed ks (if b then x else y)"
  by simp

lemma receipt_typed_sanitize:
  "receipt_typed secrets (sanitizeReceipt method path status request response secrets)"
proof -
  let ?r = "base_receipt method path status response"
  let ?fallback = "fallback_receipt method path request response secrets ?r"
  have r: "receipt_typed secrets ?r" by (rule base_typed)
  have graph: "receipt_typed secrets (put_fields ?r (
      opt_field (is_string (jv_get response ''versionKey'')) ''instructionGraphVersionKey'' (jv_get response ''versionKey'')
      @ opt_field (jv_get response ''digest'' \<notin> {VUndef, VNull} \<and> hex64 (jv_string (jv_get response ''digest'')))
          ''instructionGraphDigest'' (jv_get response ''digest'')))"
    using r by (intro put_fields_typed) simp_all
  have retrieve: "receipt_typed secrets (put_fields ?r (some_field ''instructionRetrieval'' (instructionRetrieval response secrets)))"
    using r retrieval_typed by (intro put_fields_typed) (simp_all split: option.split)
  have visual: "receipt_typed secrets (put_fields ?r (opt_field (v \<in> set (map VStr VISUAL_KINDS))
      ''visualAssetOperationKind'' v))" for v
    using r by (intro put_fields_typed) simp_all
  have search: "receipt_typed secrets (withSearch (withSearchRequest ?r request secrets) response)"
    by (simp add: withSearch_typed withSearchRequest_typed r)
  have instruction: "receipt_typed secrets (put_fields (withSearch (withSearchRequest ?r request secrets) response)
      (some_field ''instructionSearchReceipt'' (if b then map_option (\<lambda>reason. VObj [(''reason'', reason)])
         (instructionReason v secrets) else None)))" for b v
    using search reason_typed
    by (intro put_fields_typed) (auto simp: closed_fields_def split: option.split)
  have transition: "receipt_typed secrets
      (case transition_receipt request response ?r of Some r' \<Rightarrow> r' | None \<Rightarrow> ?fallback)"
    using transition_typed [OF r] fallback_typed [OF r] by (simp split: option.split)
  show ?thesis
    unfolding sanitizeReceipt_def Let_def
    by (intro if_typed graph retrieve visual search instruction transition withRecord_typed withAction_typed
        withCompletion_typed fallback_typed r)
qed


definition demo_search :: jv where
  "demo_search = VObj [(''query'', VStr ''match k7'')]"


end
