(* ===== verification/OperationRecorder.thy ===== *)
theory OperationRecorder
  imports OperationReceipts
begin

text \<open>
  The recorder of graph operations (\<open>desktop/main/services/graph-operation-recorder.mjs\<close>): a proxy in front of
  the graph server that keeps a bounded trace of what each interaction asked. The closure is the record
  \<open>recorder\<close>; a request is the record \<open>proxied\<close>, alive from the moment the server calls back to its settlement.
  A request is two steps, \<open>request_begin\<close> up to the first \<open>await\<close> and \<open>request_settle\<close>, with any number of other
  steps in between. An export is \<open>export_begin\<close>, \<open>export_timeout\<close> for each round of the wait that times out, and
  \<open>export_finish\<close> once nothing is pending.

  The results: the trace of an interaction stays within its bounds, its counters are what its events add up to and
  its sequence numbers increase (\<open>recorder_ok\<close>); a token belongs to one interaction at most; and each attributed
  operation is accounted for exactly once, so that a trace exported as complete holds all of them.

  Parameters: the byte length of a rendered event and the digest of the file (\<open>recorder_platform\<close>), the
  clock, and the URL that the platform parsed. The bytes that pass through the proxy and the sockets are not
  modelled; the temporary file and rename of the export are the flag that says whether the writes succeed.
\<close>

section \<open>State\<close>

type_synonym event = "(string, jv) jsmap"

record op_state =
  os_events :: "event list"
  os_graphEventCount :: nat
  os_diagnosticEventCount :: nat
  os_diagnosticBytes :: nat
  os_diagnosticDiscarded :: nat
  os_diagnosticIds :: "jv list"
  os_byteLength :: nat
  os_discardedEvents :: nat
  os_discardedBytes :: nat
  os_pending :: "nat list"
  os_pendingDiagnostics :: "nat list"

definition new_op_state :: op_state where
  "new_op_state =
     \<lparr>os_events = [], os_graphEventCount = 0, os_diagnosticEventCount = 0, os_diagnosticBytes = 0,
      os_diagnosticDiscarded = 0, os_diagnosticIds = [], os_byteLength = 0, os_discardedEvents = 0,
      os_discardedBytes = 0, os_pending = [], os_pendingDiagnostics = []\<rparr>"

record proxied =
  px_method :: string
  px_path :: string
  px_node :: "int option"
  px_attributed :: "(int \<times> string) option"
  px_accounted :: bool

record recorder =
  rc_maxEvents :: nat
  rc_maxDiagnostics :: nat
  rc_maxBytes :: nat
  rc_capabilityOwners :: "(string, int) jsmap"
  rc_knownSecrets :: "string list"
  rc_interactions :: "(int, op_state) jsmap"
  rc_exported :: "int list"
  rc_sequence :: int
  rc_requests :: "(nat, proxied) jsmap"
  rc_nextRequest :: nat

record recorder_platform =
  rp_bytes :: "jv \<Rightarrow> nat"
  rp_sha256 :: "jv list \<Rightarrow> string"

record upstream_url =
  uu_protocol :: string
  uu_hostname :: string
  uu_port :: string
  uu_pathname :: string
  uu_search :: string
  uu_hash :: string
  uu_username :: string
  uu_password :: string

definition positive_bound :: "jsnum \<Rightarrow> bool" where
  "positive_bound n \<longleftrightarrow> is_safe_integer n \<and> num_val n > 0"

definition startGraphOperationRecorder ::
  "upstream_url option \<Rightarrow> jsnum \<Rightarrow> jsnum \<Rightarrow> jsnum \<Rightarrow> jsnum \<Rightarrow> recorder result" where
  "startGraphOperationRecorder upstream maxEvents maxDiagnostics maxBytes settleTimeout =
     (case upstream of
        None \<Rightarrow> Inl (TypeError ''Invalid URL'')
      | Some u \<Rightarrow>
          if uu_protocol u \<noteq> ''http:'' \<or> uu_hostname u \<noteq> ''127.0.0.1'' \<or> uu_port u = '''' \<or> uu_pathname u \<noteq> ''/''
             \<or> uu_search u \<noteq> '''' \<or> uu_hash u \<noteq> '''' \<or> uu_username u \<noteq> '''' \<or> uu_password u \<noteq> ''''
          then Inl (Error ''Graph operation recorder upstream must be an authenticated 127.0.0.1 HTTP origin.'')
          else if \<not> positive_bound maxDiagnostics \<or> \<not> positive_bound maxEvents \<or> \<not> positive_bound maxBytes
             \<or> \<not> positive_bound settleTimeout
          then Inl (Error ''Graph operation recorder bounds must be positive integers.'')
          else Inr
            \<lparr>rc_maxEvents = nat (num_val maxEvents), rc_maxDiagnostics = nat (num_val maxDiagnostics),
             rc_maxBytes = nat (num_val maxBytes), rc_capabilityOwners = [], rc_knownSecrets = [],
             rc_interactions = [], rc_exported = [], rc_sequence = 0, rc_requests = [], rc_nextRequest = 0\<rparr>)"

definition op_stateFor :: "int \<Rightarrow> recorder \<Rightarrow> op_state" where
  "op_stateFor n c = (case map_get (rc_interactions c) n of Some s \<Rightarrow> s | None \<Rightarrow> new_op_state)"

definition put_state :: "int \<Rightarrow> op_state \<Rightarrow> recorder \<Rightarrow> recorder" where
  "put_state n s c = c\<lparr>rc_interactions := map_set (rc_interactions c) n s\<rparr>"

section \<open>Recording\<close>

definition DIAGNOSTIC_BYTES :: nat where
  "DIAGNOSTIC_BYTES = 256 * 1024"

definition store_event :: "nat \<Rightarrow> nat \<Rightarrow> nat \<Rightarrow> receipt \<Rightarrow> event \<Rightarrow> nat \<Rightarrow> op_state \<Rightarrow> op_state" where
  "store_event maxEvents maxDiagnostics maxBytes r ev bytes s =
     (case map_get r ''authoringError'' of
        Some d \<Rightarrow>
          if jv_get d ''id'' \<in> set (os_diagnosticIds s) then s
          else if os_diagnosticEventCount s \<ge> maxDiagnostics \<or> os_diagnosticBytes s + bytes > DIAGNOSTIC_BYTES
          then s\<lparr>os_diagnosticDiscarded := os_diagnosticDiscarded s + 1\<rparr>
          else s\<lparr>os_diagnosticIds := os_diagnosticIds s @ [jv_get d ''id''], os_events := os_events s @ [ev],
                 os_diagnosticEventCount := os_diagnosticEventCount s + 1,
                 os_diagnosticBytes := os_diagnosticBytes s + bytes\<rparr>
      | None \<Rightarrow>
          if os_graphEventCount s \<ge> maxEvents \<or> os_byteLength s + bytes > maxBytes
          then s\<lparr>os_discardedEvents := os_discardedEvents s + 1, os_discardedBytes := os_discardedBytes s + bytes\<rparr>
          else s\<lparr>os_events := os_events s @ [ev], os_graphEventCount := os_graphEventCount s + 1,
                 os_byteLength := os_byteLength s + bytes\<rparr>)"

definition event_of :: "int \<Rightarrow> int \<Rightarrow> string \<Rightarrow> receipt \<Rightarrow> event" where
  "event_of n sequence now r =
     put_fields r [(''sequence'', VNum (NInt sequence)), (''observedAt'', VStr now),
       (''interactionNodeId'', VNum (NInt n))]"

definition record_event :: "recorder_platform \<Rightarrow> string \<Rightarrow> int \<Rightarrow> receipt \<Rightarrow> recorder \<Rightarrow> recorder" where
  "record_event P now n r c =
     (if n \<in> set (rc_exported c) then c
      else
        let c1 = c\<lparr>rc_sequence := rc_sequence c + 1\<rparr>;
            ev = event_of n (rc_sequence c1) now r;
            bytes = rp_bytes P (VObj ev) in
        put_state n (store_event (rc_maxEvents c) (rc_maxDiagnostics c) (rc_maxBytes c) r ev bytes (op_stateFor n c1)) c1)"

section \<open>Capabilities\<close>

definition revoke_node :: "int \<Rightarrow> recorder \<Rightarrow> recorder" where
  "revoke_node n c = c\<lparr>rc_capabilityOwners := filter (\<lambda>(_, owner). owner \<noteq> n) (rc_capabilityOwners c)\<rparr>"

definition replaceCapabilityOwner :: "string \<Rightarrow> int \<Rightarrow> recorder \<Rightarrow> recorder" where
  "replaceCapabilityOwner token n c =
     (let c1 = revoke_node n c in c1\<lparr>rc_capabilityOwners := map_set (rc_capabilityOwners c1) token n\<rparr>)"

definition revokeCapabilityOwner :: "jv \<Rightarrow> recorder \<Rightarrow> recorder" where
  "revokeCapabilityOwner request c =
     (if \<not> is_obj request then c
      else
        let c1 = (case jv_get request ''graphToken'' of
                    VStr t \<Rightarrow> c\<lparr>rc_capabilityOwners := map_delete (rc_capabilityOwners c) t\<rparr> | _ \<Rightarrow> c) in
        if positiveInteger_jv (jv_get request ''nodeId'')
        then revoke_node (the (jv_int (jv_get request ''nodeId''))) c1 else c1)"

definition learn :: "string \<Rightarrow> recorder \<Rightarrow> recorder" where
  "learn secret c =
     (if secret \<in> set (rc_knownSecrets c) then c else c\<lparr>rc_knownSecrets := rc_knownSecrets c @ [secret]\<rparr>)"

text \<open>A grant of a capability: a positive node id and a token that is not empty.\<close>

definition grant :: "jv \<Rightarrow> jv \<Rightarrow> recorder \<Rightarrow> recorder" where
  "grant node token c =
     (case token of
        VStr t \<Rightarrow> if positiveInteger_jv node \<and> t \<noteq> []
                   then replaceCapabilityOwner t (the (jv_int node)) (learn t c) else c
      | _ \<Rightarrow> c)"

definition update_capabilities :: "string \<Rightarrow> string \<Rightarrow> int \<Rightarrow> jv \<Rightarrow> jv \<Rightarrow> recorder \<Rightarrow> recorder" where
  "update_capabilities verb path status request response c =
     (let c1 = (if verb = ''POST'' \<and> path = ''/api/control/capabilities'' \<and> ok_status status
                then grant (jv_get request ''nodeId'') (jv_get request ''graphToken'') c else c);
          c2 = (if verb = ''POST'' \<and> path = ''/api/control/interactions'' \<and> ok_status status
                then grant (jv_get (jv_get response ''node'') ''id'') (jv_get response ''graphToken'') c1 else c1) in
      if verb = ''DELETE'' \<and> path = ''/api/control/capabilities'' \<and> ok_status status
      then revokeCapabilityOwner request c2 else c2)"

section \<open>Requests\<close>

definition AUTHORING_ERRORS :: string where
  "AUTHORING_ERRORS = ''/api/graph/authoring-errors''"

definition is_graph_path :: "string \<Rightarrow> bool" where
  "is_graph_path path \<longleftrightarrow> prefix ''/api/graph/'' path"

text \<open>The interaction a graph request is attributed to, the request, and its place among the pending ones.\<close>

definition learn_token :: "string option \<Rightarrow> recorder \<Rightarrow> recorder" where
  "learn_token token c = (case token of None \<Rightarrow> c | Some t \<Rightarrow> learn t c)"

definition owner_of :: "string \<Rightarrow> string option \<Rightarrow> recorder \<Rightarrow> int option" where
  "owner_of pathname token c =
     (if is_graph_path pathname then Option.bind token (map_get (rc_capabilityOwners c)) else None)"

definition new_request :: "string \<Rightarrow> string \<Rightarrow> int option \<Rightarrow> string list \<Rightarrow> proxied" where
  "new_request verb pathname node secrets =
     \<lparr>px_method = verb, px_path = pathname, px_node = node,
      px_attributed = (if pathname = AUTHORING_ERRORS then None
        else map_option (\<lambda>n. (n, scrub_text secrets pathname)) node),
      px_accounted = False\<rparr>"

definition add_pending :: "nat \<Rightarrow> string \<Rightarrow> int option \<Rightarrow> recorder \<Rightarrow> recorder" where
  "add_pending rid pathname node c =
     (case node of
        None \<Rightarrow> c
      | Some n \<Rightarrow>
          let s = op_stateFor n c in
          put_state n
            (if pathname = AUTHORING_ERRORS then s\<lparr>os_pendingDiagnostics := os_pendingDiagnostics s @ [rid]\<rparr>
             else s\<lparr>os_pending := os_pending s @ [rid]\<rparr>) c)"

text \<open>The server callback up to the first \<open>await\<close>. A target that is not origin-relative, or that leaves the
  upstream origin, throws before anything is attributed: \<open>None\<close>.\<close>

definition request_begin ::
  "string \<Rightarrow> string \<Rightarrow> bool \<Rightarrow> string \<Rightarrow> string option \<Rightarrow> recorder \<Rightarrow> nat option \<times> recorder" where
  "request_begin verb target sameOrigin pathname authorization c =
     (if \<not> prefix ''/'' target \<or> prefix ''//'' target \<or> \<not> sameOrigin then (None, c)
      else
        let c1 = learn_token (bearerToken authorization) c;
            node = owner_of pathname (bearerToken authorization) c1;
            rid = rc_nextRequest c1;
            c2 = add_pending rid pathname node c1
        in (Some rid, c2\<lparr>rc_requests := map_set (rc_requests c2) rid (new_request verb pathname node (rc_knownSecrets c1)),
              rc_nextRequest := rid + 1\<rparr>))"

text \<open>\<open>releaseActivity()\<close> and the end of the request.\<close>

definition release_request :: "nat \<Rightarrow> proxied \<Rightarrow> recorder \<Rightarrow> recorder" where
  "release_request rid q c =
     (let c1 = (case px_node q of
                  None \<Rightarrow> c
                | Some n \<Rightarrow>
                    (case map_get (rc_interactions c) n of
                       None \<Rightarrow> c
                     | Some s \<Rightarrow>
                         put_state n
                           (if px_path q = AUTHORING_ERRORS
                            then s\<lparr>os_pendingDiagnostics := removeAll rid (os_pendingDiagnostics s)\<rparr>
                            else s\<lparr>os_pending := removeAll rid (os_pending s)\<rparr>) c))
      in c1\<lparr>rc_requests := map_delete (rc_requests c1) rid\<rparr>)"

definition failure_receipt :: "string \<Rightarrow> string \<Rightarrow> receipt" where
  "failure_receipt verb path =
     [(''schemaVersion'', VNum (NInt 1)), (''method'', VStr verb), (''path'', VStr path), (''status'', VNum (NInt 502)),
      (''errorCodes'', VArr [VStr ''graph_operation_proxy_failed''])]"

definition fail_request :: "recorder_platform \<Rightarrow> string \<Rightarrow> proxied \<Rightarrow> recorder \<Rightarrow> recorder" where
  "fail_request P now q c =
     (case px_attributed q of
        Some (n, path) \<Rightarrow> if px_accounted q then c else record_event P now n (failure_receipt (px_method q) path) c
      | None \<Rightarrow> c)"

definition diagnostic_codes :: "string \<Rightarrow> string list" where
  "diagnostic_codes phase =
     (if phase = ''client'' then [''invalid_arguments'', ''client_validation'']
      else [''compiler_validation'', ''unsafe_css'', ''detail_template_nested''])"

definition valid_diagnostic :: "string \<Rightarrow> jv \<Rightarrow> bool" where
  "valid_diagnostic verb d \<longleftrightarrow>
     verb = ''POST'' \<and> is_obj d
     \<and> list_all (\<lambda>k. k \<in> set [''schemaVersion'', ''id'', ''phase'', ''codes'']) (jv_keys d)
     \<and> jv_get d ''schemaVersion'' = VNum (NInt 1) \<and> is_string (jv_get d ''id'')
     \<and> length (chars_of (jv_get d ''id'')) = 36
     \<and> list_all (\<lambda>ch. hex_lower ch \<or> ch = CHR ''-'') (chars_of (jv_get d ''id''))
     \<and> jv_get d ''phase'' \<in> {VStr ''client'', VStr ''compiler''}
     \<and> is_array (jv_get d ''codes'') \<and> items (jv_get d ''codes'') \<noteq> [] \<and> length (items (jv_get d ''codes'')) \<le> 16
     \<and> list_all (\<lambda>code. code \<in> set (map VStr (diagnostic_codes (chars_of (jv_get d ''phase''))))) (items (jv_get d ''codes''))"

definition diagnostic_receipt :: "string \<Rightarrow> string \<Rightarrow> jv \<Rightarrow> string list \<Rightarrow> receipt" where
  "diagnostic_receipt verb path d secrets =
     [(''schemaVersion'', VNum (NInt 1)), (''method'', VStr verb), (''path'', VStr path), (''status'', VNum (NInt 202)),
      (''authoringError'', VObj [(''id'', jv_get d ''id''), (''phase'', jv_get d ''phase''),
         (''codes'', scrubKnownSecrets secrets (VArr (first_unique (items (jv_get d ''codes'')))))])]"

text \<open>How a request ends: an exception anywhere in the callback, the body of a diagnostic, or the status of
  the upstream with the request and the response as JSON objects (\<open>VUndef\<close> for anything else).\<close>

datatype settlement = Threw | Diagnosed jv | Answered int jv jv

definition settle_answer :: "recorder_platform \<Rightarrow> string \<Rightarrow> proxied \<Rightarrow> settlement \<Rightarrow> recorder \<Rightarrow> recorder" where
  "settle_answer P now q outcome c =
     (case outcome of
        Threw \<Rightarrow> fail_request P now q c
      | Diagnosed d \<Rightarrow>
          (case px_node q of
             None \<Rightarrow> c
           | Some n \<Rightarrow>
               if valid_diagnostic (px_method q) d
               then record_event P now n (diagnostic_receipt (px_method q) (px_path q) d (rc_knownSecrets c)) c else c)
      | Answered status request response \<Rightarrow>
          if px_attributed q \<noteq> None \<and> ok_status status \<and> px_method q \<noteq> ''HEAD'' \<and> response = VUndef
          then fail_request P now q c
          else
            let c1 = update_capabilities (px_method q) (px_path q) status request response c in
            case px_node q of
              None \<Rightarrow> c1
            | Some n \<Rightarrow>
                record_event P now n
                  (sanitizeReceipt (px_method q) (px_path q) status request response (rc_knownSecrets c1)) c1)"

definition request_settle :: "recorder_platform \<Rightarrow> string \<Rightarrow> nat \<Rightarrow> settlement \<Rightarrow> recorder \<Rightarrow> recorder" where
  "request_settle P now rid outcome c =
     (case map_get (rc_requests c) rid of
        None \<Rightarrow> c
      | Some q \<Rightarrow> release_request rid q (settle_answer P now q outcome c))"

text \<open>The status the diagnostics route answers with.\<close>

definition diagnostic_status :: "proxied \<Rightarrow> jv \<Rightarrow> int" where
  "diagnostic_status q d = (if px_node q = None then 401 else if valid_diagnostic (px_method q) d then 202 else 400)"

section \<open>Export\<close>

record descriptor =
  ds_status :: string
  ds_promotable :: bool
  ds_sha256 :: string
  ds_byteLength :: nat
  ds_eventCount :: nat
  ds_truncated :: bool
  ds_diagnosticsDiscarded :: "nat option"
  ds_discarded :: "(nat \<times> nat) option"

definition export_begin :: "jv \<Rightarrow> recorder \<Rightarrow> unit result \<times> recorder" where
  "export_begin node c =
     (if \<not> positiveInteger_jv node
      then (Inl (Error ''Graph operation export needs a positive interaction node ID.''), c)
      else let n = the (jv_int node) in (Inr (), put_state n (op_stateFor n c) c))"

definition cancel_requests :: "nat list \<Rightarrow> (nat, proxied) jsmap \<Rightarrow> (nat, proxied) jsmap" where
  "cancel_requests ids qs = map (\<lambda>(rid, q). (rid, if rid \<in> set ids then q\<lparr>px_accounted := True\<rparr> else q)) qs"

definition export_timeout :: "int \<Rightarrow> recorder \<Rightarrow> recorder" where
  "export_timeout n c =
     (let s = op_stateFor n c in
      (put_state n (s\<lparr>os_discardedEvents := os_discardedEvents s + length (os_pending s),
           os_diagnosticDiscarded := os_diagnosticDiscarded s + length (os_pendingDiagnostics s)\<rparr>) c)
        \<lparr>rc_requests := cancel_requests (os_pending s @ os_pendingDiagnostics s) (rc_requests c)\<rparr>)"

definition descriptor_of :: "recorder_platform \<Rightarrow> op_state \<Rightarrow> descriptor" where
  "descriptor_of P s =
     (let truncated = os_discardedEvents s > 0 in
      \<lparr>ds_status = (if truncated then ''partial'' else ''complete''), ds_promotable = (\<not> truncated),
       ds_sha256 = rp_sha256 P (map VObj (os_events s)),
       ds_byteLength = sum_list (map (\<lambda>e. rp_bytes P (VObj e)) (os_events s)),
       ds_eventCount = length (os_events s), ds_truncated = truncated,
       ds_diagnosticsDiscarded = (if os_diagnosticDiscarded s \<noteq> 0 then Some (os_diagnosticDiscarded s) else None),
       ds_discarded = (if truncated then Some (os_discardedEvents s, os_discardedBytes s) else None)\<rparr>)"

text \<open>The end of \<open>exportInteraction\<close>, when nothing is pending: the events written to the file and the descriptor.
  \<open>manifest\<close> says that the manifest names this interaction and both writes succeed.\<close>

definition export_finish ::
  "recorder_platform \<Rightarrow> int \<Rightarrow> bool \<Rightarrow> recorder \<Rightarrow> (event list \<times> descriptor) result \<times> recorder" where
  "export_finish P n manifest c =
     (let s = op_stateFor n c;
          c1 = c\<lparr>rc_exported := (if n \<in> set (rc_exported c) then rc_exported c else rc_exported c @ [n])\<rparr> in
      if \<not> manifest
      then (Inl (Error ''Candidate trace manifest does not match the graph-operation interaction.''), c1)
      else (Inr (os_events s, descriptor_of P s),
            c1\<lparr>rc_interactions := map_delete (rc_interactions c1) n\<rparr>))"

section \<open>Runs\<close>

datatype recorder_step =
    RequestBegin string string bool string "string option"
  | RequestSettle string nat settlement
  | ExportBegin jv
  | ExportTimeout int
  | ExportFinish int bool

fun rec_step :: "recorder_platform \<Rightarrow> recorder_step \<Rightarrow> recorder \<Rightarrow> recorder" where
  "rec_step P (RequestBegin verb target sameOrigin pathname auth) c =
     snd (request_begin verb target sameOrigin pathname auth c)"
| "rec_step P (RequestSettle now rid outcome) c = request_settle P now rid outcome c"
| "rec_step P (ExportBegin node) c = snd (export_begin node c)"
| "rec_step P (ExportTimeout n) c = export_timeout n c"
| "rec_step P (ExportFinish n manifest) c = snd (export_finish P n manifest c)"

section \<open>Bounds\<close>

definition is_diagnostic :: "event \<Rightarrow> bool" where
  "is_diagnostic e \<longleftrightarrow> map_has e ''authoringError''"

definition graph_events :: "event list \<Rightarrow> event list" where
  "graph_events = filter (\<lambda>e. \<not> is_diagnostic e)"

definition diagnostic_events :: "event list \<Rightarrow> event list" where
  "diagnostic_events = filter is_diagnostic"

definition events_bytes :: "recorder_platform \<Rightarrow> event list \<Rightarrow> nat" where
  "events_bytes P es = sum_list (map (\<lambda>e. rp_bytes P (VObj e)) es)"

definition sequence_of :: "event \<Rightarrow> int" where
  "sequence_of e = (case map_get e ''sequence'' of Some (VNum (NInt n)) \<Rightarrow> n | _ \<Rightarrow> 0)"

text \<open>The counters are what the events add up to, within the bounds; sequence numbers increase; no diagnostic is
  kept twice.\<close>

definition op_ok :: "recorder_platform \<Rightarrow> recorder \<Rightarrow> op_state \<Rightarrow> bool" where
  "op_ok P c s \<longleftrightarrow>
     os_graphEventCount s = length (graph_events (os_events s)) \<and> os_graphEventCount s \<le> rc_maxEvents c
     \<and> os_byteLength s = events_bytes P (graph_events (os_events s)) \<and> os_byteLength s \<le> rc_maxBytes c
     \<and> os_diagnosticEventCount s = length (diagnostic_events (os_events s))
     \<and> os_diagnosticEventCount s \<le> rc_maxDiagnostics c
     \<and> os_diagnosticBytes s = events_bytes P (diagnostic_events (os_events s)) \<and> os_diagnosticBytes s \<le> DIAGNOSTIC_BYTES
     \<and> sorted_wrt (<) (map sequence_of (os_events s))
     \<and> list_all (\<lambda>e. sequence_of e \<le> rc_sequence c) (os_events s)
     \<and> distinct (os_diagnosticIds s)"

definition recorder_ok :: "recorder_platform \<Rightarrow> recorder \<Rightarrow> bool" where
  "recorder_ok P c \<longleftrightarrow>
     distinct (map snd (rc_capabilityOwners c)) \<and> map_ok (rc_capabilityOwners c) \<and> map_ok (rc_interactions c)
     \<and> list_all (\<lambda>(n, s). op_ok P c s) (rc_interactions c)
     \<and> map_ok (rc_requests c) \<and> list_all (\<lambda>(rid, q). rid < rc_nextRequest c) (rc_requests c)"

definition limits :: "recorder \<Rightarrow> nat \<times> nat \<times> nat" where
  "limits c = (rc_maxEvents c, rc_maxDiagnostics c, rc_maxBytes c)"

lemma op_ok_mono:
  "op_ok P c s \<Longrightarrow> limits c' = limits c \<Longrightarrow> rc_sequence c \<le> rc_sequence c' \<Longrightarrow> op_ok P c' s"
  by (fastforce simp: op_ok_def limits_def list_all_iff)

lemma op_ok_new [simp]: "op_ok P c new_op_state"
  by (simp add: op_ok_def new_op_state_def graph_events_def diagnostic_events_def events_bytes_def)

lemma op_ok_pending [simp]:
  "op_ok P c (s\<lparr>os_pending := ids\<rparr>) = op_ok P c s" "op_ok P c (s\<lparr>os_pendingDiagnostics := ids\<rparr>) = op_ok P c s"
  "op_ok P c (s\<lparr>os_discardedEvents := a, os_diagnosticDiscarded := b\<rparr>) = op_ok P c s"
  by (simp_all add: op_ok_def)

lemma event_of_get:
  "map_get (event_of n q now r) ''sequence'' = Some (VNum (NInt q))"
  "is_diagnostic (event_of n q now r) = map_has r ''authoringError''"
  by (simp_all add: event_of_def put_fields_def is_diagnostic_def)

lemma store_event_ok:
  assumes "op_ok P c s" and "rc_sequence c < q" and "limits c' = limits c" and "rc_sequence c' = q"
  shows "op_ok P c' (store_event (rc_maxEvents c) (rc_maxDiagnostics c) (rc_maxBytes c) r (event_of n q now r)
           (rp_bytes P (VObj (event_of n q now r))) s)"
proof -
  have s: "op_ok P c' s" using assms by (auto intro: op_ok_mono)
  have sq: "sequence_of (event_of n q now r) = q" by (simp add: sequence_of_def event_of_get)
  have old: "list_all (\<lambda>e. sequence_of e < q) (os_events s)"
    using assms(1,2) by (auto simp: op_ok_def list_all_iff)
  let ?e = "event_of n q now r"
  have diag: "is_diagnostic ?e \<longleftrightarrow> map_get r ''authoringError'' \<noteq> None"
    by (simp add: event_of_get map_has_iff)
  have parts: "graph_events (es @ [?e]) = graph_events es @ (if is_diagnostic ?e then [] else [?e])"
      "diagnostic_events (es @ [?e]) = diagnostic_events es @ (if is_diagnostic ?e then [?e] else [])"
      "events_bytes P (es @ [?e]) = events_bytes P es + rp_bytes P (VObj ?e)" for es
    by (simp_all add: graph_events_def diagnostic_events_def events_bytes_def)
  have sorted: "sorted_wrt (<) (map sequence_of (os_events s @ [?e]))"
      "list_all (\<lambda>e. sequence_of e \<le> rc_sequence c') (os_events s @ [?e])"
    using s old sq assms(4) by (auto simp: op_ok_def sorted_wrt_append list_all_iff less_imp_le)
  show ?thesis
  proof (cases "map_get r ''authoringError''")
    case None
    with s sorted diag assms(3) show ?thesis
      by (simp add: store_event_def op_ok_def parts limits_def del: map_append)
  next
    case (Some d)
    with s sorted diag assms(3) show ?thesis
      by (simp add: store_event_def op_ok_def parts limits_def del: map_append)
  qed
qed

lemma op_stateFor_ok: "recorder_ok P c \<Longrightarrow> op_ok P c (op_stateFor n c)"
  by (auto simp: op_stateFor_def recorder_ok_def list_all_iff split: option.split dest!: map_get_in)

lemma list_all_map_set: "list_all P m \<Longrightarrow> P (k, v) \<Longrightarrow> list_all P (map_set m k v)"
  using map_set_entries [of m k v] by (auto simp: list_all_iff)

lemma list_all_map_delete: "list_all P m \<Longrightarrow> list_all P (map_delete m k)"
  by (auto simp: list_all_iff map_delete_def)

lemma put_state_ok: "recorder_ok P c \<Longrightarrow> op_ok P c s \<Longrightarrow> recorder_ok P (put_state n s c)"
  by (simp add: recorder_ok_def put_state_def op_ok_def list_all_map_set case_prod_beta)

lemma limits_update [simp]:
  "limits (c\<lparr>rc_sequence := q\<rparr>) = limits c" "limits (c\<lparr>rc_interactions := i\<rparr>) = limits c"
  by (simp_all add: limits_def)

lemma record_event_ok: "recorder_ok P c \<Longrightarrow> recorder_ok P (record_event P now n r c)"
proof -
  assume ok: "recorder_ok P c"
  let ?c1 = "c\<lparr>rc_sequence := rc_sequence c + 1\<rparr>"
  have "list_all (\<lambda>(n, s). op_ok P ?c1 s) (rc_interactions c)"
    using ok by (auto simp: recorder_ok_def list_all_iff intro: op_ok_mono)
  then have ok1: "recorder_ok P ?c1" using ok by (simp add: recorder_ok_def)
  have "op_ok P c (op_stateFor n ?c1)" using op_stateFor_ok [OF ok, of n] by (simp add: op_stateFor_def)
  then have "op_ok P ?c1 (store_event (rc_maxEvents c) (rc_maxDiagnostics c) (rc_maxBytes c) r
      (event_of n (rc_sequence c + 1) now r) (rp_bytes P (VObj (event_of n (rc_sequence c + 1) now r))) (op_stateFor n ?c1))"
    by (rule store_event_ok) simp_all
  then show ?thesis using ok ok1 by (simp add: record_event_def Let_def put_state_ok)
qed

lemma distinct_values_set:
  "distinct (map snd m) \<Longrightarrow> v \<notin> snd ` set m \<Longrightarrow> distinct (map snd (map_set m k v))"
proof (induction m k v rule: map_set.induct)
  case (2 k' v' m k v)
  have "snd ` set (map_set m k v) \<subseteq> insert v (snd ` set m)"
    using map_set_entries [of m k v] by fastforce
  with 2 show ?case by auto
qed simp

lemma distinct_values_filter: "distinct (map snd m) \<Longrightarrow> distinct (map snd (filter P m))"
  by (induction m) auto

lemma revoke_node_ok: "recorder_ok P c \<Longrightarrow> recorder_ok P (revoke_node n c)"
  by (simp add: recorder_ok_def revoke_node_def op_ok_def distinct_values_filter map_ok_filter)

lemma learn_ok [simp]: "recorder_ok P (learn t c) = recorder_ok P c"
  by (simp add: recorder_ok_def learn_def op_ok_def)

lemma replaceCapabilityOwner_ok: "recorder_ok P c \<Longrightarrow> recorder_ok P (replaceCapabilityOwner t n c)"
proof -
  assume "recorder_ok P c"
  then have "recorder_ok P (revoke_node n c)" by (rule revoke_node_ok)
  moreover have "n \<notin> snd ` set (rc_capabilityOwners (revoke_node n c))" by (auto simp: revoke_node_def)
  ultimately show ?thesis
    by (simp add: replaceCapabilityOwner_def Let_def recorder_ok_def op_ok_def distinct_values_set)
qed

lemma grant_ok: "recorder_ok P c \<Longrightarrow> recorder_ok P (grant node token c)"
  by (simp add: grant_def replaceCapabilityOwner_ok split: jv.split)

lemma revokeCapabilityOwner_ok: "recorder_ok P c \<Longrightarrow> recorder_ok P (revokeCapabilityOwner request c)"
proof -
  assume ok: "recorder_ok P c"
  have "recorder_ok P (c\<lparr>rc_capabilityOwners := map_delete (rc_capabilityOwners c) t\<rparr>)" for t
    using ok by (simp add: recorder_ok_def op_ok_def map_delete_def distinct_values_filter map_ok_filter)
  with ok show ?thesis
    by (simp add: revokeCapabilityOwner_def Let_def revoke_node_ok split: jv.split)
qed

lemma update_capabilities_ok:
  "recorder_ok P c \<Longrightarrow> recorder_ok P (update_capabilities verb path status request response c)"
  by (simp add: update_capabilities_def Let_def grant_ok revokeCapabilityOwner_ok)

lemma fail_request_ok: "recorder_ok P c \<Longrightarrow> recorder_ok P (fail_request P now q c)"
  by (simp add: fail_request_def record_event_ok split: option.split)

lemma settle_answer_ok: "recorder_ok P c \<Longrightarrow> recorder_ok P (settle_answer P now q outcome c)"
  by (simp add: settle_answer_def Let_def fail_request_ok record_event_ok update_capabilities_ok
      split: settlement.split option.split)

lemma release_ok: "recorder_ok P c \<Longrightarrow> recorder_ok P (release_request rid q c)"
proof -
  have drop: "recorder_ok P c \<Longrightarrow> recorder_ok P (c\<lparr>rc_requests := map_delete (rc_requests c) rid\<rparr>)" for c
    by (simp add: recorder_ok_def op_ok_def list_all_map_delete)
  assume ok: "recorder_ok P c"
  have "op_ok P c s" if "map_get (rc_interactions c) n = Some s" for n s
    using op_stateFor_ok [OF ok, of n] that by (simp add: op_stateFor_def)
  then show ?thesis
    unfolding release_request_def Let_def
    by (intro drop) (auto simp: ok split: option.split intro!: put_state_ok)
qed

lemma request_begin_ok:
  "recorder_ok P c \<Longrightarrow> recorder_ok P (snd (request_begin verb target sameOrigin pathname auth c))"
proof -
  have add: "recorder_ok P (c\<lparr>rc_requests := map_set (rc_requests c) (rc_nextRequest c) q, rc_nextRequest := rc_nextRequest c + 1\<rparr>)"
    if ok: "recorder_ok P c" for c q
  proof -
    have "list_all (\<lambda>(rid, q). rid < rc_nextRequest c + 1) (rc_requests c)"
      using ok by (auto simp: recorder_ok_def list_all_iff less_Suc_eq)
    with ok show ?thesis by (simp add: recorder_ok_def op_ok_def list_all_map_set)
  qed
  assume ok: "recorder_ok P c"
  define c1 where "c1 = learn_token (bearerToken auth) c"
  have ok1: "recorder_ok P c1" using ok by (simp add: c1_def learn_token_def split: option.split)
  have ok2: "recorder_ok P (add_pending rid pathname node c1)" for rid node
    using ok1 by (simp add: add_pending_def Let_def put_state_ok op_stateFor_ok split: option.split)
  have nxt: "rc_nextRequest (add_pending rid pathname node c1) = rc_nextRequest c1" for rid node
    by (simp add: add_pending_def Let_def put_state_def split: option.split)
  show ?thesis
    using add [OF ok2] ok unfolding request_begin_def Let_def c1_def [symmetric] nxt by simp
qed

lemma export_timeout_ok: "recorder_ok P c \<Longrightarrow> recorder_ok P (export_timeout n c)"
proof -
  assume ok: "recorder_ok P c"
  have keys: "map fst (cancel_requests ids qs) = map fst qs" for ids qs
    by (induction qs) (auto simp: cancel_requests_def)
  have cancel: "recorder_ok P (d\<lparr>rc_requests := cancel_requests ids (rc_requests c)\<rparr>)"
    if "recorder_ok P d" "rc_requests d = rc_requests c" for d ids
  proof -
    have "list_all (\<lambda>(rid, q). rid < rc_nextRequest d) (cancel_requests ids (rc_requests c))"
      using that by (auto simp: recorder_ok_def cancel_requests_def list_all_iff)
    moreover have "map_ok (cancel_requests ids (rc_requests c))"
      using that by (simp add: recorder_ok_def map_ok_def keys)
    ultimately show ?thesis using that by (simp add: recorder_ok_def op_ok_def)
  qed
  show ?thesis
    unfolding export_timeout_def Let_def
    by (rule cancel) (simp_all add: put_state_ok ok op_stateFor_ok, simp add: put_state_def)
qed

lemma export_finish_ok: "recorder_ok P c \<Longrightarrow> recorder_ok P (snd (export_finish P n manifest c))"
  by (simp add: export_finish_def Let_def recorder_ok_def op_ok_def list_all_map_delete)

lemma rec_step_ok: "recorder_ok P c \<Longrightarrow> recorder_ok P (rec_step P e c)"
proof (cases e)
  case (RequestSettle now rid outcome)
  then show "recorder_ok P c \<Longrightarrow> ?thesis"
    by (simp add: request_settle_def release_ok settle_answer_ok split: option.split)
next
  case (ExportBegin node)
  then show "recorder_ok P c \<Longrightarrow> ?thesis"
    by (simp add: export_begin_def Let_def put_state_ok op_stateFor_ok)
qed (simp_all add: request_begin_ok export_timeout_ok export_finish_ok)

interpretation rec: machine "rec_step P" "recorder_ok P" for P
  by unfold_locales (rule rec_step_ok)

lemma started_ok: "startGraphOperationRecorder u e d b t = Inr c \<Longrightarrow> recorder_ok P c"
  by (auto simp: startGraphOperationRecorder_def recorder_ok_def split: option.splits if_splits)

section \<open>Accounting\<close>

text \<open>The interaction a step attributes an operation to.\<close>

definition begun_node :: "recorder_step \<Rightarrow> recorder \<Rightarrow> int option" where
  "begun_node e c =
     (case e of
        RequestBegin verb target sameOrigin pathname auth \<Rightarrow>
          (case request_begin verb target sameOrigin pathname auth c of
             (None, _) \<Rightarrow> None
           | (Some rid, c') \<Rightarrow> Option.bind (map_get (rc_requests c') rid) (\<lambda>q. map_option fst (px_attributed q)))
      | _ \<Rightarrow> None)"

text \<open>The order the control flow imposes: a request that was cancelled ends with an exception, since its fetch was
  aborted; only the diagnostics route ends with a diagnosis; a wait times out again only after the requests it
  cancelled have ended; an export finishes when nothing is pending.\<close>

definition legal_step :: "recorder_step \<Rightarrow> recorder \<Rightarrow> bool" where
  "legal_step e c =
     (case e of
        RequestSettle now rid outcome \<Rightarrow>
          (case map_get (rc_requests c) rid of
             None \<Rightarrow> True
           | Some q \<Rightarrow>
               (case outcome of
                  Threw \<Rightarrow> True
                | Diagnosed d \<Rightarrow> px_path q = AUTHORING_ERRORS
                | Answered status request response \<Rightarrow> px_path q \<noteq> AUTHORING_ERRORS \<and> \<not> px_accounted q))
      | ExportTimeout n \<Rightarrow>
          list_all (\<lambda>rid. case map_get (rc_requests c) rid of None \<Rightarrow> True | Some q \<Rightarrow> \<not> px_accounted q)
            (os_pending (op_stateFor n c))
      | ExportFinish n manifest \<Rightarrow> os_pending (op_stateFor n c) = [] \<and> os_pendingDiagnostics (op_stateFor n c) = []
      | _ \<Rightarrow> True)"

definition count_begun :: "recorder_step \<Rightarrow> recorder \<Rightarrow> (int \<Rightarrow> nat) \<Rightarrow> int \<Rightarrow> nat" where
  "count_begun e c g = (case begun_node e c of None \<Rightarrow> g | Some n \<Rightarrow> g(n := g n + 1))"

text \<open>The states a recorder reaches, with the number of operations attributed to each interaction so far.\<close>

inductive rec_reach :: "recorder_platform \<Rightarrow> recorder \<Rightarrow> (int \<Rightarrow> nat) \<Rightarrow> recorder \<Rightarrow> bool" for P c0 where
  rec_start: "rec_reach P c0 (\<lambda>_. 0) c0"
| rec_more: "rec_reach P c0 g c \<Longrightarrow> legal_step e c \<Longrightarrow> rec_reach P c0 (count_begun e c g) (rec_step P e c)"

definition attributed_to :: "int \<Rightarrow> nat \<times> proxied \<Rightarrow> bool" where
  "attributed_to n = (\<lambda>(rid, q). px_node q = Some n \<and> px_path q \<noteq> AUTHORING_ERRORS)"

definition unsettled :: "int \<Rightarrow> recorder \<Rightarrow> nat" where
  "unsettled n c = length (filter (\<lambda>(rid, q). attributed_to n (rid, q) \<and> \<not> px_accounted q) (rc_requests c))"

definition request_shape :: "proxied \<Rightarrow> bool" where
  "request_shape q \<longleftrightarrow> map_option fst (px_attributed q) = (if px_path q = AUTHORING_ERRORS then None else px_node q)"

definition pending_ok :: "recorder \<Rightarrow> bool" where
  "pending_ok c \<longleftrightarrow>
     (\<forall>n rid. rid \<in> set (os_pending (op_stateFor n c)) \<longrightarrow> rid < rc_nextRequest c
        \<and> (\<forall>q. map_get (rc_requests c) rid = Some q \<longrightarrow> attributed_to n (rid, q)))
     \<and> (\<forall>n rid. rid \<in> set (os_pendingDiagnostics (op_stateFor n c)) \<longrightarrow> rid < rc_nextRequest c
        \<and> (\<forall>q. map_get (rc_requests c) rid = Some q \<longrightarrow> px_path q = AUTHORING_ERRORS))"

definition tally :: "(int \<Rightarrow> nat) \<Rightarrow> recorder \<Rightarrow> int \<Rightarrow> bool" where
  "tally g c n \<longleftrightarrow>
     g n = os_graphEventCount (op_stateFor n c) + os_discardedEvents (op_stateFor n c) + unsettled n c
     \<and> os_pending (op_stateFor n c) = map fst (filter (attributed_to n) (rc_requests c))"

definition accounted_for :: "(int \<Rightarrow> nat) \<Rightarrow> recorder \<Rightarrow> bool" where
  "accounted_for g c \<longleftrightarrow>
     map_ok (rc_requests c)
     \<and> list_all (\<lambda>(rid, q). rid < rc_nextRequest c \<and> request_shape q) (rc_requests c)
     \<and> pending_ok c \<and> (\<forall>n. n \<notin> set (rc_exported c) \<longrightarrow> tally g c n)"

lemma op_stateFor_put [simp]: "op_stateFor m (put_state n s c) = (if m = n then s else op_stateFor m c)"
  by (simp add: op_stateFor_def put_state_def)

lemma put_state_fields [simp]:
  "rc_requests (put_state n s c) = rc_requests c" "rc_exported (put_state n s c) = rc_exported c"
  "rc_nextRequest (put_state n s c) = rc_nextRequest c" "rc_knownSecrets (put_state n s c) = rc_knownSecrets c"
  by (simp_all add: put_state_def)

lemma op_stateFor_update [simp]:
  "op_stateFor n (c\<lparr>rc_sequence := q\<rparr>) = op_stateFor n c" "op_stateFor n (c\<lparr>rc_requests := rs\<rparr>) = op_stateFor n c"
  "op_stateFor n (c\<lparr>rc_exported := xs\<rparr>) = op_stateFor n c" "op_stateFor n (c\<lparr>rc_nextRequest := i\<rparr>) = op_stateFor n c"
  by (simp_all add: op_stateFor_def)

text \<open>A record that is no diagnostic adds one to the kept or to the discarded operations of its interaction, and
  touches neither the pending lists nor the requests.\<close>

lemma store_event_counts:
  "os_pending (store_event e d b r ev bytes s) = os_pending s"
  "os_pendingDiagnostics (store_event e d b r ev bytes s) = os_pendingDiagnostics s"
  "os_graphEventCount (store_event e d b r ev bytes s) + os_discardedEvents (store_event e d b r ev bytes s)
     = os_graphEventCount s + os_discardedEvents s + (if map_has r ''authoringError'' then 0 else 1)"
  by (auto simp: store_event_def map_has_iff split: option.split)

lemma record_event_counts:
  "rc_requests (record_event P now n r c) = rc_requests c" "rc_nextRequest (record_event P now n r c) = rc_nextRequest c"
  "rc_exported (record_event P now n r c) = rc_exported c"
  "os_pending (op_stateFor m (record_event P now n r c)) = os_pending (op_stateFor m c)"
  "os_pendingDiagnostics (op_stateFor m (record_event P now n r c)) = os_pendingDiagnostics (op_stateFor m c)"
  "m \<notin> set (rc_exported c) \<Longrightarrow>
     os_graphEventCount (op_stateFor m (record_event P now n r c)) + os_discardedEvents (op_stateFor m (record_event P now n r c))
     = os_graphEventCount (op_stateFor m c) + os_discardedEvents (op_stateFor m c)
       + (if m = n \<and> \<not> map_has r ''authoringError'' then 1 else 0)"
  by (auto simp: record_event_def Let_def store_event_counts)

lemma sanitize_no_diagnostic: "\<not> map_has (sanitizeReceipt verb path status request response ks) ''authoringError''"
proof
  assume "map_has (sanitizeReceipt verb path status request response ks) ''authoringError''"
  then obtain v where "(''authoringError'', v) \<in> set (sanitizeReceipt verb path status request response ks)"
    by (auto simp: map_has_iff dest: map_get_in)
  then have "field_typed ks (''authoringError'', v)"
    using receipt_typed_sanitize [of ks verb path status request response]
    by (auto simp: receipt_typed_def list_all_iff)
  then show False by (simp add: field_typed_def receipt_fields_def)
qed

lemma length_filter_delete:
  "map_ok m \<Longrightarrow> map_get m k = Some v \<Longrightarrow>
     length (filter P m) = length (filter P (map_delete m k)) + (if P (k, v) then 1 else 0)"
proof (induction m)
  case (Cons e m)
  obtain k' v' where e: "e = (k', v')" by (cases e)
  show ?case
  proof (cases "k' = k")
    case True
    with Cons.prems e have "\<not> map_has m k" "v' = v"
      by (auto simp: map_ok_def map_has_def map_get_def)
    then show ?thesis using True e map_delete_absent [of m k] by (simp add: map_delete_def)
  next
    case False
    with Cons e show ?thesis by (simp add: map_ok_def map_get_def map_delete_def)
  qed
qed simp

lemma keys_filter_delete:
  "map fst (filter P (map_delete m k)) = removeAll k (map fst (filter P m))"
  by (induction m) (auto simp: map_delete_def)

lemma not_key_filter:
  "map_ok m \<Longrightarrow> map_get m k = Some v \<Longrightarrow> \<not> P (k, v) \<Longrightarrow> k \<notin> set (map fst (filter P m))"
  by (auto simp: map_get_iff_in map_ok_def dest: eq_key_imp_eq_value)

lemma capabilities_same:
  "rc_requests (update_capabilities me p st rq rs c) = rc_requests c"
  "rc_nextRequest (update_capabilities me p st rq rs c) = rc_nextRequest c"
  "rc_exported (update_capabilities me p st rq rs c) = rc_exported c"
  "op_stateFor n (update_capabilities me p st rq rs c) = op_stateFor n c"
proof -
  have revoke: "rc_requests (revokeCapabilityOwner v c) = rc_requests c" "rc_nextRequest (revokeCapabilityOwner v c) = rc_nextRequest c"
    "rc_exported (revokeCapabilityOwner v c) = rc_exported c" "op_stateFor n (revokeCapabilityOwner v c) = op_stateFor n c" for v n c
    by (simp_all add: revokeCapabilityOwner_def revoke_node_def Let_def op_stateFor_def split: jv.split)
  have grant: "rc_requests (grant v t c) = rc_requests c" "rc_nextRequest (grant v t c) = rc_nextRequest c"
    "rc_exported (grant v t c) = rc_exported c" "op_stateFor n (grant v t c) = op_stateFor n c" for v t n c
    by (simp_all add: grant_def replaceCapabilityOwner_def revoke_node_def learn_def Let_def op_stateFor_def split: jv.split)
  show "rc_requests (update_capabilities me p st rq rs c) = rc_requests c"
    "rc_nextRequest (update_capabilities me p st rq rs c) = rc_nextRequest c"
    "rc_exported (update_capabilities me p st rq rs c) = rc_exported c"
    "op_stateFor n (update_capabilities me p st rq rs c) = op_stateFor n c"
    by (simp_all add: update_capabilities_def Let_def revoke grant)
qed

lemma fail_request_counts:
  "rc_requests (fail_request P now q c) = rc_requests c" "rc_nextRequest (fail_request P now q c) = rc_nextRequest c"
  "rc_exported (fail_request P now q c) = rc_exported c"
  "os_pending (op_stateFor m (fail_request P now q c)) = os_pending (op_stateFor m c)"
  "os_pendingDiagnostics (op_stateFor m (fail_request P now q c)) = os_pendingDiagnostics (op_stateFor m c)"
  "m \<notin> set (rc_exported c) \<Longrightarrow> request_shape q \<Longrightarrow>
     os_graphEventCount (op_stateFor m (fail_request P now q c)) + os_discardedEvents (op_stateFor m (fail_request P now q c))
     = os_graphEventCount (op_stateFor m c) + os_discardedEvents (op_stateFor m c)
       + (if attributed_to m (rid, q) \<and> \<not> px_accounted q then 1 else 0)"
  by (auto simp: fail_request_def record_event_counts failure_receipt_def attributed_to_def request_shape_def
      split: option.splits if_split_asm)

lemma settle_counts:
  assumes "map_get (rc_requests c) rid = Some q" and "legal_step (RequestSettle now rid outcome) c" and "request_shape q"
  shows "rc_requests (settle_answer P now q outcome c) = rc_requests c"
    "rc_nextRequest (settle_answer P now q outcome c) = rc_nextRequest c"
    "rc_exported (settle_answer P now q outcome c) = rc_exported c"
    "os_pending (op_stateFor m (settle_answer P now q outcome c)) = os_pending (op_stateFor m c)"
    "os_pendingDiagnostics (op_stateFor m (settle_answer P now q outcome c)) = os_pendingDiagnostics (op_stateFor m c)"
    "m \<notin> set (rc_exported c) \<Longrightarrow>
       os_graphEventCount (op_stateFor m (settle_answer P now q outcome c)) + os_discardedEvents (op_stateFor m (settle_answer P now q outcome c))
       = os_graphEventCount (op_stateFor m c) + os_discardedEvents (op_stateFor m c)
         + (if attributed_to m (rid, q) \<and> \<not> px_accounted q then 1 else 0)"
proof -
  show "rc_requests (settle_answer P now q outcome c) = rc_requests c"
    "rc_nextRequest (settle_answer P now q outcome c) = rc_nextRequest c"
    "rc_exported (settle_answer P now q outcome c) = rc_exported c"
    "os_pending (op_stateFor m (settle_answer P now q outcome c)) = os_pending (op_stateFor m c)"
    "os_pendingDiagnostics (op_stateFor m (settle_answer P now q outcome c)) = os_pendingDiagnostics (op_stateFor m c)"
    by (simp_all add: settle_answer_def Let_def fail_request_counts record_event_counts capabilities_same
        split: settlement.split option.split)
  assume m: "m \<notin> set (rc_exported c)"
  show "os_graphEventCount (op_stateFor m (settle_answer P now q outcome c)) + os_discardedEvents (op_stateFor m (settle_answer P now q outcome c))
       = os_graphEventCount (op_stateFor m c) + os_discardedEvents (op_stateFor m c)
         + (if attributed_to m (rid, q) \<and> \<not> px_accounted q then 1 else 0)"
  proof (cases outcome)
    case Threw
    with m assms(3) show ?thesis by (simp add: settle_answer_def fail_request_counts)
  next
    case (Diagnosed d)
    with assms have "px_path q = AUTHORING_ERRORS" by (simp add: legal_step_def)
    with m Diagnosed show ?thesis
      by (simp add: settle_answer_def record_event_counts diagnostic_receipt_def attributed_to_def split: option.split)
  next
    case (Answered status request response)
    with assms have "px_path q \<noteq> AUTHORING_ERRORS" "\<not> px_accounted q" by (simp_all add: legal_step_def)
    moreover have "px_attributed q \<noteq> None \<longleftrightarrow> px_node q \<noteq> None"
      using assms(3) \<open>px_path q \<noteq> AUTHORING_ERRORS\<close> by (cases "px_attributed q") (auto simp: request_shape_def eq_commute [of "Some _"])
    ultimately show ?thesis
      using m Answered fail_request_counts(6) [OF m assms(3), of P now rid]
      by (auto simp: settle_answer_def Let_def record_event_counts capabilities_same
          sanitize_no_diagnostic attributed_to_def split: option.split)
  qed
qed

lemma release_counts:
  "rc_requests (release_request rid q c) = map_delete (rc_requests c) rid" "rc_nextRequest (release_request rid q c) = rc_nextRequest c"
  "rc_exported (release_request rid q c) = rc_exported c"
  "os_graphEventCount (op_stateFor m (release_request rid q c)) = os_graphEventCount (op_stateFor m c)"
  "os_discardedEvents (op_stateFor m (release_request rid q c)) = os_discardedEvents (op_stateFor m c)"
  "os_pending (op_stateFor m (release_request rid q c)) =
     (if attributed_to m (rid, q) then removeAll rid (os_pending (op_stateFor m c)) else os_pending (op_stateFor m c))"
  "set (os_pendingDiagnostics (op_stateFor m (release_request rid q c))) \<subseteq> set (os_pendingDiagnostics (op_stateFor m c))"
  by (auto simp: release_request_def Let_def attributed_to_def op_stateFor_def put_state_def new_op_state_def split: option.split)
text \<open>Requests that a step leaves, up to their flag.\<close>

definition same_request :: "proxied \<Rightarrow> proxied \<Rightarrow> bool" where
  "same_request q q' \<longleftrightarrow> px_node q = px_node q' \<and> px_path q = px_path q'"

lemma pending_ok_mono:
  assumes ok: "pending_ok c"
    and pend: "\<And>n. set (os_pending (op_stateFor n f)) \<subseteq> set (os_pending (op_stateFor n c))"
    and diag: "\<And>n. set (os_pendingDiagnostics (op_stateFor n f)) \<subseteq> set (os_pendingDiagnostics (op_stateFor n c))"
    and nxt: "rc_nextRequest f = rc_nextRequest c"
    and same: "\<And>rid q. map_get (rc_requests f) rid = Some q \<Longrightarrow>
      \<exists>q'. map_get (rc_requests c) rid = Some q' \<and> same_request q q'"
  shows "pending_ok f"
  unfolding pending_ok_def nxt
proof (intro conjI allI impI)
  fix n rid assume "rid \<in> set (os_pending (op_stateFor n f))"
  with pend have rid: "rid \<in> set (os_pending (op_stateFor n c))" by blast
  with ok show "rid < rc_nextRequest c" by (simp add: pending_ok_def)
  fix q assume "map_get (rc_requests f) rid = Some q"
  with same obtain q' where "map_get (rc_requests c) rid = Some q'" "same_request q q'" by blast
  with ok rid show "attributed_to n (rid, q)" by (auto simp: pending_ok_def same_request_def attributed_to_def)
next
  fix n rid assume "rid \<in> set (os_pendingDiagnostics (op_stateFor n f))"
  with diag have rid: "rid \<in> set (os_pendingDiagnostics (op_stateFor n c))" by blast
  with ok show "rid < rc_nextRequest c" by (simp add: pending_ok_def)
  fix q assume "map_get (rc_requests f) rid = Some q"
  with same obtain q' where "map_get (rc_requests c) rid = Some q'" "same_request q q'" by blast
  with ok rid show "px_path q = AUTHORING_ERRORS" by (auto simp: pending_ok_def same_request_def)
qed

lemma settle_accounted:
  assumes acc: "accounted_for g c" and legal: "legal_step (RequestSettle now rid outcome) c"
  shows "accounted_for g (request_settle P now rid outcome c)"
proof (cases "map_get (rc_requests c) rid")
  case None
  with acc show ?thesis by (simp add: request_settle_def)
next
  case (Some q)
  let ?f = "request_settle P now rid outcome c"
  have shape: "request_shape q" and ok: "map_ok (rc_requests c)"
    using acc Some by (auto simp: accounted_for_def list_all_iff dest!: map_get_in)
  note settle = settle_counts [OF Some legal shape]
  have f: "?f = release_request rid q (settle_answer P now q outcome c)" using Some by (simp add: request_settle_def)
  have reqs: "rc_requests ?f = map_delete (rc_requests c) rid" "rc_nextRequest ?f = rc_nextRequest c"
      "rc_exported ?f = rc_exported c"
    by (simp_all add: f release_counts settle)
  have pend: "os_pending (op_stateFor n ?f) =
      (if attributed_to n (rid, q) then removeAll rid (os_pending (op_stateFor n c)) else os_pending (op_stateFor n c))"
    and diag: "set (os_pendingDiagnostics (op_stateFor n ?f)) \<subseteq> set (os_pendingDiagnostics (op_stateFor n c))" for n
    using release_counts(7) [of n rid q "settle_answer P now q outcome c"]
    by (simp_all add: f release_counts(6) settle(4,5))
  have tally: "tally g ?f n" if n: "n \<notin> set (rc_exported c)" for n
  proof -
    have old: "tally g c n" using acc n by (simp add: accounted_for_def)
    have "unsettled n c = unsettled n ?f + (if attributed_to n (rid, q) \<and> \<not> px_accounted q then 1 else 0)"
      unfolding unsettled_def reqs by (subst length_filter_delete [OF ok Some]) simp
    moreover have "os_graphEventCount (op_stateFor n ?f) + os_discardedEvents (op_stateFor n ?f)
        = os_graphEventCount (op_stateFor n c) + os_discardedEvents (op_stateFor n c)
          + (if attributed_to n (rid, q) \<and> \<not> px_accounted q then 1 else 0)"
      using settle(6) [OF n, where P = P] by (simp add: f release_counts)
    moreover have "\<not> attributed_to n (rid, q) \<Longrightarrow> rid \<notin> set (map fst (filter (attributed_to n) (rc_requests c)))"
      by (rule not_key_filter [OF ok Some])
    ultimately show ?thesis
      using old by (simp add: tally_def pend reqs keys_filter_delete split: if_splits)
  qed
  have "pending_ok ?f"
    by (rule pending_ok_mono [of c])
      (use acc diag in \<open>auto simp: accounted_for_def pend reqs same_request_def split: if_splits\<close>)
  then show ?thesis
    using acc tally by (simp add: accounted_for_def reqs list_all_map_delete)
qed

lemma timeout_accounted:
  assumes acc: "accounted_for g c" and legal: "legal_step (ExportTimeout n) c"
  shows "accounted_for g (export_timeout n c)"
proof -
  let ?f = "export_timeout n c" and ?s = "op_stateFor n c"
  let ?ids = "os_pending ?s @ os_pendingDiagnostics ?s"
  have reqs: "rc_requests ?f = cancel_requests ?ids (rc_requests c)" "rc_nextRequest ?f = rc_nextRequest c"
      "rc_exported ?f = rc_exported c"
    by (simp_all add: export_timeout_def Let_def)
  have st: "os_pending (op_stateFor m ?f) = os_pending (op_stateFor m c)"
      "os_pendingDiagnostics (op_stateFor m ?f) = os_pendingDiagnostics (op_stateFor m c)"
      "os_graphEventCount (op_stateFor m ?f) = os_graphEventCount (op_stateFor m c)"
      "os_discardedEvents (op_stateFor m ?f) = os_discardedEvents (op_stateFor m c) + (if m = n then length (os_pending ?s) else 0)" for m
    by (simp_all add: export_timeout_def Let_def)
  have ok: "map_ok (rc_requests c)" using acc by (simp add: accounted_for_def)
  have get: "map_get (cancel_requests ids qs) rid =
      map_option (\<lambda>q. if rid \<in> set ids then q\<lparr>px_accounted := True\<rparr> else q) (map_get qs rid)" for ids qs rid
    by (induction qs) (auto simp: cancel_requests_def map_get_def)
  have keys: "map fst (cancel_requests ids qs) = map fst qs" for ids qs
    by (induction qs) (auto simp: cancel_requests_def)
  have attr: "attributed_to m (rid, q\<lparr>px_accounted := b\<rparr>) = attributed_to m (rid, q)"
      "attributed_to m (rid, if x then q\<lparr>px_accounted := b\<rparr> else q) = attributed_to m (rid, q)"
      "request_shape (q\<lparr>px_accounted := b\<rparr>) = request_shape q" for m rid q b x
    by (simp_all add: attributed_to_def request_shape_def)
  have filt: "map fst (filter (attributed_to m) (cancel_requests ids qs)) = map fst (filter (attributed_to m) qs)" for m ids qs
    by (induction qs) (auto simp: cancel_requests_def attr)
  have other: "unsettled m ?f = unsettled m c" if "m \<noteq> n" for m
  proof -
    have "\<not> attributed_to m (rid, q)" if "(rid, q) \<in> set (rc_requests c)" "rid \<in> set ?ids" for rid q
    proof -
      have "map_get (rc_requests c) rid = Some q" using ok that by (simp add: map_get_iff_in)
      then have "attributed_to n (rid, q) \<or> px_path q = AUTHORING_ERRORS"
        using acc that(2) by (auto simp: accounted_for_def pending_ok_def)
      with \<open>m \<noteq> n\<close> show ?thesis by (auto simp: attributed_to_def)
    qed
    then have "length (filter (\<lambda>(rid, q). attributed_to m (rid, q) \<and> \<not> px_accounted q) (cancel_requests ?ids qs))
        = length (filter (\<lambda>(rid, q). attributed_to m (rid, q) \<and> \<not> px_accounted q) qs)"
      if "set qs \<subseteq> set (rc_requests c)" for qs
      using that by (induction qs) (auto simp: cancel_requests_def attr split: if_splits)
    then show ?thesis by (simp add: unsettled_def reqs)
  qed
  have same: "unsettled n c = length (os_pending ?s) \<and> unsettled n ?f = 0" if n: "n \<notin> set (rc_exported c)"
  proof
    have pend: "os_pending ?s = map fst (filter (attributed_to n) (rc_requests c))"
      using acc n by (simp add: accounted_for_def tally_def)
    have live: "\<not> px_accounted q" if "(rid, q) \<in> set (rc_requests c)" "attributed_to n (rid, q)" for rid q
    proof -
      have "map_get (rc_requests c) rid = Some q" using ok that by (simp add: map_get_iff_in)
      moreover have "rid \<in> set (os_pending ?s)" using pend that by force
      ultimately show ?thesis using legal by (auto simp: legal_step_def list_all_iff)
    qed
    then have "filter (\<lambda>(rid, q). attributed_to n (rid, q) \<and> \<not> px_accounted q) (rc_requests c)
        = filter (attributed_to n) (rc_requests c)"
      by (intro filter_cong) auto
    then show "unsettled n c = length (os_pending ?s)" by (simp add: unsettled_def pend)
    have "rid \<in> set ?ids" if "(rid, q) \<in> set (rc_requests c)" "attributed_to n (rid, q)" for rid q
      using pend that by force
    then have "filter (\<lambda>(rid, q). attributed_to n (rid, q) \<and> \<not> px_accounted q) (cancel_requests ?ids (rc_requests c)) = []"
      by (auto simp: cancel_requests_def filter_empty_conv attr)
    then show "unsettled n ?f = 0" by (simp add: unsettled_def reqs)
  qed
  have "tally g ?f m" if "m \<notin> set (rc_exported c)" for m
    using acc that same other [of m] by (cases "m = n") (auto simp: accounted_for_def tally_def st reqs filt)
  moreover have "list_all (\<lambda>(rid, q). rid < rc_nextRequest c \<and> request_shape q) (cancel_requests ?ids (rc_requests c))"
    using acc by (auto simp: accounted_for_def cancel_requests_def list_all_iff attr)
  moreover have "pending_ok ?f"
    by (rule pending_ok_mono [of c])
      (use acc in \<open>auto simp: accounted_for_def st reqs get same_request_def split: if_splits\<close>)
  ultimately show ?thesis
    using acc by (simp add: accounted_for_def reqs keys map_ok_def)
qed
lemma begin_accounted:
  assumes acc: "accounted_for g c" and e: "e = RequestBegin verb target sameOrigin pathname auth"
  shows "accounted_for (count_begun e c g) (rec_step P e c)"
proof -
  define c1 where "c1 = learn_token (bearerToken auth) c"
  have c1: "rc_requests c1 = rc_requests c" "rc_nextRequest c1 = rc_nextRequest c" "rc_exported c1 = rc_exported c"
      "op_stateFor n c1 = op_stateFor n c" for n
    by (simp_all add: c1_def learn_token_def learn_def op_stateFor_def split: option.split)
  define i where "i = rc_nextRequest c"
  define node where "node = owner_of pathname (bearerToken auth) c1"
  define q where "q = new_request verb pathname node (rc_knownSecrets c1)"
  show ?thesis
  proof (cases "\<not> prefix ''/'' target \<or> prefix ''//'' target \<or> \<not> sameOrigin")
    case True
    with acc show ?thesis by (auto simp: e count_begun_def begun_node_def request_begin_def)
  next
    case False
    define c2 where "c2 = add_pending i pathname node c1"
    define f where "f = c2\<lparr>rc_requests := map_set (rc_requests c2) i q, rc_nextRequest := i + 1\<rparr>"
    have run: "request_begin verb target sameOrigin pathname auth c = (Some i, f)"
      using False
      by (simp add: request_begin_def Let_def f_def c2_def q_def node_def i_def c1(2) flip: c1_def)
    have step: "rec_step P e c = f" by (simp add: e run)
    have fresh: "\<not> map_has (rc_requests c) i"
      using acc by (fastforce simp: accounted_for_def list_all_iff map_has_def i_def)
    have c2: "rc_requests c2 = rc_requests c" "rc_exported c2 = rc_exported c"
      by (simp_all add: c2_def add_pending_def Let_def c1 split: option.split)
    have reqs: "rc_requests f = rc_requests c @ [(i, q)]" "rc_nextRequest f = i + 1" "rc_exported f = rc_exported c"
      by (simp_all add: f_def c2 map_set_absent [OF fresh])
    have attr: "attributed_to n (i, q) \<longleftrightarrow> node = Some n \<and> pathname \<noteq> AUTHORING_ERRORS" for n
      by (simp add: attributed_to_def q_def new_request_def)
    have st: "os_pending (op_stateFor n f) = os_pending (op_stateFor n c) @ (if attributed_to n (i, q) then [i] else [])"
        "os_pendingDiagnostics (op_stateFor n f) = os_pendingDiagnostics (op_stateFor n c)
          @ (if node = Some n \<and> pathname = AUTHORING_ERRORS then [i] else [])"
        "os_graphEventCount (op_stateFor n f) = os_graphEventCount (op_stateFor n c)"
        "os_discardedEvents (op_stateFor n f) = os_discardedEvents (op_stateFor n c)" for n
      by (simp_all add: f_def c2_def add_pending_def Let_def c1 attr split: option.split)
    have shape: "request_shape q" by (cases node) (auto simp: request_shape_def q_def new_request_def)
    have get: "map_get (rc_requests f) i = Some q"
      by (simp add: f_def)
    have begun: "begun_node e c = (if pathname = AUTHORING_ERRORS then None else node)"
      by (cases node) (auto simp: begun_node_def e run get q_def new_request_def)
    have count: "count_begun e c g n = g n + (if attributed_to n (i, q) then 1 else 0)" for n
      by (auto simp: count_begun_def begun attr split: option.split)
    have "tally (count_begun e c g) f n" if "n \<notin> set (rc_exported c)" for n
      using acc that by (auto simp: accounted_for_def tally_def count st reqs unsettled_def q_def new_request_def)
    moreover have "pending_ok f"
    proof -
      have "map_get (rc_requests f) rid = (if rid = i then Some q else map_get (rc_requests c) rid)" for rid
        by (simp add: f_def c2)
      then show ?thesis
        using acc unfolding pending_ok_def st reqs
        by (auto simp: accounted_for_def pending_ok_def i_def less_Suc_eq q_def new_request_def split: if_splits)
    qed
    moreover have "list_all (\<lambda>(rid, q). rid < i + 1 \<and> request_shape q) (rc_requests f)"
      using acc shape by (auto simp: accounted_for_def list_all_iff reqs i_def less_Suc_eq)
    moreover have "map_ok (rc_requests f)"
      using acc fresh by (auto simp: accounted_for_def reqs map_ok_def map_has_def)
    ultimately show ?thesis by (simp add: accounted_for_def step reqs)
  qed
qed

lemma finish_accounted:
  assumes acc: "accounted_for g c"
  shows "accounted_for g (snd (export_finish P n manifest c))"
proof -
  let ?f = "snd (export_finish P n manifest c)"
  have reqs: "rc_requests ?f = rc_requests c" "rc_nextRequest ?f = rc_nextRequest c"
      "set (rc_exported ?f) = insert n (set (rc_exported c))"
    by (auto simp: export_finish_def Let_def)
  have st: "op_stateFor m ?f = (if m = n \<and> manifest then new_op_state else op_stateFor m c)" for m
    by (auto simp: export_finish_def Let_def op_stateFor_def)
  have "pending_ok ?f"
    by (rule pending_ok_mono [of c])
      (use acc in \<open>auto simp: accounted_for_def st reqs new_op_state_def same_request_def\<close>)
  moreover have "tally g ?f m" if "m \<notin> set (rc_exported ?f)" for m
    using acc that by (auto simp: accounted_for_def tally_def st reqs unsettled_def)
  ultimately show ?thesis
    using acc by (simp add: accounted_for_def reqs(1,2))
qed

lemma rec_step_accounted:
  assumes "accounted_for g c" and "legal_step e c"
  shows "accounted_for (count_begun e c g) (rec_step P e c)"
proof (cases e)
  case (RequestBegin verb target sameOrigin pathname auth)
  with assms show ?thesis by (simp only: begin_accounted)
next
  case (RequestSettle now rid outcome)
  with assms show ?thesis by (simp add: count_begun_def begun_node_def settle_accounted)
next
  case (ExportBegin node)
  have same: "op_stateFor m (put_state n (op_stateFor n c) c) = op_stateFor m c" for m n by simp
  have "accounted_for g (put_state n (op_stateFor n c) c)" for n
    using assms(1) unfolding accounted_for_def pending_ok_def tally_def unsettled_def same by simp
  with assms(1) ExportBegin show ?thesis by (simp add: count_begun_def begun_node_def export_begin_def Let_def)
next
  case (ExportTimeout n)
  with assms show ?thesis by (simp add: count_begun_def begun_node_def timeout_accounted)
next
  case (ExportFinish n manifest)
  with assms show ?thesis by (simp add: count_begun_def begun_node_def finish_accounted)
qed

lemma started_accounted: "startGraphOperationRecorder u e d b t = Inr c \<Longrightarrow> accounted_for (\<lambda>_. 0) c"
  by (auto simp: startGraphOperationRecorder_def accounted_for_def pending_ok_def tally_def unsettled_def op_stateFor_def
      new_op_state_def split: option.splits if_splits)

lemma rec_reach_accounted:
  "rec_reach P c0 g c \<Longrightarrow> accounted_for (\<lambda>_. 0) c0 \<Longrightarrow> accounted_for g c"
  by (induction rule: rec_reach.induct) (auto intro: rec_step_accounted)

lemma rec_reach_ok: "rec_reach P c0 g c \<Longrightarrow> recorder_ok P c0 \<Longrightarrow> recorder_ok P c"
  by (induction rule: rec_reach.induct) (auto intro: rec_step_ok)

section \<open>Properties\<close>



text \<open>A demonstration: a token is granted to interaction 7, which writes a node, then fails to write an edge.\<close>

fun rec_trace :: "recorder_platform \<Rightarrow> recorder_step list \<Rightarrow> recorder \<Rightarrow> recorder" where
  "rec_trace P [] c = c"
| "rec_trace P (e # es) c = rec_trace P es (rec_step P e c)"

fun begun_counts :: "recorder_platform \<Rightarrow> recorder_step list \<Rightarrow> recorder \<Rightarrow> (int \<Rightarrow> nat) \<Rightarrow> int \<Rightarrow> nat" where
  "begun_counts P [] c g = g"
| "begun_counts P (e # es) c g = begun_counts P es (rec_step P e c) (count_begun e c g)"

fun legal_run :: "recorder_platform \<Rightarrow> recorder_step list \<Rightarrow> recorder \<Rightarrow> bool" where
  "legal_run P [] c = True"
| "legal_run P (e # es) c = (legal_step e c \<and> legal_run P es (rec_step P e c))"

lemma rec_reach_trace:
  "rec_reach P c0 g c \<Longrightarrow> legal_run P es c \<Longrightarrow> rec_reach P c0 (begun_counts P es c g) (rec_trace P es c)"
  by (induction es arbitrary: g c) (auto intro: rec_more)

definition demo_rec_platform :: recorder_platform where
  "demo_rec_platform = \<lparr>rp_bytes = (\<lambda>_. 100), rp_sha256 = (\<lambda>_. ''sha256:0'')\<rparr>"

definition demo_upstream :: upstream_url where
  "demo_upstream = \<lparr>uu_protocol = ''http:'', uu_hostname = ''127.0.0.1'', uu_port = ''8080'', uu_pathname = ''/'',
     uu_search = '''', uu_hash = '''', uu_username = '''', uu_password = ''''\<rparr>"

definition demo_recorder :: recorder where
  "demo_recorder = \<lparr>rc_maxEvents = 10, rc_maxDiagnostics = 10, rc_maxBytes = 1000, rc_capabilityOwners = [],
     rc_knownSecrets = [], rc_interactions = [], rc_exported = [], rc_sequence = 0, rc_requests = [], rc_nextRequest = 0\<rparr>"

definition demo_steps :: "recorder_step list" where
  "demo_steps =
     [RequestBegin ''POST'' ''/c'' True ''/api/control/capabilities'' None,
      RequestSettle ''t0'' 0 (Answered 200 (VObj [(''nodeId'', VNum (NInt 7)), (''graphToken'', VStr ''k'')]) (VObj [])),
      RequestBegin ''POST'' ''/n'' True ''/api/graph/nodes'' (Some ''Bearer k''),
      RequestBegin ''POST'' ''/e'' True ''/api/graph/edges'' (Some ''Bearer k''),
      RequestSettle ''t1'' 1 (Answered 201 (VObj []) (VObj [(''node'', VObj [(''id'', VNum (NInt 3))])])),
      RequestSettle ''t2'' 2 Threw]"

lemma demo_started:
  "startGraphOperationRecorder (Some demo_upstream) (NInt 10) (NInt 10) (NInt 1000) (NInt 5) = Inr demo_recorder"
  by code_simp

lemma demo_rec_reach:
  "rec_reach demo_rec_platform demo_recorder (begun_counts demo_rec_platform demo_steps demo_recorder (\<lambda>_. 0))
     (rec_trace demo_rec_platform demo_steps demo_recorder)"
  by (rule rec_reach_trace [OF rec_start]) code_simp



end
