(* ===== verification/WorktreeController.thy ===== *)
theory WorktreeController
  imports OperationReceipts
begin

text \<open>
  The draft of the checkout a new thread starts in (\<open>desktop/renderer/src/worktree-controller.js\<close>). The closure of
  \<open>createWorktreeController\<close> is the record \<open>wt_controller\<close>. Every \<open>await\<close> is a point where other operations may
  run: an operation goes from point to point (\<open>wt_point\<close>), each waiting for the answer to one call, and
  \<open>resume\<close> is what the code does between an answer and the next \<open>await\<close>. A system (\<open>wt_system\<close>) is the
  controller with the calls in flight and the log of all calls and answers; \<open>wt_step\<close> takes any legal event,
  so the results hold for every interleaving and every answer of the service and of the storage.

  The results: one mutating operation at a time, and the draft it works on is not replaced under it
  (\<open>worktree_invariant\<close>); a worktree is created only after its plan, and its plan is asked for only after the
  receipt is durable (\<open>receipt_before_creation\<close>); the receipt survives every failure but a base that moved
  (\<open>receipt_survives_failures\<close>); and the recorded expectation of a checkout is never refreshed silently
  (\<open>expectation_never_refreshed\<close>).

  Values that cross the wire are untyped \<open>jv\<close>s; the callback \<open>changed\<close> only repaints and is left out; the random
  plan id is an argument of the event. Which threads share a checkout is modelled at the end.
\<close>

section \<open>Data\<close>

record wt_error =
  we_code :: "string option"
  we_message :: string
  we_details :: jv

definition wt_message :: "string \<Rightarrow> wt_error" where
  "wt_message m = \<lparr>we_code = None, we_message = m, we_details = VUndef\<rparr>"

definition wt_type_error :: wt_error where
  "wt_type_error = wt_message ''TypeError''"

record plan_request =
  pq_repositoryPath :: jv
  pq_relativePath :: jv
  pq_base :: jv
  pq_expectedCommit :: jv
  pq_planId :: string

record checkout_choice =
  ck_branch :: jv
  ck_commit :: jv
  ck_base :: jv
  ck_newWorktree :: bool
  ck_planId :: "string option"
  ck_planRequest :: "plan_request option"
  ck_created :: jv
  ck_acknowledgedState :: "(jv \<times> jv) option"

record wt_scope =
  wp_path :: jv
  wp_git :: bool
  wp_branch :: jv
  wp_repositoryId :: jv
  wp_repositoryRoot :: jv
  wp_relativePath :: jv
  wp_checkoutRoot :: jv
  wp_checkout :: "checkout_choice option"
  wp_creationRequestId :: jv

record wt_base =
  wb_ref :: jv
  wb_name :: jv
  wb_commit :: jv

record wt_inspection =
  wi_git :: bool
  wi_branch :: jv
  wi_commit :: jv
  wi_repositoryId :: jv
  wi_repositoryRoot :: jv
  wi_relativePath :: jv
  wi_checkoutRoot :: jv
  wi_defaultBase :: jv
  wi_bases :: "wt_base list"

text \<open>What \<open>validateSelection\<close> answers.\<close>

record wt_selected =
  wd_workingDirectory :: jv
  wd_checkoutRoot :: jv
  wd_branch :: jv
  wd_commit :: jv

datatype wt_status = WtLoading | WtReady | WtFailed

text \<open>The value of \<open>current\<close>; a property that was deleted or never set is \<open>VUndef\<close>.\<close>

record wt_draft =
  wu_scope :: wt_scope
  wu_status :: wt_status
  wu_error :: "wt_error option"
  wu_inspection :: "wt_inspection option"
  wu_changedCheckout :: jv

record wt_controller =
  wk_revision :: nat
  wk_current :: "wt_draft option"
  wk_busy :: bool

definition createWorktreeController :: wt_controller where
  "createWorktreeController = \<lparr>wk_revision = 0, wk_current = None, wk_busy = False\<rparr>"

section \<open>Calls, answers and points\<close>

text \<open>The calls of the service, and \<open>persist\<close>. \<open>validateSelection\<close> has the path, the relative path, the
  repository, and the expected branch and commit (\<open>VUndef\<close> where the code does not send them).\<close>

datatype wt_call =
    CallInspect jv
  | CallValidate jv jv jv jv jv
  | CallPlan "plan_request option"
  | CallCreate "string option" "(jv \<times> jv) option"
  | CallReadPlan "string option"
  | CallPersist "wt_scope option"

text \<open>An answer with \<open>ok: false\<close> and a rejection both arrive as the error that \<open>call\<close> throws.\<close>

datatype wt_answer =
    AFails wt_error
  | AInspected wt_inspection
  | ASelected wt_selected
  | APlanned jv
  | ACreated jv
  | ASaved

definition answers :: "wt_call \<Rightarrow> wt_answer \<Rightarrow> bool" where
  "answers c a = (case a of
       AFails e \<Rightarrow> True
     | AInspected i \<Rightarrow> (case c of CallInspect _ \<Rightarrow> True | _ \<Rightarrow> False)
     | ASelected s \<Rightarrow> (case c of CallValidate _ _ _ _ _ \<Rightarrow> True | _ \<Rightarrow> False)
     | APlanned p \<Rightarrow> (case c of CallPlan _ \<Rightarrow> True | CallReadPlan _ \<Rightarrow> True | _ \<Rightarrow> False)
     | ACreated v \<Rightarrow> (case c of CallCreate _ _ \<Rightarrow> True | _ \<Rightarrow> False)
     | ASaved \<Rightarrow> (case c of CallPersist _ \<Rightarrow> True | _ \<Rightarrow> False))"

datatype wt_point =
    SelectInspect nat | SelectPersist nat | SelectFailed
  | PickValidate | PickInspect wt_selected | PickPersist
  | EditPersist
  | SendNewPlan | SendRetained | SendPlan | SendCreate | SendCreated jv | SendValidate
  | SendReinspect wt_error | SendFailed wt_error
  | AckPlan | AckValidate | AckPersist

datatype wt_value = Truth bool | NoValue | PlainDirectory jv | PreparedNew jv | PreparedSame wt_selected

datatype wt_next = Awaits wt_point wt_call | Returns wt_value | Throws wt_error

section \<open>Small steps over the closure\<close>

definition jv_or :: "jv \<Rightarrow> jv \<Rightarrow> jv" where
  "jv_or a b = (if jv_truthy a then a else b)"

definition jv_nullish :: "jv \<Rightarrow> bool" where
  "jv_nullish v \<longleftrightarrow> v = VUndef \<or> v = VNull"

text \<open>Assignments to \<open>current.x\<close>, \<open>current.scope.x\<close> and \<open>current.scope.checkout.x\<close>; the local names \<open>scope\<close> and
  \<open>choice\<close> of the code alias these objects.\<close>

definition update_draft :: "(wt_draft \<Rightarrow> wt_draft) \<Rightarrow> wt_controller \<Rightarrow> wt_controller" where
  "update_draft f k = k\<lparr>wk_current := map_option f (wk_current k)\<rparr>"

definition on_scope :: "(wt_scope \<Rightarrow> wt_scope) \<Rightarrow> wt_draft \<Rightarrow> wt_draft" where
  "on_scope f d = d\<lparr>wu_scope := f (wu_scope d)\<rparr>"

definition on_checkout :: "(checkout_choice \<Rightarrow> checkout_choice) \<Rightarrow> wt_scope \<Rightarrow> wt_scope" where
  "on_checkout f sc = sc\<lparr>wp_checkout := map_option f (wp_checkout sc)\<rparr>"

definition current_scope :: "wt_controller \<Rightarrow> wt_scope option" where
  "current_scope k = map_option wu_scope (wk_current k)"

definition current_choice :: "wt_controller \<Rightarrow> checkout_choice option" where
  "current_choice k = Option.bind (current_scope k) wp_checkout"

text \<open>\<open>publish()\<close>: the scope as it is now goes to \<open>persist\<close>.\<close>

definition publish_at :: "wt_point \<Rightarrow> wt_controller \<Rightarrow> wt_next \<times> wt_controller" where
  "publish_at p k = (Awaits p (CallPersist (current_scope k)), k)"

text \<open>The \<open>finally\<close> of the busy operations.\<close>

definition release_busy :: "wt_next \<Rightarrow> wt_controller \<Rightarrow> wt_next \<times> wt_controller" where
  "release_busy n k = (n, k\<lparr>wk_busy := False\<rparr>)"

definition assertEditable :: "wt_controller \<Rightarrow> wt_error + wt_draft" where
  "assertEditable k =
     (if wk_busy k then Inl (wt_message ''Wait for the pending operation to finish.'')
      else case wk_current k of
             None \<Rightarrow> Inl (wt_message ''Checkout discovery must finish before sending.'')
           | Some d \<Rightarrow> if wu_status d = WtReady then Inr d
                       else Inl (wt_message ''Checkout discovery must finish before sending.''))"

definition wt_ready :: "wt_controller \<Rightarrow> bool" where
  "wt_ready k = (case wk_current k of None \<Rightarrow> True | Some d \<Rightarrow> wu_status d = WtReady)"

section \<open>select\<close>

definition select_begin :: "bool \<Rightarrow> wt_scope option \<Rightarrow> wt_controller \<Rightarrow> wt_next \<times> wt_controller" where
  "select_begin service scope k =
     (if wk_busy k then (Returns (Truth False), k)
      else let k1 = k\<lparr>wk_revision := Suc (wk_revision k)\<rparr> in
        case scope of
          None \<Rightarrow> (Returns (Truth True), k1\<lparr>wk_current := None\<rparr>)
        | Some sc \<Rightarrow>
            if \<not> jv_truthy (wp_path sc) \<or> \<not> service then (Returns (Truth True), k1\<lparr>wk_current := None\<rparr>)
            else (Awaits (SelectInspect (wk_revision k1)) (CallInspect (wp_path sc)),
                  k1\<lparr>wk_current := Some \<lparr>wu_scope = sc, wu_status = WtLoading, wu_error = None,
                                         wu_inspection = None, wu_changedCheckout = VUndef\<rparr>\<rparr>))"

text \<open>The assignments to the scope after an inspection: the expectation of an earlier checkout stays.\<close>

definition fresh_choice :: "wt_inspection \<Rightarrow> checkout_choice" where
  "fresh_choice i = \<lparr>ck_branch = wi_branch i, ck_commit = wi_commit i, ck_base = VUndef, ck_newWorktree = False,
     ck_planId = None, ck_planRequest = None, ck_created = VUndef, ck_acknowledgedState = None\<rparr>"

definition default_base :: "wt_inspection \<Rightarrow> jv" where
  "default_base i = (if jv_nullish (wi_defaultBase i) then VNull else wi_defaultBase i)"

definition with_base :: "wt_inspection \<Rightarrow> checkout_choice \<Rightarrow> checkout_choice" where
  "with_base i ck = (if jv_truthy (ck_base ck) then ck else ck\<lparr>ck_base := default_base i\<rparr>)"

definition inspected_scope :: "wt_inspection \<Rightarrow> wt_scope \<Rightarrow> wt_scope" where
  "inspected_scope i sc =
     (let sc1 = sc\<lparr>wp_git := wi_git i, wp_branch := wi_branch i\<rparr> in
      if wi_git i
      then sc1\<lparr>wp_repositoryId := wi_repositoryId i, wp_repositoryRoot := wi_repositoryRoot i,
               wp_relativePath := wi_relativePath i, wp_checkoutRoot := wi_checkoutRoot i,
               wp_checkout := Some (with_base i (case wp_checkout sc of None \<Rightarrow> fresh_choice i | Some ck \<Rightarrow> ck))\<rparr>
      else sc1\<lparr>wp_checkout := None\<rparr>)"

definition select_failed :: "nat \<Rightarrow> wt_error \<Rightarrow> wt_controller \<Rightarrow> wt_next \<times> wt_controller" where
  "select_failed token e k =
     (if token \<noteq> wk_revision k then (Returns (Truth False), k)
      else publish_at SelectFailed (update_draft (\<lambda>d. d\<lparr>wu_status := WtFailed, wu_error := Some e\<rparr>) k))"

definition select_inspected :: "nat \<Rightarrow> wt_inspection \<Rightarrow> wt_controller \<Rightarrow> wt_next \<times> wt_controller" where
  "select_inspected token i k =
     (if token \<noteq> wk_revision k then (Returns (Truth False), k)
      else publish_at (SelectPersist token)
             (update_draft (\<lambda>d. \<lparr>wu_scope = inspected_scope i (wu_scope d), wu_status = WtReady, wu_error = None,
                                 wu_inspection = Some i, wu_changedCheckout = VUndef\<rparr>) k))"

section \<open>pick and the edits\<close>

definition pick_begin :: "jv \<Rightarrow> wt_controller \<Rightarrow> wt_next \<times> wt_controller" where
  "pick_begin target_path k = (case assertEditable k of
       Inl e \<Rightarrow> (Throws e, k)
     | Inr d \<Rightarrow> let sc = wu_scope d in
         (Awaits PickValidate
            (CallValidate target_path (jv_or (wp_relativePath sc) (VStr [])) (wp_repositoryId sc) VUndef VUndef),
          k\<lparr>wk_busy := True\<rparr>))"

definition picked_scope :: "wt_selected \<Rightarrow> wt_inspection \<Rightarrow> wt_scope \<Rightarrow> wt_scope" where
  "picked_scope s i sc =
     sc\<lparr>wp_path := wd_workingDirectory s, wp_checkoutRoot := wd_checkoutRoot s, wp_branch := wd_branch s,
        wp_checkout := Some ((fresh_choice i)\<lparr>ck_branch := wd_branch s, ck_commit := wd_commit s,
                                              ck_base := default_base i\<rparr>),
        wp_creationRequestId := VUndef\<rparr>"

definition pick_inspected :: "wt_selected \<Rightarrow> wt_inspection \<Rightarrow> wt_controller \<Rightarrow> wt_next \<times> wt_controller" where
  "pick_inspected s i k = publish_at PickPersist
     (update_draft (\<lambda>d. (on_scope (picked_scope s i) d)
         \<lparr>wu_inspection := Some i, wu_error := None, wu_changedCheckout := VUndef\<rparr>) k)"

definition setNewWorktree :: "bool \<Rightarrow> wt_controller \<Rightarrow> wt_next \<times> wt_controller" where
  "setNewWorktree v k = (case assertEditable k of
       Inl e \<Rightarrow> (Throws e, k)
     | Inr d \<Rightarrow> (case wp_checkout (wu_scope d) of
           None \<Rightarrow> (Throws wt_type_error, k)
         | Some ck \<Rightarrow> publish_at EditPersist
             (update_draft (\<lambda>d. (on_scope (\<lambda>sc. sc\<lparr>wp_creationRequestId := VUndef,
                 wp_checkout := Some (ck\<lparr>ck_newWorktree := v, ck_planId := None, ck_created := VUndef,
                                         ck_planRequest := None\<rparr>)\<rparr>) d)
                \<lparr>wu_error := None, wu_changedCheckout := VUndef\<rparr>) k)))"

definition setBase :: "jv \<Rightarrow> wt_controller \<Rightarrow> wt_next \<times> wt_controller" where
  "setBase name k = (case assertEditable k of
       Inl e \<Rightarrow> (Throws e, k)
     | Inr d \<Rightarrow> (case wp_checkout (wu_scope d) of
           None \<Rightarrow> (Throws wt_type_error, k)
         | Some ck \<Rightarrow>
             if truthy_str (ck_planId ck)
             then (Throws (wt_message ''Retry the retained creation plan, or choose a checkout to start another plan.''), k)
             else publish_at EditPersist
               (update_draft (\<lambda>d. (on_scope (\<lambda>sc. sc\<lparr>wp_creationRequestId := VUndef,
                   wp_checkout := Some (ck\<lparr>ck_base := name\<rparr>)\<rparr>) d)\<lparr>wu_error := None\<rparr>) k)))"

section \<open>prepareSend\<close>

text \<open>The \<open>catch\<close> of \<open>prepareSend\<close>.\<close>

definition base_moved :: "wt_error \<Rightarrow> bool" where
  "base_moved e \<longleftrightarrow> we_code e = Some ''base-changed'' \<or> we_code e = Some ''base-unavailable''"

definition with_error :: "wt_error \<Rightarrow> wt_draft \<Rightarrow> wt_draft" where
  "with_error e d = d\<lparr>wu_error := Some e,
     wu_changedCheckout := (if we_code e = Some ''checkout_changed'' then we_details e else wu_changedCheckout d)\<rparr>"

definition prepare_failed :: "wt_error \<Rightarrow> wt_controller \<Rightarrow> wt_next \<times> wt_controller" where
  "prepare_failed e k =
     (let k1 = update_draft (with_error e) k in
      if base_moved e
      then (Awaits (SendReinspect e) (CallInspect (case current_scope k1 of None \<Rightarrow> VUndef | Some sc \<Rightarrow> wp_path sc)),
            update_draft (on_scope (on_checkout (\<lambda>ck. ck\<lparr>ck_planId := None, ck_planRequest := None\<rparr>))) k1)
      else publish_at (SendFailed e) k1)"

definition chosen_base :: "wt_inspection \<Rightarrow> jv \<Rightarrow> wt_base option" where
  "chosen_base i base = find (\<lambda>b. jv_or (wb_ref b) (wb_name b) = base) (wi_bases i)"

definition new_plan :: "wt_scope \<Rightarrow> checkout_choice \<Rightarrow> wt_base \<Rightarrow> string \<Rightarrow> plan_request" where
  "new_plan sc ck b uuid = \<lparr>pq_repositoryPath = wp_path sc, pq_relativePath = jv_or (wp_relativePath sc) (VStr []),
     pq_base = ck_base ck, pq_expectedCommit = wb_commit b, pq_planId = uuid\<rparr>"

definition prepare_begin :: "string \<Rightarrow> wt_controller \<Rightarrow> wt_next \<times> wt_controller" where
  "prepare_begin uuid k = (case assertEditable k of
       Inl e \<Rightarrow> (Throws e, k)
     | Inr d \<Rightarrow> let sc = wu_scope d in
         (case wu_inspection d of
            None \<Rightarrow> (Returns (PlainDirectory (wp_path sc)), k)
          | Some i \<Rightarrow>
              if \<not> wi_git i then (Returns (PlainDirectory (wp_path sc)), k)
              else let k1 = k\<lparr>wk_busy := True\<rparr> in
                (case wp_checkout sc of
                   None \<Rightarrow> prepare_failed wt_type_error k1
                 | Some ck \<Rightarrow>
                     if \<not> ck_newWorktree ck
                     then (Awaits SendValidate
                             (CallValidate (wp_checkoutRoot sc) (jv_or (wp_relativePath sc) (VStr []))
                                (wp_repositoryId sc) (ck_branch ck) (ck_commit ck)), k1)
                     else if ck_planRequest ck \<noteq> None then publish_at SendRetained k1
                     else (case chosen_base i (ck_base ck) of
                             None \<Rightarrow> prepare_failed (wt_message ''Choose an available base for the worktree.'') k1
                           | Some b \<Rightarrow> publish_at SendNewPlan
                               (update_draft (on_scope (on_checkout (\<lambda>ck. ck\<lparr>ck_planId := Some uuid,
                                   ck_planRequest := Some (new_plan sc ck b uuid)\<rparr>))) k1)))))"

definition ask_plan :: "wt_controller \<Rightarrow> wt_next \<times> wt_controller" where
  "ask_plan k = (Awaits SendPlan (CallPlan (Option.bind (current_choice k) ck_planRequest)), k)"

definition ask_create :: "wt_controller \<Rightarrow> wt_next \<times> wt_controller" where
  "ask_create k = (Awaits SendCreate (CallCreate (Option.bind (current_choice k) ck_planId)
                                        (Option.bind (current_choice k) ck_acknowledgedState)), k)"

section \<open>acknowledgeChange\<close>

definition ask_fresh :: "jv \<Rightarrow> wt_controller \<Rightarrow> wt_next \<times> wt_controller" where
  "ask_fresh path k = (case current_scope k of
       None \<Rightarrow> release_busy (Throws wt_type_error) k
     | Some sc \<Rightarrow> (Awaits AckValidate
         (CallValidate path (jv_or (wp_relativePath sc) (VStr [])) (wp_repositoryId sc) VUndef VUndef), k))"

definition acknowledge_begin :: "wt_controller \<Rightarrow> wt_next \<times> wt_controller" where
  "acknowledge_begin k = (case assertEditable k of
       Inl e \<Rightarrow> (Throws e, k)
     | Inr d \<Rightarrow> let k1 = k\<lparr>wk_busy := True\<rparr> in
         (case wp_checkout (wu_scope d) of
            None \<Rightarrow> release_busy (Throws wt_type_error) k1
          | Some ck \<Rightarrow>
              if \<not> ck_newWorktree ck then ask_fresh (wp_checkoutRoot (wu_scope d)) k1
              else let known = jv_or (jv_get (wu_changedCheckout d) ''path'') (jv_get (ck_created ck) ''checkoutRoot'') in
                if jv_truthy known then ask_fresh known k1
                else (Awaits AckPlan (CallReadPlan (ck_planId ck)), k1)))"

definition acknowledged_scope :: "wt_selected \<Rightarrow> wt_scope \<Rightarrow> wt_scope" where
  "acknowledged_scope s sc = (case wp_checkout sc of
       None \<Rightarrow> sc
     | Some ck \<Rightarrow>
         let ck1 = ck\<lparr>ck_branch := wd_branch s, ck_commit := wd_commit s\<rparr> in
         if ck_newWorktree ck
         then sc\<lparr>wp_checkout := Some (ck1\<lparr>ck_acknowledgedState := Some (wd_branch s, wd_commit s)\<rparr>)\<rparr>
         else sc\<lparr>wp_checkout := Some ck1, wp_branch := wd_branch s\<rparr>)"

definition acknowledge_fresh :: "wt_selected \<Rightarrow> wt_controller \<Rightarrow> wt_next \<times> wt_controller" where
  "acknowledge_fresh s k = publish_at AckPersist
     (update_draft (\<lambda>d. (on_scope (acknowledged_scope s) d)\<lparr>wu_error := None, wu_changedCheckout := VUndef\<rparr>) k)"

section \<open>reportSendError and clear\<close>

definition reportSendError :: "wt_error \<Rightarrow> wt_controller \<Rightarrow> wt_controller" where
  "reportSendError e = update_draft (\<lambda>d.
     let d1 = d\<lparr>wu_error := Some e\<rparr>; snapshot = jv_get (we_details e) ''currentCheckout'' in
     if we_code e \<noteq> Some ''checkout_changed'' then d1
     else d1\<lparr>wu_changedCheckout :=
       (if jv_truthy snapshot
        then VObj [(''path'', jv_get snapshot ''checkoutRoot''), (''branch'', jv_get snapshot ''branch''),
                   (''commit'', jv_get snapshot ''commit'')]
        else we_details e)\<rparr>)"

definition clear_draft :: "wt_controller \<Rightarrow> wt_controller" where
  "clear_draft k = (if wk_busy k then k else k\<lparr>wk_revision := Suc (wk_revision k), wk_current := None\<rparr>)"

section \<open>From an answer to the next await\<close>

text \<open>The failures: inside the \<open>try\<close> of \<open>prepareSend\<close> they reach its \<open>catch\<close>; elsewhere only the \<open>finally\<close> runs.\<close>

definition resume_failed :: "wt_point \<Rightarrow> wt_error \<Rightarrow> wt_controller \<Rightarrow> wt_next \<times> wt_controller" where
  "resume_failed p e k = (case p of
       SelectInspect token \<Rightarrow> select_failed token e k
     | SelectPersist token \<Rightarrow> select_failed token e k
     | SelectFailed \<Rightarrow> (Throws e, k)
     | EditPersist \<Rightarrow> (Throws e, k)
     | SendNewPlan \<Rightarrow> prepare_failed e k
     | SendRetained \<Rightarrow> prepare_failed e k
     | SendPlan \<Rightarrow> prepare_failed e k
     | SendCreate \<Rightarrow> prepare_failed e k
     | SendCreated v \<Rightarrow> prepare_failed e k
     | SendValidate \<Rightarrow> prepare_failed e k
     | _ \<Rightarrow> release_busy (Throws e) k)"

text \<open>The value of the \<open>await\<close> by its kind. The default of each is never reached: an answer fits its call
  (\<open>answers\<close>), and the call its point (\<open>asks\<close>).\<close>

definition resume_inspected :: "wt_point \<Rightarrow> wt_inspection \<Rightarrow> wt_controller \<Rightarrow> wt_next \<times> wt_controller" where
  "resume_inspected p i k = (case p of
       SelectInspect token \<Rightarrow> select_inspected token i k
     | PickInspect s \<Rightarrow> pick_inspected s i k
     | SendReinspect e \<Rightarrow> publish_at (SendFailed e)
         (update_draft (\<lambda>d. (on_scope (on_checkout (\<lambda>ck. ck\<lparr>ck_base := VNull\<rparr>)) d)\<lparr>wu_inspection := Some i\<rparr>) k)
     | _ \<Rightarrow> (Throws wt_type_error, k))"

definition resume_selected :: "wt_point \<Rightarrow> wt_selected \<Rightarrow> wt_controller \<Rightarrow> wt_next \<times> wt_controller" where
  "resume_selected p s k = (case p of
       PickValidate \<Rightarrow> (Awaits (PickInspect s) (CallInspect (wd_workingDirectory s)), k)
     | SendValidate \<Rightarrow> release_busy (Returns (PreparedSame s)) k
     | AckValidate \<Rightarrow> acknowledge_fresh s k
     | _ \<Rightarrow> (Throws wt_type_error, k))"

definition resume_planned :: "wt_point \<Rightarrow> jv \<Rightarrow> wt_controller \<Rightarrow> wt_next \<times> wt_controller" where
  "resume_planned p v k = (case p of
       SendPlan \<Rightarrow> ask_create k
     | AckPlan \<Rightarrow> if jv_nullish v then release_busy (Throws wt_type_error) k else ask_fresh (jv_get v ''path'') k
     | _ \<Rightarrow> (Throws wt_type_error, k))"

definition resume_created :: "wt_point \<Rightarrow> jv \<Rightarrow> wt_controller \<Rightarrow> wt_next \<times> wt_controller" where
  "resume_created p v k = (case p of
       SendCreate \<Rightarrow> publish_at (SendCreated v)
         (update_draft (on_scope (on_checkout (\<lambda>ck. ck\<lparr>ck_created := v\<rparr>))) k)
     | _ \<Rightarrow> (Throws wt_type_error, k))"

definition resume_saved :: "wt_point \<Rightarrow> wt_controller \<Rightarrow> wt_next \<times> wt_controller" where
  "resume_saved p k = (case p of
       SelectPersist token \<Rightarrow> (Returns (Truth True), k)
     | SelectFailed \<Rightarrow> (Returns (Truth False), k)
     | EditPersist \<Rightarrow> (Returns NoValue, k)
     | PickPersist \<Rightarrow> release_busy (Returns NoValue) k
     | AckPersist \<Rightarrow> release_busy (Returns NoValue) k
     | SendNewPlan \<Rightarrow> publish_at SendRetained k
     | SendRetained \<Rightarrow> ask_plan k
     | SendCreated v \<Rightarrow> release_busy (Returns (PreparedNew v)) k
     | SendFailed e \<Rightarrow> release_busy (Throws e) k
     | _ \<Rightarrow> (Throws wt_type_error, k))"

definition resume :: "wt_point \<Rightarrow> wt_answer \<Rightarrow> wt_controller \<Rightarrow> wt_next \<times> wt_controller" where
  "resume p a k = (case a of
       AFails e \<Rightarrow> resume_failed p e k
     | AInspected i \<Rightarrow> resume_inspected p i k
     | ASelected s \<Rightarrow> resume_selected p s k
     | APlanned v \<Rightarrow> resume_planned p v k
     | ACreated v \<Rightarrow> resume_created p v k
     | ASaved \<Rightarrow> resume_saved p k)"

section \<open>The system\<close>

text \<open>Which call each point waits for.\<close>

definition asks :: "wt_point \<Rightarrow> wt_call \<Rightarrow> bool" where
  "asks p c = (case c of
       CallInspect _ \<Rightarrow> (case p of SelectInspect _ \<Rightarrow> True | PickInspect _ \<Rightarrow> True | SendReinspect _ \<Rightarrow> True | _ \<Rightarrow> False)
     | CallValidate _ _ _ _ _ \<Rightarrow> p \<in> {PickValidate, SendValidate, AckValidate}
     | CallPlan _ \<Rightarrow> p = SendPlan
     | CallCreate _ _ \<Rightarrow> p = SendCreate
     | CallReadPlan _ \<Rightarrow> p = AckPlan
     | CallPersist _ \<Rightarrow> (case p of SelectPersist _ \<Rightarrow> True | SendCreated _ \<Rightarrow> True | SendFailed _ \<Rightarrow> True
         | _ \<Rightarrow> p \<in> {SelectFailed, EditPersist, PickPersist, AckPersist, SendNewPlan, SendRetained}))"

text \<open>The points at which the operation holds \<open>busy\<close>.\<close>

definition is_busy_point :: "wt_point \<Rightarrow> bool" where
  "is_busy_point p = (case p of
       SelectInspect _ \<Rightarrow> False | SelectPersist _ \<Rightarrow> False | SelectFailed \<Rightarrow> False | EditPersist \<Rightarrow> False | _ \<Rightarrow> True)"

datatype wt_effect = Asked wt_call | Answered wt_call wt_answer | Ended wt_next

text \<open>The controller, the calls in flight with the points they resume, and what happened so far, oldest first.\<close>

record wt_system =
  wy_controller :: wt_controller
  wy_waiting :: "(nat, wt_point \<times> wt_call) jsmap"
  wy_nextCall :: nat
  wy_log :: "wt_effect list"

definition wt_start :: wt_system where
  "wt_start = \<lparr>wy_controller = createWorktreeController, wy_waiting = [], wy_nextCall = 0, wy_log = []\<rparr>"

definition wt_enter :: "wt_next \<times> wt_controller \<Rightarrow> wt_system \<Rightarrow> wt_system" where
  "wt_enter r s = (case fst r of
       Awaits p c \<Rightarrow> s\<lparr>wy_controller := snd r, wy_waiting := map_set (wy_waiting s) (wy_nextCall s) (p, c),
                       wy_nextCall := Suc (wy_nextCall s), wy_log := wy_log s @ [Asked c]\<rparr>
     | n \<Rightarrow> s\<lparr>wy_controller := snd r, wy_log := wy_log s @ [Ended n]\<rparr>)"

datatype wt_event =
    EvSelect bool "wt_scope option" | EvPick jv | EvNewWorktree bool | EvBase jv | EvSend string | EvAcknowledge
  | EvReport wt_error | EvClear | EvAnswer nat wt_answer

definition wt_do :: "wt_event \<Rightarrow> wt_system \<Rightarrow> wt_system" where
  "wt_do ev s = (let k = wy_controller s in case ev of
       EvSelect service scope \<Rightarrow> wt_enter (select_begin service scope k) s
     | EvPick path \<Rightarrow> wt_enter (pick_begin path k) s
     | EvNewWorktree v \<Rightarrow> wt_enter (setNewWorktree v k) s
     | EvBase name \<Rightarrow> wt_enter (setBase name k) s
     | EvSend uuid \<Rightarrow> wt_enter (prepare_begin uuid k) s
     | EvAcknowledge \<Rightarrow> wt_enter (acknowledge_begin k) s
     | EvReport e \<Rightarrow> s\<lparr>wy_controller := reportSendError e k\<rparr>
     | EvClear \<Rightarrow> s\<lparr>wy_controller := clear_draft k\<rparr>
     | EvAnswer n a \<Rightarrow> (case map_get (wy_waiting s) n of
           None \<Rightarrow> s
         | Some (p, c) \<Rightarrow> wt_enter (resume p a k)
             (s\<lparr>wy_waiting := map_delete (wy_waiting s) n, wy_log := wy_log s @ [Answered c a]\<rparr>)))"

text \<open>A legal event: an answer fits a call in flight; a scope that was stored before holds a plan under its own id.\<close>

definition choice_ok :: "checkout_choice \<Rightarrow> bool" where
  "choice_ok ck \<longleftrightarrow> ck_planId ck = map_option pq_planId (ck_planRequest ck)"

definition scope_ok :: "wt_scope \<Rightarrow> bool" where
  "scope_ok sc \<longleftrightarrow> pred_option choice_ok (wp_checkout sc)"

definition wt_legal :: "wt_event \<Rightarrow> wt_system \<Rightarrow> bool" where
  "wt_legal ev s = (case ev of
       EvSelect _ scope \<Rightarrow> pred_option scope_ok scope
     | EvAnswer n a \<Rightarrow> (case map_get (wy_waiting s) n of None \<Rightarrow> False | Some (p, c) \<Rightarrow> answers c a)
     | _ \<Rightarrow> True)"

inductive wt_step :: "wt_system \<Rightarrow> wt_event \<Rightarrow> wt_system \<Rightarrow> bool" where
  "wt_legal ev s \<Longrightarrow> wt_step s ev (wt_do ev s)"

inductive_cases wt_stepE: "wt_step s ev s'"

inductive wt_reaches :: "wt_system \<Rightarrow> bool" where
  wt_reach_start: "wt_reaches wt_start"
| wt_reach_step: "wt_reaches s \<Longrightarrow> wt_step s ev s' \<Longrightarrow> wt_reaches s'"

section \<open>The invariant\<close>

definition retained :: "wt_controller \<Rightarrow> plan_request option" where
  "retained k = Option.bind (current_choice k) ck_planRequest"

definition scope_request :: "wt_scope \<Rightarrow> plan_request option" where
  "scope_request sc = Option.bind (wp_checkout sc) ck_planRequest"

text \<open>The receipt \<open>r\<close> was stored, and then its plan asked for.\<close>

definition plan_backed :: "wt_effect list \<Rightarrow> plan_request \<Rightarrow> bool" where
  "plan_backed log r \<longleftrightarrow> (\<exists>sc. scope_request sc = Some r
     \<and> subseq [Answered (CallPersist (Some sc)) ASaved, Asked (CallPlan (Some r))] log)"

text \<open>The receipt of plan \<open>pid\<close> was stored, its plan asked for and granted, in this order.\<close>

definition create_backed :: "wt_effect list \<Rightarrow> string option \<Rightarrow> bool" where
  "create_backed log pid \<longleftrightarrow> (\<exists>sc r v. pid = Some (pq_planId r) \<and> scope_request sc = Some r
     \<and> subseq [Answered (CallPersist (Some sc)) ASaved, Asked (CallPlan (Some r)),
               Answered (CallPlan (Some r)) (APlanned v)] log)"

definition receipts_first :: "wt_effect list \<Rightarrow> bool" where
  "receipts_first log \<longleftrightarrow>
     (\<forall>before pid ack after. log = before @ Asked (CallCreate pid ack) # after \<longrightarrow> create_backed before pid)"

text \<open>What holds at a point while it waits.\<close>

definition point_ok :: "wt_controller \<Rightarrow> wt_effect list \<Rightarrow> wt_point \<Rightarrow> wt_call \<Rightarrow> bool" where
  "point_ok k log p c = (case p of
       SelectInspect t \<Rightarrow> t \<le> wk_revision k \<and> (t = wk_revision k \<longrightarrow>
         \<not> wk_busy k \<and> (\<exists>d. wk_current k = Some d \<and> wu_status d \<noteq> WtReady))
     | SelectPersist t \<Rightarrow> t \<le> wk_revision k \<and> (t = wk_revision k \<longrightarrow> wk_current k \<noteq> None)
     | SendNewPlan \<Rightarrow> c = CallPersist (current_scope k) \<and> retained k \<noteq> None
     | SendRetained \<Rightarrow> c = CallPersist (current_scope k) \<and> retained k \<noteq> None
     | SendPlan \<Rightarrow> (\<exists>r. retained k = Some r \<and> c = CallPlan (Some r) \<and> plan_backed log r)
     | _ \<Rightarrow> True)"

text \<open>A point owns the draft when it is busy, or inspects for the present selection.\<close>

definition owns :: "nat \<Rightarrow> nat \<times> wt_point \<times> wt_call \<Rightarrow> bool" where
  "owns present = (\<lambda>(n, p, c). is_busy_point p \<or> p = SelectInspect present)"

definition waiting_ok :: "wt_controller \<Rightarrow> wt_effect list \<Rightarrow> (nat, wt_point \<times> wt_call) jsmap \<Rightarrow> bool" where
  "waiting_ok k log w \<longleftrightarrow> list_all (\<lambda>(n, p, c). asks p c \<and> point_ok k log p c) w"

definition wt_inv :: "wt_system \<Rightarrow> bool" where
  "wt_inv s \<longleftrightarrow> (let k = wy_controller s; w = wy_waiting s in
     map_ok w \<and> list_all (\<lambda>(n, x). n < wy_nextCall s) w
     \<and> waiting_ok k (wy_log s) w
     \<and> length (filter (owns (wk_revision k)) w) \<le> 1
     \<and> (wk_busy k \<longleftrightarrow> list_ex (\<lambda>(n, p, c). is_busy_point p) w)
     \<and> (wk_busy k \<longrightarrow> wk_current k \<noteq> None)
     \<and> pred_option scope_ok (current_scope k)
     \<and> receipts_first (wy_log s))"

text \<open>Every waiting point belongs to an operation that does not own the draft.\<close>

definition calm :: "wt_controller \<Rightarrow> (nat, wt_point \<times> wt_call) jsmap \<Rightarrow> bool" where
  "calm k w \<longleftrightarrow> list_all (\<lambda>(n, p, c). asks p c \<and> \<not> is_busy_point p \<and> (case p of
       SelectInspect t \<Rightarrow> t < wk_revision k
     | SelectPersist t \<Rightarrow> t \<le> wk_revision k \<and> (t = wk_revision k \<longrightarrow> wk_current k \<noteq> None)
     | _ \<Rightarrow> True)) w"

text \<open>What an operation that owns the draft leaves behind.\<close>

definition leaves :: "wt_effect list \<Rightarrow> wt_next \<times> wt_controller \<Rightarrow> bool" where
  "leaves log r \<longleftrightarrow> (let k = snd r in
     pred_option scope_ok (current_scope k) \<and> (wk_busy k \<longrightarrow> wk_current k \<noteq> None)
     \<and> (case fst r of
          Awaits p c \<Rightarrow> asks p c \<and> point_ok k (log @ [Asked c]) p c \<and> (wk_busy k \<longleftrightarrow> is_busy_point p)
            \<and> (case c of CallCreate pid ack \<Rightarrow> create_backed log pid | _ \<Rightarrow> True)
        | _ \<Rightarrow> \<not> wk_busy k))"

lemma receipts_first_snoc:
  "receipts_first (log @ [e]) \<longleftrightarrow>
     receipts_first log \<and> (case e of Asked (CallCreate pid ack) \<Rightarrow> create_backed log pid | _ \<Rightarrow> True)"
proof -
  have "(\<exists>after. log @ [e] = before @ x # after) \<longleftrightarrow> (\<exists>after. log = before @ x # after) \<or> (before = log \<and> e = x)" for before x
    by (auto simp: append_eq_append_conv2 Cons_eq_append_conv append_eq_Cons_conv)
  then have split: "(\<forall>after. log @ [e] = before @ x # after \<longrightarrow> Q) \<longleftrightarrow>
      (\<forall>after. log = before @ x # after \<longrightarrow> Q) \<and> (before = log \<and> e = x \<longrightarrow> Q)" for before x Q
    by blast
  show ?thesis
    unfolding receipts_first_def split by (auto split: wt_effect.splits wt_call.splits)
qed

lemma subseq_after: "subseq xs log \<Longrightarrow> subseq xs (log @ ys)"
  using list_emb_append_mono [of "(=)" xs log "[]" ys] by simp

lemma subseq_add: "subseq xs log \<Longrightarrow> subseq (xs @ [y]) (log @ [y])"
  by (simp add: list_emb_append_mono)

lemma plan_backed_after: "plan_backed log r \<Longrightarrow> plan_backed (log @ l) r"
  unfolding plan_backed_def by (blast intro: subseq_after)

lemma point_ok_after: "point_ok k log p c \<Longrightarrow> point_ok k (log @ l) p c"
  by (auto simp: point_ok_def plan_backed_after split: wt_point.splits)

lemma calm_append: "calm k (w @ [(n, p, c)]) \<longleftrightarrow> calm k w \<and> calm k [(n, p, c)]"
  by (simp add: calm_def)

lemma calm_waiting: "calm k w \<Longrightarrow> waiting_ok k log w"
  by (auto simp: calm_def waiting_ok_def point_ok_def list_all_iff is_busy_point_def split: wt_point.splits)

lemma calm_no_owner: "calm k w \<Longrightarrow> filter (owns (wk_revision k)) w = []"
  by (auto simp: calm_def owns_def list_all_iff filter_empty_conv)

lemma calm_no_busy: "calm k w \<Longrightarrow> \<not> list_ex (\<lambda>(n, p, c). is_busy_point p) w"
  by (auto simp: calm_def list_all_iff list_ex_iff)

lemma calm_mono:
  "calm k w \<Longrightarrow> wk_revision k' = wk_revision k \<Longrightarrow> (wk_current k' = None \<longleftrightarrow> wk_current k = None) \<Longrightarrow> calm k' w"
  by (auto simp: calm_def list_all_iff split: wt_point.splits)

text \<open>Entering what the owner leaves behind.\<close>

lemma enter_owner:
  assumes w: "map_ok (wy_waiting s)" "list_all (\<lambda>(n, x). n < wy_nextCall s) (wy_waiting s)"
    and log: "receipts_first (wy_log s)" and calm: "calm (snd r) (wy_waiting s)" and ok: "leaves (wy_log s) r"
  shows "wt_inv (wt_enter r s)"
proof (cases "fst r")
  case (Awaits p c)
  have fresh: "\<not> map_has (wy_waiting s) (wy_nextCall s)"
    using w(2) by (force simp: map_has_keys map_keys_def list_all_iff)
  define w' where "w' = map_set (wy_waiting s) (wy_nextCall s) (p, c)"
  have w': "w' = wy_waiting s @ [(wy_nextCall s, p, c)]" "map_ok w'"
    using map_set_absent [OF fresh, of "(p, c)"] map_ok_set [OF w(1), of "wy_nextCall s" "(p, c)"] by (simp_all add: w'_def)
  have rest: "waiting_ok (snd r) (wy_log s @ [Asked c]) (wy_waiting s)" using calm by (rule calm_waiting)
  have small: "list_all (\<lambda>(n, x). n < Suc (wy_nextCall s)) (wy_waiting s)" using w(2) by (force simp: list_all_iff)
  have at: "asks p c \<and> point_ok (snd r) (wy_log s @ [Asked c]) p c \<and> (wk_busy (snd r) \<longleftrightarrow> is_busy_point p)
      \<and> pred_option scope_ok (current_scope (snd r)) \<and> (wk_busy (snd r) \<longrightarrow> wk_current (snd r) \<noteq> None)
      \<and> receipts_first (wy_log s @ [Asked c])"
    using ok log Awaits by (simp add: leaves_def Let_def receipts_first_snoc)
  have "wt_enter r s = s\<lparr>wy_controller := snd r, wy_waiting := w', wy_nextCall := Suc (wy_nextCall s),
      wy_log := wy_log s @ [Asked c]\<rparr>"
    using Awaits by (simp add: wt_enter_def w'_def)
  then show ?thesis
    using at rest small w'(2) calm_no_owner [OF calm] calm_no_busy [OF calm]
    by (simp add: wt_inv_def Let_def w'(1) waiting_ok_def)
next
  case (Returns v)
  then show ?thesis
    using w log ok calm_waiting [OF calm] calm_no_owner [OF calm] calm_no_busy [OF calm]
    by (simp add: wt_inv_def wt_enter_def Let_def leaves_def receipts_first_snoc)
next
  case (Throws e)
  then show ?thesis
    using w log ok calm_waiting [OF calm] calm_no_owner [OF calm] calm_no_busy [OF calm]
    by (simp add: wt_inv_def wt_enter_def Let_def leaves_def receipts_first_snoc)
qed

lemma wt_inv_parts:
  assumes "wt_inv s"
  shows "map_ok (wy_waiting s)" "list_all (\<lambda>(n, x). n < wy_nextCall s) (wy_waiting s)"
    "waiting_ok (wy_controller s) (wy_log s) (wy_waiting s)"
    "length (filter (owns (wk_revision (wy_controller s))) (wy_waiting s)) \<le> 1"
    "wk_busy (wy_controller s) \<longleftrightarrow> list_ex (\<lambda>(n, p, c). is_busy_point p) (wy_waiting s)"
    "wk_busy (wy_controller s) \<Longrightarrow> wk_current (wy_controller s) \<noteq> None"
    "pred_option scope_ok (current_scope (wy_controller s))" "receipts_first (wy_log s)"
  using assms by (simp_all add: wt_inv_def Let_def)

lemma assertEditable_Inr:
  "assertEditable k = Inr d \<longleftrightarrow> \<not> wk_busy k \<and> wk_current k = Some d \<and> wu_status d = WtReady"
  by (auto simp: assertEditable_def split: option.splits if_splits)

text \<open>A waiting point that does not own the draft, by itself.\<close>

definition calm_point :: "wt_controller \<Rightarrow> wt_point \<Rightarrow> bool" where
  "calm_point k p \<longleftrightarrow> \<not> is_busy_point p \<and> (case p of
       SelectInspect t \<Rightarrow> t < wk_revision k
     | SelectPersist t \<Rightarrow> t \<le> wk_revision k \<and> (t = wk_revision k \<longrightarrow> wk_current k \<noteq> None)
     | _ \<Rightarrow> True)"

lemma calm_points: "calm k w \<longleftrightarrow> (\<forall>(n, p, c)\<in>set w. asks p c \<and> calm_point k p)"
  by (auto simp: calm_def calm_point_def list_all_iff)

lemma waiting_points: "waiting_ok k log w \<longleftrightarrow> (\<forall>(n, p, c)\<in>set w. asks p c \<and> point_ok k log p c)"
  by (simp add: waiting_ok_def list_all_iff)

lemma not_owner_calm:
  "point_ok k log p c \<Longrightarrow> \<not> owns (wk_revision k) (n, p, c) \<Longrightarrow> calm_point k p"
  by (cases p) (auto simp: calm_point_def point_ok_def owns_def)

lemma no_owner_calm:
  "waiting_ok k log w \<Longrightarrow> filter (owns (wk_revision k)) w = [] \<Longrightarrow> calm k w"
  by (fastforce simp: calm_points waiting_points filter_empty_conv intro: not_owner_calm)

lemma idle_calm:
  "point_ok k log p c \<Longrightarrow> \<not> is_busy_point p \<Longrightarrow> wk_revision k' = Suc (wk_revision k) \<Longrightarrow> calm_point k' p"
  by (cases p) (auto simp: calm_point_def point_ok_def)

lemma calm_begin:
  assumes "wt_inv s" "assertEditable (wy_controller s) = Inr d"
  shows "calm (wy_controller s) (wy_waiting s)"
proof (rule no_owner_calm)
  show "waiting_ok (wy_controller s) (wy_log s) (wy_waiting s)" using assms(1) by (rule wt_inv_parts)
  then show "filter (owns (wk_revision (wy_controller s))) (wy_waiting s) = []"
    using wt_inv_parts(5) [OF assms(1)] assms(2)
    by (auto simp: filter_empty_conv owns_def list_ex_iff waiting_ok_def list_all_iff assertEditable_Inr point_ok_def)
qed

lemma calm_resume:
  assumes inv: "wt_inv s" and get: "map_get (wy_waiting s) n = Some (p, c)"
    and own: "owns (wk_revision (wy_controller s)) (n, p, c)"
  shows "calm (wy_controller s) (map_delete (wy_waiting s) n)"
proof (rule no_owner_calm)
  let ?o = "filter (owns (wk_revision (wy_controller s)))"
  show "waiting_ok (wy_controller s) (wy_log s) (map_delete (wy_waiting s) n)"
    using wt_inv_parts(3) [OF inv] by (auto simp: waiting_ok_def map_delete_def list_all_iff)
  have "(n, p, c) \<in> set (?o (wy_waiting s))" using map_get_in [OF get] own by simp
  then have "?o (wy_waiting s) = [(n, p, c)]"
    using wt_inv_parts(4) [OF inv] by (cases "?o (wy_waiting s)") auto
  then show "?o (map_delete (wy_waiting s) n) = []"
    by (subst map_delete_def, subst filter_filter, subst conj_commute, subst filter_filter [symmetric]) simp
qed

lemma calm_bump:
  assumes inv: "wt_inv s" and idle: "\<not> wk_busy (wy_controller s)"
    and next': "wk_revision k' = Suc (wk_revision (wy_controller s))"
  shows "calm k' (wy_waiting s)"
  using wt_inv_parts(3, 5) [OF inv] idle idle_calm [OF _ _ next']
  by (fastforce simp: calm_points waiting_points list_ex_iff)

text \<open>A step that does not own the draft leaves every waiting point as it is.\<close>

definition same_draft :: "wt_controller \<Rightarrow> wt_controller \<Rightarrow> bool" where
  "same_draft k k' \<longleftrightarrow> wk_revision k' = wk_revision k \<and> wk_busy k' = wk_busy k \<and> current_scope k' = current_scope k
     \<and> (\<forall>d. wk_current k = Some d \<longrightarrow> wu_status d \<noteq> WtReady \<longrightarrow> map_option wu_status (wk_current k') \<noteq> Some WtReady)"

lemma same_draft_point:
  assumes "same_draft k k'" "point_ok k log p c"
  shows "point_ok k' (log @ l) p c"
proof -
  have "retained k' = retained k" "(wk_current k' = None) = (wk_current k = None)"
    using assms(1) by (auto simp: same_draft_def retained_def current_choice_def current_scope_def)
  moreover have "\<exists>d. wk_current k' = Some d \<and> wu_status d \<noteq> WtReady"
    if "wk_current k = Some d" "wu_status d \<noteq> WtReady" for d
    using that assms(1) by (cases "wk_current k'") (auto simp: same_draft_def current_scope_def)
  ultimately show ?thesis
    using assms plan_backed_after [of log _ l] by (auto simp: point_ok_def same_draft_def split: wt_point.splits)
qed

lemma neutral_inv:
  assumes inv: "wt_inv s" and same: "same_draft (wy_controller s) k'"
    and w: "w = wy_waiting s \<or> (\<exists>n p c. map_get (wy_waiting s) n = Some (p, c) \<and> \<not> is_busy_point p
        \<and> w = map_delete (wy_waiting s) n)"
    and l: "receipts_first (wy_log s @ l)"
  shows "wt_inv (s\<lparr>wy_controller := k', wy_waiting := w, wy_log := wy_log s @ l\<rparr>)"
proof -
  let ?k = "wy_controller s"
  have sub: "set w \<subseteq> set (wy_waiting s)" using w by (auto simp: map_delete_def)
  have "map_ok w" using w wt_inv_parts(1) [OF inv] by auto
  moreover have "list_all (\<lambda>(n, x). n < wy_nextCall s) w" "waiting_ok k' (wy_log s @ l) w"
    using sub wt_inv_parts(2, 3) [OF inv] same_draft_point [OF same]
    by (fastforce simp: waiting_points list_all_iff)+
  moreover have "length (filter (owns (wk_revision k')) w) \<le> 1"
  proof -
    have len: "length (filter P (filter Q xs)) \<le> length (filter P xs)" for P Q and xs :: "'x list"
      by (induction xs) auto
    have "length (filter (owns (wk_revision ?k)) w) \<le> length (filter (owns (wk_revision ?k)) (wy_waiting s))"
      using w len by (auto simp: map_delete_def)
    then show ?thesis using wt_inv_parts(4) [OF inv] same by (simp add: same_draft_def)
  qed
  moreover have "list_ex (\<lambda>(n, p, c). is_busy_point p) w \<longleftrightarrow> list_ex (\<lambda>(n, p, c). is_busy_point p) (wy_waiting s)"
    using w
  proof (elim disjE exE conjE)
    fix n p c
    assume get: "map_get (wy_waiting s) n = Some (p, c)" and idle: "\<not> is_busy_point p"
      and w: "w = map_delete (wy_waiting s) n"
    have "y = (p, c)" if "(n, y) \<in> set (wy_waiting s)" for y
      using that get by (simp flip: map_get_iff_in [OF wt_inv_parts(1) [OF inv]])
    then have "x \<in> set (wy_waiting s) \<and> (case x of (n, p, c) \<Rightarrow> is_busy_point p) \<longleftrightarrow>
        x \<in> set w \<and> (case x of (n, p, c) \<Rightarrow> is_busy_point p)" for x
      using idle w by (cases x) (auto simp: map_delete_def)
    then show ?thesis by (auto simp: list_ex_iff)
  qed simp
  moreover have "wk_current k' = None \<longleftrightarrow> wk_current ?k = None"
    using same by (auto simp: same_draft_def current_scope_def)
  ultimately show ?thesis
    using wt_inv_parts(5-7) [OF inv] same l by (auto simp: wt_inv_def Let_def same_draft_def)
qed

section \<open>Every step keeps the invariant\<close>

lemma same_draft_refl [simp]: "same_draft k k"
  by (simp add: same_draft_def)

lemma end_inv:
  assumes "wt_inv s" "same_draft (wy_controller s) (snd r)" "\<And>p c. fst r \<noteq> Awaits p c"
  shows "wt_inv (wt_enter r s)"
  using neutral_inv [OF assms(1, 2), of "wy_waiting s" "[Ended (fst r)]"] wt_inv_parts(8) [OF assms(1)] assms(3)
  by (cases "fst r") (auto simp: wt_enter_def receipts_first_snoc)

lemma enter_free:
  assumes inv: "wt_inv s" and free: "\<not> is_busy_point p" "\<And>t. p \<noteq> SelectInspect t"
    and ok: "asks p c" "point_ok (wy_controller s) (wy_log s @ [Asked c]) p c" "\<And>pid ack. c \<noteq> CallCreate pid ack"
  shows "wt_inv (wt_enter (Awaits p c, wy_controller s) s)"
proof -
  let ?k = "wy_controller s" and ?w = "wy_waiting s"
  note parts = wt_inv_parts [OF inv]
  have fresh: "\<not> map_has ?w (wy_nextCall s)"
    using parts(2) by (force simp: map_has_keys map_keys_def list_all_iff)
  define w' where "w' = map_set ?w (wy_nextCall s) (p, c)"
  have w': "w' = ?w @ [(wy_nextCall s, p, c)]" "map_ok w'"
    using map_set_absent [OF fresh, of "(p, c)"] map_ok_set [OF parts(1), of "wy_nextCall s" "(p, c)"]
    by (simp_all add: w'_def)
  have rest: "waiting_ok ?k (wy_log s @ [Asked c]) ?w"
    using parts(3) point_ok_after by (fastforce simp: waiting_points)
  have small: "list_all (\<lambda>(n, x). n < Suc (wy_nextCall s)) ?w" using parts(2) by (force simp: list_all_iff)
  have log: "receipts_first (wy_log s @ [Asked c])"
    using parts(8) ok(3) by (simp add: receipts_first_snoc split: wt_call.splits)
  have "\<not> owns (wk_revision ?k) (wy_nextCall s, p, c)" using free by (simp add: owns_def)
  then have "wt_inv (s\<lparr>wy_waiting := w', wy_nextCall := Suc (wy_nextCall s), wy_log := wy_log s @ [Asked c]\<rparr>)"
    using parts(4-7) rest small log free(1) ok(1,2) w'(2)
    by (simp add: wt_inv_def Let_def w'(1) waiting_ok_def)
  moreover have "wt_enter (Awaits p c, ?k) s
      = s\<lparr>wy_waiting := w', wy_nextCall := Suc (wy_nextCall s), wy_log := wy_log s @ [Asked c]\<rparr>"
    by (simp add: wt_enter_def w'_def)
  ultimately show ?thesis by simp
qed

text \<open>The pieces that operations are made of.\<close>

lemma update_draft_simps [simp]:
  "wk_revision (update_draft f k) = wk_revision k" "wk_busy (update_draft f k) = wk_busy k"
  "wk_current (update_draft f k) = map_option f (wk_current k)"
  "current_scope (update_draft f k) = map_option (wu_scope \<circ> f) (wk_current k)"
  by (simp_all add: update_draft_def current_scope_def option.map_comp)

lemma scope_simps [simp]:
  "wu_scope (on_scope f d) = f (wu_scope d)" "wp_checkout (on_checkout g sc) = map_option g (wp_checkout sc)"
  "wu_scope (with_error e d) = wu_scope d"
  by (simp_all add: on_scope_def on_checkout_def with_error_def)

lemma scope_ok_checkout: "scope_ok sc \<Longrightarrow> wp_checkout sc' = wp_checkout sc \<Longrightarrow> scope_ok sc'"
  by (simp add: scope_ok_def)

lemma leaves_release:
  "pred_option scope_ok (current_scope k) \<Longrightarrow> (\<And>p c. n \<noteq> Awaits p c) \<Longrightarrow> leaves log (release_busy n k)"
  by (cases n) (auto simp: leaves_def release_busy_def current_scope_def)

lemma leaves_publish:
  assumes "pred_option scope_ok (current_scope k)" "wk_busy k \<longleftrightarrow> is_busy_point p" "wk_current k \<noteq> None"
    "asks p (CallPersist None)" "p \<in> {SendNewPlan, SendRetained} \<Longrightarrow> retained k \<noteq> None"
    "\<And>t. p = SelectPersist t \<Longrightarrow> t \<le> wk_revision k"
  shows "leaves log (publish_at p k)"
  using assms by (cases p) (auto simp: leaves_def publish_at_def Let_def asks_def point_ok_def)

lemma leaves_prepare_failed:
  assumes "pred_option scope_ok (current_scope k)" "wk_busy k" "wk_current k \<noteq> None"
  shows "leaves log (prepare_failed e k)"
proof (cases "base_moved e")
  case True
  obtain d where d: "wk_current k = Some d" using assms(3) by blast
  then show ?thesis using assms True
    by (cases "wp_checkout (wu_scope d)")
      (auto simp: prepare_failed_def leaves_def Let_def asks_def point_ok_def is_busy_point_def current_scope_def
        scope_ok_def choice_ok_def)
next
  case False
  have "leaves log (publish_at (SendFailed e) (update_draft (with_error e) k))"
    using assms by (intro leaves_publish) (auto simp: is_busy_point_def asks_def current_scope_def)
  then show ?thesis using False by (simp add: prepare_failed_def Let_def)
qed

lemma prepare_failed_kept:
  "wk_revision (snd (prepare_failed e k)) = wk_revision k"
  "(wk_current (snd (prepare_failed e k)) = None) = (wk_current k = None)"
  by (simp_all add: prepare_failed_def Let_def publish_at_def)

text \<open>The beginnings, once the draft is editable.\<close>

definition kept_draft :: "wt_controller \<Rightarrow> wt_controller \<Rightarrow> bool" where
  "kept_draft k k' \<longleftrightarrow> wk_revision k' = wk_revision k \<and> (wk_current k' = None \<longleftrightarrow> wk_current k = None)"

lemma kept_publish [simp]: "kept_draft k (snd (publish_at p (update_draft f k)))" "kept_draft k (snd (publish_at p k))"
  by (simp_all add: kept_draft_def publish_at_def)

lemma kept_release [simp]: "kept_draft k (snd (release_busy n k))"
  by (simp add: kept_draft_def release_busy_def)

lemma kept_prepare_failed [simp]: "kept_draft k (snd (prepare_failed e k))"
  by (simp add: kept_draft_def prepare_failed_kept)

lemma kept_busy [simp]: "kept_draft (k\<lparr>wk_busy := b\<rparr>) k' = kept_draft k k'"
  by (simp add: kept_draft_def)

lemma kept_while_busy [simp]:
  "kept_draft k (snd (release_busy n (k\<lparr>wk_busy := b\<rparr>)))" "kept_draft k (snd (publish_at p (k\<lparr>wk_busy := b\<rparr>)))"
  "kept_draft k (snd (publish_at p (update_draft f (k\<lparr>wk_busy := b\<rparr>))))" "kept_draft k (snd (prepare_failed e (k\<lparr>wk_busy := b\<rparr>)))"
  by (simp_all add: kept_draft_def release_busy_def publish_at_def prepare_failed_kept)

lemma kept_refl [simp]: "kept_draft k k"
  by (simp add: kept_draft_def)

lemma pick_begin_leaves:
  assumes "assertEditable k = Inr d" "pred_option scope_ok (current_scope k)"
  shows "leaves log (pick_begin p k) \<and> kept_draft k (snd (pick_begin p k))"
proof -
  have "\<not> wk_busy k" "wk_current k = Some d" using assms(1) by (simp_all add: assertEditable_Inr)
  then show ?thesis using assms
    by (simp add: pick_begin_def Let_def leaves_def asks_def point_ok_def is_busy_point_def current_scope_def kept_draft_def)
qed

lemma edit_leaves:
  assumes "assertEditable k = Inr d" "pred_option scope_ok (current_scope k)"
  shows "leaves log (setNewWorktree v k) \<and> kept_draft k (snd (setNewWorktree v k))"
    and "leaves log (setBase b k) \<and> kept_draft k (snd (setBase b k))"
proof -
  have d: "\<not> wk_busy k" "wk_current k = Some d" using assms(1) by (simp_all add: assertEditable_Inr)
  show "leaves log (setNewWorktree v k) \<and> kept_draft k (snd (setNewWorktree v k))"
  proof (cases "wp_checkout (wu_scope d)")
    case (Some ck)
    show ?thesis unfolding setNewWorktree_def assms(1) sum.case Some option.case
      by (intro conjI leaves_publish kept_publish)
        (simp_all add: d is_busy_point_def asks_def scope_ok_def choice_ok_def)
  qed (use assms d in \<open>simp add: setNewWorktree_def leaves_def Let_def\<close>)
  show "leaves log (setBase b k) \<and> kept_draft k (snd (setBase b k))"
  proof (cases "wp_checkout (wu_scope d)")
    case (Some ck)
    show ?thesis
    proof (cases "truthy_str (ck_planId ck)")
      case False
      show ?thesis unfolding setBase_def assms(1) sum.case Some option.case if_not_P [OF False]
        using assms(2) Some
        by (intro conjI leaves_publish kept_publish)
          (simp_all add: d is_busy_point_def asks_def scope_ok_def choice_ok_def current_scope_def)
    qed (use assms d Some in \<open>simp add: setBase_def leaves_def Let_def\<close>)
  qed (use assms d in \<open>simp add: setBase_def leaves_def Let_def\<close>)
qed

lemma prepare_begin_leaves:
  assumes e: "assertEditable k = Inr d" and ok: "pred_option scope_ok (current_scope k)"
  shows "leaves log (prepare_begin uuid k) \<and> kept_draft k (snd (prepare_begin uuid k))"
proof -
  have d: "\<not> wk_busy k" "wk_current k = Some d" using e by (simp_all add: assertEditable_Inr)
  let ?k = "k\<lparr>wk_busy := True\<rparr>"
  have fail: "leaves log (prepare_failed x ?k) \<and> kept_draft k (snd (prepare_failed x ?k))" for x
    using ok d by (auto intro!: leaves_prepare_failed simp: current_scope_def)
  have plain: "leaves log (Returns v, k) \<and> kept_draft k k" for v
    using ok d by (simp add: leaves_def Let_def)
  show ?thesis
  proof (cases "wu_inspection d")
    case (Some i)
    show ?thesis
    proof (cases "wi_git i")
      case True
      note start = prepare_begin_def e sum.case Let_def Some option.case True simp_thms if_False
      show ?thesis
      proof (cases "wp_checkout (wu_scope d)")
        case None
        then show ?thesis using fail by (simp add: start)
      next
        case (Some ck)
        have "leaves log (publish_at SendRetained ?k) \<and> kept_draft k (snd (publish_at SendRetained ?k))"
          if "ck_planRequest ck \<noteq> None"
          using that ok d Some
          by (auto intro!: leaves_publish simp: current_scope_def is_busy_point_def asks_def retained_def current_choice_def)
        moreover have "leaves log (publish_at SendNewPlan (update_draft (on_scope (on_checkout f)) ?k))
            \<and> kept_draft k (snd (publish_at SendNewPlan (update_draft (on_scope (on_checkout f)) ?k)))"
          if "choice_ok (f ck)" "ck_planRequest (f ck) \<noteq> None" for f
          using that ok d Some
          by (auto intro!: leaves_publish simp: current_scope_def is_busy_point_def asks_def retained_def current_choice_def
              scope_ok_def)
        moreover have "leaves log (Awaits SendValidate (CallValidate a b c x y), ?k) \<and> kept_draft k ?k" for a b c x y
          using ok d by (simp add: leaves_def Let_def asks_def point_ok_def is_busy_point_def current_scope_def kept_draft_def)
        ultimately show ?thesis using fail Some
          by (simp add: start choice_ok_def new_plan_def split: option.split)
      qed
    qed (use plain e Some in \<open>simp add: prepare_begin_def Let_def\<close>)
  qed (use plain e in \<open>simp add: prepare_begin_def Let_def\<close>)
qed

lemma ask_fresh_leaves:
  assumes "wk_busy k" "wk_current k \<noteq> None" "pred_option scope_ok (current_scope k)"
  shows "leaves log (ask_fresh path k) \<and> kept_draft k (snd (ask_fresh path k))"
  using assms
  by (auto simp: ask_fresh_def leaves_def Let_def asks_def point_ok_def is_busy_point_def current_scope_def)

lemma acknowledge_begin_leaves:
  assumes e: "assertEditable k = Inr d" and ok: "pred_option scope_ok (current_scope k)"
  shows "leaves log (acknowledge_begin k) \<and> kept_draft k (snd (acknowledge_begin k))"
proof -
  have d: "\<not> wk_busy k" "wk_current k = Some d" using e by (simp_all add: assertEditable_Inr)
  let ?k = "k\<lparr>wk_busy := True\<rparr>"
  have "leaves log (ask_fresh path ?k) \<and> kept_draft k (snd (ask_fresh path ?k))" for path
    using ask_fresh_leaves [of ?k log path] d ok by (simp add: current_scope_def)
  moreover have "leaves log (release_busy (Throws x) ?k) \<and> kept_draft k (snd (release_busy (Throws x) ?k))" for x
    using ok by (simp add: leaves_release current_scope_def)
  moreover have "leaves log (Awaits AckPlan (CallReadPlan q), ?k) \<and> kept_draft k ?k" for q
    using ok d by (simp add: leaves_def Let_def asks_def point_ok_def is_busy_point_def current_scope_def kept_draft_def)
  ultimately show ?thesis
    using e by (simp add: acknowledge_begin_def Let_def split: option.split)
qed

text \<open>From an answer to the next await, for an operation that owns the draft.\<close>

definition resumes_well :: "wt_effect list \<Rightarrow> wt_controller \<Rightarrow> wt_next \<times> wt_controller \<Rightarrow> bool" where
  "resumes_well log k r \<longleftrightarrow> leaves log r \<and> kept_draft k (snd r)"

lemma busy_pieces:
  assumes "wk_busy k" "wk_current k \<noteq> None" "pred_option scope_ok (current_scope k)"
  shows "resumes_well log k (prepare_failed e k)" "resumes_well log k (ask_fresh path k)"
    "(\<And>p c. n \<noteq> Awaits p c) \<Longrightarrow> resumes_well log k (release_busy n k)"
    "is_busy_point p \<Longrightarrow> asks p (CallPersist None) \<Longrightarrow> p \<notin> {SendNewPlan, SendRetained} \<Longrightarrow> resumes_well log k (publish_at p k)"
    "retained k \<noteq> None \<Longrightarrow> resumes_well log k (publish_at SendRetained k)"
    "is_busy_point p \<Longrightarrow> asks p (CallPersist None) \<Longrightarrow> p \<notin> {SendNewPlan, SendRetained}
       \<Longrightarrow> (\<And>d. scope_ok (wu_scope d) \<Longrightarrow> scope_ok (wu_scope (f d)))
       \<Longrightarrow> resumes_well log k (publish_at p (update_draft f k))"
  using assms ask_fresh_leaves [OF assms, of log path]
  by (auto simp: resumes_well_def leaves_prepare_failed leaves_release asks_def is_busy_point_def current_scope_def
      option.pred_set intro!: leaves_publish)

lemma failed_resumes:
  assumes "wk_busy k \<longleftrightarrow> is_busy_point p" "wk_current k \<noteq> None" "pred_option scope_ok (current_scope k)"
    "is_busy_point p \<or> p = SelectInspect (wk_revision k)"
  shows "resumes_well log k (resume_failed p e k)"
proof (cases "is_busy_point p")
  case True
  then show ?thesis using assms busy_pieces [OF _ assms(2, 3)]
    by (cases p) (simp_all add: resume_failed_def is_busy_point_def)
next
  case False
  then have p: "p = SelectInspect (wk_revision k)" "\<not> wk_busy k" using assms by auto
  have "leaves log (publish_at SelectFailed (update_draft (\<lambda>d. d\<lparr>wu_status := WtFailed, wu_error := Some e\<rparr>) k))"
    using assms(2, 3) p(2) by (intro leaves_publish) (auto simp: is_busy_point_def asks_def current_scope_def)
  then show ?thesis by (simp add: p resume_failed_def select_failed_def resumes_well_def)
qed

lemma scope_ok_acknowledged: "scope_ok sc \<Longrightarrow> scope_ok (acknowledged_scope s sc)"
  by (cases "wp_checkout sc") (auto simp: scope_ok_def acknowledged_scope_def choice_ok_def Let_def)

lemma scope_ok_on_checkout: "scope_ok sc \<Longrightarrow> (\<And>ck. choice_ok ck \<Longrightarrow> choice_ok (f ck)) \<Longrightarrow> scope_ok (on_checkout f sc)"
  by (cases "wp_checkout sc") (auto simp: scope_ok_def on_checkout_def)

lemma scope_ok_picked: "scope_ok (picked_scope s i sc)"
  by (simp add: picked_scope_def scope_ok_def choice_ok_def fresh_choice_def)

lemma scope_ok_inspected: "scope_ok sc \<Longrightarrow> scope_ok (inspected_scope i sc)"
  by (cases "wp_checkout sc") (auto simp: scope_ok_def inspected_scope_def choice_ok_def fresh_choice_def with_base_def Let_def)

lemma answered_resumes:
  assumes busy: "wk_busy k \<longleftrightarrow> is_busy_point p" and d: "wk_current k \<noteq> None"
    and ok: "pred_option scope_ok (current_scope k)"
    and own: "is_busy_point p \<or> p = SelectInspect (wk_revision k)"
    and asks: "asks p c" "answers c a" and at: "point_ok k log p c"
  shows "resumes_well (log @ [Answered c a]) k (resume p a k)"
proof (cases a)
  case (AFails e)
  then show ?thesis using failed_resumes [OF busy d ok own] by (simp add: resume_def)
next
  case (AInspected i)
  show ?thesis
  proof (cases "is_busy_point p")
    case True
    then have "wk_busy k" using busy by simp
    note pieces = busy_pieces [OF this d ok]
    show ?thesis using AInspected True asks
      by (cases c; cases p) (auto simp: answers_def asks_def resume_def resume_inspected_def pick_inspected_def is_busy_point_def
          choice_ok_def intro!: pieces scope_ok_picked scope_ok_on_checkout)
  next
    case False
    then have p: "p = SelectInspect (wk_revision k)" "\<not> wk_busy k" using own busy by auto
    show ?thesis using ok d p(2)
      by (auto simp: AInspected p(1) resume_def resume_inspected_def select_inspected_def resumes_well_def is_busy_point_def
          asks_def current_scope_def scope_ok_inspected intro!: leaves_publish)
  qed
next
  case (ASelected s)
  then have "wk_busy k" using busy asks own by (cases c) (auto simp: answers_def asks_def is_busy_point_def)
  note pieces = busy_pieces [OF this d ok]
  have "resumes_well l k (Awaits (PickInspect s) (CallInspect x), k)" for l x
    using \<open>wk_busy k\<close> d ok by (simp add: resumes_well_def leaves_def Let_def asks_def point_ok_def is_busy_point_def)
  then show ?thesis using ASelected asks
    by (cases c) (auto simp: answers_def asks_def resume_def resume_selected_def acknowledge_fresh_def is_busy_point_def
        intro!: pieces scope_ok_acknowledged)
next
  case (APlanned v)
  then have busyk: "wk_busy k" using busy asks own by (cases c) (auto simp: answers_def asks_def is_busy_point_def)
  note pieces = busy_pieces [OF this d ok]
  show ?thesis
  proof (cases "p = SendPlan")
    case True
    then obtain r where r: "retained k = Some r" "c = CallPlan (Some r)" "plan_backed log r"
      using at by (auto simp: point_ok_def)
    obtain sc where sc: "scope_request sc = Some r"
      "subseq [Answered (CallPersist (Some sc)) ASaved, Asked (CallPlan (Some r))] log"
      using r(3) by (auto simp: plan_backed_def)
    have pid: "Option.bind (current_choice k) ck_planId = Some (pq_planId r)"
      using r(1) ok by (cases "current_scope k")
        (auto simp: retained_def current_choice_def scope_ok_def choice_ok_def bind_eq_Some_conv)
    have "create_backed (log @ [Answered c a]) (Some (pq_planId r))"
      using sc subseq_add [OF sc(2), of "Answered c a"] by (auto simp: create_backed_def r(2) APlanned)
    then show ?thesis using busyk d ok
      by (simp add: True APlanned resume_def resume_planned_def ask_create_def resumes_well_def leaves_def Let_def pid
          asks_def point_ok_def is_busy_point_def)
  next
    case False
    then show ?thesis using APlanned asks
      by (cases c) (auto simp: answers_def asks_def resume_def resume_planned_def intro!: pieces)
  qed
next
  case (ACreated v)
  then have "wk_busy k" using busy asks own by (cases c) (auto simp: answers_def asks_def is_busy_point_def)
  note pieces = busy_pieces [OF this d ok]
  show ?thesis using ACreated asks
    by (cases c) (auto simp: answers_def asks_def resume_def resume_created_def is_busy_point_def choice_ok_def
        intro!: pieces scope_ok_on_checkout)
next
  case ASaved
  then obtain stored where c: "c = CallPersist stored" using asks by (cases c) (auto simp: answers_def)
  then have "wk_busy k" "is_busy_point p" using busy asks own by (auto simp: asks_def)
  note pieces = busy_pieces [OF this(1) d ok]
  have plan: "resumes_well (log @ [Answered c a]) k (ask_plan k)" if at': "p = SendRetained"
  proof -
    obtain sc r where "stored = Some sc" "scope_request sc = Some r" "retained k = Some r"
      using at at' c d
      by (auto simp: point_ok_def retained_def current_choice_def current_scope_def scope_request_def bind_eq_Some_conv)
    moreover have "plan_backed ((log @ [Answered c a]) @ [Asked (CallPlan (Some r))]) r"
      using calculation subseq_after [of "[Answered c a, Asked (CallPlan (Some r))]"]
        subseq_add [of "[Answered c a]" "log @ [Answered c a]"] subseq_add [of "[]" log "Answered c a"]
      by (auto simp: plan_backed_def c ASaved)
    ultimately show ?thesis using \<open>wk_busy k\<close> d ok
      by (simp add: ask_plan_def resumes_well_def leaves_def Let_def asks_def point_ok_def is_busy_point_def retained_def)
  qed
  show ?thesis using ASaved \<open>is_busy_point p\<close> asks c at plan
    by (cases p) (auto simp: asks_def resume_def resume_saved_def is_busy_point_def point_ok_def intro!: pieces)
qed

lemma begin_inv:
  assumes inv: "wt_inv s" and k: "k = wy_controller s"
    and refused: "\<And>e. assertEditable k = Inl e \<Longrightarrow> r = (Throws e, k)"
    and begun: "\<And>d. assertEditable k = Inr d \<Longrightarrow> leaves (wy_log s) r \<and> kept_draft k (snd r)"
  shows "wt_inv (wt_enter r s)"
proof (cases "assertEditable k")
  case (Inl e)
  then show ?thesis using end_inv [OF inv, of r] refused k by auto
next
  case (Inr d)
  have "calm (snd r) (wy_waiting s)"
    using calm_mono [OF calm_begin [OF inv]] begun [OF Inr] Inr k by (auto simp: kept_draft_def)
  then show ?thesis using begun [OF Inr] wt_inv_parts [OF inv] by (intro enter_owner) auto
qed

lemma select_inv:
  assumes inv: "wt_inv s" and ok: "pred_option scope_ok scope"
  shows "wt_inv (wt_enter (select_begin service scope (wy_controller s)) s)"
proof (cases "wk_busy (wy_controller s)")
  case True
  then show ?thesis using end_inv [OF inv, of "(Returns (Truth False), wy_controller s)"] by (simp add: select_begin_def)
next
  case False
  let ?r = "select_begin service scope (wy_controller s)"
  have "wk_revision (snd ?r) = Suc (wk_revision (wy_controller s))"
    using False by (auto simp: select_begin_def Let_def split: option.split)
  then have "calm (snd ?r) (wy_waiting s)" by (rule calm_bump [OF inv False])
  moreover have "leaves (wy_log s) ?r"
    using False ok by (cases scope)
      (auto simp: select_begin_def leaves_def Let_def current_scope_def asks_def point_ok_def is_busy_point_def)
  ultimately show ?thesis using wt_inv_parts [OF inv] by (intro enter_owner) auto
qed

lemma clear_inv:
  assumes inv: "wt_inv s"
  shows "wt_inv (s\<lparr>wy_controller := clear_draft (wy_controller s)\<rparr>)"
proof (cases "wk_busy (wy_controller s)")
  case True
  then show ?thesis using inv by (simp add: clear_draft_def)
next
  case False
  then have "calm (clear_draft (wy_controller s)) (wy_waiting s)"
    by (intro calm_bump [OF inv]) (simp_all add: clear_draft_def)
  note calm = calm_waiting [OF this] calm_no_owner [OF this] calm_no_busy [OF this]
  show ?thesis using calm wt_inv_parts(1,2,8) [OF inv] False
    by (simp add: wt_inv_def Let_def current_scope_def) (simp add: clear_draft_def)
qed

lemma report_same_draft: "same_draft k (reportSendError e k)"
  by (cases "wk_current k") (auto simp: same_draft_def reportSendError_def current_scope_def Let_def)

lemma same_draft_failed: "same_draft k (update_draft (\<lambda>d. d\<lparr>wu_status := WtFailed, wu_error := Some e\<rparr>) k)"
  by (cases "wk_current k") (auto simp: same_draft_def current_scope_def)

lemma answer_inv:
  assumes inv: "wt_inv s" and get: "map_get (wy_waiting s) n = Some (p, c)" and fits: "answers c a"
  shows "wt_inv (wt_do (EvAnswer n a) s)"
proof -
  let ?k = "wy_controller s" and ?w = "map_delete (wy_waiting s) n" and ?l = "wy_log s @ [Answered c a]"
  let ?s = "s\<lparr>wy_waiting := ?w, wy_log := ?l\<rparr>"
  note parts = wt_inv_parts [OF inv]
  have run: "wt_do (EvAnswer n a) s = wt_enter (resume p a ?k) ?s" using get by (simp add: wt_do_def)
  have here: "(n, p, c) \<in> set (wy_waiting s)" using get by (rule map_get_in)
  then have at: "asks p c" "point_ok ?k (wy_log s) p c" using parts(3) by (auto simp: waiting_points)
  have log: "receipts_first ?l" using parts(8) by (simp add: receipts_first_snoc)
  show ?thesis
  proof (cases "owns (wk_revision ?k) (n, p, c)")
    case True
    have busy: "wk_busy ?k \<longleftrightarrow> is_busy_point p"
      using True at(2) here parts(5) by (auto simp: owns_def list_ex_iff point_ok_def is_busy_point_def)
    have "wk_current ?k \<noteq> None"
      using True at(2) parts(6) busy by (auto simp: owns_def point_ok_def)
    then have "resumes_well ?l ?k (resume p a ?k)"
      using True by (intro answered_resumes [OF busy _ parts(7) _ at(1) fits at(2)]) (auto simp: owns_def)
    then have r: "leaves ?l (resume p a ?k)" "kept_draft ?k (snd (resume p a ?k))" by (auto simp: resumes_well_def)
    have "calm (snd (resume p a ?k)) ?w"
      using calm_mono [OF calm_resume [OF inv get True]] r(2) by (auto simp: kept_draft_def)
    moreover have "list_all (\<lambda>(n, x). n < wy_nextCall s) ?w"
      using parts(2) by (auto simp: list_all_iff map_delete_def)
    ultimately show ?thesis unfolding run using parts(1) log r(1) by (intro enter_owner) auto
  next
    case False
    then have free: "\<not> is_busy_point p" by (simp add: owns_def)
    have neutral: "wt_inv (s\<lparr>wy_controller := k', wy_waiting := ?w, wy_log := ?l\<rparr>)" if "same_draft ?k k'" for k'
      using neutral_inv [OF inv that, of ?w "[Answered c a]"] get free log by blast
    have stay: "wt_inv (wt_enter (r, ?k) ?s)" if "\<And>p c. r \<noteq> Awaits p c" for r
      using end_inv [OF neutral [of ?k], of "(r, ?k)"] that by simp
    have failed: "wt_inv (wt_enter (publish_at SelectFailed
        (update_draft (\<lambda>d. d\<lparr>wu_status := WtFailed, wu_error := Some e\<rparr>) ?k)) ?s)" for e
      using enter_free [OF neutral [OF same_draft_failed], of SelectFailed "CallPersist (current_scope
          (update_draft (\<lambda>d. d\<lparr>wu_status := WtFailed, wu_error := Some e\<rparr>) ?k))" e]
      by (simp add: publish_at_def wt_enter_def is_busy_point_def asks_def point_ok_def)
    have sel: "wt_inv (wt_enter (select_failed t e ?k) ?s)" for t e
      using stay failed by (simp add: select_failed_def)
    consider (insp) t where "p = SelectInspect t" "t \<noteq> wk_revision ?k" | (pers) t where "p = SelectPersist t"
      | (rest) "p = SelectFailed \<or> p = EditPersist"
      using free False by (cases p) (auto simp: is_busy_point_def owns_def)
    then show ?thesis
    proof cases
      case insp
      then show ?thesis unfolding run using at(1) fits stay
        by (cases a; cases c) (auto simp: answers_def asks_def resume_def resume_failed_def resume_inspected_def
            select_failed_def select_inspected_def)
    next
      case pers
      then show ?thesis unfolding run using at(1) fits stay sel
        by (cases a; cases c) (auto simp: answers_def asks_def resume_def resume_failed_def resume_saved_def)
    next
      case rest
      then show ?thesis unfolding run using at(1) fits stay
        by (cases a; cases c) (auto simp: answers_def asks_def resume_def resume_failed_def resume_saved_def)
    qed
  qed
qed

lemma wt_do_inv:
  assumes inv: "wt_inv s" and legal: "wt_legal ev s"
  shows "wt_inv (wt_do ev s)"
proof (cases ev)
  case (EvSelect service scope)
  then show ?thesis using select_inv [OF inv] legal by (simp add: wt_do_def wt_legal_def)
next
  case (EvPick path)
  have "wt_inv (wt_enter (pick_begin path (wy_controller s)) s)"
    using pick_begin_leaves wt_inv_parts(7) [OF inv] by (intro begin_inv [OF inv refl]) (auto simp: pick_begin_def)
  then show ?thesis by (simp add: EvPick wt_do_def)
next
  case (EvNewWorktree v)
  have "wt_inv (wt_enter (setNewWorktree v (wy_controller s)) s)"
    using edit_leaves(1) wt_inv_parts(7) [OF inv] by (intro begin_inv [OF inv refl]) (auto simp: setNewWorktree_def)
  then show ?thesis by (simp add: EvNewWorktree wt_do_def)
next
  case (EvBase b)
  have "wt_inv (wt_enter (setBase b (wy_controller s)) s)"
    using edit_leaves(2) wt_inv_parts(7) [OF inv] by (intro begin_inv [OF inv refl]) (auto simp: setBase_def)
  then show ?thesis by (simp add: EvBase wt_do_def)
next
  case (EvSend uuid)
  have "wt_inv (wt_enter (prepare_begin uuid (wy_controller s)) s)"
    using prepare_begin_leaves wt_inv_parts(7) [OF inv] by (intro begin_inv [OF inv refl]) (auto simp: prepare_begin_def)
  then show ?thesis by (simp add: EvSend wt_do_def)
next
  case EvAcknowledge
  have "wt_inv (wt_enter (acknowledge_begin (wy_controller s)) s)"
    using acknowledge_begin_leaves wt_inv_parts(7) [OF inv]
    by (intro begin_inv [OF inv refl]) (auto simp: acknowledge_begin_def)
  then show ?thesis by (simp add: EvAcknowledge wt_do_def)
next
  case (EvReport e)
  have "wt_inv (s\<lparr>wy_controller := reportSendError e (wy_controller s), wy_waiting := wy_waiting s, wy_log := wy_log s @ []\<rparr>)"
    using neutral_inv [OF inv report_same_draft, of "wy_waiting s" "[]" e] wt_inv_parts(8) [OF inv] by simp
  then show ?thesis by (simp add: EvReport wt_do_def)
next
  case EvClear
  then show ?thesis using clear_inv [OF inv] by (simp add: wt_do_def)
next
  case (EvAnswer n a)
  then show ?thesis using legal answer_inv [OF inv] by (auto simp: wt_legal_def split: option.splits)
qed

lemma wt_reaches_inv: "wt_reaches s \<Longrightarrow> wt_inv s"
proof (induction rule: wt_reaches.induct)
  case wt_reach_start
  then show ?case
    by (simp add: wt_start_def createWorktreeController_def wt_inv_def Let_def waiting_ok_def receipts_first_def
        current_scope_def)
next
  case (wt_reach_step s ev s')
  then show ?case using wt_do_inv by (auto elim: wt_stepE)
qed

section \<open>One operation at a time\<close>

lemma enter_controller [simp]: "wy_controller (wt_enter r s) = snd r"
  by (cases "fst r") (simp_all add: wt_enter_def)

lemma busy_begin:
  assumes "wk_busy k"
  shows "snd (select_begin service scope k) = k" "snd (pick_begin path k) = k" "snd (setNewWorktree v k) = k"
    "snd (setBase b k) = k" "snd (prepare_begin uuid k) = k" "snd (acknowledge_begin k) = k" "clear_draft k = k"
proof -
  obtain e where "assertEditable k = Inl e" using assms by (simp add: assertEditable_def)
  then show "snd (select_begin service scope k) = k" "snd (pick_begin path k) = k" "snd (setNewWorktree v k) = k"
    "snd (setBase b k) = k" "snd (prepare_begin uuid k) = k" "snd (acknowledge_begin k) = k" "clear_draft k = k"
    using assms by (simp_all add: select_begin_def pick_begin_def setNewWorktree_def setBase_def prepare_begin_def
        acknowledge_begin_def clear_draft_def)
qed

lemma idle_point_scope:
  assumes "\<not> is_busy_point p" "asks p c" "answers c a" "\<And>t. p = SelectInspect t \<Longrightarrow> t \<noteq> wk_revision k"
  shows "current_scope (snd (resume p a k)) = current_scope k"
  using assms
  by (cases p; cases a; cases c) (auto simp: answers_def asks_def is_busy_point_def resume_def resume_failed_def
      resume_inspected_def resume_saved_def select_failed_def select_inspected_def publish_at_def current_scope_def
      option.map_comp comp_def)

text \<open>C25. While the controller is busy, exactly one operation holds it, and only the answers to that operation
  change the scope it works on: a selection, a clear, an edit, a second operation or a late answer to an earlier
  selection never replaces the scope under it.\<close>

theorem one_operation_owns_scope:
  assumes "wt_reaches s" "wk_busy (wy_controller s)" "wt_step s ev s'"
  shows "\<exists>n p c. map_get (wy_waiting s) n = Some (p, c) \<and> is_busy_point p
    \<and> filter (\<lambda>(m, q, d). is_busy_point q) (wy_waiting s) = [(n, p, c)]
    \<and> (current_scope (wy_controller s') = current_scope (wy_controller s) \<or> (\<exists>a. ev = EvAnswer n a))"
proof -
  let ?k = "wy_controller s" and ?busy = "\<lambda>(m, q, d). is_busy_point q"
  have inv: "wt_inv s" using assms(1) by (rule wt_reaches_inv)
  obtain n p c where here: "(n, p, c) \<in> set (wy_waiting s)" "is_busy_point p"
    using assms(2) wt_inv_parts(5) [OF inv] by (auto simp: list_ex_iff)
  have get: "map_get (wy_waiting s) n = Some (p, c)"
    using here(1) map_get_iff_in [OF wt_inv_parts(1) [OF inv]] by blast
  have "filter ?busy (filter (owns (wk_revision ?k)) (wy_waiting s)) = filter ?busy (wy_waiting s)"
    by (auto simp: owns_def intro!: filter_cong)
  moreover have "(n, p, c) \<in> set (filter (owns (wk_revision ?k)) (wy_waiting s))" using here by (simp add: owns_def)
  ultimately have one: "filter ?busy (wy_waiting s) = [(n, p, c)]"
    using wt_inv_parts(4) [OF inv] here by (cases "filter (owns (wk_revision ?k)) (wy_waiting s)") auto
  have "current_scope (wy_controller s') = current_scope ?k \<or> (\<exists>a. ev = EvAnswer n a)"
  proof (cases ev)
    case (EvAnswer m a)
    have legal: "wt_legal ev s" "s' = wt_do ev s" using assms(3) by (auto elim: wt_stepE)
    then obtain q d where q: "map_get (wy_waiting s) m = Some (q, d)" "answers d a"
      by (auto simp: wt_legal_def EvAnswer split: option.splits)
    then have at: "asks q d" "point_ok ?k (wy_log s) q d"
      using map_get_in [OF q(1)] wt_inv_parts(3) [OF inv] by (auto simp: waiting_points)
    show ?thesis
    proof (cases "is_busy_point q")
      case True
      then have "(m, q, d) \<in> set (filter ?busy (wy_waiting s))" using map_get_in [OF q(1)] by simp
      then show ?thesis using one EvAnswer by simp
    next
      case False
      then have "current_scope (snd (resume q a ?k)) = current_scope ?k"
        using at q(2) assms(2) by (intro idle_point_scope) (auto simp: point_ok_def)
      then show ?thesis using q legal(2) EvAnswer by (simp add: wt_do_def)
    qed
  next
    case (EvReport e)
    then show ?thesis using assms(3) report_same_draft [of ?k e] by (auto elim!: wt_stepE simp: wt_do_def same_draft_def)
  qed (use assms(3) busy_begin [OF assms(2)] in \<open>auto elim!: wt_stepE simp: wt_do_def\<close>)
  then show ?thesis using get here(2) one by blast
qed

section \<open>Receipts\<close>

text \<open>C23. In every run, a worktree is created only for a plan that was granted, under the id of that plan; the plan was
  asked for only after the scope that holds this very request had been stored. So a reply that is lost after the
  creation finds the same receipt on the next send.\<close>

theorem receipt_before_creation:
  assumes "wt_reaches s" "wy_log s = before @ Asked (CallCreate pid ack) # after"
  shows "\<exists>sc r v. scope_request sc = Some r \<and> pid = Some (pq_planId r)
    \<and> subseq [Answered (CallPersist (Some sc)) ASaved, Asked (CallPlan (Some r)),
              Answered (CallPlan (Some r)) (APlanned v)] before"
  using wt_inv_parts(8) [OF wt_reaches_inv [OF assms(1)]] assms(2)
  unfolding receipts_first_def create_backed_def by blast

lemma choice_simps [simp]:
  "current_choice (update_draft f k) = Option.bind (wk_current k) (\<lambda>d. wp_checkout (wu_scope (f d)))"
  "current_choice (k\<lparr>wk_busy := b\<rparr>) = current_choice k"
  "current_choice (snd (publish_at p k)) = current_choice k" "current_choice (snd (release_busy n k)) = current_choice k"
  "current_choice (snd (ask_fresh path k)) = current_choice k"
  by (simp_all add: current_choice_def current_scope_def publish_at_def release_busy_def ask_fresh_def bind_map_option comp_def
      split: option.split)

lemma choice_current: "current_choice k = Option.bind (wk_current k) (\<lambda>d. wp_checkout (wu_scope d))"
  by (simp add: current_choice_def current_scope_def bind_map_option comp_def)

lemma choice_prepare_failed:
  "current_choice (snd (prepare_failed e k)) =
     (if base_moved e then map_option (\<lambda>ck. ck\<lparr>ck_planId := None, ck_planRequest := None\<rparr>) (current_choice k)
      else current_choice k)"
  by (cases "wk_current k") (auto simp: prepare_failed_def Let_def choice_current publish_at_def)

lemma choice_select_failed: "current_choice (snd (select_failed t e k)) = current_choice k"
  by (simp add: select_failed_def) (simp add: choice_current)

lemma choice_resume_failed:
  "current_choice (snd (resume_failed p e k)) = current_choice k \<or>
     (base_moved e \<and> current_choice (snd (resume_failed p e k)) =
        map_option (\<lambda>ck. ck\<lparr>ck_planId := None, ck_planRequest := None\<rparr>) (current_choice k))"
  by (cases p) (simp_all add: resume_failed_def choice_select_failed choice_prepare_failed)

text \<open>Where the choice of a checkout changes, and how.\<close>

definition edited_choice :: "wt_event \<Rightarrow> wt_system \<Rightarrow> checkout_choice \<Rightarrow> checkout_choice option \<Rightarrow> bool" where
  "edited_choice ev s ck ck' \<longleftrightarrow> (case ev of
       EvSelect _ _ \<Rightarrow> True
     | EvClear \<Rightarrow> True
     | EvPick _ \<Rightarrow> False
     | EvReport _ \<Rightarrow> False
     | EvAcknowledge \<Rightarrow> False
     | EvNewWorktree v \<Rightarrow> ck' = Some (ck\<lparr>ck_newWorktree := v, ck_planId := None, ck_created := VUndef, ck_planRequest := None\<rparr>)
     | EvBase b \<Rightarrow> ck' = Some (ck\<lparr>ck_base := b\<rparr>)
     | EvSend u \<Rightarrow> ck_planRequest ck = None \<and> (\<exists>r. ck' = Some (ck\<lparr>ck_planId := Some u, ck_planRequest := Some r\<rparr>))
     | EvAnswer n a \<Rightarrow> (\<exists>p c. map_get (wy_waiting s) n = Some (p, c) \<and>
         ((\<exists>x i. p = PickInspect x \<and> a = AInspected i)
          \<or> (\<exists>t i. p = SelectInspect t \<and> a = AInspected i \<and> (wi_git i \<longrightarrow> ck' = Some (with_base i ck)))
          \<or> (\<exists>x. p = AckValidate \<and> a = ASelected x \<and> (\<exists>ack. ck' = Some (ck\<lparr>ck_branch := wd_branch x,
                ck_commit := wd_commit x, ck_acknowledgedState := ack\<rparr>)))
          \<or> (\<exists>e i. p = SendReinspect e \<and> a = AInspected i \<and> ck' = Some (ck\<lparr>ck_base := VNull\<rparr>))
          \<or> (\<exists>v. p = SendCreate \<and> a = ACreated v \<and> ck' = Some (ck\<lparr>ck_created := v\<rparr>))
          \<or> (\<exists>e. a = AFails e \<and> base_moved e \<and> ck' = Some (ck\<lparr>ck_planId := None, ck_planRequest := None\<rparr>)))))"

lemma choice_current_Some:
  "current_choice k = Some ck \<longleftrightarrow> (\<exists>d. wk_current k = Some d \<and> wp_checkout (wu_scope d) = Some ck)"
  by (simp add: choice_current bind_eq_Some_conv)

lemma choice_begin:
  assumes "current_choice k = Some ck"
  shows "current_choice (snd (pick_begin path k)) = Some ck" "current_choice (snd (acknowledge_begin k)) = Some ck"
    "current_choice (reportSendError e k) = Some ck"
    "current_choice (snd (setNewWorktree v k)) \<in> {Some ck,
       Some (ck\<lparr>ck_newWorktree := v, ck_planId := None, ck_created := VUndef, ck_planRequest := None\<rparr>)}"
    "current_choice (snd (setBase b k)) \<in> {Some ck, Some (ck\<lparr>ck_base := b\<rparr>)}"
proof -
  obtain d where d: "wk_current k = Some d" "wp_checkout (wu_scope d) = Some ck"
    using assms by (auto simp: choice_current_Some)
  have x: "x = d" if "assertEditable k = Inr x" for x using that d by (simp add: assertEditable_Inr)
  show "current_choice (snd (pick_begin path k)) = Some ck"
    using assms by (simp add: pick_begin_def Let_def split: sum.split)
  show "current_choice (snd (acknowledge_begin k)) = Some ck"
    using assms by (auto simp: acknowledge_begin_def Let_def split: sum.split option.split)
  show "current_choice (reportSendError e k) = Some ck"
    using d by (simp add: reportSendError_def Let_def)
  show "current_choice (snd (setNewWorktree v k)) \<in> {Some ck,
       Some (ck\<lparr>ck_newWorktree := v, ck_planId := None, ck_created := VUndef, ck_planRequest := None\<rparr>)}"
    using assms d x by (auto simp: setNewWorktree_def split: sum.split)
  show "current_choice (snd (setBase b k)) \<in> {Some ck, Some (ck\<lparr>ck_base := b\<rparr>)}"
    using assms d x by (auto simp: setBase_def split: sum.split)
qed

lemma choice_prepare_begin:
  assumes "current_choice k = Some ck"
  shows "current_choice (snd (prepare_begin u k)) = Some ck \<or> (ck_planRequest ck = None
    \<and> (\<exists>r. current_choice (snd (prepare_begin u k)) = Some (ck\<lparr>ck_planId := Some u, ck_planRequest := Some r\<rparr>)))"
proof (cases "assertEditable k")
  case (Inr d)
  then have d: "wk_current k = Some d" "wp_checkout (wu_scope d) = Some ck"
    using assms by (auto simp: assertEditable_Inr choice_current_Some)
  have "\<not> base_moved (wt_message m)" for m by (simp add: base_moved_def wt_message_def)
  then show ?thesis
    using assms d by (auto simp: prepare_begin_def Inr Let_def choice_prepare_failed split: option.split)
qed (use assms in \<open>simp add: prepare_begin_def\<close>)

lemma choice_step:
  assumes step: "wt_step s ev s'" and ck: "current_choice (wy_controller s) = Some ck"
    and changed: "current_choice (wy_controller s') \<noteq> Some ck"
  shows "edited_choice ev s ck (current_choice (wy_controller s'))"
proof -
  let ?k = "wy_controller s"
  obtain d where d: "wk_current ?k = Some d" "wp_checkout (wu_scope d) = Some ck"
    using ck by (auto simp: choice_current_Some)
  have s': "s' = wt_do ev s" "wt_legal ev s" using step by (auto elim: wt_stepE)
  show ?thesis
  proof (cases ev)
    case (EvAnswer n a)
    then obtain p c where at: "map_get (wy_waiting s) n = Some (p, c)"
      using s'(2) by (auto simp: wt_legal_def split: option.splits)
    then have now: "current_choice (wy_controller s') = current_choice (snd (resume p a ?k))"
      using s'(1) EvAnswer by (simp add: wt_do_def)
    note change = changed [unfolded now]
    show ?thesis
    proof (cases a)
      case (AFails e)
      then show ?thesis using choice_resume_failed [of p e ?k] change ck at
        by (simp add: edited_choice_def EvAnswer now resume_def)
    next
      case (AInspected i)
      consider x where "p = PickInspect x" | "p = SelectInspect (wk_revision ?k)" | e where "p = SendReinspect e"
        using change ck by (cases p) (auto simp: AInspected resume_def resume_inspected_def select_inspected_def split: if_splits)
      then show ?thesis using at d
        by cases (auto simp: edited_choice_def EvAnswer now AInspected resume_def resume_inspected_def
            select_inspected_def inspected_scope_def Let_def on_scope_def on_checkout_def)
    next
      case (ASelected x)
      then have "p = AckValidate" using change ck by (cases p) (auto simp: resume_def resume_selected_def)
      moreover have "acknowledged_scope x (wu_scope d) = (wu_scope d)\<lparr>wp_checkout := wp_checkout (acknowledged_scope x (wu_scope d)),
          wp_branch := wp_branch (acknowledged_scope x (wu_scope d))\<rparr>"
        using d(2) by (auto simp: acknowledged_scope_def Let_def)
      moreover have "\<exists>ack. wp_checkout (acknowledged_scope x (wu_scope d)) = Some (ck\<lparr>ck_branch := wd_branch x,
          ck_commit := wd_commit x, ck_acknowledgedState := ack\<rparr>)"
        using d(2) by (cases ck) (auto simp: acknowledged_scope_def Let_def)
      ultimately show ?thesis using at d
        by (simp add: edited_choice_def EvAnswer now ASelected resume_def resume_selected_def acknowledge_fresh_def)
    next
      case (APlanned v)
      then show ?thesis using change ck
        by (cases p) (auto simp: resume_def resume_planned_def ask_create_def split: if_splits)
    next
      case (ACreated v)
      then have "p = SendCreate" using change ck by (cases p) (auto simp: resume_def resume_created_def)
      then show ?thesis using at d
        by (simp add: edited_choice_def EvAnswer now ACreated resume_def resume_created_def)
    next
      case ASaved
      then show ?thesis using change ck
        by (cases p) (auto simp: resume_def resume_saved_def ask_plan_def)
    qed
  next
    case (EvSend u)
    then show ?thesis using s'(1) changed choice_prepare_begin [OF ck, of u] by (simp add: wt_do_def edited_choice_def)
  qed (use s'(1) changed choice_begin [OF ck] in \<open>auto simp: wt_do_def edited_choice_def\<close>)
qed

text \<open>C24. Once a send has a receipt, no step loses or alters it, except that the user selects, picks or clears
  another checkout or turns the new worktree off, that the folder turns out to be no repository, or that the service
  reports that the chosen base moved or is gone. So no failure of the plan, of the creation, of the storage or of the
  validation loses it, and the next send asks for the same plan again.\<close>

theorem receipt_survives_failures:
  assumes "wt_step s ev s'" "retained (wy_controller s) = Some r" "retained (wy_controller s') \<noteq> Some r"
  shows "case ev of
      EvSelect _ _ \<Rightarrow> True
    | EvClear \<Rightarrow> True
    | EvNewWorktree _ \<Rightarrow> True
    | EvAnswer n a \<Rightarrow> (\<exists>p c. map_get (wy_waiting s) n = Some (p, c) \<and>
        ((\<exists>x i. p = PickInspect x \<and> a = AInspected i) \<or> (\<exists>t i. p = SelectInspect t \<and> a = AInspected i \<and> \<not> wi_git i)
          \<or> (\<exists>e. a = AFails e \<and> base_moved e)))
    | _ \<Rightarrow> False"
proof -
  obtain ck where ck: "current_choice (wy_controller s) = Some ck" "ck_planRequest ck = Some r"
    using assms(2) by (auto simp: retained_def bind_eq_Some_conv)
  then have "current_choice (wy_controller s') \<noteq> Some ck" using assms(3) by (auto simp: retained_def)
  from choice_step [OF assms(1) ck(1) this] show ?thesis
    using assms(3) ck(2) by (cases ev) (auto simp: edited_choice_def retained_def with_base_def split: if_splits)
qed

text \<open>C26. The branch and the commit that a checkout was chosen at are what the next send is validated against. They
  change only when the user selects, picks or clears a checkout or acknowledges the change (and when the folder is
  no repository any more): no inspection, failure, edit or send refreshes them silently.\<close>

theorem expectation_never_refreshed:
  assumes "wt_step s ev s'" "current_choice (wy_controller s) = Some ck"
    "current_choice (wy_controller s') = None \<or>
       (\<exists>ck'. current_choice (wy_controller s') = Some ck' \<and> (ck_branch ck', ck_commit ck') \<noteq> (ck_branch ck, ck_commit ck))"
  shows "case ev of
      EvSelect _ _ \<Rightarrow> True
    | EvClear \<Rightarrow> True
    | EvAnswer n a \<Rightarrow> (\<exists>p c. map_get (wy_waiting s) n = Some (p, c) \<and>
        ((\<exists>x i. p = PickInspect x \<and> a = AInspected i) \<or> (\<exists>t i. p = SelectInspect t \<and> a = AInspected i \<and> \<not> wi_git i)
          \<or> (\<exists>x. p = AckValidate \<and> a = ASelected x)))
    | _ \<Rightarrow> False"
proof -
  have "current_choice (wy_controller s') \<noteq> Some ck" using assms(3) by auto
  from choice_step [OF assms(1, 2) this] show ?thesis
    using assms(3) by (cases ev) (auto simp: edited_choice_def with_base_def split: if_splits)
qed

section \<open>Threads that share a checkout\<close>

text \<open>A thread as far as \<open>checkoutSharingThreads\<close> reads it: \<open>checkoutContext?.checkoutRoot\<close> and \<open>workingDirectory\<close>.\<close>

record wt_thread =
  wx_id :: jsval
  wx_contextRoot :: jv
  wx_workingDirectory :: jv

definition normalized_path :: "jv \<Rightarrow> string" where
  "normalized_path v =
     (let s = map (\<lambda>c. if c = CHR 0x5C then CHR ''/'' else c) (jv_string (jv_or v (VStr [])))
      in if s \<noteq> [] \<and> last s = CHR ''/'' then butlast s else s)"

definition shares_checkout :: "string \<Rightarrow> wt_thread \<Rightarrow> bool" where
  "shares_checkout root t =
     (if jv_truthy (wx_contextRoot t) then normalized_path (wx_contextRoot t) = root
      else let cwd = normalized_path (wx_workingDirectory t) in cwd = root \<or> prefix (root @ ''/'') cwd)"

definition checkoutSharingThreads :: "wt_thread list \<Rightarrow> wt_scope option \<Rightarrow> wt_thread list" where
  "checkoutSharingThreads threads scope = (case scope of
       None \<Rightarrow> []
     | Some sc \<Rightarrow>
         if \<not> jv_truthy (wp_checkoutRoot sc) \<or> map_option ck_newWorktree (wp_checkout sc) = Some True then []
         else filter (shares_checkout (normalized_path (wp_checkoutRoot sc))) threads)"

definition path_parts :: "jv \<Rightarrow> string list" where
  "path_parts v = js_split ''/'' (normalized_path v)"

lemma split_slash:
  "js_split [c] [] = [[]]"
  "js_split [c] (x # xs) =
     (if x = c then [] # js_split [c] xs else (x # hd (js_split [c] xs)) # tl (js_split [c] xs))"
proof -
  show "js_split [c] [] = [[]]" by (subst js_split_step) simp
  show "js_split [c] (x # xs) =
     (if x = c then [] # js_split [c] xs else (x # hd (js_split [c] xs)) # tl (js_split [c] xs))"
    using js_split_not_Nil [of "[c]" xs] by (subst js_split_step) (auto split: list.splits)
qed

lemma prefix_split: "prefix (js_split [c] a) (js_split [c] b) \<longleftrightarrow> a = b \<or> prefix (a @ [c]) b"
proof (induction a arbitrary: b)
  case Nil
  show ?case using js_split_not_Nil [of "[c]"] by (cases b) (auto simp: split_slash)
next
  case (Cons x xs)
  show ?case
  proof (cases b)
    case Nil
    then show ?thesis using js_split_not_Nil [of "[c]" xs] by (auto simp: split_slash)
  next
    case (Cons y ys)
    have "prefix ((hd (js_split [c] xs)) # tl (js_split [c] xs)) (hd (js_split [c] ys) # tl (js_split [c] ys))
        \<longleftrightarrow> xs = ys \<or> prefix (xs @ [c]) ys"
      using Cons.IH [of ys] by (simp add: js_split_not_Nil)
    then show ?thesis using Cons.IH [of ys] by (auto simp: Cons split_slash)
  qed
qed

lemma split_inject: "js_split [c] a = js_split [c] b \<longleftrightarrow> a = b"
  using prefix_split [of c a b] prefix_split [of c b a] by (auto simp: prefix_def)

text \<open>The threads that share the checkout of a scope are those whose recorded checkout has the same components
  as its root, or, without a record, whose working directory lies at or below it, component by component (so a
  folder whose name only starts like the root's does not count); a scope without a root and one that creates its own
  worktree share with nobody.\<close>

theorem sharing_is_by_path_components:
  "checkoutSharingThreads threads (Some sc) =
     (if jv_truthy (wp_checkoutRoot sc) \<and> map_option ck_newWorktree (wp_checkout sc) \<noteq> Some True
      then filter (\<lambda>t. if jv_truthy (wx_contextRoot t) then path_parts (wx_contextRoot t) = path_parts (wp_checkoutRoot sc)
                       else prefix (path_parts (wp_checkoutRoot sc)) (path_parts (wx_workingDirectory t))) threads
      else [])"
proof -
  have "shares_checkout (normalized_path (wp_checkoutRoot sc)) =
      (\<lambda>t. if jv_truthy (wx_contextRoot t) then path_parts (wx_contextRoot t) = path_parts (wp_checkoutRoot sc)
           else prefix (path_parts (wp_checkoutRoot sc)) (path_parts (wx_workingDirectory t)))"
    by (auto simp: fun_eq_iff shares_checkout_def path_parts_def split_inject prefix_split Let_def)
  then show ?thesis by (cases "wp_checkout sc") (auto simp: checkoutSharingThreads_def)
qed

section \<open>Witnesses\<close>

primrec wt_legal_run :: "wt_event list \<Rightarrow> wt_system \<Rightarrow> bool" where
  "wt_legal_run [] s = True"
| "wt_legal_run (ev # evs) s = (wt_legal ev s \<and> wt_legal_run evs (wt_do ev s))"

lemma legal_run_reaches: "wt_reaches s \<Longrightarrow> wt_legal_run evs s \<Longrightarrow> wt_reaches (fold wt_do evs s)"
proof (induction evs arbitrary: s)
  case (Cons ev evs)
  then show ?case by (auto intro: wt_reach_step wt_step.intros)
qed simp

definition demo_scope_wt :: wt_scope where
  "demo_scope_wt = \<lparr>wp_path = VStr ''/p'', wp_git = False, wp_branch = VUndef, wp_repositoryId = VUndef,
     wp_repositoryRoot = VUndef, wp_relativePath = VUndef, wp_checkoutRoot = VUndef, wp_checkout = None,
     wp_creationRequestId = VUndef\<rparr>"

definition demo_inspection :: wt_inspection where
  "demo_inspection = \<lparr>wi_git = True, wi_branch = VStr ''main'', wi_commit = VStr ''c1'', wi_repositoryId = VStr ''r'',
     wi_repositoryRoot = VStr ''/p'', wi_relativePath = VStr [], wi_checkoutRoot = VStr ''/p'',
     wi_defaultBase = VStr ''main'', wi_bases = [\<lparr>wb_ref = VStr ''main'', wb_name = VStr ''main'', wb_commit = VStr ''c1''\<rparr>]\<rparr>"

text \<open>A scope is selected, the new worktree turned on, a send begun, its receipt stored and its plan granted.\<close>

definition demo_wt_events :: "wt_event list" where
  "demo_wt_events =
     [EvSelect True (Some demo_scope_wt), EvAnswer 0 (AInspected demo_inspection), EvAnswer 1 ASaved, EvNewWorktree True,
      EvAnswer 2 ASaved, EvSend ''id'', EvAnswer 3 ASaved, EvAnswer 4 ASaved, EvAnswer 5 (APlanned VNull)]"

definition demo_wt_system :: wt_system where
  "demo_wt_system = fold wt_do demo_wt_events wt_start"

lemmas demo_wt_defs = demo_wt_events_def demo_scope_wt_def demo_inspection_def wt_do_def wt_enter_def select_begin_def
  select_inspected_def inspected_scope_def fresh_choice_def with_base_def default_base_def jv_nullish_def setNewWorktree_def
  assertEditable_def publish_at_def update_draft_def on_scope_def on_checkout_def prepare_begin_def chosen_base_def
  new_plan_def jv_or_def resume_def resume_inspected_def resume_saved_def resume_planned_def ask_plan_def ask_create_def
  wt_start_def createWorktreeController_def current_scope_def current_choice_def map_get_def map_delete_def

lemma demo_wt_legal: "wt_legal_run demo_wt_events wt_start"
  by (simp add: demo_wt_defs wt_legal_def answers_def scope_ok_def jv_truthy_def Let_def)

lemma demo_wt_reaches: "wt_reaches demo_wt_system"
  unfolding demo_wt_system_def using demo_wt_legal by (intro legal_run_reaches wt_reach_start)

lemma demo_wt_controller:
  "wk_busy (wy_controller demo_wt_system)" "wk_revision (wy_controller demo_wt_system) = 1"
  "map_option ck_planId (current_choice (wy_controller demo_wt_system)) = Some (Some ''id'')"
  "map_option ck_branch (current_choice (wy_controller demo_wt_system)) = Some (VStr ''main'')"
  "map_option pq_planId (retained (wy_controller demo_wt_system)) = Some ''id''"
  by (simp_all add: demo_wt_system_def demo_wt_defs jv_truthy_def Let_def retained_def)

lemma demo_wt_waiting:
  "wy_waiting demo_wt_system = [(6, SendCreate, CallCreate (Some ''id'') None)]"
  by (simp add: demo_wt_system_def demo_wt_defs jv_truthy_def Let_def)

lemma demo_wt_log:
  "wy_log demo_wt_system = butlast (wy_log demo_wt_system) @ [Asked (CallCreate (Some ''id'') None)]"
  by (simp add: demo_wt_system_def demo_wt_defs jv_truthy_def Let_def)

theorem one_operation_owns_scope_witness:
  "wk_busy (wy_controller demo_wt_system) \<and>
   filter (\<lambda>(m, q, d). is_busy_point q) (wy_waiting demo_wt_system) = [(6, SendCreate, CallCreate (Some ''id'') None)] \<and>
   current_scope (wy_controller (wt_do EvClear demo_wt_system)) = current_scope (wy_controller demo_wt_system)"
  using one_operation_owns_scope [OF demo_wt_reaches demo_wt_controller(1) wt_step.intros [of EvClear]]
    demo_wt_controller(1) demo_wt_waiting
  by (auto simp: wt_legal_def is_busy_point_def)

theorem receipt_before_creation_witness:
  "\<exists>sc r v. scope_request sc = Some r \<and> pq_planId r = ''id''
    \<and> subseq [Answered (CallPersist (Some sc)) ASaved, Asked (CallPlan (Some r)),
              Answered (CallPlan (Some r)) (APlanned v)] (butlast (wy_log demo_wt_system))"
  using receipt_before_creation [OF demo_wt_reaches demo_wt_log] by (metis option.inject)

text \<open>A creation refused because the base moved: the one failure that drops the receipt.\<close>

definition demo_moved :: wt_error where
  "demo_moved = \<lparr>we_code = Some ''base-changed'', we_message = [], we_details = VUndef\<rparr>"

lemma demo_moved_step: "wt_step demo_wt_system (EvAnswer 6 (AFails demo_moved)) (wt_do (EvAnswer 6 (AFails demo_moved)) demo_wt_system)"
  by (rule wt_step.intros) (simp add: wt_legal_def demo_wt_waiting answers_def map_get_def)

lemma demo_moved_retained:
  "retained (wy_controller (wt_do (EvAnswer 6 (AFails demo_moved)) demo_wt_system)) = None"
proof -
  obtain ck where ck: "current_choice (wy_controller demo_wt_system) = Some ck"
    using demo_wt_controller(3) by auto
  have "base_moved demo_moved" by (simp add: base_moved_def demo_moved_def)
  then show ?thesis using ck
    by (simp add: wt_do_def demo_wt_waiting map_get_def resume_def resume_failed_def choice_prepare_failed retained_def Let_def)
qed

theorem receipt_survives_failures_witness:
  "\<exists>r. retained (wy_controller demo_wt_system) = Some r \<and> pq_planId r = ''id'' \<and> base_moved demo_moved"
proof -
  obtain r where r: "retained (wy_controller demo_wt_system) = Some r" "pq_planId r = ''id''"
    using demo_wt_controller(5) by auto
  show ?thesis using receipt_survives_failures [OF demo_moved_step r(1)] r by (auto simp: demo_moved_retained)
qed

text \<open>Clearing after a selection drops the expectation.\<close>

definition demo_wt_selected :: wt_system where
  "demo_wt_selected = fold wt_do (take 2 demo_wt_events) wt_start"

theorem expectation_never_refreshed_witness:
  "map_option ck_branch (current_choice (wy_controller demo_wt_selected)) = Some (VStr ''main'') \<and>
   current_choice (wy_controller (wt_do (EvSelect False None) demo_wt_selected)) = None"
proof -
  have "map_option ck_branch (current_choice (wy_controller demo_wt_selected)) = Some (VStr ''main'')"
    and none: "current_choice (wy_controller (wt_do (EvSelect False None) demo_wt_selected)) = None"
    by (simp_all add: demo_wt_selected_def demo_wt_defs jv_truthy_def Let_def)
  then obtain ck where "current_choice (wy_controller demo_wt_selected) = Some ck" "ck_branch ck = VStr ''main''" by auto
  then show ?thesis
    using expectation_never_refreshed [OF wt_step.intros [of "EvSelect False None" demo_wt_selected]] none
    by (simp add: wt_legal_def)
qed

end
