(* ===== verification/GraphLayout.thy ===== *)
theory GraphLayout
  imports Complex_Main JsCollections
begin

text \<open>
  Where the nodes of a layer stand (\<open>desktop/renderer/src/product-workspace/graph-layout.js\<close>): the layout the
  response's author accepted or a grid for layers without one, its projection to the world, and the spreading
  that keeps node boxes apart. Coordinates are rational numbers; the rounding of floating point numbers is not
  modelled. A coordinate that is not finite is \<open>None\<close>.

  The lemmas: an accepted layout is refused unless it places every node exactly once inside the unit square,
  two nodes that stand at different points never overlap after the spreading, the grid gives different
  nodes different points, and the signature of a layout does not depend on the order of its parts.
\<close>

section \<open>Layers\<close>

definition GRAPH_WORLD_WIDTH :: rat where
  "GRAPH_WORLD_WIDTH = 960"

definition GRAPH_WORLD_HEIGHT :: rat where
  "GRAPH_WORLD_HEIGHT = 640"

definition GRAPH_WORLD_PADDING :: rat where
  "GRAPH_WORLD_PADDING = 32"

record point =
  pt_x :: rat
  pt_y :: rat

record box_bounds =
  bb_halfWidth :: rat
  bb_top :: rat
  bb_bottom :: rat

record layout_node =
  ln_id :: jsval
  ln_bounds :: "box_bounds option"

record placement =
  pl_nodeId :: jsval
  pl_x :: "rat option"
  pl_y :: "rat option"

text \<open>\<open>la_placements\<close> is \<open>None\<close> when the field is no array.\<close>

record accepted_layout =
  la_version :: jsval
  la_placements :: "placement list option"

record layout_layer =
  ll_id :: jsval
  ll_layout :: "accepted_layout option"

definition compareNodeIds :: "jsval \<Rightarrow> jsval \<Rightarrow> int" where
  "compareNodeIds left right = str_cmp (js_String left) (js_String right)"

definition node_key :: "layout_node \<Rightarrow> string" where
  "node_key n = js_String (ln_id n)"

section \<open>Placements\<close>

text \<open>\<open>Math.ceil(Math.sqrt(n))\<close>: the first number whose square reaches \<open>n\<close>.\<close>

definition ceil_sqrt :: "nat \<Rightarrow> nat" where
  "ceil_sqrt n = hd (filter (\<lambda>c. n \<le> c * c) [0..<Suc n])"

definition ceil_div :: "nat \<Rightarrow> nat \<Rightarrow> nat" where
  "ceil_div n d = (n + d - 1) div d"

definition grid_point :: "nat \<Rightarrow> nat \<Rightarrow> point" where
  "grid_point n i =
     (let columns = ceil_sqrt n;
          rows = ceil_div n columns;
          row = i div columns;
          rowStart = row * columns;
          rowLength = min columns (n - rowStart);
          column = i - rowStart in
      \<lparr>pt_x = of_nat (column + 1) / of_nat (rowLength + 1), pt_y = of_nat (row + 1) / of_nat (rows + 1)\<rparr>)"

definition normalizedLegacyPlacements :: "layout_node list \<Rightarrow> (string, point) jsmap" where
  "normalizedLegacyPlacements nodes =
     (let ordered = js_sort (\<lambda>l r. compareNodeIds (ln_id l) (ln_id r)) nodes in
      if length ordered = 1 then [(node_key (hd ordered), \<lparr>pt_x = 1 / 2, pt_y = 1 / 2\<rparr>)]
      else map_from (map (\<lambda>(i, n). (node_key n, grid_point (length ordered) i)) (enumerate 0 ordered)))"

definition unsupported_layout :: "jsval \<Rightarrow> js_error" where
  "unsupported_layout version = Error (''Unsupported accepted graph layout version: '' @ js_String version)"

definition incomplete_layout :: js_error where
  "incomplete_layout = Error ''Accepted graph layout does not contain exactly one placement for every visible node.''"

definition invalid_coordinate :: js_error where
  "invalid_coordinate = Error ''Accepted graph layout contains an invalid normalized coordinate.''"

definition unit_coordinate :: "rat option \<Rightarrow> bool" where
  "unit_coordinate v = (case v of None \<Rightarrow> False | Some x \<Rightarrow> 0 \<le> x \<and> x \<le> 1)"

definition placement_map :: "placement list \<Rightarrow> (string, rat option \<times> rat option) jsmap" where
  "placement_map ps = map_from (map (\<lambda>p. (js_String (pl_nodeId p), (pl_x p, pl_y p))) ps)"

definition number_point :: "rat option \<times> rat option \<Rightarrow> point" where
  "number_point v = \<lparr>pt_x = (case fst v of None \<Rightarrow> 0 | Some x \<Rightarrow> x), pt_y = (case snd v of None \<Rightarrow> 0 | Some y \<Rightarrow> y)\<rparr>"

text \<open>\<open>Inr None\<close> is a layer without a layout.\<close>

definition authoredPlacements ::
  "layout_layer option \<Rightarrow> layout_node list \<Rightarrow> (string, point) jsmap option result" where
  "authoredPlacements layer nodes =
     (case Option.bind layer ll_layout of
        None \<Rightarrow> Inr None
      | Some layout \<Rightarrow>
          (case la_placements layout of
             None \<Rightarrow> Inl (unsupported_layout (la_version layout))
           | Some ps \<Rightarrow>
               let placements = placement_map ps in
               bind_r (guard_r (la_version layout = JNum 1) (unsupported_layout (la_version layout))) (\<lambda>_.
               bind_r (guard_r (length ps = length nodes \<and> length placements = length nodes
                    \<and> list_all (\<lambda>n. map_has placements (node_key n)) nodes) incomplete_layout) (\<lambda>_.
               bind_r (guard_r (list_all (\<lambda>(x, y). unit_coordinate x \<and> unit_coordinate y) (map_values placements))
                    invalid_coordinate) (\<lambda>_.
               Inr (Some (map (\<lambda>(k, v). (k, number_point v)) placements)))))))"

section \<open>The world\<close>

definition no_bounds :: box_bounds where
  "no_bounds = \<lparr>bb_halfWidth = 0, bb_top = 0, bb_bottom = 0\<rparr>"

definition bounds_of :: "layout_node \<Rightarrow> box_bounds" where
  "bounds_of n = (case ln_bounds n of None \<Rightarrow> no_bounds | Some b \<Rightarrow> b)"

record padding =
  pd_horizontal :: rat
  pd_top :: rat
  pd_bottom :: rat

definition pad_node :: "layout_node \<Rightarrow> padding \<Rightarrow> padding" where
  "pad_node n p =
     \<lparr>pd_horizontal = max (pd_horizontal p) (bb_halfWidth (bounds_of n) + GRAPH_WORLD_PADDING),
      pd_top = max (pd_top p) (bb_top (bounds_of n) + GRAPH_WORLD_PADDING),
      pd_bottom = max (pd_bottom p) (bb_bottom (bounds_of n) + GRAPH_WORLD_PADDING)\<rparr>"

definition worldPadding :: "layout_node list \<Rightarrow> padding" where
  "worldPadding nodes =
     fold pad_node nodes \<lparr>pd_horizontal = GRAPH_WORLD_PADDING, pd_top = GRAPH_WORLD_PADDING, pd_bottom = GRAPH_WORLD_PADDING\<rparr>"

definition NODE_GAP :: point where
  "NODE_GAP = \<lparr>pt_x = 24, pt_y = 16\<rparr>"

record layout_box =
  lb_point :: point
  lb_bounds :: box_bounds

record box_pair =
  bp_dx :: rat
  bp_dy :: rat
  bp_needX :: rat
  bp_needY :: rat

definition layout_boxes :: "(string, point) jsmap \<Rightarrow> layout_node list \<Rightarrow> layout_box list" where
  "layout_boxes positions nodes =
     List.map_filter (\<lambda>n. map_option (\<lambda>p. \<lparr>lb_point = p, lb_bounds = bounds_of n\<rparr>) (map_get positions (node_key n))) nodes"

definition box_pair_of :: "layout_box \<Rightarrow> layout_box \<Rightarrow> box_pair" where
  "box_pair_of a b =
     (let (upper, lower) = (if pt_y (lb_point a) \<le> pt_y (lb_point b) then (a, b) else (b, a)) in
      \<lparr>bp_dx = \<bar>pt_x (lb_point a) - pt_x (lb_point b)\<bar>,
       bp_dy = pt_y (lb_point lower) - pt_y (lb_point upper),
       bp_needX = bb_halfWidth (lb_bounds a) + bb_halfWidth (lb_bounds b) + pt_x NODE_GAP,
       bp_needY = bb_bottom (lb_bounds upper) + bb_top (lb_bounds lower) + pt_y NODE_GAP\<rparr>)"

fun box_pairs :: "layout_box list \<Rightarrow> box_pair list" where
  "box_pairs [] = []"
| "box_pairs (a # bs) = map (box_pair_of a) bs @ box_pairs bs"

definition scale_x :: "box_pair list \<Rightarrow> rat" where
  "scale_x pairs =
     fold (\<lambda>p s. if bp_dy p < bp_needY p \<and> bp_dx p > 0 then max s (bp_needX p / bp_dx p) else s) pairs 1"

definition scale_y :: "rat \<Rightarrow> box_pair list \<Rightarrow> rat" where
  "scale_y sx pairs =
     fold (\<lambda>p s. if bp_dx p * sx < bp_needX p \<and> bp_dy p > 0 then max s (bp_needY p / bp_dy p) else s) pairs 1"

definition box_centre :: "layout_box list \<Rightarrow> point" where
  "box_centre boxes =
     \<lparr>pt_x = sum_list (map (\<lambda>b. pt_x (lb_point b)) boxes) / of_nat (length boxes),
      pt_y = sum_list (map (\<lambda>b. pt_y (lb_point b)) boxes) / of_nat (length boxes)\<rparr>"

definition spread_point :: "point \<Rightarrow> rat \<Rightarrow> rat \<Rightarrow> point \<Rightarrow> point" where
  "spread_point centre sx sy p =
     \<lparr>pt_x = pt_x centre + (pt_x p - pt_x centre) * sx, pt_y = pt_y centre + (pt_y p - pt_y centre) * sy\<rparr>"

text \<open>The scaling about the centre, or \<open>None\<close> when no boxes overlap.\<close>

definition nodeBoxSpread :: "(string, point) jsmap \<Rightarrow> layout_node list \<Rightarrow> (point \<Rightarrow> point) option" where
  "nodeBoxSpread positions nodes =
     (let boxes = layout_boxes positions nodes;
          pairs = box_pairs boxes;
          sx = scale_x pairs;
          sy = scale_y sx pairs in
      if sx = 1 \<and> sy = 1 then None else Some (spread_point (box_centre boxes) sx sy))"

definition spread_all :: "(point \<Rightarrow> point) option \<Rightarrow> (string, point) jsmap \<Rightarrow> (string, point) jsmap" where
  "spread_all spread positions =
     (case spread of None \<Rightarrow> positions | Some f \<Rightarrow> map (\<lambda>(k, p). (k, f p)) positions)"

definition separateNodeBoxes :: "(string, point) jsmap \<Rightarrow> layout_node list \<Rightarrow> (string, point) jsmap" where
  "separateNodeBoxes positions nodes = spread_all (nodeBoxSpread positions nodes) positions"

definition toWorld :: "padding \<Rightarrow> point \<Rightarrow> point" where
  "toWorld pad p =
     (let usableWidth = max 1 (GRAPH_WORLD_WIDTH - pd_horizontal pad * 2);
          usableHeight = max 1 (GRAPH_WORLD_HEIGHT - pd_top pad - pd_bottom pad) in
      \<lparr>pt_x = pd_horizontal pad + pt_x p * usableWidth, pt_y = pd_top pad + pt_y p * usableHeight\<rparr>)"

datatype layout_source = Authored | Legacy

record layout_projection =
  lp_source :: layout_source
  lp_positions :: "(string, point) jsmap"
  lp_project :: "point \<Rightarrow> point"

definition projectLayerNodePositions :: "layout_layer option \<Rightarrow> layout_node list \<Rightarrow> layout_projection result" where
  "projectLayerNodePositions layer nodes =
     (if nodes = []
      then Inr \<lparr>lp_source = (if Option.bind layer ll_layout = None then Legacy else Authored), lp_positions = [], lp_project = id\<rparr>
      else
        bind_r (authoredPlacements layer nodes) (\<lambda>authored.
          let normalized = (case authored of None \<Rightarrow> normalizedLegacyPlacements nodes | Some m \<Rightarrow> m);
              pad = worldPadding nodes;
              positions = map (\<lambda>(k, p). (k, toWorld pad p)) normalized;
              spread = nodeBoxSpread positions nodes in
          Inr \<lparr>lp_source = (case authored of None \<Rightarrow> Legacy | Some _ \<Rightarrow> Authored),
               lp_positions = spread_all spread positions,
               lp_project = (\<lambda>p. case spread of None \<Rightarrow> toWorld pad p | Some f \<Rightarrow> f (toWorld pad p))\<rparr>))"

section \<open>Signature and reading order\<close>

record layout_edge =
  le_endpoints :: "jsval list option"
  le_source :: jsval
  le_target :: jsval

fun join_colon :: "string list \<Rightarrow> string" where
  "join_colon [] = ''''"
| "join_colon [s] = s"
| "join_colon (s # t # ss) = s @ '':'' @ join_colon (t # ss)"

definition edge_ends :: "layout_edge \<Rightarrow> string list" where
  "edge_ends e =
     js_sort str_cmp (map js_String (case le_endpoints e of Some es \<Rightarrow> es | None \<Rightarrow> [le_source e, le_target e]))"

text \<open>\<open>JSON.stringify\<close> of the signature is the record of its fields.\<close>

record layout_signature =
  sg_layerId :: jsval
  sg_nodes :: "string list"
  sg_edges :: "string list list"
  sg_layout :: "(jsval \<times> (string \<times> rat option \<times> rat option) list) option"

definition signature_placements :: "placement list \<Rightarrow> (string \<times> rat option \<times> rat option) list" where
  "signature_placements ps =
     js_sort (\<lambda>l r. str_cmp (fst l) (fst r)) (map (\<lambda>p. (js_String (pl_nodeId p), pl_x p, pl_y p)) ps)"

text \<open>A layout whose placements are no array cannot be spread; the code throws there.\<close>

definition graphLayoutSignature ::
  "layout_layer option \<Rightarrow> layout_node list \<Rightarrow> layout_edge list \<Rightarrow> layout_signature result" where
  "graphLayoutSignature layer nodes edges =
     bind_r (case Option.bind layer ll_layout of
               None \<Rightarrow> Inr None
             | Some l \<Rightarrow>
                 (case la_placements l of
                    None \<Rightarrow> Inl (TypeError ''layout.placements is not iterable'')
                  | Some ps \<Rightarrow> Inr (Some (la_version l, signature_placements ps)))) (\<lambda>layout.
       Inr \<lparr>sg_layerId = (case layer of None \<Rightarrow> JNull | Some l \<Rightarrow> nullish_or (ll_id l) JNull),
            sg_nodes = js_sort str_cmp (map node_key nodes),
            sg_edges = js_sort (\<lambda>l r. str_cmp (join_colon l) (join_colon r)) (map edge_ends edges),
            sg_layout = layout\<rparr>)"

definition reading_rank :: "placement list \<Rightarrow> layout_node \<Rightarrow> int" where
  "reading_rank ps n =
     (case map_get (map_from (map (\<lambda>(i, p). (js_String (pl_nodeId p), i)) (enumerate 0 ps))) (node_key n) of
        Some i \<Rightarrow> int i
      | None \<Rightarrow> int (length ps))"

definition nodesInReadingOrder :: "layout_layer option \<Rightarrow> layout_node list \<Rightarrow> layout_node list" where
  "nodesInReadingOrder layer nodes =
     (case Option.bind (Option.bind layer ll_layout) la_placements of
        None \<Rightarrow> nodes
      | Some ps \<Rightarrow> js_sort (\<lambda>l r. reading_rank ps l - reading_rank ps r) nodes)"

section \<open>Spreading keeps boxes apart\<close>

text \<open>Two boxes are apart: side by side with the horizontal gap, or one below the other with the vertical one.\<close>

definition apart :: "box_bounds \<Rightarrow> point \<Rightarrow> box_bounds \<Rightarrow> point \<Rightarrow> bool" where
  "apart b p c q \<longleftrightarrow>
     bb_halfWidth b + bb_halfWidth c + 24 \<le> \<bar>pt_x p - pt_x q\<bar>
     \<or> pt_y p + bb_bottom b + 16 \<le> pt_y q - bb_top c
     \<or> pt_y q + bb_bottom c + 16 \<le> pt_y p - bb_top b"

lemma apart_sym: "apart b p c q \<longleftrightarrow> apart c q b p"
  by (auto simp: apart_def abs_minus_commute add.commute)

lemma fold_max_scale:
  fixes s :: rat
  shows "s \<le> fold (\<lambda>p s. if P p then max s (f p) else s) ps s"
    and "p \<in> set ps \<Longrightarrow> P p \<Longrightarrow> f p \<le> fold (\<lambda>p s. if P p then max s (f p) else s) ps s"
proof -
  show mono: "s \<le> fold (\<lambda>p s. if P p then max s (f p) else s) ps s" for s
  proof (induction ps arbitrary: s)
    case (Cons q ps)
    have "s \<le> (if P q then max s (f q) else s)" by simp
    also have "\<dots> \<le> fold (\<lambda>p s. if P p then max s (f p) else s) ps (if P q then max s (f q) else s)" by (rule Cons.IH)
    finally show ?case by simp
  qed simp
  have grow: "f p \<le> t \<Longrightarrow> f p \<le> fold (\<lambda>p s. if P p then max s (f p) else s) qs t" for t qs
  proof (induction qs arbitrary: t)
    case (Cons q qs)
    then have "f p \<le> (if P q then max t (f q) else t)" by (auto simp: le_max_iff_disj)
    from Cons.IH [OF this] show ?case by simp
  qed simp
  show "p \<in> set ps \<Longrightarrow> P p \<Longrightarrow> f p \<le> fold (\<lambda>p s. if P p then max s (f p) else s) ps s"
  proof (induction ps arbitrary: s)
    case (Cons q ps)
    show ?case
    proof (cases "p = q")
      case True
      with Cons.prems grow [of "max s (f q)" ps] show ?thesis by simp
    next
      case False
      with Cons.prems Cons.IH show ?thesis by simp
    qed
  qed simp
qed

lemma box_pairs_all: "x \<in> set bs \<Longrightarrow> y \<in> set bs \<Longrightarrow> x \<noteq> y \<Longrightarrow> box_pair_of x y \<in> set (box_pairs bs) \<or> box_pair_of y x \<in> set (box_pairs bs)"
  by (induction bs) auto

lemma scale_x_ge:
  "1 \<le> scale_x ps"
  "p \<in> set ps \<Longrightarrow> bp_dy p < bp_needY p \<Longrightarrow> 0 < bp_dx p \<Longrightarrow> bp_needX p / bp_dx p \<le> scale_x ps"
  using fold_max_scale [where P = "\<lambda>p. bp_dy p < bp_needY p \<and> bp_dx p > 0" and f = "\<lambda>p. bp_needX p / bp_dx p" and s = 1 and ps = ps]
  by (simp_all add: scale_x_def)

lemma scale_y_ge:
  "1 \<le> scale_y sx ps"
  "p \<in> set ps \<Longrightarrow> bp_dx p * sx < bp_needX p \<Longrightarrow> 0 < bp_dy p \<Longrightarrow> bp_needY p / bp_dy p \<le> scale_y sx ps"
  using fold_max_scale [where P = "\<lambda>p. bp_dx p * sx < bp_needX p \<and> bp_dy p > 0" and f = "\<lambda>p. bp_needY p / bp_dy p" and s = 1 and ps = ps]
  by (simp_all add: scale_y_def)

lemma spread_apart:
  assumes p: "box_pair_of x y \<in> set pairs" and ne: "lb_point x \<noteq> lb_point y"
    and sx: "sx = scale_x pairs" and sy: "sy = scale_y sx pairs"
  shows "apart (lb_bounds x) (spread_point c sx sy (lb_point x)) (lb_bounds y) (spread_point c sx sy (lb_point y))"
proof -
  let ?p = "box_pair_of x y"
  let ?dx = "pt_x (lb_point x) - pt_x (lb_point y)" and ?dy = "pt_y (lb_point x) - pt_y (lb_point y)"
  note sx1 = scale_x_ge(1) [of pairs, folded sx] and sx2 = scale_x_ge(2) [OF p, folded sx]
  note sy1 = scale_y_ge(1) [of sx pairs, folded sy] and sy2 = scale_y_ge(2) [OF p, of sx, folded sy]
  have dx: "bp_dx ?p = \<bar>?dx\<bar>" "bp_needX ?p = bb_halfWidth (lb_bounds x) + bb_halfWidth (lb_bounds y) + 24"
    by (simp_all add: box_pair_of_def NODE_GAP_def split: prod.splits)
  have dy: "bp_dy ?p = \<bar>?dy\<bar>"
    "bp_needY ?p = (if pt_y (lb_point x) \<le> pt_y (lb_point y) then bb_bottom (lb_bounds x) + bb_top (lb_bounds y) + 16
       else bb_bottom (lb_bounds y) + bb_top (lb_bounds x) + 16)"
    by (auto simp: box_pair_of_def NODE_GAP_def)
  have ne': "?dx \<noteq> 0 \<or> ?dy \<noteq> 0" using ne by auto
  have grow: "\<bar>d\<bar> \<le> \<bar>d\<bar> * s" if "1 \<le> s" for d s :: rat using that mult_left_mono [of 1 s "\<bar>d\<bar>"] by simp
  have "bp_needX ?p \<le> bp_dx ?p * sx \<or> bp_needY ?p \<le> bp_dy ?p * sy"
  proof (cases "bp_needY ?p \<le> bp_dy ?p")
    case True
    with grow [OF sy1, of ?dy] dy show ?thesis by (auto intro: order_trans)
  next
    case False
    show ?thesis
    proof (cases "?dx = 0")
      case True
      with ne' dy have "0 < bp_dy ?p" by simp
      with sy2 show ?thesis by (cases "bp_dx ?p * sx < bp_needX ?p") (auto simp: divide_le_eq mult.commute)
    next
      case neq: False
      with dx have "0 < bp_dx ?p" by simp
      with sx2 False show ?thesis by (simp add: divide_le_eq mult.commute)
    qed
  qed
  moreover have "\<bar>pt_x (spread_point c sx sy (lb_point x)) - pt_x (spread_point c sx sy (lb_point y))\<bar> = bp_dx ?p * sx"
    using sx1 by (simp add: dx spread_point_def left_diff_distrib [symmetric] abs_mult)
  moreover have "pt_y (spread_point c sx sy (lb_point x)) - pt_y (spread_point c sx sy (lb_point y)) = ?dy * sy"
    by (simp add: spread_point_def left_diff_distrib)
  moreover have "\<bar>?dy\<bar> * sy = (if pt_y (lb_point x) \<le> pt_y (lb_point y) then - (?dy * sy) else ?dy * sy)"
    by (simp add: abs_if algebra_simps)
  ultimately show ?thesis
    unfolding apart_def dx(2) dy by (cases "pt_y (lb_point x) \<le> pt_y (lb_point y)") (simp_all, linarith+)
qed

lemma spread_one [simp]: "spread_point c 1 1 p = p"
  by (simp add: spread_point_def)

text \<open>The positions after the spreading, as one scaling, which is the identity when nothing overlaps.\<close>

definition scaled :: "(string, point) jsmap \<Rightarrow> layout_node list \<Rightarrow> point \<Rightarrow> point" where
  "scaled positions nodes =
     (let boxes = layout_boxes positions nodes; sx = scale_x (box_pairs boxes) in
      spread_point (box_centre boxes) sx (scale_y sx (box_pairs boxes)))"

lemma map_get_map: "map_get (map (\<lambda>(k, v). (k, f v)) m) k = map_option f (map_get m k)"
  by (simp add: map_get_def map_of_map)

lemma spread_all_get:
  "map_get (spread_all (nodeBoxSpread positions nodes) positions) k = map_option (scaled positions nodes) (map_get positions k)"
  by (cases "map_get positions k")
    (auto simp: nodeBoxSpread_def spread_all_def scaled_def Let_def map_get_map)

lemma layout_boxes_in:
  "n \<in> set nodes \<Longrightarrow> map_get positions (node_key n) = Some p \<Longrightarrow> \<lparr>lb_point = p, lb_bounds = bounds_of n\<rparr> \<in> set (layout_boxes positions nodes)"
  by (force simp: layout_boxes_def List.map_filter_def)

lemma scaled_apart:
  assumes "a \<in> set nodes" "b \<in> set nodes" "map_get positions (node_key a) = Some p" "map_get positions (node_key b) = Some q" "p \<noteq> q"
  shows "apart (bounds_of a) (scaled positions nodes p) (bounds_of b) (scaled positions nodes q)"
proof -
  let ?x = "\<lparr>lb_point = p, lb_bounds = bounds_of a\<rparr>" and ?y = "\<lparr>lb_point = q, lb_bounds = bounds_of b\<rparr>"
  let ?bs = "layout_boxes positions nodes"
  have "?x \<in> set ?bs" "?y \<in> set ?bs" by (rule layout_boxes_in; fact)+
  then consider "box_pair_of ?x ?y \<in> set (box_pairs ?bs)" | "box_pair_of ?y ?x \<in> set (box_pairs ?bs)"
    using box_pairs_all [of ?x ?bs ?y] assms(5) by auto
  then show ?thesis
  proof cases
    case 1
    from spread_apart [OF this _ refl refl, of "box_centre ?bs"] assms(5) show ?thesis by (simp add: scaled_def Let_def)
  next
    case 2
    from spread_apart [OF this _ refl refl, of "box_centre ?bs"] assms(5) show ?thesis
      by (simp add: scaled_def Let_def apart_sym)
  qed
qed

section \<open>The grid\<close>

lemma ceil_sqrt_square: "n \<le> ceil_sqrt n * ceil_sqrt n"
proof -
  have "n \<in> set (filter (\<lambda>c. n \<le> c * c) [0..<Suc n])" by (cases n) auto
  then have "hd (filter (\<lambda>c. n \<le> c * c) [0..<Suc n]) \<in> set (filter (\<lambda>c. n \<le> c * c) [0..<Suc n])"
    by (intro hd_in_set) (metis empty_iff empty_set)
  then show ?thesis by (simp add: ceil_sqrt_def del: upt_Suc)
qed

lemma grid_point_inj:
  assumes "i < n" "j < n" "grid_point n i = grid_point n j"
  shows "i = j"
proof -
  let ?c = "ceil_sqrt n"
  have c: "0 < ?c" using ceil_sqrt_square [of n] assms(1) by (cases "?c") auto
  have frac: "of_nat (Suc a) / of_nat (Suc d) = (of_nat (Suc b) / of_nat (Suc d) :: rat) \<longleftrightarrow> a = b" for a b d
    by (simp add: divide_eq_eq del: of_nat_Suc)
  have row: "i div ?c = j div ?c"
    using assms(3) frac [of "i div ?c" "ceil_div n ?c" "j div ?c"] by (simp add: grid_point_def Let_def del: of_nat_Suc)
  have "i - i div ?c * ?c = j - i div ?c * ?c"
    using assms(3) row frac [of "i - i div ?c * ?c" "min ?c (n - i div ?c * ?c)" "j - i div ?c * ?c"]
    by (simp add: grid_point_def Let_def del: of_nat_Suc)
  then have "i mod ?c = j mod ?c" using row by (simp add: minus_div_mult_eq_mod [symmetric])
  with row show ?thesis by (metis div_mult_mod_eq)
qed

lemma enumerate_in: "(k, v) \<in> set (map (\<lambda>(i, n). (f n, g i)) (enumerate 0 xs)) \<Longrightarrow> \<exists>i < length xs. k = f (xs ! i) \<and> v = g i"
  by (auto simp: in_set_enumerate_eq)

lemma legacy_get:
  assumes "n \<in> set nodes" "1 < length nodes"
  shows "\<exists>i < length nodes. map_get (normalizedLegacyPlacements nodes) (node_key n) = Some (grid_point (length nodes) i)
    \<and> node_key (js_sort (\<lambda>l r. compareNodeIds (ln_id l) (ln_id r)) nodes ! i) = node_key n"
proof -
  let ?s = "js_sort (\<lambda>l r. compareNodeIds (ln_id l) (ln_id r)) nodes"
  let ?es = "map (\<lambda>(i, n). (node_key n, grid_point (length nodes) i)) (enumerate 0 ?s)"
  have m: "normalizedLegacyPlacements nodes = map_from ?es" using assms(2) by (simp add: normalizedLegacyPlacements_def Let_def)
  have "n \<in> set ?s" using assms(1) by simp
  then obtain i where "i < length ?s" "?s ! i = n" by (metis in_set_conv_nth)
  then have "(i, n) \<in> set (enumerate 0 ?s)" by (auto simp: in_set_enumerate_eq)
  then have "node_key n \<in> fst ` set ?es" by force
  then obtain v where v: "map_get (map_from ?es) (node_key n) = Some v"
    using map_has_from [of ?es "node_key n"] by (simp only: map_has_iff) auto
  from enumerate_in [OF map_get_from_in [OF v]] v m show ?thesis by auto
qed

lemma legacy_distinct:
  assumes "a \<in> set nodes" "b \<in> set nodes" "node_key a \<noteq> node_key b"
  obtains p q where "map_get (normalizedLegacyPlacements nodes) (node_key a) = Some p"
    "map_get (normalizedLegacyPlacements nodes) (node_key b) = Some q" "p \<noteq> q"
proof -
  have "1 < length nodes"
  proof (rule ccontr)
    assume "\<not> 1 < length nodes"
    with assms(1,2) have "a = b" by (cases nodes) auto
    with assms(3) show False by simp
  qed
  note g = legacy_get [OF assms(1) this] legacy_get [OF assms(2) this]
  from g assms(3) that show thesis by (metis grid_point_inj)
qed

lemma toWorld_inj: "toWorld pad p = toWorld pad q \<longleftrightarrow> p = q"
proof -
  have "max 1 a \<noteq> 0" for a :: rat by (simp add: max_def)
  then show ?thesis by (auto simp: toWorld_def Let_def)
qed

lemma scaled_inj: "scaled positions nodes p = scaled positions nodes q \<longleftrightarrow> p = q"
proof -
  have "sx \<noteq> 0 \<Longrightarrow> sy \<noteq> 0 \<Longrightarrow> spread_point c sx sy p = spread_point c sx sy q \<longleftrightarrow> p = q" for c sx sy
    by (auto simp: spread_point_def)
  moreover have "scale_x ps \<noteq> 0" "scale_y sx ps \<noteq> 0" for ps sx using scale_x_ge(1) [of ps] scale_y_ge(1) [of sx ps] by linarith+
  ultimately show ?thesis by (simp add: scaled_def Let_def)
qed

lemma authored_get:
  assumes "authoredPlacements layer nodes = Inr (Some m)" "n \<in> set nodes"
  shows "\<exists>p. map_get m (node_key n) = Some p"
proof -
  obtain l ps where l: "Option.bind layer ll_layout = Some l" "la_placements l = Some ps"
    using assms(1) by (auto simp: authoredPlacements_def split: option.splits)
  with assms(1) have m: "m = map (\<lambda>(k, v). (k, number_point v)) (placement_map ps)"
    and all: "list_all (\<lambda>n. map_has (placement_map ps) (node_key n)) nodes"
    by (auto simp: authoredPlacements_def Let_def bind_r_Inr_iff)
  from all assms(2) have "map_has (placement_map ps) (node_key n)" by (simp add: list_all_iff)
  then show ?thesis by (auto simp: m map_get_map map_has_iff)
qed

text \<open>C16. Node boxes never overlap: in every projection of a layer each node has a position, and the boxes of
  two nodes are apart by the gaps of 24 and 16 in one direction, in the fallback grid always, and in an
  authored layout whenever the author did not place both nodes on the very same point.\<close>

theorem node_boxes_never_overlap:
  assumes "projectLayerNodePositions layer nodes = Inr p" "a \<in> set nodes" "b \<in> set nodes" "node_key a \<noteq> node_key b"
  shows "\<exists>u v. map_get (lp_positions p) (node_key a) = Some u \<and> map_get (lp_positions p) (node_key b) = Some v
    \<and> (lp_source p = Legacy \<or> u \<noteq> v \<longrightarrow> apart (bounds_of a) u (bounds_of b) v)"
proof -
  have ne: "nodes \<noteq> []" using assms(2) by auto
  obtain authored where au: "authoredPlacements layer nodes = Inr authored"
    using assms(1) ne by (auto simp: projectLayerNodePositions_def bind_r_Inr_iff)
  let ?n = "case authored of None \<Rightarrow> normalizedLegacyPlacements nodes | Some m \<Rightarrow> m"
  let ?pos = "map (\<lambda>(k, p). (k, toWorld (worldPadding nodes) p)) ?n"
  have src: "lp_source p = Legacy \<longleftrightarrow> authored = None"
    and pos: "lp_positions p = spread_all (nodeBoxSpread ?pos nodes) ?pos"
    using assms(1) ne au by (cases authored; auto simp: projectLayerNodePositions_def Let_def)+
  obtain u v where uv: "map_get ?n (node_key a) = Some u" "map_get ?n (node_key b) = Some v" "authored = None \<Longrightarrow> u \<noteq> v"
  proof (cases authored)
    case None
    obtain u v where "map_get (normalizedLegacyPlacements nodes) (node_key a) = Some u"
      "map_get (normalizedLegacyPlacements nodes) (node_key b) = Some v" "u \<noteq> v"
      using legacy_distinct [OF assms(2-4)] by blast
    with None show thesis by (intro that [of u v]) simp_all
  next
    case (Some m)
    with authored_get [of layer nodes m] au assms(2,3) obtain u v
      where "map_get m (node_key a) = Some u" "map_get m (node_key b) = Some v" by blast
    with Some show thesis by (intro that [of u v]) simp_all
  qed
  let ?w = "toWorld (worldPadding nodes)"
  have get: "map_get ?pos (node_key a) = Some (?w u)" "map_get ?pos (node_key b) = Some (?w v)"
    using uv by (simp_all add: map_get_map)
  have "apart (bounds_of a) (scaled ?pos nodes (?w u)) (bounds_of b) (scaled ?pos nodes (?w v))" if "u \<noteq> v"
    by (rule scaled_apart [OF assms(2,3) get]) (simp add: toWorld_inj that)
  moreover have "map_get (lp_positions p) (node_key a) = Some (scaled ?pos nodes (?w u))"
    "map_get (lp_positions p) (node_key b) = Some (scaled ?pos nodes (?w v))"
    by (simp_all add: pos spread_all_get get)
  ultimately show ?thesis using uv(3) src by (auto simp: scaled_inj toWorld_inj)
qed

section \<open>Accepted layouts\<close>

text \<open>An accepted layout is used only when it is complete and inside the unit square: placements are given back
  only for version 1, with one placement per node and every node placed; for nodes with distinct ids
  the placed nodes are exactly the nodes of the layer, and every coordinate lies between 0 and 1.\<close>

theorem accepted_layout_is_complete:
  assumes "authoredPlacements layer nodes = Inr (Some m)" "distinct (map node_key nodes)"
  shows "set (map_keys m) = set (map node_key nodes) \<and> map_ok m
    \<and> list_all (\<lambda>p. 0 \<le> pt_x p \<and> pt_x p \<le> 1 \<and> 0 \<le> pt_y p \<and> pt_y p \<le> 1) (map_values m)
    \<and> (\<exists>l. Option.bind layer ll_layout = Some l \<and> la_version l = JNum 1)"
proof -
  obtain l ps where l: "Option.bind layer ll_layout = Some l" "la_placements l = Some ps"
    using assms(1) by (auto simp: authoredPlacements_def split: option.splits)
  let ?m = "placement_map ps"
  from l assms(1) have m: "m = map (\<lambda>(k, v). (k, number_point v)) ?m" and ver: "la_version l = JNum 1"
    and len: "length ?m = length nodes" and all: "list_all (\<lambda>n. map_has ?m (node_key n)) nodes"
    and unit: "list_all (\<lambda>(x, y). unit_coordinate x \<and> unit_coordinate y) (map_values ?m)"
    by (auto simp: authoredPlacements_def Let_def bind_r_Inr_iff)
  have keys: "map_keys m = map_keys ?m" by (simp add: m map_keys_def comp_def case_prod_beta)
  have ok: "map_ok ?m" by (simp add: placement_map_def)
  have "set (map node_key nodes) \<subseteq> set (map_keys ?m)" using all by (auto simp: list_all_iff map_has_keys)
  moreover have "card (set (map_keys ?m)) = card (set (map node_key nodes))"
    using ok assms(2) len by (simp add: distinct_card map_ok_keys map_keys_def del: set_map)
  ultimately have "set (map_keys m) = set (map node_key nodes)" unfolding keys by (metis card_subset_eq List.finite_set)
  moreover have "list_all (\<lambda>p. 0 \<le> pt_x p \<and> pt_x p \<le> 1 \<and> 0 \<le> pt_y p \<and> pt_y p \<le> 1) (map_values m)"
    using unit by (fastforce simp: m map_values_def list_all_iff number_point_def unit_coordinate_def split: option.splits)
  ultimately show ?thesis using ok l(1) ver keys by (simp add: map_ok_keys)
qed

section \<open>Reading order\<close>

text \<open>The reading order written down: the nodes in the order of their placements, then the nodes without one as
  they were.\<close>

definition placed_nodes :: "placement list \<Rightarrow> layout_node list \<Rightarrow> layout_node list" where
  "placed_nodes ps nodes = concat (map (\<lambda>p. filter (\<lambda>n. node_key n = js_String (pl_nodeId p)) nodes) ps)"

definition unplaced :: "placement list \<Rightarrow> layout_node \<Rightarrow> bool" where
  "unplaced ps n \<longleftrightarrow> node_key n \<notin> set (map (\<lambda>p. js_String (pl_nodeId p)) ps)"

lemma reading_rank_at:
  assumes "distinct (map (\<lambda>p. js_String (pl_nodeId p)) ps)" "i < length ps"
  shows "node_key n = js_String (pl_nodeId (ps ! i)) \<longleftrightarrow> reading_rank ps n = int i"
proof -
  let ?es = "map (\<lambda>(i, p). (js_String (pl_nodeId p), i)) (enumerate 0 ps)"
  have in_es: "(k, j) \<in> set ?es \<longleftrightarrow> j < length ps \<and> k = js_String (pl_nodeId (ps ! j))" for k j
    by (auto simp: in_set_enumerate_eq image_iff intro!: bexI [of _ "(j, ps ! j)"])
  show ?thesis
  proof (cases "map_get (map_from ?es) (node_key n)")
    case None
    then have "node_key n \<notin> fst ` set ?es" using map_has_from [of ?es "node_key n"] by (simp only: map_has_iff) auto
    then have "(node_key n, i) \<notin> set ?es" by force
    with in_es assms(2) None show ?thesis by (simp add: reading_rank_def)
  next
    case (Some j)
    from map_get_from_in [OF this] in_es have "j < length ps" "node_key n = js_String (pl_nodeId (ps ! j))" by blast+
    moreover from this assms have "js_String (pl_nodeId (ps ! j)) = js_String (pl_nodeId (ps ! i)) \<longleftrightarrow> j = i"
      using nth_eq_iff_index_eq [OF assms(1)] by simp
    ultimately show ?thesis using Some by (auto simp: reading_rank_def)
  qed
qed

lemma reading_rank_range:
  assumes "distinct (map (\<lambda>p. js_String (pl_nodeId p)) ps)"
  shows "0 \<le> reading_rank ps n" "unplaced ps n \<longleftrightarrow> int (length ps) \<le> reading_rank ps n" "unplaced ps n \<Longrightarrow> reading_rank ps n = int (length ps)"
proof -
  show pos: "0 \<le> reading_rank ps n" by (simp add: reading_rank_def split: option.splits)
  let ?es = "map (\<lambda>(i, p). (js_String (pl_nodeId p), i)) (enumerate 0 ps)"
  have fst_es: "fst ` set ?es = set (map (\<lambda>p. js_String (pl_nodeId p)) ps)"
    unfolding set_map [symmetric]
    by (rule arg_cong [where f = set], rule nth_equalityI) (simp_all add: nth_enumerate_eq)
  show un: "reading_rank ps n = int (length ps)" if "unplaced ps n"
    using that map_has_from [of ?es "node_key n"] unfolding fst_es unplaced_def by (simp add: reading_rank_def map_has_iff)
  show "unplaced ps n \<longleftrightarrow> int (length ps) \<le> reading_rank ps n"
  proof
    assume "int (length ps) \<le> reading_rank ps n"
    then show "unplaced ps n"
      using reading_rank_at [OF assms, of _ n] by (fastforce simp: unplaced_def in_set_conv_nth)
  qed (use un in simp)
qed

lemma placed_sorted:
  assumes "distinct (map (\<lambda>p. js_String (pl_nodeId p)) ps)" "k \<le> length ps"
  shows "sorted_wrt (\<lambda>a b. reading_rank ps a \<le> reading_rank ps b) (placed_nodes (take k ps) nodes)
    \<and> set (placed_nodes (take k ps) nodes) = {n \<in> set nodes. reading_rank ps n < int k}
    \<and> mset (placed_nodes (take k ps) nodes) = mset (filter (\<lambda>n. reading_rank ps n < int k) nodes)"
  using assms(2)
proof (induction k)
  case 0
  then show ?case using reading_rank_range(1) [OF assms(1)] by (auto simp: placed_nodes_def not_less filter_empty_conv)
next
  case (Suc k)
  then have k: "k < length ps" by simp
  have split: "placed_nodes (take (Suc k) ps) nodes = placed_nodes (take k ps) nodes @ filter (\<lambda>n. reading_rank ps n = int k) nodes"
    using reading_rank_at [OF assms(1) k] by (simp add: placed_nodes_def take_Suc_conv_app_nth [OF k])
  note ih = Suc.IH [OF less_imp_le [OF k]]
  have step: "filter (\<lambda>n. reading_rank ps n < int (Suc k)) nodes = filter (\<lambda>n. reading_rank ps n < int k \<or> reading_rank ps n = int k) nodes"
    by (rule filter_cong) auto
  have both: "mset (filter (\<lambda>n. reading_rank ps n < int k \<or> reading_rank ps n = int k) nodes)
      = mset (filter (\<lambda>n. reading_rank ps n < int k) nodes) + mset (filter (\<lambda>n. reading_rank ps n = int k) nodes)"
    by (induction nodes) auto
  have mset: "mset (placed_nodes (take (Suc k) ps) nodes) = mset (filter (\<lambda>n. reading_rank ps n < int (Suc k)) nodes)"
    unfolding step both split using ih by simp
  have "sorted_wrt (\<lambda>a b. reading_rank ps a \<le> reading_rank ps b) (filter (\<lambda>n. reading_rank ps n = int k) nodes)"
    by (induction nodes) auto
  with ih have "sorted_wrt (\<lambda>a b. reading_rank ps a \<le> reading_rank ps b) (placed_nodes (take (Suc k) ps) nodes)"
    unfolding split sorted_wrt_append by fastforce
  moreover have "set (placed_nodes (take (Suc k) ps) nodes) = {n \<in> set nodes. reading_rank ps n < int (Suc k)}"
    using mset_eq_setD [OF mset] by simp
  ultimately show ?case using mset by blast
qed

text \<open>A layer reads in the order of its placements: for an authored layout with one placement per node id, the
  nodes come in the order of their placements, and nodes it does not place follow as they were.\<close>

theorem reading_order_is_placement_order:
  assumes "Option.bind (Option.bind layer ll_layout) la_placements = Some ps"
    and "distinct (map (\<lambda>p. js_String (pl_nodeId p)) ps)" "distinct (map node_key nodes)"
  shows "nodesInReadingOrder layer nodes = placed_nodes ps nodes @ filter (unplaced ps) nodes"
proof -
  let ?r = "reading_rank ps" and ?n = "int (length ps)"
  let ?s = "js_sort (\<lambda>l r. ?r l - ?r r) nodes"
  have "sorted (map ?r ?s)" by (rule sorted_js_sort_key) simp
  then have split: "?s = filter (\<lambda>x. ?r x < ?n) ?s @ filter (\<lambda>x. ?n \<le> ?r x) ?s" by (rule sorted_split)
  have "filter (\<lambda>x. ?n \<le> ?r x) ?s = filter (unplaced ps) ?s"
    using reading_rank_range(2) [OF assms(2)] by (simp add: fun_eq_iff [symmetric] cong: filter_cong)
  also have "\<dots> = filter (unplaced ps) nodes"
    by (rule filter_js_sort) (simp add: reading_rank_range(3) [OF assms(2)])
  finally have rest: "filter (\<lambda>x. ?n \<le> ?r x) ?s = filter (unplaced ps) nodes" .
  have p: "sorted_wrt (\<lambda>a b. ?r a \<le> ?r b) (placed_nodes ps nodes)" "mset (placed_nodes ps nodes) = mset (filter (\<lambda>n. ?r n < ?n) nodes)"
    using placed_sorted [OF assms(2), of "length ps" nodes] by simp_all
  have "filter (\<lambda>x. ?r x < ?n) ?s = placed_nodes ps nodes"
  proof (rule sorted_wrt_unique [OF _ p(1)])
    show "sorted_wrt (\<lambda>a b. ?r a \<le> ?r b) (filter (\<lambda>x. ?r x < ?n) ?s)"
      using \<open>sorted (map ?r ?s)\<close> by (simp add: sorted_wrt_map sorted_wrt_filter)
    show "mset (filter (\<lambda>x. ?r x < ?n) ?s) = mset (placed_nodes ps nodes)" by (simp add: p(2) mset_filter)
    show "\<forall>x \<in> set (filter (\<lambda>x. ?r x < ?n) ?s). \<forall>y \<in> set (filter (\<lambda>x. ?r x < ?n) ?s). ?r x \<le> ?r y \<longrightarrow> ?r y \<le> ?r x \<longrightarrow> x = y"
    proof (intro ballI impI)
      fix x y assume xy: "x \<in> set (filter (\<lambda>x. ?r x < ?n) ?s)" "y \<in> set (filter (\<lambda>x. ?r x < ?n) ?s)" "?r x \<le> ?r y" "?r y \<le> ?r x"
      then have "?r x = ?r y" "?r x < ?n" "x \<in> set nodes" "y \<in> set nodes" by auto
      moreover obtain i where "?r x = int i" using reading_rank_range(1) [OF assms(2)] nonneg_int_cases by metis
      ultimately have "node_key x = node_key y" using reading_rank_at [OF assms(2), of i] by (metis of_nat_less_iff)
      with assms(3) \<open>x \<in> set nodes\<close> \<open>y \<in> set nodes\<close> show "x = y" by (auto simp: distinct_map inj_on_def)
    qed
  qed
  with split rest assms(1) show ?thesis by (simp add: nodesInReadingOrder_def)
qed

section \<open>Signatures\<close>

text \<open>An edge written in the other direction.\<close>

definition reversed_edge :: "layout_edge \<Rightarrow> layout_edge" where
  "reversed_edge e = \<lparr>le_endpoints = map_option rev (le_endpoints e), le_source = le_target e, le_target = le_source e\<rparr>"

lemma edge_ends_reversed: "edge_ends (reversed_edge e) = edge_ends e"
proof -
  have same: "js_sort str_cmp xs = js_sort str_cmp ys" if "mset xs = mset ys" for xs ys
    using js_sort_str_perm [OF that, of id] by simp
  show ?thesis unfolding edge_ends_def
    by (rule same) (auto simp: reversed_edge_def rev_map [symmetric] split: option.splits)
qed

definition reorient :: "(layout_edge \<Rightarrow> bool) \<Rightarrow> layout_edge \<Rightarrow> layout_edge" where
  "reorient flip e = (if flip e then reversed_edge e else e)"

text \<open>The signature of a layout does not depend on the order of its parts: nodes, edges and placements listed
  in another order, and edges written in the other direction, give the same signature, for layouts that place
  an id once and edges whose joined endpoints tell them apart.\<close>

theorem signature_order_free:
  assumes "mset nodes' = mset nodes" "mset edges' = mset (map (reorient flip) edges)" "mset ps' = mset ps"
    and "distinct (map (\<lambda>p. js_String (pl_nodeId p)) ps)" "inj_on join_colon (set (map edge_ends edges))"
  shows "graphLayoutSignature (Some \<lparr>ll_id = i, ll_layout = Some \<lparr>la_version = v, la_placements = Some ps'\<rparr>\<rparr>) nodes' edges'
    = graphLayoutSignature (Some \<lparr>ll_id = i, ll_layout = Some \<lparr>la_version = v, la_placements = Some ps\<rparr>\<rparr>) nodes edges"
proof -
  have n: "js_sort str_cmp (map node_key nodes') = js_sort str_cmp (map node_key nodes)"
    using js_sort_str_perm [of "map node_key nodes'" "map node_key nodes" id] assms(1) by simp
  have "map edge_ends (map (reorient flip) edges) = map edge_ends edges"
    by (simp add: reorient_def edge_ends_reversed)
  then have m: "mset (map edge_ends edges') = mset (map edge_ends edges)"
    unfolding mset_map [of edge_ends edges'] assms(2) mset_map [of edge_ends "map (reorient flip) edges", symmetric] by (rule arg_cong)
  have "inj_on join_colon (set (map edge_ends edges'))" using assms(5) mset_eq_setD [OF m] by simp
  then have e: "js_sort (\<lambda>l r. str_cmp (join_colon l) (join_colon r)) (map edge_ends edges')
      = js_sort (\<lambda>l r. str_cmp (join_colon l) (join_colon r)) (map edge_ends edges)"
    by (rule js_sort_str_perm [OF m])
  let ?q = "\<lambda>p. (js_String (pl_nodeId p), pl_x p, pl_y p)"
  have d: "distinct (map fst (map ?q ps))" using assms(4) by (simp add: comp_def)
  have mp: "mset (map ?q ps') = mset (map ?q ps)" using assms(3) by simp
  have "inj_on fst (set (map ?q ps'))" using d unfolding mset_eq_setD [OF mp] by (simp only: distinct_map)
  then have "signature_placements ps' = signature_placements ps"
    unfolding signature_placements_def by (rule js_sort_str_perm [OF mp])
  with n e show ?thesis by (simp add: graphLayoutSignature_def)
qed

section \<open>A concrete layer\<close>

definition demo_node :: "string \<Rightarrow> layout_node" where
  "demo_node s = \<lparr>ln_id = JStr s, ln_bounds = Some \<lparr>bb_halfWidth = 300, bb_top = 20, bb_bottom = 20\<rparr>\<rparr>"

definition demo_placement :: "string \<Rightarrow> rat \<Rightarrow> placement" where
  "demo_placement s x = \<lparr>pl_nodeId = JStr s, pl_x = Some x, pl_y = Some (1 / 2)\<rparr>"

definition demo_layer :: layout_layer where
  "demo_layer = \<lparr>ll_id = JStr ''layer'', ll_layout = Some \<lparr>la_version = JNum 1,
     la_placements = Some [demo_placement ''b'' (1 / 3), demo_placement ''a'' (2 / 3)]\<rparr>\<rparr>"

lemma demo_layer_placements:
  "Option.bind (Option.bind (Some demo_layer) ll_layout) la_placements = Some [demo_placement ''b'' (1 / 3), demo_placement ''a'' (2 / 3)]"
  by (simp add: demo_layer_def)

lemma demo_authored:
  "authoredPlacements (Some demo_layer) [demo_node ''a'', demo_node ''b''] =
     Inr (Some [(''b'', \<lparr>pt_x = 1 / 3, pt_y = 1 / 2\<rparr>), (''a'', \<lparr>pt_x = 2 / 3, pt_y = 1 / 2\<rparr>)])"
  by (simp add: authoredPlacements_def demo_layer_def demo_placement_def demo_node_def node_key_def placement_map_def map_from_def
      map_values_def unit_coordinate_def number_point_def Let_def map_has_def)

theorem node_boxes_never_overlap_witness:
  "\<exists>p u v. projectLayerNodePositions None [demo_node ''a'', demo_node ''b''] = Inr p
     \<and> map_get (lp_positions p) ''a'' = Some u \<and> map_get (lp_positions p) ''b'' = Some v \<and> 624 \<le> \<bar>pt_x u - pt_x v\<bar> + \<bar>pt_y u - pt_y v\<bar> * 12"
proof -
  let ?ns = "[demo_node ''a'', demo_node ''b'']"
  obtain p where p: "projectLayerNodePositions None ?ns = Inr p" "lp_source p = Legacy"
    by (simp add: projectLayerNodePositions_def authoredPlacements_def Let_def)
  from node_boxes_never_overlap [OF p(1), of "demo_node ''a''" "demo_node ''b''"] p
  obtain u v where "map_get (lp_positions p) ''a'' = Some u" "map_get (lp_positions p) ''b'' = Some v"
    "apart (bounds_of (demo_node ''a'')) u (bounds_of (demo_node ''b'')) v"
    by (auto simp: demo_node_def node_key_def)
  moreover from this(3) have "624 \<le> \<bar>pt_x u - pt_x v\<bar> + \<bar>pt_y u - pt_y v\<bar> * 12"
    by (auto simp: apart_def demo_node_def bounds_of_def abs_if)
  ultimately show ?thesis using p(1) by blast
qed

theorem accepted_layout_is_complete_witness:
  "\<exists>m. authoredPlacements (Some demo_layer) [demo_node ''a'', demo_node ''b''] = Inr (Some m) \<and> set (map_keys m) = {''a'', ''b''}"
  using accepted_layout_is_complete [OF demo_authored] demo_authored by (auto simp: demo_node_def node_key_def)

theorem reading_order_is_placement_order_witness:
  "nodesInReadingOrder (Some demo_layer) [demo_node ''c'', demo_node ''a'', demo_node ''b''] = [demo_node ''b'', demo_node ''a'', demo_node ''c'']"
  using reading_order_is_placement_order [OF demo_layer_placements, of "[demo_node ''c'', demo_node ''a'', demo_node ''b'']"]
  by (simp add: demo_node_def demo_placement_def node_key_def placed_nodes_def unplaced_def)

theorem signature_order_free_witness:
  "graphLayoutSignature (Some \<lparr>ll_id = JNull, ll_layout = Some \<lparr>la_version = JNum 1, la_placements = Some [demo_placement ''a'' 0, demo_placement ''b'' 1]\<rparr>\<rparr>)
     [demo_node ''b'', demo_node ''a''] [\<lparr>le_endpoints = None, le_source = JStr ''b'', le_target = JStr ''a''\<rparr>]
   = graphLayoutSignature (Some \<lparr>ll_id = JNull, ll_layout = Some \<lparr>la_version = JNum 1, la_placements = Some [demo_placement ''b'' 1, demo_placement ''a'' 0]\<rparr>\<rparr>)
     [demo_node ''a'', demo_node ''b''] [\<lparr>le_endpoints = None, le_source = JStr ''a'', le_target = JStr ''b''\<rparr>]"
  by (rule signature_order_free [where flip = "\<lambda>_. True"])
    (simp_all add: reorient_def reversed_edge_def demo_placement_def)

end
