(* ===== verification/LayerSelection.thy ===== *)
theory LayerSelection
  imports JsCollections
begin

text \<open>
  The selected node of each layer a user has seen (\<open>desktop/renderer/src/product-workspace/layer-selection.js\<close>):
  a least-recently-used memory of at most 512 selections, its copy in local storage, and its copy in the
  desktop settings. The module's maps of one owner are the record \<open>selections\<close>. Reading the desktop settings
  is a begin and an end step, with selections in between; a write to the settings may fail later. The key of a
  selection is the rendered JSON of three ids, here the constructor \<open>Location\<close>; storage may hold other keys.
  Storage that throws is a flag of the operation.

  The lemmas: the memory is bounded and forgets the oldest selection first, what was selected is read back,
  the desktop settings never replace a selection that changed while they were read, and the node shown for a
  layer is the first candidate that is a resolved member.
\<close>

definition MAX_SELECTIONS :: nat where
  "MAX_SELECTIONS = 512"

datatype location = Location string string string | OtherKey string

text \<open>A stored entry is \<open>None\<close> when it is not a pair of strings, and the store is \<open>None\<close> when it is no array.\<close>

record selections =
  sl_memory :: "(location, string) jsmap"
  sl_hydrated :: bool
  sl_stored :: "(location \<times> string) option list option"
  sl_writes :: "(location, nat \<times> string) jsmap"
  sl_nextEntry :: nat
  sl_sent :: "(nat \<times> location \<times> string) list"

definition selection_key :: "jsval \<Rightarrow> jsval \<Rightarrow> jsval \<Rightarrow> location option" where
  "selection_key threadId interactionId layerId =
     (if is_nullish threadId \<or> is_nullish interactionId \<or> is_nullish layerId then None
      else Some (Location (js_String threadId) (js_String interactionId) (js_String layerId)))"

text \<open>\<open>while (map.size > MAX_SELECTIONS) map.delete(map.keys().next().value)\<close>\<close>

function trim_selections :: "('k, 'v) jsmap \<Rightarrow> ('k, 'v) jsmap" where
  "trim_selections m = (if length m > MAX_SELECTIONS then trim_selections (map_delete m (hd (map_keys m))) else m)"
  by pat_completeness auto

termination
proof (relation "measure length")
  fix m :: "('k, 'v) jsmap"
  assume "MAX_SELECTIONS < length m"
  then have "map_has m (hd (map_keys m))" by (cases m) auto
  then show "(map_delete m (hd (map_keys m)), m) \<in> measure length" by (simp add: length_delete_less)
qed simp

declare trim_selections.simps [simp del]

definition last_entries :: "'a list \<Rightarrow> 'a list" where
  "last_entries es = drop (length es - MAX_SELECTIONS) es"

definition remember_entry :: "(location \<times> string) option \<Rightarrow> (location, string) jsmap \<Rightarrow> (location, string) jsmap" where
  "remember_entry e m = (case e of None \<Rightarrow> m | Some (k, v) \<Rightarrow> map_set m k v)"

definition readSelections :: "selections \<Rightarrow> selections" where
  "readSelections s =
     (if sl_hydrated s then s
      else s\<lparr>sl_hydrated := True,
             sl_memory := (case sl_stored s of None \<Rightarrow> sl_memory s | Some es \<Rightarrow> fold remember_entry (last_entries es) (sl_memory s))\<rparr>)"

definition rememberedLayerSelection :: "jsval \<Rightarrow> jsval \<Rightarrow> jsval \<Rightarrow> selections \<Rightarrow> string option \<times> selections" where
  "rememberedLayerSelection threadId interactionId layerId s0 =
     (let s = readSelections s0 in
      ((case selection_key threadId interactionId layerId of None \<Rightarrow> None | Some k \<Rightarrow> map_get (sl_memory s) k), s))"

text \<open>The write to the desktop settings, if the value is not on its way already; the entry is a new object.\<close>

definition desktop_write :: "location \<Rightarrow> string \<Rightarrow> selections \<Rightarrow> selections" where
  "desktop_write location nodeId s =
     (if map_option snd (map_get (sl_writes s) location) = Some nodeId then s
      else
        let entry = sl_nextEntry s in
        s\<lparr>sl_nextEntry := entry + 1,
          sl_writes := trim_selections (map_set (map_delete (sl_writes s) location) location (entry, nodeId)),
          sl_sent := sl_sent s @ [(entry, location, nodeId)]\<rparr>)"

definition rememberLayerSelection ::
  "bool \<Rightarrow> bool \<Rightarrow> jsval \<Rightarrow> jsval \<Rightarrow> jsval \<Rightarrow> jsval \<Rightarrow> selections \<Rightarrow> selections" where
  "rememberLayerSelection bridge storageOk threadId interactionId layerId nodeId s0 =
     (case selection_key threadId interactionId layerId of
        None \<Rightarrow> s0
      | Some location \<Rightarrow>
          if is_nullish nodeId then s0
          else
            let s = readSelections s0;
                value = js_String nodeId;
                unchanged = (map_get (sl_memory s) location = Some value);
                s1 = s\<lparr>sl_memory := trim_selections (map_set (map_delete (sl_memory s) location) location value)\<rparr>;
                s2 = (if bridge then desktop_write location value s1 else s1) in
            if unchanged \<or> \<not> storageOk then s2 else s2\<lparr>sl_stored := Some (map Some (sl_memory s2))\<rparr>)"

text \<open>\<open>failed\<close> of one write: only the entry it wrote is taken back.\<close>

definition write_failed :: "nat \<Rightarrow> location \<Rightarrow> selections \<Rightarrow> selections" where
  "write_failed entry location s =
     (if map_option fst (map_get (sl_writes s) location) = Some entry
      then s\<lparr>sl_writes := map_delete (sl_writes s) location\<rparr> else s)"

text \<open>\<open>initializeLayerSelections\<close>: what is remembered when the reading begins, and the end of the reading, with
  the settings' entries, or \<open>None\<close> when the reading failed or gave no array.\<close>

definition hydrate_begin :: "selections \<Rightarrow> (location, string) jsmap \<times> selections" where
  "hydrate_begin s0 = (let s = readSelections s0 in (sl_memory s, s))"

definition hydrate_entry :: "(location, string) jsmap \<Rightarrow> location \<times> string \<Rightarrow> selections \<Rightarrow> selections" where
  "hydrate_entry before e s =
     (let (location, nodeId) = e;
          s1 = (if map_get (sl_memory s) location = map_get before location
                then s\<lparr>sl_memory := map_set (sl_memory s) location nodeId\<rparr> else s) in
      if map_has (sl_writes s1) location then s1
      else s1\<lparr>sl_writes := map_set (sl_writes s1) location (sl_nextEntry s1, nodeId), sl_nextEntry := sl_nextEntry s1 + 1\<rparr>)"

definition hydrate_end :: "(location, string) jsmap \<Rightarrow> (location \<times> string) list option \<Rightarrow> selections \<Rightarrow> selections" where
  "hydrate_end before entries s =
     (case entries of
        None \<Rightarrow> s
      | Some es \<Rightarrow>
          let s1 = fold (hydrate_entry before) es s in s1\<lparr>sl_memory := trim_selections (sl_memory s1)\<rparr>)"

definition new_selections :: "(location \<times> string) option list option \<Rightarrow> selections" where
  "new_selections stored =
     \<lparr>sl_memory = [], sl_hydrated = False, sl_stored = stored, sl_writes = [], sl_nextEntry = 0, sl_sent = []\<rparr>"

section \<open>The node to show\<close>

record resolved_layer =
  rl_nodes :: "jsval list"
  rl_members :: "jsval list option"
  rl_defaultNodeId :: jsval

definition layer_members :: "resolved_layer \<Rightarrow> jsval list" where
  "layer_members r = (case rl_members r of Some ms \<Rightarrow> ms | None \<Rightarrow> rl_nodes r)"

definition candidate_ok :: "resolved_layer \<Rightarrow> jsval \<Rightarrow> bool" where
  "candidate_ok r c \<longleftrightarrow>
     \<not> is_nullish c \<and> list_ex (\<lambda>i. eqId i c) (layer_members r) \<and> list_ex (\<lambda>i. eqId i c) (rl_nodes r)"

definition preferredLayerNode :: "resolved_layer \<Rightarrow> jsval \<Rightarrow> jsval \<Rightarrow> jsval" where
  "preferredLayerNode r selectedNodeId rememberedNodeId =
     (case find (candidate_ok r) ([selectedNodeId, rememberedNodeId, rl_defaultNodeId r] @ layer_members r) of
        Some c \<Rightarrow> c
      | None \<Rightarrow> JNull)"

section \<open>The memory forgets the oldest selection\<close>

lemma map_delete_hd: "map_ok (p # m) \<Longrightarrow> map_delete (p # m) (fst p) = m"
  by (cases p) (auto simp: map_ok_def map_delete_def filter_id_conv image_iff)

lemma trim_drop: "map_ok m \<Longrightarrow> trim_selections m = drop (length m - MAX_SELECTIONS) m"
proof (induction m rule: trim_selections.induct)
  case (1 m)
  show ?case
  proof (cases "length m > MAX_SELECTIONS")
    case True
    then obtain p m' where m: "m = p # m'" by (cases m) auto
    have d: "map_delete m (hd (map_keys m)) = m'" using map_delete_hd [of p m'] 1(2) m by (cases p) simp
    have "map_ok m'" using 1(2) m by (simp add: map_ok_def)
    with 1(1) True d have "trim_selections m' = drop (length m' - MAX_SELECTIONS) m'" by metis
    moreover have "trim_selections m = trim_selections m'" using True d by (subst trim_selections.simps) simp
    ultimately show ?thesis using True m by (simp add: Suc_diff_le)
  qed (simp add: trim_selections.simps)
qed

lemma map_keys_drop: "map_keys (drop n m) = drop n (map_keys m)"
  by (simp add: map_keys_def drop_map)

lemma map_ok_drop: "map_ok m \<Longrightarrow> map_ok (drop n m)"
  by (simp add: map_ok_keys map_keys_drop)

lemma trim_ok [simp]: "map_ok m \<Longrightarrow> map_ok (trim_selections m)"
  by (simp add: trim_drop map_ok_drop)

lemma trim_length: "map_ok m \<Longrightarrow> length (trim_selections m) \<le> MAX_SELECTIONS"
  by (simp add: trim_drop)

lemma trim_get:
  assumes "map_ok m"
  shows "map_get (trim_selections m) k = (if map_has (trim_selections m) k then map_get m k else None)"
proof (cases "map_get (trim_selections m) k")
  case (Some v)
  then have "(k, v) \<in> set (trim_selections m)" by (rule map_get_in)
  then have "(k, v) \<in> set m" using assms by (simp add: trim_drop) (metis in_set_dropD)
  with assms Some show ?thesis by (simp add: map_get_iff_in [symmetric] map_has_iff)
qed (simp add: map_has_iff)

definition selections_ok :: "selections \<Rightarrow> bool" where
  "selections_ok s \<longleftrightarrow> map_ok (sl_memory s) \<and> length (sl_memory s) \<le> MAX_SELECTIONS \<and> map_ok (sl_writes s)
     \<and> (\<not> sl_hydrated s \<longrightarrow> sl_memory s = [])"

lemma last_entries_length: "length (last_entries es) \<le> MAX_SELECTIONS"
  by (simp add: last_entries_def)

lemma remember_entries: "map_ok m \<Longrightarrow> map_ok (fold remember_entry es m) \<and> length (fold remember_entry es m) \<le> length m + length es"
proof (induction es arbitrary: m)
  case (Cons e es)
  have "map_ok (remember_entry e m)" "length (remember_entry e m) \<le> Suc (length m)"
    using Cons.prems by (auto simp: remember_entry_def length_map_set split: option.splits)
  with Cons.IH [of "remember_entry e m"] show ?case by simp
qed simp

lemma readSelections_ok: "selections_ok s \<Longrightarrow> selections_ok (readSelections s) \<and> sl_hydrated (readSelections s)"
proof -
  assume s: "selections_ok s"
  have "map_ok (fold remember_entry (last_entries es) []) \<and> length (fold remember_entry (last_entries es) []) \<le> MAX_SELECTIONS" for es
    using remember_entries [of "[]" "last_entries es"] last_entries_length [of es] by simp
  with s show ?thesis by (auto simp: readSelections_def selections_ok_def split: option.splits)
qed

lemma desktop_write_memory [simp]: "sl_memory (desktop_write k v s) = sl_memory s" "sl_hydrated (desktop_write k v s) = sl_hydrated s"
  by (simp_all add: desktop_write_def Let_def)

lemma remember_memory:
  assumes "selection_key t i l = Some k" "\<not> is_nullish n"
  shows "sl_memory (rememberLayerSelection b w t i l n s)
      = trim_selections (map_set (map_delete (sl_memory (readSelections s)) k) k (js_String n))"
    and "sl_hydrated (rememberLayerSelection b w t i l n s) = sl_hydrated (readSelections s)"
  using assms by (simp_all add: rememberLayerSelection_def Let_def)

lemma remember_ok': "selections_ok s \<Longrightarrow> selections_ok (rememberLayerSelection b w t i l n s)"
proof -
  assume s: "selections_ok s"
  note r = readSelections_ok [OF s, unfolded selections_ok_def]
  show ?thesis
  proof (cases "selection_key t i l = None \<or> is_nullish n")
    case True
    with s show ?thesis by (auto simp: rememberLayerSelection_def split: option.splits)
  next
    case False
    then obtain k where k: "selection_key t i l = Some k" "\<not> is_nullish n" by auto
    have "map_ok (sl_writes (rememberLayerSelection b w t i l n s))"
      using k r by (simp add: rememberLayerSelection_def Let_def desktop_write_def)
    with remember_memory [OF k] r show ?thesis by (simp add: selections_ok_def trim_length)
  qed
qed

lemma hydrate_fold_ok: "map_ok (sl_memory s) \<Longrightarrow> map_ok (sl_writes s) \<Longrightarrow>
    map_ok (sl_memory (fold (hydrate_entry before) es s)) \<and> map_ok (sl_writes (fold (hydrate_entry before) es s))
    \<and> sl_hydrated (fold (hydrate_entry before) es s) = sl_hydrated s"
proof (induction es arbitrary: s)
  case (Cons e es)
  have "map_ok (sl_memory (hydrate_entry before e s))" "map_ok (sl_writes (hydrate_entry before e s))"
    "sl_hydrated (hydrate_entry before e s) = sl_hydrated s"
    using Cons.prems by (auto simp: hydrate_entry_def Let_def split: prod.splits)
  with Cons.IH [of "hydrate_entry before e s"] show ?case by simp
qed simp

datatype selection_op =
    OpRemember bool bool jsval jsval jsval jsval
  | OpRecall jsval jsval jsval
  | OpHydrateBegin
  | OpHydrateEnd "(location, string) jsmap" "(location \<times> string) list option"
  | OpWriteFailed nat location

fun selection_step :: "selection_op \<Rightarrow> selections \<Rightarrow> selections" where
  "selection_step (OpRemember b w t i l n) s = rememberLayerSelection b w t i l n s"
| "selection_step (OpRecall t i l) s = snd (rememberedLayerSelection t i l s)"
| "selection_step OpHydrateBegin s = snd (hydrate_begin s)"
| "selection_step (OpHydrateEnd before es) s = hydrate_end before es (readSelections s)"
| "selection_step (OpWriteFailed e k) s = write_failed e k s"

lemma selection_step_ok: "selections_ok s \<Longrightarrow> selections_ok (selection_step op s)"
proof (cases op)
  case (OpRemember b w t i l n)
  assume "selections_ok s"
  with OpRemember remember_ok' show ?thesis by simp
next
  case (OpHydrateEnd before es)
  assume s: "selections_ok s"
  note r = readSelections_ok [OF s, unfolded selections_ok_def]
  with OpHydrateEnd hydrate_fold_ok [of "readSelections s" before] show ?thesis
    by (auto simp: hydrate_end_def selections_ok_def Let_def trim_length split: option.splits)
next
  case (OpWriteFailed e k)
  assume "selections_ok s"
  with OpWriteFailed show ?thesis by (simp add: write_failed_def selections_ok_def)
qed (use readSelections_ok in \<open>simp_all add: rememberedLayerSelection_def hydrate_begin_def Let_def\<close>)

interpretation selection_machine: machine selection_step selections_ok
  by unfold_locales (rule selection_step_ok)

lemma selections_run_ok: "selections_ok (fold selection_step ops (new_selections stored))"
  by (rule selection_machine.run_inv) (simp add: selections_ok_def new_selections_def)

text \<open>The selection memory is least recently used: after any operations, selecting a node makes it the one
  recalled for its layer and the youngest of at most 512; the other selections keep their value and their
  order, and only the oldest one goes when there is no room.\<close>

theorem selection_is_youngest:
  assumes "selection_key t i l = Some k" "\<not> is_nullish n"
  shows "let s = readSelections (fold selection_step ops (new_selections stored));
             s' = rememberLayerSelection b w t i l n s;
             others = filter (\<lambda>k'. k' \<noteq> k) (map_keys (sl_memory s)) in
         fst (rememberedLayerSelection t i l s') = Some (js_String n)
         \<and> map_keys (sl_memory s') = drop (length others + 1 - 512) (others @ [k])
         \<and> length (sl_memory s') \<le> 512
         \<and> list_all (\<lambda>k'. k' = k \<or> map_get (sl_memory s') k' = map_get (sl_memory s) k') (map_keys (sl_memory s'))"
proof -
  let ?s = "readSelections (fold selection_step ops (new_selections stored))"
  let ?s' = "rememberLayerSelection b w t i l n ?s"
  let ?o = "filter (\<lambda>k'. k' \<noteq> k) (map_keys (sl_memory ?s))"
  note s = readSelections_ok [OF selections_run_ok, of ops stored]
  have rr: "readSelections ?s = ?s" using s by (simp add: readSelections_def [of ?s])
  have ok: "map_ok (sl_memory ?s)" using s by (simp add: selections_ok_def)
  let ?m = "map_set (map_delete (sl_memory ?s) k) k (js_String n)"
  have m': "sl_memory ?s' = trim_selections ?m" using remember_memory(1) [OF assms, of b w ?s] by (simp only: rr)
  have mk: "map_ok ?m" using ok by simp
  have keys: "map_keys ?m = ?o @ [k]" using jso.order_touch [OF ok] by simp
  then have lm: "length ?m = length ?o + 1" by (metis length_append_singleton length_map map_keys_def Suc_eq_plus1)
  have keys': "map_keys (sl_memory ?s') = drop (length ?o + 1 - 512) (?o @ [k])"
    unfolding m' trim_drop [OF mk] map_keys_drop keys lm MAX_SELECTIONS_def ..
  have len: "length (sl_memory ?s') \<le> 512" using trim_length [OF mk] by (simp add: m' MAX_SELECTIONS_def)
  have "k \<in> set (map_keys (sl_memory ?s'))" unfolding keys' by simp
  then have has: "map_has (trim_selections ?m) k" by (simp add: map_has_keys m')
  have get: "map_get (sl_memory ?s') k' = map_get ?m k'" if "map_has (trim_selections ?m) k'" for k'
    using trim_get [OF mk, of k'] that m' by simp
  have "sl_hydrated ?s'" using remember_memory(2) [OF assms, of b w ?s] s rr by simp
  then have "readSelections ?s' = ?s'" by (simp add: readSelections_def [of ?s'])
  then have "fst (rememberedLayerSelection t i l ?s') = map_get (sl_memory ?s') k"
    using assms(1) by (simp add: rememberedLayerSelection_def Let_def)
  also have "\<dots> = Some (js_String n)" using get [OF has] by simp
  finally have fst: "fst (rememberedLayerSelection t i l ?s') = Some (js_String n)" .
  have "list_all (\<lambda>k'. k' = k \<or> map_get (sl_memory ?s') k' = map_get (sl_memory ?s) k') (map_keys (sl_memory ?s'))"
    using get by (auto simp: list_all_iff map_has_keys [symmetric] m')
  with fst keys' len show ?thesis unfolding Let_def by blast
qed

section \<open>Reading the desktop settings\<close>

text \<open>What a selection is after the settings were read, before the trimming: its value in memory if that changed
  meanwhile, else the settings' value, if any.\<close>

definition merged_selection ::
  "(location, string) jsmap \<Rightarrow> (location, string) jsmap \<Rightarrow> (location \<times> string) list \<Rightarrow> location \<Rightarrow> string option" where
  "merged_selection before memory es k =
     (if map_get memory k \<noteq> map_get before k then map_get memory k
      else case map_of es k of None \<Rightarrow> map_get memory k | Some v \<Rightarrow> Some v)"

lemma hydrate_entry_memory:
  "sl_memory (hydrate_entry before (k, v) s) = (if map_get (sl_memory s) k = map_get before k then map_set (sl_memory s) k v else sl_memory s)"
  by (simp add: hydrate_entry_def Let_def)

lemma hydrate_fold:
  "distinct (map fst es) \<Longrightarrow>
     (\<forall>k. map_get (sl_memory (fold (hydrate_entry before) es s)) k = merged_selection before (sl_memory s) es k)
     \<and> map_keys (sl_memory (fold (hydrate_entry before) es s)) =
        map_keys (sl_memory s) @ filter (\<lambda>k. \<not> map_has (sl_memory s) k \<and> \<not> map_has before k) (map fst es)"
proof (induction es arbitrary: s)
  case Nil
  then show ?case by (simp add: merged_selection_def)
next
  case (Cons e es)
  obtain k0 v where e: "e = (k0, v)" by (cases e)
  let ?s = "hydrate_entry before e s"
  have d: "distinct (map fst es)" "k0 \<notin> set (map fst es)" using Cons.prems e by auto
  note mem = hydrate_entry_memory [of before k0 v s]
  have absent: "map_of es k0 = None" using d(2) by (simp add: map_of_eq_None_iff)
  have "filter (\<lambda>k. \<not> map_has (sl_memory ?s) k \<and> \<not> map_has before k) (map fst es)
      = filter (\<lambda>k. \<not> map_has (sl_memory s) k \<and> \<not> map_has before k) (map fst es)"
    by (rule filter_cong) (use d(2) in \<open>auto simp: e mem\<close>)
  moreover have "merged_selection before (sl_memory ?s) es k = merged_selection before (sl_memory s) (e # es) k" for k
    by (auto simp: e mem merged_selection_def absent split: option.splits)
  ultimately show ?case using Cons.IH [OF d(1), of ?s]
    by (auto simp: e mem map_keys_set map_has_iff)
qed

text \<open>The desktop settings never replace a selection that changed while they were read: after the reading, a
  selection in memory is the one made meanwhile if its value changed since the reading began, and the
  settings' value otherwise; the settings' selections for layers without one come last in the order, and
  the 512 youngest in that order stay.\<close>

theorem hydration_keeps_newer:
  assumes "selections_ok s" "sl_hydrated s" "distinct (map fst es)"
  shows "let s' = hydrate_end before (Some es) s;
             keys = map_keys (sl_memory s) @ filter (\<lambda>k. \<not> map_has (sl_memory s) k \<and> \<not> map_has before k) (map fst es) in
         map_keys (sl_memory s') = drop (length keys - 512) keys
         \<and> list_all (\<lambda>k. map_get (sl_memory s') k = merged_selection before (sl_memory s) es k) (map_keys (sl_memory s'))"
proof -
  let ?f = "fold (hydrate_entry before) es s"
  let ?s' = "hydrate_end before (Some es) s"
  have ok: "map_ok (sl_memory ?f)" using assms(1) hydrate_fold_ok [of s before es] by (simp add: selections_ok_def)
  have m: "sl_memory ?s' = trim_selections (sl_memory ?f)" by (simp add: hydrate_end_def Let_def)
  have "length (sl_memory ?f) = length (map_keys (sl_memory ?f))" by (simp add: map_keys_def)
  then have "map_keys (sl_memory ?s') = drop (length (map_keys (sl_memory ?f)) - 512) (map_keys (sl_memory ?f))"
    by (simp add: m trim_drop [OF ok] map_keys_drop MAX_SELECTIONS_def)
  moreover have "map_get (sl_memory ?s') k = merged_selection before (sl_memory s) es k" if "k \<in> set (map_keys (sl_memory ?s'))" for k
    using trim_get [OF ok, of k] that hydrate_fold [OF assms(3)] by (simp add: m map_has_keys)
  ultimately show ?thesis using hydrate_fold [OF assms(3), of before s] by (simp add: Let_def list_all_iff)
qed

text \<open>A selection that was made again with the same value while the settings were read does not count as newer,
  although the source calls it so.\<close>

lemma reselection_is_replaced:
  assumes "map_get before k = Some v" "map_get (sl_memory s) k = Some v" "length (sl_memory s) \<le> MAX_SELECTIONS"
  shows "map_get (sl_memory (hydrate_end before (Some [(k, w)]) s)) k = Some w"
proof -
  have "map_has (sl_memory s) k" using assms(2) by (simp add: map_has_iff)
  with assms show ?thesis
    by (simp add: hydrate_end_def Let_def hydrate_entry_memory trim_selections.simps length_map_set)
qed

section \<open>The node shown\<close>

text \<open>The node to show is a resolved member of the layer, or there is none.\<close>

lemma preferredLayerNode_cases:
  "(preferredLayerNode r a b = JNull \<and> \<not> list_ex (candidate_ok r) ([a, b, rl_defaultNodeId r] @ layer_members r))
     \<or> candidate_ok r (preferredLayerNode r a b)"
  unfolding preferredLayerNode_def
  by (auto split: option.splits simp: find_None_iff list_ex_iff dest!: find_SomeD simp del: append.simps)

text \<open>The node shown for a layer is always one the layer has: it is resolved and a member. The current selection
  comes first, then the remembered one, then the layer's default, and a layer with a resolved member always
  shows one.\<close>

theorem preferred_node_is_shown_member:
  "(let n = preferredLayerNode r selected remembered in
    (if candidate_ok r selected then n = selected
     else if candidate_ok r remembered then n = remembered
     else if candidate_ok r (rl_defaultNodeId r) then n = rl_defaultNodeId r
     else if list_ex (candidate_ok r) (layer_members r) then n \<in> set (layer_members r) else n = JNull)
    \<and> (n = JNull \<or> list_ex (\<lambda>i. eqId i n) (rl_nodes r) \<and> list_ex (\<lambda>i. eqId i n) (layer_members r)))"
proof -
  let ?n = "preferredLayerNode r selected remembered"
  have "if candidate_ok r selected then ?n = selected
     else if candidate_ok r remembered then ?n = remembered
     else if candidate_ok r (rl_defaultNodeId r) then ?n = rl_defaultNodeId r
     else if list_ex (candidate_ok r) (layer_members r) then ?n \<in> set (layer_members r) else ?n = JNull"
    by (auto simp: preferredLayerNode_def find_None_iff list_ex_iff split: option.splits dest: find_SomeD)
  moreover have "?n = JNull \<or> list_ex (\<lambda>i. eqId i ?n) (rl_nodes r) \<and> list_ex (\<lambda>i. eqId i ?n) (layer_members r)"
    using preferredLayerNode_cases [of r selected remembered] unfolding candidate_ok_def by blast
  ultimately show ?thesis unfolding Let_def by blast
qed

section \<open>Concrete selections\<close>

definition demo_selections :: selections where
  "demo_selections = fold selection_step [OpRemember True True (JNum 1) (JNum 2) (JNum 3) (JStr ''a'')] (new_selections None)"

theorem selection_is_youngest_witness:
  "fst (rememberedLayerSelection (JNum 1) (JNum 2) (JNum 4)
     (rememberLayerSelection True True (JNum 1) (JNum 2) (JNum 4) (JNum 7) (readSelections demo_selections))) = Some (js_String (JNum 7))"
  using selection_is_youngest [of "JNum 1" "JNum 2" "JNum 4" "Location (js_String (JNum 1)) (js_String (JNum 2)) (js_String (JNum 4))"
      "JNum 7" "[OpRemember True True (JNum 1) (JNum 2) (JNum 3) (JStr ''a'')]" None True True]
  unfolding demo_selections_def [symmetric] by (simp add: Let_def selection_key_def)

theorem hydration_keeps_newer_witness:
  "let s' = hydrate_end [] (Some [(OtherKey ''k'', ''saved'')]) (new_selections None\<lparr>sl_hydrated := True\<rparr>) in
     map_keys (sl_memory s') = [OtherKey ''k''] \<and> map_get (sl_memory s') (OtherKey ''k'') = Some ''saved''"
  using hydration_keeps_newer [of "new_selections None\<lparr>sl_hydrated := True\<rparr>" "[(OtherKey ''k'', ''saved'')]" "[]"]
  by (auto simp: selections_ok_def new_selections_def Let_def merged_selection_def list_all_iff)

end
