(* ===== verification/ModelFamily.thy ===== *)
theory ModelFamily
  imports ModelPicker
begin

text \<open>
  Editing model families and choosing the defaults (\<open>desktop/renderer/src/model-family-model.js\<close>): drafts and
  copies, keeping an edit over a refresh, validation, reordering, and the recovery texts of the default
  harness, family and provider. Lower casing is the platform's: the parameters \<open>lower\<close> (\<open>toLowerCase\<close>)
  and \<open>localeLower\<close> (\<open>toLocaleLowerCase\<close>). A family is a full record, so spreading one over another
  takes every field of the second.

  The lemmas: validation accepts exactly the well-formed families, moving an item back undoes the move, an
  edit is never lost by a refresh, and every connected provider is listed under exactly one remedy.
\<close>

definition MAX_MODELS_PER_FAMILY :: nat where
  "MAX_MODELS_PER_FAMILY = 5"

section \<open>Members and families\<close>

datatype reason = NoReason | TextReason string | MessageReason "string option"

definition unavailableReasonMessage :: "reason \<Rightarrow> string option" where
  "unavailableReasonMessage r =
     (case r of NoReason \<Rightarrow> None | TextReason s \<Rightarrow> if s = '''' then None else Some s | MessageReason m \<Rightarrow> m)"

record member_role =
  mr_name :: string
  mr_description :: "string option"

record edit_member =
  em_roles :: "member_role list option"
  em_providerId :: string
  em_providerLabel :: "string option"
  em_modelId :: string
  em_modelLabel :: "string option"
  em_available :: bool
  em_unavailableReason :: "string option"

record catalog_model =
  cm_id :: string
  cm_label :: "string option"
  cm_visible :: bool
  cm_available :: bool
  cm_reason :: reason

record catalog_provider =
  cp_id :: string
  cp_label :: "string option"
  cp_connected :: bool
  cp_reason :: reason
  cp_models :: "catalog_model list option"

definition modelMember :: "catalog_provider \<Rightarrow> catalog_model \<Rightarrow> edit_member" where
  "modelMember provider model =
     \<lparr>em_roles = Some [], em_providerId = cp_id provider, em_providerLabel = cp_label provider,
      em_modelId = cm_id model, em_modelLabel = cm_label model,
      em_available = (cp_connected provider \<and> cm_visible model \<and> cm_available model),
      em_unavailableReason =
        (if \<not> cp_connected provider then Some (str_or (unavailableReasonMessage (cp_reason provider)) ''This provider is not connected.'')
         else if \<not> cm_visible model then Some ''This model is hidden by the provider.''
         else unavailableReasonMessage (cm_reason model))\<rparr>"

record family_errors =
  fe_name :: "string option"
  fe_models :: "string option"
  fe_roles :: "string option"

definition no_errors :: family_errors where
  "no_errors = \<lparr>fe_name = None, fe_models = None, fe_roles = None\<rparr>"

record edit_family =
  ef_id :: jsval
  ef_name :: string
  ef_kind :: string
  ef_enabled :: bool
  ef_position :: "int option"
  ef_draft :: bool
  ef_editing :: bool
  ef_validationErrors :: family_errors
  ef_models :: "edit_member list"

record visibility_gate =
  vg_pending :: bool

definition createFamilyVisibilityGate :: visibility_gate where
  "createFamilyVisibilityGate = \<lparr>vg_pending = False\<rparr>"

definition visibility_begin :: "visibility_gate \<Rightarrow> bool \<times> visibility_gate" where
  "visibility_begin g = (if vg_pending g then (False, g) else (True, g\<lparr>vg_pending := True\<rparr>))"

definition visibility_end :: "visibility_gate \<Rightarrow> visibility_gate" where
  "visibility_end g = g\<lparr>vg_pending := False\<rparr>"

definition reconcileSavedFamily :: "edit_family \<Rightarrow> edit_family \<Rightarrow> edit_family" where
  "reconcileSavedFamily family saved =
     family\<lparr>ef_id := ef_id saved, ef_name := ef_name saved, ef_kind := ef_kind saved, ef_enabled := ef_enabled saved,
       ef_position := ef_position saved, ef_draft := False, ef_editing := False, ef_validationErrors := no_errors\<rparr>"

definition draft_id :: "int \<Rightarrow> jsval" where
  "draft_id sequence = JStr (''draft-'' @ show_int sequence)"

definition new_draft :: "int \<Rightarrow> string \<Rightarrow> edit_member list \<Rightarrow> edit_family" where
  "new_draft sequence name models =
     \<lparr>ef_id = draft_id sequence, ef_name = name, ef_kind = ''custom'', ef_enabled = True, ef_position = None, ef_draft = True,
      ef_editing = False, ef_validationErrors = no_errors, ef_models = models\<rparr>"

definition createModelFamilyDraft :: "catalog_provider list \<Rightarrow> int \<Rightarrow> string option \<Rightarrow> edit_family" where
  "createModelFamilyDraft catalog sequence defaultProviderId =
     (let provider = (case find (\<lambda>p. Some (cp_id p) = defaultProviderId \<and> cp_connected p) catalog of
                        Some p \<Rightarrow> Some p | None \<Rightarrow> find cp_connected catalog);
          model = Option.bind (Option.bind provider cp_models) (find (\<lambda>m. cm_visible m \<and> cm_available m)) in
      new_draft sequence '''' (case (provider, model) of (Some p, Some m) \<Rightarrow> [modelMember p m] | _ \<Rightarrow> []))"

definition with_roles :: "edit_member \<Rightarrow> edit_member" where
  "with_roles m = m\<lparr>em_roles := Some (case em_roles m of None \<Rightarrow> [] | Some rs \<Rightarrow> rs)\<rparr>"

definition copySystemFamily :: "edit_family \<Rightarrow> int \<Rightarrow> edit_family" where
  "copySystemFamily family sequence =
     new_draft sequence (''Copy of '' @ ef_name family) (take MAX_MODELS_PER_FAMILY (map with_roles (ef_models family)))"

definition replaceMemberProvider :: "catalog_provider \<Rightarrow> catalog_model option \<Rightarrow> edit_member" where
  "replaceMemberProvider provider model =
     (case model of
        Some m \<Rightarrow> modelMember provider m
      | None \<Rightarrow> \<lparr>em_roles = Some [], em_providerId = cp_id provider, em_providerLabel = cp_label provider, em_modelId = '''',
          em_modelLabel = Some ''Choose a model'', em_available = False, em_unavailableReason = Some ''Choose a model.''\<rparr>)"

definition replaceMemberModel :: "catalog_provider \<Rightarrow> catalog_model \<Rightarrow> edit_member" where
  "replaceMemberModel provider model = modelMember provider model"

definition availableModels :: "catalog_provider list \<Rightarrow> string \<Rightarrow> catalog_model list" where
  "availableModels catalog providerId =
     (case Option.bind (find (\<lambda>p. cp_id p = providerId) catalog) cp_models of None \<Rightarrow> [] | Some ms \<Rightarrow> ms)"

section \<open>Keeping an edit over a refresh\<close>

record preserved =
  pr_families :: "edit_family list"
  pr_indexes :: "nat list"
  pr_snapshot :: "edit_family option"

definition find_index :: "('a \<Rightarrow> bool) \<Rightarrow> 'a list \<Rightarrow> nat option" where
  "find_index P xs = find (\<lambda>i. P (xs ! i)) [0..<length xs]"

definition merged_edit :: "edit_family \<Rightarrow> edit_family \<Rightarrow> edit_family" where
  "merged_edit fresh active =
     active\<lparr>ef_id := ef_id fresh, ef_kind := ef_kind fresh, ef_position := ef_position fresh, ef_editing := True\<rparr>"

definition preserve_one :: "edit_family \<Rightarrow> preserved \<Rightarrow> preserved" where
  "preserve_one active p =
     (if \<not> ef_draft active \<and> \<not> ef_editing active then p
      else if ef_draft active then
        (if list_ex (\<lambda>f. eqId (ef_id f) (ef_id active)) (pr_families p) then p
         else p\<lparr>pr_families := pr_families p @ [active], pr_indexes := pr_indexes p @ [length (pr_families p)]\<rparr>)
      else
        case find_index (\<lambda>f. eqId (ef_id f) (ef_id active)) (pr_families p) of
          None \<Rightarrow> p
        | Some i \<Rightarrow>
            p\<lparr>pr_snapshot := (case pr_snapshot p of None \<Rightarrow> Some (pr_families p ! i) | Some s \<Rightarrow> Some s),
              pr_families := (pr_families p)[i := merged_edit (pr_families p ! i) active],
              pr_indexes := pr_indexes p @ [i]\<rparr>)"

definition preserveFamilyEditAfterRefresh :: "edit_family list \<Rightarrow> edit_family list \<Rightarrow> preserved" where
  "preserveFamilyEditAfterRefresh families actives =
     fold preserve_one actives \<lparr>pr_families = families, pr_indexes = [], pr_snapshot = None\<rparr>"

definition selectedIndex :: "preserved \<Rightarrow> int" where
  "selectedIndex p = (case pr_indexes p of [] \<Rightarrow> -1 | i # _ \<Rightarrow> int i)"

section \<open>Validation\<close>

definition ORCHESTRATOR :: string where
  "ORCHESTRATOR = ''orchestrator''"

definition roles_of :: "edit_member \<Rightarrow> member_role list" where
  "roles_of m = (case em_roles m of None \<Rightarrow> [] | Some rs \<Rightarrow> rs)"

definition member_identity :: "edit_member \<Rightarrow> string" where
  "member_identity m = em_providerId m @ [CHR 0x00] @ em_modelId m"

definition name_error :: "(string \<Rightarrow> string) \<Rightarrow> edit_family \<Rightarrow> edit_family list \<Rightarrow> string option" where
  "name_error localeLower family families =
     (let name = js_trim (ef_name family) in
      if name = '''' then Some ''Enter a family name.''
      else if list_ex (\<lambda>f. ef_id f \<noteq> ef_id family \<and> localeLower (js_trim (ef_name f)) = localeLower name) families
      then Some ''A family with this name already exists.''
      else None)"

fun has_duplicate :: "string list \<Rightarrow> string list \<Rightarrow> bool" where
  "has_duplicate seen [] = False"
| "has_duplicate seen (i # is) = (if i \<in> set seen then True else has_duplicate (seen @ [i]) is)"

definition models_error :: "edit_family \<Rightarrow> string option" where
  "models_error family =
     (let n = length (ef_models family) in
      if n = 0 then Some ''Add at least one model.''
      else if n > MAX_MODELS_PER_FAMILY
      then Some (''Remove '' @ show_nat (n - MAX_MODELS_PER_FAMILY) @ '' model'' @ (if n - MAX_MODELS_PER_FAMILY = 1 then '''' else ''s'') @ ''.'')
      else if has_duplicate [] (map member_identity (ef_models family)) then Some ''Each provider model can appear only once.''
      else None)"

text \<open>The roles of one member, one after the other; \<open>True\<close> is a role that is refused.\<close>

fun bad_roles :: "(string \<Rightarrow> string) \<Rightarrow> string list \<Rightarrow> member_role list \<Rightarrow> bool" where
  "bad_roles lower names [] = False"
| "bad_roles lower names (r # rs) =
     (let name = js_trim (mr_name r) in
      if name = '''' \<or> length name > 80 \<or> lower name \<in> set names
         \<or> (lower name = ORCHESTRATOR \<and> name \<noteq> ORCHESTRATOR)
         \<or> length (case mr_description r of None \<Rightarrow> '''' | Some d \<Rightarrow> d) > 240
      then True else bad_roles lower (names @ [lower name]) rs)"

definition orchestrates :: "edit_member \<Rightarrow> bool" where
  "orchestrates m \<longleftrightarrow> list_ex (\<lambda>r. mr_name r = ORCHESTRATOR) (roles_of m)"

definition roles_error :: "(string \<Rightarrow> string) \<Rightarrow> edit_family \<Rightarrow> string option" where
  "roles_error lower family =
     (if list_ex (\<lambda>m. length (roles_of m) > 32 \<or> bad_roles lower [] (roles_of m)) (ef_models family)
      then Some ''Use unique role names and short descriptions. The reserved role is orchestrator.''
      else if models_error family = None \<and> length (filter orchestrates (ef_models family)) \<noteq> 1
      then Some ''Choose exactly one orchestrator.''
      else None)"

definition validateCustomFamily ::
  "(string \<Rightarrow> string) \<Rightarrow> (string \<Rightarrow> string) \<Rightarrow> edit_family \<Rightarrow> edit_family list \<Rightarrow> family_errors" where
  "validateCustomFamily lower localeLower family families =
     \<lparr>fe_name = name_error localeLower family families, fe_models = models_error family, fe_roles = roles_error lower family\<rparr>"

section \<open>Reordering\<close>

definition moveItem :: "'a list \<Rightarrow> int \<Rightarrow> int \<Rightarrow> 'a list" where
  "moveItem items fromIndex toIndex =
     (if fromIndex = toIndex \<or> fromIndex < 0 \<or> toIndex < 0
         \<or> fromIndex \<ge> int (length items) \<or> toIndex \<ge> int (length items) then items
      else
        let f = nat fromIndex; t = nat toIndex; rest = take f items @ drop (Suc f) items in
        take t rest @ [items ! f] @ drop t rest)"

section \<open>Settings\<close>

text \<open>What the settings add to the picker's view of them: the harness's \<open>usableNow\<close> and reason, and the kind and
  managing provider of a family.\<close>

record settings_harness =
  st_harness :: harness
  st_usableNow :: bool
  st_permissionAvailable :: bool
  st_reason :: reason

record settings_family =
  sf_family :: model_family
  sf_kind :: string
  sf_managedProviderId :: jsval

record family_settings =
  fs_picker :: picker_settings
  fs_harnesses :: "settings_harness list"
  fs_families :: "settings_family list"

definition picker_view :: "family_settings \<Rightarrow> picker_settings" where
  "picker_view s = (fs_picker s)\<lparr>ps_harnesses := map st_harness (fs_harnesses s), ps_families := map sf_family (fs_families s)\<rparr>"

definition harness_id :: "settings_harness \<Rightarrow> string" where
  "harness_id h = hs_id (st_harness h)"

definition configured :: "family_settings \<Rightarrow> string \<Rightarrow> bool" where
  "configured s harnessId = harnessUsesConfigurationModel (picker_view s) (Some harnessId)"

definition runs_family :: "settings_harness \<Rightarrow> jsval \<Rightarrow> bool" where
  "runs_family h familyId \<longleftrightarrow>
     list_ex (\<lambda>i. eqId i familyId) (case hs_usableFamilyIds (st_harness h) of None \<Rightarrow> [] | Some ids \<Rightarrow> ids)"

definition defaultHarnessIsSelectable :: "family_settings \<Rightarrow> string \<Rightarrow> bool" where
  "defaultHarnessIsSelectable s harnessId =
     (case find (\<lambda>h. harness_id h = harnessId) (fs_harnesses s) of
        None \<Rightarrow> False
      | Some h \<Rightarrow>
          if configured s (harness_id h) then True
          else if \<not> st_usableNow h then False
          else is_nullish (ps_defaultFamilyId (fs_picker s)) \<or> runs_family h (ps_defaultFamilyId (fs_picker s)))"

definition usableDefaultHarnesses :: "family_settings \<Rightarrow> settings_harness list" where
  "usableDefaultHarnesses s = filter (\<lambda>h. defaultHarnessIsSelectable s (harness_id h)) (fs_harnesses s)"

definition default_setup :: "(string \<Rightarrow> string \<Rightarrow> bool) \<Rightarrow> family_settings \<Rightarrow> model_setup option" where
  "default_setup re s = defaultFamilyModelSetup re (picker_view s) (ps_defaultHarnessId (fs_picker s))"

definition defaultHarnessError :: "(string \<Rightarrow> string \<Rightarrow> bool) \<Rightarrow> family_settings \<Rightarrow> string option" where
  "defaultHarnessError re s =
     (case find (\<lambda>h. Some (harness_id h) = ps_defaultHarnessId (fs_picker s)) (fs_harnesses s) of
        None \<Rightarrow> Some ''The default harness is no longer configured.''
      | Some h \<Rightarrow>
          if \<not> hs_available (st_harness h)
          then Some (str_or (unavailableReasonMessage (st_reason h)) ''No available models for this harness.'')
          else if default_setup re s \<noteq> None then None
          else if \<not> st_usableNow h \<and> \<not> configured s (harness_id h)
          then Some ''No currently connected provider and eligible model can use this harness.''
          else if \<not> defaultHarnessIsSelectable s (harness_id h)
          then Some ''No eligible model in the default family can use this harness.''
          else None)"

record recovery_presentation =
  rp_providerId :: "string option"
  rp_title :: string
  rp_message :: string
  rp_action :: string
  rp_actionLabel :: string
  rp_actionName :: string
  rp_busyName :: "string option"

text \<open>\<open>\<dots> ?? provider?.label ?? modelSetup.providerId\<close>; a missing id prints as \<open>undefined\<close>.\<close>

definition provider_label :: "family_settings \<Rightarrow> model_setup \<Rightarrow> string" where
  "provider_label s m =
     (case ms_providerLabel m of
        Some l \<Rightarrow> l
      | None \<Rightarrow>
          (case Option.bind (find (\<lambda>p. Some (pp_id p) = ms_providerId m) (ps_providers (fs_picker s))) pp_label of
             Some l \<Rightarrow> l
           | None \<Rightarrow> label_or (ms_providerId m) ''undefined''))"

definition defaultFamilyRecoveryPresentation :: "(string \<Rightarrow> string \<Rightarrow> bool) \<Rightarrow> family_settings \<Rightarrow> recovery_presentation option" where
  "defaultFamilyRecoveryPresentation re s =
     (case default_setup re s of
        None \<Rightarrow> None
      | Some m \<Rightarrow>
          let base = (\<lambda>action label name busy.
            \<lparr>rp_providerId = ms_providerId m, rp_title = ms_label m, rp_message = ms_message m, rp_action = action,
             rp_actionLabel = label, rp_actionName = name, rp_busyName = busy\<rparr>) in
          Some (if ms_action m = ''refresh'' then base ''refresh'' (ms_actionLabel m) (ms_actionName m) (ms_busyName m)
                else if ms_action m = ''family-settings'' then base ''families'' ''Open Model Families'' (ms_actionName m) None
                else base ''providers'' ''Open Providers'' (''Reconnect '' @ provider_label s m @ '' under Providers'') None))"

definition harness_runs :: "jsval \<Rightarrow> settings_harness \<Rightarrow> bool" where
  "harness_runs familyId h \<longleftrightarrow> hs_available (st_harness h) \<and> st_usableNow h \<and> runs_family h familyId"

definition harnessCanRunFamily :: "family_settings \<Rightarrow> jsval \<Rightarrow> bool" where
  "harnessCanRunFamily s familyId =
     ((case find (\<lambda>h. Some (harness_id h) = ps_defaultHarnessId (fs_picker s)) (fs_harnesses s) of
         None \<Rightarrow> False
       | Some h \<Rightarrow> configured s (harness_id h) \<or> harness_runs familyId h)
      \<or> list_ex (\<lambda>h. st_permissionAvailable h \<and> \<not> configured s (harness_id h) \<and> harness_runs familyId h) (fs_harnesses s))"

record provider_choices =
  pc_selectable :: "picker_provider list"
  pc_needsRefresh :: "picker_provider list"
  pc_noHarness :: "picker_provider list"

definition managed_family :: "family_settings \<Rightarrow> picker_provider \<Rightarrow> settings_family option" where
  "managed_family s p =
     find (\<lambda>f. sf_kind f = ''system'' \<and> pf_enabled (sf_family f) \<and> eqId (sf_managedProviderId f) (JStr (pp_id p))) (fs_families s)"

definition choose_provider :: "family_settings \<Rightarrow> picker_provider \<Rightarrow> provider_choices \<Rightarrow> provider_choices" where
  "choose_provider s p c =
     (if \<not> pp_connected p then c
      else case managed_family s p of
             None \<Rightarrow> c\<lparr>pc_needsRefresh := pc_needsRefresh c @ [p]\<rparr>
           | Some f \<Rightarrow>
               if \<not> harnessCanRunFamily s (pf_id (sf_family f)) then c\<lparr>pc_noHarness := pc_noHarness c @ [p]\<rparr>
               else c\<lparr>pc_selectable := pc_selectable c @ [p]\<rparr>)"

definition defaultProviderChoices :: "family_settings \<Rightarrow> provider_choices" where
  "defaultProviderChoices s =
     fold (choose_provider s) (ps_providers (fs_picker s)) \<lparr>pc_selectable = [], pc_needsRefresh = [], pc_noHarness = []\<rparr>"

fun join_with :: "string \<Rightarrow> string list \<Rightarrow> string" where
  "join_with sep [] = ''''"
| "join_with sep [s] = s"
| "join_with sep (s # t # ss) = s @ sep @ join_with sep (t # ss)"

definition joinLabels :: "picker_provider list \<Rightarrow> string" where
  "joinLabels ps = join_with '', '' (map (\<lambda>p. label_or (pp_label p) '''') ps)"

definition defaultProviderHint :: "provider_choices \<Rightarrow> jsval \<Rightarrow> string option" where
  "defaultProviderHint c currentProviderId =
     (let keep = filter (\<lambda>p. \<not> eqId (JStr (pp_id p)) currentProviderId);
          needsRefresh = keep (pc_needsRefresh c);
          noHarness = keep (pc_noHarness c);
          lines =
            (if length needsRefresh = 1
             then [joinLabels needsRefresh @ '' has no usable model family yet. Refresh its models to make it the default.'']
             else if needsRefresh \<noteq> []
             then [joinLabels needsRefresh @ '' have no usable model family yet. Refresh their models to make one the default.'']
             else [])
            @ (if length noHarness = 1
               then [''No available harness can run '' @ joinLabels noHarness @ '' models, so it cannot be the default.'']
               else if noHarness \<noteq> []
               then [''No available harness can run models from '' @ joinLabels noHarness @ '', so they cannot be the default.'']
               else []) in
      if lines = [] then None else Some (join_with '' '' lines))"

text \<open>The saved defaults of a provider save: the harness and the provider. An absent id is \<open>JUndef\<close>.\<close>

record saved_defaults =
  sd_harnessId :: jsval
  sd_providerId :: jsval

definition js_truthy_id :: "jsval \<Rightarrow> bool" where
  "js_truthy_id v \<longleftrightarrow> \<not> is_nullish v \<and> v \<noteq> JStr '''' \<and> v \<noteq> JNum 0"

definition defaultHarnessChangeNotice :: "saved_defaults option \<Rightarrow> saved_defaults option \<Rightarrow> family_settings \<Rightarrow> string option" where
  "defaultHarnessChangeNotice previous saved s =
     (case (previous, saved) of
        (Some p, Some d) \<Rightarrow>
          if \<not> js_truthy_id (sd_harnessId d) \<or> sd_harnessId p = sd_harnessId d then None
          else
            let hl = Option.bind (find (\<lambda>h. JStr (harness_id h) = sd_harnessId d) (fs_harnesses s)) (\<lambda>h. hs_label (st_harness h));
                pl = Option.bind (find (\<lambda>q. JStr (pp_id q) = sd_providerId d) (ps_providers (fs_picker s))) pp_label in
            Some (''Saved. The default harness is now '' @ label_or hl (js_String (sd_harnessId d)) @ '', which can run ''
              @ label_or pl (js_String (sd_providerId d)) @ '' models.'')
      | _ \<Rightarrow> None)"

section \<open>Validation accepts the well-formed families\<close>

lemma has_duplicate_iff: "distinct seen \<Longrightarrow> has_duplicate seen is \<longleftrightarrow> \<not> distinct (seen @ is)"
  by (induction seen "is" rule: has_duplicate.induct) auto

definition role_ok :: "(string \<Rightarrow> string) \<Rightarrow> member_role \<Rightarrow> bool" where
  "role_ok lower r \<longleftrightarrow>
     js_trim (mr_name r) \<noteq> '''' \<and> length (js_trim (mr_name r)) \<le> 80
     \<and> (lower (js_trim (mr_name r)) = ORCHESTRATOR \<longrightarrow> js_trim (mr_name r) = ORCHESTRATOR)
     \<and> length (case mr_description r of None \<Rightarrow> '''' | Some d \<Rightarrow> d) \<le> 240"

lemma bad_roles_iff:
  "distinct names \<Longrightarrow> bad_roles lower names rs \<longleftrightarrow>
     \<not> (list_all (role_ok lower) rs \<and> distinct (names @ map (\<lambda>r. lower (js_trim (mr_name r))) rs))"
  by (induction lower names rs rule: bad_roles.induct) (auto simp: role_ok_def Let_def)

definition roles_ok :: "(string \<Rightarrow> string) \<Rightarrow> edit_member \<Rightarrow> bool" where
  "roles_ok lower m \<longleftrightarrow>
     length (roles_of m) \<le> 32 \<and> list_all (role_ok lower) (roles_of m)
     \<and> distinct (map (\<lambda>r. lower (js_trim (mr_name r))) (roles_of m))"

lemma models_error_iff:
  "models_error family = None \<longleftrightarrow>
     ef_models family \<noteq> [] \<and> length (ef_models family) \<le> 5 \<and> distinct (map member_identity (ef_models family))"
  using has_duplicate_iff [of "[]" "map member_identity (ef_models family)"]
  by (auto simp: models_error_def Let_def MAX_MODELS_PER_FAMILY_def)

text \<open>C17. Validation accepts exactly the well-formed families: it reports nothing if and only if the name is not
  blank and no other family has it in another case, there are one to five different models, exactly one
  member is the orchestrator, and every member has at most 32 roles with different, short, named roles
  that do not imitate the reserved one.\<close>

theorem validation_accepts_well_formed:
  "validateCustomFamily lower localeLower family families = no_errors \<longleftrightarrow>
     js_trim (ef_name family) \<noteq> ''''
     \<and> \<not> list_ex (\<lambda>f. ef_id f \<noteq> ef_id family \<and> localeLower (js_trim (ef_name f)) = localeLower (js_trim (ef_name family))) families
     \<and> 1 \<le> length (ef_models family) \<and> length (ef_models family) \<le> 5
     \<and> distinct (map member_identity (ef_models family))
     \<and> length (filter orchestrates (ef_models family)) = 1
     \<and> list_all (roles_ok lower) (ef_models family)"
proof -
  have "length (roles_of m) > 32 \<or> bad_roles lower [] (roles_of m) \<longleftrightarrow> \<not> roles_ok lower m" for m
    using bad_roles_iff [of "[]" lower "roles_of m"] by (auto simp: roles_ok_def)
  then have roles: "roles_error lower family = None \<longleftrightarrow>
      list_all (roles_ok lower) (ef_models family) \<and> (models_error family = None \<longrightarrow> length (filter orchestrates (ef_models family)) = 1)"
    by (auto simp: roles_error_def list_ex_iff list_all_iff)
  have name: "name_error localeLower family families = None \<longleftrightarrow>
      js_trim (ef_name family) \<noteq> ''''
      \<and> \<not> list_ex (\<lambda>f. ef_id f \<noteq> ef_id family \<and> localeLower (js_trim (ef_name f)) = localeLower (js_trim (ef_name family))) families"
    by (simp add: name_error_def Let_def)
  have "validateCustomFamily lower localeLower family families = no_errors \<longleftrightarrow>
      name_error localeLower family families = None \<and> models_error family = None \<and> roles_error lower family = None"
    by (simp add: validateCustomFamily_def no_errors_def)
  then show ?thesis unfolding name roles models_error_iff by (cases "ef_models family") auto
qed

section \<open>Reordering\<close>

lemma moveItem_inside:
  assumes "f < length xs" "t < length xs" "f \<noteq> t"
  shows "moveItem xs (int f) (int t) = take t (take f xs @ drop (Suc f) xs) @ [xs ! f] @ drop t (take f xs @ drop (Suc f) xs)"
  using assms by (simp add: moveItem_def Let_def)

lemma insert_parts:
  assumes "t \<le> length r" and ys: "ys = take t r @ [x] @ drop t r"
  shows "length ys = Suc (length r)" "ys ! t = x" "take t ys @ drop (Suc t) ys = r" "mset ys = add_mset x (mset r)"
proof -
  have t: "length (take t r) = t" using assms(1) by simp
  show "length ys = Suc (length r)" unfolding ys using assms(1) by simp
  show "ys ! t = x" unfolding ys using t by (simp add: nth_append)
  show "take t ys @ drop (Suc t) ys = r" unfolding ys using t by simp
  have "mset ys = add_mset x (mset (take t r @ drop t r))" unfolding ys by (simp del: append_take_drop_id)
  then show "mset ys = add_mset x (mset r)" by (simp only: append_take_drop_id)
qed

lemma moveItem_parts:
  assumes "f < length xs" "t < length xs" "f \<noteq> t"
  defines "ys \<equiv> moveItem xs (int f) (int t)"
  shows "length ys = length xs" "ys ! t = xs ! f" "take t ys @ drop (Suc t) ys = take f xs @ drop (Suc f) xs" "mset ys = mset xs"
proof -
  let ?r = "take f xs @ drop (Suc f) xs"
  have r: "length ?r = length xs - 1" using assms(1) by simp
  have xs: "xs = take f xs @ xs ! f # drop (Suc f) xs" using assms(1) by (simp add: id_take_nth_drop [symmetric])
  have "t \<le> length ?r" using r assms(2) by simp
  note p = insert_parts [OF this moveItem_inside [OF assms(1-3)], folded ys_def]
  show "length ys = length xs" using p(1) r assms(1) by simp
  show "ys ! t = xs ! f" by (rule p(2))
  show "take t ys @ drop (Suc t) ys = ?r" by (rule p(3))
  have "mset xs = add_mset (xs ! f) (mset ?r)" by (subst xs) simp
  then show "mset ys = mset xs" using p(4) by simp
qed

lemma moveItem_back:
  assumes "f < length xs" "t < length xs" "f \<noteq> t"
  shows "moveItem (moveItem xs (int f) (int t)) (int t) (int f) = xs"
proof -
  let ?ys = "moveItem xs (int f) (int t)"
  note p = moveItem_parts [OF assms]
  have "moveItem ?ys (int t) (int f) = take f (take t ?ys @ drop (Suc t) ?ys) @ [?ys ! t] @ drop f (take t ?ys @ drop (Suc t) ?ys)"
    by (rule moveItem_inside) (use p(1) assms in auto)
  also have "\<dots> = take f xs @ [xs ! f] @ drop (Suc f) xs"
    unfolding p(2,3) using assms(1) by simp
  also have "\<dots> = xs" using assms(1) by (simp add: id_take_nth_drop [symmetric])
  finally show ?thesis .
qed

text \<open>Moving an item is undone by moving it back: for any two positions, also outside the list, the result has the
  same items, the moved one at its new position, and the move back gives the list again.\<close>

theorem moveItem_roundtrip:
  "mset (moveItem xs from to) = mset xs
   \<and> moveItem (moveItem xs from to) to from = xs
   \<and> (if 0 \<le> from \<and> from < int (length xs) \<and> 0 \<le> to \<and> to < int (length xs)
      then moveItem xs from to ! nat to = xs ! nat from else moveItem xs from to = xs)"
proof (cases "from \<noteq> to \<and> 0 \<le> from \<and> from < int (length xs) \<and> 0 \<le> to \<and> to < int (length xs)")
  case True
  have ft: "nat from < length xs" "nat to < length xs" "nat from \<noteq> nat to" "int (nat from) = from" "int (nat to) = to"
    using True by linarith+
  show ?thesis
    using True moveItem_parts [OF ft(1-3), unfolded ft(4,5)] moveItem_back [OF ft(1-3), unfolded ft(4,5)] by simp
next
  case False
  then have "moveItem xs from to = xs" "moveItem xs to from = xs" by (auto simp: moveItem_def)
  moreover have "xs ! nat to = xs ! nat from" if "0 \<le> from \<and> from < int (length xs) \<and> 0 \<le> to \<and> to < int (length xs)"
    using False that by simp
  ultimately show ?thesis by simp
qed

section \<open>Edits survive a refresh\<close>

text \<open>A family after the refresh: the running edit over it, if there is one.\<close>

definition edits :: "edit_family \<Rightarrow> edit_family \<Rightarrow> bool" where
  "edits f a \<longleftrightarrow> \<not> ef_draft a \<and> ef_editing a \<and> eqId (ef_id f) (ef_id a)"

definition edited :: "edit_family list \<Rightarrow> edit_family \<Rightarrow> edit_family" where
  "edited actives f = (case find (edits f) actives of Some a \<Rightarrow> merged_edit f a | None \<Rightarrow> f)"

definition unsaved :: "edit_family list \<Rightarrow> edit_family \<Rightarrow> bool" where
  "unsaved families a \<longleftrightarrow> ef_draft a \<and> \<not> list_ex (\<lambda>f. eqId (ef_id f) (ef_id a)) families"

lemma edited_id [simp]: "ef_id (edited actives f) = ef_id f"
  by (simp add: edited_def merged_edit_def split: option.splits)

lemma find_snoc: "find P (xs @ [x]) = (case find P xs of Some y \<Rightarrow> Some y | None \<Rightarrow> if P x then Some x else None)"
  by (induction xs) auto

lemma find_index_map_append:
  assumes "distinct (map (\<lambda>f. js_String (ef_id f)) fs)" "i < length fs" "eqId (ef_id (fs ! i)) v" "\<And>f. ef_id (g f) = ef_id f"
  shows "find_index (\<lambda>f. eqId (ef_id f) v) (map g fs @ ds) = Some i"
proof -
  have hit: "eqId (ef_id ((map g fs @ ds) ! j)) v \<longleftrightarrow> j = i" if "j \<le> i" for j
  proof -
    have j: "(map g fs @ ds) ! j = g (fs ! j)" "j < length fs" using that assms(2) by (simp_all add: nth_append)
    have "js_String (ef_id (fs ! j)) = js_String (ef_id (fs ! i)) \<longleftrightarrow> j = i"
      using nth_eq_iff_index_eq [OF assms(1)] j(2) assms(2) by simp
    then show ?thesis using assms(3,4) j(1) by (auto simp: eqId_def)
  qed
  have "[0..<length (map g fs @ ds)] = [0..<i] @ i # [Suc i..<length (map g fs @ ds)]"
    using upt_add_eq_append [of 0 i "length (map g fs @ ds) - i"] assms(2) upt_conv_Cons [of i "length (map g fs @ ds)"] by simp
  moreover have "find (\<lambda>j. eqId (ef_id ((map g fs @ ds) ! j)) v) [0..<i] = None" using hit by (auto simp: find_None_iff)
  moreover have "find P (xs @ ys) = (case find P xs of None \<Rightarrow> find P ys | Some x \<Rightarrow> Some x)" for P and xs ys :: "nat list"
    by (induction xs) auto
  ultimately show ?thesis unfolding find_index_def using hit [of i] by simp
qed

lemma find_index_None: "find_index P xs = None \<longleftrightarrow> \<not> list_ex P xs"
  by (force simp: find_index_def find_None_iff list_ex_iff in_set_conv_nth)

lemma preserve_closed_form:
  assumes f: "distinct (map (\<lambda>f. js_String (ef_id f)) families)" and a: "distinct (map (\<lambda>a. js_String (ef_id a)) actives)"
  shows "pr_families (preserveFamilyEditAfterRefresh families actives) = map (edited actives) families @ filter (unsaved families) actives"
  using a
proof (induction actives rule: rev_induct)
  case Nil
  then show ?case by (simp add: preserveFamilyEditAfterRefresh_def edited_def)
next
  case (snoc a as)
  let ?p = "preserveFamilyEditAfterRefresh families as"
  have step: "preserveFamilyEditAfterRefresh families (as @ [a]) = preserve_one a ?p" by (simp add: preserveFamilyEditAfterRefresh_def)
  have ih: "pr_families ?p = map (edited as) families @ filter (unsaved families) as" using snoc by simp
  have other: "\<not> eqId (ef_id b) (ef_id a)" if "b \<in> set as" for b
    using snoc.prems that by (auto simp: eqId_def image_iff)
  have ex: "list_ex (\<lambda>f. eqId (ef_id f) (ef_id a)) (pr_families ?p) \<longleftrightarrow> list_ex (\<lambda>f. eqId (ef_id f) (ef_id a)) families"
    using other by (fastforce simp: ih list_ex_iff bex_Un)
  have same: "edited (as @ [a]) f = edited as f" if "\<not> edits f a" for f using that by (auto simp: edited_def find_snoc split: option.splits)
  consider (idle) "\<not> ef_draft a" "\<not> ef_editing a" | (draft) "ef_draft a" | (edit) "\<not> ef_draft a" "ef_editing a" by blast
  then show ?case
  proof cases
    case idle
    then have "edited (as @ [a]) = edited as" "\<not> unsaved families a" using same by (auto simp: edits_def unsaved_def)
    with idle ih show ?thesis by (simp add: step preserve_one_def)
  next
    case draft
    then have "edited (as @ [a]) = edited as" "unsaved families a \<longleftrightarrow> \<not> list_ex (\<lambda>f. eqId (ef_id f) (ef_id a)) families"
      using same by (auto simp: edits_def unsaved_def)
    with draft ih ex show ?thesis by (simp add: step preserve_one_def)
  next
    case edit
    then have nu: "\<not> unsaved families a" by (simp add: unsaved_def)
    show ?thesis
    proof (cases "list_ex (\<lambda>f. eqId (ef_id f) (ef_id a)) families")
      case False
      then have "map (edited (as @ [a])) families = map (edited as) families"
        using same by (auto simp: edits_def list_ex_iff)
      moreover have "find_index (\<lambda>f. eqId (ef_id f) (ef_id a)) (pr_families ?p) = None" using False ex by (simp add: find_index_None)
      ultimately show ?thesis using edit ih nu by (simp add: step preserve_one_def)
    next
      case True
      then obtain i where i: "i < length families" "eqId (ef_id (families ! i)) (ef_id a)"
        by (auto simp: list_ex_iff in_set_conv_nth)
      have idx: "find_index (\<lambda>f. eqId (ef_id f) (ef_id a)) (pr_families ?p) = Some i"
        unfolding ih by (rule find_index_map_append [OF f i]) simp
      have none: "find (edits (families ! i)) as = None"
        using other i(2) by (metis edits_def eqId_sym eqId_trans find_None_iff)
      have "(map (edited as) families)[i := merged_edit (families ! i) a] = map (edited (as @ [a])) families"
      proof (rule nth_equalityI)
        fix j assume j: "j < length ((map (edited as) families)[i := merged_edit (families ! i) a])"
        show "(map (edited as) families)[i := merged_edit (families ! i) a] ! j = map (edited (as @ [a])) families ! j"
        proof (cases "j = i")
          case True
          with i edit none show ?thesis by (simp add: edited_def find_snoc edits_def)
        next
          case False
          have "js_String (ef_id (families ! j)) \<noteq> js_String (ef_id (families ! i))"
            using False j i(1) nth_eq_iff_index_eq [OF f, of j i] by simp
          with i(2) have "\<not> edits (families ! j) a" by (simp add: edits_def eqId_def)
          with False j show ?thesis by (simp add: same)
        qed
      qed simp
      moreover have "(map (edited as) families @ filter (unsaved families) as) ! i = families ! i"
        using i(1) none by (simp add: nth_append edited_def)
      ultimately show ?thesis using edit idx ih nu i(1) by (simp add: step preserve_one_def list_update_append)
    qed
  qed
qed

text \<open>A refresh never loses an edit: with ids of their own for the families and for the edits, the refreshed list
  is the server's families in their order, each under its id, kind and position, with the running edit of it
  over the rest, followed by the drafts that are not saved yet.\<close>

theorem edits_survive_refresh:
  assumes "distinct (map (\<lambda>f. js_String (ef_id f)) families)" "distinct (map (\<lambda>a. js_String (ef_id a)) actives)"
  shows "let fs = pr_families (preserveFamilyEditAfterRefresh families actives); n = length families in
    map (\<lambda>f. (ef_id f, ef_kind f, ef_position f)) (take n fs) = map (\<lambda>f. (ef_id f, ef_kind f, ef_position f)) families
    \<and> drop n fs = filter (unsaved families) actives
    \<and> list_all2 (\<lambda>f g. case find (edits f) actives of
          None \<Rightarrow> g = f
        | Some a \<Rightarrow> ef_editing g \<and> ef_name g = ef_name a \<and> ef_enabled g = ef_enabled a \<and> ef_models g = ef_models a
            \<and> ef_validationErrors g = ef_validationErrors a) families (take n fs)"
proof -
  let ?fs = "pr_families (preserveFamilyEditAfterRefresh families actives)"
  have t: "take (length families) ?fs = map (edited actives) families" "drop (length families) ?fs = filter (unsaved families) actives"
    by (simp_all add: preserve_closed_form [OF assms])
  have "(ef_id (edited actives f), ef_kind (edited actives f), ef_position (edited actives f)) = (ef_id f, ef_kind f, ef_position f)" for f
    by (simp add: edited_def merged_edit_def split: option.splits)
  then have "map (\<lambda>f. (ef_id f, ef_kind f, ef_position f)) (map (edited actives) families) = map (\<lambda>f. (ef_id f, ef_kind f, ef_position f)) families"
    by simp
  moreover have "list_all2 (\<lambda>f g. case find (edits f) actives of
          None \<Rightarrow> g = f
        | Some a \<Rightarrow> ef_editing g \<and> ef_name g = ef_name a \<and> ef_enabled g = ef_enabled a \<and> ef_models g = ef_models a
            \<and> ef_validationErrors g = ef_validationErrors a) families (map (edited actives) families)"
    by (rule list_all2_all_nthI) (auto simp: edited_def merged_edit_def split: option.splits)
  ultimately show ?thesis unfolding Let_def t by blast
qed

definition demo_edit :: "string \<Rightarrow> bool \<Rightarrow> bool \<Rightarrow> string \<Rightarrow> edit_family" where
  "demo_edit i draft editing name =
     \<lparr>ef_id = JStr i, ef_name = name, ef_kind = ''custom'', ef_enabled = True, ef_position = None, ef_draft = draft,
      ef_editing = editing, ef_validationErrors = no_errors, ef_models = []\<rparr>"

theorem edits_survive_refresh_witness:
  "drop 1 (pr_families (preserveFamilyEditAfterRefresh [demo_edit ''a'' False False ''A'']
      [demo_edit ''a'' False True ''Edited'', demo_edit ''d'' True False ''Draft''])) = [demo_edit ''d'' True False ''Draft'']"
  using edits_survive_refresh [of "[demo_edit ''a'' False False ''A'']" "[demo_edit ''a'' False True ''Edited'', demo_edit ''d'' True False ''Draft'']"]
  by (auto simp: Let_def demo_edit_def unsaved_def)

section \<open>Provider choices\<close>

text \<open>Every connected provider is listed exactly once, in the order of the settings.\<close>

datatype remedy = Selectable | NeedsRefresh | NoHarness

definition remedy_for :: "family_settings \<Rightarrow> picker_provider \<Rightarrow> remedy" where
  "remedy_for s p =
     (case managed_family s p of
        None \<Rightarrow> NeedsRefresh
      | Some f \<Rightarrow> if harnessCanRunFamily s (pf_id (sf_family f)) then Selectable else NoHarness)"

lemma defaultProviderChoices_partition:
  "defaultProviderChoices s =
     (let ps = filter pp_connected (ps_providers (fs_picker s)) in
      \<lparr>pc_selectable = filter (\<lambda>p. remedy_for s p = Selectable) ps, pc_needsRefresh = filter (\<lambda>p. remedy_for s p = NeedsRefresh) ps,
       pc_noHarness = filter (\<lambda>p. remedy_for s p = NoHarness) ps\<rparr>)"
proof -
  have "fold (choose_provider s) ps c =
      c\<lparr>pc_selectable := pc_selectable c @ filter (\<lambda>p. remedy_for s p = Selectable) (filter pp_connected ps),
        pc_needsRefresh := pc_needsRefresh c @ filter (\<lambda>p. remedy_for s p = NeedsRefresh) (filter pp_connected ps),
        pc_noHarness := pc_noHarness c @ filter (\<lambda>p. remedy_for s p = NoHarness) (filter pp_connected ps)\<rparr>" for ps c
    by (induction ps arbitrary: c) (auto simp: choose_provider_def remedy_for_def split: option.splits)
  then show ?thesis by (simp add: defaultProviderChoices_def Let_def)
qed

end
