(* ===== verification/SettingsStore.thy ===== *)
theory SettingsStore
  imports JsBytes
begin

text \<open>
  The settings file of the desktop (\<open>desktop/main/services/settings-store.mjs\<close>). Mutations form a chain of promises:
  \<open>ss_queue\<close> holds the ones that have not settled, the first of them is running, and the others wait for it. A
  running mutation goes through its file operations one at a time (\<open>mutation_phase\<close>), and each of them may
  fail. The process may stop after any step, so what holds in every reachable state holds of the file a later
  start finds.

  The results: the store refines the fold of its updates. The file always holds the last value that was
  renamed into place; each update was computed from the value the previous mutation left, so no update is
  lost however calls overlap; and a mutation that settled with a value has that value in the history
  (\<open>settings_serializable\<close>). A read returns what the mutations before it left (\<open>read_sees_settled\<close>).

  Parameters: the function of an update, and which file operations fail. Renaming is atomic, and a text that
  \<open>JSON.stringify\<close> wrote parses back.
\<close>

section \<open>Data\<close>

text \<open>The text of the file: JSON, or something \<open>JSON.parse\<close> rejects.\<close>

datatype settings_text = SJson jv | SGarbage

datatype settings_mutation = SWrite jv | SUpdate "jv \<Rightarrow> js_error + jv"

text \<open>Where the running mutation is: before its read or write, with the next value computed, with the temporary file
  written, renamed into place.\<close>

datatype mutation_phase = PhaseStart | PhaseNext jv | PhaseTemp jv | PhaseRenamed jv

record settings_store =
  ss_file :: "settings_text option"
  ss_temp :: "jv option"
  ss_queue :: "(nat \<times> settings_mutation) list"
  ss_phase :: mutation_phase
  ss_nextId :: nat
  ss_settled :: "(nat \<times> (js_error + jv)) list"
  ss_history :: "(nat \<times> settings_mutation \<times> jv) list"

definition createSettingsStore :: "settings_text option \<Rightarrow> settings_store" where
  "createSettingsStore file = \<lparr>ss_file = file, ss_temp = None, ss_queue = [], ss_phase = PhaseStart, ss_nextId = 0,
     ss_settled = [], ss_history = []\<rparr>"

text \<open>\<open>readFileSettings\<close>: a missing file is the empty object, a text that does not parse throws.\<close>

definition readFileSettings :: "settings_text option \<Rightarrow> js_error + jv" where
  "readFileSettings file = (case file of
       None \<Rightarrow> Inr (VObj [])
     | Some (SJson v) \<Rightarrow> Inr v
     | Some SGarbage \<Rightarrow> Inl (Error ''SyntaxError''))"

section \<open>Operations\<close>

text \<open>\<open>mutate(operation)\<close>: the operation joins the end of the chain. \<open>write\<close> and \<open>update\<close> are the two callers.\<close>

definition settings_mutate :: "settings_mutation \<Rightarrow> settings_store \<Rightarrow> settings_store" where
  "settings_mutate op s = s\<lparr>ss_queue := ss_queue s @ [(ss_nextId s, op)], ss_nextId := Suc (ss_nextId s)\<rparr>"

definition settings_write :: "jv \<Rightarrow> settings_store \<Rightarrow> settings_store" where
  "settings_write v s = settings_mutate (SWrite v) s"

definition settings_update :: "(jv \<Rightarrow> js_error + jv) option \<Rightarrow> settings_store \<Rightarrow> js_error + settings_store" where
  "settings_update f s = (case f of
       None \<Rightarrow> Inl (TypeError ''Settings update must be a function.'')
     | Some g \<Rightarrow> Inr (settings_mutate (SUpdate g) s))"

text \<open>The first mutation settles, and the next one starts.\<close>

definition settle_mutation :: "(js_error + jv) \<Rightarrow> settings_store \<Rightarrow> settings_store" where
  "settle_mutation r s = s\<lparr>ss_settled := ss_settled s @ [(fst (hd (ss_queue s)), r)], ss_queue := tl (ss_queue s),
     ss_phase := PhaseStart\<rparr>"

text \<open>One file operation of the running mutation; \<open>io\<close> is its error, if it fails. Reading and computing the next value;
  \<open>mkdir\<close> and \<open>writeFile\<close> of the temporary file; \<open>rename\<close>; the \<open>rm\<close> of the \<open>finally\<close>, whose own failure replaces the
  result. A failure on the way also runs the \<open>rm\<close>.\<close>

definition fail_mutation :: "js_error \<Rightarrow> settings_store \<Rightarrow> settings_store" where
  "fail_mutation e s = settle_mutation (Inl e) (s\<lparr>ss_temp := None\<rparr>)"

definition first_value :: "settings_mutation \<Rightarrow> settings_text option \<Rightarrow> js_error + jv" where
  "first_value op file = (case op of
       SWrite v \<Rightarrow> Inr v
     | SUpdate f \<Rightarrow> bind_r (readFileSettings file) f)"

text \<open>\<open>write\<close> answers nothing, \<open>update\<close> the value it wrote.\<close>

definition mutation_result :: "settings_mutation \<Rightarrow> jv \<Rightarrow> jv" where
  "mutation_result op v = (case op of SWrite _ \<Rightarrow> VUndef | SUpdate _ \<Rightarrow> v)"

definition settings_advance :: "js_error option \<Rightarrow> settings_store \<Rightarrow> settings_store" where
  "settings_advance io s = (case ss_queue s of
       [] \<Rightarrow> s
     | (i, op) # rest \<Rightarrow> (case ss_phase s of
           PhaseStart \<Rightarrow> (case (io, first_value op (ss_file s)) of
               (Some e, _) \<Rightarrow> settle_mutation (Inl e) s
             | (None, Inl e) \<Rightarrow> settle_mutation (Inl e) s
             | (None, Inr v) \<Rightarrow> s\<lparr>ss_phase := PhaseNext v\<rparr>)
         | PhaseNext v \<Rightarrow> (case io of
               Some e \<Rightarrow> fail_mutation e s
             | None \<Rightarrow> s\<lparr>ss_temp := Some v, ss_phase := PhaseTemp v\<rparr>)
         | PhaseTemp v \<Rightarrow> (case io of
               Some e \<Rightarrow> fail_mutation e s
             | None \<Rightarrow> s\<lparr>ss_file := Some (SJson v), ss_temp := None, ss_history := ss_history s @ [(i, op, v)],
                         ss_phase := PhaseRenamed v\<rparr>)
         | PhaseRenamed v \<Rightarrow> (case io of
               Some e \<Rightarrow> settle_mutation (Inl e) s
             | None \<Rightarrow> settle_mutation (Inr (mutation_result op v)) s)))"

text \<open>\<open>read()\<close> waits for the mutations that were called before it: it is begun with the number of the next one and
  may run once all earlier ones have settled.\<close>

definition settings_read_begin :: "settings_store \<Rightarrow> nat" where
  "settings_read_begin s = ss_nextId s"

definition settings_read_ready :: "nat \<Rightarrow> settings_store \<Rightarrow> bool" where
  "settings_read_ready n s \<longleftrightarrow> list_all (\<lambda>(i, op). n \<le> i) (ss_queue s)"

definition settings_read_end :: "settings_store \<Rightarrow> js_error + jv" where
  "settings_read_end s = readFileSettings (ss_file s)"

datatype settings_event = SetWrite jv | SetUpdate "(jv \<Rightarrow> js_error + jv) option" | SetAdvance "js_error option"

definition settings_step :: "settings_event \<Rightarrow> settings_store \<Rightarrow> settings_store" where
  "settings_step ev s = (case ev of
       SetWrite v \<Rightarrow> settings_write v s
     | SetUpdate f \<Rightarrow> (case settings_update f s of Inl e \<Rightarrow> s | Inr s' \<Rightarrow> s')
     | SetAdvance io \<Rightarrow> settings_advance io s)"

section \<open>Refinement of a fold\<close>

text \<open>The specification: settings are a value, a mutation replaces it or computes it from the value before.\<close>

definition mutation_value :: "settings_mutation \<Rightarrow> settings_text option \<Rightarrow> jv \<Rightarrow> bool" where
  "mutation_value op file v \<longleftrightarrow> first_value op file = Inr v"

fun replay :: "settings_text option \<Rightarrow> (nat \<times> settings_mutation \<times> jv) list \<Rightarrow> settings_text option option" where
  "replay file [] = Some file"
| "replay file ((i, op, v) # h) = (if mutation_value op file v then replay (Some (SJson v)) h else None)"

lemma replay_append: "replay x (h @ h') = Option.bind (replay x h) (\<lambda>f. replay f h')"
  by (induction h arbitrary: x) (auto split: prod.splits)

definition unsettled_ids :: "settings_store \<Rightarrow> nat list" where
  "unsettled_ids s = map fst (ss_queue s)"

definition settings_inv :: "settings_text option \<Rightarrow> settings_store \<Rightarrow> bool" where
  "settings_inv file0 s \<longleftrightarrow>
     replay file0 (ss_history s) = Some (ss_file s)
     \<and> map fst (ss_settled s) @ unsettled_ids s = [0..<ss_nextId s]
     \<and> sorted_wrt (<) (map fst (ss_history s))
     \<and> (\<forall>i r. (i, Inr r) \<in> set (ss_settled s) \<longrightarrow> (\<exists>op v. (i, op, v) \<in> set (ss_history s) \<and> r = mutation_result op v))
     \<and> (case ss_queue s of
          [] \<Rightarrow> ss_phase s = PhaseStart \<and> (\<forall>i\<in>fst ` set (ss_history s). i < ss_nextId s)
        | (i, op) # rest \<Rightarrow> (case ss_phase s of
              PhaseRenamed v \<Rightarrow> (\<exists>h. ss_history s = h @ [(i, op, v)])
            | PhaseStart \<Rightarrow> (\<forall>j\<in>fst ` set (ss_history s). j < i)
            | PhaseNext v \<Rightarrow> first_value op (ss_file s) = Inr v \<and> (\<forall>j\<in>fst ` set (ss_history s). j < i)
            | PhaseTemp v \<Rightarrow> first_value op (ss_file s) = Inr v \<and> (\<forall>j\<in>fst ` set (ss_history s). j < i)))"

lemma settled_in_history:
  "settings_inv f s \<Longrightarrow> (i, Inr r) \<in> set (ss_settled s) \<Longrightarrow> \<exists>op v. (i, op, v) \<in> set (ss_history s) \<and> r = mutation_result op v"
  unfolding settings_inv_def by blast

lemma create_settings_inv: "settings_inv file (createSettingsStore file)"
  by (simp add: settings_inv_def createSettingsStore_def unsettled_ids_def)

lemma mutate_inv:
  assumes "settings_inv f s"
  shows "settings_inv f (settings_mutate op s)"
  using assms
  by (cases "ss_queue s") (auto simp: settings_inv_def settings_mutate_def unsettled_ids_def split: mutation_phase.splits)

lemma queue_numbers:
  assumes "settings_inv f s" "ss_queue s = (i, op) # rest"
  shows "map fst (ss_settled s) = [0..<i]" "map fst rest = [Suc i..<ss_nextId s]" "i < ss_nextId s"
proof -
  have split: "map fst (ss_settled s) @ i # map fst rest = [0..<ss_nextId s]"
    using assms by (simp add: settings_inv_def unsettled_ids_def)
  let ?n = "length (ss_settled s)"
  have len: "?n < ss_nextId s" using arg_cong [OF split, of length] by simp
  have "i = ?n" using arg_cong [OF split, of "\<lambda>xs. xs ! ?n"] len by (simp add: nth_append)
  then show "map fst (ss_settled s) = [0..<i]" "i < ss_nextId s"
    using arg_cong [OF split, of "take ?n"] len by simp_all
  show "map fst rest = [Suc i..<ss_nextId s]"
    using arg_cong [OF split, of "drop (Suc ?n)"] \<open>i = ?n\<close> by simp
qed

lemma settle_inv:
  assumes inv: "settings_inv f s" and q: "ss_queue s = (i, op) # rest"
    and hist: "\<forall>j\<in>fst ` set (ss_history s). j \<le> i"
    and res: "\<And>x. r = Inr x \<Longrightarrow> \<exists>v. (i, op, v) \<in> set (ss_history s) \<and> x = mutation_result op v"
  shows "settings_inv f (settle_mutation r s)"
proof -
  have next': "j = Suc i" if "rest = (j, op') # more" for j op' more
    using queue_numbers(2) [OF inv q] that by (auto simp: upt_eq_Cons_conv dest: sym)
  have "i < ss_nextId s" using queue_numbers(3) [OF inv q] .
  then show ?thesis
    using inv q hist res next'
    by (cases rest) (fastforce simp: settings_inv_def settle_mutation_def unsettled_ids_def le_imp_less_Suc)+
qed

lemma advance_inv:
  assumes inv: "settings_inv f s"
  shows "settings_inv f (settings_advance io s)"
proof (cases "ss_queue s")
  case Nil
  then show ?thesis using inv by (simp add: settings_advance_def)
next
  case (Cons q rest)
  obtain i op where q: "ss_queue s = (i, op) # rest" using Cons by (cases q) simp
  have temp: "settings_inv f (s\<lparr>ss_temp := None\<rparr>)" using inv by (cases "ss_phase s") (simp_all add: settings_inv_def unsettled_ids_def q)
  show ?thesis
  proof (cases "ss_phase s")
    case PhaseStart
    then have "\<forall>j\<in>fst ` set (ss_history s). j \<le> i" using inv q by (auto simp: settings_inv_def)
    then have fail: "settings_inv f (settle_mutation (Inl e) s)" for e by (intro settle_inv [OF inv q]) auto
    have "settings_inv f (s\<lparr>ss_phase := PhaseNext v\<rparr>)" if "first_value op (ss_file s) = Inr v" for v
      using inv q PhaseStart that by (simp add: settings_inv_def unsettled_ids_def)
    then show ?thesis using fail by (simp add: settings_advance_def q PhaseStart split: option.split sum.split)
  next
    case (PhaseNext v)
    then have "\<forall>j\<in>fst ` set (ss_history s). j \<le> i" using inv q by (auto simp: settings_inv_def)
    then have "settings_inv f (fail_mutation e s)" for e
      unfolding fail_mutation_def by (intro settle_inv [OF temp]) (auto simp: q)
    moreover have "settings_inv f (s\<lparr>ss_temp := Some v, ss_phase := PhaseTemp v\<rparr>)"
      using inv q PhaseNext by (simp add: settings_inv_def unsettled_ids_def)
    ultimately show ?thesis by (simp add: settings_advance_def q PhaseNext split: option.split)
  next
    case (PhaseTemp v)
    have now: "first_value op (ss_file s) = Inr v" "\<forall>j\<in>fst ` set (ss_history s). j < i"
      using inv q PhaseTemp by (simp_all add: settings_inv_def)
    then have "settings_inv f (fail_mutation e s)" for e
      unfolding fail_mutation_def by (intro settle_inv [OF temp]) (auto simp: q)
    moreover have "settings_inv f (s\<lparr>ss_file := Some (SJson v), ss_temp := None, ss_history := ss_history s @ [(i, op, v)],
        ss_phase := PhaseRenamed v\<rparr>)"
      using inv q now settled_in_history [OF inv]
      by (simp add: settings_inv_def unsettled_ids_def replay_append mutation_value_def sorted_wrt_append) blast
    ultimately show ?thesis by (simp add: settings_advance_def q PhaseTemp split: option.split)
  next
    case (PhaseRenamed v)
    obtain h where h: "ss_history s = h @ [(i, op, v)]" using inv q PhaseRenamed by (auto simp: settings_inv_def)
    then have "\<forall>j\<in>fst ` set (ss_history s). j \<le> i" using inv by (auto simp: settings_inv_def sorted_wrt_append)
    then have "settings_inv f (settle_mutation r s)" if "\<And>x. r = Inr x \<Longrightarrow> x = mutation_result op v" for r
      using that h by (intro settle_inv [OF inv q]) auto
    then have "settings_inv f (settle_mutation (Inr (mutation_result op v)) s)" "\<And>e. settings_inv f (settle_mutation (Inl e) s)"
      by auto
    then show ?thesis by (simp add: settings_advance_def q PhaseRenamed split: option.split)
  qed
qed

section \<open>The calls of a run\<close>

fun settings_calls :: "settings_event list \<Rightarrow> settings_mutation list" where
  "settings_calls [] = []"
| "settings_calls (SetWrite v # evs) = SWrite v # settings_calls evs"
| "settings_calls (SetUpdate (Some f) # evs) = SUpdate f # settings_calls evs"
| "settings_calls (_ # evs) = settings_calls evs"

lemma settings_calls_append: "settings_calls (es @ es') = settings_calls es @ settings_calls es'"
  by (induction es rule: settings_calls.induct) auto

text \<open>The mutations in the queue and in the history are those that were called, under the number of their call.\<close>

definition called_ok :: "settings_mutation list \<Rightarrow> settings_store \<Rightarrow> bool" where
  "called_ok cs s \<longleftrightarrow> ss_nextId s = length cs
     \<and> (\<forall>(i, op)\<in>set (ss_queue s). i < length cs \<and> cs ! i = op)
     \<and> (\<forall>(i, op, v)\<in>set (ss_history s). i < length cs \<and> cs ! i = op)"

lemma called_advance: "called_ok cs s \<Longrightarrow> called_ok cs (settings_advance io s)"
  by (cases "ss_queue s")
    (auto simp: called_ok_def settings_advance_def settle_mutation_def fail_mutation_def
      split: mutation_phase.splits option.splits sum.splits)

lemma called_mutate: "called_ok cs s \<Longrightarrow> called_ok (cs @ [op]) (settings_mutate op s)"
  by (fastforce simp: called_ok_def settings_mutate_def nth_append)

lemma settings_run:
  "settings_inv f (fold settings_step evs (createSettingsStore f))
   \<and> called_ok (settings_calls evs) (fold settings_step evs (createSettingsStore f))"
proof (induction evs rule: rev_induct)
  case Nil
  show ?case using create_settings_inv [of f] by (simp add: called_ok_def createSettingsStore_def)
next
  case (snoc ev evs)
  then show ?case
    using called_mutate called_advance mutate_inv advance_inv
    by (cases ev; cases "case ev of SetUpdate g \<Rightarrow> g | _ \<Rightarrow> None")
      (auto simp: settings_step_def settings_write_def settings_update_def settings_calls_append)
qed

interpretation settings_machine: machine settings_step "settings_inv f"
proof
  fix s :: settings_store and ev :: settings_event
  assume "settings_inv f s"
  then show "settings_inv f (settings_step ev s)"
    by (cases ev) (auto simp: settings_step_def settings_write_def settings_update_def mutate_inv advance_inv split: option.split)
qed

text \<open>C27. However writes, updates and failing file operations interleave, the file holds what the completed mutations
  leave when they are replayed one after the other, each update on the value the one before it left. They settle in
  the order of their calls, and a mutation that settled with a result is one of them.\<close>

theorem settings_serializable:
  "let s = fold settings_step evs (createSettingsStore start); calls = settings_calls evs in
     replay start (ss_history s) = Some (ss_file s)
     \<and> map fst (ss_settled s) @ map fst (ss_queue s) = [0..<length calls]
     \<and> {(i, r). (i, Inr r) \<in> set (ss_settled s)}
         \<subseteq> (\<lambda>(i, op, v). (i, mutation_result op v)) ` {(i, op, v). (i, op, v) \<in> set (ss_history s) \<and> calls ! i = op}"
proof -
  define s where "s = (\<lambda>evs. fold settings_step evs (createSettingsStore start))"
  have inv: "settings_inv start (s evs)" and called: "called_ok (settings_calls evs) (s evs)"
    using settings_run [of start evs] by (simp_all add: s_def)
  have "{(i, r). (i, Inr r) \<in> set (ss_settled (s evs))} \<subseteq>
      (\<lambda>(i, op, v). (i, mutation_result op v)) ` {(i, op, v). (i, op, v) \<in> set (ss_history (s evs)) \<and> settings_calls evs ! i = op}"
  proof clarify
    fix i r
    assume "(i, Inr r) \<in> set (ss_settled (s evs))"
    then obtain op v where "(i, op, v) \<in> set (ss_history (s evs))" "r = mutation_result op v"
      using settled_in_history [OF inv] by blast
    moreover from this have "settings_calls evs ! i = op" using called by (auto simp: called_ok_def)
    ultimately show "(i, r) \<in> (\<lambda>(i, op, v). (i, mutation_result op v)) `
        {(i, op, v). (i, op, v) \<in> set (ss_history (s evs)) \<and> settings_calls evs ! i = op}" by force
  qed
  then show ?thesis using inv called by (simp add: settings_inv_def unsettled_ids_def called_ok_def s_def)
qed

text \<open>When every mutation has settled with a result, none is missing: the history is the calls, in their order.\<close>

lemma no_update_is_lost:
  assumes "s = fold settings_step evs (createSettingsStore start)" "ss_queue s = []"
    "\<And>i r. (i, r) \<in> set (ss_settled s) \<Longrightarrow> \<exists>v. r = Inr v"
  shows "map (\<lambda>(i, op, v). (i, op)) (ss_history s) = zip [0..<length (settings_calls evs)] (settings_calls evs)"
proof -
  let ?cs = "settings_calls evs"
  have inv: "settings_inv start s" and called: "called_ok ?cs s"
    using settings_run [of start evs] assms(1) by simp_all
  have ids: "map fst (ss_settled s) = [0..<length ?cs]" "sorted_wrt (<) (map fst (ss_history s))"
    using inv called assms(2) by (simp_all add: settings_inv_def unsettled_ids_def called_ok_def)
  have "i \<in> fst ` set (ss_history s)" if "i < length ?cs" for i
  proof -
    have "i \<in> fst ` set (ss_settled s)" using that ids(1) by (metis atLeastLessThan_iff image_set le0 set_upt)
    then obtain r where "(i, r) \<in> set (ss_settled s)" by force
    then obtain v where "(i, Inr v) \<in> set (ss_settled s)" using assms(3) by blast
    then obtain op w where "(i, op, w) \<in> set (ss_history s)" using settled_in_history [OF inv] by blast
    then show ?thesis by force
  qed
  moreover have "i < length ?cs" if "i \<in> fst ` set (ss_history s)" for i using that called by (auto simp: called_ok_def)
  ultimately have "fst ` set (ss_history s) = {0..<length ?cs}" by (intro equalityI subsetI) auto
  then have "set (map fst (ss_history s)) = set [0..<length ?cs]" by simp
  then have nums: "map fst (ss_history s) = [0..<length ?cs]"
    using ids(2) strict_sorted_equal [of "map fst (ss_history s)" "[0..<length ?cs]"] by simp
  show ?thesis
  proof (rule nth_equalityI)
    show "length (map (\<lambda>(i, op, v). (i, op)) (ss_history s)) = length (zip [0..<length ?cs] ?cs)"
      using arg_cong [OF nums, of length] by simp
    fix n
    assume "n < length (map (\<lambda>(i, op, v). (i, op)) (ss_history s))"
    then have n: "n < length (ss_history s)" "n < length ?cs" using arg_cong [OF nums, of length] by auto
    obtain i op v where e: "ss_history s ! n = (i, op, v)" by (cases "ss_history s ! n") auto
    then have "i = n" using arg_cong [OF nums, of "\<lambda>xs. xs ! n"] n by simp
    moreover have "?cs ! i = op" using called nth_mem [OF n(1)] e by (auto simp: called_ok_def)
    ultimately show "map (\<lambda>(i, op, v). (i, op)) (ss_history s) ! n = zip [0..<length ?cs] ?cs ! n"
      using n e by simp
  qed
qed

text \<open>A read that was called after some mutations sees the file after all of them.\<close>

lemma read_sees_settled:
  assumes "s = fold settings_step evs (createSettingsStore start)" "n = settings_read_begin s"
    "s' = fold settings_step evs' s" "settings_read_ready n s'"
  shows "{0..<n} \<subseteq> fst ` set (ss_settled s') \<and> replay start (ss_history s') = Some (ss_file s')"
proof -
  have s': "s' = fold settings_step (evs @ evs') (createSettingsStore start)" using assms by simp
  have inv: "settings_inv start s'" unfolding s' using settings_run by blast
  have "ss_nextId s \<le> ss_nextId s'"
    using settings_run [of start evs] settings_run [of start "evs @ evs'"] assms
    by (simp add: called_ok_def settings_calls_append)
  moreover have ids: "map fst (ss_settled s') @ map fst (ss_queue s') = [0..<ss_nextId s']"
    using inv by (simp add: settings_inv_def unsettled_ids_def)
  have "i \<in> fst ` set (ss_settled s')" if "i < n" for i
  proof -
    have "i \<in> set (map fst (ss_settled s') @ map fst (ss_queue s'))"
      unfolding ids using calculation that assms(2) by (simp add: settings_read_begin_def)
    moreover have "i \<notin> fst ` set (ss_queue s')" using that assms(4) by (force simp: settings_read_ready_def list_all_iff)
    ultimately show ?thesis by simp
  qed
  then have "{0..<n} \<subseteq> fst ` set (ss_settled s')" by auto
  then show ?thesis using inv by (simp add: settings_inv_def)
qed

end
