(* ===== verification/ModelRefresh.thy ===== *)
theory ModelRefresh
  imports JsCollections
begin

text \<open>
  The refreshes of the model surfaces (\<open>desktop/renderer/src/model-availability-refresh.js\<close>, \<open>provider-models-refresh.js\<close>
  and the handler in \<open>provider-ui-model.js\<close>). \<open>watchModelAvailability\<close> folds notifications into refreshes that run one
  at a time; its promise goes through the phases of \<open>watch_phase\<close>, and notifications arrive between any two of
  them. No notification is lost: as long as the watch is not stopped, either a refresh that began after the last
  notification is there, or one is due (\<open>no_notification_lost\<close>).
\<close>

section \<open>watchModelAvailability\<close>

text \<open>The promise \<open>running\<close>: scheduled and not started; at the head of its loop; in \<open>await refresh()\<close>; past the loop with
  \<open>finally\<close> still to come. \<open>None\<close> is \<open>running = null\<close>. \<open>mw_notified\<close> and \<open>mw_refreshed\<close> count the requests, and how many
  of them the last refresh that began came after.\<close>

datatype watch_phase = WatchScheduled | WatchRefreshing | WatchEnding

record model_watch =
  mw_pending :: bool
  mw_running :: "watch_phase option"
  mw_stopped :: bool
  mw_notified :: nat
  mw_refreshed :: nat
  mw_refreshes :: nat

definition requestRefresh :: "model_watch \<Rightarrow> model_watch" where
  "requestRefresh w =
     (if mw_stopped w then w
      else w\<lparr>mw_pending := True,
             mw_running := (case mw_running w of None \<Rightarrow> Some WatchScheduled | Some p \<Rightarrow> Some p)\<rparr>)"

text \<open>The subscription and the catch-up read at the start.\<close>

definition watchModelAvailability :: model_watch where
  "watchModelAvailability = requestRefresh \<lparr>mw_pending = False, mw_running = None, mw_stopped = False,
     mw_notified = 1, mw_refreshed = 0, mw_refreshes = 0\<rparr>"

definition watch_notify :: "model_watch \<Rightarrow> model_watch" where
  "watch_notify w = requestRefresh (w\<lparr>mw_notified := (if mw_stopped w then mw_notified w else Suc (mw_notified w))\<rparr>)"

text \<open>The head of the loop: \<open>while (pending && !stopped)\<close>.\<close>

definition watch_loop :: "model_watch \<Rightarrow> model_watch" where
  "watch_loop w =
     (if mw_pending w \<and> \<not> mw_stopped w
      then w\<lparr>mw_pending := False, mw_running := Some WatchRefreshing, mw_refreshed := mw_notified w,
             mw_refreshes := Suc (mw_refreshes w)\<rparr>
      else w\<lparr>mw_running := Some WatchEnding\<rparr>)"

text \<open>The next step of the promise. A refresh that fails goes to \<open>onError\<close>; when that throws too the loop is left.\<close>

definition watch_finally :: "model_watch \<Rightarrow> model_watch" where
  "watch_finally w =
     (let w1 = w\<lparr>mw_running := None\<rparr> in if mw_pending w1 \<and> \<not> mw_stopped w1 then requestRefresh w1 else w1)"

definition watch_advance :: "bool \<Rightarrow> model_watch \<Rightarrow> model_watch" where
  "watch_advance throws w = (case mw_running w of
       None \<Rightarrow> w
     | Some WatchScheduled \<Rightarrow> watch_loop w
     | Some WatchRefreshing \<Rightarrow> if throws then w\<lparr>mw_running := Some WatchEnding\<rparr> else watch_loop w
     | Some WatchEnding \<Rightarrow> watch_finally w)"

definition watch_stop :: "model_watch \<Rightarrow> model_watch" where
  "watch_stop w = (if mw_stopped w then w else w\<lparr>mw_stopped := True, mw_pending := False\<rparr>)"

datatype watch_event = WatchNotify | WatchAdvance bool | WatchStop

definition watch_step :: "watch_event \<Rightarrow> model_watch \<Rightarrow> model_watch" where
  "watch_step ev w = (case ev of
       WatchNotify \<Rightarrow> watch_notify w | WatchAdvance throws \<Rightarrow> watch_advance throws w | WatchStop \<Rightarrow> watch_stop w)"

definition watch_ok :: "model_watch \<Rightarrow> bool" where
  "watch_ok w \<longleftrightarrow>
     (if mw_stopped w then \<not> mw_pending w
      else if mw_pending w then mw_refreshed w < mw_notified w \<and> mw_running w \<noteq> None
      else mw_refreshed w = mw_notified w)"

lemmas watch_defs = watch_step_def watch_notify_def requestRefresh_def watch_advance_def watch_loop_def watch_finally_def
  watch_stop_def Let_def

lemma watch_notify_ok: "watch_ok w \<Longrightarrow> watch_ok (watch_notify w)"
  by (cases "mw_running w") (auto simp: watch_ok_def watch_notify_def requestRefresh_def split: if_splits)

lemma watch_stop_ok: "watch_ok w \<Longrightarrow> watch_ok (watch_stop w)"
  by (auto simp: watch_ok_def watch_stop_def split: if_splits)

lemma watch_loop_ok: "watch_ok w \<Longrightarrow> watch_ok (watch_loop w)"
  by (auto simp: watch_ok_def watch_loop_def split: if_splits)

lemma watch_advance_ok:
  assumes "watch_ok w"
  shows "watch_ok (watch_advance throws w)"
proof (cases "mw_running w")
  case (Some p)
  then show ?thesis using assms watch_loop_ok [OF assms]
    by (cases p) (auto simp: watch_advance_def watch_ok_def watch_finally_def requestRefresh_def Let_def split: if_splits)
qed (use assms in \<open>simp add: watch_advance_def\<close>)

interpretation watch_machine: machine watch_step watch_ok
proof
  fix w :: model_watch and ev :: watch_event
  assume "watch_ok w"
  then show "watch_ok (watch_step ev w)"
    by (cases ev) (simp_all add: watch_step_def watch_notify_ok watch_advance_ok watch_stop_ok)
qed

lemma watch_created_ok: "watch_ok watchModelAvailability"
  by (simp add: watchModelAvailability_def requestRefresh_def watch_ok_def)

text \<open>What is left to do in at most three steps of the promise when no notification comes in between.\<close>

definition watch_settled :: "model_watch \<Rightarrow> bool" where
  "watch_settled w \<longleftrightarrow> mw_refreshed w = mw_notified w"

lemma watch_first_step:
  assumes "watch_ok w" "\<not> mw_stopped w" "mw_running w \<in> {None, Some WatchScheduled}"
  shows "watch_settled (watch_advance a w)" "mw_notified (watch_advance a w) = mw_notified w"
  using assms by (auto simp: watch_ok_def watch_settled_def watch_advance_def watch_loop_def split: if_splits)

lemma watch_advance_settled:
  assumes "watch_ok w" "\<not> mw_stopped w" "watch_settled w"
  shows "watch_settled (watch_advance a w)" "mw_notified (watch_advance a w) = mw_notified w"
  using assms
  by (auto simp: watch_ok_def watch_settled_def watch_advance_def watch_loop_def watch_finally_def Let_def
      split: option.splits watch_phase.splits if_splits)

lemma watch_advance_next:
  assumes "watch_ok w" "\<not> mw_stopped w"
  shows "watch_settled (watch_advance a w) \<or> mw_running (watch_advance a w) =
      (if mw_running w = Some WatchEnding then Some WatchScheduled else Some WatchEnding)"
    and "mw_notified (watch_advance a w) = mw_notified w" "\<not> mw_stopped (watch_advance a w)"
  using assms
  by (auto simp: watch_ok_def watch_settled_def watch_advance_def watch_loop_def watch_finally_def requestRefresh_def Let_def
      split: option.splits watch_phase.splits if_splits)

lemma watch_progress:
  assumes ok: "watch_ok w" "\<not> mw_stopped w"
  shows "watch_settled (watch_advance a (watch_advance b (watch_advance c w)))
       \<and> mw_notified (watch_advance a (watch_advance b (watch_advance c w))) = mw_notified w"
proof -
  note ok1 = watch_advance_ok [OF ok(1), of c] watch_advance_next(3) [OF ok, of c]
  note ok2 = watch_advance_ok [OF ok1(1), of b] watch_advance_next(3) [OF ok1, of b]
  have "watch_settled (watch_advance c w) \<or> watch_settled (watch_advance b (watch_advance c w))
      \<or> watch_settled (watch_advance a (watch_advance b (watch_advance c w)))"
    using watch_advance_next(1) [OF ok, of c] watch_advance_next(1) [OF ok1, of b] watch_advance_next(1) [OF ok2, of a]
      watch_first_step(1) [OF ok1, of b] watch_first_step(1) [OF ok2, of a]
    by (auto split: if_splits)
  then show ?thesis
    using watch_advance_settled(1) [OF ok1, of b] watch_advance_settled(1) [OF ok2, of a]
      watch_advance_next(2) [OF ok, of c] watch_advance_next(2) [OF ok1, of b] watch_advance_next(2) [OF ok2, of a]
    by auto
qed

text \<open>C28. No notification is lost, in whatever order notifications arrive, refreshes end or fail, and the watch is not
  stopped: at most three steps of the promise after the last notification a refresh has begun that is later than
  it; and until then the promise is there to begin it.\<close>

theorem no_notification_lost:
  assumes "w = fold watch_step evs watchModelAvailability" "\<not> mw_stopped w"
  shows "(mw_refreshed w < mw_notified w \<longleftrightarrow> mw_pending w) \<and> (mw_pending w \<longrightarrow> mw_running w \<noteq> None)
    \<and> mw_refreshed (watch_advance a (watch_advance b (watch_advance c w))) = mw_notified w"
proof -
  have ok: "watch_ok w" unfolding assms(1) by (rule watch_machine.run_inv [OF watch_created_ok])
  then show ?thesis using watch_progress [OF ok assms(2), of a b c] assms(2)
    by (auto simp: watch_ok_def watch_settled_def split: if_splits)
qed

theorem no_notification_lost_witness:
  "mw_refreshed (watch_advance False (watch_advance False (watch_advance False
      (fold watch_step [WatchAdvance False, WatchNotify] watchModelAvailability)))) = 2"
  using no_notification_lost [OF refl, of "[WatchAdvance False, WatchNotify]" False False False]
  by (simp add: watch_defs watchModelAvailability_def)

section \<open>After a refresh of models\<close>

text \<open>The calls of \<open>refreshProviderModels\<close> and of the handler that \<open>createProviderModelsRefreshedHandler\<close> makes, in their
  order, with the error a call ends with; \<open>bridge\<close> is whether the desktop refreshes models.\<close>

datatype refresh_call = CallRefresh string | CallProviderSettings | CallModelUi | CallThreadState jsval

definition afterRefresh :: "(refresh_call \<Rightarrow> js_error option) \<Rightarrow> jsval \<Rightarrow> js_error option \<times> refresh_call list" where
  "afterRefresh answer threadId = (case answer CallProviderSettings of
       Some e \<Rightarrow> (Some e, [CallProviderSettings])
     | None \<Rightarrow> (case answer CallModelUi of
           Some e \<Rightarrow> (Some e, [CallProviderSettings, CallModelUi])
         | None \<Rightarrow> if is_nullish threadId then (None, [CallProviderSettings, CallModelUi])
                   else (answer (CallThreadState threadId), [CallProviderSettings, CallModelUi, CallThreadState threadId])))"

definition refreshProviderModels ::
  "bool \<Rightarrow> (refresh_call \<Rightarrow> js_error option) \<Rightarrow> string \<Rightarrow> jsval \<Rightarrow> js_error option \<times> refresh_call list" where
  "refreshProviderModels bridge answer providerId threadId =
     (if \<not> bridge then (Some (Error ''Refreshing models is unavailable here.''), [])
      else let (e, calls) = afterRefresh answer threadId in
        (case e of Some x \<Rightarrow> Some x | None \<Rightarrow> answer (CallRefresh providerId), CallRefresh providerId # calls))"

text \<open>The surfaces are reloaded even when the refresh itself failed, and no thread is opened when none is.\<close>

lemma refresh_reloads:
  "CallProviderSettings \<in> set (snd (refreshProviderModels True answer p t))
   \<and> (is_nullish t \<longrightarrow> (\<forall>x. CallThreadState x \<notin> set (snd (refreshProviderModels True answer p t))))"
  by (auto simp: refreshProviderModels_def afterRefresh_def split: option.splits)

end
