(* ===== verification/ProviderConnection.thy ===== *)
theory ProviderConnection
  imports JsBytes
begin

text \<open>
  Connecting a provider: the ownership of the one connection in progress and the gate of onboarding projections
  (\<open>desktop/renderer/src/provider-onboarding-model.js\<close>), and the controller of the settings dialog over the ownership
  (\<open>provider-settings-connection.js\<close>). The controller's attempts are alive side by side: each is at one of its awaits
  (\<open>attempt_phase\<close>), and answers, waits and closes come in any order.

  The results: with identifiers that are not used twice, an attempt that owns the connection keeps it until it ends
  or the dialog is closed, whatever other attempts do (\<open>ownership_undisturbed\<close>). The reconnect of a provider uses the
  provider's id every time; there an attempt that was closed takes the connection from the one after it
  (\<open>reused_id_abandons\<close>).
\<close>

section \<open>The ownership of a connection\<close>

text \<open>\<open>connectionId\<close>, \<open>null\<close> as \<open>None\<close>; \<open>String(value || "")\<close> of a missing value is the empty string.\<close>

type_synonym ownership = "string option"

definition id_string :: "string option \<Rightarrow> string" where
  "id_string v = str_or v []"

definition ownership_begin :: "string option \<Rightarrow> ownership \<Rightarrow> bool \<times> ownership" where
  "ownership_begin value own = (case own of
       Some c \<Rightarrow> (c = id_string value, own)
     | None \<Rightarrow> (True, Some (id_string value)))"

definition ownership_matches :: "string \<Rightarrow> ownership \<Rightarrow> bool" where
  "ownership_matches value own \<longleftrightarrow> own = Some value"

definition ownership_transition :: "string option \<Rightarrow> string option \<Rightarrow> ownership \<Rightarrow> bool \<times> ownership" where
  "ownership_transition old to own =
     (if own = None \<or> own \<noteq> Some (id_string old) then (False, own) else (True, Some (id_string to)))"

definition ownership_complete :: "string option \<Rightarrow> ownership \<Rightarrow> ownership" where
  "ownership_complete value own = (case value of None \<Rightarrow> None | Some v \<Rightarrow> if own = Some v then None else own)"

text \<open>\<open>cancel\<close> up to its await: the connection to cancel; and after it, with the answer or the error.\<close>

record cancel_result =
  kr_cancelled :: bool
  kr_connectionId :: "string option"
  kr_error :: "js_error option"

definition cancel_begin :: "ownership \<Rightarrow> cancel_result + string" where
  "cancel_begin own =
     (if truthy_str own then Inr (the own) else Inl \<lparr>kr_cancelled = False, kr_connectionId = None, kr_error = None\<rparr>)"

definition cancel_settle :: "string \<Rightarrow> js_error + jv \<Rightarrow> ownership \<Rightarrow> cancel_result \<times> ownership" where
  "cancel_settle attempted answer own = (case answer of
       Inl e \<Rightarrow> (\<lparr>kr_cancelled = False, kr_connectionId = Some attempted, kr_error = Some e\<rparr>, own)
     | Inr result \<Rightarrow>
         let cancelled = (jv_get result ''cancelled'' = VBool True) in
         (\<lparr>kr_cancelled = cancelled, kr_connectionId = Some attempted, kr_error = None\<rparr>,
          if cancelled \<and> own = Some attempted then None else own))"

text \<open>A cancellation that settles late does not touch the connection that was begun after it.\<close>

lemma cancel_spares_newer: "own \<noteq> Some attempted \<Longrightarrow> snd (cancel_settle attempted answer own) = own"
  by (simp add: cancel_settle_def Let_def split: sum.split)

section \<open>The gate of onboarding projections\<close>

record projection_request =
  pg_revision :: nat
  pg_providerId :: string

definition projection_begin :: "jsval \<Rightarrow> nat \<Rightarrow> projection_request \<times> nat" where
  "projection_begin providerId revision =
     (\<lparr>pg_revision = Suc revision, pg_providerId = js_String providerId\<rparr>, Suc revision)"

definition projection_isCurrent :: "projection_request option \<Rightarrow> jsval \<Rightarrow> nat \<Rightarrow> bool" where
  "projection_isCurrent request providerId revision = (case request of
       None \<Rightarrow> False
     | Some r \<Rightarrow> pg_revision r = revision \<and> pg_providerId r = js_String providerId)"

text \<open>Going back to the options begins a request for no provider.\<close>

definition projection_revoke :: "nat \<Rightarrow> nat" where
  "projection_revoke revision = snd (projection_begin (JStr []) revision)"

interpretation pg: token_gate "projection_begin p" projection_revoke
  "\<lambda>s r. projection_isCurrent (Some r) p s" "\<lambda>s r. pg_revision r \<le> s" for p
  by unfold_locales (auto simp: projection_begin_def projection_isCurrent_def projection_revoke_def)

text \<open>\<open>resolveProviderOnboardingStep\<close>: what it answers after each of its two awaits. The gate and the active provider are
  those of the moment.\<close>

datatype 'p onboarding_step = StepStale | StepComplete | StepProjection 'p

definition step_after_default :: "projection_request option \<Rightarrow> nat \<Rightarrow> jsval \<Rightarrow> bool \<Rightarrow> 'p onboarding_step option" where
  "step_after_default request revision active completed =
     (if \<not> projection_isCurrent request active revision then Some StepStale
      else if completed then Some StepComplete else None)"

definition step_after_projection :: "projection_request option \<Rightarrow> nat \<Rightarrow> jsval \<Rightarrow> 'p \<Rightarrow> 'p onboarding_step" where
  "step_after_projection request revision active projection =
     (if \<not> projection_isCurrent request active revision then StepStale else StepProjection projection)"

text \<open>Once another step began or the user went back, the answer of this one is stale, whatever arrives.\<close>

lemma gate_counts: "fold (pg.gate_step q) bs s = s + length bs"
  by (induction bs arbitrary: s) (auto simp: pg.gate_step_def projection_begin_def projection_revoke_def)

lemma superseded_step_is_stale:
  assumes "(r, s1) = projection_begin p s0" "s2 = fold (pg.gate_step q) bs s1" "bs \<noteq> []"
  shows "step_after_default (Some r) s2 active completed = Some StepStale"
    and "step_after_projection (Some r) s2 active projection = StepStale"
  using assms
  by (auto simp: step_after_default_def step_after_projection_def projection_isCurrent_def gate_counts projection_begin_def)

section \<open>The settings controller\<close>

text \<open>Where an attempt of \<open>settle\<close> waits: for \<open>start()\<close>, for \<open>wait()\<close>, for \<open>completeConnection\<close>.\<close>

datatype attempt_phase = AttemptStarting | AttemptWaiting | AttemptCompleting

record connection_attempt =
  ka_owned :: string
  ka_phase :: attempt_phase

datatype connect_answer = ConnectError js_error | ConnectPending string | ConnectDone jv

datatype connect_outcome = OutIgnored | OutAbandoned | OutSettled jv | OutFailed js_error

record connection_controller =
  kc_ownership :: ownership
  kc_attempts :: "(nat, connection_attempt) jsmap"
  kc_next :: nat
  kc_outcomes :: "(nat \<times> connect_outcome) list"
  kc_cancelled :: "string list"

definition createProviderSettingsConnectionController :: connection_controller where
  "createProviderSettingsConnectionController =
     \<lparr>kc_ownership = None, kc_attempts = [], kc_next = 0, kc_outcomes = [], kc_cancelled = []\<rparr>"

definition connection_settle :: "string \<Rightarrow> connection_controller \<Rightarrow> connection_controller" where
  "connection_settle requestId c =
     (let n = kc_next c; c1 = c\<lparr>kc_next := Suc n\<rparr> in
      if kc_ownership c \<noteq> None then c1\<lparr>kc_outcomes := kc_outcomes c @ [(n, OutIgnored)]\<rparr>
      else let (ok, own) = ownership_begin (Some requestId) (kc_ownership c) in
        if \<not> ok then c1\<lparr>kc_outcomes := kc_outcomes c @ [(n, OutIgnored)]\<rparr>
        else c1\<lparr>kc_ownership := own,
                kc_attempts := map_set (kc_attempts c) n \<lparr>ka_owned = requestId, ka_phase = AttemptStarting\<rparr>\<rparr>)"

definition provider_connect :: "string \<Rightarrow> connection_controller \<Rightarrow> connection_controller" where
  "provider_connect requestId = connection_settle requestId"

definition provider_reconnect :: "string option \<Rightarrow> connection_controller \<Rightarrow> js_error + connection_controller" where
  "provider_reconnect providerId c =
     (let requestId = id_string providerId in
      if requestId = [] then Inl (Error ''Provider reconnect requires a provider definition id.'')
      else Inr (connection_settle requestId c))"

text \<open>The end of an attempt with its \<open>finally\<close>.\<close>

definition attempt_end :: "nat \<Rightarrow> connection_attempt \<Rightarrow> connect_outcome \<Rightarrow> connection_controller \<Rightarrow> connection_controller" where
  "attempt_end n a r c = c\<lparr>kc_ownership := ownership_complete (Some (ka_owned a)) (kc_ownership c),
     kc_attempts := map_delete (kc_attempts c) n, kc_outcomes := kc_outcomes c @ [(n, r)]\<rparr>"

definition attempt_at :: "nat \<Rightarrow> connection_attempt \<Rightarrow> connection_controller \<Rightarrow> connection_controller" where
  "attempt_at n a c = c\<lparr>kc_attempts := map_set (kc_attempts c) n a\<rparr>"

definition start_answered :: "nat \<Rightarrow> connection_attempt \<Rightarrow> connect_answer \<Rightarrow> connection_controller \<Rightarrow> connection_controller" where
  "start_answered n a answer c = (case answer of
       ConnectError e \<Rightarrow> attempt_end n a (OutFailed e) c
     | ConnectDone r \<Rightarrow>
         attempt_end n a (if ownership_matches (ka_owned a) (kc_ownership c) then OutSettled r else OutAbandoned) c
     | ConnectPending i \<Rightarrow>
         if \<not> ownership_matches (ka_owned a) (kc_ownership c) then attempt_end n a OutAbandoned c
         else let (ok, own) = ownership_transition (Some (ka_owned a)) (Some i) (kc_ownership c) in
           if \<not> ok then attempt_end n a OutAbandoned c
           else attempt_at n \<lparr>ka_owned = i, ka_phase = AttemptWaiting\<rparr> (c\<lparr>kc_ownership := own\<rparr>))"

definition wait_over :: "nat \<Rightarrow> connection_attempt \<Rightarrow> connection_controller \<Rightarrow> connection_controller" where
  "wait_over n a c =
     (if \<not> ownership_matches (ka_owned a) (kc_ownership c) then attempt_end n a OutAbandoned c
      else attempt_at n (a\<lparr>ka_phase := AttemptCompleting\<rparr>) c)"

definition complete_answered :: "nat \<Rightarrow> connection_attempt \<Rightarrow> connect_answer \<Rightarrow> connection_controller \<Rightarrow> connection_controller" where
  "complete_answered n a answer c = (case answer of
       ConnectError e \<Rightarrow> attempt_end n a (OutFailed e) c
     | ConnectPending _ \<Rightarrow>
         if ownership_matches (ka_owned a) (kc_ownership c) then attempt_at n (a\<lparr>ka_phase := AttemptWaiting\<rparr>) c
         else attempt_end n a OutAbandoned c
     | ConnectDone r \<Rightarrow>
         attempt_end n a (if ownership_matches (ka_owned a) (kc_ownership c) then OutSettled r else OutAbandoned) c)"

definition connection_close :: "connection_controller \<Rightarrow> bool \<times> connection_controller" where
  "connection_close c =
     (if \<not> truthy_str (kc_ownership c) then (False, c)
      else (True, c\<lparr>kc_ownership := ownership_complete (kc_ownership c) (kc_ownership c),
                    kc_cancelled := kc_cancelled c @ [the (kc_ownership c)]\<rparr>))"

datatype connection_event = KConnect string | KReconnect string | KClose | KAnswer nat connect_answer | KWaited nat

definition connection_do :: "connection_event \<Rightarrow> connection_controller \<Rightarrow> connection_controller" where
  "connection_do ev c = (case ev of
       KConnect i \<Rightarrow> provider_connect i c
     | KReconnect p \<Rightarrow> (case provider_reconnect (Some p) c of Inl e \<Rightarrow> c | Inr c' \<Rightarrow> c')
     | KClose \<Rightarrow> snd (connection_close c)
     | KAnswer n r \<Rightarrow> (case map_get (kc_attempts c) n of
           None \<Rightarrow> c
         | Some a \<Rightarrow> (case ka_phase a of
               AttemptStarting \<Rightarrow> start_answered n a r c
             | AttemptCompleting \<Rightarrow> complete_answered n a r c
             | AttemptWaiting \<Rightarrow> c))
     | KWaited n \<Rightarrow> (case map_get (kc_attempts c) n of
           None \<Rightarrow> c
         | Some a \<Rightarrow> if ka_phase a = AttemptWaiting then wait_over n a c else c))"

section \<open>Ownership under fresh identifiers\<close>

text \<open>The identifiers an event brings in; a pending answer may name the connection by the id of its request.\<close>

definition brings_in :: "connection_event \<Rightarrow> connection_controller \<Rightarrow> string list" where
  "brings_in ev c = (case ev of
       KConnect i \<Rightarrow> [i]
     | KReconnect p \<Rightarrow> [p]
     | KAnswer n (ConnectPending i) \<Rightarrow> (case map_get (kc_attempts c) n of
           Some a \<Rightarrow> if ka_phase a = AttemptStarting \<and> ka_owned a \<noteq> i then [i] else []
         | None \<Rightarrow> [])
     | _ \<Rightarrow> [])"

text \<open>The states reached with identifiers that are not empty and never used before; \<open>used\<close> are those brought in so far.\<close>

inductive connection_reaches :: "string list \<Rightarrow> connection_controller \<Rightarrow> bool" where
  connection_start: "connection_reaches [] createProviderSettingsConnectionController"
| connection_step: "connection_reaches used c \<Longrightarrow> list_all (\<lambda>i. i \<noteq> [] \<and> i \<notin> set used) (brings_in ev c)
    \<Longrightarrow> connection_reaches (used @ brings_in ev c) (connection_do ev c)"

definition owned_ids :: "connection_controller \<Rightarrow> string list" where
  "owned_ids c = map ka_owned (map_values (kc_attempts c))"

definition connection_ok :: "string list \<Rightarrow> connection_controller \<Rightarrow> bool" where
  "connection_ok used c \<longleftrightarrow> (let get = map_get (kc_attempts c) in
     map_ok (kc_attempts c)
     \<and> (\<forall>n a. get n = Some a \<longrightarrow> n < kc_next c \<and> ka_owned a \<in> set used)
     \<and> (\<forall>n m a b. get n = Some a \<longrightarrow> get m = Some b \<longrightarrow> ka_owned a = ka_owned b \<longrightarrow> n = m)
     \<and> (\<forall>i. kc_ownership c = Some i \<longrightarrow> i \<noteq> [] \<and> (\<exists>n a. get n = Some a \<and> ka_owned a = i)))"

lemma connection_okI:
  assumes "map_ok (kc_attempts c)"
    "\<And>n a. map_get (kc_attempts c) n = Some a \<Longrightarrow> n < kc_next c \<and> ka_owned a \<in> set used"
    "\<And>n m a b. map_get (kc_attempts c) n = Some a \<Longrightarrow> map_get (kc_attempts c) m = Some b \<Longrightarrow> ka_owned a = ka_owned b \<Longrightarrow> n = m"
    "\<And>i. kc_ownership c = Some i \<Longrightarrow> i \<noteq> [] \<and> (\<exists>n a. map_get (kc_attempts c) n = Some a \<and> ka_owned a = i)"
  shows "connection_ok used c"
  using assms unfolding connection_ok_def Let_def by blast

lemma connection_okD:
  assumes "connection_ok used c"
  shows "map_ok (kc_attempts c)"
    "map_get (kc_attempts c) n = Some a \<Longrightarrow> n < kc_next c \<and> ka_owned a \<in> set used"
    "map_get (kc_attempts c) n = Some a \<Longrightarrow> map_get (kc_attempts c) m = Some b \<Longrightarrow> ka_owned a = ka_owned b \<Longrightarrow> n = m"
    "kc_ownership c = Some i \<Longrightarrow> i \<noteq> []"
    "kc_ownership c = Some i \<Longrightarrow> \<exists>n a. map_get (kc_attempts c) n = Some a \<and> ka_owned a = i"
  using assms unfolding connection_ok_def Let_def by blast+

lemma end_ok:
  assumes ok: "connection_ok used c" and get: "map_get (kc_attempts c) n = Some a"
  shows "connection_ok used (attempt_end n a r c)"
proof (rule connection_okI)
  note D = connection_okD [OF ok]
  show "map_ok (kc_attempts (attempt_end n a r c))" using D(1) by (simp add: attempt_end_def)
  show "m < kc_next (attempt_end n a r c) \<and> ka_owned b \<in> set used"
    if "map_get (kc_attempts (attempt_end n a r c)) m = Some b" for m b
    using that D(2) by (auto simp: attempt_end_def split: if_splits)
  show "m = l" if "map_get (kc_attempts (attempt_end n a r c)) m = Some b" "map_get (kc_attempts (attempt_end n a r c)) l = Some d"
    "ka_owned b = ka_owned d" for m l b d
    using that D(3) by (simp add: attempt_end_def split: if_splits)
  show "i \<noteq> [] \<and> (\<exists>m b. map_get (kc_attempts (attempt_end n a r c)) m = Some b \<and> ka_owned b = i)"
    if "kc_ownership (attempt_end n a r c) = Some i" for i
  proof -
    have i: "kc_ownership c = Some i" "ka_owned a \<noteq> i"
      using that by (auto simp: attempt_end_def ownership_complete_def split: if_splits)
    obtain m b where "map_get (kc_attempts c) m = Some b" "ka_owned b = i" using D(5) [OF i(1)] by blast
    moreover from this have "m \<noteq> n" using get i(2) by auto
    ultimately show ?thesis using D(4) [OF i(1)] by (auto simp: attempt_end_def)
  qed
qed

lemma put_ok:
  assumes ok: "connection_ok used c" and get: "map_get (kc_attempts c) n = Some a"
    and i: "ka_owned b = ka_owned a \<and> own = kc_ownership c
      \<or> ka_owned b \<notin> set used \<and> ka_owned b \<noteq> [] \<and> kc_ownership c = Some (ka_owned a) \<and> own = Some (ka_owned b)"
    and new: "set used' = insert (ka_owned b) (set used)"
  shows "connection_ok used' (attempt_at n b (c\<lparr>kc_ownership := own\<rparr>))"
proof (rule connection_okI)
  note D = connection_okD [OF ok]
  let ?c = "attempt_at n b (c\<lparr>kc_ownership := own\<rparr>)"
  have get': "map_get (kc_attempts ?c) m = (if m = n then Some b else map_get (kc_attempts c) m)" for m
    by (simp add: attempt_at_def)
  show "map_ok (kc_attempts ?c)" using D(1) by (simp add: attempt_at_def)
  show "m < kc_next ?c \<and> ka_owned d \<in> set used'" if "map_get (kc_attempts ?c) m = Some d" for m d
    using that D(2) [OF get] D(2) [of m d] unfolding get' new by (auto simp: attempt_at_def split: if_splits)
  have other: "ka_owned x \<noteq> ka_owned b" if "map_get (kc_attempts c) m = Some x" "m \<noteq> n" for m x
    using i
  proof
    assume "ka_owned b = ka_owned a \<and> own = kc_ownership c"
    then show ?thesis using D(3) [OF that(1) get] that(2) by auto
  next
    assume "ka_owned b \<notin> set used \<and> ka_owned b \<noteq> [] \<and> kc_ownership c = Some (ka_owned a) \<and> own = Some (ka_owned b)"
    then show ?thesis using D(2) [OF that(1)] by auto
  qed
  show "m = l" if "map_get (kc_attempts ?c) m = Some x" "map_get (kc_attempts ?c) l = Some y" "ka_owned x = ka_owned y" for m l x y
  proof (cases "m = n \<or> l = n")
    case True
    then show ?thesis using that other [of m x] other [of l y] unfolding get' by (auto split: if_splits)
  next
    case False
    then show ?thesis using that D(3) [of m x l y] unfolding get' by simp
  qed
  show "j \<noteq> [] \<and> (\<exists>m d. map_get (kc_attempts ?c) m = Some d \<and> ka_owned d = j)" if "kc_ownership ?c = Some j" for j
  proof (cases "j = ka_owned b")
    case True
    have "ka_owned b \<noteq> []" using that i D(4) [of "ka_owned b"] True by (auto simp: attempt_at_def dest: sym)
    then show ?thesis using True unfolding get' by auto
  next
    case False
    then have j: "kc_ownership c = Some j" "j \<noteq> ka_owned a" using that i by (auto simp: attempt_at_def)
    then obtain m d where "map_get (kc_attempts c) m = Some d" "ka_owned d = j" using D(5) by blast
    moreover from this have "m \<noteq> n" using get j(2) by auto
    ultimately show ?thesis using D(4) [OF j(1)] unfolding get' by auto
  qed
qed

lemma fresh_attempt_ok:
  assumes ok: "connection_ok used c" and i: "i \<noteq> []" "i \<notin> set used"
  shows "connection_ok (used @ [i]) (connection_settle i c)"
proof (cases "kc_ownership c")
  case (Some j)
  show ?thesis using ok
    by (intro connection_okI) (auto simp: connection_settle_def Let_def Some dest: connection_okD intro: less_SucI)
next
  case None
  let ?n = "kc_next c"
  note D = connection_okD [OF ok]
  have c: "connection_settle i c = c\<lparr>kc_next := Suc ?n, kc_ownership := Some i,
      kc_attempts := map_set (kc_attempts c) ?n \<lparr>ka_owned = i, ka_phase = AttemptStarting\<rparr>\<rparr>"
    by (simp add: connection_settle_def Let_def None ownership_begin_def id_string_def str_or_def i(1))
  have new: "m \<noteq> ?n \<and> m < Suc ?n \<and> ka_owned a \<in> set used \<and> ka_owned a \<noteq> i" if "map_get (kc_attempts c) m = Some a" for m a
    using D(2) [OF that] i(2) by auto
  let ?c = "connection_settle i c" and ?a = "\<lparr>ka_owned = i, ka_phase = AttemptStarting\<rparr>"
  have get': "map_get (kc_attempts ?c) m = (if m = ?n then Some ?a else map_get (kc_attempts c) m)" for m
    by (simp add: c)
  show ?thesis
  proof (rule connection_okI)
    show "map_ok (kc_attempts ?c)" using D(1) by (simp add: c)
    show "m < kc_next ?c \<and> ka_owned a \<in> set (used @ [i])" if "map_get (kc_attempts ?c) m = Some a" for m a
      using that new [of m a] unfolding get' by (auto simp: c split: if_splits)
    show "m = l" if "map_get (kc_attempts ?c) m = Some a" "map_get (kc_attempts ?c) l = Some b" "ka_owned a = ka_owned b" for m l a b
      using that new [of m a] new [of l b] D(3) [of m a l b] unfolding get' by (cases "m = ?n"; cases "l = ?n") auto
    show "j \<noteq> [] \<and> (\<exists>m a. map_get (kc_attempts ?c) m = Some a \<and> ka_owned a = j)" if "kc_ownership ?c = Some j" for j
      using that i(1) unfolding get' by (auto simp: c)
  qed
qed

lemma ok_more_used: "connection_ok used c \<Longrightarrow> set used \<subseteq> set used' \<Longrightarrow> connection_ok used' c"
  unfolding connection_ok_def Let_def by blast

lemma answer_ok:
  assumes ok: "connection_ok used c" and get: "map_get (kc_attempts c) n = Some a"
    and fresh: "list_all (\<lambda>i. i \<noteq> [] \<and> i \<notin> set used) (brings_in (KAnswer n r) c)"
  shows "connection_ok (used @ brings_in (KAnswer n r) c) (connection_do (KAnswer n r) c)"
proof -
  have ended: "connection_ok (used @ brings_in (KAnswer n r) c) (attempt_end n a x c)" for x
    by (rule ok_more_used [OF end_ok [OF ok get]]) simp
  have same: "connection_ok (used @ brings_in (KAnswer n r) c) (attempt_at n (a\<lparr>ka_phase := p\<rparr>) c)" for p
    using put_ok [OF ok get, of "a\<lparr>ka_phase := p\<rparr>" "kc_ownership c" used] connection_okD(2) [OF ok get] ok_more_used
    by (simp add: insert_absorb)
  have moved: "connection_ok (used @ brings_in (KAnswer n (ConnectPending i)) c)
      (attempt_at n \<lparr>ka_owned = i, ka_phase = AttemptWaiting\<rparr> (c\<lparr>kc_ownership := Some i\<rparr>))"
    if "r = ConnectPending i" "kc_ownership c = Some (ka_owned a)" "ka_phase a = AttemptStarting" for i
  proof (rule put_ok [OF ok get])
    show "ka_owned \<lparr>ka_owned = i, ka_phase = AttemptWaiting\<rparr> = ka_owned a \<and> Some i = kc_ownership c \<or>
      ka_owned \<lparr>ka_owned = i, ka_phase = AttemptWaiting\<rparr> \<notin> set used \<and> ka_owned \<lparr>ka_owned = i, ka_phase = AttemptWaiting\<rparr> \<noteq> []
        \<and> kc_ownership c = Some (ka_owned a) \<and> Some i = Some (ka_owned \<lparr>ka_owned = i, ka_phase = AttemptWaiting\<rparr>)"
      using that fresh get by (cases "ka_owned a = i") (auto simp: brings_in_def)
    show "set (used @ brings_in (KAnswer n (ConnectPending i)) c) =
        insert (ka_owned \<lparr>ka_owned = i, ka_phase = AttemptWaiting\<rparr>) (set used)"
      using get that(3) connection_okD(2) [OF ok get] by (auto simp: brings_in_def)
  qed
  show ?thesis
  proof (cases "ka_phase a")
    case AttemptStarting
    then show ?thesis using get ended moved
      by (cases r) (auto simp: connection_do_def start_answered_def ownership_transition_def ownership_matches_def
          id_string_def str_or_def)
  next
    case AttemptWaiting
    then show ?thesis using get ok_more_used [OF ok] by (simp add: connection_do_def)
  next
    case AttemptCompleting
    then show ?thesis using get ended same
      by (cases r) (auto simp: connection_do_def complete_answered_def)
  qed
qed

lemma connection_do_ok:
  assumes ok: "connection_ok used c" and fresh: "list_all (\<lambda>i. i \<noteq> [] \<and> i \<notin> set used) (brings_in ev c)"
  shows "connection_ok (used @ brings_in ev c) (connection_do ev c)"
proof (cases ev)
  case (KAnswer n r)
  show ?thesis
  proof (cases "map_get (kc_attempts c) n")
    case None
    then show ?thesis using ok_more_used [OF ok] by (simp add: KAnswer connection_do_def)
  next
    case (Some a)
    then show ?thesis using answer_ok [OF ok Some] fresh by (simp add: KAnswer)
  qed
next
  case (KWaited n)
  show ?thesis
  proof (cases "map_get (kc_attempts c) n")
    case (Some a)
    have "connection_ok used (attempt_at n (a\<lparr>ka_phase := AttemptCompleting\<rparr>) c)"
      using put_ok [OF ok Some, of "a\<lparr>ka_phase := AttemptCompleting\<rparr>" "kc_ownership c" used] connection_okD(2) [OF ok Some]
      by (simp add: insert_absorb)
    then show ?thesis using Some ok end_ok [OF ok Some] by (simp add: KWaited connection_do_def wait_over_def brings_in_def)
  qed (use ok in \<open>simp add: KWaited connection_do_def brings_in_def\<close>)
next
  case (KReconnect p)
  then show ?thesis using fresh_attempt_ok [OF ok] fresh ok
    by (simp add: connection_do_def provider_reconnect_def brings_in_def id_string_def str_or_def Let_def)
next
  case KClose
  have "connection_ok used (snd (connection_close c))"
    using ok by (intro connection_okI) (auto simp: connection_close_def ownership_complete_def dest: connection_okD
        split: option.splits if_splits)
  then show ?thesis by (simp add: KClose connection_do_def brings_in_def)
qed (use fresh_attempt_ok [OF ok] fresh in \<open>simp add: connection_do_def provider_connect_def brings_in_def\<close>)

lemma connection_reaches_ok: "connection_reaches used c \<Longrightarrow> connection_ok used c"
proof (induction rule: connection_reaches.induct)
  case connection_start
  then show ?case by (simp add: connection_ok_def createProviderSettingsConnectionController_def Let_def)
next
  case (connection_step used c ev)
  then show ?case by (intro connection_do_ok)
qed

text \<open>C29. When identifiers are fresh, the attempt that owns the connection keeps it, and stays where it is, through
  every event but its own answers and a close: other attempts that were closed end without touching it, and new
  ones are ignored. The ownership always belongs to exactly one live attempt.\<close>

theorem ownership_undisturbed:
  assumes "connection_reaches used c" "kc_ownership c = Some i" "list_all (\<lambda>j. j \<noteq> [] \<and> j \<notin> set used) (brings_in ev c)"
  shows "\<exists>n a. map_get (kc_attempts c) n = Some a \<and> ka_owned a = i
    \<and> (\<forall>m b. map_get (kc_attempts c) m = Some b \<longrightarrow> ka_owned b = i \<longrightarrow> m = n)
    \<and> (ev = KClose \<or> ev = KWaited n \<or> (\<exists>r. ev = KAnswer n r)
       \<or> kc_ownership (connection_do ev c) = Some i \<and> map_get (kc_attempts (connection_do ev c)) n = Some a)"
proof -
  have ok: "connection_ok used c" using assms(1) by (rule connection_reaches_ok)
  note D = connection_okD [OF ok]
  obtain n a where here: "map_get (kc_attempts c) n = Some a" "ka_owned a = i" using D(5) [OF assms(2)] by blast
  have uniq: "m = n" if "map_get (kc_attempts c) m = Some b" "ka_owned b = i" for m b
    using D(3) [OF that(1) here(1)] that(2) here(2) by simp
  have stays: "kc_ownership (connection_do ev c) = Some i \<and> map_get (kc_attempts (connection_do ev c)) n = Some a"
    if "ev \<noteq> KClose" "ev \<noteq> KWaited n" "\<And>r. ev \<noteq> KAnswer n r"
  proof (cases ev)
    case (KAnswer m r)
    show ?thesis
    proof (cases "map_get (kc_attempts c) m")
      case (Some b)
      have "m \<noteq> n" using that(3) KAnswer by auto
      then have "ka_owned b \<noteq> i" using uniq [OF Some] by auto
      then show ?thesis using Some here(1) assms(2) \<open>m \<noteq> n\<close>
        by (cases "ka_phase b"; cases r) (simp_all add: KAnswer connection_do_def start_answered_def complete_answered_def
            attempt_end_def ownership_complete_def ownership_matches_def)
    qed (use here(1) assms(2) in \<open>simp add: KAnswer connection_do_def\<close>)
  next
    case (KWaited m)
    show ?thesis
    proof (cases "map_get (kc_attempts c) m")
      case (Some b)
      have "m \<noteq> n" using that(2) KWaited by auto
      then have "ka_owned b \<noteq> i" using uniq [OF Some] by auto
      then show ?thesis using Some here(1) assms(2) \<open>m \<noteq> n\<close>
        by (simp add: KWaited connection_do_def wait_over_def attempt_end_def ownership_complete_def ownership_matches_def)
    qed (use here(1) assms(2) in \<open>simp add: KWaited connection_do_def\<close>)
  qed (use that here(1) assms(2) in \<open>simp_all add: connection_do_def provider_connect_def provider_reconnect_def
      connection_settle_def Let_def\<close>)
  show ?thesis using here uniq stays by blast
qed

text \<open>The reconnect of one provider, closed, and the next reconnect of it: the first one's refusal arrives and takes the
  connection from the second, which is abandoned although nobody closed it.\<close>

lemma reused_id_abandons:
  assumes "p \<noteq> []"
  shows "kc_outcomes (fold connection_do [KReconnect p, KClose, KReconnect p, KAnswer 0 (ConnectError e), KAnswer 1 (ConnectDone r)]
      createProviderSettingsConnectionController) = [(0, OutFailed e), (1, OutAbandoned)]"
  using assms
  by (simp add: connection_do_def provider_reconnect_def connection_settle_def connection_close_def start_answered_def
      attempt_end_def ownership_complete_def ownership_begin_def ownership_matches_def id_string_def str_or_def truthy_str_def
      createProviderSettingsConnectionController_def Let_def map_get_def map_delete_def)

text \<open>Two attempts with ids of their own: the second is not touched by the refusal of the first.\<close>

definition demo_connection :: connection_controller where
  "demo_connection = fold connection_do [KConnect ''a'', KClose, KConnect ''b''] createProviderSettingsConnectionController"

lemma demo_connection_reached: "connection_reaches [''a'', ''b''] demo_connection"
proof -
  have 1: "connection_reaches [''a''] (connection_do (KConnect ''a'') createProviderSettingsConnectionController)"
    using connection_step [OF connection_start, of "KConnect ''a''"] by (simp add: brings_in_def)
  have 2: "connection_reaches [''a''] (fold connection_do [KConnect ''a'', KClose] createProviderSettingsConnectionController)"
    using connection_step [OF 1, of KClose] by (simp add: brings_in_def)
  show ?thesis using connection_step [OF 2, of "KConnect ''b''"] by (simp add: brings_in_def demo_connection_def)
qed

theorem ownership_undisturbed_witness:
  "kc_ownership demo_connection = Some ''b'' \<and>
   kc_ownership (connection_do (KAnswer 0 (ConnectError (Error ''cancelled''))) demo_connection) = Some ''b''"
proof -
  have b: "kc_ownership demo_connection = Some ''b''" "map_get (kc_attempts demo_connection) 0 = Some \<lparr>ka_owned = ''a'', ka_phase = AttemptStarting\<rparr>"
    by (simp_all add: demo_connection_def connection_do_def provider_connect_def connection_settle_def connection_close_def
        ownership_complete_def ownership_begin_def id_string_def str_or_def truthy_str_def
        createProviderSettingsConnectionController_def Let_def map_get_def)
  then show ?thesis
    using ownership_undisturbed [OF demo_connection_reached b(1), of "KAnswer 0 (ConnectError (Error ''cancelled''))"]
    by (auto simp: brings_in_def)
qed

end
