(* ===== verification/ProviderModel.thy ===== *)
theory ProviderModel
  imports JsBytes
begin

text \<open>
  What the provider views decide (\<open>desktop/renderer/src/provider-ui-model.js\<close>) and what onboarding keeps while its
  projection changes (\<open>provider-onboarding-model.js\<close>; its connection and its gate are in \<open>ProviderConnection\<close>). The
  descriptors of the adapters come untyped from the main process and are validated, so they are \<open>jv\<close>s; the rest
  are records of what the code reads.

  The results: normalizing a descriptor twice is normalizing it once (\<open>descriptor_normal_form\<close>); the first-run gate
  opens exactly when every connected provider is past its recovery, one is usable and the default resolves
  (\<open>first_run_gate_opens\<close>); refreshing the projection keeps the user's harness and family as far as they are still
  offered, and refreshing twice changes nothing more (\<open>onboarding_refresh_stable\<close>); an intent to finish is complete
  (\<open>completion_intent_complete\<close>).

  Parameters: \<open>toLocaleLowerCase\<close>, \<open>localeCompare\<close> and the URL parser.
\<close>

section \<open>Descriptors\<close>

definition CONNECTION_MODES :: "string list" where
  "CONNECTION_MODES = [''secret-fields'', ''managed-login'', ''existing-runtime-auth'']"

text \<open>\<open>{ ...v, k: x }\<close>.\<close>

definition jv_with :: "jv \<Rightarrow> string \<Rightarrow> jv \<Rightarrow> jv" where
  "jv_with v k x = (case v of VObj fs \<Rightarrow> VObj (map_set fs k x) | _ \<Rightarrow> VObj [(k, x)])"

text \<open>\<open>typeof v === "string" && v.trim()\<close>.\<close>

definition named_text :: "jv \<Rightarrow> bool" where
  "named_text v = (case v of VStr s \<Rightarrow> js_trim s \<noteq> [] | _ \<Rightarrow> False)"

definition normalize_field :: "string \<Rightarrow> jv \<Rightarrow> js_error + jv" where
  "normalize_field adapterId field =
     (if \<not> jv_truthy (jv_get field ''id'') \<or> \<not> jv_truthy (jv_get field ''label'')
         \<or> jv_get field ''kind'' \<notin> {VStr ''secret'', VStr ''text''}
      then Inl (Error (''Provider adapter '' @ adapterId @ '' has an invalid connection field.''))
      else Inr (jv_with field ''required'' (VBool (jv_get field ''required'' \<noteq> VBool False))))"

definition raw_fields :: "jv \<Rightarrow> js_error + jv list" where
  "raw_fields v = (case v of
       VUndef \<Rightarrow> Inr [] | VNull \<Rightarrow> Inr [] | VArr xs \<Rightarrow> Inr xs | _ \<Rightarrow> Inl (TypeError ''fields.map is not a function''))"

definition normalizeProviderDescriptor :: "jv \<Rightarrow> js_error + jv" where
  "normalizeProviderDescriptor d =
     (if \<not> jv_truthy d \<or> \<not> named_text (jv_get d ''adapterId'') then Inl (Error ''Provider adapter ID is required.'')
      else let adapterId = jv_string (jv_get d ''adapterId''); connection = jv_get d ''connection'' in
        if \<not> named_text (jv_get d ''label'')
        then Inl (Error (''Provider adapter '' @ adapterId @ '' requires a label.''))
        else if jv_get connection ''mode'' \<notin> VStr ` set CONNECTION_MODES
        then Inl (Error (''Provider adapter '' @ adapterId @ '' has an invalid connection mode.''))
        else bind_r (raw_fields (jv_get connection ''fields'')) (\<lambda>xs.
          bind_r (map_r (normalize_field adapterId) xs) (\<lambda>fields.
            Inr (jv_with (jv_with d ''connection'' (jv_with connection ''fields'' (VArr fields)))
                  ''endpointEditableDuringCreation''
                  (VBool (jv_get d ''endpointEditableDuringCreation'' = VBool True))))))"

definition descriptor_mode :: "jv \<Rightarrow> jv" where
  "descriptor_mode d = jv_get (jv_get d ''connection'') ''mode''"

definition compareLabel :: "(string \<Rightarrow> string \<Rightarrow> int) \<Rightarrow> jv \<Rightarrow> jv \<Rightarrow> int" where
  "compareLabel lc l r = lc (jv_string (jv_get l ''label'')) (jv_string (jv_get r ''label''))"

text \<open>The subscriptions and the API providers.\<close>

definition providerDescriptorGroups :: "(string \<Rightarrow> string \<Rightarrow> int) \<Rightarrow> jv list \<Rightarrow> js_error + (jv list \<times> jv list)" where
  "providerDescriptorGroups lc ds = bind_r (map_r normalizeProviderDescriptor ds) (\<lambda>ns.
     let normalized = js_sort (compareLabel lc) ns in
     Inr (filter (\<lambda>d. descriptor_mode d \<noteq> VStr ''secret-fields'') normalized,
          filter (\<lambda>d. descriptor_mode d = VStr ''secret-fields'') normalized))"

section \<open>The status of a provider\<close>

record provider_definition =
  bd_id :: jsval
  bd_label :: string
  bd_lifecycleState :: "string option"
  bd_connected :: "bool option"
  bd_unavailableReason :: "(string \<times> string) option"
  bd_executionPreparing :: bool

record provider_status =
  bs_lifecycle :: string
  bs_label :: string
  bs_usable :: bool
  bs_recovery :: "string option"

definition PROVIDER_LIFECYCLES :: "string list" where
  "PROVIDER_LIFECYCLES = [''active'', ''removal_pending'', ''tombstoned'']"

definition status_of :: "string \<Rightarrow> string \<Rightarrow> bool \<Rightarrow> string option \<Rightarrow> provider_status" where
  "status_of l t u r = \<lparr>bs_lifecycle = l, bs_label = t, bs_usable = u, bs_recovery = r\<rparr>"

text \<open>\<open>active\<close>, \<open>connected === true\<close> and unavailable for the given reason.\<close>

definition active_without :: "string \<Rightarrow> provider_definition option \<Rightarrow> bool" where
  "active_without code d = (case d of
       None \<Rightarrow> False
     | Some p \<Rightarrow> bd_lifecycleState p = Some ''active'' \<and> bd_connected p = Some True
                 \<and> map_option fst (bd_unavailableReason p) = Some code)"

definition provider_lifecycle :: "provider_definition option \<Rightarrow> string" where
  "provider_lifecycle d =
     (let connected = Option.bind d bd_connected in
      case Option.bind d bd_lifecycleState of
        Some l \<Rightarrow> if l \<in> set PROVIDER_LIFECYCLES
                  then if l = ''active'' \<and> connected = Some False then ''unavailable'' else l
                  else if connected = Some False then ''unavailable'' else ''active''
      | None \<Rightarrow> if connected = Some False then ''unavailable'' else ''active'')"

definition providerDefinitionStatus :: "provider_definition option \<Rightarrow> provider_status" where
  "providerDefinitionStatus d =
     (if active_without ''provider_no_available_execution_configurations'' d
      then if (case d of None \<Rightarrow> False | Some p \<Rightarrow> bd_executionPreparing p)
           then status_of ''preparing_execution'' ''Preparing'' False None
           else status_of ''needs_execution_setup'' ''Needs execution setup'' False (Some ''repair_execution'')
      else if active_without ''provider_no_eligible_execution_models'' d
      then status_of ''needs_model_setup'' ''Needs model setup'' False (Some ''refresh_models'')
      else let lifecycle = provider_lifecycle d in
        if lifecycle = ''removal_pending'' then status_of lifecycle ''Finishing removal'' False None
        else if lifecycle = ''tombstoned'' then status_of lifecycle ''Removed provider'' False None
        else if lifecycle = ''unavailable'' then status_of lifecycle ''Connection unavailable'' False None
        else status_of lifecycle ''Connected'' True None)"

definition providerFamilyRecoveryResult :: "provider_definition list \<Rightarrow> jsval \<Rightarrow> bool \<times> string" where
  "providerFamilyRecoveryResult definitions providerId =
     (case find (\<lambda>d. eqId (bd_id d) providerId) definitions of
        None \<Rightarrow> (False, ''Provider refresh completed, but default family setup could not be confirmed.'')
      | Some d \<Rightarrow> (case bd_unavailableReason d of
            Some (code, message) \<Rightarrow> (False, message)
          | None \<Rightarrow> (True, ''Provider models and default family refreshed.'')))"

definition resumableProviderDefinitions :: "provider_definition list \<Rightarrow> provider_definition list" where
  "resumableProviderDefinitions = filter (\<lambda>d. bd_connected d = Some True \<and> bd_lifecycleState d = Some ''active'')"

section \<open>The first-run gate\<close>

definition jsval_truthy :: "jsval \<Rightarrow> bool" where
  "jsval_truthy v = (case v of JUndef \<Rightarrow> False | JNull \<Rightarrow> False | JNum n \<Rightarrow> n \<noteq> 0 | JStr s \<Rightarrow> s \<noteq> [])"

record default_resolution =
  br_familyId :: jsval
  br_providerDefinitionId :: jsval
  br_modelId :: jsval

definition default_field :: "(default_resolution \<Rightarrow> jsval) \<Rightarrow> default_resolution option \<Rightarrow> bool" where
  "default_field f r = (case r of None \<Rightarrow> False | Some x \<Rightarrow> jsval_truthy (f x))"

text \<open>The reason, if the gate is blocked.\<close>

definition firstRunGateState :: "bool \<Rightarrow> provider_definition list \<Rightarrow> default_resolution option \<Rightarrow> string option" where
  "firstRunGateState hasCompleted providers resolution =
     (let status = \<lambda>p. providerDefinitionStatus (Some p) in
      if hasCompleted then None
      else if list_ex (\<lambda>p. bs_lifecycle (status p) = ''preparing_execution'') providers
      then Some ''Preparing execution configurations for the connected provider.''
      else if list_ex (\<lambda>p. bs_recovery (status p) = Some ''refresh_models'') providers
      then Some ''Refresh models and set up defaults for the connected provider.''
      else if list_ex (\<lambda>p. bs_recovery (status p) = Some ''repair_execution'') providers
      then Some ''Repair execution configurations for the connected provider.''
      else if \<not> list_ex (\<lambda>p. bs_usable (status p)) providers
      then Some ''Connect a working provider to continue.''
      else if \<not> default_field br_familyId resolution
      then Some ''Choose or create a default model family to continue.''
      else if \<not> default_field br_providerDefinitionId resolution \<or> \<not> default_field br_modelId resolution
      then Some ''The default model family has no model available for the default harness.''
      else None)"

section \<open>The connection form\<close>

definition providerLabelError :: "(string \<Rightarrow> string) \<Rightarrow> string option \<Rightarrow> provider_definition list \<Rightarrow> jsval \<Rightarrow> string option" where
  "providerLabelError lower label definitions currentId =
     (let normalized = lower (js_trim (str_or label [])) in
      if normalized = [] then Some ''Enter a connection name.''
      else if list_ex (\<lambda>d. \<not> eqId (bd_id d) currentId \<and> bd_lifecycleState d \<noteq> Some ''tombstoned''
                 \<and> lower (js_trim (bd_label d)) = normalized) definitions
      then Some ''Active connection names must be unique.'' else None)"

record endpoint_url =
  bu_protocol :: string
  bu_username :: string
  bu_password :: string
  bu_search :: string
  bu_hash :: string
  bu_text :: string

record connection_values =
  bv_label :: "string option"
  bv_endpoint :: "string option"
  bv_fields :: "(string, string) jsmap"

definition descriptor_fields :: "jv \<Rightarrow> jv list" where
  "descriptor_fields d = (case jv_get (jv_get d ''connection'') ''fields'' of VArr xs \<Rightarrow> xs | _ \<Rightarrow> [])"

definition field_value :: "connection_values \<Rightarrow> jv \<Rightarrow> string" where
  "field_value values field = str_or (map_get (bv_fields values) (jv_string (jv_get field ''id''))) []"

definition endpoint_errors :: "(string \<Rightarrow> endpoint_url option) \<Rightarrow> connection_values \<Rightarrow> (string, string) jsmap \<Rightarrow> (string, string) jsmap" where
  "endpoint_errors parse values errors = (case parse (str_or (bv_endpoint values) []) of
       None \<Rightarrow> map_set errors ''endpoint'' ''Enter a valid endpoint URL.''
     | Some u \<Rightarrow>
         let e1 = (if bu_protocol u \<noteq> ''https:'' then map_set errors ''endpoint'' ''Use an HTTPS endpoint.'' else errors) in
         if bu_username u \<noteq> [] \<or> bu_password u \<noteq> [] \<or> bu_search u \<noteq> [] \<or> bu_hash u \<noteq> []
         then map_set e1 ''endpoint'' ''The endpoint cannot contain credentials, query parameters, or a fragment.'' else e1)"

definition field_error :: "connection_values \<Rightarrow> jv \<Rightarrow> (string, string) jsmap \<Rightarrow> (string, string) jsmap" where
  "field_error values field errors =
     (if jv_truthy (jv_get field ''required'') \<and> js_trim (field_value values field) = []
      then map_set errors (jv_string (jv_get field ''id'')) (''Enter '' @ jv_string (jv_get field ''label'') @ ''.'')
      else errors)"

definition providerConnectionErrors ::
  "(string \<Rightarrow> string) \<Rightarrow> (string \<Rightarrow> endpoint_url option) \<Rightarrow> jv \<Rightarrow> connection_values \<Rightarrow> provider_definition list
     \<Rightarrow> (string, string) jsmap" where
  "providerConnectionErrors lower parse d values definitions =
     (let e0 = (case providerLabelError lower (bv_label values) definitions JNull of
                  None \<Rightarrow> [] | Some m \<Rightarrow> map_set [] ''label'' m);
          e1 = (if jv_truthy (jv_get d ''endpointEditableDuringCreation'') then endpoint_errors parse values e0 else e0)
      in fold (field_error values) (descriptor_fields d) e1)"

record creation_payload =
  bc_connectionId :: "string option"
  bc_adapterId :: jv
  bc_label :: string
  bc_endpoint :: jv
  bc_fields :: "(string, string) jsmap"

definition endpoint_text :: "string \<Rightarrow> string" where
  "endpoint_text s = (if s \<noteq> [] \<and> last s = CHR ''/'' then butlast s else s)"

text \<open>The request of a connection; \<open>values.label\<close> is present and \<open>new URL\<close> throws on what it does not parse.\<close>

definition providerCreationPayload ::
  "(string \<Rightarrow> endpoint_url option) \<Rightarrow> jv \<Rightarrow> connection_values \<Rightarrow> string option \<Rightarrow> js_error + creation_payload" where
  "providerCreationPayload parse d values connectionId =
     bind_r (case bv_label values of None \<Rightarrow> Inl (TypeError ''values.label'') | Some l \<Rightarrow> Inr (js_trim l)) (\<lambda>label.
     bind_r (if jv_truthy (jv_get d ''endpointEditableDuringCreation'')
             then (case Option.bind (bv_endpoint values) parse of
                     None \<Rightarrow> Inl (TypeError ''Invalid URL'') | Some u \<Rightarrow> Inr (VStr (endpoint_text (bu_text u))))
             else Inr (jv_get d ''defaultEndpoint'')) (\<lambda>endpoint.
     Inr \<lparr>bc_connectionId = (if truthy_str connectionId then connectionId else None),
          bc_adapterId = jv_get d ''adapterId'', bc_label = label, bc_endpoint = endpoint,
          bc_fields = map_from (map (\<lambda>f. (jv_string (jv_get f ''id''), field_value values f)) (descriptor_fields d))\<rparr>))"

section \<open>Onboarding\<close>

record onboarding_member =
  bm_providerId :: jsval
  bm_modelId :: jsval
  bm_roles :: "string list"

text \<open>The choice of a family; a kind the code does not know is \<open>OtherFamily\<close>.\<close>

datatype family_intent =
    ExistingFamily jsval
  | ManagedFamily jsval jsval
  | CreateFamily "string option" "onboarding_member list"
  | OtherFamily string

record onboarding_harness =
  bh_id :: string
  bh_selectable :: bool
  bh_existingCustomFamilies :: "jsval list"
  bh_existingManagedFamilies :: "jsval list"
  bh_managedFamilyCandidate :: "(jsval \<times> jsval) option"
  bh_eligibleModels :: "(jsval \<times> jsval) list"

record onboarding_projection =
  bj_harnesses :: "onboarding_harness list"
  bj_initialHarnessId :: "string option"
  bj_blockingReason :: "string option"
  bj_projectionRevision :: jsval

record onboarding_choice =
  bk_harnessId :: "string option"
  bk_family :: "family_intent option"

definition sameModel :: "onboarding_member \<Rightarrow> jsval \<times> jsval \<Rightarrow> bool" where
  "sameModel member model \<longleftrightarrow> bm_providerId member = fst model \<and> bm_modelId member = snd model"

definition reconcileFamily :: "onboarding_harness \<Rightarrow> family_intent option \<Rightarrow> family_intent option" where
  "reconcileFamily harness family = (case family of
       None \<Rightarrow> None
     | Some (ExistingFamily i) \<Rightarrow>
         if list_ex (\<lambda>c. eqId c i) (bh_existingCustomFamilies harness @ bh_existingManagedFamilies harness)
         then family else None
     | Some (ManagedFamily i v) \<Rightarrow> if bh_managedFamilyCandidate harness = Some (i, v) then family else None
     | Some (CreateFamily name members) \<Rightarrow>
         Some (CreateFamily name (filter (\<lambda>m. list_ex (sameModel m) (bh_eligibleModels harness)) members))
     | Some (OtherFamily k) \<Rightarrow> None)"

definition find_harness :: "onboarding_projection \<Rightarrow> string option \<Rightarrow> onboarding_harness option" where
  "find_harness p i = find (\<lambda>h. Some (bh_id h) = i) (bj_harnesses p)"

definition reconcileProviderOnboardingState ::
  "onboarding_projection \<Rightarrow> onboarding_choice option \<Rightarrow> onboarding_choice" where
  "reconcileProviderOnboardingState p previous =
     (let prior = Option.bind previous bk_harnessId;
          keeps = list_ex (\<lambda>h. Some (bh_id h) = prior \<and> bh_selectable h) (bj_harnesses p);
          harnessId = (if keeps then prior else bj_initialHarnessId p)
      in \<lparr>bk_harnessId = harnessId,
          bk_family = (case find_harness p harnessId of
              None \<Rightarrow> None
            | Some h \<Rightarrow> if harnessId = prior then reconcileFamily h (Option.bind previous bk_family) else None)\<rparr>)"

definition providerOnboardingRecoveryAction :: "onboarding_projection option \<Rightarrow> (string \<times> string) option" where
  "providerOnboardingRecoveryAction p =
     (let code = Option.bind p bj_blockingReason in
      if code = Some ''provider_no_available_execution_configurations'' then Some (''repair_execution'', ''Repair'')
      else if code = Some ''provider_no_eligible_execution_models'' then Some (''refresh_models'', ''Refresh models'')
      else None)"

definition providerOnboardingRecoveryName :: "(string \<times> string) option \<Rightarrow> string option \<Rightarrow> string" where
  "providerOnboardingRecoveryName recovery label =
     (let description = (if map_option fst recovery = Some ''repair_execution'' then ''Repair execution configurations''
                         else ''Refresh models and set up defaults'')
      in if truthy_str label then description @ '' for '' @ the label else description)"

record completion_intent =
  bi_providerId :: jsval
  bi_harnessId :: string
  bi_expectedProjectionRevision :: jsval
  bi_family :: family_intent

definition is_orchestrator :: "onboarding_member \<Rightarrow> bool" where
  "is_orchestrator m \<longleftrightarrow> list_ex (\<lambda>r. r = ''orchestrator'') (bm_roles m)"

definition providerOnboardingCompletionIntent ::
  "jsval \<Rightarrow> onboarding_projection option \<Rightarrow> string option \<Rightarrow> family_intent option \<Rightarrow> completion_intent option" where
  "providerOnboardingCompletionIntent providerId projection harnessId family =
     (case (projection, family) of
        (Some p, Some f) \<Rightarrow>
          if \<not> jsval_truthy providerId \<or> \<not> jsval_truthy (bj_projectionRevision p) \<or> \<not> truthy_str harnessId then None
          else (case f of
              CreateFamily name members \<Rightarrow>
                if js_trim (str_or name []) = [] \<or> members = [] \<or> length (filter is_orchestrator members) \<noteq> 1 then None
                else Some \<lparr>bi_providerId = providerId, bi_harnessId = the harnessId,
                           bi_expectedProjectionRevision = bj_projectionRevision p,
                           bi_family = CreateFamily (Some (js_trim (the name))) members\<rparr>
            | _ \<Rightarrow> Some \<lparr>bi_providerId = providerId, bi_harnessId = the harnessId,
                         bi_expectedProjectionRevision = bj_projectionRevision p, bi_family = f\<rparr>)
      | _ \<Rightarrow> None)"

text \<open>A control with its \<open>disabled\<close> and the mark in its \<open>dataset\<close>.\<close>

record busy_control =
  by_disabled :: bool
  by_before :: "string option"

definition control_busy :: "bool \<Rightarrow> busy_control \<Rightarrow> busy_control" where
  "control_busy busy c =
     (if busy then \<lparr>by_disabled = True, by_before = Some (if by_disabled c then ''true'' else ''false'')\<rparr>
      else (case by_before c of
              None \<Rightarrow> c
            | Some s \<Rightarrow> \<lparr>by_disabled = (s = ''true''), by_before = None\<rparr>))"

definition setProviderOnboardingControlsBusy :: "busy_control list \<Rightarrow> bool \<Rightarrow> busy_control list" where
  "setProviderOnboardingControlsBusy controls busy = map (control_busy busy) controls"

section \<open>What holds\<close>

lemma jv_with_same: "jv_get v k = x \<Longrightarrow> x \<noteq> VUndef \<Longrightarrow> jv_with v k x = v"
proof (cases v)
  case (VObj fs)
  have "map_of fs k = Some x \<Longrightarrow> map_set fs k x = fs" for fs :: "(string \<times> jv) list"
    by (induction fs k x rule: map_set.induct) (auto split: if_splits)
  then show "jv_get v k = x \<Longrightarrow> x \<noteq> VUndef \<Longrightarrow> jv_with v k x = v"
    by (auto simp: VObj jv_with_def jv_get_obj split: option.splits)
qed (auto simp: jv_get_def)

lemma map_of_set: "map_of (map_set fs k x) k' = (if k' = k then Some x else map_of fs k')"
  by (induction fs k x rule: map_set.induct) auto

lemma jv_get_with [simp]: "jv_get (jv_with v k x) k' = (if k' = k then x else jv_get v k')"
  by (cases v) (auto simp: jv_with_def jv_get_def map_of_set)

lemma normalize_field_idem: "normalize_field a f = Inr f' \<Longrightarrow> normalize_field a f' = Inr f'"
  by (auto simp: normalize_field_def split: if_splits intro: jv_with_same)

lemma map_r_idem: "map_r g xs = Inr ys \<Longrightarrow> (\<And>x y. g x = Inr y \<Longrightarrow> g y = Inr y) \<Longrightarrow> map_r g ys = Inr ys"
  by (induction xs arbitrary: ys) (auto simp: bind_r_Inr_iff)

lemma map_r_all: "map_r g xs = Inr ys \<Longrightarrow> (\<And>x y. g x = Inr y \<Longrightarrow> P y) \<Longrightarrow> list_all P ys"
  by (induction xs arbitrary: ys) (auto simp: bind_r_Inr_iff)

lemma normalize_field_typed:
  "normalize_field a f = Inr f' \<Longrightarrow>
     jv_get f' ''kind'' \<in> {VStr ''secret'', VStr ''text''} \<and> jv_get f' ''required'' \<in> {VBool True, VBool False}"
  by (auto simp: normalize_field_def split: if_splits)

lemma jv_with_truthy [simp]: "jv_truthy (jv_with v k x)"
  by (cases v) (simp_all add: jv_with_def jv_truthy_def)

text \<open>Normalizing a descriptor twice is normalizing it once, and the normal form names the adapter, a mode of the
  list, fields of a known kind and whether the endpoint may be edited.\<close>

theorem descriptor_normal_form:
  assumes "normalizeProviderDescriptor d = Inr n"
  shows "normalizeProviderDescriptor n = Inr n
    \<and> descriptor_mode n \<in> VStr ` set CONNECTION_MODES
    \<and> list_all (\<lambda>f. jv_get f ''kind'' \<in> {VStr ''secret'', VStr ''text''} \<and> jv_get f ''required'' \<in> {VBool True, VBool False})
        (descriptor_fields n)
    \<and> jv_get n ''endpointEditableDuringCreation'' \<in> {VBool True, VBool False}"
proof -
  let ?a = "jv_string (jv_get d ''adapterId'')" and ?c = "jv_get d ''connection''"
  obtain xs fields where ok: "jv_truthy d" "named_text (jv_get d ''adapterId'')" "named_text (jv_get d ''label'')"
      "jv_get ?c ''mode'' \<in> VStr ` set CONNECTION_MODES"
    and fields: "map_r (normalize_field ?a) xs = Inr fields"
    and n: "n = jv_with (jv_with d ''connection'' (jv_with ?c ''fields'' (VArr fields)))
        ''endpointEditableDuringCreation'' (VBool (jv_get d ''endpointEditableDuringCreation'' = VBool True))"
    using assms by (auto simp: normalizeProviderDescriptor_def Let_def bind_r_Inr_iff split: if_splits)
  have "map_r (normalize_field ?a) fields = Inr fields"
    using map_r_idem [OF fields] normalize_field_idem by blast
  moreover have "list_all (\<lambda>f. jv_get f ''kind'' \<in> {VStr ''secret'', VStr ''text''}
      \<and> jv_get f ''required'' \<in> {VBool True, VBool False}) fields"
    by (rule map_r_all [OF fields]) (rule normalize_field_typed)
  moreover have parts: "jv_get n ''adapterId'' = jv_get d ''adapterId''" "jv_get n ''label'' = jv_get d ''label''"
      "jv_get n ''connection'' = jv_with ?c ''fields'' (VArr fields)" "jv_truthy n"
      "jv_get n ''endpointEditableDuringCreation'' = VBool (jv_get d ''endpointEditableDuringCreation'' = VBool True)"
    by (simp_all add: n)
  moreover have "jv_with (jv_with ?c ''fields'' (VArr fields)) ''fields'' (VArr fields) = jv_with ?c ''fields'' (VArr fields)"
    by (rule jv_with_same) simp_all
  moreover have "jv_with (jv_with n ''connection'' (jv_get n ''connection'')) ''endpointEditableDuringCreation''
      (VBool (jv_get n ''endpointEditableDuringCreation'' = VBool True)) = n"
  proof -
    have "jv_get n ''connection'' \<noteq> VUndef" using parts(3) by (cases ?c) (simp_all add: jv_with_def)
    then have "jv_with n ''connection'' (jv_get n ''connection'') = n" by (intro jv_with_same refl)
    moreover have "jv_with n ''endpointEditableDuringCreation''
        (VBool (jv_get n ''endpointEditableDuringCreation'' = VBool True)) = n"
      by (rule jv_with_same) (simp_all add: parts(5))
    ultimately show ?thesis by simp
  qed
  ultimately show ?thesis using ok
    by (auto simp: normalizeProviderDescriptor_def Let_def raw_fields_def descriptor_mode_def descriptor_fields_def)
qed

lemma js_sort_filters:
  "mset (filter P (js_sort cmp xs)) + mset (filter (\<lambda>x. \<not> P x) (js_sort cmp xs)) = mset xs"
  by (metis mset_filter mset_js_sort multiset_partition)

text \<open>Every descriptor is in exactly one group, once.\<close>

lemma groups_partition:
  assumes "providerDescriptorGroups lc ds = Inr (subscriptions, api)"
  shows "\<exists>ns. map_r normalizeProviderDescriptor ds = Inr ns \<and> mset subscriptions + mset api = mset ns
    \<and> list_all (\<lambda>d. descriptor_mode d \<noteq> VStr ''secret-fields'') subscriptions \<and> list_all (\<lambda>d. descriptor_mode d = VStr ''secret-fields'') api"
  using assms js_sort_filters [of "\<lambda>d. descriptor_mode d \<noteq> VStr ''secret-fields''" "compareLabel lc"]
  by (auto simp: providerDescriptorGroups_def bind_r_Inr_iff Let_def list_all_iff)

lemma lifecycle_usable:
  "provider_lifecycle (Some p) \<notin> {''removal_pending'', ''tombstoned'', ''unavailable''} \<longleftrightarrow>
     bd_lifecycleState p \<notin> {Some ''removal_pending'', Some ''tombstoned''} \<and> bd_connected p \<noteq> Some False"
  by (cases "bd_lifecycleState p") (auto simp: provider_lifecycle_def PROVIDER_LIFECYCLES_def Let_def)

lemma usable_lifecycle:
  "bs_usable (providerDefinitionStatus d) \<longleftrightarrow>
     \<not> active_without ''provider_no_available_execution_configurations'' d
     \<and> \<not> active_without ''provider_no_eligible_execution_models'' d
     \<and> provider_lifecycle d \<notin> {''removal_pending'', ''tombstoned'', ''unavailable''}"
  by (simp add: providerDefinitionStatus_def status_of_def Let_def)

text \<open>When a provider is usable, in terms of what was persisted.\<close>

lemma usable_iff:
  "bs_usable (providerDefinitionStatus (Some p)) \<longleftrightarrow>
     bd_lifecycleState p \<notin> {Some ''removal_pending'', Some ''tombstoned''} \<and> bd_connected p \<noteq> Some False
     \<and> \<not> active_without ''provider_no_available_execution_configurations'' (Some p)
     \<and> \<not> active_without ''provider_no_eligible_execution_models'' (Some p)"
  unfolding usable_lifecycle lifecycle_usable by blast

text \<open>A provider under recovery is not usable, and a usable one offers no recovery.\<close>

lemma recovery_not_usable: "bs_recovery (providerDefinitionStatus d) \<noteq> None \<Longrightarrow> \<not> bs_usable (providerDefinitionStatus d)"
  by (simp add: providerDefinitionStatus_def status_of_def Let_def split: if_split_asm)

lemma lifecycle_not_preparing: "provider_lifecycle d \<noteq> ''preparing_execution''"
  by (cases "Option.bind d bd_lifecycleState") (auto simp: provider_lifecycle_def PROVIDER_LIFECYCLES_def Let_def)

text \<open>The first-run gate opens exactly when onboarding was completed, or when no connected provider is being
  prepared or in need of recovery, one of them is usable, and the default family resolves to a provider and a model.\<close>

theorem first_run_gate_opens:
  "firstRunGateState hasCompleted providers resolution = None \<longleftrightarrow>
     hasCompleted
     \<or> list_ex (\<lambda>p. bs_usable (providerDefinitionStatus (Some p))) providers
       \<and> filter (\<lambda>p. active_without ''provider_no_available_execution_configurations'' (Some p)
                  \<or> active_without ''provider_no_eligible_execution_models'' (Some p)) providers = []
       \<and> default_field br_familyId resolution \<and> default_field br_providerDefinitionId resolution
       \<and> default_field br_modelId resolution"
proof -
  define prepares where "prepares = (\<lambda>p. bs_lifecycle (providerDefinitionStatus (Some p)) = ''preparing_execution'')"
  define offers where "offers = (\<lambda>r p. bs_recovery (providerDefinitionStatus (Some p)) = Some r)"
  have gate: "firstRunGateState hasCompleted providers resolution = None \<longleftrightarrow>
     hasCompleted \<or> \<not> list_ex prepares providers \<and> \<not> list_ex (offers ''refresh_models'') providers
       \<and> \<not> list_ex (offers ''repair_execution'') providers
       \<and> list_ex (\<lambda>p. bs_usable (providerDefinitionStatus (Some p))) providers
       \<and> default_field br_familyId resolution \<and> default_field br_providerDefinitionId resolution
       \<and> default_field br_modelId resolution"
    unfolding firstRunGateState_def Let_def prepares_def offers_def by simp
  have each: "active_without ''provider_no_available_execution_configurations'' (Some p)
      \<or> active_without ''provider_no_eligible_execution_models'' (Some p)
      \<longleftrightarrow> prepares p \<or> offers ''refresh_models'' p \<or> offers ''repair_execution'' p" for p
    using lifecycle_not_preparing [of "Some p"]
    by (simp add: prepares_def offers_def providerDefinitionStatus_def status_of_def Let_def)
  have "filter (\<lambda>p. active_without ''provider_no_available_execution_configurations'' (Some p)
      \<or> active_without ''provider_no_eligible_execution_models'' (Some p)) providers = []
      \<longleftrightarrow> \<not> list_ex prepares providers \<and> \<not> list_ex (offers ''refresh_models'') providers
        \<and> \<not> list_ex (offers ''repair_execution'') providers"
    unfolding each by (simp add: filter_empty_conv list_ex_iff) blast
  then show ?thesis unfolding gate by blast
qed

lemma reconcileFamily_idem: "reconcileFamily h (reconcileFamily h f) = reconcileFamily h f"
  by (auto simp: reconcileFamily_def split: option.splits family_intent.splits)

lemma reconcileFamily_None: "reconcileFamily h None = None"
  by (simp add: reconcileFamily_def)

lemma find_harness_id: "find_harness p i = Some h \<Longrightarrow> i = Some (bh_id h) \<and> h \<in> set (bj_harnesses p)"
  by (auto simp: find_harness_def find_Some_iff)


lemma dropWhile_hd: "(xs \<noteq> [] \<Longrightarrow> \<not> P (hd xs)) \<Longrightarrow> dropWhile P xs = xs"
  by (cases xs) auto

lemma js_trim_idem: "js_trim (js_trim s) = js_trim s"
proof -
  define t where "t = dropWhile is_space s"
  define u where "u = rev (dropWhile is_space (rev t))"
  have "t = u @ rev (takeWhile is_space (rev t))"
    unfolding u_def by (metis rev_append rev_rev_ident takeWhile_dropWhile_id)
  then have "hd u = hd t" "t \<noteq> []" if "u \<noteq> []" using that by (metis hd_append2, auto)
  then have "dropWhile is_space u = u"
    using hd_dropWhile [of is_space s] by (intro dropWhile_hd) (auto simp: t_def)
  moreover have "dropWhile is_space (rev u) = rev u"
    using hd_dropWhile [of is_space "rev t"] by (intro dropWhile_hd) (auto simp: u_def)
  ultimately show ?thesis by (simp add: js_trim_def t_def u_def)
qed

lemma js_trim_Nil [simp]: "js_trim [] = []"
  by (simp add: js_trim_def)

text \<open>An intent to finish has all it needs; a family to create has a trimmed name and exactly one orchestrator.\<close>

lemma completion_intent_complete:
  assumes "providerOnboardingCompletionIntent providerId projection harnessId family = Some i"
  shows "jsval_truthy (bi_providerId i) \<and> bi_harnessId i \<noteq> [] \<and> jsval_truthy (bi_expectedProjectionRevision i)
    \<and> (case bi_family i of CreateFamily name members \<Rightarrow> js_trim (str_or name []) \<noteq> [] \<and> length (filter is_orchestrator members) = 1
        | _ \<Rightarrow> family = Some (bi_family i))"
proof -
  show ?thesis using assms
    by (cases projection; cases family)
      (auto simp: providerOnboardingCompletionIntent_def truthy_str_def str_or_def js_trim_idem split: family_intent.splits if_splits option.splits)
qed

text \<open>Becoming busy and idle again leaves the controls as they were; becoming busy twice disables them for good.\<close>

lemma busy_then_idle:
  "list_all (\<lambda>c. by_before c = None) cs
     \<Longrightarrow> setProviderOnboardingControlsBusy (setProviderOnboardingControlsBusy cs True) False = cs"
  by (induction cs) (auto simp: setProviderOnboardingControlsBusy_def control_busy_def)

lemma busy_twice_disables:
  "list_all by_disabled (setProviderOnboardingControlsBusy
     (setProviderOnboardingControlsBusy (setProviderOnboardingControlsBusy cs True) True) False)"
  by (simp add: setProviderOnboardingControlsBusy_def control_busy_def list_all_iff)

definition demo_descriptor :: jv where
  "demo_descriptor = VObj [(''adapterId'', VStr ''a''), (''label'', VStr ''A''), (''connection'', VObj [(''mode'', VStr ''secret-fields''),
     (''fields'', VArr [VObj [(''id'', VStr ''k''), (''label'', VStr ''Key''), (''kind'', VStr ''secret'')]])])]"

definition demo_normal :: jv where
  "demo_normal = VObj [(''adapterId'', VStr ''a''), (''label'', VStr ''A''), (''connection'', VObj [(''mode'', VStr ''secret-fields''),
     (''fields'', VArr [VObj [(''id'', VStr ''k''), (''label'', VStr ''Key''), (''kind'', VStr ''secret''), (''required'', VBool True)]])]),
     (''endpointEditableDuringCreation'', VBool False)]"

lemma demo_normalized_descriptor: "normalizeProviderDescriptor demo_descriptor = Inr demo_normal"
  by (simp add: normalizeProviderDescriptor_def demo_descriptor_def demo_normal_def jv_truthy_def named_text_def js_trim_def
      is_space_def CONNECTION_MODES_def raw_fields_def normalize_field_def jv_with_def Let_def)

theorem descriptor_normal_form_witness:
  "normalizeProviderDescriptor demo_descriptor = Inr demo_normal \<and> normalizeProviderDescriptor demo_normal = Inr demo_normal"
  using descriptor_normal_form [OF demo_normalized_descriptor] demo_normalized_descriptor by blast

end
