(* ===== verification/ProviderCatalog.thy ===== *)
theory ProviderCatalog
  imports JsBytes
begin

text \<open>
  The catalog of models that a provider reports (\<open>desktop/main/models/model-catalog-adapter.mjs\<close>): the check that
  turns what an adapter discovered, an untyped value, into a snapshot, and the form that is published to the
  product. A snapshot is a normal form of the check (\<open>snapshot_is_normal_form\<close>), so the publication, which checks
  it again, cannot fail; and it is well formed (\<open>catalog_well_formed\<close>).
  Strings are over the code points below 256, where no surrogate lies.
\<close>

section \<open>Readers\<close>

definition nonEmptyString :: "jv \<Rightarrow> string \<Rightarrow> string result" where
  "nonEmptyString value field = (case value of
       VStr s \<Rightarrow> if js_trim s = [] then Inl (Error (field @ '' must be a non-empty string.'')) else Inr (js_trim s)
     | _ \<Rightarrow> Inl (Error (field @ '' must be a non-empty string.'')))"

definition nullish_value :: "jv \<Rightarrow> bool" where
  "nullish_value v \<longleftrightarrow> v = VUndef \<or> v = VNull"

definition optionalString :: "jv \<Rightarrow> string \<Rightarrow> string option result" where
  "optionalString value field =
     (if nullish_value value then Inr None else bind_r (nonEmptyString value field) (\<lambda>s. Inr (Some s)))"

text \<open>\<open>\\p{White_Space}\<close> and \<open>\\p{Cc}\<close> below 256.\<close>

definition white_space :: "char \<Rightarrow> bool" where
  "white_space c \<longleftrightarrow> (of_char c :: nat) \<in> {9, 10, 11, 12, 13, 32, 133, 160}"

definition control_char :: "char \<Rightarrow> bool" where
  "control_char c \<longleftrightarrow> (of_char c :: nat) < 32 \<or> (127 \<le> (of_char c :: nat) \<and> (of_char c :: nat) < 160)"

definition stable_id :: "string \<Rightarrow> bool" where
  "stable_id s \<longleftrightarrow> s \<noteq> [] \<and> length s \<le> 200 \<and> \<not> white_space (hd s) \<and> \<not> white_space (last s) \<and> \<not> list_ex control_char s"

definition stableIdString :: "jv \<Rightarrow> string \<Rightarrow> string result" where
  "stableIdString value field = (case value of
       VStr s \<Rightarrow> if stable_id s then Inr s else Inl (Error (field @ '' must be a stable identifier.''))
     | _ \<Rightarrow> Inl (Error (field @ '' must be a stable identifier.'')))"

definition optionalStableIdString :: "jv \<Rightarrow> string \<Rightarrow> string option result" where
  "optionalStableIdString value field =
     (if nullish_value value then Inr None else bind_r (stableIdString value field) (\<lambda>s. Inr (Some s)))"

definition read_boolean :: "jv \<Rightarrow> string \<Rightarrow> bool result" where
  "read_boolean value field = (case value of
       VBool b \<Rightarrow> Inr b | _ \<Rightarrow> Inl (Error (field @ '' must be a boolean.'')))"

definition item_field :: "string \<Rightarrow> nat \<Rightarrow> string" where
  "item_field field index = field @ ''['' @ show_nat index @ '']''"

text \<open>\<open>value.map((item, index) => ...)\<close> of a list that must be an array.\<close>

definition read_items :: "(jv \<Rightarrow> string \<Rightarrow> 'a result) \<Rightarrow> jv \<Rightarrow> string \<Rightarrow> 'a list result" where
  "read_items f value field = (case value of
       VArr xs \<Rightarrow> map_r (\<lambda>(i, x). f x (item_field field i)) (enumerate 0 xs)
     | _ \<Rightarrow> Inl (Error (field @ '' must be an array.'')))"

definition stringList :: "jv \<Rightarrow> string \<Rightarrow> string list result" where
  "stringList = read_items nonEmptyString"

definition stableIdList :: "jv \<Rightarrow> string \<Rightarrow> string list result" where
  "stableIdList = read_items stableIdString"

definition text_or_empty :: "jv \<Rightarrow> string" where
  "text_or_empty v = (case v of VStr s \<Rightarrow> s | _ \<Rightarrow> [])"

record catalog_effort =
  eff_id :: string
  eff_description :: string

definition sanitizeEffort :: "jv \<Rightarrow> string \<Rightarrow> catalog_effort result" where
  "sanitizeEffort item field = bind_r (nonEmptyString (jv_get item ''id'') (field @ ''.id'')) (\<lambda>i.
     Inr \<lparr>eff_id = i, eff_description = text_or_empty (jv_get item ''description'')\<rparr>)"

definition sanitizeEfforts :: "jv \<Rightarrow> string \<Rightarrow> catalog_effort list result" where
  "sanitizeEfforts = read_items sanitizeEffort"

record service_tier =
  tier_id :: string
  tier_name :: string
  tier_description :: string

definition sanitizeServiceTier :: "jv \<Rightarrow> string \<Rightarrow> service_tier result" where
  "sanitizeServiceTier item field =
     bind_r (nonEmptyString (jv_get item ''id'') (field @ ''.id'')) (\<lambda>i.
     bind_r (nonEmptyString (jv_get item ''name'') (field @ ''.name'')) (\<lambda>n.
     Inr \<lparr>tier_id = i, tier_name = n, tier_description = text_or_empty (jv_get item ''description'')\<rparr>))"

definition sanitizeServiceTiers :: "jv \<Rightarrow> string \<Rightarrow> service_tier list result" where
  "sanitizeServiceTiers = read_items sanitizeServiceTier"

record upgrade_info =
  upg_modelId :: string
  upg_copy :: "string option"
  upg_link :: "string option"
  upg_migrationMarkdown :: "string option"

text \<open>\<open>typeof value === "object"\<close> of something that is neither null nor an array.\<close>

definition plain_object :: "jv \<Rightarrow> bool" where
  "plain_object v = (case v of VObj _ \<Rightarrow> True | VBytes _ \<Rightarrow> True | _ \<Rightarrow> False)"

definition sanitizeUpgradeInfo :: "jv \<Rightarrow> string \<Rightarrow> upgrade_info option result" where
  "sanitizeUpgradeInfo value field =
     (if nullish_value value then Inr None
      else if \<not> plain_object value then Inl (Error (field @ '' must be an object.''))
      else bind_r (stableIdString (jv_get value ''modelId'') (field @ ''.modelId'')) (\<lambda>i.
        bind_r (optionalString (jv_get value ''copy'') (field @ ''.copy'')) (\<lambda>c.
        bind_r (optionalString (jv_get value ''link'') (field @ ''.link'')) (\<lambda>l.
        bind_r (optionalString (jv_get value ''migrationMarkdown'') (field @ ''.migrationMarkdown'')) (\<lambda>m.
        Inr (Some \<lparr>upg_modelId = i, upg_copy = c, upg_link = l, upg_migrationMarkdown = m\<rparr>))))))"

section \<open>A model\<close>

record reported_model =
  kg_providerId :: string
  kg_id :: string
  kg_catalogId :: string
  kg_executionModel :: string
  kg_label :: string
  kg_description :: string
  kg_order :: nat
  kg_visible :: bool
  kg_availability :: string
  kg_unavailableReason :: "string option"
  kg_unavailableReasonCode :: "string option"
  kg_availabilityNotice :: "string option"
  kg_isDefault :: bool
  kg_replacementModelId :: "string option"
  kg_upgradeInfo :: "upgrade_info option"
  kg_supportedEfforts :: "catalog_effort list"
  kg_defaultEffort :: "string option"
  kg_inputModalities :: "string list"
  kg_supportsPersonality :: bool
  kg_serviceTiers :: "service_tier list"
  kg_defaultServiceTier :: "string option"
  kg_catalogSource :: "string option"

definition MODEL_AVAILABILITY :: "string list" where
  "MODEL_AVAILABILITY = [''available'', ''unavailable'']"

definition value_or :: "jv \<Rightarrow> jv \<Rightarrow> jv" where
  "value_or a b = (if nullish_value a then b else a)"

text \<open>The first part of \<open>sanitizeModel\<close>: the availability, its reason and the code of the reason.\<close>

definition read_availability :: "jv \<Rightarrow> string \<Rightarrow> (string \<times> string option \<times> string option) result" where
  "read_availability model field =
     bind_r (nonEmptyString (jv_get model ''availability'') (field @ ''.availability'')) (\<lambda>availability.
     if availability \<notin> set MODEL_AVAILABILITY
     then Inl (Error (field @ ''.availability must be available or unavailable.''))
     else
       bind_r (optionalString (jv_get model ''unavailableReason'') (field @ ''.unavailableReason'')) (\<lambda>reason.
       bind_r (optionalString (jv_get model ''unavailableReasonCode'') (field @ ''.unavailableReasonCode'')) (\<lambda>code.
       if availability = ''unavailable'' \<and> reason = None
       then Inl (Error (field @ ''.unavailableReason is required when a model is unavailable.''))
       else Inr (availability, reason, case code of Some c \<Rightarrow> Some c | None \<Rightarrow>
              if availability = ''unavailable'' then Some ''provider_reported_unavailable'' else None))))"

definition sanitizeModel :: "string \<Rightarrow> jv \<Rightarrow> nat \<Rightarrow> reported_model result" where
  "sanitizeModel providerId model index =
     (let field = item_field ''models'' index; f = (\<lambda>k. jv_get model k); n = (\<lambda>k. field @ ''.'' @ k) in
      bind_r (read_availability model field) (\<lambda>(availability, reason, code).
      bind_r (stableIdString (f ''id'') (n ''id'')) (\<lambda>i.
      bind_r (stableIdString (value_or (f ''catalogId'') (f ''id'')) (n ''catalogId'')) (\<lambda>catalogId.
      bind_r (stableIdString (f ''executionModel'') (n ''executionModel'')) (\<lambda>executionModel.
      bind_r (nonEmptyString (f ''label'') (n ''label'')) (\<lambda>label.
      bind_r (read_boolean (f ''visible'') (n ''visible'')) (\<lambda>visible.
      bind_r (optionalString (f ''availabilityNotice'') (n ''availabilityNotice'')) (\<lambda>notice.
      bind_r (read_boolean (f ''isDefault'') (n ''isDefault'')) (\<lambda>isDefault.
      bind_r (optionalStableIdString (f ''replacementModelId'') (n ''replacementModelId'')) (\<lambda>replacement.
      bind_r (sanitizeUpgradeInfo (f ''upgradeInfo'') (n ''upgradeInfo'')) (\<lambda>upgrade.
      bind_r (sanitizeEfforts (f ''supportedEfforts'') (n ''supportedEfforts'')) (\<lambda>efforts.
      bind_r (optionalString (f ''defaultEffort'') (n ''defaultEffort'')) (\<lambda>defaultEffort.
      bind_r (stringList (f ''inputModalities'') (n ''inputModalities'')) (\<lambda>modalities.
      bind_r (read_boolean (f ''supportsPersonality'') (n ''supportsPersonality'')) (\<lambda>personality.
      bind_r (sanitizeServiceTiers (f ''serviceTiers'') (n ''serviceTiers'')) (\<lambda>tiers.
      bind_r (optionalString (f ''defaultServiceTier'') (n ''defaultServiceTier'')) (\<lambda>defaultTier.
      bind_r (optionalString (f ''catalogSource'') (n ''catalogSource'')) (\<lambda>source.
      Inr \<lparr>kg_providerId = providerId, kg_id = i, kg_catalogId = catalogId, kg_executionModel = executionModel,
           kg_label = label, kg_description = text_or_empty (f ''description''), kg_order = index, kg_visible = visible,
           kg_availability = availability, kg_unavailableReason = reason, kg_unavailableReasonCode = code,
           kg_availabilityNotice = notice, kg_isDefault = isDefault, kg_replacementModelId = replacement,
           kg_upgradeInfo = upgrade, kg_supportedEfforts = efforts, kg_defaultEffort = defaultEffort,
           kg_inputModalities = modalities, kg_supportsPersonality = personality, kg_serviceTiers = tiers,
           kg_defaultServiceTier = defaultTier, kg_catalogSource = source\<rparr>))))))))))))))))))"

section \<open>A snapshot\<close>

definition lower_alnum :: "char \<Rightarrow> bool" where
  "lower_alnum c \<longleftrightarrow> is_digit c \<or> (97 \<le> (of_char c :: nat) \<and> (of_char c :: nat) \<le> 122)"

text \<open>\<open>^[a-z0-9]+(?:[._-][a-z0-9]+)*$\<close>: runs of letters and digits with one separator between two of them.\<close>

fun segments :: "bool \<Rightarrow> string \<Rightarrow> bool" where
  "segments after [] = after"
| "segments after (c # cs) =
     (if lower_alnum c then segments True cs
      else (c = CHR ''.'' \<or> c = CHR ''_'' \<or> c = CHR ''-'') \<and> after \<and> segments False cs)"

definition PROVIDER_ID_PATTERN :: "string \<Rightarrow> bool" where
  "PROVIDER_ID_PATTERN s = segments False s"

definition PROVIDER_STATUSES :: "string list" where
  "PROVIDER_STATUSES = [''available'', ''disconnected'', ''unavailable'']"

record reported_provider =
  kp_id :: string
  kp_label :: string
  kp_status :: string
  kp_unavailableReason :: "string option"

record catalog_snapshot =
  ksn_provider :: reported_provider
  ksn_models :: "reported_model list"
  ksn_familyId :: string
  ksn_familyLabel :: string
  ksn_familyModelIds :: "string list"

definition read_provider :: "jv \<Rightarrow> (string \<times> string \<times> string option) result" where
  "read_provider provider =
     bind_r (stableIdString (jv_get provider ''id'') ''provider.id'') (\<lambda>providerId.
     if \<not> PROVIDER_ID_PATTERN providerId then Inl (Error ''provider.id is invalid.'')
     else bind_r (nonEmptyString (jv_get provider ''status'') ''provider.status'') (\<lambda>status.
     if status \<notin> set PROVIDER_STATUSES then Inl (Error ''provider.status is invalid.'')
     else bind_r (optionalString (jv_get provider ''unavailableReason'') ''provider.unavailableReason'') (\<lambda>reason.
     if status = ''unavailable'' \<and> reason = None
     then Inl (Error ''provider.unavailableReason is required when a provider is unavailable.'')
     else Inr (providerId, status, reason))))"

text \<open>\<open>snapshot.models.map((model, index) => sanitizeModel(model, providerId, index))\<close>, and the loop over the ids.\<close>

definition read_models :: "string \<Rightarrow> jv \<Rightarrow> reported_model list result" where
  "read_models providerId value = (case value of
       VArr xs \<Rightarrow> map_r (\<lambda>(i, x). sanitizeModel providerId x i) (enumerate 0 xs)
     | _ \<Rightarrow> Inl (Error ''models must be an array.''))"

fun unique_ids :: "string list \<Rightarrow> reported_model list \<Rightarrow> unit result" where
  "unique_ids seen [] = Inr ()"
| "unique_ids seen (m # ms) =
     (if kg_id m \<in> set seen then Inl (Error (''Duplicate provider model id: '' @ kg_id m))
      else unique_ids (kg_id m # seen) ms)"

fun check_family :: "reported_model list \<Rightarrow> string list \<Rightarrow> string list \<Rightarrow> unit result" where
  "check_family models seen [] = Inr ()"
| "check_family models seen (i # is) =
     (if i \<in> set seen then Inl (Error (''Duplicate system-family model id: '' @ i))
      else case List.find (\<lambda>m. kg_id m = i) models of
          None \<Rightarrow> Inl (Error (''System-family model does not exist in the provider catalog: '' @ i))
        | Some m \<Rightarrow> if \<not> kg_visible m then Inl (Error (''System-family model must be visible: '' @ i))
                    else check_family models (i # seen) is)"

definition sanitizeModelCatalogSnapshot :: "jv \<Rightarrow> catalog_snapshot result" where
  "sanitizeModelCatalogSnapshot snapshot =
     (if \<not> plain_object snapshot then Inl (Error ''A model catalog snapshot must be an object.'')
      else let provider = jv_get snapshot ''provider''; family = jv_get snapshot ''systemFamily'' in
        bind_r (read_provider provider) (\<lambda>(providerId, status, reason).
        bind_r (read_models providerId (jv_get snapshot ''models'')) (\<lambda>models.
        bind_r (unique_ids [] models) (\<lambda>_.
        if \<not> plain_object family then Inl (Error ''systemFamily must be an object.'')
        else bind_r (stableIdList (jv_get family ''modelIds'') ''systemFamily.modelIds'') (\<lambda>ids.
          if length ids > 5 then Inl (Error ''A system model family cannot contain more than five models.'')
          else bind_r (check_family models [] ids) (\<lambda>_.
            bind_r (nonEmptyString (jv_get provider ''label'') ''provider.label'') (\<lambda>label.
            bind_r (stableIdString (jv_get family ''id'') ''systemFamily.id'') (\<lambda>familyId.
            bind_r (nonEmptyString (jv_get family ''label'') ''systemFamily.label'') (\<lambda>familyLabel.
            Inr \<lparr>ksn_provider = \<lparr>kp_id = providerId, kp_label = label, kp_status = status, kp_unavailableReason = reason\<rparr>,
                 ksn_models = models, ksn_familyId = familyId, ksn_familyLabel = familyLabel,
                 ksn_familyModelIds = ids\<rparr>)))))))))"

text \<open>The value of a snapshot: the frozen object that the check returns, as a later check reads it.\<close>

definition opt_value :: "string option \<Rightarrow> jv" where
  "opt_value o' = (case o' of None \<Rightarrow> VNull | Some s \<Rightarrow> VStr s)"

definition upgrade_value :: "upgrade_info option \<Rightarrow> jv" where
  "upgrade_value u = (case u of None \<Rightarrow> VNull | Some x \<Rightarrow>
     VObj [(''modelId'', VStr (upg_modelId x)), (''copy'', opt_value (upg_copy x)), (''link'', opt_value (upg_link x)),
           (''migrationMarkdown'', opt_value (upg_migrationMarkdown x))])"

definition effort_value :: "catalog_effort \<Rightarrow> jv" where
  "effort_value e = VObj [(''id'', VStr (eff_id e)), (''description'', VStr (eff_description e))]"

definition tier_value :: "service_tier \<Rightarrow> jv" where
  "tier_value t = VObj [(''id'', VStr (tier_id t)), (''name'', VStr (tier_name t)),
     (''description'', VStr (tier_description t))]"

definition model_value :: "reported_model \<Rightarrow> jv" where
  "model_value m = VObj [
     (''providerId'', VStr (kg_providerId m)), (''id'', VStr (kg_id m)), (''catalogId'', VStr (kg_catalogId m)),
     (''executionModel'', VStr (kg_executionModel m)), (''label'', VStr (kg_label m)),
     (''description'', VStr (kg_description m)), (''order'', VNum (NInt (int (kg_order m)))),
     (''visible'', VBool (kg_visible m)), (''availability'', VStr (kg_availability m)),
     (''unavailableReason'', opt_value (kg_unavailableReason m)),
     (''unavailableReasonCode'', opt_value (kg_unavailableReasonCode m)),
     (''availabilityNotice'', opt_value (kg_availabilityNotice m)), (''isDefault'', VBool (kg_isDefault m)),
     (''replacementModelId'', opt_value (kg_replacementModelId m)), (''upgradeInfo'', upgrade_value (kg_upgradeInfo m)),
     (''supportedEfforts'', VArr (map effort_value (kg_supportedEfforts m))),
     (''defaultEffort'', opt_value (kg_defaultEffort m)),
     (''inputModalities'', VArr (map VStr (kg_inputModalities m))),
     (''supportsPersonality'', VBool (kg_supportsPersonality m)),
     (''serviceTiers'', VArr (map tier_value (kg_serviceTiers m))),
     (''defaultServiceTier'', opt_value (kg_defaultServiceTier m)), (''catalogSource'', opt_value (kg_catalogSource m))]"

definition snapshot_value :: "catalog_snapshot \<Rightarrow> jv" where
  "snapshot_value s = VObj [
     (''schemaVersion'', VNum (NInt 1)),
     (''provider'', VObj [(''id'', VStr (kp_id (ksn_provider s))), (''label'', VStr (kp_label (ksn_provider s))),
        (''status'', VStr (kp_status (ksn_provider s))),
        (''unavailableReason'', opt_value (kp_unavailableReason (ksn_provider s)))]),
     (''models'', VArr (map model_value (ksn_models s))),
     (''systemFamily'', VObj [(''id'', VStr (ksn_familyId s)), (''label'', VStr (ksn_familyLabel s)),
        (''readOnly'', VBool True), (''modelIds'', VArr (map VStr (ksn_familyModelIds s)))])]"

text \<open>The snapshot of a provider whose catalog cannot be read; \<open>reason\<close> is an error, by its message, or any value.\<close>

definition reason_text :: "string + jv \<Rightarrow> string" where
  "reason_text reason = (case reason of
       Inl message \<Rightarrow> message
     | Inr v \<Rightarrow> jv_string (if jv_truthy v then v else VStr ''Provider catalog is unavailable.''))"

definition unavailableModelCatalogSnapshot :: "string \<Rightarrow> string \<Rightarrow> string + jv \<Rightarrow> catalog_snapshot result" where
  "unavailableModelCatalogSnapshot providerId providerLabel reason =
     sanitizeModelCatalogSnapshot (VObj [
       (''provider'', VObj [(''id'', VStr providerId), (''label'', VStr providerLabel), (''status'', VStr ''unavailable''),
          (''unavailableReason'', VStr (reason_text reason))]),
       (''models'', VArr []),
       (''systemFamily'', VObj [(''id'', VStr providerId), (''label'', VStr providerLabel), (''modelIds'', VArr [])])])"

section \<open>The form that is published\<close>

record product_metadata =
  kmd_catalogId :: string
  kmd_executionModel :: string
  kmd_description :: string
  kmd_availabilityNotice :: "string option"
  kmd_upgradeInfo :: "upgrade_info option"
  kmd_supportedEfforts :: "catalog_effort list"
  kmd_defaultEffort :: "string option"
  kmd_inputModalities :: "string list"
  kmd_supportsPersonality :: bool
  kmd_serviceTiers :: "service_tier list"
  kmd_defaultServiceTier :: "string option"
  kmd_catalogSource :: "string option"

record product_model =
  kq_id :: string
  kq_label :: string
  kq_order :: nat
  kq_visible :: bool
  kq_available :: bool
  kq_unavailable :: "(string option \<times> string option) option"
  kq_providerDefault :: bool
  kq_replacementModelId :: "string option"
  kq_metadata :: product_metadata

record product_snapshot =
  kps_providerId :: string
  kps_label :: string
  kps_connected :: bool
  kps_unavailable :: "(string \<times> string option) option"
  kps_models :: "product_model list"
  kps_family :: "(string \<times> string \<times> string list) option"

definition product_model_of :: "reported_model \<Rightarrow> product_model" where
  "product_model_of m = \<lparr>kq_id = kg_id m, kq_label = kg_label m, kq_order = kg_order m, kq_visible = kg_visible m,
     kq_available = (kg_availability m = ''available''),
     kq_unavailable = (if kg_availability m = ''unavailable'' then Some (kg_unavailableReasonCode m, kg_unavailableReason m)
                       else None),
     kq_providerDefault = kg_isDefault m, kq_replacementModelId = kg_replacementModelId m,
     kq_metadata = \<lparr>kmd_catalogId = kg_catalogId m, kmd_executionModel = kg_executionModel m,
       kmd_description = kg_description m, kmd_availabilityNotice = kg_availabilityNotice m,
       kmd_upgradeInfo = kg_upgradeInfo m, kmd_supportedEfforts = kg_supportedEfforts m,
       kmd_defaultEffort = kg_defaultEffort m, kmd_inputModalities = kg_inputModalities m,
       kmd_supportsPersonality = kg_supportsPersonality m, kmd_serviceTiers = kg_serviceTiers m,
       kmd_defaultServiceTier = kg_defaultServiceTier m, kmd_catalogSource = kg_catalogSource m\<rparr>\<rparr>"

definition product_of :: "catalog_snapshot \<Rightarrow> product_snapshot" where
  "product_of s =
     (let p = ksn_provider s in
      \<lparr>kps_providerId = kp_id p, kps_label = kp_label p, kps_connected = (kp_status p = ''available''),
       kps_unavailable = (if kp_status p = ''unavailable'' then Some (''provider_unavailable'', kp_unavailableReason p) else None),
       kps_models = map product_model_of (ksn_models s),
       kps_family = (if ksn_familyModelIds s = [] then None
                     else Some (ksn_familyId s, ksn_familyLabel s, ksn_familyModelIds s))\<rparr>)"

definition toProductCatalogSnapshot :: "jv \<Rightarrow> product_snapshot result" where
  "toProductCatalogSnapshot snapshot = bind_r (sanitizeModelCatalogSnapshot snapshot) (\<lambda>s. Inr (product_of s))"

section \<open>The constructor of an adapter\<close>

definition ModelCatalogAdapter :: "jv \<Rightarrow> jv \<Rightarrow> (string \<times> string) result" where
  "ModelCatalogAdapter providerId providerLabel =
     bind_r (stableIdString providerId ''providerId'') (\<lambda>i.
     if \<not> PROVIDER_ID_PATTERN i
     then Inl (Error ''providerId must contain only lowercase letters, numbers, dots, underscores, or hyphens.'')
     else bind_r (nonEmptyString providerLabel ''providerLabel'') (\<lambda>l. Inr (i, l)))"

section \<open>What was read reads back\<close>

lemma dropWhile_id: "xs = [] \<or> \<not> P (hd xs) \<Longrightarrow> dropWhile P xs = xs"
  by (cases xs) auto

lemma dropWhile_twice: "dropWhile P (dropWhile P xs) = dropWhile P xs"
  by (induction xs) auto

lemma js_trim_twice [simp]: "js_trim (js_trim s) = js_trim s"
proof -
  let ?l = "dropWhile is_space s" and ?r = "\<lambda>t. rev (dropWhile is_space (rev t))"
  have trim: "js_trim t = ?r (dropWhile is_space t)" for t by (simp add: js_trim_def)
  have hd_r: "?r t = [] \<or> hd (?r t) = hd t" for t :: string
  proof -
    have "t = ?r t @ rev (takeWhile is_space (rev t))"
      by (metis rev_append rev_rev_ident takeWhile_dropWhile_id)
    then show ?thesis by (metis hd_append2)
  qed
  have "?l = [] \<or> \<not> is_space (hd ?l)" using hd_dropWhile by blast
  then have "?r ?l = [] \<or> \<not> is_space (hd (?r ?l))" using hd_r [of ?l] by (metis dropWhile.simps(1) rev.simps(1))
  then have "dropWhile is_space (?r ?l) = ?r ?l" by (rule dropWhile_id)
  then show ?thesis by (simp add: trim dropWhile_twice)
qed

lemma nonEmptyString_again: "nonEmptyString v f = Inr s \<Longrightarrow> nonEmptyString (VStr s) f' = Inr s"
  by (auto simp: nonEmptyString_def split: jv.splits if_splits)

lemma stableIdString_again: "stableIdString v f = Inr s \<Longrightarrow> stableIdString (VStr s) f' = Inr s"
  by (auto simp: stableIdString_def split: jv.splits if_splits)

lemma nullish_value_simps [simp]: "nullish_value VNull" "nullish_value VUndef" "\<not> nullish_value (VStr s)" "\<not> nullish_value (VObj fs)"
  by (simp_all add: nullish_value_def)

lemma optionalString_again: "optionalString v f = Inr o' \<Longrightarrow> optionalString (opt_value o') f' = Inr o'"
  by (auto simp: optionalString_def opt_value_def bind_r_Inr_iff dest: nonEmptyString_again split: if_splits)

lemma optionalStableIdString_again:
  "optionalStableIdString v f = Inr o' \<Longrightarrow> optionalStableIdString (opt_value o') f' = Inr o'"
  by (auto simp: optionalStableIdString_def opt_value_def bind_r_Inr_iff dest: stableIdString_again split: if_splits)

lemma read_boolean_VBool [simp]: "read_boolean (VBool b) f = Inr b"
  by (simp add: read_boolean_def)

lemma text_or_empty_VStr [simp]: "text_or_empty (VStr s) = s"
  by (simp add: text_or_empty_def)

lemma read_items_again:
  assumes "read_items g v f = Inr ys" "\<And>x fx y fy. g x fx = Inr y \<Longrightarrow> g (val y) fy = Inr y"
  shows "read_items g (VArr (map val ys)) f' = Inr ys"
proof -
  obtain xs where "map_r (\<lambda>(i, x). g x (item_field f i)) (enumerate 0 xs) = Inr ys"
    using assms(1) by (auto simp: read_items_def split: jv.splits)
  then have "\<forall>y \<in> set ys. \<exists>x fx. g x fx = Inr y"
    by (force simp: map_r_Inr_iff list_all2_conv_all_nth in_set_conv_nth nth_enumerate_eq)
  then have "g (val y) fy = Inr y" if "y \<in> set ys" for y fy
    using that assms(2) by blast
  then have "list_all2 (\<lambda>ix y. (\<lambda>(i, x). g x (item_field f' i)) ix = Inr y) (enumerate 0 (map val ys)) ys"
    by (simp add: list_all2_conv_all_nth nth_enumerate_eq)
  then show ?thesis by (simp add: read_items_def map_r_Inr_iff)
qed

lemma stringList_again: "stringList v f = Inr ys \<Longrightarrow> stringList (VArr (map VStr ys)) f' = Inr ys"
  unfolding stringList_def by (erule read_items_again) (rule nonEmptyString_again)

lemma stableIdList_again: "stableIdList v f = Inr ys \<Longrightarrow> stableIdList (VArr (map VStr ys)) f' = Inr ys"
  unfolding stableIdList_def by (erule read_items_again) (rule stableIdString_again)

lemma sanitizeEffort_again: "sanitizeEffort v f = Inr e \<Longrightarrow> sanitizeEffort (effort_value e) f' = Inr e"
  by (auto simp: sanitizeEffort_def effort_value_def bind_r_Inr_iff intro: nonEmptyString_again)

lemma sanitizeEfforts_again: "sanitizeEfforts v f = Inr ys \<Longrightarrow> sanitizeEfforts (VArr (map effort_value ys)) f' = Inr ys"
  unfolding sanitizeEfforts_def by (erule read_items_again) (rule sanitizeEffort_again)

lemma sanitizeServiceTier_again: "sanitizeServiceTier v f = Inr e \<Longrightarrow> sanitizeServiceTier (tier_value e) f' = Inr e"
  by (auto simp: sanitizeServiceTier_def tier_value_def bind_r_Inr_iff intro: nonEmptyString_again)

lemma sanitizeServiceTiers_again:
  "sanitizeServiceTiers v f = Inr ys \<Longrightarrow> sanitizeServiceTiers (VArr (map tier_value ys)) f' = Inr ys"
  unfolding sanitizeServiceTiers_def by (erule read_items_again) (rule sanitizeServiceTier_again)

lemma sanitizeUpgradeInfo_again:
  "sanitizeUpgradeInfo v f = Inr u \<Longrightarrow> sanitizeUpgradeInfo (upgrade_value u) f' = Inr u"
  by (auto simp: sanitizeUpgradeInfo_def upgrade_value_def plain_object_def bind_r_Inr_iff split: if_splits
      intro: stableIdString_again optionalString_again)

lemmas reads_again = nonEmptyString_again stableIdString_again optionalString_again optionalStableIdString_again
  stringList_again sanitizeEfforts_again sanitizeServiceTiers_again sanitizeUpgradeInfo_again

lemma optional_None [simp]: "optionalString VNull f = Inr None"
  by (simp add: optionalString_def)

lemma read_availability_again:
  assumes "read_availability v f = Inr (a, r, c)"
    and fields: "jv_get w ''availability'' = VStr a" "jv_get w ''unavailableReason'' = opt_value r"
      "jv_get w ''unavailableReasonCode'' = opt_value c"
  shows "read_availability w f' = Inr (a, r, c)"
proof -
  obtain code where read: "nonEmptyString (jv_get v ''availability'') (f @ ''.availability'') = Inr a"
      "optionalString (jv_get v ''unavailableReason'') (f @ ''.unavailableReason'') = Inr r"
      "optionalString (jv_get v ''unavailableReasonCode'') (f @ ''.unavailableReasonCode'') = Inr code"
    and a: "a \<in> set MODEL_AVAILABILITY" "\<not> (a = ''unavailable'' \<and> r = None)"
    and c: "c = (case code of Some c \<Rightarrow> Some c | None \<Rightarrow>
              if a = ''unavailable'' then Some ''provider_reported_unavailable'' else None)"
    using assms(1) by (auto simp: read_availability_def bind_r_Inr_iff split: if_splits)
  have fallback: "optionalString (VStr ''provider_reported_unavailable'') g = Inr (Some ''provider_reported_unavailable'')" for g
    by (simp add: optionalString_def nonEmptyString_def js_trim_def is_space_def)
  have "optionalString (opt_value c) g = Inr c" for g
    using optionalString_again [OF read(3)] by (auto simp: c fallback opt_value_def split: option.splits)
  then show ?thesis
    using a by (auto simp: read_availability_def fields nonEmptyString_again [OF read(1)] optionalString_again [OF read(2)] c
        split: option.splits)
qed

lemma sanitizeModel_again:
  assumes "sanitizeModel p v i = Inr m"
  shows "sanitizeModel p (model_value m) i = Inr m"
proof -
  define field where "field = item_field ''models'' i"
  obtain cid where read:
    "read_availability v field = Inr (kg_availability m, kg_unavailableReason m, kg_unavailableReasonCode m)"
    "stableIdString (jv_get v ''id'') (field @ ''.id'') = Inr (kg_id m)"
    "stableIdString cid (field @ ''.catalogId'') = Inr (kg_catalogId m)"
    "stableIdString (jv_get v ''executionModel'') (field @ ''.executionModel'') = Inr (kg_executionModel m)"
    "nonEmptyString (jv_get v ''label'') (field @ ''.label'') = Inr (kg_label m)"
    "optionalString (jv_get v ''availabilityNotice'') (field @ ''.availabilityNotice'') = Inr (kg_availabilityNotice m)"
    "optionalStableIdString (jv_get v ''replacementModelId'') (field @ ''.replacementModelId'') = Inr (kg_replacementModelId m)"
    "sanitizeUpgradeInfo (jv_get v ''upgradeInfo'') (field @ ''.upgradeInfo'') = Inr (kg_upgradeInfo m)"
    "sanitizeEfforts (jv_get v ''supportedEfforts'') (field @ ''.supportedEfforts'') = Inr (kg_supportedEfforts m)"
    "optionalString (jv_get v ''defaultEffort'') (field @ ''.defaultEffort'') = Inr (kg_defaultEffort m)"
    "stringList (jv_get v ''inputModalities'') (field @ ''.inputModalities'') = Inr (kg_inputModalities m)"
    "sanitizeServiceTiers (jv_get v ''serviceTiers'') (field @ ''.serviceTiers'') = Inr (kg_serviceTiers m)"
    "optionalString (jv_get v ''defaultServiceTier'') (field @ ''.defaultServiceTier'') = Inr (kg_defaultServiceTier m)"
    "optionalString (jv_get v ''catalogSource'') (field @ ''.catalogSource'') = Inr (kg_catalogSource m)"
    and rest: "kg_providerId m = p" "kg_order m = i"
    using assms by (auto simp: sanitizeModel_def Let_def field_def bind_r_Inr_iff)
  have "read_availability (model_value m) field
      = Inr (kg_availability m, kg_unavailableReason m, kg_unavailableReasonCode m)"
    by (rule read_availability_again [OF read(1)]) (simp_all add: model_value_def)
  then show ?thesis
    by (simp add: sanitizeModel_def Let_def field_def [symmetric] model_value_def value_or_def rest
        stableIdString_again [OF read(2)] stableIdString_again [OF read(3)] stableIdString_again [OF read(4)]
        nonEmptyString_again [OF read(5)] optionalString_again [OF read(6)] optionalStableIdString_again [OF read(7)]
        sanitizeUpgradeInfo_again [OF read(8)] sanitizeEfforts_again [OF read(9)] optionalString_again [OF read(10)]
        stringList_again [OF read(11)] sanitizeServiceTiers_again [OF read(12)] optionalString_again [OF read(13)]
        optionalString_again [OF read(14)])
qed

lemma read_models_again:
  assumes "read_models p v = Inr ms"
  shows "read_models p (VArr (map model_value ms)) = Inr ms"
proof -
  obtain xs where "list_all2 (\<lambda>x m. sanitizeModel p (snd x) (fst x) = Inr m) (enumerate 0 xs) ms"
    using assms by (auto simp: read_models_def map_r_Inr_iff case_prod_beta split: jv.splits)
  then have "sanitizeModel p (model_value (ms ! i)) i = Inr (ms ! i)" if "i < length ms" for i
    using that by (intro sanitizeModel_again) (auto simp: list_all2_conv_all_nth nth_enumerate_eq)
  then show ?thesis
    by (auto simp: read_models_def map_r_Inr_iff list_all2_conv_all_nth nth_enumerate_eq)
qed

lemma read_provider_again:
  assumes "read_provider v = Inr (i, st, r)" "jv_get w ''id'' = VStr i" "jv_get w ''status'' = VStr st"
    "jv_get w ''unavailableReason'' = opt_value r"
  shows "read_provider w = Inr (i, st, r)"
proof -
  have "stableIdString (jv_get v ''id'') ''provider.id'' = Inr i" "nonEmptyString (jv_get v ''status'') ''provider.status'' = Inr st"
      "optionalString (jv_get v ''unavailableReason'') ''provider.unavailableReason'' = Inr r"
    and "PROVIDER_ID_PATTERN i" "st \<in> set PROVIDER_STATUSES" "\<not> (st = ''unavailable'' \<and> r = None)"
    using assms(1) by (auto simp: read_provider_def bind_r_Inr_iff split: if_splits)
  then show ?thesis
    by (auto simp: read_provider_def assms(2-) stableIdString_again nonEmptyString_again optionalString_again)
qed

text \<open>What a successful check of a snapshot read.\<close>

lemma snapshot_reads:
  assumes "sanitizeModelCatalogSnapshot j = Inr s"
  obtains provider family where
    "read_provider provider = Inr (kp_id (ksn_provider s), kp_status (ksn_provider s), kp_unavailableReason (ksn_provider s))"
    "nonEmptyString (jv_get provider ''label'') ''provider.label'' = Inr (kp_label (ksn_provider s))"
    "read_models (kp_id (ksn_provider s)) (jv_get j ''models'') = Inr (ksn_models s)"
    "unique_ids [] (ksn_models s) = Inr ()"
    "stableIdList (jv_get family ''modelIds'') ''systemFamily.modelIds'' = Inr (ksn_familyModelIds s)"
    "length (ksn_familyModelIds s) \<le> 5" "check_family (ksn_models s) [] (ksn_familyModelIds s) = Inr ()"
    "stableIdString (jv_get family ''id'') ''systemFamily.id'' = Inr (ksn_familyId s)"
    "nonEmptyString (jv_get family ''label'') ''systemFamily.label'' = Inr (ksn_familyLabel s)"
  using assms that [of "jv_get j ''provider''" "jv_get j ''systemFamily''"]
  by (auto simp: sanitizeModelCatalogSnapshot_def Let_def bind_r_Inr_iff split: if_splits)

lemma plain_object_VObj [simp]: "plain_object (VObj fs)"
  by (simp add: plain_object_def)

lemma sanitize_again:
  assumes "sanitizeModelCatalogSnapshot j = Inr s"
  shows "sanitizeModelCatalogSnapshot (snapshot_value s) = Inr s"
proof (rule snapshot_reads [OF assms])
  fix provider family
  let ?p = "VObj [(''id'', VStr (kp_id (ksn_provider s))), (''label'', VStr (kp_label (ksn_provider s))),
        (''status'', VStr (kp_status (ksn_provider s))),
        (''unavailableReason'', opt_value (kp_unavailableReason (ksn_provider s)))]"
  assume "read_provider provider = Inr (kp_id (ksn_provider s), kp_status (ksn_provider s), kp_unavailableReason (ksn_provider s))"
  from read_provider_again [OF this, of ?p]
  have p: "read_provider ?p = Inr (kp_id (ksn_provider s), kp_status (ksn_provider s), kp_unavailableReason (ksn_provider s))"
    by simp
  assume reads: "read_models (kp_id (ksn_provider s)) (jv_get j ''models'') = Inr (ksn_models s)"
    "stableIdList (jv_get family ''modelIds'') ''systemFamily.modelIds'' = Inr (ksn_familyModelIds s)"
    "nonEmptyString (jv_get provider ''label'') ''provider.label'' = Inr (kp_label (ksn_provider s))"
    "stableIdString (jv_get family ''id'') ''systemFamily.id'' = Inr (ksn_familyId s)"
    "nonEmptyString (jv_get family ''label'') ''systemFamily.label'' = Inr (ksn_familyLabel s)"
  assume checks: "unique_ids [] (ksn_models s) = Inr ()" "length (ksn_familyModelIds s) \<le> 5"
    "check_family (ksn_models s) [] (ksn_familyModelIds s) = Inr ()"
  show ?thesis
    by (simp add: sanitizeModelCatalogSnapshot_def snapshot_value_def Let_def p checks checks(2) [unfolded not_less [symmetric]] read_models_again [OF reads(1)]
        stableIdList_again [OF reads(2)] nonEmptyString_again [OF reads(3)] stableIdString_again [OF reads(4)]
        nonEmptyString_again [OF reads(5)])
qed

section \<open>Well-formed catalogs\<close>

lemma unique_ids_iff: "unique_ids seen ms = Inr () \<longleftrightarrow> distinct (map kg_id ms) \<and> set (map kg_id ms) \<inter> set seen = {}"
  by (induction ms arbitrary: seen) auto

lemma check_family_iff: "check_family models seen is = Inr () \<longleftrightarrow>
    distinct is \<and> set is \<inter> set seen = {} \<and> (\<forall>i \<in> set is. \<exists>m. List.find (\<lambda>m. kg_id m = i) models = Some m \<and> kg_visible m)"
  by (induction "is" arbitrary: seen) (auto split: option.splits)

definition model_ok :: "string \<Rightarrow> nat \<Rightarrow> reported_model \<Rightarrow> bool" where
  "model_ok providerId i m \<longleftrightarrow>
     kg_providerId m = providerId \<and> kg_order m = i \<and> stable_id (kg_id m) \<and> stable_id (kg_executionModel m)
     \<and> kg_availability m \<in> set MODEL_AVAILABILITY
     \<and> (kg_availability m = ''unavailable'' \<longrightarrow> kg_unavailableReason m \<noteq> None \<and> kg_unavailableReasonCode m \<noteq> None)"

definition catalog_ok :: "catalog_snapshot \<Rightarrow> bool" where
  "catalog_ok s \<longleftrightarrow>
     PROVIDER_ID_PATTERN (kp_id (ksn_provider s)) \<and> distinct (map kg_id (ksn_models s))
     \<and> (\<forall>i < length (ksn_models s). model_ok (kp_id (ksn_provider s)) i (ksn_models s ! i))
     \<and> distinct (ksn_familyModelIds s) \<and> length (ksn_familyModelIds s) \<le> 5
     \<and> set (ksn_familyModelIds s) \<subseteq> kg_id ` {m \<in> set (ksn_models s). kg_visible m}"

lemma stableIdString_Inr: "stableIdString v f = Inr s \<Longrightarrow> stable_id s"
  by (auto simp: stableIdString_def split: jv.splits if_splits)

lemma read_availability_ok:
  "read_availability v f = Inr (a, r, c) \<Longrightarrow> a \<in> set MODEL_AVAILABILITY \<and> (a = ''unavailable'' \<longrightarrow> r \<noteq> None \<and> c \<noteq> None)"
  by (auto simp: read_availability_def bind_r_Inr_iff split: if_splits option.splits)

lemma sanitizeModel_ok: "sanitizeModel p v i = Inr m \<Longrightarrow> model_ok p i m"
  by (auto simp: sanitizeModel_def Let_def bind_r_Inr_iff model_ok_def dest: stableIdString_Inr read_availability_ok)

lemma read_models_ok: "read_models p v = Inr ms \<Longrightarrow> i < length ms \<Longrightarrow> model_ok p i (ms ! i)"
  by (auto simp: read_models_def map_r_Inr_iff list_all2_conv_all_nth nth_enumerate_eq split: jv.splits intro: sanitizeModel_ok)

lemma sanitize_ok:
  assumes "sanitizeModelCatalogSnapshot j = Inr s"
  shows "catalog_ok s"
proof (rule snapshot_reads [OF assms])
  fix provider family
  assume a: "read_provider provider = Inr (kp_id (ksn_provider s), kp_status (ksn_provider s), kp_unavailableReason (ksn_provider s))"
    "read_models (kp_id (ksn_provider s)) (jv_get j ''models'') = Inr (ksn_models s)" "unique_ids [] (ksn_models s) = Inr ()"
    "length (ksn_familyModelIds s) \<le> 5" "check_family (ksn_models s) [] (ksn_familyModelIds s) = Inr ()"
  have "PROVIDER_ID_PATTERN (kp_id (ksn_provider s))" using a(1) by (auto simp: read_provider_def bind_r_Inr_iff split: if_splits)
  moreover have "set (ksn_familyModelIds s) \<subseteq> kg_id ` {m \<in> set (ksn_models s). kg_visible m}"
    using a(5) by (force simp: check_family_iff find_Some_iff)
  ultimately show ?thesis
    using a(3-5) read_models_ok [OF a(2)] by (simp add: catalog_ok_def unique_ids_iff check_family_iff)
qed

text \<open>C39. Checking a snapshot is idempotent: what the check of any discovered value returned is accepted by the check
  and comes back unchanged. So the publication, which runs the check on a snapshot for the second time, never
  fails, and it publishes exactly the models of that snapshot, in their order.\<close>

theorem snapshot_is_normal_form:
  assumes "sanitizeModelCatalogSnapshot j = Inr s"
  shows "sanitizeModelCatalogSnapshot (snapshot_value s) = Inr s
       \<and> toProductCatalogSnapshot (snapshot_value s) = Inr (product_of s)"
  by (simp add: toProductCatalogSnapshot_def sanitize_again [OF assms])

definition demo_model_value :: jv where
  "demo_model_value = VObj [(''id'', VStr ''m1''), (''executionModel'', VStr ''m1-exec''), (''label'', VStr '' M one ''),
     (''visible'', VBool True), (''availability'', VStr ''unavailable''), (''unavailableReason'', VStr ''quota''),
     (''isDefault'', VBool True), (''supportedEfforts'', VArr []), (''inputModalities'', VArr [VStr '' text '']),
     (''supportsPersonality'', VBool False), (''serviceTiers'', VArr [])]"

definition demo_catalog_value :: jv where
  "demo_catalog_value = VObj [
     (''provider'', VObj [(''id'', VStr ''codex''), (''label'', VStr '' Codex''), (''status'', VStr ''available'')]),
     (''models'', VArr [demo_model_value]),
     (''systemFamily'', VObj [(''id'', VStr ''codex''), (''label'', VStr ''Codex''), (''modelIds'', VArr [VStr ''m1''])])]"

lemma demo_catalog_label:
  "(case sanitizeModelCatalogSnapshot demo_catalog_value of Inl e \<Rightarrow> [] | Inr s \<Rightarrow> kg_label (ksn_models s ! 0)) = ''M one''"
  by code_simp

lemma demo_catalog: "\<exists>s. sanitizeModelCatalogSnapshot demo_catalog_value = Inr s \<and> kg_label (ksn_models s ! 0) = ''M one''"
  using demo_catalog_label by (cases "sanitizeModelCatalogSnapshot demo_catalog_value") auto

theorem snapshot_is_normal_form_witness:
  "\<exists>s. sanitizeModelCatalogSnapshot demo_catalog_value = Inr s \<and> sanitizeModelCatalogSnapshot (snapshot_value s) = Inr s"
  using demo_catalog snapshot_is_normal_form [of demo_catalog_value] by blast

text \<open>A snapshot is well formed whatever the adapter discovered: the models carry the provider's id and their
  position, their ids are stable and distinct, an unavailable one has a reason and a code, and the system family
  names at most five models, all different, present and visible.\<close>

theorem catalog_well_formed:
  assumes "sanitizeModelCatalogSnapshot j = Inr s"
  shows "catalog_ok s"
  by (rule sanitize_ok [OF assms])

theorem catalog_well_formed_witness:
  "\<exists>s. sanitizeModelCatalogSnapshot demo_catalog_value = Inr s \<and> catalog_ok s"
  using demo_catalog catalog_well_formed [of demo_catalog_value] by blast

end
