(* ===== verification/ModelCatalog.thy ===== *)
theory ModelCatalog
  imports ProviderCatalog Complex_Main
begin

text \<open>
  The service that refreshes the catalogs of models (\<open>desktop/main/models/model-catalog-service.mjs\<close>) and the retries of
  its requests (\<open>desktop/main/providers/provider-retry.mjs\<close>). A refresh is an entry with a phase for each await of the
  code, in a queue per provider; callers wait for an entry, and entries, callers, providers and the app server take
  their steps in any order (\<open>catalog_step\<close>).
  At most one refresh of a provider runs at a time (\<open>refreshes_are_serial\<close>), in the order in which they were
  requested; what a superseded connection reported is not published (\<open>superseded_never_published\<close>); and a refresh is
  given up only when nobody waits for it (\<open>awaited_never_aborted\<close>).
\<close>

section \<open>Retries\<close>

text \<open>An error by what the code reads of it. The reason of an abort is an error: without one the platform supplies
  its \<open>AbortError\<close>.\<close>

record provider_error =
  pe_name :: string
  pe_status :: "int option"
  pe_code :: "string option"
  pe_message :: string

definition catalog_error :: "string \<Rightarrow> provider_error" where
  "catalog_error message = \<lparr>pe_name = ''Error'', pe_status = None, pe_code = None, pe_message = message\<rparr>"

definition thrown_error :: "js_error \<Rightarrow> provider_error" where
  "thrown_error e = (case e of
       TypeError m \<Rightarrow> (catalog_error m)\<lparr>pe_name := ''TypeError''\<rparr> | Error m \<Rightarrow> catalog_error m)"

definition RETRYABLE_CODES :: "string list" where
  "RETRYABLE_CODES = [''transport'', ''ETIMEDOUT'', ''ECONNRESET'', ''ECONNREFUSED'', ''EAI_AGAIN'']"

definition isRetryableProviderError :: "provider_error \<Rightarrow> bool" where
  "isRetryableProviderError e =
     (if pe_name e = ''AbortError'' then False
      else if (case pe_status e of Some n \<Rightarrow> n = 429 \<or> (500 \<le> n \<and> n \<le> 599) | None \<Rightarrow> False) then True
      else (case pe_code e of Some c \<Rightarrow> c \<in> set RETRYABLE_CODES | None \<Rightarrow> False))"

record retry_options =
  ro_attempts :: nat
  ro_baseDelayMs :: int
  ro_maximumDelayMs :: int

definition default_retry :: retry_options where
  "default_retry = \<lparr>ro_attempts = 4, ro_baseDelayMs = 250, ro_maximumDelayMs = 2000\<rparr>"

text \<open>\<open>Math.round(unjittered * (0.5 + random()))\<close>.\<close>

definition retry_unjittered :: "retry_options \<Rightarrow> nat \<Rightarrow> int" where
  "retry_unjittered opts attempt = min (ro_maximumDelayMs opts) (ro_baseDelayMs opts * 2 ^ (attempt - 1))"

definition retry_delay :: "retry_options \<Rightarrow> nat \<Rightarrow> rat \<Rightarrow> int" where
  "retry_delay opts attempt random = \<lfloor>of_int (retry_unjittered opts attempt) * (1 / 2 + random) + 1 / 2\<rfloor>"

text \<open>The decision after a failed attempt; \<open>abort\<close> is the reason of the signal when it is aborted.\<close>

datatype retry_decision = RetryThrow provider_error | RetryAfter int

definition after_failure ::
  "retry_options \<Rightarrow> nat \<Rightarrow> provider_error option \<Rightarrow> provider_error \<Rightarrow> rat \<Rightarrow> retry_decision" where
  "after_failure opts attempt abort e random = (case abort of
       Some r \<Rightarrow> RetryThrow r
     | None \<Rightarrow> if attempt = ro_attempts opts \<or> \<not> isRetryableProviderError e then RetryThrow e
               else RetryAfter (retry_delay opts attempt random))"

definition retry_exhausted :: provider_error where
  "retry_exhausted = catalog_error ''Provider retry exhausted unexpectedly.''"

text \<open>The loop. Its environment: what each attempt ends with, whether the signal is aborted before it and after its failure,
  the random number, and what the sleep ends with. The result comes with the delays of the sleeps.\<close>

record 'a retry_env =
  rv_operation :: "nat \<Rightarrow> provider_error + 'a"
  rv_before :: "nat \<Rightarrow> provider_error option"
  rv_after :: "nat \<Rightarrow> provider_error option"
  rv_random :: "nat \<Rightarrow> rat"
  rv_sleep :: "nat \<Rightarrow> provider_error option"

function retry_from :: "retry_options \<Rightarrow> 'a retry_env \<Rightarrow> nat \<Rightarrow> (provider_error + 'a) \<times> int list" where
  "retry_from opts E attempt =
     (if attempt > ro_attempts opts then (Inl retry_exhausted, [])
      else case rv_before E attempt of
        Some r \<Rightarrow> (Inl r, [])
      | None \<Rightarrow> (case rv_operation E attempt of
          Inr v \<Rightarrow> (Inr v, [])
        | Inl e \<Rightarrow> (case after_failure opts attempt (rv_after E attempt) e (rv_random E attempt) of
            RetryThrow e' \<Rightarrow> (Inl e', [])
          | RetryAfter d \<Rightarrow> (case rv_sleep E attempt of
              Some e' \<Rightarrow> (Inl e', [d])
            | None \<Rightarrow> let (r, ds) = retry_from opts E (Suc attempt) in (r, d # ds)))))"
  by pat_completeness auto
termination by (relation "measure (\<lambda>(opts, E, attempt). Suc (ro_attempts opts) - attempt)") auto

declare retry_from.simps [simp del]

definition withProviderRetry :: "retry_options \<Rightarrow> 'a retry_env \<Rightarrow> (provider_error + 'a) \<times> int list" where
  "withProviderRetry opts E = retry_from opts E 1"

section \<open>The service\<close>

definition REFRESH_REASONS :: "string list" where
  "REFRESH_REASONS = [''startup'', ''background'', ''provider-change'', ''settings-open'', ''explicit'', ''pre-inference'',
     ''recovery'']"

definition CONNECTION_SUPERSEDED :: string where
  "CONNECTION_SUPERSEDED = ''provider_connection_superseded''"

text \<open>An adapter object: its identity, its provider, and whether it has the function \<open>discover\<close>.\<close>

record catalog_adapter =
  ca_ref :: nat
  ca_providerId :: string
  ca_discovers :: bool

text \<open>A refresh resolves to a snapshot, or to null when it was superseded.\<close>

type_synonym refresh_outcome = "provider_error + catalog_snapshot option"

text \<open>The phases of the operation of an entry: behind the previous one; in an attempt of \<open>adapter.discover\<close> (its number, the
  adapter and the generation resolved when the refresh began); in the sleep after it; writing a diagnostic; in
  \<open>publishSnapshot\<close>; in \<open>resync\<close>; past the body, with \<open>finally\<close> to come; settled.\<close>

datatype refresh_phase =
    RefQueued | RefDiscover nat catalog_adapter jsval | RefSleep nat catalog_adapter jsval | RefReport provider_error
  | RefPublish catalog_snapshot | RefResync | RefEnding refresh_outcome | RefDone refresh_outcome

record refresh_entry =
  re_provider :: string
  re_reason :: string
  re_previous :: "nat option"
  re_abort :: "provider_error option"
  re_settled :: bool
  re_waiters :: "nat list"
  re_phase :: refresh_phase

record refresh_waiter =
  rw_entry :: nat
  rw_result :: "refresh_outcome option"

text \<open>A call of \<open>publishSnapshot\<close>: the entry, the connection generation it was stamped with, the generation at that
  time, and what was published.\<close>

record publication =
  pb_entry :: nat
  pb_stamped :: jsval
  pb_current :: jsval
  pb_snapshot :: product_snapshot

record catalog_service =
  ms_adapters :: "(string, catalog_adapter) jsmap"
  ms_generations :: "(string \<Rightarrow> jsval) option"
  ms_retry :: retry_options
  ms_queues :: "(string, nat) jsmap"
  ms_entries :: "refresh_entry list"
  ms_waiters :: "refresh_waiter list"
  ms_rounds :: "nat list list"
  ms_timer :: bool
  ms_closed :: bool
  ms_diagnostics :: "(string \<times> string \<times> provider_error) list"
  ms_published :: "publication list"

fun register_all :: "catalog_adapter list \<Rightarrow> (string, catalog_adapter) jsmap \<Rightarrow> (string, catalog_adapter) jsmap result" where
  "register_all [] m = Inr m"
| "register_all (a # as) m =
     (if ca_providerId a = [] \<or> \<not> ca_discovers a then Inl (Error ''Invalid model catalog adapter.'')
      else if map_has m (ca_providerId a) then Inl (Error (''Duplicate model catalog adapter: '' @ ca_providerId a))
      else register_all as (map_set m (ca_providerId a) a))"

definition ModelCatalogService :: "catalog_adapter list \<Rightarrow> (string \<Rightarrow> jsval) option \<Rightarrow> retry_options \<Rightarrow> catalog_service result" where
  "ModelCatalogService adapters generations retry = bind_r (register_all adapters []) (\<lambda>m.
     Inr \<lparr>ms_adapters = m, ms_generations = generations, ms_retry = retry, ms_queues = [], ms_entries = [], ms_waiters = [],
          ms_rounds = [], ms_timer = False, ms_closed = False, ms_diagnostics = [], ms_published = []\<rparr>)"

definition register_adapter :: "catalog_adapter \<Rightarrow> catalog_service \<Rightarrow> catalog_service result" where
  "register_adapter a s =
     (if ca_providerId a = [] \<or> \<not> ca_discovers a then Inl (Error ''Invalid model catalog adapter.'')
      else if (case map_get (ms_adapters s) (ca_providerId a) of Some b \<Rightarrow> ca_ref b \<noteq> ca_ref a | None \<Rightarrow> False)
      then Inl (Error (''Duplicate model catalog adapter: '' @ ca_providerId a))
      else Inr (s\<lparr>ms_adapters := map_set (ms_adapters s) (ca_providerId a) a\<rparr>))"

definition unregister_adapter :: "string \<Rightarrow> catalog_service \<Rightarrow> catalog_service" where
  "unregister_adapter p s = s\<lparr>ms_adapters := map_delete (ms_adapters s) p\<rparr>"

definition generation_of :: "catalog_service \<Rightarrow> string \<Rightarrow> jsval" where
  "generation_of s p = (case ms_generations s of Some current \<Rightarrow> current p | None \<Rightarrow> JUndef)"

definition on_entry :: "nat \<Rightarrow> (refresh_entry \<Rightarrow> refresh_entry) \<Rightarrow> catalog_service \<Rightarrow> catalog_service" where
  "on_entry i f s = (if i < length (ms_entries s) then s\<lparr>ms_entries := (ms_entries s)[i := f (ms_entries s ! i)]\<rparr> else s)"

definition to_phase :: "nat \<Rightarrow> refresh_phase \<Rightarrow> catalog_service \<Rightarrow> catalog_service" where
  "to_phase i p = on_entry i (\<lambda>e. e\<lparr>re_phase := p\<rparr>)"

subsection \<open>Requesting a refresh\<close>

text \<open>\<open>waitForRefresh\<close>. A caller whose signal is already aborted never comes here.\<close>

definition waitForRefresh :: "nat \<Rightarrow> catalog_service \<Rightarrow> nat \<times> catalog_service" where
  "waitForRefresh i s =
     (let w = length (ms_waiters s) in
      (w, on_entry i (\<lambda>e. e\<lparr>re_waiters := re_waiters e @ [w]\<rparr>)
            (s\<lparr>ms_waiters := ms_waiters s @ [\<lparr>rw_entry = i, rw_result = None\<rparr>]\<rparr>)))"

definition enqueue_refresh :: "string \<Rightarrow> string \<Rightarrow> catalog_service \<Rightarrow> catalog_service" where
  "enqueue_refresh p reason s =
     s\<lparr>ms_entries := ms_entries s @ [\<lparr>re_provider = p, re_reason = reason, re_previous = map_get (ms_queues s) p, re_abort = None,
         re_settled = False, re_waiters = [], re_phase = RefQueued\<rparr>],
       ms_queues := map_set (ms_queues s) p (length (ms_entries s))\<rparr>"

definition joinable :: "catalog_service \<Rightarrow> string \<Rightarrow> string \<Rightarrow> nat option" where
  "joinable s p reason = (case map_get (ms_queues s) p of
       Some i \<Rightarrow> if reason = ''pre-inference'' \<and> re_abort (ms_entries s ! i) = None then Some i else None
     | None \<Rightarrow> None)"

definition refresh :: "string \<Rightarrow> string \<Rightarrow> provider_error option \<Rightarrow> catalog_service \<Rightarrow> (provider_error + nat) \<times> catalog_service" where
  "refresh p reason aborted s = (case aborted of
       Some r \<Rightarrow> (Inl r, s)
     | None \<Rightarrow>
         if \<not> map_has (ms_adapters s) p then (Inl (catalog_error (''Unknown model provider: '' @ p)), s)
         else if reason \<notin> set REFRESH_REASONS
         then (Inl (catalog_error (''Unknown model-catalog refresh reason: '' @ reason)), s)
         else
           let (w, s') = (case joinable s p reason of
                 Some i \<Rightarrow> waitForRefresh i s
               | None \<Rightarrow> waitForRefresh (length (ms_entries s)) (enqueue_refresh p reason s))
           in (Inr w, s'))"

text \<open>\<open>refreshAll\<close>: a refresh of each registered provider, with the waiters of those that began.\<close>

fun refresh_each :: "string list \<Rightarrow> string \<Rightarrow> provider_error option \<Rightarrow> catalog_service \<Rightarrow> nat list \<times> catalog_service" where
  "refresh_each [] reason aborted s = ([], s)"
| "refresh_each (p # ps) reason aborted s =
     (let (r, s1) = refresh p reason aborted s; (ws, s2) = refresh_each ps reason aborted s1 in
      ((case r of Inr w \<Rightarrow> w # ws | Inl e \<Rightarrow> ws), s2))"

definition refreshAll :: "string \<Rightarrow> provider_error option \<Rightarrow> catalog_service \<Rightarrow> nat list \<times> catalog_service" where
  "refreshAll reason aborted s = refresh_each (map_keys (ms_adapters s)) reason aborted s"

definition beforeInference :: "string option \<Rightarrow> provider_error option \<Rightarrow> catalog_service \<Rightarrow> catalog_service" where
  "beforeInference providerId aborted s = (case providerId of
       Some p \<Rightarrow> if p = [] then snd (refreshAll ''pre-inference'' aborted s) else snd (refresh p ''pre-inference'' aborted s)
     | None \<Rightarrow> snd (refreshAll ''pre-inference'' aborted s))"

definition providerChanged :: "string \<Rightarrow> catalog_service \<Rightarrow> catalog_service" where
  "providerChanged p s = snd (refresh p ''provider-change'' None s)"

definition settingsOpened :: "catalog_service \<Rightarrow> catalog_service" where
  "settingsOpened s = snd (refreshAll ''settings-open'' None s)"

definition explicitRefresh :: "string option \<Rightarrow> catalog_service \<Rightarrow> catalog_service" where
  "explicitRefresh providerId s = (case providerId of
       None \<Rightarrow> snd (refreshAll ''explicit'' None s) | Some p \<Rightarrow> snd (refresh p ''explicit'' None s))"

subsection \<open>The operation of an entry\<close>

definition entry_of :: "catalog_service \<Rightarrow> nat \<Rightarrow> refresh_entry" where
  "entry_of s i = ms_entries s ! i"

definition is_done :: "refresh_phase \<Rightarrow> bool" where
  "is_done p = (case p of RefDone _ \<Rightarrow> True | _ \<Rightarrow> False)"

text \<open>\<open>previous.catch(() => undefined).then(...)\<close>: the entry begins when the one before it has settled.\<close>

definition may_start :: "catalog_service \<Rightarrow> nat \<Rightarrow> bool" where
  "may_start s i = (case re_previous (entry_of s i) of None \<Rightarrow> True | Some j \<Rightarrow> is_done (re_phase (entry_of s j)))"

text \<open>The head of the loop of \<open>withProviderRetry\<close>, of attempt \<open>n\<close>. What is thrown in it is caught, reported and thrown
  again.\<close>

definition begin_attempt :: "retry_options \<Rightarrow> provider_error option \<Rightarrow> nat \<Rightarrow> catalog_adapter \<Rightarrow> jsval \<Rightarrow> refresh_phase" where
  "begin_attempt opts abort n adapter generation =
     (if n > ro_attempts opts then RefReport retry_exhausted
      else case abort of Some r \<Rightarrow> RefReport r | None \<Rightarrow> RefDiscover n adapter generation)"

definition start_phase :: "catalog_service \<Rightarrow> nat \<Rightarrow> refresh_phase" where
  "start_phase s i = (let e = entry_of s i; p = re_provider e in
     case re_abort e of
       Some r \<Rightarrow> RefEnding (Inl r)
     | None \<Rightarrow> (case map_get (ms_adapters s) p of
         None \<Rightarrow> RefEnding (Inr None)
       | Some adapter \<Rightarrow> if generation_of s p = JNull then RefEnding (Inr None)
                         else begin_attempt (ms_retry s) None 1 adapter (generation_of s p)))"

definition refresh_start :: "nat \<Rightarrow> catalog_service \<Rightarrow> catalog_service" where
  "refresh_start i s =
     (if i < length (ms_entries s) \<and> re_phase (entry_of s i) = RefQueued \<and> may_start s i
      then to_phase i (start_phase s i) s else s)"

text \<open>After the snapshot is there: the guards, and the call of \<open>publishSnapshot\<close>.\<close>

definition publish_entry :: "nat \<Rightarrow> catalog_snapshot \<Rightarrow> jsval \<Rightarrow> catalog_service \<Rightarrow> catalog_service" where
  "publish_entry i snapshot generation s =
     (let e = entry_of s i; current = generation_of s (re_provider e) in
      case re_abort e of
        Some r \<Rightarrow> to_phase i (RefEnding (Inl r)) s
      | None \<Rightarrow>
          if current \<noteq> generation then to_phase i (RefEnding (Inr None)) s
          else case toProductCatalogSnapshot (snapshot_value snapshot) of
              Inl err \<Rightarrow> to_phase i (RefEnding (Inl (thrown_error err))) s
            | Inr product \<Rightarrow>
                to_phase i (RefPublish snapshot)
                  (s\<lparr>ms_published := ms_published s @
                       [\<lparr>pb_entry = i, pb_stamped = generation, pb_current = current, pb_snapshot = product\<rparr>]\<rparr>))"

text \<open>\<open>adapter.discover\<close> ends with what it discovered or an error; \<open>random\<close> is the number a retry draws.\<close>

definition discovered :: "nat \<Rightarrow> provider_error + jv \<Rightarrow> rat \<Rightarrow> catalog_service \<Rightarrow> catalog_service" where
  "discovered i answer random s = (if i \<ge> length (ms_entries s) then s else
     case re_phase (entry_of s i) of
       RefDiscover n adapter generation \<Rightarrow> (case answer of
           Inr raw \<Rightarrow> (case sanitizeModelCatalogSnapshot raw of
               Inl err \<Rightarrow> to_phase i (RefReport (thrown_error err)) s
             | Inr snapshot \<Rightarrow> publish_entry i snapshot generation s)
         | Inl e \<Rightarrow> (case after_failure (ms_retry s) n (re_abort (entry_of s i)) e random of
               RetryThrow e' \<Rightarrow> to_phase i (RefReport e') s
             | RetryAfter d \<Rightarrow> to_phase i (RefSleep n adapter generation) s))
     | _ \<Rightarrow> s)"

definition woken :: "nat \<Rightarrow> provider_error option \<Rightarrow> catalog_service \<Rightarrow> catalog_service" where
  "woken i failure s = (if i \<ge> length (ms_entries s) then s else
     case re_phase (entry_of s i) of
       RefSleep n adapter generation \<Rightarrow> (case failure of
           Some e \<Rightarrow> to_phase i (RefReport e) s
         | None \<Rightarrow> to_phase i (begin_attempt (ms_retry s) (re_abort (entry_of s i)) (Suc n) adapter generation) s)
     | _ \<Rightarrow> s)"

definition reported :: "nat \<Rightarrow> catalog_service \<Rightarrow> catalog_service" where
  "reported i s = (if i \<ge> length (ms_entries s) then s else
     case re_phase (entry_of s i) of
       RefReport e \<Rightarrow> to_phase i (RefEnding (Inl e))
         (s\<lparr>ms_diagnostics := ms_diagnostics s @ [(re_provider (entry_of s i), re_reason (entry_of s i), e)]\<rparr>)
     | _ \<Rightarrow> s)"

definition published :: "nat \<Rightarrow> provider_error option \<Rightarrow> catalog_service \<Rightarrow> catalog_service" where
  "published i failure s = (if i \<ge> length (ms_entries s) then s else
     case re_phase (entry_of s i) of
       RefPublish snapshot \<Rightarrow> (case failure of
           Some e \<Rightarrow> if pe_code e = Some CONNECTION_SUPERSEDED then to_phase i RefResync s
                     else to_phase i (RefEnding (Inl e)) s
         | None \<Rightarrow> to_phase i (RefEnding (case re_abort (entry_of s i) of Some r \<Rightarrow> Inl r | None \<Rightarrow> Inr (Some snapshot))) s)
     | _ \<Rightarrow> s)"

definition resynced :: "nat \<Rightarrow> catalog_service \<Rightarrow> catalog_service" where
  "resynced i s =
     (if i < length (ms_entries s) \<and> re_phase (entry_of s i) = RefResync then to_phase i (RefEnding (Inr None)) s else s)"

definition refresh_finally :: "nat \<Rightarrow> catalog_service \<Rightarrow> catalog_service" where
  "refresh_finally i s = (if i \<ge> length (ms_entries s) then s else
     case re_phase (entry_of s i) of
       RefEnding r \<Rightarrow>
         (let p = re_provider (entry_of s i); s1 = on_entry i (\<lambda>e. e\<lparr>re_settled := True, re_phase := RefDone r\<rparr>) s in
          if map_get (ms_queues s1) p = Some i then s1\<lparr>ms_queues := map_delete (ms_queues s1) p\<rparr> else s1)
     | _ \<Rightarrow> s)"

subsection \<open>The callers that wait\<close>

text \<open>\<open>cleanup\<close> of a waiter that has not finished: it leaves the entry, and finishes with \<open>r\<close>.\<close>

definition finish_waiter :: "nat \<Rightarrow> refresh_outcome \<Rightarrow> catalog_service \<Rightarrow> catalog_service" where
  "finish_waiter w r s =
     on_entry (rw_entry (ms_waiters s ! w)) (\<lambda>e. e\<lparr>re_waiters := removeAll w (re_waiters e)\<rparr>)
       (s\<lparr>ms_waiters := (ms_waiters s)[w := (ms_waiters s ! w)\<lparr>rw_result := Some r\<rparr>]\<rparr>)"

text \<open>\<open>controller.abort(reason)\<close>; a second one does nothing.\<close>

definition abort_entry :: "provider_error \<Rightarrow> refresh_entry \<Rightarrow> refresh_entry" where
  "abort_entry r e = (case re_abort e of None \<Rightarrow> e\<lparr>re_abort := Some r\<rparr> | Some _ \<Rightarrow> e)"

definition abort_waiter :: "nat \<Rightarrow> provider_error \<Rightarrow> catalog_service \<Rightarrow> catalog_service" where
  "abort_waiter w r s =
     (if w < length (ms_waiters s) \<and> rw_result (ms_waiters s ! w) = None
      then on_entry (rw_entry (ms_waiters s ! w))
             (\<lambda>e. if \<not> re_settled e \<and> re_waiters e = [] then abort_entry r e else e) (finish_waiter w (Inl r) s)
      else s)"

text \<open>\<open>entry.promise.then\<close> of a waiter.\<close>

definition settle_waiter :: "nat \<Rightarrow> catalog_service \<Rightarrow> catalog_service" where
  "settle_waiter w s =
     (if w < length (ms_waiters s) \<and> rw_result (ms_waiters s ! w) = None
      then case re_phase (entry_of s (rw_entry (ms_waiters s ! w))) of
             RefDone r \<Rightarrow> finish_waiter w r s | _ \<Rightarrow> s
      else s)"

subsection \<open>The background timer and the end\<close>

definition scheduleBackgroundRefresh :: "catalog_service \<Rightarrow> catalog_service" where
  "scheduleBackgroundRefresh s = (if ms_closed s \<or> ms_timer s then s else s\<lparr>ms_timer := True\<rparr>)"

text \<open>A round is the \<open>Promise.allSettled\<close> of the refreshes of all providers that \<open>startup\<close> or the timer began.\<close>

definition begin_round :: "string \<Rightarrow> catalog_service \<Rightarrow> catalog_service" where
  "begin_round reason s = (let (ws, s') = refreshAll reason None s in s'\<lparr>ms_rounds := ms_rounds s' @ [ws]\<rparr>)"

definition catalog_startup :: "catalog_service \<Rightarrow> catalog_service" where
  "catalog_startup s = begin_round ''startup'' s"

definition background_timer :: "catalog_service \<Rightarrow> catalog_service" where
  "background_timer s =
     (if ms_timer s then let s1 = s\<lparr>ms_timer := False\<rparr> in if ms_closed s1 then s1 else begin_round ''background'' s1
      else s)"

definition round_settled :: "catalog_service \<Rightarrow> nat list \<Rightarrow> bool" where
  "round_settled s ws = list_all (\<lambda>w. rw_result (ms_waiters s ! w) \<noteq> None) ws"

definition end_round :: "nat \<Rightarrow> catalog_service \<Rightarrow> catalog_service" where
  "end_round k s =
     (if k < length (ms_rounds s) \<and> round_settled s (ms_rounds s ! k)
      then scheduleBackgroundRefresh (s\<lparr>ms_rounds := take k (ms_rounds s) @ drop (Suc k) (ms_rounds s)\<rparr>)
      else s)"

fun abort_all :: "nat list \<Rightarrow> provider_error \<Rightarrow> catalog_service \<Rightarrow> catalog_service" where
  "abort_all [] r s = s"
| "abort_all (i # is) r s = abort_all is r (on_entry i (abort_entry r) s)"

definition catalog_close :: "catalog_service \<Rightarrow> catalog_service" where
  "catalog_close s =
     abort_all (map_values (ms_queues s)) (catalog_error ''Model catalog service closed.'')
       (s\<lparr>ms_closed := True, ms_timer := False\<rparr>)"

subsection \<open>Every step\<close>

datatype catalog_event =
    CatRefresh string string "provider_error option" | CatRefreshAll string "provider_error option"
  | CatStart nat | CatDiscovered nat "provider_error + jv" rat | CatWoken nat "provider_error option" | CatReported nat
  | CatPublished nat "provider_error option" | CatResynced nat | CatFinally nat
  | CatAbort nat provider_error | CatSettle nat
  | CatRegister catalog_adapter | CatUnregister string | CatGeneration string jsval
  | CatStartup | CatTimer | CatRoundEnd nat | CatClose

definition set_generation :: "string \<Rightarrow> jsval \<Rightarrow> catalog_service \<Rightarrow> catalog_service" where
  "set_generation p g s = s\<lparr>ms_generations := map_option (\<lambda>current. current(p := g)) (ms_generations s)\<rparr>"

definition catalog_step :: "catalog_event \<Rightarrow> catalog_service \<Rightarrow> catalog_service" where
  "catalog_step ev s = (case ev of
       CatRefresh p reason aborted \<Rightarrow> snd (refresh p reason aborted s)
     | CatRefreshAll reason aborted \<Rightarrow> snd (refreshAll reason aborted s)
     | CatStart i \<Rightarrow> refresh_start i s
     | CatDiscovered i answer random \<Rightarrow> discovered i answer random s
     | CatWoken i failure \<Rightarrow> woken i failure s
     | CatReported i \<Rightarrow> reported i s
     | CatPublished i failure \<Rightarrow> published i failure s
     | CatResynced i \<Rightarrow> resynced i s
     | CatFinally i \<Rightarrow> refresh_finally i s
     | CatAbort w r \<Rightarrow> abort_waiter w r s
     | CatSettle w \<Rightarrow> settle_waiter w s
     | CatRegister a \<Rightarrow> (case register_adapter a s of Inr s' \<Rightarrow> s' | Inl e \<Rightarrow> s)
     | CatUnregister p \<Rightarrow> unregister_adapter p s
     | CatGeneration p g \<Rightarrow> set_generation p g s
     | CatStartup \<Rightarrow> catalog_startup s
     | CatTimer \<Rightarrow> background_timer s
     | CatRoundEnd k \<Rightarrow> end_round k s
     | CatClose \<Rightarrow> catalog_close s)"

section \<open>One refresh of a provider at a time\<close>

lemma on_entry_fields [simp]:
  "length (ms_entries (on_entry i f s)) = length (ms_entries s)"
  "ms_queues (on_entry i f s) = ms_queues s" "ms_waiters (on_entry i f s) = ms_waiters s"
  "ms_closed (on_entry i f s) = ms_closed s" "ms_timer (on_entry i f s) = ms_timer s"
  "ms_published (on_entry i f s) = ms_published s" "ms_adapters (on_entry i f s) = ms_adapters s"
  "ms_generations (on_entry i f s) = ms_generations s" "ms_retry (on_entry i f s) = ms_retry s"
  "ms_rounds (on_entry i f s) = ms_rounds s"
  by (simp_all add: on_entry_def)

lemma entry_of_on_entry [simp]:
  "entry_of (on_entry i f s) j = (if j = i \<and> i < length (ms_entries s) then f (entry_of s i) else entry_of s j)"
  by (simp add: on_entry_def entry_of_def)

lemma entry_of_updates [simp]:
  "entry_of (s\<lparr>ms_waiters := x1\<rparr>) = entry_of s" "entry_of (s\<lparr>ms_queues := x2\<rparr>) = entry_of s"
  "entry_of (s\<lparr>ms_published := x3\<rparr>) = entry_of s" "entry_of (s\<lparr>ms_diagnostics := x4\<rparr>) = entry_of s"
  "entry_of (s\<lparr>ms_timer := x5\<rparr>) = entry_of s" "entry_of (s\<lparr>ms_closed := x6\<rparr>) = entry_of s"
  "entry_of (s\<lparr>ms_rounds := x7\<rparr>) = entry_of s" "entry_of (s\<lparr>ms_adapters := x8\<rparr>) = entry_of s"
  "entry_of (s\<lparr>ms_generations := x9\<rparr>) = entry_of s"
  by (simp_all add: entry_of_def fun_eq_iff)

lemma is_done_simps [simp]:
  "\<not> is_done RefQueued" "\<not> is_done (RefDiscover n a g)" "\<not> is_done (RefSleep n a g)" "\<not> is_done (RefReport e)"
  "\<not> is_done (RefPublish c)" "\<not> is_done RefResync" "\<not> is_done (RefEnding r)" "is_done (RefDone r)"
  by (simp_all add: is_done_def)

text \<open>The entries of one provider form a chain: the queue holds the last one that has not settled, every entry knows
  the one before it, and one that has begun has only settled ones before it.\<close>

definition same_provider :: "catalog_service \<Rightarrow> nat \<Rightarrow> nat \<Rightarrow> bool" where
  "same_provider s i j \<longleftrightarrow> re_provider (entry_of s i) = re_provider (entry_of s j)"

definition entry_done :: "catalog_service \<Rightarrow> nat \<Rightarrow> bool" where
  "entry_done s i \<longleftrightarrow> is_done (re_phase (entry_of s i))"

definition begun :: "catalog_service \<Rightarrow> nat \<Rightarrow> bool" where
  "begun s i \<longleftrightarrow> re_phase (entry_of s i) \<noteq> RefQueued"

definition queue_ok :: "catalog_service \<Rightarrow> bool" where
  "queue_ok s \<longleftrightarrow>
     (\<forall>p i. map_get (ms_queues s) p = Some i \<longrightarrow>
        i < length (ms_entries s) \<and> re_provider (entry_of s i) = p \<and> \<not> entry_done s i)
     \<and> (\<forall>i < length (ms_entries s). \<not> entry_done s i \<longrightarrow>
        (\<exists>k. map_get (ms_queues s) (re_provider (entry_of s i)) = Some k \<and> i \<le> k))"

definition chain_ok :: "catalog_service \<Rightarrow> bool" where
  "chain_ok s \<longleftrightarrow>
     (\<forall>j < length (ms_entries s). re_settled (entry_of s j) = entry_done s j
        \<and> (\<forall>k. re_previous (entry_of s j) = Some k \<longrightarrow> k < j \<and> same_provider s k j)
        \<and> (\<forall>i < j. same_provider s i j \<longrightarrow> \<not> entry_done s i \<longrightarrow>
             (\<exists>k. re_previous (entry_of s j) = Some k \<and> i \<le> k) \<and> \<not> begun s j))"

definition catalog_chain :: "catalog_service \<Rightarrow> bool" where
  "catalog_chain s \<longleftrightarrow> queue_ok s \<and> chain_ok s"

text \<open>Steps that leave the phases, the queues and the links alone.\<close>

definition same_chain :: "catalog_service \<Rightarrow> catalog_service \<Rightarrow> bool" where
  "same_chain s t \<longleftrightarrow> ms_queues t = ms_queues s \<and> length (ms_entries t) = length (ms_entries s)
     \<and> (\<forall>i. re_provider (entry_of t i) = re_provider (entry_of s i) \<and> re_previous (entry_of t i) = re_previous (entry_of s i)
          \<and> re_settled (entry_of t i) = re_settled (entry_of s i) \<and> re_phase (entry_of t i) = re_phase (entry_of s i))"

lemma same_chain_keeps: "same_chain s t \<Longrightarrow> catalog_chain s \<Longrightarrow> catalog_chain t"
  by (simp add: same_chain_def catalog_chain_def queue_ok_def chain_ok_def entry_done_def begun_def same_provider_def)

lemma same_chain_trans: "same_chain s t \<Longrightarrow> same_chain t u \<Longrightarrow> same_chain s u"
  by (simp add: same_chain_def)

lemma same_chain_refl [simp]: "same_chain s s"
  by (simp add: same_chain_def)

lemma same_chain_updates [simp]:
  "same_chain s (s\<lparr>ms_waiters := x1\<rparr>)" "same_chain s (s\<lparr>ms_published := x3\<rparr>)" "same_chain s (s\<lparr>ms_diagnostics := x4\<rparr>)"
  "same_chain s (s\<lparr>ms_timer := x5\<rparr>)" "same_chain s (s\<lparr>ms_closed := x6\<rparr>)" "same_chain s (s\<lparr>ms_rounds := x7\<rparr>)"
  "same_chain s (s\<lparr>ms_adapters := x8\<rparr>)" "same_chain s (s\<lparr>ms_generations := x9\<rparr>)"
  by (simp_all add: same_chain_def)

lemma same_chain_on_entry:
  "(\<And>e. re_provider (f e) = re_provider e \<and> re_previous (f e) = re_previous e \<and> re_settled (f e) = re_settled e
      \<and> re_phase (f e) = re_phase e) \<Longrightarrow> same_chain s (on_entry i f s)"
  by (simp add: same_chain_def)

text \<open>A phase that moves on, without settling.\<close>

lemma chain_linked:
  assumes "catalog_chain s" "j < length (ms_entries s)" "i < j" "same_provider s i j" "\<not> entry_done s i"
  shows "\<exists>k. re_previous (entry_of s j) = Some k \<and> i \<le> k \<and> k < j \<and> same_provider s k j" "\<not> begun s j"
proof -
  have j: "\<forall>k. re_previous (entry_of s j) = Some k \<longrightarrow> k < j \<and> same_provider s k j"
    "\<forall>i < j. same_provider s i j \<longrightarrow> \<not> entry_done s i \<longrightarrow>
             (\<exists>k. re_previous (entry_of s j) = Some k \<and> i \<le> k) \<and> \<not> begun s j"
    using assms(1,2) unfolding catalog_chain_def chain_ok_def by simp_all
  from j(2) assms(3-5) obtain k where "re_previous (entry_of s j) = Some k" "i \<le> k" "\<not> begun s j" by blast
  with j(1) show "\<exists>k. re_previous (entry_of s j) = Some k \<and> i \<le> k \<and> k < j \<and> same_provider s k j" "\<not> begun s j" by blast+
qed

lemma may_start_earlier_done:
  assumes "catalog_chain s" "j < length (ms_entries s)" "may_start s j" "i < j" "same_provider s i j"
  shows "entry_done s i"
proof (rule ccontr)
  assume i: "\<not> entry_done s i"
  obtain k where k: "re_previous (entry_of s j) = Some k" "i \<le> k" "k < j" "same_provider s k j"
    using chain_linked(1) [OF assms(1,2,4,5) i] by blast
  with assms(3) have d: "entry_done s k" by (simp add: may_start_def entry_done_def)
  with i k(2) have "i < k" by (cases "i = k") auto
  moreover have "same_provider s i k" using assms(5) k(4) by (simp add: same_provider_def)
  ultimately have "\<not> begun s k" using chain_linked(2) [OF assms(1) _ _ _ i] assms(2) k(3) by simp
  with d show False by (auto simp: entry_done_def begun_def is_done_def)
qed

lemma to_phase_chain:
  assumes inv: "catalog_chain s" and i: "i < length (ms_entries s)" "\<not> entry_done s i"
    and q: "begun s i \<or> may_start s i" and p: "\<not> is_done p" "p \<noteq> RefQueued"
  shows "catalog_chain (to_phase i p s)"
proof -
  have keep: "entry_done (to_phase i p s) k = entry_done s k" "same_provider (to_phase i p s) k l = same_provider s k l" for k l
    using i(2) p(1) by (simp_all add: entry_done_def same_provider_def to_phase_def)
  have begun: "begun (to_phase i p s) k \<longleftrightarrow> k = i \<or> begun s k" for k
    using i(1) p(2) by (auto simp: begun_def to_phase_def)
  have first: "entry_done s k" if "k < i" "same_provider s k i" for k
    using q may_start_earlier_done [OF inv i(1) _ that] chain_linked(2) [OF inv i(1) that] by blast
  have fields: "re_provider (entry_of (to_phase i p s) k) = re_provider (entry_of s k)"
      "re_previous (entry_of (to_phase i p s) k) = re_previous (entry_of s k)"
      "re_settled (entry_of (to_phase i p s) k) = re_settled (entry_of s k)"
      "ms_queues (to_phase i p s) = ms_queues s" "length (ms_entries (to_phase i p s)) = length (ms_entries s)" for k
    by (simp_all add: to_phase_def)
  show ?thesis using inv first
    by (auto simp: catalog_chain_def queue_ok_def chain_ok_def keep fields begun)
qed

lemma finally_chain:
  assumes inv: "catalog_chain s" and i: "i < length (ms_entries s)" "re_phase (entry_of s i) = RefEnding r"
  shows "catalog_chain (refresh_finally i s)"
proof -
  define s1 where "s1 = on_entry i (\<lambda>e. e\<lparr>re_settled := True, re_phase := RefDone r\<rparr>) s"
  let ?p = "re_provider (entry_of s i)" and ?t = "refresh_finally i s"
  have t: "?t = (if map_get (ms_queues s) ?p = Some i then s1\<lparr>ms_queues := map_delete (ms_queues s) ?p\<rparr> else s1)"
    using i by (simp add: refresh_finally_def Let_def s1_def)
  have nd: "\<not> entry_done s i" "begun s i" using i by (simp_all add: entry_done_def begun_def)
  have first: "entry_done s k" if "k < i" "same_provider s k i" for k
    using chain_linked(2) [OF inv i(1) that] nd(2) by blast
  have len: "length (ms_entries ?t) = length (ms_entries s)" by (simp add: t s1_def)
  have fields: "re_provider (entry_of ?t k) = re_provider (entry_of s k)" "re_previous (entry_of ?t k) = re_previous (entry_of s k)"
    "re_settled (entry_of ?t k) = (k = i \<or> re_settled (entry_of s k))"
    "entry_done ?t k = (k = i \<or> entry_done s k)" "begun ?t k = begun s k" "same_provider ?t k l = same_provider s k l" for k l
    using i by (auto simp: t s1_def entry_done_def begun_def same_provider_def)
  have queues: "map_get (ms_queues ?t) q = (if map_get (ms_queues s) q = Some i then None else map_get (ms_queues s) q)" for q
  proof -
    have "map_get (ms_queues s) q \<noteq> Some i \<or> q = ?p" using inv unfolding catalog_chain_def queue_ok_def by metis
    then show ?thesis
    proof
      assume "q = ?p"
      then show ?thesis by (simp add: t s1_def)
    next
      assume "map_get (ms_queues s) q \<noteq> Some i"
      then show ?thesis by (cases "q = ?p") (simp_all add: t s1_def)
    qed
  qed
  have "queue_ok ?t"
    unfolding queue_ok_def len fields queues
  proof (intro conjI allI impI)
    fix j assume j: "j < length (ms_entries s)" "\<not> (j = i \<or> entry_done s j)"
    then obtain k where k: "map_get (ms_queues s) (re_provider (entry_of s j)) = Some k" "j \<le> k"
      using inv unfolding catalog_chain_def queue_ok_def by blast
    have "k \<noteq> i"
    proof
      assume "k = i"
      then have "same_provider s j i" using inv k(1) by (auto simp: catalog_chain_def queue_ok_def same_provider_def)
      then show False using first [of j] k(2) j(2) \<open>k = i\<close> by (cases "j = i") auto
    qed
    then show "\<exists>k. (if map_get (ms_queues s) (re_provider (entry_of s j)) = Some i then None
        else map_get (ms_queues s) (re_provider (entry_of s j))) = Some k \<and> j \<le> k" using k by auto
  next
    fix q k assume q: "(if map_get (ms_queues s) q = Some i then None else map_get (ms_queues s) q) = Some k"
    then have "map_get (ms_queues s) q = Some k" "k \<noteq> i" by (auto split: if_splits)
    then show "k < length (ms_entries s)" "re_provider (entry_of s k) = q" "\<not> (k = i \<or> entry_done s k)"
      using inv unfolding catalog_chain_def queue_ok_def by blast+
  qed
  moreover have "chain_ok ?t" using inv unfolding catalog_chain_def chain_ok_def len fields by blast
  ultimately show ?thesis by (simp add: catalog_chain_def)
qed

lemma enqueue_chain:
  assumes inv: "catalog_chain s"
  shows "catalog_chain (enqueue_refresh p reason s)"
proof -
  let ?t = "enqueue_refresh p reason s" and ?n = "length (ms_entries s)"
  have len: "length (ms_entries ?t) = Suc ?n" by (simp add: enqueue_refresh_def)
  have old: "entry_of ?t k = entry_of s k" if "k < ?n" for k using that by (simp add: enqueue_refresh_def entry_of_def nth_append)
  have new: "re_provider (entry_of ?t ?n) = p" "re_previous (entry_of ?t ?n) = map_get (ms_queues s) p"
    "\<not> re_settled (entry_of ?t ?n)" "\<not> entry_done ?t ?n" "\<not> begun ?t ?n"
    by (simp_all add: enqueue_refresh_def entry_of_def entry_done_def begun_def)
  have keep: "entry_done ?t k = entry_done s k" "begun ?t k = begun s k" if "k < ?n" for k
    using old [OF that] by (simp_all add: entry_done_def begun_def)
  have same: "same_provider ?t k l = same_provider s k l" if "k < ?n" "l < ?n" for k l
    using old that by (simp add: same_provider_def)
  have queues: "map_get (ms_queues ?t) q = (if q = p then Some ?n else map_get (ms_queues s) q)" for q
    by (simp add: enqueue_refresh_def)
  have q: "k < ?n" "re_provider (entry_of s k) = q" "\<not> entry_done s k" if "map_get (ms_queues s) q = Some k" for q k
    using inv that unfolding catalog_chain_def queue_ok_def by blast+
  have waiting: "\<exists>k. map_get (ms_queues s) (re_provider (entry_of s i)) = Some k \<and> i \<le> k"
    if "i < ?n" "\<not> entry_done s i" for i using inv that unfolding catalog_chain_def queue_ok_def by blast
  have "queue_ok ?t" unfolding queue_ok_def len
    using q waiting new by (auto simp: queues less_Suc_eq old keep split: if_splits)
  moreover have "chain_ok ?t" unfolding chain_ok_def len
  proof (intro allI impI)
    fix j assume "j < Suc ?n"
    then consider "j = ?n" | "j < ?n" by linarith
    then show "re_settled (entry_of ?t j) = entry_done ?t j
        \<and> (\<forall>k. re_previous (entry_of ?t j) = Some k \<longrightarrow> k < j \<and> same_provider ?t k j)
        \<and> (\<forall>i < j. same_provider ?t i j \<longrightarrow> \<not> entry_done ?t i \<longrightarrow>
             (\<exists>k. re_previous (entry_of ?t j) = Some k \<and> i \<le> k) \<and> \<not> begun ?t j)"
    proof cases
      case 1
      then show ?thesis using new q [of p] waiting by (auto simp: same_provider_def old keep)
    next
      case 2
      then have "re_settled (entry_of s j) = entry_done s j
        \<and> (\<forall>k. re_previous (entry_of s j) = Some k \<longrightarrow> k < j \<and> same_provider s k j)
        \<and> (\<forall>i < j. same_provider s i j \<longrightarrow> \<not> entry_done s i \<longrightarrow>
             (\<exists>k. re_previous (entry_of s j) = Some k \<and> i \<le> k) \<and> \<not> begun s j)"
        using inv unfolding catalog_chain_def chain_ok_def by blast
      then show ?thesis using 2 by (auto simp: old keep same)
    qed
  qed
  ultimately show ?thesis by (simp add: catalog_chain_def)
qed

lemma wait_same_chain: "same_chain s (snd (waitForRefresh i s))"
  by (simp add: waitForRefresh_def Let_def same_chain_def)

lemma refresh_chain: "catalog_chain s \<Longrightarrow> catalog_chain (snd (refresh p reason aborted s))"
  using same_chain_keeps [OF wait_same_chain] enqueue_chain
  by (auto simp: refresh_def case_prod_beta split: option.splits)

lemma refresh_each_chain: "catalog_chain s \<Longrightarrow> catalog_chain (snd (refresh_each ps reason aborted s))"
proof (induction ps arbitrary: s)
  case (Cons p ps)
  then show ?case using refresh_chain by (simp add: case_prod_beta)
qed simp

lemma begin_round_chain: "catalog_chain s \<Longrightarrow> catalog_chain (begin_round reason s)"
  using refresh_each_chain same_chain_keeps [OF same_chain_updates(6)]
  by (simp add: begin_round_def refreshAll_def case_prod_beta)

lemma running_chain:
  assumes "catalog_chain s" "i < length (ms_entries s)" "re_phase (entry_of s i) \<noteq> RefQueued" "\<not> is_done (re_phase (entry_of s i))"
    "\<not> is_done p" "p \<noteq> RefQueued"
  shows "catalog_chain (to_phase i p s)"
  using assms by (intro to_phase_chain) (simp_all add: begun_def entry_done_def)

lemma begin_attempt_phase [simp]: "\<not> is_done (begin_attempt opts abort n a g)" "begin_attempt opts abort n a g \<noteq> RefQueued"
  by (simp_all add: begin_attempt_def split: option.split)

lemma start_phase_running [simp]: "\<not> is_done (start_phase s i)" "start_phase s i \<noteq> RefQueued"
  by (simp_all add: start_phase_def Let_def split: option.split)

lemma start_chain: "catalog_chain s \<Longrightarrow> catalog_chain (refresh_start i s)"
  by (auto simp: refresh_start_def entry_done_def intro: to_phase_chain)

lemma publish_chain:
  assumes "catalog_chain s" "i < length (ms_entries s)" "re_phase (entry_of s i) = RefDiscover n a g"
  shows "catalog_chain (publish_entry i snapshot generation s)"
  using assms same_chain_keeps [OF same_chain_updates(2) assms(1)]
  by (auto simp: publish_entry_def Let_def intro!: running_chain split: option.split sum.split)

lemma discovered_chain: "catalog_chain s \<Longrightarrow> catalog_chain (discovered i answer random s)"
  by (auto simp: discovered_def intro!: running_chain publish_chain split: refresh_phase.split sum.split retry_decision.split)

lemma woken_chain: "catalog_chain s \<Longrightarrow> catalog_chain (woken i failure s)"
  by (auto simp: woken_def intro!: running_chain split: refresh_phase.split option.split)

lemma reported_chain:
  assumes "catalog_chain s"
  shows "catalog_chain (reported i s)"
  using assms same_chain_keeps [OF same_chain_updates(3) assms]
  by (auto simp: reported_def intro!: running_chain split: refresh_phase.split)

lemma published_chain: "catalog_chain s \<Longrightarrow> catalog_chain (published i failure s)"
  by (auto simp: published_def intro!: running_chain split: refresh_phase.split option.split)

lemma resynced_chain: "catalog_chain s \<Longrightarrow> catalog_chain (resynced i s)"
  by (auto simp: resynced_def intro!: running_chain)

lemma refresh_finally_chain: "catalog_chain s \<Longrightarrow> catalog_chain (refresh_finally i s)"
  using finally_chain by (cases "i < length (ms_entries s)"; cases "re_phase (entry_of s i)") (auto simp: refresh_finally_def)

lemma finish_waiter_same: "same_chain s (finish_waiter w r s)"
  by (simp add: finish_waiter_def same_chain_def)

lemma abort_entry_fields [simp]:
  "re_provider (abort_entry r e) = re_provider e" "re_previous (abort_entry r e) = re_previous e"
  "re_settled (abort_entry r e) = re_settled e" "re_phase (abort_entry r e) = re_phase e" "re_waiters (abort_entry r e) = re_waiters e"
  by (simp_all add: abort_entry_def split: option.split)

lemma abort_waiter_same: "same_chain s (abort_waiter w r s)"
  using same_chain_trans [OF finish_waiter_same [of s w "Inl r"] same_chain_on_entry]
  by (simp add: abort_waiter_def)

lemma settle_waiter_same: "same_chain s (settle_waiter w s)"
  using finish_waiter_same by (simp add: settle_waiter_def split: refresh_phase.split)

lemma abort_all_same: "same_chain s (abort_all is r s)"
proof (induction "is" arbitrary: s)
  case (Cons i "is")
  then show ?case using same_chain_trans [OF same_chain_on_entry [of "abort_entry r" s i] Cons] by simp
qed simp

lemma close_same: "same_chain s (catalog_close s)"
  using abort_all_same [of "s\<lparr>ms_closed := True, ms_timer := False\<rparr>"]
  by (simp add: catalog_close_def same_chain_def)

lemma end_round_same: "same_chain s (end_round k s)"
  by (simp add: end_round_def scheduleBackgroundRefresh_def same_chain_def)

lemma timer_chain: "catalog_chain s \<Longrightarrow> catalog_chain (background_timer s)"
  using begin_round_chain same_chain_keeps [OF same_chain_updates(4)] by (simp add: background_timer_def Let_def)

lemma catalog_step_chain:
  assumes "catalog_chain s"
  shows "catalog_chain (catalog_step ev s)"
proof (cases ev)
  case (CatRegister a)
  have "same_chain s (case register_adapter a s of Inr s' \<Rightarrow> s' | Inl e \<Rightarrow> s)"
    by (simp add: register_adapter_def)
  from same_chain_keeps [OF this assms] show ?thesis by (simp add: catalog_step_def CatRegister)
qed (use assms in \<open>simp_all add: catalog_step_def refresh_chain refreshAll_def refresh_each_chain start_chain discovered_chain
    woken_chain reported_chain published_chain resynced_chain refresh_finally_chain catalog_startup_def begin_round_chain
    timer_chain same_chain_keeps [OF abort_waiter_same] same_chain_keeps [OF settle_waiter_same]
    same_chain_keeps [OF end_round_same] same_chain_keeps [OF close_same] unregister_adapter_def set_generation_def
    same_chain_keeps [OF same_chain_updates(7)] same_chain_keeps [OF same_chain_updates(8)]\<close>)

lemma catalog_created_chain: "ModelCatalogService adapters generations retry = Inr s \<Longrightarrow> catalog_chain s"
  by (auto simp: ModelCatalogService_def bind_r_Inr_iff catalog_chain_def queue_ok_def chain_ok_def)

interpretation catalog_machine: machine catalog_step catalog_chain
  by unfold_locales (rule catalog_step_chain)

section \<open>Callers and aborts\<close>

text \<open>An entry knows exactly the callers that still wait for it; while the service is open an aborted entry has none; a
  caller that got a value got that of its entry; and a closed service has no timer.\<close>

definition waits_for :: "catalog_service \<Rightarrow> nat \<Rightarrow> nat \<Rightarrow> bool" where
  "waits_for s w i \<longleftrightarrow> w < length (ms_waiters s) \<and> rw_entry (ms_waiters s ! w) = i \<and> rw_result (ms_waiters s ! w) = None"

definition entry_waits :: "catalog_service \<Rightarrow> nat \<Rightarrow> bool" where
  "entry_waits s i \<longleftrightarrow>
     (\<forall>w. w \<in> set (re_waiters (entry_of s i)) \<longleftrightarrow> waits_for s w i)
     \<and> (\<not> ms_closed s \<longrightarrow> re_abort (entry_of s i) \<noteq> None \<longrightarrow> re_waiters (entry_of s i) = [])"

definition waiter_ok :: "catalog_service \<Rightarrow> nat \<Rightarrow> bool" where
  "waiter_ok s w \<longleftrightarrow> rw_entry (ms_waiters s ! w) < length (ms_entries s)
     \<and> (\<forall>v. rw_result (ms_waiters s ! w) = Some (Inr v) \<longrightarrow> re_phase (entry_of s (rw_entry (ms_waiters s ! w))) = RefDone (Inr v))"

definition catalog_waits :: "catalog_service \<Rightarrow> bool" where
  "catalog_waits s \<longleftrightarrow>
     (\<forall>i < length (ms_entries s). entry_waits s i) \<and> (\<forall>w < length (ms_waiters s). waiter_ok s w)
     \<and> (ms_closed s \<longrightarrow> \<not> ms_timer s)"

definition same_waits :: "catalog_service \<Rightarrow> catalog_service \<Rightarrow> bool" where
  "same_waits s t \<longleftrightarrow> ms_waiters t = ms_waiters s \<and> length (ms_entries t) = length (ms_entries s)
     \<and> ms_closed t = ms_closed s \<and> (ms_closed s \<longrightarrow> ms_timer t = ms_timer s)
     \<and> (\<forall>i < length (ms_entries s). re_waiters (entry_of t i) = re_waiters (entry_of s i)
          \<and> re_abort (entry_of t i) = re_abort (entry_of s i)
          \<and> (\<forall>r. re_phase (entry_of s i) = RefDone r \<longrightarrow> re_phase (entry_of t i) = RefDone r))"

lemma same_waits_keeps: "same_waits s t \<Longrightarrow> catalog_waits s \<Longrightarrow> catalog_waits t"
  unfolding same_waits_def catalog_waits_def entry_waits_def waiter_ok_def waits_for_def by simp

lemma same_waits_refl [simp]: "same_waits s s"
  by (simp add: same_waits_def)

lemma same_waits_updates [simp]:
  "same_waits s (s\<lparr>ms_published := x3\<rparr>)" "same_waits s (s\<lparr>ms_diagnostics := x4\<rparr>)" "same_waits s (s\<lparr>ms_rounds := x7\<rparr>)"
  "same_waits s (s\<lparr>ms_adapters := x8\<rparr>)" "same_waits s (s\<lparr>ms_generations := x9\<rparr>)" "same_waits s (s\<lparr>ms_queues := x2\<rparr>)"
  by (simp_all add: same_waits_def)

lemma to_phase_waits: "\<not> is_done (re_phase (entry_of s i)) \<Longrightarrow> same_waits s (to_phase i p s)"
  by (auto simp: same_waits_def to_phase_def)

lemma same_waits_trans: "same_waits s t \<Longrightarrow> same_waits t u \<Longrightarrow> same_waits s u"
  by (simp add: same_waits_def)

lemma update_then_phase:
  assumes "same_waits s t" "entry_of t = entry_of s" "\<not> is_done (re_phase (entry_of s i))"
  shows "same_waits s (to_phase i p t)"
  using assms by (intro same_waits_trans [OF assms(1) to_phase_waits]) simp

lemma publish_waits: "\<not> is_done (re_phase (entry_of s i)) \<Longrightarrow> same_waits s (publish_entry i snapshot generation s)"
  by (auto simp: publish_entry_def Let_def intro: to_phase_waits update_then_phase split: option.split sum.split)

lemma finally_waits: "same_waits s (refresh_finally i s)"
  by (auto simp: refresh_finally_def Let_def same_waits_def split: refresh_phase.split)

lemma operation_waits:
  "same_waits s (refresh_start i s)" "same_waits s (discovered i answer random s)" "same_waits s (woken i failure s)"
  "same_waits s (reported i s)" "same_waits s (published i failure s)" "same_waits s (resynced i s)"
  by (auto simp: refresh_start_def discovered_def woken_def reported_def published_def resynced_def
      intro!: to_phase_waits publish_waits update_then_phase
      split: refresh_phase.split sum.split retry_decision.split option.split)

text \<open>A new caller.\<close>

lemma wait_waits:
  assumes "catalog_waits s" "i < length (ms_entries s)" "re_abort (entry_of s i) = None"
  shows "catalog_waits (snd (waitForRefresh i s))"
proof -
  let ?t = "snd (waitForRefresh i s)" and ?n = "length (ms_waiters s)"
  have t: "ms_waiters ?t = ms_waiters s @ [\<lparr>rw_entry = i, rw_result = None\<rparr>]" "length (ms_entries ?t) = length (ms_entries s)"
    "ms_closed ?t = ms_closed s" "ms_timer ?t = ms_timer s"
    "entry_of ?t j = (if j = i then (entry_of s i)\<lparr>re_waiters := re_waiters (entry_of s i) @ [?n]\<rparr> else entry_of s j)" for j
    using assms(2) by (simp_all add: waitForRefresh_def Let_def)
  have w: "waits_for ?t w j \<longleftrightarrow> waits_for s w j \<or> (w = ?n \<and> j = i)" for w j
    by (auto simp: waits_for_def t nth_append less_Suc_eq)
  have "entry_waits ?t j" if "j < length (ms_entries s)" for j
    using assms that by (cases "j = i") (auto simp: catalog_waits_def entry_waits_def w t)
  moreover have "waiter_ok ?t w" if "w < Suc ?n" for w
    using assms that by (auto simp: catalog_waits_def waiter_ok_def t nth_append less_Suc_eq)
  ultimately show ?thesis using assms(1) by (simp add: catalog_waits_def t)
qed

lemma enqueue_waits:
  assumes "catalog_waits s"
  shows "catalog_waits (enqueue_refresh p reason s)"
proof -
  let ?t = "enqueue_refresh p reason s" and ?n = "length (ms_entries s)"
  have t: "ms_waiters ?t = ms_waiters s" "length (ms_entries ?t) = Suc ?n" "ms_closed ?t = ms_closed s" "ms_timer ?t = ms_timer s"
    by (simp_all add: enqueue_refresh_def)
  have old: "entry_of ?t k = entry_of s k" if "k < ?n" for k using that by (simp add: enqueue_refresh_def entry_of_def nth_append)
  have new: "re_waiters (entry_of ?t ?n) = []" by (simp add: enqueue_refresh_def entry_of_def)
  have wf: "waits_for ?t w k = waits_for s w k" for w k by (simp add: waits_for_def t)
  have none: "\<not> waits_for s w ?n" for w using assms by (auto simp: catalog_waits_def waiter_ok_def waits_for_def)
  have "entry_waits ?t j" if "j < Suc ?n" for j
    using assms that by (cases "j = ?n") (auto simp: catalog_waits_def entry_waits_def wf t old new none)
  moreover have "waiter_ok ?t w" if "w < length (ms_waiters s)" for w
    using assms that by (auto simp: catalog_waits_def waiter_ok_def t old less_SucI)
  ultimately show ?thesis using assms by (simp add: catalog_waits_def t)
qed

lemma refresh_waits:
  assumes "catalog_waits s" "catalog_chain s"
  shows "catalog_waits (snd (refresh p reason aborted s))"
proof -
  have "catalog_waits (snd (waitForRefresh (length (ms_entries s)) (enqueue_refresh p reason s)))"
    by (rule wait_waits [OF enqueue_waits [OF assms(1)]]) (simp_all add: enqueue_refresh_def entry_of_def)
  moreover have "catalog_waits (snd (waitForRefresh i s))" if "joinable s p reason = Some i" for i
    using that assms by (intro wait_waits)
      (auto simp: joinable_def entry_of_def catalog_chain_def queue_ok_def split: option.splits if_splits)
  ultimately show ?thesis using assms(1) by (auto simp: refresh_def case_prod_beta split: option.split)
qed

lemma refresh_each_waits:
  "catalog_waits s \<Longrightarrow> catalog_chain s \<Longrightarrow> catalog_waits (snd (refresh_each ps reason aborted s))"
proof (induction ps arbitrary: s)
  case (Cons p ps)
  then show ?case using refresh_waits refresh_chain by (simp add: case_prod_beta)
qed simp

lemma begin_round_waits: "catalog_waits s \<Longrightarrow> catalog_chain s \<Longrightarrow> catalog_waits (begin_round reason s)"
  using refresh_each_waits same_waits_keeps [OF same_waits_updates(3)]
  by (simp add: begin_round_def refreshAll_def case_prod_beta)

lemma finish_waits:
  assumes inv: "catalog_waits s" and w: "w < length (ms_waiters s)"
    and r: "\<And>v. r = Inr v \<Longrightarrow> re_phase (entry_of s (rw_entry (ms_waiters s ! w))) = RefDone (Inr v)"
  shows "catalog_waits (finish_waiter w r s)"
proof -
  let ?t = "finish_waiter w r s" and ?i = "rw_entry (ms_waiters s ! w)"
  have i: "?i < length (ms_entries s)" using inv w by (simp add: catalog_waits_def waiter_ok_def)
  have t: "ms_waiters ?t = (ms_waiters s)[w := (ms_waiters s ! w)\<lparr>rw_result := Some r\<rparr>]"
    "length (ms_entries ?t) = length (ms_entries s)" "ms_closed ?t = ms_closed s" "ms_timer ?t = ms_timer s"
    "entry_of ?t j = (if j = ?i then (entry_of s j)\<lparr>re_waiters := removeAll w (re_waiters (entry_of s j))\<rparr> else entry_of s j)" for j
    using i by (simp_all add: finish_waiter_def)
  have wf: "waits_for ?t u j \<longleftrightarrow> waits_for s u j \<and> u \<noteq> w" for u j
    using w by (cases "u = w") (auto simp: waits_for_def t)
  have other: "\<not> waits_for s w j" if "j \<noteq> ?i" for j using that by (simp add: waits_for_def)
  have "entry_waits ?t j" if "j < length (ms_entries s)" for j
    using inv that other [of j] by (auto simp: catalog_waits_def entry_waits_def wf t)
  moreover have "waiter_ok ?t u" if "u < length (ms_waiters s)" for u
  proof (cases "u = w")
    case True
    have "re_phase (entry_of ?t ?i) = re_phase (entry_of s ?i)" by (simp add: t)
    then show ?thesis unfolding True waiter_ok_def t(1,2) using w i r by fastforce
  next
    case False
    then show ?thesis using inv that by (auto simp: catalog_waits_def waiter_ok_def t)
  qed
  ultimately show ?thesis using inv by (simp add: catalog_waits_def t)
qed

lemma abort_unawaited_waits:
  assumes inv: "catalog_waits s"
  shows "catalog_waits (on_entry i (\<lambda>e. if \<not> re_settled e \<and> re_waiters e = [] then abort_entry r e else e) s)"
proof -
  let ?t = "on_entry i (\<lambda>e. if \<not> re_settled e \<and> re_waiters e = [] then abort_entry r e else e) s"
  have f: "re_waiters (entry_of ?t j) = re_waiters (entry_of s j)" "re_phase (entry_of ?t j) = re_phase (entry_of s j)"
    "re_abort (entry_of ?t j) \<noteq> None \<Longrightarrow> re_abort (entry_of s j) \<noteq> None \<or> re_waiters (entry_of s j) = []" for j
    by (auto split: if_splits)
  have "entry_waits ?t j" if "j < length (ms_entries s)" for j
    using inv that f [of j] by (auto simp del: entry_of_on_entry simp: catalog_waits_def entry_waits_def waits_for_def)
  moreover have "waiter_ok ?t u" if "u < length (ms_waiters s)" for u
    using inv that f by (simp del: entry_of_on_entry add: catalog_waits_def waiter_ok_def)
  ultimately show ?thesis using inv by (simp add: catalog_waits_def)
qed

lemma abort_waiter_waits: "catalog_waits s \<Longrightarrow> catalog_waits (abort_waiter w r s)"
  by (auto simp: abort_waiter_def intro!: abort_unawaited_waits finish_waits)

lemma settle_waiter_waits: "catalog_waits s \<Longrightarrow> catalog_waits (settle_waiter w s)"
  by (auto simp: settle_waiter_def intro!: finish_waits split: refresh_phase.split)

lemma abort_all_fields:
  "ms_waiters (abort_all is r s) = ms_waiters s" "ms_closed (abort_all is r s) = ms_closed s"
  "ms_timer (abort_all is r s) = ms_timer s" "re_waiters (entry_of (abort_all is r s) j) = re_waiters (entry_of s j)"
  by (induction "is" arbitrary: s) auto

lemma close_waits:
  assumes "catalog_waits s"
  shows "catalog_waits (catalog_close s)"
proof -
  let ?t = "catalog_close s"
  have t: "ms_waiters ?t = ms_waiters s" "ms_closed ?t" "\<not> ms_timer ?t" "re_waiters (entry_of ?t j) = re_waiters (entry_of s j)" for j
    by (simp_all add: catalog_close_def abort_all_fields)
  have c: "length (ms_entries ?t) = length (ms_entries s)" "re_phase (entry_of ?t j) = re_phase (entry_of s j)" for j
    using close_same [of s] by (simp_all add: same_chain_def)
  show ?thesis using assms by (simp add: catalog_waits_def entry_waits_def waiter_ok_def waits_for_def t c)
qed

lemma timer_off_waits: "catalog_waits s \<Longrightarrow> catalog_waits (s\<lparr>ms_timer := False\<rparr>)"
  by (simp add: catalog_waits_def entry_waits_def waiter_ok_def waits_for_def)

lemma schedule_waits: "catalog_waits s \<Longrightarrow> catalog_waits (scheduleBackgroundRefresh s)"
  by (simp add: scheduleBackgroundRefresh_def catalog_waits_def entry_waits_def waiter_ok_def waits_for_def)

lemma end_round_waits: "catalog_waits s \<Longrightarrow> catalog_waits (end_round k s)"
  by (auto simp: end_round_def intro!: schedule_waits same_waits_keeps [OF same_waits_updates(3)])

lemma timer_waits: "catalog_waits s \<Longrightarrow> catalog_chain s \<Longrightarrow> catalog_waits (background_timer s)"
  using timer_off_waits [of s] same_chain_keeps [OF same_chain_updates(4), of s False]
  by (auto simp: background_timer_def Let_def intro!: begin_round_waits)

lemma catalog_step_waits:
  assumes "catalog_waits s" "catalog_chain s"
  shows "catalog_waits (catalog_step ev s)"
proof (cases ev)
  case (CatRegister a)
  have "same_waits s (case register_adapter a s of Inr s' \<Rightarrow> s' | Inl e \<Rightarrow> s)" by (simp add: register_adapter_def)
  from same_waits_keeps [OF this assms(1)] show ?thesis by (simp add: catalog_step_def CatRegister)
qed (use assms in \<open>simp_all add: catalog_step_def refresh_waits refreshAll_def refresh_each_waits
    same_waits_keeps [OF operation_waits(1)] same_waits_keeps [OF operation_waits(2)] same_waits_keeps [OF operation_waits(3)]
    same_waits_keeps [OF operation_waits(4)] same_waits_keeps [OF operation_waits(5)] same_waits_keeps [OF operation_waits(6)]
    same_waits_keeps [OF finally_waits] catalog_startup_def begin_round_waits timer_waits abort_waiter_waits settle_waiter_waits
    end_round_waits close_waits unregister_adapter_def set_generation_def
    same_waits_keeps [OF same_waits_updates(4)] same_waits_keeps [OF same_waits_updates(5)]\<close>)

section \<open>What is published\<close>

text \<open>Every publication carries the generation of its provider at that time, which is not that of an inactive provider,
  and publishes a well-formed catalog.\<close>

definition publication_ok :: "publication \<Rightarrow> bool" where
  "publication_ok b \<longleftrightarrow> pb_stamped b = pb_current b \<and> pb_stamped b \<noteq> JNull
     \<and> (\<exists>c. catalog_ok c \<and> pb_snapshot b = product_of c)"

definition phase_active :: "refresh_phase \<Rightarrow> bool" where
  "phase_active p = (case p of RefDiscover n a g \<Rightarrow> g \<noteq> JNull | RefSleep n a g \<Rightarrow> g \<noteq> JNull | _ \<Rightarrow> True)"

definition catalog_published :: "catalog_service \<Rightarrow> bool" where
  "catalog_published s \<longleftrightarrow>
     (\<forall>i < length (ms_entries s). phase_active (re_phase (entry_of s i))) \<and> (\<forall>b \<in> set (ms_published s). publication_ok b)"

lemma phase_active_simps [simp]:
  "phase_active RefQueued" "phase_active (RefReport e)" "phase_active (RefPublish c)" "phase_active RefResync"
  "phase_active (RefEnding r)" "phase_active (RefDone r)" "phase_active (RefDiscover n a g) \<longleftrightarrow> g \<noteq> JNull"
  "phase_active (RefSleep n a g) \<longleftrightarrow> g \<noteq> JNull"
  by (simp_all add: phase_active_def)

lemma to_phase_published: "catalog_published s \<Longrightarrow> phase_active p \<Longrightarrow> catalog_published (to_phase i p s)"
  by (simp add: catalog_published_def to_phase_def)

text \<open>Steps that leave the phases and the publications alone.\<close>

lemma same_published:
  "same_chain s t \<Longrightarrow> ms_published t = ms_published s \<Longrightarrow> catalog_published s \<Longrightarrow> catalog_published t"
  by (simp add: same_chain_def catalog_published_def)

lemma begin_attempt_active: "g \<noteq> JNull \<Longrightarrow> phase_active (begin_attempt opts abort n a g)"
  by (simp add: begin_attempt_def split: option.split)

lemma start_phase_active: "phase_active (start_phase s i)"
  by (simp add: start_phase_def Let_def begin_attempt_active split: option.split)

lemma publish_published:
  assumes inv: "catalog_published s" and raw: "sanitizeModelCatalogSnapshot raw = Inr snapshot" and g: "generation \<noteq> JNull"
  shows "catalog_published (publish_entry i snapshot generation s)"
proof -
  let ?b = "\<lparr>pb_entry = i, pb_stamped = generation, pb_current = generation, pb_snapshot = product_of snapshot\<rparr>"
  have "publication_ok ?b" using g sanitize_ok [OF raw] by (auto simp: publication_ok_def)
  then have "catalog_published (s\<lparr>ms_published := ms_published s @ [?b]\<rparr>)"
    using inv by (auto simp: catalog_published_def)
  moreover have "toProductCatalogSnapshot (snapshot_value snapshot) = Inr (product_of snapshot)"
    by (simp add: toProductCatalogSnapshot_def sanitize_again [OF raw])
  ultimately show ?thesis using inv
    by (auto simp: publish_entry_def Let_def intro!: to_phase_published split: option.split)
qed

lemma entry_active: "catalog_published s \<Longrightarrow> i < length (ms_entries s) \<Longrightarrow> phase_active (re_phase (entry_of s i))"
  by (simp add: catalog_published_def)

lemma discovered_published: "catalog_published s \<Longrightarrow> catalog_published (discovered i answer random s)"
  using entry_active [of s i]
  by (auto simp: discovered_def not_le intro!: to_phase_published publish_published
      split: refresh_phase.split sum.split retry_decision.split)

lemma operation_published:
  assumes "catalog_published s"
  shows "catalog_published (refresh_start i s)" "catalog_published (woken i failure s)" "catalog_published (reported i s)"
    "catalog_published (published i failure s)" "catalog_published (resynced i s)"
  using assms entry_active [of s i] same_published [OF same_chain_updates(3)]
  by (auto simp: refresh_start_def woken_def reported_def published_def resynced_def not_le
      intro!: to_phase_published begin_attempt_active start_phase_active split: refresh_phase.split option.split)

lemma finally_published: "catalog_published s \<Longrightarrow> catalog_published (refresh_finally i s)"
  by (auto simp: refresh_finally_def Let_def catalog_published_def split: refresh_phase.split)

lemma enqueue_published:
  assumes "catalog_published s"
  shows "catalog_published (enqueue_refresh p reason s)"
proof -
  have "phase_active (re_phase (entry_of (enqueue_refresh p reason s) k))" if "k < Suc (length (ms_entries s))" for k
    using that entry_active [OF assms, of k]
    by (cases "k = length (ms_entries s)") (simp_all add: enqueue_refresh_def entry_of_def nth_append)
  then show ?thesis using assms by (simp add: catalog_published_def) (simp add: enqueue_refresh_def)
qed

lemma wait_published: "catalog_published s \<Longrightarrow> catalog_published (snd (waitForRefresh i s))"
  by (rule same_published [OF wait_same_chain]) (simp_all add: waitForRefresh_def Let_def)

lemma refresh_published: "catalog_published s \<Longrightarrow> catalog_published (snd (refresh p reason aborted s))"
  using wait_published enqueue_published by (auto simp: refresh_def case_prod_beta split: option.splits)

lemma refresh_each_published: "catalog_published s \<Longrightarrow> catalog_published (snd (refresh_each ps reason aborted s))"
proof (induction ps arbitrary: s)
  case (Cons p ps)
  then show ?case using refresh_published by (simp add: case_prod_beta)
qed simp

lemma begin_round_published: "catalog_published s \<Longrightarrow> catalog_published (begin_round reason s)"
  using refresh_each_published same_published [OF same_chain_updates(6)]
  by (simp add: begin_round_def refreshAll_def case_prod_beta)

lemma abort_all_published: "ms_published (abort_all is r s) = ms_published s"
  by (induction "is" arbitrary: s) auto

lemma waiter_steps_published:
  "ms_published (abort_waiter w r s) = ms_published s" "ms_published (settle_waiter w s) = ms_published s"
  "ms_published (end_round k s) = ms_published s" "ms_published (catalog_close s) = ms_published s"
  by (simp_all add: abort_waiter_def settle_waiter_def finish_waiter_def end_round_def scheduleBackgroundRefresh_def
      catalog_close_def abort_all_published split: refresh_phase.split)

lemma timer_published: "catalog_published s \<Longrightarrow> catalog_published (background_timer s)"
  using begin_round_published same_published [OF same_chain_updates(4)] by (simp add: background_timer_def Let_def)

lemma catalog_step_published:
  assumes "catalog_published s"
  shows "catalog_published (catalog_step ev s)"
proof (cases ev)
  case (CatRegister a)
  have "same_chain s (case register_adapter a s of Inr s' \<Rightarrow> s' | Inl e \<Rightarrow> s)"
    "ms_published (case register_adapter a s of Inr s' \<Rightarrow> s' | Inl e \<Rightarrow> s) = ms_published s"
    by (simp_all add: register_adapter_def)
  from same_published [OF this assms] show ?thesis by (simp add: catalog_step_def CatRegister)
qed (use assms in \<open>simp_all add: catalog_step_def refresh_published refreshAll_def refresh_each_published operation_published
    discovered_published finally_published catalog_startup_def begin_round_published timer_published
    same_published [OF abort_waiter_same waiter_steps_published(1)] same_published [OF settle_waiter_same waiter_steps_published(2)]
    same_published [OF end_round_same waiter_steps_published(3)] same_published [OF close_same waiter_steps_published(4)]
    unregister_adapter_def set_generation_def same_published [OF same_chain_updates(7)] same_published [OF same_chain_updates(8)]\<close>)

section \<open>Every run of the service\<close>

definition catalog_inv :: "catalog_service \<Rightarrow> bool" where
  "catalog_inv s \<longleftrightarrow> catalog_chain s \<and> catalog_waits s \<and> catalog_published s"

interpretation catalog_runs: machine catalog_step catalog_inv
  by unfold_locales (simp add: catalog_inv_def catalog_step_chain catalog_step_waits catalog_step_published)

lemma catalog_created: "ModelCatalogService adapters generations retry = Inr s \<Longrightarrow> catalog_inv s"
  by (auto simp: ModelCatalogService_def bind_r_Inr_iff catalog_inv_def catalog_chain_def queue_ok_def chain_ok_def
      catalog_waits_def catalog_published_def)

lemma catalog_run_inv:
  "ModelCatalogService adapters generations retry = Inr s0 \<Longrightarrow> catalog_inv (fold catalog_step evs s0)"
  by (rule catalog_runs.run_inv [OF catalog_created])

lemma least_open:
  assumes inv: "catalog_chain s" and j: "j < length (ms_entries s)" "\<not> entry_done s j"
  shows "\<exists>i \<le> j. same_provider s i j \<and> \<not> entry_done s i \<and> (begun s i \<or> may_start s i)"
proof -
  let ?P = "\<lambda>i. i \<le> j \<and> same_provider s i j \<and> \<not> entry_done s i"
  define i where "i = (LEAST i. ?P i)"
  have "?P j" using j(2) by (simp add: same_provider_def)
  then have i: "?P i" unfolding i_def by (rule LeastI)
  have least: "\<not> ?P k" if "k < i" for k using that unfolding i_def by (rule not_less_Least)
  have "may_start s i"
  proof (cases "re_previous (entry_of s i)")
    case (Some k)
    then have "k < i" "same_provider s k i" using inv i j(1) unfolding catalog_chain_def chain_ok_def by auto
    then show ?thesis using least [of k] i Some by (auto simp: may_start_def entry_done_def same_provider_def)
  qed (simp add: may_start_def)
  with i show ?thesis by blast
qed

text \<open>C32. The refreshes of a provider run one at a time, in the order of their requests, whatever callers, providers, the
  timer and the app server do in between: when one has begun, all that were requested before it have settled. And
  the queue is never stuck: as long as one of them has not settled, one of the provider is running or may begin.\<close>

theorem refreshes_are_serial:
  assumes "ModelCatalogService adapters generations retry = Inr s0" "s = fold catalog_step evs s0" "j < length (ms_entries s)"
  shows "(begun s j \<longrightarrow> (\<forall>i < j. same_provider s i j \<longrightarrow> entry_done s i))
       \<and> (\<not> entry_done s j \<longrightarrow> (\<exists>i \<le> j. same_provider s i j \<and> \<not> entry_done s i \<and> (begun s i \<or> may_start s i)))"
proof -
  have inv: "catalog_chain s" using catalog_run_inv [OF assms(1)] by (simp add: assms(2) catalog_inv_def)
  show ?thesis using chain_linked(2) [OF inv assms(3)] least_open [OF inv assms(3)] by blast
qed


text \<open>C33. While the service is open, a refresh that a caller still waits for has not been aborted: one caller's abort ends
  the refresh only when no other caller is left. And a caller that gets a value gets what its own refresh settled
  with.\<close>

theorem awaited_never_aborted:
  assumes "ModelCatalogService adapters generations retry = Inr s0" "s = fold catalog_step evs s0" "w < length (ms_waiters s)"
  shows "(rw_result (ms_waiters s ! w) = None \<and> \<not> ms_closed s \<longrightarrow> re_abort (entry_of s (rw_entry (ms_waiters s ! w))) = None)
       \<and> (\<forall>v. rw_result (ms_waiters s ! w) = Some (Inr v) \<longrightarrow>
            re_phase (entry_of s (rw_entry (ms_waiters s ! w))) = RefDone (Inr v))"
proof -
  have inv: "catalog_waits s" using catalog_run_inv [OF assms(1)] by (simp add: assms(2) catalog_inv_def)
  then have "entry_waits s (rw_entry (ms_waiters s ! w))" "waiter_ok s w"
    using assms(3) by (simp_all add: catalog_waits_def waiter_ok_def)
  then show ?thesis using assms(3) by (force simp: entry_waits_def waiter_ok_def waits_for_def)
qed

section \<open>The bounds of a retry\<close>

lemma jitter_bound: "(y :: rat) \<le> u * (3 / 2) \<Longrightarrow> u \<le> m \<Longrightarrow> 2 * (y + 1 / 2) \<le> 3 * m + 1"
  by simp

lemma retry_delay_bounds:
  assumes "0 \<le> ro_baseDelayMs opts" "0 \<le> ro_maximumDelayMs opts" "0 \<le> r" "r < 1"
  shows "0 \<le> retry_delay opts n r \<and> 2 * retry_delay opts n r \<le> 3 * ro_maximumDelayMs opts + 1"
proof -
  define u where "u = retry_unjittered opts n"
  have u: "0 \<le> u" "u \<le> ro_maximumDelayMs opts" using assms(1,2) by (simp_all add: u_def retry_unjittered_def)
  define y where "y = (of_int u :: rat) * (1 / 2 + r)"
  define x where "x = y + 1 / 2"
  have "y \<le> of_int u * (3 / 2)" unfolding y_def using u(1) assms(4) by (intro mult_left_mono) simp_all
  moreover have "of_int u \<le> (of_int (ro_maximumDelayMs opts) :: rat)" using u(2) by simp
  ultimately have "2 * x \<le> 3 * of_int (ro_maximumDelayMs opts) + 1" unfolding x_def by (rule jitter_bound)
  moreover have "0 \<le> x" unfolding x_def y_def using u(1) assms(3) by simp
  ultimately have x: "0 \<le> x" "2 * x \<le> 3 * of_int (ro_maximumDelayMs opts) + 1" by simp_all
  have "(of_int (2 * \<lfloor>x\<rfloor>) :: rat) \<le> of_int (3 * ro_maximumDelayMs opts + 1)"
    using x(2) of_int_floor_le [of x] by (simp only: of_int_mult of_int_add of_int_numeral of_int_1)
  then have "2 * \<lfloor>x\<rfloor> \<le> 3 * ro_maximumDelayMs opts + 1" by (simp only: of_int_le_iff)
  then show ?thesis using x(1) by (simp add: retry_delay_def x_def y_def u_def)
qed

lemma after_failure_retry:
  "after_failure opts n abort e r = RetryAfter d \<Longrightarrow>
     n \<noteq> ro_attempts opts \<and> isRetryableProviderError e \<and> d = retry_delay opts n r"
  by (auto simp: after_failure_def split: option.splits if_splits)

lemma retry_from_step:
  assumes n: "n \<le> ro_attempts opts" and run: "retry_from opts E n = (r, ds)"
  shows "(ds = [] \<and> (\<forall>v. r = Inr v \<longrightarrow> rv_operation E n = Inr v))
    \<or> (n < ro_attempts opts \<and> (\<exists>e ds'. ds = retry_delay opts n (rv_random E n) # ds'
         \<and> rv_operation E n = Inl e \<and> isRetryableProviderError e
         \<and> ((ds' = [] \<and> (\<forall>v. r \<noteq> Inr v)) \<or> retry_from opts E (Suc n) = (r, ds'))))"
proof (cases "rv_before E n")
  case (Some x)
  then show ?thesis using run n by (auto simp: retry_from.simps [of opts E n])
next
  case None
  note before = this
  show ?thesis
  proof (cases "rv_operation E n")
    case (Inr v)
    then show ?thesis using run n before by (auto simp: retry_from.simps [of opts E n])
  next
    case (Inl e)
    show ?thesis
    proof (cases "after_failure opts n (rv_after E n) e (rv_random E n)")
      case (RetryThrow e')
      then show ?thesis using run n before Inl by (auto simp: retry_from.simps [of opts E n])
    next
      case (RetryAfter d)
      note d = after_failure_retry [OF RetryAfter]
      obtain r' ds' where rest: "retry_from opts E (Suc n) = (r', ds')" by fastforce
      show ?thesis using run n before Inl RetryAfter d rest
        by (cases "rv_sleep E n") (auto simp: retry_from.simps [of opts E n])
    qed
  qed
qed

lemma retry_from_contract:
  assumes "0 \<le> ro_baseDelayMs opts" "0 \<le> ro_maximumDelayMs opts" "\<And>n. 0 \<le> rv_random E n \<and> rv_random E n < 1"
    and "n \<le> ro_attempts opts" "retry_from opts E n = (r, ds)"
  shows "length ds \<le> ro_attempts opts - n \<and> (\<forall>d \<in> set ds. 0 \<le> d \<and> 2 * d \<le> 3 * ro_maximumDelayMs opts + 1)
       \<and> (\<forall>v. r = Inr v \<longrightarrow> (\<exists>k. n \<le> k \<and> k \<le> ro_attempts opts \<and> rv_operation E k = Inr v
            \<and> (\<forall>m. n \<le> m \<and> m < k \<longrightarrow> (\<exists>e. rv_operation E m = Inl e \<and> isRetryableProviderError e))))"
  using assms(4,5)
proof (induction "ro_attempts opts - n" arbitrary: n r ds rule: less_induct)
  case less
  consider (final) "ds = []" "\<And>v. r = Inr v \<Longrightarrow> rv_operation E n = Inr v"
    | (failed) d where "ds = [d]" "d = retry_delay opts n (rv_random E n)" "n < ro_attempts opts" "\<And>v. r \<noteq> Inr v"
    | (again) e d ds' where "ds = d # ds'" "d = retry_delay opts n (rv_random E n)" "n < ro_attempts opts"
        "rv_operation E n = Inl e" "isRetryableProviderError e" "retry_from opts E (Suc n) = (r, ds')"
    using retry_from_step [OF less.prems] by blast
  then show ?case
  proof cases
    case final
    then show ?thesis using less.prems(1) by auto
  next
    case failed
    then show ?thesis using retry_delay_bounds [OF assms(1,2)] assms(3) by auto
  next
    case again
    from again(3) have next_attempt: "ro_attempts opts - Suc n < ro_attempts opts - n" "Suc n \<le> ro_attempts opts" by simp_all
    note IH = less.hyps [OF next_attempt again(6)]
    have "length ds' \<le> ro_attempts opts - Suc n" "\<forall>d \<in> set ds'. 0 \<le> d \<and> 2 * d \<le> 3 * ro_maximumDelayMs opts + 1"
      using IH by blast+
    moreover have "\<exists>k. n \<le> k \<and> k \<le> ro_attempts opts \<and> rv_operation E k = Inr v
            \<and> (\<forall>m. n \<le> m \<and> m < k \<longrightarrow> (\<exists>e. rv_operation E m = Inl e \<and> isRetryableProviderError e))" if got: "r = Inr v" for v
    proof -
      obtain k where k: "Suc n \<le> k" "k \<le> ro_attempts opts" "rv_operation E k = Inr v"
        "\<forall>m. Suc n \<le> m \<and> m < k \<longrightarrow> (\<exists>e. rv_operation E m = Inl e \<and> isRetryableProviderError e)"
        using IH got by blast
      have "\<exists>e. rv_operation E m = Inl e \<and> isRetryableProviderError e" if "n \<le> m" "m < k" for m
        using k(4) again(4,5) that by (cases "m = n") auto
      then show ?thesis using k(1-3) by (intro exI [of _ k]) auto
    qed
    ultimately show ?thesis using again(1-3) retry_delay_bounds [OF assms(1,2)] assms(3) by auto
  qed
qed

text \<open>C40. A request is repeated a bounded number of times, after bounded delays: with \<open>n\<close> attempts there are fewer than
  \<open>n\<close> sleeps, each between zero and one and a half times the maximal delay; and a value is that of an attempt before
  which every attempt failed with an error worth repeating.\<close>

theorem retry_bounded:
  assumes "0 < ro_attempts opts" "0 \<le> ro_baseDelayMs opts" "0 \<le> ro_maximumDelayMs opts"
    "\<And>n. 0 \<le> rv_random E n \<and> rv_random E n < 1" "withProviderRetry opts E = (r, ds)"
  shows "length ds < ro_attempts opts \<and> (\<forall>d \<in> set ds. 0 \<le> d \<and> 2 * d \<le> 3 * ro_maximumDelayMs opts + 1)
       \<and> (\<forall>v. r = Inr v \<longrightarrow> (\<exists>k. 1 \<le> k \<and> k \<le> ro_attempts opts \<and> rv_operation E k = Inr v
            \<and> (\<forall>m. 1 \<le> m \<and> m < k \<longrightarrow> (\<exists>e. rv_operation E m = Inl e \<and> isRetryableProviderError e))))"
  using retry_from_contract [OF assms(2-4), of 1 r ds] assms(1,5) by (auto simp: withProviderRetry_def)

section \<open>Concrete runs\<close>

definition demo_adapter :: catalog_adapter where
  "demo_adapter = \<lparr>ca_ref = 1, ca_providerId = ''codex'', ca_discovers = True\<rparr>"

definition demo_service :: catalog_service where
  "demo_service = \<lparr>ms_adapters = [(''codex'', demo_adapter)], ms_generations = Some (\<lambda>_. JNum 1), ms_retry = default_retry,
     ms_queues = [], ms_entries = [], ms_waiters = [], ms_rounds = [], ms_timer = False, ms_closed = False,
     ms_diagnostics = [], ms_published = []\<rparr>"

lemma demo_service_created: "ModelCatalogService [demo_adapter] (Some (\<lambda>_. JNum 1)) default_retry = Inr demo_service"
  by (simp add: ModelCatalogService_def demo_service_def demo_adapter_def)

definition demo_events :: "catalog_event list" where
  "demo_events = [CatRefresh ''codex'' ''explicit'' None, CatRefresh ''codex'' ''background'' None, CatStart 0,
     CatDiscovered 0 (Inr demo_catalog_value) 0]"

lemma demo_events_run:
  "(let s = fold catalog_step demo_events demo_service in
     length (ms_entries s) = 2 \<and> \<not> entry_done s 1 \<and> \<not> may_start s 1 \<and> length (ms_published s) = 1)"
  by code_simp

theorem refreshes_are_serial_witness:
  "\<exists>i \<le> 1. same_provider (fold catalog_step demo_events demo_service) i 1
      \<and> \<not> entry_done (fold catalog_step demo_events demo_service) i
      \<and> (begun (fold catalog_step demo_events demo_service) i \<or> may_start (fold catalog_step demo_events demo_service) i)"
  using refreshes_are_serial [OF demo_service_created refl, of 1 demo_events] demo_events_run by (simp add: Let_def)


definition demo_joined :: "catalog_event list" where
  "demo_joined = [CatRefresh ''codex'' ''explicit'' None, CatRefresh ''codex'' ''pre-inference'' None,
     CatAbort 0 (catalog_error ''gone'')]"

lemma demo_joined_run:
  "(let s = fold catalog_step demo_joined demo_service in
     length (ms_waiters s) = 2 \<and> rw_entry (ms_waiters s ! 1) = 0 \<and> \<not> ms_closed s
     \<and> (case rw_result (ms_waiters s ! 1) of None \<Rightarrow> True | Some r \<Rightarrow> False))"
  by code_simp

theorem awaited_never_aborted_witness:
  "re_abort (entry_of (fold catalog_step demo_joined demo_service) 0) = None"
  using awaited_never_aborted [OF demo_service_created refl, of 1 demo_joined] demo_joined_run
  by (simp add: Let_def split: option.splits)

definition demo_retries :: "nat retry_env" where
  "demo_retries = \<lparr>rv_operation = (\<lambda>n. if n < 2 then Inl ((catalog_error ''busy'')\<lparr>pe_status := Some 503\<rparr>) else Inr n),
     rv_before = (\<lambda>_. None), rv_after = (\<lambda>_. None), rv_random = (\<lambda>_. 0), rv_sleep = (\<lambda>_. None)\<rparr>"

lemma demo_retries_run: "withProviderRetry default_retry demo_retries = (Inr 2, [125])"
  by code_simp

theorem retry_bounded_witness:
  "withProviderRetry default_retry demo_retries = (Inr 2, [125]) \<and> length [125 :: int] < ro_attempts default_retry"
  using retry_bounded [of default_retry demo_retries "Inr 2" "[125]"] demo_retries_run
  by (simp add: default_retry_def demo_retries_def)

end
