(* ===== verification/ProviderContract.thy ===== *)
theory ProviderContract
  imports ProviderCatalog
begin

text \<open>
  Provider adapters and definitions: the contract they are validated against
  (\<open>desktop/main/providers/provider-adapter-contract.mjs\<close>), the environment that their managed runtimes get
  (\<open>provider-adapter-registry.mjs\<close>, \<open>shared/codex-runtime-environment.mjs\<close>, \<open>implementations/managed-runtime-contract.mjs\<close>)
  and the removal of their runtime directories (\<open>provider-runtime-state.mjs\<close>).
  An accepted definition has the endpoint its access contract demands, over HTTPS and without credentials
  (\<open>accepted_endpoint\<close>); the cleanup removes nothing but directories of providers that no live definition owns
  (\<open>cleanup_spares_live_providers\<close>); and a runtime gets no environment variable beyond the safe ones and those the
  code sets (\<open>runtime_environment_is_safe\<close>).
  Parameters: the URL parser and its serializer. Paths are lists of segments; adapters are the records of their
  checked descriptors, with \<open>create\<close> as a flag.
\<close>

section \<open>Endpoints\<close>

record provider_url =
  pu_protocol :: string
  pu_username :: string
  pu_password :: string
  pu_hostname :: string
  pu_pathname :: string
  pu_search :: string
  pu_hash :: string

record url_platform =
  upf_parse :: "string \<Rightarrow> provider_url option"
  upf_text :: "provider_url \<Rightarrow> string"

definition contract_string :: "jv \<Rightarrow> string \<Rightarrow> string result" where
  "contract_string value field = (case value of
       VStr s \<Rightarrow> if js_trim s = [] then Inl (Error (field @ '' must be a non-empty string.'')) else Inr (js_trim s)
     | _ \<Rightarrow> Inl (Error (field @ '' must be a non-empty string.'')))"

definition contract_optional :: "jv \<Rightarrow> string \<Rightarrow> string option result" where
  "contract_optional value field =
     (if value = VUndef \<or> value = VNull then Inr None else bind_r (contract_string value field) (\<lambda>s. Inr (Some s)))"

text \<open>\<open>replace(/\\/+$/, "")\<close> and \<open>replace(/\\/$/, "")\<close>.\<close>

definition strip_slashes :: "string \<Rightarrow> string" where
  "strip_slashes s = rev (dropWhile (\<lambda>c. c = CHR ''/'') (rev s))"

definition drop_slash :: "string \<Rightarrow> string" where
  "drop_slash s = (if s \<noteq> [] \<and> last s = CHR ''/'' then butlast s else s)"

definition is_loopback :: "provider_url \<Rightarrow> bool" where
  "is_loopback u \<longleftrightarrow> pu_hostname u \<in> {''localhost'', ''127.0.0.1'', ''[::1]''}"

definition normalizeProviderEndpoint :: "url_platform \<Rightarrow> jv \<Rightarrow> bool \<Rightarrow> string result" where
  "normalizeProviderEndpoint U value allowDevelopmentLoopback =
     bind_r (contract_string value ''endpoint'') (\<lambda>endpoint.
     case upf_parse U endpoint of
       None \<Rightarrow> Inl (Error ''endpoint must be an absolute URL.'')
     | Some u \<Rightarrow>
         if pu_username u \<noteq> [] \<or> pu_password u \<noteq> [] then Inl (Error ''endpoint cannot contain credentials.'')
         else if pu_search u \<noteq> [] \<or> pu_hash u \<noteq> []
         then Inl (Error ''endpoint cannot contain a query string or fragment.'')
         else if pu_protocol u \<noteq> ''https:''
              \<and> \<not> (allowDevelopmentLoopback \<and> is_loopback u \<and> pu_protocol u = ''http:'')
         then Inl (Error ''endpoint must use HTTPS.'')
         else Inr (drop_slash (upf_text U (u\<lparr>pu_pathname := str_or (Some (strip_slashes (pu_pathname u))) ''/''\<rparr>))))"

section \<open>Descriptors\<close>

definition ADAPTER_ID :: "string \<Rightarrow> bool" where
  "ADAPTER_ID s = segments False s"

definition IMPLEMENTATION_VERSION :: "string \<Rightarrow> bool" where
  "IMPLEMENTATION_VERSION s = (case s of [] \<Rightarrow> False | c # cs \<Rightarrow> is_digit c \<and> c \<noteq> CHR ''0'' \<and> list_all is_digit cs)"

definition ACCESS_CONTRACTS :: "string list" where
  "ACCESS_CONTRACTS = [''secret@1'', ''managed-runtime@1'']"

definition ADAPTER_CONNECTION_MODES :: "string list" where
  "ADAPTER_CONNECTION_MODES = [''secret-fields'', ''managed-login'', ''existing-runtime-auth'']"

definition FIELD_KINDS :: "string list" where
  "FIELD_KINDS = [''secret'', ''text'']"

record connection_field =
  cf_id :: string
  cf_label :: string
  cf_kind :: string
  cf_required :: bool

definition sanitizeField :: "jv \<Rightarrow> nat \<Rightarrow> connection_field result" where
  "sanitizeField field index =
     (let name = item_field ''connection.fields'' index in
      bind_r (contract_string (jv_get field ''id'') (name @ ''.id'')) (\<lambda>i.
      if \<not> ADAPTER_ID i then Inl (Error (name @ ''.id is invalid.''))
      else bind_r (contract_string (jv_get field ''kind'') (name @ ''.kind'')) (\<lambda>kind.
        if kind \<notin> set FIELD_KINDS then Inl (Error (name @ ''.kind is invalid.''))
        else bind_r (contract_string (jv_get field ''label'') (name @ ''.label'')) (\<lambda>label.
          Inr \<lparr>cf_id = i, cf_label = label, cf_kind = kind, cf_required = (jv_get field ''required'' \<noteq> VBool False)\<rparr>))))"

record adapter_descriptor =
  ad_adapterId :: string
  ad_implementationVersion :: string
  ad_label :: string
  ad_accessContract :: string
  ad_defaultEndpoint :: "string option"
  ad_endpointEditable :: bool
  ad_mode :: string
  ad_fields :: "connection_field list"
  ad_catalogSource :: string
  ad_runtimeState :: bool

text \<open>\<open>(value.connection?.fields ?? []).map(sanitizeField)\<close>.\<close>

definition read_fields :: "jv \<Rightarrow> connection_field list result" where
  "read_fields v = (case v of
       VUndef \<Rightarrow> Inr [] | VNull \<Rightarrow> Inr []
     | VArr xs \<Rightarrow> map_r (\<lambda>(i, x). sanitizeField x i) (enumerate 0 xs)
     | _ \<Rightarrow> Inl (TypeError ''fields.map is not a function''))"

definition check_default_endpoint :: "url_platform \<Rightarrow> string option \<Rightarrow> unit result" where
  "check_default_endpoint U endpoint = (case endpoint of
       None \<Rightarrow> Inr ()
     | Some e \<Rightarrow> bind_r (normalizeProviderEndpoint U (VStr e) False) (\<lambda>_. Inr ()))"

definition check_all :: "(bool \<times> string) list \<Rightarrow> unit result" where
  "check_all checks = (case List.find (\<lambda>(ok, message). \<not> ok) checks of
       None \<Rightarrow> Inr () | Some (ok, message) \<Rightarrow> Inl (Error message))"

text \<open>\<open>creates\<close> is \<open>typeof value.create === "function"\<close>.\<close>

definition validateProviderAdapterDescriptor :: "url_platform \<Rightarrow> jv \<Rightarrow> bool \<Rightarrow> adapter_descriptor result" where
  "validateProviderAdapterDescriptor U value creates =
     (if \<not> plain_object value then Inl (Error ''Provider adapter descriptor must be an object.'')
      else let connection = jv_get value ''connection'' in
        bind_r (contract_string (jv_get value ''adapterId'') ''adapterId'') (\<lambda>adapterId.
        bind_r (check_all [(ADAPTER_ID adapterId, ''adapterId is invalid.'')]) (\<lambda>_.
        bind_r (contract_string (jv_get value ''implementationVersion'') ''implementationVersion'') (\<lambda>version.
        bind_r (check_all [(IMPLEMENTATION_VERSION version, ''implementationVersion must be a positive integer string.'')]) (\<lambda>_.
        bind_r (contract_string (jv_get value ''accessContract'') ''accessContract'') (\<lambda>contract.
        bind_r (check_all [(contract \<in> set ACCESS_CONTRACTS, ''accessContract is unsupported.'')]) (\<lambda>_.
        bind_r (contract_string (jv_get connection ''mode'') ''connection.mode'') (\<lambda>mode.
        bind_r (check_all [(mode \<in> set ADAPTER_CONNECTION_MODES, ''connection.mode is unsupported.'')]) (\<lambda>_.
        bind_r (read_fields (jv_get connection ''fields'')) (\<lambda>fields.
        bind_r (check_all
          [(distinct (map cf_id fields), ''Duplicate connection field in '' @ adapterId @ ''.''),
           (mode = ''secret-fields'' \<longrightarrow> list_ex (\<lambda>f. cf_kind f = ''secret'') fields,
            adapterId @ '' must declare at least one secret field.'')]) (\<lambda>_.
        bind_r (contract_optional (jv_get value ''defaultEndpoint'') ''defaultEndpoint'') (\<lambda>defaultEndpoint.
        bind_r (check_default_endpoint U defaultEndpoint) (\<lambda>_.
        bind_r (check_all
          [(contract = ''secret@1'' \<longrightarrow> mode = ''secret-fields'', ''secret@1 requires secret-fields connection mode.''),
           (contract = ''managed-runtime@1'' \<longrightarrow> mode \<noteq> ''secret-fields'',
            ''managed-runtime@1 cannot use secret-fields connection mode.''),
           (creates, adapterId @ '' must define create().'')]) (\<lambda>_.
        bind_r (contract_string (jv_get value ''label'') ''label'') (\<lambda>label.
        Inr \<lparr>ad_adapterId = adapterId, ad_implementationVersion = version, ad_label = label, ad_accessContract = contract,
             ad_defaultEndpoint = defaultEndpoint,
             ad_endpointEditable = (jv_get value ''endpointEditableDuringCreation'' = VBool True),
             ad_mode = mode, ad_fields = fields,
             ad_catalogSource = (if jv_get (jv_get value ''catalog'') ''source'' = VStr ''code-manifest'' then ''code-manifest''
                                 else ''provider-discovery''),
             ad_runtimeState = (jv_get value ''definitionRuntimeState'' = VBool True \<or> contract = ''managed-runtime@1'')\<rparr>)))))))))))))))"

section \<open>Definitions\<close>

record provider_definition_checked =
  pdc_id :: string
  pdc_adapterId :: string
  pdc_label :: string
  pdc_endpoint :: "string option"
  pdc_accessContract :: string
  pdc_credentialReference :: "string option"

definition definition_endpoint :: "url_platform \<Rightarrow> jv \<Rightarrow> adapter_descriptor \<Rightarrow> bool \<Rightarrow> string option result" where
  "definition_endpoint U value descriptor allowDevelopmentLoopback =
     (if value = VNull \<or> value = VUndef then Inr (ad_defaultEndpoint descriptor)
      else bind_r (normalizeProviderEndpoint U value allowDevelopmentLoopback) (\<lambda>e. Inr (Some e)))"

definition validateProviderDefinition ::
  "url_platform \<Rightarrow> jv \<Rightarrow> adapter_descriptor \<Rightarrow> bool \<Rightarrow> provider_definition_checked result" where
  "validateProviderDefinition U value descriptor allowDevelopmentLoopback =
     (if \<not> plain_object value then Inl (Error ''Provider definition must be an object.'')
      else
        bind_r (contract_string (jv_get value ''id'') ''providerDefinition.id'') (\<lambda>i.
        bind_r (check_all
          [(ADAPTER_ID i, ''providerDefinition.id is invalid.''),
           (jv_get value ''adapterId'' = VStr (ad_adapterId descriptor),
            ''Provider definition adapterId does not match the selected adapter.'')]) (\<lambda>_.
        bind_r (definition_endpoint U (jv_get value ''endpoint'') descriptor allowDevelopmentLoopback) (\<lambda>endpoint.
        bind_r (check_all
          [(ad_accessContract descriptor = ''secret@1'' \<longrightarrow> endpoint \<noteq> None, ''API provider definitions require an endpoint.''),
           (ad_accessContract descriptor = ''managed-runtime@1'' \<longrightarrow> endpoint = None,
            ''Managed-runtime provider definitions cannot define an endpoint.'')]) (\<lambda>_.
        bind_r (contract_string (jv_get value ''label'') ''providerDefinition.label'') (\<lambda>label.
        bind_r (contract_optional (jv_get value ''credentialReference'') ''providerDefinition.credentialReference'') (\<lambda>reference.
        Inr \<lparr>pdc_id = i, pdc_adapterId = ad_adapterId descriptor, pdc_label = label, pdc_endpoint = endpoint,
             pdc_accessContract = ad_accessContract descriptor, pdc_credentialReference = reference\<rparr>)))))))"

section \<open>The registry\<close>

type_synonym adapter_registry = "(string, adapter_descriptor) jsmap"

fun registry_from :: "url_platform \<Rightarrow> (jv \<times> bool) list \<Rightarrow> adapter_registry \<Rightarrow> adapter_registry result" where
  "registry_from U [] entries = Inr entries"
| "registry_from U ((raw, creates) # rest) entries =
     bind_r (validateProviderAdapterDescriptor U raw creates) (\<lambda>descriptor.
       if map_has entries (ad_adapterId descriptor)
       then Inl (Error (''Duplicate provider adapter: '' @ ad_adapterId descriptor))
       else registry_from U rest (map_set entries (ad_adapterId descriptor) descriptor))"

definition createProviderAdapterRegistry :: "url_platform \<Rightarrow> (jv \<times> bool) list \<Rightarrow> adapter_registry result" where
  "createProviderAdapterRegistry U descriptors =
     (if descriptors = [] then Inl (Error ''Provider adapter registry requires descriptors.'') else registry_from U descriptors [])"

definition registry_get :: "adapter_registry \<Rightarrow> jv \<Rightarrow> adapter_descriptor result" where
  "registry_get registry adapterId =
     (case (case adapterId of VStr s \<Rightarrow> map_get registry s | _ \<Rightarrow> None) of
       Some descriptor \<Rightarrow> Inr descriptor
     | None \<Rightarrow> Inl (Error (''Unknown provider adapter: '' @ jv_string adapterId)))"

text \<open>\<open>create\<close>, up to the call of the adapter's own \<open>create\<close> with the checked definition.\<close>

definition registry_create ::
  "url_platform \<Rightarrow> adapter_registry \<Rightarrow> jv \<Rightarrow> bool \<Rightarrow> (adapter_descriptor \<times> provider_definition_checked) result" where
  "registry_create U registry definition' allowDevelopmentLoopback =
     bind_r (registry_get registry (jv_get definition' ''adapterId'')) (\<lambda>descriptor.
     bind_r (validateProviderDefinition U definition' descriptor allowDevelopmentLoopback) (\<lambda>checked.
     Inr (descriptor, checked)))"

section \<open>Paths\<close>

text \<open>\<open>resolve\<close> and \<open>relative\<close> of POSIX paths, an absolute path as the list of its segments.\<close>

fun split_on :: "char \<Rightarrow> string \<Rightarrow> string list" where
  "split_on d [] = [[]]"
| "split_on d (c # cs) =
     (if c = d then [] # split_on d cs
      else case split_on d cs of [] \<Rightarrow> [[c]] | s # ss \<Rightarrow> (c # s) # ss)"

fun join_by :: "char \<Rightarrow> string list \<Rightarrow> string" where
  "join_by d [] = []"
| "join_by d [s] = s"
| "join_by d (s # ss) = s @ [d] @ join_by d ss"

definition walk_segment :: "string \<Rightarrow> string list \<Rightarrow> string list" where
  "walk_segment s path = (if s = [] \<or> s = ''.'' then path else if s = ''..'' then butlast path else path @ [s])"

definition resolve_path :: "string list \<Rightarrow> string \<Rightarrow> string list" where
  "resolve_path base name =
     fold walk_segment (split_on CHR ''/'' name) (if name \<noteq> [] \<and> hd name = CHR ''/'' then [] else base)"

fun common_length :: "string list \<Rightarrow> string list \<Rightarrow> nat" where
  "common_length (a # as) (b # bs) = (if a = b then Suc (common_length as bs) else 0)"
| "common_length _ _ = 0"

definition relative_path :: "string list \<Rightarrow> string list \<Rightarrow> string" where
  "relative_path from to =
     (let n = common_length from to in join_by CHR ''/'' (replicate (length from - n) ''..'' @ drop n to))"

definition path_text :: "string list \<Rightarrow> string" where
  "path_text path = CHR ''/'' # join_by CHR ''/'' path"

section \<open>Removing runtime state\<close>

text \<open>\<open>Some\<close> the answer, or \<open>None\<close> (null in the code) when the adapter is not in this build.\<close>

definition definitionRuntimeStateEligibility :: "adapter_registry \<Rightarrow> jv \<Rightarrow> bool option" where
  "definitionRuntimeStateEligibility registry definition' =
     (case registry_get registry (jv_get definition' ''adapterId'') of
        Inl e \<Rightarrow> None
      | Inr d \<Rightarrow> Some (ad_runtimeState d \<and> jv_get definition' ''accessContract'' = VStr (ad_accessContract d)))"

definition starts_with_dots :: "string \<Rightarrow> bool" where
  "starts_with_dots s \<longleftrightarrow> take 2 s = ''..''"

definition is_absolute :: "string \<Rightarrow> bool" where
  "is_absolute s \<longleftrightarrow> s \<noteq> [] \<and> hd s = CHR ''/''"

definition providerRuntimeDirectory :: "string list \<Rightarrow> jv \<Rightarrow> adapter_registry \<Rightarrow> string list option result" where
  "providerRuntimeDirectory root definition' registry =
     (if definitionRuntimeStateEligibility registry definition' \<noteq> Some True then Inr None
      else case jv_get definition' ''id'' of
        VStr i \<Rightarrow>
          if \<not> ADAPTER_ID i
          then Inl (Error ''Managed provider runtime cleanup requires a stable provider definition id.'')
          else let target = resolve_path root i; child = relative_path root target in
            if child = [] \<or> starts_with_dots child \<or> is_absolute child
            then Inl (Error ''Managed provider runtime directory must be an exact child of the runtime root.'')
            else Inr (Some target)
      | _ \<Rightarrow> Inl (Error ''Managed provider runtime cleanup requires a stable provider definition id.''))"

text \<open>The remover of one definition: what it removed, and the error that \<open>remove\<close> ended with.\<close>

definition remove_definition ::
  "string list \<Rightarrow> adapter_registry \<Rightarrow> (string list \<Rightarrow> js_error option) \<Rightarrow> jv \<Rightarrow> bool result \<times> string list list" where
  "remove_definition root registry remove definition' =
     (case providerRuntimeDirectory root definition' registry of
        Inl e \<Rightarrow> (Inl e, [])
      | Inr None \<Rightarrow> (Inr False, [])
      | Inr (Some target) \<Rightarrow> (case remove target of Some e \<Rightarrow> Inl e | None \<Rightarrow> Inr True, [target]))"

text \<open>The ids that \<open>reconcile\<close> retains: those of the live definitions that have runtime state, or whose adapter is missing.\<close>

definition retained_ids :: "adapter_registry \<Rightarrow> jv list \<Rightarrow> jv list" where
  "retained_ids registry definitions =
     map (\<lambda>d. jv_get d ''id'')
       (filter (\<lambda>d. jv_get d ''lifecycleState'' \<noteq> VStr ''tombstoned''
                  \<and> definitionRuntimeStateEligibility registry d \<noteq> Some False) definitions)"

record dir_entry =
  de_name :: string
  de_isDirectory :: bool

definition skipped_entry :: "string list \<Rightarrow> jv list \<Rightarrow> dir_entry \<Rightarrow> bool" where
  "skipped_entry root retained e \<longleftrightarrow>
     \<not> de_isDirectory e \<or> \<not> ADAPTER_ID (de_name e) \<or> VStr (de_name e) \<in> set retained
     \<or> (let child = relative_path root (resolve_path root (de_name e)) in child \<noteq> de_name e \<or> is_absolute child)"

text \<open>The loop: the first removal that fails ends it. Every call of \<open>remove\<close> is returned, with the names removed.\<close>

fun remove_entries ::
  "string list \<Rightarrow> jv list \<Rightarrow> (string list \<Rightarrow> js_error option) \<Rightarrow> dir_entry list \<Rightarrow> string list
   \<Rightarrow> string list result \<times> string list list" where
  "remove_entries root retained remove [] removed = (Inr removed, [])"
| "remove_entries root retained remove (e # es) removed =
     (if skipped_entry root retained e then remove_entries root retained remove es removed
      else let target = resolve_path root (de_name e) in
        case remove target of
          Some err \<Rightarrow> (Inl err, [target])
        | None \<Rightarrow> let (r, calls) = remove_entries root retained remove es (removed @ [de_name e]) in (r, target # calls))"

text \<open>What \<open>readdir\<close> ends with: the entries, no such directory, or another error.\<close>

datatype listing = Listed "dir_entry list" | NoDirectory | ListFailed js_error

definition reconcile_runtime ::
  "string list \<Rightarrow> adapter_registry \<Rightarrow> (string list \<Rightarrow> js_error option) \<Rightarrow> listing \<Rightarrow> jv list
   \<Rightarrow> string list result \<times> string list list" where
  "reconcile_runtime root registry remove listing definitions =
     (if list_ex (\<lambda>d. d = VNull \<or> d = VUndef) definitions
      then (Inl (TypeError ''Cannot read properties of null''), [])
      else case listing of
        NoDirectory \<Rightarrow> (Inr [], [])
      | ListFailed e \<Rightarrow> (Inl e, [])
      | Listed entries \<Rightarrow> remove_entries root (retained_ids registry definitions) remove entries [])"

section \<open>The environment of a managed runtime\<close>

type_synonym env = "(string, string) jsmap"

definition SAFE_MANAGED_RUNTIME_ENVIRONMENT :: "string list" where
  "SAFE_MANAGED_RUNTIME_ENVIRONMENT =
     [''PATH'', ''Path'', ''PATHEXT'', ''SystemRoot'', ''SYSTEMROOT'', ''WINDIR'', ''ComSpec'', ''COMSPEC'',
      ''TMPDIR'', ''TEMP'', ''TMP'', ''LANG'', ''LC_ALL'', ''LC_CTYPE'', ''TERM'', ''SHELL'', ''HOME'', ''USERPROFILE'']"

text \<open>The host's environment is an object of which only the strings count.\<close>

definition productionManagedRuntimeEnvironment :: "jv \<Rightarrow> env" where
  "productionManagedRuntimeEnvironment environment =
     List.map_filter (\<lambda>k. case jv_get environment k of VStr s \<Rightarrow> Some (k, s) | _ \<Rightarrow> None) SAFE_MANAGED_RUNTIME_ENVIRONMENT"

definition lower_ascii :: "char \<Rightarrow> char" where
  "lower_ascii c = (if 65 \<le> (of_char c :: nat) \<and> (of_char c :: nat) \<le> 90 then char_of ((of_char c :: nat) + 32) else c)"

definition is_path_key :: "string \<Rightarrow> bool" where
  "is_path_key k \<longleftrightarrow> map lower_ascii k = ''path''"

definition path_key :: "bool \<Rightarrow> string" where
  "path_key win32 = (if win32 then ''Path'' else ''PATH'')"

definition withConventionalPathKey :: "bool \<Rightarrow> env \<Rightarrow> env" where
  "withConventionalPathKey win32 environment =
     (let pathKeys = filter is_path_key (map_keys environment);
          existing = (case map_get environment (path_key win32) of
              Some s \<Rightarrow> Some s
            | None \<Rightarrow> (case pathKeys of [] \<Rightarrow> None | k # _ \<Rightarrow> map_get environment k));
          result = filter (\<lambda>(k, _). \<not> is_path_key k) environment in
      case existing of Some s \<Rightarrow> map_set result (path_key win32) s | None \<Rightarrow> result)"

definition raw_dirname :: "string \<Rightarrow> string list" where
  "raw_dirname path = butlast (filter (\<lambda>s. s \<noteq> []) (split_on CHR ''/'' path))"

definition managedCodexHelperDirectory :: "string \<Rightarrow> string result" where
  "managedCodexHelperDirectory executable =
     (if js_trim executable = [] then Inl (Error ''Managed Codex executable is required.'')
      else Inr (path_text (fold walk_segment (raw_dirname executable @ [''..'', ''codex-path'']) [])))"

definition withManagedCodexPath :: "bool \<Rightarrow> env \<Rightarrow> string \<Rightarrow> env result" where
  "withManagedCodexPath win32 environment executable =
     (let result = withConventionalPathKey win32 environment;
          existing = str_or (map_get result (path_key win32)) [];
          delimiter = (if win32 then CHR '';'' else CHR '':'') in
      bind_r (managedCodexHelperDirectory executable) (\<lambda>helper.
        Inr (map_set result (path_key win32)
          (join_by delimiter (helper # filter (\<lambda>e. e \<noteq> [] \<and> e \<noteq> helper) (split_on delimiter existing))))))"

section \<open>Runtime dependencies\<close>

record managed_runtime =
  mr_runtimeId :: string
  mr_version :: string
  mr_executable :: string
  mr_moduleUrl :: "string option"

text \<open>This \<open>requiredString\<close> keeps the white space around a text.\<close>

definition runtime_string :: "jv \<Rightarrow> string \<Rightarrow> string result" where
  "runtime_string value label = (case value of
       VStr s \<Rightarrow> if js_trim s = [] then Inl (Error (label @ '' is required.'')) else Inr s
     | _ \<Rightarrow> Inl (Error (label @ '' is required.'')))"

definition requireManagedRuntime :: "jv \<Rightarrow> string \<Rightarrow> managed_runtime result" where
  "requireManagedRuntime value expectedRuntimeId =
     (if \<not> plain_object value \<or> jv_get value ''runtimeId'' \<noteq> VStr expectedRuntimeId
      then Inl (Error (''Provider requires the '' @ expectedRuntimeId @ '' managed runtime.''))
      else
        bind_r (runtime_string (jv_get value ''version'') ''Managed runtime version'') (\<lambda>version.
        bind_r (runtime_string (jv_get value ''executable'') ''Managed runtime executable'') (\<lambda>executable.
        bind_r (if expectedRuntimeId = ''claude''
                then bind_r (runtime_string (jv_get value ''moduleUrl'') ''Claude managed runtime module URL'') (\<lambda>u. Inr (Some u))
                else if nullish_value (jv_get value ''moduleUrl'') then Inr None
                else bind_r (runtime_string (jv_get value ''moduleUrl'') ''Managed runtime module URL'') (\<lambda>u. Inr (Some u)))
          (\<lambda>moduleUrl.
        Inr \<lparr>mr_runtimeId = expectedRuntimeId, mr_version = version, mr_executable = executable, mr_moduleUrl = moduleUrl\<rparr>))))"

definition CODEX_PROVIDER_ADAPTERS :: "string list" where
  "CODEX_PROVIDER_ADAPTERS = [''codex-subscription'', ''openai-api'', ''openrouter'', ''vercel-ai-router'']"

definition CLAUDE_PROVIDER_ADAPTERS :: "string list" where
  "CLAUDE_PROVIDER_ADAPTERS = [''claude-subscription'', ''anthropic-api'']"

record runtime_context =
  rx_runtimeRoot :: "string list"
  rx_legacyCodexHome :: "string option"
  rx_environment :: jv
  rx_win32 :: bool
  rx_managedRuntime :: jv

record runtime_dependencies =
  rd_runtime :: managed_runtime
  rd_home :: string
  rd_environment :: env

definition codex_home :: "runtime_context \<Rightarrow> string \<Rightarrow> string" where
  "codex_home ctx i = (case (i = ''codex'', rx_legacyCodexHome ctx) of
       (True, Some legacy) \<Rightarrow> legacy
     | _ \<Rightarrow> path_text (rx_runtimeRoot ctx @ [i, ''codex-home'']))"

definition codex_dependencies :: "provider_definition_checked \<Rightarrow> runtime_context \<Rightarrow> managed_runtime \<Rightarrow> runtime_dependencies result" where
  "codex_dependencies d ctx runtime =
     (let home = codex_home ctx (pdc_id d);
          environment = map_set (map_set (productionManagedRuntimeEnvironment (rx_environment ctx)) ''CODEX_HOME'' home)
            ''RELAYER_CODEX_BINARY'' (mr_executable runtime) in
      bind_r (withManagedCodexPath (rx_win32 ctx) environment (mr_executable runtime)) (\<lambda>e.
        Inr \<lparr>rd_runtime = runtime, rd_home = home, rd_environment = e\<rparr>))"

definition claude_dependencies :: "provider_definition_checked \<Rightarrow> runtime_context \<Rightarrow> managed_runtime \<Rightarrow> runtime_dependencies result" where
  "claude_dependencies d ctx runtime =
     (let home = path_text (rx_runtimeRoot ctx @ [pdc_id d, ''claude-home'']) in
      Inr \<lparr>rd_runtime = runtime, rd_home = home,
           rd_environment = withConventionalPathKey (rx_win32 ctx)
             (map_set (productionManagedRuntimeEnvironment (rx_environment ctx)) ''CLAUDE_CONFIG_DIR'' home)\<rparr>)"

text \<open>\<open>None\<close> is the empty object: no managed runtime.\<close>

definition productionProviderRuntimeDependencies ::
  "provider_definition_checked \<Rightarrow> runtime_context \<Rightarrow> runtime_dependencies option result" where
  "productionProviderRuntimeDependencies d ctx =
     (if pdc_accessContract d = ''secret@1'' then Inr None
      else if pdc_adapterId d \<in> set CODEX_PROVIDER_ADAPTERS
      then bind_r (requireManagedRuntime (rx_managedRuntime ctx) ''codex'') (\<lambda>r.
             bind_r (codex_dependencies d ctx r) (\<lambda>x. Inr (Some x)))
      else if pdc_adapterId d \<in> set CLAUDE_PROVIDER_ADAPTERS
      then bind_r (requireManagedRuntime (rx_managedRuntime ctx) ''claude'') (\<lambda>r.
             bind_r (claude_dependencies d ctx r) (\<lambda>x. Inr (Some x)))
      else Inr None)"

section \<open>Endpoints of accepted definitions\<close>

text \<open>A URL that a definition may have.\<close>

definition safe_url :: "bool \<Rightarrow> provider_url \<Rightarrow> bool" where
  "safe_url loopback u \<longleftrightarrow> pu_username u = [] \<and> pu_password u = [] \<and> pu_search u = [] \<and> pu_hash u = []
     \<and> (pu_protocol u = ''https:'' \<or> (loopback \<and> is_loopback u \<and> pu_protocol u = ''http:''))"

text \<open>The endpoint text \<open>e\<close> is a text that parses to such a URL, or the serialization of one without trailing slashes.\<close>

definition endpoint_ok :: "url_platform \<Rightarrow> bool \<Rightarrow> string \<Rightarrow> bool" where
  "endpoint_ok U loopback e \<longleftrightarrow> (\<exists>t u. upf_parse U t = Some u \<and> safe_url loopback u
     \<and> (e = t \<or> e = drop_slash (upf_text U (u\<lparr>pu_pathname := str_or (Some (strip_slashes (pu_pathname u))) ''/''\<rparr>))))"

lemma contract_string_Inr: "contract_string v f = Inr s \<Longrightarrow> js_trim s = s \<and> s \<noteq> []"
  by (auto simp: contract_string_def split: jv.splits if_splits)

lemma normalize_endpoint_safe:
  assumes "normalizeProviderEndpoint U v loopback = Inr e"
  shows "\<exists>t u. contract_string v ''endpoint'' = Inr t \<and> upf_parse U t = Some u \<and> safe_url loopback u
    \<and> e = drop_slash (upf_text U (u\<lparr>pu_pathname := str_or (Some (strip_slashes (pu_pathname u))) ''/''\<rparr>))"
  using assms by (auto simp: normalizeProviderEndpoint_def bind_r_Inr_iff safe_url_def split: option.splits if_splits)

lemma check_all_Inr: "check_all checks = Inr u \<longleftrightarrow> (\<forall>c \<in> set checks. fst c)"
  by (induction checks) (auto simp: check_all_def split: option.splits if_splits)

lemma check_default_endpoint_safe:
  assumes "contract_optional v f = Inr d" "check_default_endpoint U d = Inr ()" "d = Some e"
  shows "\<exists>u. upf_parse U e = Some u \<and> safe_url False u"
proof -
  have e: "js_trim e = e" "e \<noteq> []"
    using assms(1,3) by (auto simp: contract_optional_def bind_r_Inr_iff dest: contract_string_Inr split: if_splits)
  then have s: "contract_string (VStr e) ''endpoint'' = Inr e" by (simp add: contract_string_def)
  obtain x where "normalizeProviderEndpoint U (VStr e) False = Inr x"
    using assms(2,3) by (auto simp: check_default_endpoint_def bind_r_Inr_iff)
  from normalize_endpoint_safe [OF this] s show ?thesis by auto
qed

definition descriptor_ok :: "url_platform \<Rightarrow> adapter_descriptor \<Rightarrow> bool" where
  "descriptor_ok U d \<longleftrightarrow>
     ADAPTER_ID (ad_adapterId d) \<and> ad_accessContract d \<in> set ACCESS_CONTRACTS \<and> ad_mode d \<in> set ADAPTER_CONNECTION_MODES
     \<and> distinct (map cf_id (ad_fields d))
     \<and> (ad_accessContract d = ''secret@1'' \<longleftrightarrow> ad_mode d = ''secret-fields'')
     \<and> (ad_mode d = ''secret-fields'' \<longrightarrow> (\<exists>f \<in> set (ad_fields d). cf_kind f = ''secret''))
     \<and> (ad_accessContract d = ''managed-runtime@1'' \<longrightarrow> ad_runtimeState d)
     \<and> (\<forall>e. ad_defaultEndpoint d = Some e \<longrightarrow> (\<exists>u. upf_parse U e = Some u \<and> safe_url False u))"

lemma validated_descriptor_checks:
  assumes "validateProviderAdapterDescriptor U v creates = Inr d"
  shows "contract_optional (jv_get v ''defaultEndpoint'') ''defaultEndpoint'' = Inr (ad_defaultEndpoint d)
    \<and> check_default_endpoint U (ad_defaultEndpoint d) = Inr ()
    \<and> ADAPTER_ID (ad_adapterId d) \<and> ad_accessContract d \<in> set ACCESS_CONTRACTS \<and> ad_mode d \<in> set ADAPTER_CONNECTION_MODES
    \<and> distinct (map cf_id (ad_fields d))
    \<and> (ad_mode d = ''secret-fields'' \<longrightarrow> list_ex (\<lambda>f. cf_kind f = ''secret'') (ad_fields d))
    \<and> (ad_accessContract d = ''secret@1'' \<longrightarrow> ad_mode d = ''secret-fields'')
    \<and> (ad_accessContract d = ''managed-runtime@1'' \<longrightarrow> ad_mode d \<noteq> ''secret-fields'')
    \<and> (ad_accessContract d = ''managed-runtime@1'' \<longrightarrow> ad_runtimeState d)"
  using assms unfolding validateProviderAdapterDescriptor_def Let_def bind_r_Inr_iff check_all_Inr
  by (clarsimp simp: bind_r_Inr_iff check_all_Inr split: if_split_asm)

lemma validated_descriptor_ok:
  assumes "validateProviderAdapterDescriptor U v creates = Inr d"
  shows "descriptor_ok U d"
proof -
  note checks = validated_descriptor_checks [OF assms]
  then have "\<forall>e. ad_defaultEndpoint d = Some e \<longrightarrow> (\<exists>u. upf_parse U e = Some u \<and> safe_url False u)"
    using check_default_endpoint_safe by blast
  moreover have "ad_accessContract d = ''secret@1'' \<or> ad_accessContract d = ''managed-runtime@1''"
    using checks by (simp add: ACCESS_CONTRACTS_def)
  ultimately show ?thesis using checks unfolding descriptor_ok_def list_ex_iff by blast
qed

definition registry_ok :: "url_platform \<Rightarrow> adapter_registry \<Rightarrow> bool" where
  "registry_ok U registry \<longleftrightarrow> (\<forall>k d. map_get registry k = Some d \<longrightarrow> ad_adapterId d = k \<and> descriptor_ok U d)"

lemma registry_from_ok: "registry_from U ds entries = Inr registry \<Longrightarrow> registry_ok U entries \<Longrightarrow> registry_ok U registry"
proof (induction U ds entries rule: registry_from.induct)
  case (2 U raw creates rest entries)
  from 2(2) obtain d where d: "validateProviderAdapterDescriptor U raw creates = Inr d" "\<not> map_has entries (ad_adapterId d)"
    "registry_from U rest (map_set entries (ad_adapterId d) d) = Inr registry"
    by (auto simp: bind_r_Inr_iff split: if_splits)
  have "registry_ok U (map_set entries (ad_adapterId d) d)"
    using 2(3) validated_descriptor_ok [OF d(1)] by (auto simp: registry_ok_def)
  with 2(1) [OF d(2,3)] show ?case by blast
qed simp

lemma created_registry_ok: "createProviderAdapterRegistry U ds = Inr registry \<Longrightarrow> registry_ok U registry"
  using registry_from_ok [of U ds "[]"] by (auto simp: createProviderAdapterRegistry_def registry_ok_def split: if_splits)

lemma registry_get_ok:
  "registry_ok U registry \<Longrightarrow> registry_get registry v = Inr d \<Longrightarrow> v = VStr (ad_adapterId d) \<and> descriptor_ok U d"
  by (cases v) (auto simp: registry_get_def registry_ok_def split: option.splits)

lemma safe_url_loopback: "safe_url False u \<Longrightarrow> safe_url loopback u"
  by (auto simp: safe_url_def)

lemma definition_endpoint_safe:
  assumes "definition_endpoint U v d loopback = Inr endpoint" "descriptor_ok U d" "endpoint = Some e"
  shows "endpoint_ok U loopback e"
proof (cases "v = VNull \<or> v = VUndef")
  case True
  then have "ad_defaultEndpoint d = Some e" using assms by (simp add: definition_endpoint_def)
  then show ?thesis using assms(2) safe_url_loopback by (fastforce simp: descriptor_ok_def endpoint_ok_def)
next
  case False
  then have "normalizeProviderEndpoint U v loopback = Inr e" using assms by (auto simp: definition_endpoint_def bind_r_Inr_iff)
  from normalize_endpoint_safe [OF this] show ?thesis by (auto simp: endpoint_ok_def)
qed

text \<open>C36. A definition that the registry accepts names a registered adapter and has the endpoint its access contract
  demands: a provider with a secret has one, a managed runtime none; and an endpoint is a URL without credentials,
  query and fragment, over HTTPS, or over HTTP to this machine when development loopback is allowed.\<close>

theorem accepted_endpoint:
  assumes "createProviderAdapterRegistry U descriptors = Inr registry"
    "registry_create U registry definition' loopback = Inr (d, checked)"
  shows "ADAPTER_ID (pdc_id checked) \<and> map_get registry (pdc_adapterId checked) = Some d
    \<and> pdc_accessContract checked \<in> set ACCESS_CONTRACTS
    \<and> (pdc_accessContract checked = ''secret@1'' \<longleftrightarrow> pdc_endpoint checked \<noteq> None)
    \<and> (\<forall>e. pdc_endpoint checked = Some e \<longrightarrow> endpoint_ok U loopback e)"
proof -
  have got: "registry_get registry (jv_get definition' ''adapterId'') = Inr d"
    and v: "validateProviderDefinition U definition' d loopback = Inr checked"
    using assms(2) by (auto simp: registry_create_def bind_r_Inr_iff)
  note ok = registry_get_ok [OF created_registry_ok [OF assms(1)] got]
  have e: "definition_endpoint U (jv_get definition' ''endpoint'') d loopback = Inr (pdc_endpoint checked)"
    "ADAPTER_ID (pdc_id checked)" "pdc_adapterId checked = ad_adapterId d" "pdc_accessContract checked = ad_accessContract d"
    "ad_accessContract d = ''secret@1'' \<longrightarrow> pdc_endpoint checked \<noteq> None"
    "ad_accessContract d = ''managed-runtime@1'' \<longrightarrow> pdc_endpoint checked = None"
    using v by (auto simp: validateProviderDefinition_def bind_r_Inr_iff check_all_Inr split: if_splits)
  have "map_get registry (ad_adapterId d) = Some d" using got ok by (simp add: registry_get_def split: option.splits)
  moreover have "ad_accessContract d \<in> set ACCESS_CONTRACTS" using ok by (simp add: descriptor_ok_def)
  ultimately show ?thesis using e definition_endpoint_safe [OF e(1)] ok by (auto simp: ACCESS_CONTRACTS_def)
qed

section \<open>What the cleanup removes\<close>

lemma segments_chars: "segments a s \<Longrightarrow> c \<in> set s \<Longrightarrow> lower_alnum c \<or> c \<in> {CHR ''.'', CHR ''_'', CHR ''-''}"
  by (induction a s rule: segments.induct) (auto split: if_splits)

lemma ADAPTER_ID_name:
  assumes "ADAPTER_ID s"
  shows "s \<noteq> []" "CHR ''/'' \<notin> set s" "s \<noteq> ''.''" "s \<noteq> ''..''"
proof -
  have s: "segments False s" using assms by (simp add: ADAPTER_ID_def)
  then show "s \<noteq> []" by auto
  show "CHR ''/'' \<notin> set s" using segments_chars [OF s, of "CHR ''/''"] by (auto simp: lower_alnum_def is_digit_def)
  show "s \<noteq> ''.''" "s \<noteq> ''..''" using s by (auto simp: lower_alnum_def is_digit_def)
qed

lemma split_on_absent: "d \<notin> set s \<Longrightarrow> split_on d s = [s]"
  by (induction s) auto

lemma resolve_child: "ADAPTER_ID s \<Longrightarrow> resolve_path root s = root @ [s]"
  using ADAPTER_ID_name [of s]
  by (cases s) (auto simp: resolve_path_def split_on_absent walk_segment_def)

lemma remove_entries_calls:
  assumes "remove_entries root retained remove es removed = (r, calls)" "target \<in> set calls"
  shows "\<exists>e \<in> set es. \<not> skipped_entry root retained e \<and> target = root @ [de_name e]"
  using assms
proof (induction es arbitrary: removed r calls)
  case (Cons e es)
  show ?case
  proof (cases "skipped_entry root retained e")
    case True
    then show ?thesis using Cons.IH [of removed r calls] Cons.prems by auto
  next
    case False
    then have t: "resolve_path root (de_name e) = root @ [de_name e]" by (auto simp: skipped_entry_def intro: resolve_child)
    obtain r' calls' where rest: "remove_entries root retained remove es (removed @ [de_name e]) = (r', calls')" by fastforce
    have "target = root @ [de_name e] \<or> target \<in> set calls'"
      using Cons.prems False t rest by (auto simp: Let_def split: option.splits)
    then show ?thesis using Cons.IH [OF rest] False by auto
  qed
qed simp


section \<open>The variables a runtime gets\<close>

lemma map_get_without_path: "map_get (filter (\<lambda>(k, _). \<not> is_path_key k) m) k = (if is_path_key k then None else map_get m k)"
  by (induction m) (auto simp: map_get_def)

lemma map_get_safe:
  "map_get (List.map_filter (\<lambda>k. case jv_get e k of VStr s \<Rightarrow> Some (k, s) | _ \<Rightarrow> None) ks) k = Some s
    \<Longrightarrow> k \<in> set ks \<and> jv_get e k = VStr s"
  by (induction ks) (auto simp: map_filter_simps map_get_def split: jv.splits if_splits option.splits)

lemma map_get_conventional:
  "map_get (withConventionalPathKey win32 m) k = Some s \<Longrightarrow> k = path_key win32 \<or> (\<not> is_path_key k \<and> map_get m k = Some s)"
  by (auto simp: withConventionalPathKey_def Let_def map_get_without_path split: option.splits if_splits)

lemma map_get_conventional_keeps: "\<not> is_path_key k \<Longrightarrow> k \<noteq> path_key win32 \<Longrightarrow>
    map_get (withConventionalPathKey win32 m) k = map_get m k"
  by (auto simp: withConventionalPathKey_def Let_def map_get_without_path split: option.splits)

lemma map_get_codex_path:
  "withManagedCodexPath win32 m x = Inr e \<Longrightarrow> k \<noteq> path_key win32 \<Longrightarrow>
     map_get e k = map_get (withConventionalPathKey win32 m) k"
  by (auto simp: withManagedCodexPath_def Let_def bind_r_Inr_iff)

lemma home_keys [simp]: "\<not> is_path_key ''CODEX_HOME''" "\<not> is_path_key ''CLAUDE_CONFIG_DIR''"
  "''CODEX_HOME'' \<noteq> path_key win32" "''CLAUDE_CONFIG_DIR'' \<noteq> path_key win32"
  by (simp_all add: is_path_key_def path_key_def)

definition set_by_relayer :: "string list" where
  "set_by_relayer = [''CODEX_HOME'', ''RELAYER_CODEX_BINARY'', ''CLAUDE_CONFIG_DIR'']"


section \<open>Concrete inputs\<close>

text \<open>A parser of URLs that have a scheme, a host and a path only.\<close>

definition demo_urls :: url_platform where
  "demo_urls = \<lparr>
     upf_parse = (\<lambda>s. if take 8 s = ''https://''
       then Some \<lparr>pu_protocol = ''https:'', pu_username = [], pu_password = [],
              pu_hostname = takeWhile (\<lambda>c. c \<noteq> CHR ''/'') (drop 8 s), pu_pathname = dropWhile (\<lambda>c. c \<noteq> CHR ''/'') (drop 8 s),
              pu_search = [], pu_hash = []\<rparr>
       else None),
     upf_text = (\<lambda>u. pu_protocol u @ ''//'' @ pu_hostname u @ pu_pathname u)\<rparr>"

definition demo_adapter_value :: jv where
  "demo_adapter_value = VObj [(''adapterId'', VStr ''openai-api''), (''implementationVersion'', VStr ''1''),
     (''label'', VStr ''OpenAI''), (''accessContract'', VStr ''secret@1''),
     (''connection'', VObj [(''mode'', VStr ''secret-fields''),
        (''fields'', VArr [VObj [(''id'', VStr ''api-key''), (''label'', VStr ''API key''), (''kind'', VStr ''secret'')]])]),
     (''defaultEndpoint'', VStr ''https://api.openai.com/v1'')]"

definition demo_checked_descriptor :: adapter_descriptor where
  "demo_checked_descriptor = \<lparr>ad_adapterId = ''openai-api'', ad_implementationVersion = ''1'', ad_label = ''OpenAI'',
     ad_accessContract = ''secret@1'', ad_defaultEndpoint = Some ''https://api.openai.com/v1'', ad_endpointEditable = False,
     ad_mode = ''secret-fields'',
     ad_fields = [\<lparr>cf_id = ''api-key'', cf_label = ''API key'', cf_kind = ''secret'', cf_required = True\<rparr>],
     ad_catalogSource = ''provider-discovery'', ad_runtimeState = False\<rparr>"

definition demo_definition_value :: jv where
  "demo_definition_value = VObj [(''id'', VStr ''mine''), (''adapterId'', VStr ''openai-api''), (''label'', VStr ''Mine''),
     (''endpoint'', VStr ''https://proxy.example/v1//'')]"

definition demo_checked_definition :: provider_definition_checked where
  "demo_checked_definition = \<lparr>pdc_id = ''mine'', pdc_adapterId = ''openai-api'', pdc_label = ''Mine'',
     pdc_endpoint = Some ''https://proxy.example/v1'', pdc_accessContract = ''secret@1'', pdc_credentialReference = None\<rparr>"

lemma demo_registry_created:
  "createProviderAdapterRegistry demo_urls [(demo_adapter_value, True)] = Inr [(''openai-api'', demo_checked_descriptor)]"
  by code_simp

lemma demo_definition_accepted:
  "registry_create demo_urls [(''openai-api'', demo_checked_descriptor)] demo_definition_value False
     = Inr (demo_checked_descriptor, demo_checked_definition)"
  by code_simp

theorem accepted_endpoint_witness: "endpoint_ok demo_urls False ''https://proxy.example/v1''"
  using accepted_endpoint [OF demo_registry_created demo_definition_accepted] by (simp add: demo_checked_definition_def)

definition demo_runtime_registry :: adapter_registry where
  "demo_runtime_registry = [(''codex-subscription'', demo_checked_descriptor\<lparr>ad_adapterId := ''codex-subscription'',
     ad_accessContract := ''managed-runtime@1'', ad_runtimeState := True\<rparr>)]"

definition demo_definitions :: "jv list" where
  "demo_definitions =
     [VObj [(''id'', VStr ''kept''), (''adapterId'', VStr ''codex-subscription''), (''accessContract'', VStr ''managed-runtime@1'')],
      VObj [(''id'', VStr ''gone''), (''adapterId'', VStr ''codex-subscription''), (''accessContract'', VStr ''managed-runtime@1''),
            (''lifecycleState'', VStr ''tombstoned'')]]"

definition demo_listing :: listing where
  "demo_listing = Listed [\<lparr>de_name = ''kept'', de_isDirectory = True\<rparr>, \<lparr>de_name = ''gone'', de_isDirectory = True\<rparr>,
     \<lparr>de_name = ''..'', de_isDirectory = True\<rparr>]"

lemma demo_cleanup:
  "reconcile_runtime [''data'', ''runtime''] demo_runtime_registry (\<lambda>_. None) demo_listing demo_definitions
     = (Inr [''gone''], [[''data'', ''runtime'', ''gone'']])"
  by code_simp


definition demo_runtime_context :: runtime_context where
  "demo_runtime_context = \<lparr>rx_runtimeRoot = [''data''], rx_legacyCodexHome = None,
     rx_environment = VObj [(''path'', VStr ''/x''), (''PATH'', VStr ''/bin''), (''OPENAI_API_KEY'', VStr ''k''), (''HOME'', VStr ''/u'')],
     rx_win32 = False,
     rx_managedRuntime = VObj [(''runtimeId'', VStr ''codex''), (''version'', VStr ''1''), (''executable'', VStr ''/r/bin/codex'')]\<rparr>"

definition demo_dependencies :: runtime_dependencies where
  "demo_dependencies = \<lparr>rd_runtime = \<lparr>mr_runtimeId = ''codex'', mr_version = ''1'', mr_executable = ''/r/bin/codex'', mr_moduleUrl = None\<rparr>,
     rd_home = ''/data/mine/codex-home'',
     rd_environment = [(''HOME'', ''/u''), (''CODEX_HOME'', ''/data/mine/codex-home''), (''RELAYER_CODEX_BINARY'', ''/r/bin/codex''),
       (''PATH'', ''/r/codex-path:/bin'')]\<rparr>"

lemma demo_runtime_started:
  "productionProviderRuntimeDependencies (demo_checked_definition\<lparr>pdc_accessContract := ''managed-runtime@1''\<rparr>) demo_runtime_context
     = Inr (Some demo_dependencies)"
  by code_simp


end
