(* ===== verification/NavPresentation.thy ===== *)
theory NavPresentation
  imports NavHistory WorkspaceModel JsBytes
begin

text \<open>
  Presenting an entry of the navigation history (\<open>desktop/renderer/src/workspace-navigation.js\<close>): the entry of a view, the
  checks of what the server still has of an entry, and the exact call that an entry was reached by. What is presented
  is the entry that was asked for, layer by layer and action by action (\<open>presentation_is_the_entry\<close>), and the origin
  it names is the only call that fits (\<open>origin_is_the_only_call\<close>).
  Arguments of the definitions: what \<open>loadThread\<close> answers to the first and to the second call, what a layer is loaded
  as (through the cache or not), and the JSON of a layer object. Within one presentation a layer loads as one value.
\<close>

section \<open>Entries of views\<close>

text \<open>\<open>layerPath\<close> holds path entries, whose action is the \<open>viaActionId\<close> of the step.\<close>

definition raw_steps :: "path_entry list \<Rightarrow> raw_step list" where
  "raw_steps path = map (\<lambda>e. \<lparr>rs_layerId = px_layerId e, rs_viaActionId = nullish_or (px_actionId e) JNull\<rparr>) path"

definition navigationEntryFromView ::
  "jsval \<Rightarrow> jsval \<Rightarrow> path_entry list \<Rightarrow> jsval \<Rightarrow> raw_temporal option \<Rightarrow> raw_origin option \<Rightarrow> nav_entry option result" where
  "navigationEntryFromView threadId turnId layerPath selectedNodeId temporalCurrent invocationOrigin =
     (if is_nullish threadId \<or> is_nullish turnId then Inr None
      else bind_r (normalizeNavigationEntry
             (Some (RawEntry threadId turnId (Some (raw_steps layerPath)) selectedNodeId temporalCurrent invocationOrigin)))
           (\<lambda>e. Inr (Some e)))"

text \<open>The identity under which entries are compared; \<open>JSON.stringify\<close> of it is injective.\<close>

definition navigationEntryKey ::
  "raw_entry \<Rightarrow> (string \<times> string \<times> (string \<times> string option) list \<times> nav_origin option) result" where
  "navigationEntryKey entry = bind_r (normalizeNavigationEntry (Some entry)) (\<lambda>n.
     Inr (ne_threadId n, ne_turnId n, map (\<lambda>st. (ns_layerId st, ns_viaActionId st)) (ne_path n), ne_origin n))"

definition descendantLayerIdentities :: "raw_entry \<Rightarrow> (string \<times> string \<times> string) list result" where
  "descendantLayerIdentities entry = bind_r (normalizeNavigationEntry (Some entry)) (\<lambda>n.
     Inr (map (\<lambda>st. (ne_threadId n, ne_turnId n, ns_layerId st)) (drop 1 (ne_path n))))"

section \<open>Calls\<close>

record origin_native =
  nv_id :: jsval
  nv_parentNodeId :: jsval
  nv_invocationKey :: "string option"
  nv_sourceActionId :: jsval
  nv_presentingLayerId :: jsval

record origin_call = invocation +
  oc_presentingLayerId :: jsval
  oc_sourceNodeId :: jsval
  oc_occupancyOnly :: bool
  oc_native :: "origin_native option"

text \<open>A call of imported history with its record; \<open>ir_current\<close> is the root layer of the record's Current when it has
  one, and \<open>ir_source\<close> the source that the record froze.\<close>

record imported_record =
  ir_id :: string
  ir_lifecycle :: string
  ir_current :: "jsval option"
  ir_returnedLayerId :: jsval
  ir_currentLayerId :: jsval
  ir_source :: jv

record presentation_source =
  ps_interactionId :: jsval
  ps_nodeId :: jsval
  ps_actionId :: jsval
  ps_layerId :: jsval

record imported_call =
  im_inert :: bool
  im_threadId :: jsval
  im_sourceInteractionId :: jsval
  im_sourceActionId :: jsval
  im_sourceNodeId :: jsval
  im_presentingLayerId :: jsval
  im_resultInteractionId :: jsval
  im_presentation :: "presentation_source option"
  im_record :: "imported_record option"

record presented_origin =
  po_origin :: nav_origin
  po_label :: jv
  po_icon :: "string option"

definition origin_is :: "nav_origin \<Rightarrow> origin_kind \<Rightarrow> bool" where
  "origin_is og k \<longleftrightarrow> (case no_kind og of Some (k', _) \<Rightarrow> k' = k | None \<Rightarrow> False)"

definition origin_invocation :: "nav_origin \<Rightarrow> string" where
  "origin_invocation og = (case no_kind og of Some (_, i) \<Rightarrow> i | None \<Rightarrow> [])"

text \<open>\<open>call.record?.id === identity.invocationId && identity.invocationKey === call.record.id\<close>.\<close>

definition record_matches :: "nav_origin \<Rightarrow> imported_call \<Rightarrow> bool" where
  "record_matches og c \<longleftrightarrow> (case im_record c of
       None \<Rightarrow> False | Some r \<Rightarrow> ir_id r = origin_invocation og \<and> no_invocationKey og = ir_id r)"

definition result_is_current :: "jsval \<Rightarrow> imported_record \<Rightarrow> bool" where
  "result_is_current resultTurnId r \<longleftrightarrow> js_String resultTurnId = ''current:'' @ ir_id r"

text \<open>The filters of the three kinds of calls, and that of a draft source.\<close>

definition draft_call_matches :: "nav_origin \<Rightarrow> jsval \<Rightarrow> imported_call \<Rightarrow> bool" where
  "draft_call_matches og resultTurnId c \<longleftrightarrow>
     im_inert c \<and> sameId (im_threadId c) (JStr (ne_threadId (no_sourceEntry og))) \<and> record_matches og c
     \<and> (case im_presentation c of None \<Rightarrow> False | Some p \<Rightarrow>
          sameId (ps_interactionId p) (JStr (ne_turnId (no_sourceEntry og))) \<and> sameId (ps_nodeId p) (JStr (no_sourceNodeId og))
          \<and> sameId (ps_actionId p) (JStr (no_actionId og)) \<and> sameId (ps_layerId p) (JStr (no_presentingLayerId og)))
     \<and> (case im_record c of None \<Rightarrow> False | Some r \<Rightarrow>
          if ir_lifecycle r = ''succeeded'' \<and> \<not> is_nullish (im_resultInteractionId c)
          then sameId (im_resultInteractionId c) resultTurnId
          else result_is_current resultTurnId r \<and> ir_current r \<noteq> None)"

definition imported_call_matches :: "nav_origin \<Rightarrow> jsval \<Rightarrow> imported_call \<Rightarrow> bool" where
  "imported_call_matches og resultTurnId c \<longleftrightarrow>
     im_inert c \<and> sameId (im_threadId c) (JStr (ne_threadId (no_sourceEntry og)))
     \<and> sameId (im_sourceInteractionId c) (JStr (ne_turnId (no_sourceEntry og)))
     \<and> sameId (im_sourceActionId c) (JStr (no_actionId og)) \<and> sameId (im_sourceNodeId c) (JStr (no_sourceNodeId og))
     \<and> sameId (im_presentingLayerId c) (JStr (no_presentingLayerId og)) \<and> record_matches og c
     \<and> (case im_record c of None \<Rightarrow> False | Some r \<Rightarrow>
          if ir_lifecycle r = ''succeeded''
          then sameId (im_resultInteractionId c) resultTurnId
             \<or> (is_nullish (im_resultInteractionId c) \<and> result_is_current resultTurnId r
                \<and> \<not> is_nullish (ir_returnedLayerId r) \<and> ir_current r = Some (ir_returnedLayerId r)
                \<and> ir_currentLayerId r = ir_returnedLayerId r)
          else result_is_current resultTurnId r \<and> ir_current r \<noteq> None)"

definition graph_call_matches :: "nav_origin \<Rightarrow> jsval \<Rightarrow> origin_call \<Rightarrow> bool" where
  "graph_call_matches og resultTurnId c \<longleftrightarrow>
     iv_graphOnly c \<and> \<not> oc_occupancyOnly c
     \<and> sameId (iv_sourceInteractionId c) (JStr (ne_turnId (no_sourceEntry og)))
     \<and> sameId (iv_actionId c) (JStr (no_actionId og)) \<and> iv_invocationKey c = Some (no_invocationKey og)
     \<and> sameId (oc_presentingLayerId c) (JStr (no_presentingLayerId og))
     \<and> (case oc_native c of None \<Rightarrow> False | Some n \<Rightarrow>
          sameId (nv_id n) (JStr (origin_invocation og)) \<and> sameId (nv_parentNodeId n) (JStr (no_sourceNodeId og))
          \<and> nv_invocationKey n = Some (no_invocationKey og) \<and> sameId (nv_sourceActionId n) (JStr (no_actionId og))
          \<and> sameId (nv_presentingLayerId n) (JStr (no_presentingLayerId og)))
     \<and> js_String resultTurnId = ''native-current:'' @ origin_invocation og"

definition product_call_matches :: "nav_origin \<Rightarrow> jsval \<Rightarrow> origin_call \<Rightarrow> bool" where
  "product_call_matches og resultTurnId c \<longleftrightarrow>
     iv_durable c = Some True \<and> iv_preparationRejected c \<noteq> Some True
     \<and> sameId (iv_sourceInteractionId c) (JStr (ne_turnId (no_sourceEntry og)))
     \<and> sameId (iv_actionId c) (JStr (no_actionId og)) \<and> iv_invocationKey c = Some (no_invocationKey og)
     \<and> sameId (oc_presentingLayerId c) (JStr (no_presentingLayerId og))
     \<and> sameId (iv_resultInteractionId c) resultTurnId
     \<and> (is_nullish (oc_sourceNodeId c) \<or> sameId (oc_sourceNodeId c) (JStr (no_sourceNodeId og)))"

text \<open>The root layer of \<open>inertInvocationSource\<close>, as JSON: an undefined property does not show.\<close>

definition json_fields :: "(string \<times> jv) list \<Rightarrow> (string \<times> jv) list" where
  "json_fields fs = filter (\<lambda>(k, v). v \<noteq> VUndef) fs"

definition inert_root_layer :: "string \<Rightarrow> jv \<Rightarrow> jv" where
  "inert_root_layer callId source =
     (let f = (\<lambda>k. jv_get source k); nodeId = f ''parentNodeId'';
          node = VObj (json_fields [(''id'', nodeId), (''kind'', VStr ''concept''), (''icon'', VStr ''box''),
             (''title'', f ''parentTitle''), (''detail'', f ''parentDetail''), (''state'', VStr ''draft'')]);
          action = VObj (json_fields ([(''id'', f ''actionId''), (''sourceNodeId'', nodeId), (''kind'', VStr ''invoke''),
             (''label'', f ''label''), (''interactionText'', f ''instruction''), (''description'', f ''description''),
             (''icon'', f ''icon''), (''variant'', f ''variant''), (''state'', f ''state''), (''inputActionIds'', f ''inputActionIds'')]
             @ (if f ''reusable'' = VUndef \<or> f ''reusable'' = VNull then [] else [(''reusable'', f ''reusable'')])));
          layer = VObj [(''id'', VStr (''source-layer:'' @ callId)), (''nodes'', VArr [nodeId]), (''edges'', VArr []),
             (''defaultNodeId'', nodeId),
             (''layout'', VObj [(''version'', VNum (NInt 1)),
                (''placements'', VArr [VObj [(''nodeId'', nodeId), (''x'', VNum NOther), (''y'', VNum NOther)]])]),
             (''state'', VStr ''draft'')] in
      VObj [(''layer'', layer), (''nodes'', VArr [node]), (''edges'', VArr []), (''actions'', VArr [action])])"

definition source_node :: "graph_layer \<Rightarrow> nav_origin \<Rightarrow> graph_node option" where
  "source_node layer og =
     find (\<lambda>n. sameId (gn_id n) (JStr (no_sourceNodeId og)) \<and> gn_state n = Some ''accepted'') (gl_nodes layer)"

definition source_action :: "graph_layer \<Rightarrow> nav_origin \<Rightarrow> graph_action option" where
  "source_action layer og =
     find (\<lambda>a. sameId (ga_id a) (JStr (no_actionId og)) \<and> sameId (ga_sourceNodeId a) (JStr (no_sourceNodeId og))
             \<and> ga_kind a = InvokeAction \<and> ga_state a = Some ''accepted'') (gl_actions layer)"

text \<open>How many calls fit, by the kind of the origin.\<close>

definition matching_calls :: "nav_origin \<Rightarrow> jsval \<Rightarrow> origin_call list \<Rightarrow> imported_call list \<Rightarrow> nat" where
  "matching_calls og resultTurnId calls imported =
     (if origin_is og Imported then length (filter (imported_call_matches og resultTurnId) imported)
      else if origin_is og Graph then length (filter (graph_call_matches og resultTurnId) calls)
      else length (filter (product_call_matches og resultTurnId) calls))"

definition draft_origin :: "(graph_layer \<Rightarrow> jv) \<Rightarrow> nav_origin \<Rightarrow> graph_layer \<Rightarrow> jsval \<Rightarrow> imported_call list \<Rightarrow> presented_origin option" where
  "draft_origin layerJson og layer resultTurnId imported =
     (case filter (draft_call_matches og resultTurnId) imported of
        [c] \<Rightarrow> (case im_record c of
            None \<Rightarrow> None
          | Some r \<Rightarrow>
              if layerJson layer \<noteq> inert_root_layer (ir_id r) (ir_source r) then None
              else Some \<lparr>po_origin = og, po_label = jv_get (ir_source r) ''parentTitle'', po_icon = Some ''box''\<rparr>)
      | _ \<Rightarrow> None)"

definition node_title :: "graph_node \<Rightarrow> jv" where
  "node_title n = (case gn_title n of None \<Rightarrow> VUndef | Some t \<Rightarrow> VStr t)"

definition accepted_origin :: "nav_origin \<Rightarrow> graph_layer \<Rightarrow> jsval \<Rightarrow> origin_call list \<Rightarrow> imported_call list \<Rightarrow> presented_origin option" where
  "accepted_origin og layer resultTurnId calls imported =
     (if gl_state layer \<noteq> Some ''accepted'' then None
      else case (source_node layer og, source_action layer og) of
        (Some node, Some action) \<Rightarrow>
          if matching_calls og resultTurnId calls imported \<noteq> 1 then None
          else Some \<lparr>po_origin = og, po_label = node_title node,
                 po_icon = (case gn_icon node of None \<Rightarrow> gn_relayerIcon node | Some i \<Rightarrow> Some i)\<rparr>
      | _ \<Rightarrow> None)"

definition opt_id :: "string option \<Rightarrow> jsval" where
  "opt_id s = (case s of None \<Rightarrow> JNull | Some x \<Rightarrow> JStr x)"

definition invocationOriginForSource ::
  "(graph_layer \<Rightarrow> jv) \<Rightarrow> raw_origin option \<Rightarrow> graph_layer option \<Rightarrow> origin_call list \<Rightarrow> jsval \<Rightarrow> imported_call list
   \<Rightarrow> presented_origin option" where
  "invocationOriginForSource layerJson origin sourceLayer calls resultTurnId imported =
     (case normalizeInvocationOrigin origin
         (case Option.bind origin ro_sourceEntry of None \<Rightarrow> JUndef | Some e \<Rightarrow> re_threadId e) of
        Inl _ \<Rightarrow> None
      | Inr None \<Rightarrow> None
      | Inr (Some og) \<Rightarrow>
          (case sourceLayer of
             None \<Rightarrow> None
           | Some layer \<Rightarrow>
               if is_nullish resultTurnId \<or> sameId resultTurnId (JStr (ne_turnId (no_sourceEntry og)))
                  \<or> \<not> sameId (opt_id (ne_selectedNodeId (no_sourceEntry og))) (JStr (no_sourceNodeId og))
                  \<or> \<not> sameId (gl_id layer) (JStr (no_presentingLayerId og))
               then None
               else if origin_is og Imported \<and> gl_state layer = Some ''draft''
               then draft_origin layerJson og layer resultTurnId imported
               else accepted_origin og layer resultTurnId calls imported))"

section \<open>Labels of destinations\<close>

record nav_thread = thread +
  th_title :: "string option"

record destination_metadata =
  dm_threadTitle :: string
  dm_turnNumber :: "nat option"
  dm_layerLabel :: string

fun index_from :: "('a \<Rightarrow> bool) \<Rightarrow> nat \<Rightarrow> 'a list \<Rightarrow> nat option" where
  "index_from P n [] = None"
| "index_from P n (x # xs) = (if P x then Some n else index_from P (Suc n) xs)"

definition navigationDestinationMetadata ::
  "nav_thread option \<Rightarrow> interaction \<Rightarrow> interaction list \<Rightarrow> path_entry list \<Rightarrow> destination_metadata" where
  "navigationDestinationMetadata th i its path =
     \<lparr>dm_threadTitle = str_or (Option.bind th th_title) ''Thread'',
      dm_turnNumber = index_from (\<lambda>c. sameId (it_id c) (it_id i)) 1 its,
      dm_layerLabel = (if path = [] then ''Response'' else str_or (Some (px_label (last path))) ''Response'')\<rparr>"

fun join_parts :: "string \<Rightarrow> string list \<Rightarrow> string" where
  "join_parts d [] = []"
| "join_parts d [s] = s"
| "join_parts d (s # ss) = s @ d @ join_parts d ss"

text \<open>The separator is the middle dot, code point 183, between spaces.\<close>

definition part_separator :: string where
  "part_separator = [CHR '' '', char_of (183 :: nat), CHR '' '']"

definition navigationDestinationLabel :: "string \<Rightarrow> destination_metadata option \<Rightarrow> string" where
  "navigationDestinationLabel direction metadata =
     (let prefix = (if direction = ''forward'' then ''Forward'' else ''Back'') in
      case metadata of
        None \<Rightarrow> prefix
      | Some m \<Rightarrow> prefix @ '' to '' @ join_parts part_separator
          ([dm_threadTitle m] @ (case dm_turnNumber m of None \<Rightarrow> [] | Some n \<Rightarrow> [''Turn '' @ show_nat n])
             @ (if dm_layerLabel m = [] then [] else [dm_layerLabel m])))"

text \<open>The search parameters of the URL that shows a presentation, in the order of the URL.\<close>

definition workspaceUrlForPresentation :: "(string, string) jsmap \<Rightarrow> jsval \<Rightarrow> jsval \<Rightarrow> (string, string) jsmap" where
  "workspaceUrlForPresentation params threadId turnId =
     (let p1 = (if is_nullish threadId then map_delete params ''threadId'' else map_set params ''threadId'' (js_String threadId)) in
      if is_nullish turnId then map_delete p1 ''interactionId'' else map_set p1 ''interactionId'' (js_String turnId))"

section \<open>Resolving an entry\<close>

text \<open>What \<open>loadThread\<close> resolves to.\<close>

record thread_detail =
  dt_thread :: "nav_thread option"
  dt_interactions :: "interaction list option"
  dt_actionInvocations :: "origin_call list option"
  dt_inventoryAvailable :: bool
  dt_importedHistory :: "imported_call list option"
  dt_approvals :: "approval_row list option"

record layer_identity =
  li_threadId :: string
  li_turnId :: string
  li_layerId :: jsval

definition validateResolvedLayer :: "layer_identity \<Rightarrow> graph_layer option \<Rightarrow> graph_layer result" where
  "validateResolvedLayer identity' layer = (case layer of
       Some l \<Rightarrow> if sameId (gl_id l) (li_layerId identity') then Inr l
                 else Inl (Error (''Navigation history layer response did not match requested layer: ''
                        @ js_String (li_layerId identity')))
     | None \<Rightarrow> Inl (Error (''Navigation history layer response did not match requested layer: ''
                  @ js_String (li_layerId identity'))))"

text \<open>\<open>loadLayer\<close> through the cache or not: the layer it resolves to, or its error. The second component of the result is
  the identities dropped from the cache.\<close>

definition loadAcceptedLayer ::
  "(layer_identity \<Rightarrow> graph_layer option result) \<Rightarrow> nav_base \<Rightarrow> jsval \<Rightarrow> bool \<Rightarrow> graph_layer result \<times> layer_identity list" where
  "loadAcceptedLayer loadLayer n layerId requireAccepted =
     (let identity' = \<lparr>li_threadId = ne_threadId n, li_turnId = ne_turnId n, li_layerId = layerId\<rparr> in
      case bind_r (loadLayer identity') (validateResolvedLayer identity') of
        Inl e \<Rightarrow> (Inl e, [])
      | Inr l \<Rightarrow> if requireAccepted \<and> gl_state l \<noteq> Some ''accepted''
                 then (Inl (Error ''Navigation history Current Layer is not accepted.''), [identity'])
                 else (Inr l, []))"

record presentation =
  pr_entry :: "nav_entry option"
  pr_thread :: nav_thread
  pr_interactions :: "interaction list"
  pr_actionInvocations :: "origin_call list"
  pr_inventoryAvailable :: bool
  pr_importedHistory :: "imported_call list"
  pr_approvals :: "approval_row list"
  pr_interaction :: interaction
  pr_layer :: "graph_layer option"
  pr_layerPath :: "path_entry list"
  pr_selectedNodeId :: "string option"
  pr_origin :: "presented_origin option"
  pr_metadata :: destination_metadata

text \<open>The thread and the turn of an entry.\<close>

definition find_turn :: "thread_detail \<Rightarrow> nav_base \<Rightarrow> (nav_thread \<times> interaction list \<times> interaction) result" where
  "find_turn detail n =
     (case dt_thread detail of
        Some th \<Rightarrow>
          if \<not> sameId (th_id th) (JStr (ne_threadId n))
          then Inl (Error (''Navigation history thread is unavailable: '' @ ne_threadId n))
          else (let its = (case dt_interactions detail of None \<Rightarrow> [] | Some x \<Rightarrow> x) in
            case find (\<lambda>i. sameId (it_id i) (JStr (ne_turnId n))) its of
              None \<Rightarrow> Inl (Error (''Navigation history turn is unavailable: '' @ ne_turnId n))
            | Some i \<Rightarrow> Inr (th, its, i))
      | None \<Rightarrow> Inl (Error (''Navigation history thread is unavailable: '' @ ne_threadId n)))"

definition interaction_root :: "interaction \<Rightarrow> graph_layer option" where
  "interaction_root i = Option.bind (it_output i) co_rootLayer"

definition opt_layer_id :: "graph_layer option \<Rightarrow> jsval" where
  "opt_layer_id l = (case l of None \<Rightarrow> JUndef | Some x \<Rightarrow> gl_id x)"

text \<open>The interaction whose root the path starts at: the turn's own, or, for an entry of a running Current, one with
  the Current layer as its root.\<close>

definition restoration_interaction ::
  "(layer_identity \<Rightarrow> graph_layer option result) \<Rightarrow> nav_base \<Rightarrow> interaction \<Rightarrow> interaction result \<times> layer_identity list" where
  "restoration_interaction loadLayer n i =
     (case (ne_temporal n, ne_path n) of
        (Some t, st # _) \<Rightarrow>
          if sameId (opt_layer_id (interaction_root i)) (JStr (ns_layerId st)) then (Inr i, [])
          else if \<not> sameId (JStr (nt_completionId t)) (it_graphNodeId i)
          then (Inl (Error ''Navigation history Current identity is unavailable.''), [])
          else (case loadAcceptedLayer loadLayer n (JStr (ns_layerId st)) True of
              (Inl e, dropped) \<Rightarrow> (Inl e, dropped)
            | (Inr l, dropped) \<Rightarrow> (Inr (i\<lparr>it_output := Some \<lparr>co_rootLayer = Some l, co_rootAction = None\<rparr>\<rparr>), dropped))
      | _ \<Rightarrow> (Inr i, []))"

definition path_steps :: "nav_step list \<Rightarrow> nav_path_step list" where
  "path_steps = map (\<lambda>st. \<lparr>np_layerId = JStr (ns_layerId st), np_viaActionId = opt_id (ns_viaActionId st)\<rparr>)"

text \<open>The visible layer and the path.\<close>

definition restore_view ::
  "(layer_identity \<Rightarrow> graph_layer option result) \<Rightarrow> thread_detail \<Rightarrow> interaction list \<Rightarrow> nav_base \<Rightarrow> interaction
   \<Rightarrow> (graph_layer option \<times> path_entry list) result" where
  "restore_view loadLayer detail its n i =
     (if ne_path n = [] then Inr (interaction_root i, layerPathForVisibleLayer [] (Some i) (interaction_root i))
      else bind_r (restoreLayerPath (\<lambda>layerId. fst (loadAcceptedLayer loadLayer n layerId False))
             (map invocation.truncate (case dt_actionInvocations detail of None \<Rightarrow> [] | Some cs \<Rightarrow> cs)) its (Some i)
             (Some (path_steps (ne_path n))))
           (\<lambda>r. case r of
              None \<Rightarrow> Inl (Error ''Navigation history layer path is no longer available.'')
            | Some (l, path) \<Rightarrow> Inr (Some l, path)))"

definition check_selected :: "nav_base \<Rightarrow> graph_layer option \<Rightarrow> unit result" where
  "check_selected n layer = (case ne_selectedNodeId n of
       None \<Rightarrow> Inr ()
     | Some s \<Rightarrow>
         if (case layer of None \<Rightarrow> False | Some l \<Rightarrow> list_ex (\<lambda>nd. sameId (gn_id nd) (JStr s)) (gl_nodes l)) then Inr ()
         else Inl (Error (''Navigation history node is unavailable: '' @ s)))"

text \<open>The resolution of a normalized entry but for the origin's call.\<close>

definition resolve_base ::
  "(string \<Rightarrow> thread_detail result) \<Rightarrow> (layer_identity \<Rightarrow> graph_layer option result) \<Rightarrow> nav_base \<Rightarrow> nav_origin option
   \<Rightarrow> (thread_detail \<times> presentation) result \<times> layer_identity list" where
  "resolve_base loadThread loadLayer n origin =
     (case bind_r (loadThread (ne_threadId n)) (\<lambda>detail. bind_r (find_turn detail n) (\<lambda>(th, its, i). Inr (detail, th, its, i))) of
        Inl e \<Rightarrow> (Inl e, [])
      | Inr (detail, th, its, i) \<Rightarrow>
          (case restoration_interaction loadLayer n i of
             (Inl e, dropped) \<Rightarrow> (Inl e, dropped)
           | (Inr ri, dropped) \<Rightarrow>
               (bind_r (restore_view loadLayer detail its n ri) (\<lambda>(layer, path).
                bind_r (check_selected n layer) (\<lambda>_.
                bind_r (navigationEntryFromView (JStr (ne_threadId n)) (JStr (ne_turnId n)) path (raw_opt (ne_selectedNodeId n))
                          (map_option raw_of_temporal (ne_temporal n)) (map_option raw_of_origin origin)) (\<lambda>entry.
                Inr (detail,
                  \<lparr>pr_entry = entry, pr_thread = th, pr_interactions = its,
                   pr_actionInvocations = (case dt_actionInvocations detail of None \<Rightarrow> [] | Some cs \<Rightarrow> cs),
                   pr_inventoryAvailable = dt_inventoryAvailable detail,
                   pr_importedHistory = (case dt_importedHistory detail of None \<Rightarrow> [] | Some h \<Rightarrow> h),
                   pr_approvals = (case dt_approvals detail of None \<Rightarrow> [] | Some a \<Rightarrow> a),
                   pr_interaction = i, pr_layer = layer, pr_layerPath = path, pr_selectedNodeId = ne_selectedNodeId n,
                   pr_origin = None,
                   pr_metadata = navigationDestinationMetadata (Some th) i its path\<rparr>)))), dropped)))"

text \<open>The whole: an entry with an origin is presented with the call that the origin names, which is looked for in the
  entry's own thread, at the layer that presents the source entry.\<close>

definition resolveNavigationPresentation ::
  "(graph_layer \<Rightarrow> jv) \<Rightarrow> (nat \<Rightarrow> string \<Rightarrow> thread_detail result) \<Rightarrow> (layer_identity \<Rightarrow> graph_layer option result) \<Rightarrow> raw_entry
   \<Rightarrow> presentation result \<times> layer_identity list" where
  "resolveNavigationPresentation layerJson loadThread loadLayer entry =
     (case normalizeNavigationEntry (Some entry) of
        Inl e \<Rightarrow> (Inl e, [])
      | Inr n \<Rightarrow>
          (case resolve_base (loadThread 0) loadLayer (nav_base.truncate n) (ne_origin n) of
             (Inl e, dropped) \<Rightarrow> (Inl e, dropped)
           | (Inr (detail, p), dropped) \<Rightarrow>
               (case ne_origin n of
                  None \<Rightarrow> (Inr p, dropped)
                | Some og \<Rightarrow>
                    (case resolve_base (loadThread 1) loadLayer (no_sourceEntry og) None of
                       (Inl e, dropped') \<Rightarrow> (Inl e, dropped @ dropped')
                     | (Inr (_, src), dropped') \<Rightarrow>
                         (case invocationOriginForSource layerJson (Some (raw_of_origin og)) (pr_layer src)
                                 (case dt_actionInvocations detail of None \<Rightarrow> [] | Some cs \<Rightarrow> cs) (JStr (ne_turnId n))
                                 (case dt_importedHistory detail of None \<Rightarrow> [] | Some h \<Rightarrow> h) of
                            None \<Rightarrow> (Inl (Error ''Invocation origin source or exact call is no longer available.''), dropped @ dropped')
                          | Some o' \<Rightarrow> (Inr (p\<lparr>pr_origin := Some o'\<rparr>), dropped @ dropped'))))))"

section \<open>What is presented\<close>

lemma restore_steps_actions:
  assumes "restore_steps loadLayer invs its layer path steps = Inr (Some (l, path'))"
  shows "\<exists>es. path' = path @ es \<and> list_all2 (\<lambda>e st. sameId (px_actionId e) (np_viaActionId st)) es steps"
  using assms
proof (induction steps arbitrary: layer path)
  case (Cons st steps)
  define action where "action = step_action layer st"
  define node where "node = step_node layer action"
  define res where "res = step_result invs its layer action node"
  from Cons.prems obtain layer' where leads: "step_leads action res (np_layerId st)"
      and rest: "restore_steps loadLayer invs its layer' (appendLayerPath path action node res) steps = Inr (Some (l, path'))"
    by (auto simp: Let_def bind_r_Inr_iff action_def node_def res_def split: if_splits)
  obtain e where e: "path_step action node res = Some e" using step_leads_path [OF leads [unfolded res_def]] by (auto simp: res_def)
  obtain a where a: "action = Some a" using leads by (auto simp: step_leads_def split: option.splits)
  have "sameId (ga_id a) (np_viaActionId st)" using a by (auto simp: action_def step_action_def find_Some_iff)
  then have via: "sameId (px_actionId e) (np_viaActionId st)"
    using e a by (auto simp: path_step_def Let_def nullish_or_def sameId_def split: if_splits)
  from Cons.IH [OF rest] obtain es where "path' = path @ e # es"
      "list_all2 (\<lambda>e st. sameId (px_actionId e) (np_viaActionId st)) es steps" by (auto simp: appendLayerPath_def e)
  then show ?case using via by (intro exI [of _ "e # es"]) simp
qed simp

lemma loadAcceptedLayer_id: "fst (loadAcceptedLayer loadLayer n layerId req) = Inr l \<Longrightarrow> sameId (gl_id l) layerId"
  by (auto simp: loadAcceptedLayer_def Let_def bind_r_Inr_iff split: sum.splits if_splits)
    (auto simp: validateResolvedLayer_def split: option.splits if_splits)

definition step_layers :: "nav_step list \<Rightarrow> string list" where
  "step_layers = map ns_layerId"

text \<open>The restored path retraces the entry's path: its layers, and from the second step on its actions.\<close>

lemma restore_view_path:
  assumes "restore_view loadLayer detail its n i = Inr (layer, path)" "ne_path n \<noteq> []"
  shows "list_all2 (\<lambda>e st. sameId (px_layerId e) (JStr (ns_layerId st))) path (ne_path n)
    \<and> list_all2 (\<lambda>e st. sameId (px_actionId e) (opt_id (ns_viaActionId st))) (tl path) (tl (ne_path n))
    \<and> (\<exists>l. layer = Some l \<and> sameId (gl_id l) (JStr (ns_layerId (last (ne_path n)))))"
proof -
  obtain st sts where p: "ne_path n = st # sts" using assms(2) by (cases "ne_path n") auto
  let ?load = "\<lambda>layerId. fst (loadAcceptedLayer loadLayer n layerId False)"
  let ?invs = "map invocation.truncate (case dt_actionInvocations detail of None \<Rightarrow> [] | Some cs \<Rightarrow> cs)"
  obtain l where l: "layer = Some l" "restoreLayerPath ?load ?invs its (Some i) (Some (path_steps (ne_path n))) = Inr (Some (l, path))"
    using assms by (auto simp: restore_view_def bind_r_Inr_iff split: option.splits)
  then obtain root where r: "Option.bind (it_output i) co_rootLayer = Some root" "rootLayerPath (Some i) \<noteq> []"
      "sameId (JStr (ns_layerId st)) (gl_id root)"
      "restore_steps ?load ?invs its root (rootLayerPath (Some i)) (path_steps sts) = Inr (Some (l, path))"
    by (auto simp: restoreLayerPath_def Let_def p path_steps_def split: option.splits list.splits if_splits)
  then obtain e where e: "rootLayerPath (Some i) = [e]" "px_layerId e = gl_id root"
    using r(1) by (auto simp: rootLayerPath_def Let_def split: if_splits option.splits)
  obtain es where es: "path = e # es" "list_all2 (\<lambda>e st. sameId (px_layerId e) (np_layerId st)) es (path_steps sts)"
      "if path_steps sts = [] then l = root else ?load (np_layerId (last (path_steps sts))) = Inr l"
    using restore_steps_trace [OF r(4)] by (auto simp: e(1))
  have vias: "list_all2 (\<lambda>e st. sameId (px_actionId e) (np_viaActionId st)) es (path_steps sts)"
    using restore_steps_actions [OF r(4)] es(1) by (auto simp: e(1))
  have "sameId (gl_id l) (JStr (ns_layerId (last (ne_path n))))"
  proof (cases "sts = []")
    case True
    then show ?thesis using es(3) sameId_sym [OF r(3)] by (simp add: p path_steps_def)
  next
    case False
    then have "?load (JStr (ns_layerId (last sts))) = Inr l" using es(3) by (simp add: path_steps_def last_map)
    from loadAcceptedLayer_id [OF this] show ?thesis using False by (simp add: p)
  qed
  then show ?thesis using es(1,2) vias sameId_sym [OF r(3)] e(2) l(1)
    by (simp add: p path_steps_def list_all2_map2)
qed

lemma normalizeStep_fields:
  "normalizeStep k x = Inr y \<Longrightarrow> ns_layerId y = js_String (rs_layerId x) \<and> ns_viaActionId y = optionalId (rs_viaActionId x)"
  by (auto simp: normalizeStep_def bind_r_Inr_iff)

lemma raw_steps_layers:
  assumes "normalizePath (Some (raw_steps path)) = Inr steps"
  shows "map ns_layerId steps = map (\<lambda>e. js_String (px_layerId e)) path
    \<and> map ns_viaActionId steps = map (\<lambda>e. optionalId (nullish_or (px_actionId e) JNull)) path"
proof -
  have "list_all2 (\<lambda>x y. normalizeStep (fst x) (snd x) = Inr y) (enumerate 0 (raw_steps path)) steps"
    using assms by (simp add: normalizePath_def map_r_Inr_iff case_prod_beta)
  then have len: "length steps = length path"
    and nth: "\<forall>k < length path. normalizeStep k (raw_steps path ! k) = Inr (steps ! k)"
    by (auto simp: list_all2_conv_all_nth nth_enumerate_eq raw_steps_def)
  have "ns_layerId (steps ! k) = js_String (px_layerId (path ! k))
      \<and> ns_viaActionId (steps ! k) = optionalId (nullish_or (px_actionId (path ! k)) JNull)" if "k < length path" for k
    using normalizeStep_fields nth that by (force simp: raw_steps_def)
  then show ?thesis using len by (intro conjI nth_equalityI) simp_all
qed

lemma list_all2_map_eq: "list_all2 P xs ys \<Longrightarrow> (\<And>x y. P x y \<Longrightarrow> f x = g y) \<Longrightarrow> map f xs = map g ys"
  by (induction rule: list_all2_induct) auto

lemma optionalId_same: "sameId a (opt_id v) \<Longrightarrow> optionalId (nullish_or a JNull) = v"
  by (cases v) (auto simp: opt_id_def optionalId_def nullish_or_def sameId_def)

lemma restored_steps:
  assumes "normalizePath (Some (raw_steps path)) = Inr steps"
    "list_all2 (\<lambda>e st. sameId (px_layerId e) (JStr (ns_layerId st))) path sts"
    "list_all2 (\<lambda>e st. sameId (px_actionId e) (opt_id (ns_viaActionId st))) (tl path) (tl sts)"
  shows "map ns_layerId steps = map ns_layerId sts \<and> map ns_viaActionId (tl steps) = map ns_viaActionId (tl sts)"
proof -
  note s = raw_steps_layers [OF assms(1)]
  have "map (\<lambda>e. js_String (px_layerId e)) path = map ns_layerId sts"
    by (rule list_all2_map_eq [OF assms(2)]) (simp add: sameId_def)
  moreover have "map (\<lambda>e. optionalId (nullish_or (px_actionId e) JNull)) (tl path) = map ns_viaActionId (tl sts)"
    by (rule list_all2_map_eq [OF assms(3)]) (rule optionalId_same)
  ultimately show ?thesis using s by (simp add: map_tl)
qed

text \<open>The entry of the view of a normalized entry.\<close>

lemma view_entry:
  assumes norm: "normalizeNavigationEntry (Some (raw_of_entry n)) = Inr n"
    and view: "navigationEntryFromView (JStr (ne_threadId n)) (JStr (ne_turnId n)) path (raw_opt (ne_selectedNodeId n))
        (map_option raw_of_temporal (ne_temporal n)) (map_option raw_of_origin (ne_origin n)) = Inr eo"
  shows "\<exists>e. eo = Some e \<and> ne_threadId e = ne_threadId n \<and> ne_turnId e = ne_turnId n \<and> ne_selectedNodeId e = ne_selectedNodeId n
    \<and> ne_temporal e = ne_temporal n \<and> ne_origin e = ne_origin n \<and> normalizePath (Some (raw_steps path)) = Inr (ne_path e)"
proof -
  have o: "normalizeInvocationOrigin (map_option raw_of_origin (ne_origin n)) (JStr (ne_threadId n)) = Inr (ne_origin n)"
    and t: "normalizeTemporalCurrent (map_option raw_of_temporal (ne_temporal n)) = Inr (ne_temporal n)"
    using norm by (cases n; auto simp: normalizeNavigationEntry_def raw_of_entry_def bind_r_Inr_iff normalizeBase_Inr)+
  show ?thesis using view o t
    by (auto simp: navigationEntryFromView_def normalizeNavigationEntry_def bind_r_Inr_iff normalizeBase_Inr)
qed

definition presents :: "nav_entry \<Rightarrow> presentation \<Rightarrow> bool" where
  "presents n p \<longleftrightarrow>
     (\<exists>e. pr_entry p = Some e \<and> ne_threadId e = ne_threadId n \<and> ne_turnId e = ne_turnId n
        \<and> ne_selectedNodeId e = ne_selectedNodeId n \<and> ne_temporal e = ne_temporal n \<and> ne_origin e = ne_origin n
        \<and> (ne_path n \<noteq> [] \<longrightarrow> map ns_layerId (ne_path e) = map ns_layerId (ne_path n)
             \<and> map ns_viaActionId (tl (ne_path e)) = map ns_viaActionId (tl (ne_path n))))
     \<and> sameId (th_id (pr_thread p)) (JStr (ne_threadId n)) \<and> pr_interaction p \<in> set (pr_interactions p)
     \<and> sameId (it_id (pr_interaction p)) (JStr (ne_turnId n))
     \<and> (ne_path n \<noteq> [] \<longrightarrow> (\<exists>l. pr_layer p = Some l \<and> sameId (gl_id l) (JStr (ns_layerId (last (ne_path n))))))
     \<and> (\<forall>s. ne_selectedNodeId n = Some s \<longrightarrow>
          (\<exists>l nd. pr_layer p = Some l \<and> nd \<in> set (gl_nodes l) \<and> sameId (gn_id nd) (JStr s)))"

lemma truncate_fields [simp]:
  "ne_threadId (nav_base.truncate n) = ne_threadId n" "ne_turnId (nav_base.truncate n) = ne_turnId n"
  "ne_path (nav_base.truncate n) = ne_path n" "ne_selectedNodeId (nav_base.truncate n) = ne_selectedNodeId n"
  "ne_temporal (nav_base.truncate n) = ne_temporal n"
  by (simp_all add: nav_base.truncate_def)

lemma resolve_base_presents:
  assumes norm: "normalizeNavigationEntry (Some (raw_of_entry n)) = Inr n"
    and res: "resolve_base loadThread loadLayer (nav_base.truncate n) (ne_origin n) = (Inr (detail, p), dropped)"
  shows "presents n p"
proof -
  obtain th its i ri layer path entry where r:
    "find_turn detail (nav_base.truncate n) = Inr (th, its, i)"
    "restore_view loadLayer detail its (nav_base.truncate n) ri = Inr (layer, path)"
    "check_selected (nav_base.truncate n) layer = Inr ()"
    "navigationEntryFromView (JStr (ne_threadId n)) (JStr (ne_turnId n)) path (raw_opt (ne_selectedNodeId n))
        (map_option raw_of_temporal (ne_temporal n)) (map_option raw_of_origin (ne_origin n)) = Inr entry"
    and p: "pr_entry p = entry" "pr_thread p = th" "pr_interactions p = its" "pr_interaction p = i" "pr_layer p = layer"
    using res by (auto simp: resolve_base_def bind_r_Inr_iff split: sum.splits prod.splits)
  have turn: "sameId (th_id th) (JStr (ne_threadId n))" "i \<in> set its" "sameId (it_id i) (JStr (ne_turnId n))"
    using r(1) by (auto simp: find_turn_def Let_def find_Some_iff split: option.splits if_splits)
  obtain e where e: "entry = Some e" "ne_threadId e = ne_threadId n" "ne_turnId e = ne_turnId n"
    "ne_selectedNodeId e = ne_selectedNodeId n" "ne_temporal e = ne_temporal n" "ne_origin e = ne_origin n"
    "normalizePath (Some (raw_steps path)) = Inr (ne_path e)"
    using view_entry [OF norm r(4)] by blast
  have path: "map ns_layerId (ne_path e) = map ns_layerId (ne_path n) \<and> map ns_viaActionId (tl (ne_path e)) = map ns_viaActionId (tl (ne_path n))"
    "\<exists>l. layer = Some l \<and> sameId (gl_id l) (JStr (ns_layerId (last (ne_path n))))" if "ne_path n \<noteq> []"
    using restore_view_path [OF r(2)] restored_steps [OF e(7)] that by auto
  have "\<exists>l nd. layer = Some l \<and> nd \<in> set (gl_nodes l) \<and> sameId (gn_id nd) (JStr s)" if "ne_selectedNodeId n = Some s" for s
    using r(3) that by (auto simp: check_selected_def list_ex_iff split: option.splits if_splits)
  then show ?thesis using turn e(2-6) path by (auto simp: presents_def p e(1))
qed

lemma resolve_parts:
  assumes "resolveNavigationPresentation layerJson loadThread loadLayer entry = (Inr p, dropped)"
  obtains n detail q dropped1 where "normalizeNavigationEntry (Some entry) = Inr n"
    "resolve_base (loadThread 0) loadLayer (nav_base.truncate n) (ne_origin n) = (Inr (detail, q), dropped1)"
    "ne_origin n = None \<and> p = q \<or> (\<exists>og src o'. ne_origin n = Some og \<and> p = q\<lparr>pr_origin := Some o'\<rparr>
       \<and> invocationOriginForSource layerJson (Some (raw_of_origin og)) src
           (case dt_actionInvocations detail of None \<Rightarrow> [] | Some cs \<Rightarrow> cs) (JStr (ne_turnId n))
           (case dt_importedHistory detail of None \<Rightarrow> [] | Some h \<Rightarrow> h) = Some o')"
proof -
  obtain n where n: "normalizeNavigationEntry (Some entry) = Inr n"
    using assms by (auto simp: resolveNavigationPresentation_def split: sum.splits)
  obtain r dropped1 where r: "resolve_base (loadThread 0) loadLayer (nav_base.truncate n) (ne_origin n) = (r, dropped1)" by fastforce
  then obtain detail q where q: "r = Inr (detail, q)"
    using assms n by (cases r) (auto simp: resolveNavigationPresentation_def)
  show thesis
  proof (cases "ne_origin n")
    case None
    then show ?thesis using that [OF n r [unfolded q]] assms n r q by (simp add: resolveNavigationPresentation_def)
  next
    case (Some og)
    obtain r2 dropped2 where r2: "resolve_base (loadThread 1) loadLayer (no_sourceEntry og) None = (r2, dropped2)" by fastforce
    then obtain d2 src where src: "r2 = Inr (d2, src)"
      using assms n r q Some by (cases r2) (auto simp: resolveNavigationPresentation_def)
    then obtain o' where "invocationOriginForSource layerJson (Some (raw_of_origin og)) (pr_layer src)
           (case dt_actionInvocations detail of None \<Rightarrow> [] | Some cs \<Rightarrow> cs) (JStr (ne_turnId n))
           (case dt_importedHistory detail of None \<Rightarrow> [] | Some h \<Rightarrow> h) = Some o'" "p = q\<lparr>pr_origin := Some o'\<rparr>"
      using assms n r q Some r2 by (auto simp: resolveNavigationPresentation_def split: option.splits)
    then show ?thesis using that [OF n r [unfolded q]] Some by blast
  qed
qed

lemma presents_origin [simp]: "presents n (p\<lparr>pr_origin := x\<rparr>) = presents n p"
  by (simp add: presents_def)

lemma normalized_again: "normalizeNavigationEntry (Some entry) = Inr n \<Longrightarrow> normalizeNavigationEntry (Some (raw_of_entry n)) = Inr n"
  by (rule normalizeNavigationEntry_idempotent)


text \<open>The calls that fit an origin, among those of the presentation.\<close>

definition origin_call_count :: "nav_origin \<Rightarrow> string \<Rightarrow> presentation \<Rightarrow> nat \<times> nat" where
  "origin_call_count og turn p =
     (length (filter (draft_call_matches og (JStr turn)) (pr_importedHistory p)),
      matching_calls og (JStr turn) (pr_actionInvocations p) (pr_importedHistory p))"

lemma source_origin:
  assumes "invocationOriginForSource layerJson (Some v) layer calls turn imported = Some o'"
    "normalizeInvocationOrigin (Some v) (case ro_sourceEntry v of None \<Rightarrow> JUndef | Some e \<Rightarrow> re_threadId e) = Inr (Some og)"
  shows "po_origin o' = og \<and> \<not> sameId turn (JStr (ne_turnId (no_sourceEntry og)))
    \<and> (origin_is og Imported \<and> length (filter (draft_call_matches og turn) imported) = 1
       \<or> matching_calls og turn calls imported = 1)"
proof -
  obtain l where l: "layer = Some l" "\<not> sameId turn (JStr (ne_turnId (no_sourceEntry og)))"
    "(if origin_is og Imported \<and> gl_state l = Some ''draft'' then draft_origin layerJson og l turn imported
      else accepted_origin og l turn calls imported) = Some o'"
    using assms by (auto simp: invocationOriginForSource_def split: option.splits if_splits)
  then show ?thesis
    by (auto simp: draft_origin_def accepted_origin_def split: if_splits option.splits list.splits)
qed

lemma origin_normal_form:
  assumes "normalizeNavigationEntry (Some entry) = Inr n" "ne_origin n = Some og"
  shows "normalizeInvocationOrigin (Some (raw_of_origin og))
    (case ro_sourceEntry (raw_of_origin og) of None \<Rightarrow> JUndef | Some e \<Rightarrow> re_threadId e) = Inr (Some og)"
proof -
  have o: "normalizeInvocationOrigin (Some (raw_of_origin og)) (JStr (ne_threadId n)) = Inr (Some og)"
    using normalized_again [OF assms(1)] assms(2)
    by (cases n; auto simp: normalizeNavigationEntry_def raw_of_entry_def bind_r_Inr_iff)
  then have "ne_threadId (no_sourceEntry og) = ne_threadId n"
    using normalizeNavigationEntry_ok [OF assms(1)] assms(2) by (auto simp: entry_ok_def origin_ok_def Let_def)
  with o show ?thesis by (simp add: raw_of_origin_source raw_of_base_def)
qed

text \<open>C35. The origin that a presentation names is the one of the entry, and it comes from a call that is the only one of
  the thread's calls to fit it in every identity, with this turn as its result and another turn as its source. An
  entry whose call is missing or ambiguous is not presented.\<close>

theorem origin_is_the_only_call:
  assumes "resolveNavigationPresentation layerJson loadThread loadLayer entry = (Inr p, dropped)"
    "normalizeNavigationEntry (Some entry) = Inr n" "ne_origin n = Some og"
  shows "(\<exists>o'. pr_origin p = Some o' \<and> po_origin o' = og) \<and> ne_turnId n \<noteq> ne_turnId (no_sourceEntry og)
    \<and> (origin_is og Imported \<and> fst (origin_call_count og (ne_turnId n) p) = 1 \<or> snd (origin_call_count og (ne_turnId n) p) = 1)"
proof (rule resolve_parts [OF assms(1)])
  fix n' detail q dropped1
  assume "normalizeNavigationEntry (Some entry) = Inr n'"
    and r: "resolve_base (loadThread 0) loadLayer (nav_base.truncate n') (ne_origin n') = (Inr (detail, q), dropped1)"
    and p: "ne_origin n' = None \<and> p = q \<or> (\<exists>og src o'. ne_origin n' = Some og \<and> p = q\<lparr>pr_origin := Some o'\<rparr>
       \<and> invocationOriginForSource layerJson (Some (raw_of_origin og)) src
           (case dt_actionInvocations detail of None \<Rightarrow> [] | Some cs \<Rightarrow> cs) (JStr (ne_turnId n'))
           (case dt_importedHistory detail of None \<Rightarrow> [] | Some h \<Rightarrow> h) = Some o')"
  then have n: "n' = n" using assms(2) by simp
  from p obtain src o' where o: "p = q\<lparr>pr_origin := Some o'\<rparr>"
      "invocationOriginForSource layerJson (Some (raw_of_origin og)) src
           (case dt_actionInvocations detail of None \<Rightarrow> [] | Some cs \<Rightarrow> cs) (JStr (ne_turnId n))
           (case dt_importedHistory detail of None \<Rightarrow> [] | Some h \<Rightarrow> h) = Some o'"
    using assms(3) by (auto simp: n)
  have q: "pr_actionInvocations q = (case dt_actionInvocations detail of None \<Rightarrow> [] | Some cs \<Rightarrow> cs)"
    "pr_importedHistory q = (case dt_importedHistory detail of None \<Rightarrow> [] | Some h \<Rightarrow> h)"
    using r by (auto simp: resolve_base_def bind_r_Inr_iff split: sum.splits prod.splits)
  show ?thesis using source_origin [OF o(2) origin_normal_form [OF assms(2,3)]]
    by (simp add: o(1) origin_call_count_def q)
qed

section \<open>A concrete presentation\<close>

definition demo_presenting_layer :: graph_layer where
  "demo_presenting_layer = \<lparr>gl_id = JNum 7, gl_state = Some ''accepted'',
     gl_nodes = [\<lparr>gn_id = JNum 5, gn_state = Some ''accepted'', gn_title = Some ''Plan'', gn_icon = None, gn_relayerIcon = None,
       gn_responseOwner = JUndef\<rparr>],
     gl_actions = [\<lparr>ga_id = JNum 50, ga_kind = InvokeAction, ga_sourceNodeId = JNum 5, ga_targetLayerId = JUndef,
       ga_reusable = Some True, ga_label = Some ''Run'', ga_icon = None, ga_state = Some ''accepted''\<rparr>]\<rparr>"

definition demo_presented_turn :: "int \<Rightarrow> graph_layer \<Rightarrow> interaction" where
  "demo_presented_turn i l = (bare_interaction (JNum i))\<lparr>it_output := Some \<lparr>co_rootLayer = Some l, co_rootAction = None\<rparr>\<rparr>"

definition demo_origin_call :: origin_call where
  "demo_origin_call = invocation.extend
     ((bare_invocation (JNum 2) (JNum 50) (JNum 3))\<lparr>iv_durable := Some True, iv_invocationKey := Some ''k1''\<rparr>)
     \<lparr>oc_presentingLayerId = JNum 7, oc_sourceNodeId = JNum 5, oc_occupancyOnly = False, oc_native = None\<rparr>"

definition demo_detail :: thread_detail where
  "demo_detail = \<lparr>
     dt_thread = Some \<lparr>th_id = JNum 1, th_rootInteractionId = JNull, th_rootNodeId = JNull, th_imported = False, th_title = Some ''T''\<rparr>,
     dt_interactions = Some [demo_presented_turn 2 demo_presenting_layer, demo_presented_turn 3 (demo_presenting_layer\<lparr>gl_id := JNum 9\<rparr>)],
     dt_actionInvocations = Some [demo_origin_call], dt_inventoryAvailable = True, dt_importedHistory = None, dt_approvals = None\<rparr>"

definition demo_called_entry :: raw_entry where
  "demo_called_entry = RawEntry (JNum 1) (JNum 3) (Some [\<lparr>rs_layerId = JNum 9, rs_viaActionId = JNull\<rparr>]) (JNum 5) None
     (Some (RawOrigin JUndef (Some (RawEntry (JNum 1) (JNum 2) (Some [\<lparr>rs_layerId = JNum 7, rs_viaActionId = JNull\<rparr>]) (JNum 5) None None))
        (JNum 50) (JStr ''k1'') (JNum 5) (JNum 7) JUndef))"

definition demo_presentation :: "presentation result \<times> layer_identity list" where
  "demo_presentation = resolveNavigationPresentation (\<lambda>_. VNull) (\<lambda>_ _. Inr demo_detail) (\<lambda>_. Inr None) demo_called_entry"

lemma demo_presented: "(case fst demo_presentation of Inl _ \<Rightarrow> False | Inr p \<Rightarrow> True) \<and> snd demo_presentation = []"
  by code_simp

lemma demo_presentation_run:
  "\<exists>p. resolveNavigationPresentation (\<lambda>_. VNull) (\<lambda>_ _. Inr demo_detail) (\<lambda>_. Inr None) demo_called_entry = (Inr p, [])"
  using demo_presented unfolding demo_presentation_def
  by (cases "resolveNavigationPresentation (\<lambda>_. VNull) (\<lambda>_ _. Inr demo_detail) (\<lambda>_. Inr None) demo_called_entry")
    (auto split: sum.splits)


lemma demo_called_normalizes:
  "(case normalizeNavigationEntry (Some demo_called_entry) of Inl _ \<Rightarrow> False | Inr n \<Rightarrow> ne_origin n \<noteq> None)"
  by code_simp

theorem origin_is_the_only_call_witness:
  "\<exists>p o'. fst demo_presentation = Inr p \<and> pr_origin p = Some o'"
proof -
  obtain p where p: "resolveNavigationPresentation (\<lambda>_. VNull) (\<lambda>_ _. Inr demo_detail) (\<lambda>_. Inr None) demo_called_entry = (Inr p, [])"
    using demo_presentation_run by blast
  obtain n og where n: "normalizeNavigationEntry (Some demo_called_entry) = Inr n" "ne_origin n = Some og"
    using demo_called_normalizes by (auto split: sum.splits)
  from origin_is_the_only_call [OF p n] show ?thesis by (auto simp: demo_presentation_def p)
qed

end
