(* ===== verification/Spec2Isabelle.thy ===== *)
theory Spec2Isabelle
  imports NavCache RunState WorkspaceModel ComposerDrafts FollowupRequests Approval ModelPicker Tutorial Updater
    InteractionGraphRuns ShareCoordinatorRuns ShareServiceClient OperationRecorder WorktreeController GraphLayout LayerSelection ModelFamily
    SettingsStore ModelRefresh ProviderConnection ProviderModel ModelCatalog ProviderContract NavPresentation
begin

text \<open>
  A verification library for the desktop application of Relayer GraphComplete (\<open>desktop/\<close>): the state and the
  decisions behind its renderer and its main process. The application shows threads of interactions as layers
  of graph nodes, runs actions through harnesses and providers of models, keeps what the user typed and
  selected, and publishes conversations. The code modelled here is the JavaScript that decides; the code that
  draws, the servers behind it and the Rust crates are not.

  \<^bold>\<open>How JavaScript is modelled.\<close> \<open>JsPrelude\<close> has the scalar values (\<open>jsval\<close>: an id crosses the wire as a number or
  a string, and the code compares by \<open>String(a) === String(b)\<close>, here \<open>eqId\<close>), errors as values of a sum type, numbers,
  trimming, the stable sort and the order of strings. \<open>JsCollections\<close> has \<open>Map\<close> and plain objects as association
  lists in insertion order, and the interfaces \<open>keyed_store\<close>, \<open>ordered_store\<close>, \<open>machine\<close> and \<open>token_gate\<close>, each
  interpreted by the component that provides it. \<open>JsBytes\<close> has untyped JSON values, byte arrays and base64.
  A closure is a record; an operation is a function from a state to its result and the next state; a call
  that awaits is a begin and a settle step with anything in between, and \<open>inductive\<close> relations or lists of
  operations quantify over all orders. What the platform provides is a parameter: URL parsing, digests, regular
  expressions, locale order, lower casing. Strings are lists of 8-bit characters, except where the code units
  matter (\<open>ComposerDrafts.units\<close>).

  \<^bold>\<open>The parts\<close>, each theory with the file under \<open>desktop/\<close> it models:

  \<^item> \<open>NavEntry\<close>, \<open>NavHistory\<close>, \<open>NavCache\<close> (\<open>renderer/src/navigation-history.js\<close>): the entries of the back/forward history,
    the history closure with its transitions, the cache of accepted layers with its loads in flight and its
    eviction, and the latest-request gate. Entries normalize idempotently; the history stays bounded, a stale
    transition never commits, back then forward restores; the cache evicts the oldest unprotected layer, stays
    within its limit over every order of settling loads, and an invalidated load never stores.
  \<^item> \<open>RunState\<close> (\<open>product-workspace/run-state.js\<close>, \<open>interaction-failure-model.js\<close>), \<open>ActionInvocation\<close>
    (\<open>action-invocation-state.js\<close>), \<open>WorkspaceModel\<close> (\<open>product-workspace/model.js\<close>): the activity of threads and nodes, the
    calls of an action and their recovery, and the read model of a thread: turns, projections, layer paths.
    They show that a newer row never regresses, a projection never goes back, and a restored path retraces
    the steps that led to it.
    \<open>NavPresentation\<close> (\<open>workspace-navigation.js\<close>) joins the two: it resolves a history entry against what the server still
    has, by the path restoration of the read model; what it presents is the entry, and the call it names as its
    origin is the only one that fits.
  \<^item> \<open>ProductRows\<close>: the rows of the product's API that these share.
  \<^item> \<open>InteractionGraph\<close>, \<open>InteractionGraphRuns\<close> (\<open>product-workspace/interaction-graph.js\<close>): the popover graph of a thread.
    The level loop ends on longest walks, cards never overlap, every turn is shown in exactly one place, and
    exactly one run of a restarted chain offers to resume.
  \<^item> \<open>GraphLayout\<close> (\<open>product-workspace/graph-layout.js\<close>): the placement of a layer's nodes, authored or on a grid, and
    the spreading that keeps boxes apart. \<open>LayerSelection\<close> (\<open>product-workspace/layer-selection.js\<close>): the selected node of
    each layer, a bounded memory that forgets the oldest.
  \<^item> \<open>ComposerDrafts\<close> (\<open>composer-drafts.js\<close>), \<open>FollowupRequests\<close> (\<open>interaction-request-model.js\<close>): what was typed and sent: the
    bounded drafts, the digest with 32-bit words, and the receipt of a send that stays its own over retries.
  \<^item> \<open>Approval\<close> (\<open>approval-model.js\<close>): which requests for approval a thread asks about.
  \<^item> \<open>ModelPicker\<close> (\<open>model-picker-model.js\<close>), \<open>ModelFamily\<close> (\<open>model-family-model.js\<close>): which families of models can run under
    which harness, the selection a composer starts from, and the editing and validation of families.
    \<open>ModelFamily\<close> rests on the picker's definitions, as the code does.
  \<^item> \<open>ProviderModel\<close> (\<open>provider-ui-model.js\<close>, \<open>provider-onboarding-model.js\<close>): the descriptors of providers and their normal
    form, the status of a provider and the first-run gate, the connection form, and the choices of onboarding over a
    projection that changes. \<open>ProviderConnection\<close> (the same file, and \<open>provider-settings-connection.js\<close>): the ownership of
    the one connection in progress, with attempts that overlap, and the gate of projections (a \<open>token_gate\<close>).
    \<open>ModelRefresh\<close> (\<open>model-availability-refresh.js\<close>, \<open>provider-models-refresh.js\<close>): notifications folded into refreshes,
    none of them lost.
  \<^item> \<open>ProviderCatalog\<close> (\<open>main/models/model-catalog-adapter.mjs\<close>), \<open>ModelCatalog\<close> (\<open>main/models/model-catalog-service.mjs\<close>,
    \<open>main/providers/provider-retry.mjs\<close>): the catalogs of models in the main process. The check of a discovered catalog is
    idempotent on its results, on which the service rests: refreshes are entries in a queue per provider, one runs
    at a time, a result of a superseded connection is not published, and a refresh that somebody waits for is not
    aborted. Retries are bounded in number and delay.
    \<open>ProviderContract\<close> (\<open>main/providers/provider-adapter-contract.mjs\<close>, \<open>provider-adapter-registry.mjs\<close>,
    \<open>provider-runtime-state.mjs\<close>): what descriptors and definitions must satisfy, the environment of managed runtimes, and
    the cleanup of their directories, which spares every definition in use.
  \<^item> \<open>WorktreeController\<close> (\<open>worktree-controller.js\<close>): the checkout a new thread starts in. Every await is a point; the
    step relation lets any other operation, answer or failure in between. One operation owns the draft, a worktree is
    created only for a plan whose receipt was stored first, and the receipt survives all failures but a moved base.
  \<^item> \<open>SettingsStore\<close> (\<open>main/services/settings-store.mjs\<close>): the chain of mutations of the settings file, which refines the
    fold of its updates whatever file operations fail.
  \<^item> \<open>Tutorial\<close> (\<open>onboarding-tutorial-state.js\<close>, \<open>main/services/tutorial-lifecycle.mjs\<close>): the reducer of the tutorial against a
    small specification of its order, and its markers in the settings.
  \<^item> \<open>Updater\<close> (\<open>main/services/updater.mjs\<close>, \<open>updater-diagnostics.mjs\<close>): the phases of an update under every order of
    library events and calls.
  \<^item> \<open>ShareAttemptStore\<close> (\<open>main/services/share-publish-attempt-store.mjs\<close>), \<open>ShareCoordinator\<close>, \<open>ShareCoordinatorProofs\<close>,
    \<open>ShareCoordinatorRuns\<close> (\<open>main/services/share-publish-coordinator.mjs\<close>): publishing a conversation. The store is a
    directory of validated, versioned records with two capacities; it refines a map from references to records.
    The coordinator rests on the store's lemmas: one publication at a time, \<open>created\<close> only under the owner's
    authority and after the record is durable, telemetry at most once, and attempts that survive a restart.
    \<open>ShareServiceClient\<close> (\<open>main/services/share-service-client.mjs\<close>): the client of the sharing service below it. The service
    is a world that answers from the trace of the requests so far; the client reserves, uploads and finalizes in
    this order, keeps the credential with its owner, and reports only the codes of its closed list.
  \<^item> \<open>OperationReceipts\<close>, \<open>OperationRecorder\<close> (\<open>main/services/graph-operation-recorder.mjs\<close>): the typed receipts of what a
    harness did to a graph, with the secrets removed, and the closure that records them within its limits of
    events and bytes and says in the trace whether it is complete.

  \<^bold>\<open>Termination.\<close> Nothing runs on fuel. Loops are structural, or functions with a termination proof: the
  evictions by the size of the map, the retries by the attempts left, the level loop of the interaction graph by its number of passes, which the
  code bounds by the number of nodes, the shrinking of drafts by the number of drafts.

  \<^bold>\<open>Parameters and hypotheses\<close> are documented behaviour of the platform: \<open>decoder_law\<close> (base64 reads what it wrote),
  \<open>url_law\<close> (a falsy value is no absolute URL), \<open>sizes_fit\<close> (the JSON of a valid record is within 30 MiB), total
  preorders for locale comparison, fresh random references. Each is met by a concrete platform in a witness.

  \<^bold>\<open>Not modelled.\<close> The rendering in the DOM (\<open>workspace.js\<close>, \<open>threads.js\<close>, \<open>main.js\<close>, \<open>model-picker.js\<close> and the other views), the
  icon tables, the process services that spawn, download and connect (\<open>graphcomplete-runtime.mjs\<close>,
  \<open>relayer-app-server.mjs\<close>, \<open>managed-runtimes/\<close>, the account and error transports), the lifecycle service of provider definitions with its keychain and its adapters
  (\<open>provider-definition-service.mjs\<close>, \<open>implementations/\<close>), the drafts of node context (\<open>node-context-drafts.js\<close>: draft
  objects shared between nested awaits, which would need an explicit store), the evaluation application, the release
  and packaging scripts, the TypeScript packages, the Python client and the Rust crates. File-system errors
  other than a missing file, the rounding of floating point numbers and the parsing of what storage holds
  are outside the models and named where they matter.
\<close>

end
